(* ===== verification/Prelude.thy ===== *)
theory Prelude
  imports Main "HOL-Library.Word"
begin

text \<open>
  The shared base of the development.  The kernel's C functions read and write one kernel state
  and either return a value, call \<open>panic()\<close> (which never returns) or put the calling process to
  sleep; they are modelled as functions from a state to an \<open>outcome\<close> and composed with \<open>bind\<close>.
  The theory also has the loop combinator the counted \<open>for\<close> loops use, and the list facts that
  several components share.
\<close>

unbundle bit_operations_syntax

named_theorems monad_simps \<open>equations that run the primitives of the kernel monad\<close>

subsection \<open>Machine types (types.h)\<close>

type_synonym uchar = "8 word"
type_synonym ushort = "16 word"
type_synonym uint = "32 word"

subsection \<open>Outcomes and the kernel monad\<close>

text \<open>
  \<open>Ok x s\<close>: the function returned \<open>x\<close> in state \<open>s\<close>.  \<open>Panic msg\<close>: it called \<open>panic(msg)\<close>.
  \<open>Switched s\<close>: the calling process gave up the CPU in \<open>sched()\<close>, because it sleeps (its
  \<open>chan\<close> field says on what), yields or exits, and \<open>s\<close> is the state it left behind.
  \<open>Spins\<close>: a loop of the code does not end (its fuel ran out); the theorems about the loops
  that carry fuel show that this outcome does not occur.  \<open>Fault\<close>: the code follows a null
  pointer or an index outside its array.
\<close>

datatype ('s, 'a) outcome = Ok 'a 's | Panic string | Switched 's | Spins | Fault

definition ret :: "'a \<Rightarrow> 's \<Rightarrow> ('s, 'a) outcome" where
  "ret x s = Ok x s"

definition panic :: "string \<Rightarrow> 's \<Rightarrow> ('s, 'a) outcome" where
  "panic msg s = Panic msg"

definition spins :: "'s \<Rightarrow> ('s, 'a) outcome" where
  "spins s = Spins"

definition fault :: "'s \<Rightarrow> ('s, 'a) outcome" where
  "fault s = Fault"

definition reads :: "('s \<Rightarrow> 'a) \<Rightarrow> 's \<Rightarrow> ('s, 'a) outcome" where
  "reads f s = Ok (f s) s"

definition modify :: "('s \<Rightarrow> 's) \<Rightarrow> 's \<Rightarrow> ('s, unit) outcome" where
  "modify f s = Ok () (f s)"

definition bind ::
  "('s \<Rightarrow> ('s, 'a) outcome) \<Rightarrow> ('a \<Rightarrow> 's \<Rightarrow> ('s, 'b) outcome)
     \<Rightarrow> 's \<Rightarrow> ('s, 'b) outcome" where
  "bind m f s = (case m s of Ok x s' \<Rightarrow> f x s' | Panic e \<Rightarrow> Panic e
                   | Switched s' \<Rightarrow> Switched s' | Spins \<Rightarrow> Spins | Fault \<Rightarrow> Fault)"

definition andthen ::
  "('s \<Rightarrow> ('s, 'a) outcome) \<Rightarrow> ('s \<Rightarrow> ('s, 'b) outcome)
     \<Rightarrow> 's \<Rightarrow> ('s, 'b) outcome" where
  "andthen m n = bind m (\<lambda>_. n)"

text \<open>\<open>if(c) m;\<close> without an else branch.\<close>

definition whenM :: "bool \<Rightarrow> ('s \<Rightarrow> ('s, unit) outcome) \<Rightarrow> 's \<Rightarrow> ('s, unit) outcome" where
  "whenM c m = (if c then m else ret ())"

text \<open>\<open>if(c) panic(msg);\<close>\<close>

definition panic_if :: "bool \<Rightarrow> string \<Rightarrow> 's \<Rightarrow> ('s, unit) outcome" where
  "panic_if c msg = (if c then panic msg else ret ())"

text \<open>
  A counted \<open>for\<close> loop over the values its index takes.  The body returns \<open>None\<close> to go on and
  \<open>Some r\<close> to leave the loop (by \<open>break\<close>, \<open>goto\<close> or \<open>return\<close>) with \<open>r\<close>.
\<close>

primrec for_each :: "'i list \<Rightarrow> ('i \<Rightarrow> 's \<Rightarrow> ('s, 'r option) outcome)
    \<Rightarrow> 's \<Rightarrow> ('s, 'r option) outcome" where
  "for_each [] body = ret None"
| "for_each (i # is) body =
     bind (body i) (\<lambda>r. case r of None \<Rightarrow> for_each is body | Some x \<Rightarrow> ret (Some x))"

lemma bind_simps [simp, monad_simps]:
  "m s = Ok x s' \<Longrightarrow> bind m f s = f x s'"
  "m s = Panic e \<Longrightarrow> bind m f s = Panic e"
  "m s = Switched s' \<Longrightarrow> bind m f s = Switched s'"
  "m s = Spins \<Longrightarrow> bind m f s = Spins"
  "m s = Fault \<Longrightarrow> bind m f s = Fault"
  by (simp_all add: bind_def)

lemma ret_simp [simp, monad_simps]: "ret x s = Ok x s"
  by (simp add: ret_def)

lemma panic_simp [simp, monad_simps]: "panic msg s = Panic msg"
  by (simp add: panic_def)

lemma spins_simp [simp, monad_simps]: "spins s = Spins"
  by (simp add: spins_def)

lemma fault_simp [simp, monad_simps]: "fault s = Fault"
  by (simp add: fault_def)

lemma reads_simp [simp, monad_simps]: "reads f s = Ok (f s) s"
  by (simp add: reads_def)

lemma modify_simp [simp, monad_simps]: "modify f s = Ok () (f s)"
  by (simp add: modify_def)

lemma whenM_simps [simp, monad_simps]:
  "c \<Longrightarrow> whenM c m s = m s"
  "\<not> c \<Longrightarrow> whenM c m s = Ok () s"
  by (simp_all add: whenM_def)

lemma panic_if_simps [simp, monad_simps]:
  "c \<Longrightarrow> panic_if c msg s = Panic msg"
  "\<not> c \<Longrightarrow> panic_if c msg s = Ok () s"
  by (simp_all add: panic_if_def)

lemma andthen_simps [simp, monad_simps]:
  "m s = Ok x s' \<Longrightarrow> andthen m n s = n s'"
  "m s = Panic e \<Longrightarrow> andthen m n s = Panic e"
  "m s = Switched s' \<Longrightarrow> andthen m n s = Switched s'"
  "m s = Spins \<Longrightarrow> andthen m n s = Spins"
  "m s = Fault \<Longrightarrow> andthen m n s = Fault"
  by (simp_all add: andthen_def)

lemma bind_prims [simp, monad_simps]:
  "bind (reads f) g s = g (f s) s"
  "bind (ret x) h s = h x s"
  "bind (modify k) u s = u () (k s)"
  by (simp_all add: bind_def reads_def ret_def modify_def)

text \<open>Inversion: what a run that returned must have gone through.\<close>

lemma bind_Ok_iff:
  "bind m f s = Ok y t \<longleftrightarrow> (\<exists>x s'. m s = Ok x s' \<and> f x s' = Ok y t)"
  by (auto simp: bind_def split: outcome.splits)

lemma andthen_Ok_iff:
  "andthen m n s = Ok y t \<longleftrightarrow> (\<exists>x s'. m s = Ok x s' \<and> n s' = Ok y t)"
  by (simp add: andthen_def bind_Ok_iff)

lemma whenM_Ok_iff:
  "whenM c m s = Ok y t \<longleftrightarrow> (if c then m s = Ok () t else t = s)"
  by (auto simp: whenM_def)

lemma panic_if_Ok_iff: "panic_if c msg s = Ok y t \<longleftrightarrow> \<not> c \<and> t = s"
  by (auto simp: panic_if_def)

lemmas run_iff = bind_Ok_iff andthen_Ok_iff whenM_Ok_iff panic_if_Ok_iff

lemma bind_OkE:
  assumes "bind m f s = Ok y t"
  obtains x s' where "m s = Ok x s'" and "f x s' = Ok y t"
  using assms by (auto simp: bind_Ok_iff)

lemma andthen_OkE:
  assumes "andthen m n s = Ok y t"
  obtains x s' where "m s = Ok x s'" and "n s' = Ok y t"
  using assms by (auto simp: andthen_Ok_iff)

lemma bind_assoc: "bind (bind m f) g s = bind m (\<lambda>x. bind (f x) g) s"
  by (simp add: bind_def split: outcome.splits)

text \<open>
  \<open>returns r Q\<close>: the run ended, did not panic and did not sleep, and its value and final state
  satisfy \<open>Q\<close> (total correctness).  \<open>keeps m P\<close>: every run of \<open>m\<close> from a state in \<open>P\<close> that
  returns or goes to sleep leaves a state in \<open>P\<close>.
\<close>

definition returns :: "('s, 'a) outcome \<Rightarrow> ('a \<Rightarrow> 's \<Rightarrow> bool) \<Rightarrow> bool" where
  "returns r Q \<longleftrightarrow> (case r of Ok x s \<Rightarrow> Q x s | _ \<Rightarrow> False)"

definition keeps :: "('s \<Rightarrow> ('s, 'a) outcome) \<Rightarrow> ('s \<Rightarrow> bool) \<Rightarrow> bool" where
  "keeps m P \<longleftrightarrow> (\<forall>s. P s \<longrightarrow> (case m s of Ok x s' \<Rightarrow> P s' | Switched s' \<Rightarrow> P s' | _ \<Rightarrow> True))"

lemma returns_Ok [simp]: "returns (Ok x s) Q = Q x s"
  by (simp add: returns_def)

lemma returns_other [simp]:
  "\<not> returns (Panic e) Q" "\<not> returns (Switched s) Q" "\<not> returns Spins Q" "\<not> returns Fault Q"
  by (simp_all add: returns_def)

lemma returns_iff: "returns r Q \<longleftrightarrow> (\<exists>x s. r = Ok x s \<and> Q x s)"
  by (cases r) auto

lemma keepsI:
  assumes "\<And>s x s'. P s \<Longrightarrow> m s = Ok x s' \<Longrightarrow> P s'"
    and "\<And>s s'. P s \<Longrightarrow> m s = Switched s' \<Longrightarrow> P s'"
  shows "keeps m P"
proof -
  have "case m s of Ok x s' \<Rightarrow> P s' | Switched s' \<Rightarrow> P s' | _ \<Rightarrow> True" if s: "P s" for s
  proof (cases "m s")
    case (Ok x s')
    show ?thesis unfolding Ok by simp (rule assms(1) [OF s Ok])
  next
    case (Switched s')
    show ?thesis unfolding Switched by simp (rule assms(2) [OF s Switched])
  qed simp_all
  then show ?thesis unfolding keeps_def by blast
qed

lemma keeps_Ok: "keeps m P \<Longrightarrow> P s \<Longrightarrow> m s = Ok x s' \<Longrightarrow> P s'"
  unfolding keeps_def by (drule spec [of _ s]) simp

lemma keeps_Switched: "keeps m P \<Longrightarrow> P s \<Longrightarrow> m s = Switched s' \<Longrightarrow> P s'"
  unfolding keeps_def by (drule spec [of _ s]) simp

lemma keeps_bind [intro]:
  assumes "keeps m P" and "\<And>x. keeps (f x) P"
  shows "keeps (bind m f) P"
proof (rule keepsI)
  fix s x s'
  assume "P s" and "bind m f s = Ok x s'"
  then show "P s'" using assms by (auto simp: bind_Ok_iff dest: keeps_Ok)
next
  fix s s'
  assume "P s" and "bind m f s = Switched s'"
  then show "P s'"
    using assms by (cases "m s") (auto simp: bind_def dest: keeps_Ok keeps_Switched)
qed

lemma keeps_andthen [intro]: "keeps m P \<Longrightarrow> keeps n P \<Longrightarrow> keeps (andthen m n) P"
  by (auto simp: andthen_def)

lemma keeps_prims [intro, simp]:
  "keeps (ret x) P" "keeps (Ok x) P" "keeps (panic e) P" "keeps spins P" "keeps fault P" "keeps (reads g) P" "keeps (panic_if c e) P"
  by (auto simp: keeps_def panic_if_def)

lemma keeps_modify: "(\<And>s. P s \<Longrightarrow> P (f s)) \<Longrightarrow> keeps (modify f) P"
  by (simp add: keeps_def)

lemma keeps_whenM [intro]: "keeps m P \<Longrightarrow> keeps (whenM c m) P"
  by (cases c) (auto simp: keeps_def)

lemma keeps_for_each [intro]:
  "(\<And>i. i \<in> set is \<Longrightarrow> keeps (body i) P) \<Longrightarrow> keeps (for_each is body) P"
proof (induction "is")
  case Nil
  then show ?case by simp
next
  case (Cons i is')
  have "keeps (case r of None \<Rightarrow> for_each is' body | Some x \<Rightarrow> ret (Some x)) P" for r
    using Cons by (cases r) auto
  then show ?case using Cons.prems by auto
qed

text \<open>A loop whose body never leaves early and is always defined.\<close>

lemma for_each_all:
  assumes "\<And>i s. i \<in> set is \<Longrightarrow> body i s = Ok None (step i s)"
  shows "for_each is body s = Ok None (fold step is s)"
  using assms by (induction "is" arbitrary: s) auto

text \<open>A loop that passes over indices without changing the state and stops at the first hit.\<close>

lemma for_each_first:
  assumes "\<And>j. j \<in> set is \<Longrightarrow> \<not> p j \<Longrightarrow> body j s = Ok None s"
    and "find p is = Some i" and "\<And>t. body i s \<noteq> Ok None t"
  shows "for_each is body s = body i s"
  using assms
proof (induction "is")
  case Nil
  then show ?case by simp
next
  case (Cons a is')
  show ?case
  proof (cases "p a")
    case True
    with Cons.prems have a: "a = i" by simp
    show ?thesis
    proof (cases "body i s")
      case (Ok r t)
      with Cons.prems obtain x where "r = Some x" by (cases r) auto
      with Ok a show ?thesis by simp
    qed (simp_all add: a)
  next
    case False
    then show ?thesis using Cons by simp
  qed
qed

lemma for_each_none:
  assumes "\<And>j. j \<in> set is \<Longrightarrow> body j s = Ok None s"
  shows "for_each is body s = Ok None s"
  using assms by (induction "is") auto

text \<open>A loop that searches without changing the state, and its first hit.\<close>

lemma for_each_find:
  assumes "\<And>i. i \<in> set is \<Longrightarrow> body i s = Ok (if p i then Some (g i) else None) s"
  shows "for_each is body s = Ok (map_option g (find p is)) s"
  using assms by (induction "is") auto

text \<open>A loop whose first indices keep an invariant and report nothing goes on with the rest.\<close>

lemma for_each_skips:
  assumes "I s" and "\<And>j t. j \<in> set is \<Longrightarrow> I t \<Longrightarrow> \<exists>u. body j t = Ok None u \<and> I u"
  shows "\<exists>t. I t \<and> (\<forall>rest. for_each (is @ rest) body s = for_each rest body t)"
  using assms
proof (induction "is" arbitrary: s)
  case (Cons j js)
  then obtain u where u: "body j s = Ok None u" "I u" by fastforce
  obtain t where "I t" "\<forall>rest. for_each (js @ rest) body u = for_each rest body t"
    using Cons.IH [OF u(2)] Cons.prems(2) by fastforce
  then show ?case using u(1) by auto
qed auto

subsection \<open>Lists\<close>

lemma nth_list_update_if:
  "i < length xs \<Longrightarrow> xs[i := x] ! j = (if i = j then x else xs ! j)"
  by (auto simp: nth_list_update)

lemma find_Some_nth:
  "find p xs = Some x \<Longrightarrow> \<exists>i < length xs. xs ! i = x \<and> p x \<and> (\<forall>j < i. \<not> p (xs ! j))"
  by (auto simp: find_Some_iff)

text \<open>The first index below \<open>n\<close> that satisfies \<open>p\<close>.\<close>

lemma find_upt_Some:
  "find p [0..<n] = Some i \<longleftrightarrow> i < n \<and> p i \<and> (\<forall>j < i. \<not> p j)"
proof
  assume "find p [0..<n] = Some i"
  then show "i < n \<and> p i \<and> (\<forall>j < i. \<not> p j)"
    by (fastforce simp: find_Some_iff)
next
  assume "i < n \<and> p i \<and> (\<forall>j < i. \<not> p j)"
  then show "find p [0..<n] = Some i"
    by (auto simp: find_Some_iff intro!: exI[of _ i])
qed

lemma find_upt_None: "find p [0..<n] = None \<longleftrightarrow> (\<forall>i < n. \<not> p i)"
  by (auto simp: find_None_iff)

lemma take_drop_update_out:
  "k < a \<or> a + n \<le> k \<Longrightarrow> take n (drop a (xs[k := x])) = take n (drop a xs)"
  by (rule nth_equalityI) (auto simp: nth_list_update)

subsection \<open>Words\<close>

lemma unat_bound: "unat (w :: uint) < 2 ^ 32"
proof -
  have "unat w < 2 ^ LENGTH(32)" by (rule unsigned_less)
  then show ?thesis by (simp only: len_num1 len_bit0 mult_1_right) simp
qed

lemma unat_of_nat32: "n < 2 ^ 32 \<Longrightarrow> unat (word_of_nat n :: uint) = n"
  by (simp add: unsigned_of_nat take_bit_nat_eq_self)

subsection \<open>Digits\<close>

text \<open>
  The digits of a number, as the \<open>do\<close> loops of the kernel's and the user library's \<open>printint\<close>
  produce them: lowest digit first, at least one.
\<close>

function digits_of :: "nat \<Rightarrow> nat \<Rightarrow> nat list" where
  "digits_of x base = (x mod base) # (if x div base = 0 \<or> base < 2 then [] else digits_of (x div base) base)"
  by pat_completeness auto
termination
  by (relation "measure fst") (auto simp: div_greater_zero_iff intro!: div_less_dividend)

declare digits_of.simps [simp del]

text \<open>The number that a list of digits, highest first, stands for.\<close>

definition digits_value :: "nat \<Rightarrow> nat list \<Rightarrow> nat" where
  "digits_value base ds = foldl (\<lambda>n d. n * base + d) 0 ds"

lemma digits_value_simps [simp]:
  "digits_value base [] = 0"
  "digits_value base (ds @ [d]) = digits_value base ds * base + d"
  by (simp_all add: digits_value_def)

lemma digits_of_nonempty [simp]: "digits_of x base \<noteq> []"
  by (subst digits_of.simps) simp

lemma digits_of_value:
  assumes "2 \<le> base"
  shows "digits_value base (rev (digits_of x base)) = x"
  using assms
proof (induction x base rule: digits_of.induct)
  case (1 x base)
  show ?case
  proof (cases "x div base = 0")
    case True
    then show ?thesis
      using 1 by (subst digits_of.simps) (auto simp: digits_value_def div_eq_0_iff)
  next
    case False
    then have "digits_value base (rev (digits_of (x div base) base)) = x div base"
      using 1 by simp
    then show ?thesis using False 1(2) by (subst digits_of.simps) simp
  qed
qed

lemma digits_of_less:
  assumes "2 \<le> base" and "d \<in> set (digits_of x base)"
  shows "d < base"
  using assms
proof (induction x base rule: digits_of.induct)
  case (1 x base)
  from 1(3) have "d = x mod base \<or> (x div base \<noteq> 0 \<and> d \<in> set (digits_of (x div base) base))"
    by (subst (asm) digits_of.simps) (auto split: if_splits)
  then show ?case using 1 by auto
qed

lemma digits_of_lead:
  assumes "2 \<le> base" and "0 < x"
  shows "last (digits_of x base) \<noteq> 0"
  using assms
proof (induction x base rule: digits_of.induct)
  case (1 x base)
  show ?case
  proof (cases "x div base = 0")
    case True
    then have "x < base" using 1(2) by (simp add: div_eq_0_iff)
    then show ?thesis using True 1 by (subst digits_of.simps) simp
  next
    case False
    then show ?thesis using 1 by (subst digits_of.simps) simp
  qed
qed

end
