(* ===== verification/Bytes.thy ===== *)
theory Bytes
  imports Prelude
begin

text \<open>
  Blocks of bytes and the little-endian integers the kernel keeps in them: a C cast of a buffer
  to a struct pointer reads and writes these.  A block is a list of bytes; a \<open>uint\<close> or
  \<open>ushort\<close> in it is read as a natural number below \<open>2 ^ 32\<close> or \<open>2 ^ 16\<close>, a \<open>short\<close> as an
  integer in two's complement.
\<close>

type_synonym bytes = "uchar list"

subsection \<open>Slices: what memmove copies out of and into a block\<close>

definition slice :: "nat \<Rightarrow> nat \<Rightarrow> 'a list \<Rightarrow> 'a list" where
  "slice off n d = take n (drop off d)"

definition blit :: "nat \<Rightarrow> 'a list \<Rightarrow> 'a list \<Rightarrow> 'a list" where
  "blit off src d = take off d @ src @ drop (off + length src) d"

lemma length_slice [simp]: "length (slice off n d) = min n (length d - off)"
  by (simp add: slice_def min.commute)

lemma nth_slice [simp]: "i < n \<Longrightarrow> off + i < length d \<Longrightarrow> slice off n d ! i = d ! (off + i)"
  by (simp add: slice_def)

lemma length_blit [simp]: "off + length src \<le> length d \<Longrightarrow> length (blit off src d) = length d"
  by (simp add: blit_def)

lemma nth_blit:
  "off + length src \<le> length d \<Longrightarrow> i < length d \<Longrightarrow>
    blit off src d ! i = (if off \<le> i \<and> i < off + length src then src ! (i - off) else d ! i)"
  by (auto simp: blit_def nth_append)

lemma slice_blit_same:
  "off + length src \<le> length d \<Longrightarrow> slice off (length src) (blit off src d) = src"
  by (simp add: slice_def blit_def)

lemma slice_blit_other:
  assumes "off + length src \<le> length d" and "a + n \<le> off \<or> off + length src \<le> a"
  shows "slice a n (blit off src d) = slice a n d"
  using assms by (intro nth_equalityI) (auto simp: nth_blit)

lemma blit_slice_id: "off + n \<le> length d \<Longrightarrow> blit off (slice off n d) d = d"
  by (intro nth_equalityI) (auto simp: nth_blit)

lemma blit_Nil [simp]: "blit off [] d = d"
  by (simp add: blit_def)

lemma slice_0_all [simp]: "slice 0 (length d) d = d"
  by (simp add: slice_def)

lemma slice_append: "slice off (n + m) d = slice off n d @ slice (off + n) m d"
  by (simp only: slice_def take_add drop_drop add.commute [of off])

subsection \<open>Little-endian integers\<close>

definition get16 :: "bytes \<Rightarrow> nat \<Rightarrow> nat" where
  "get16 d i = unat (d ! i) + 256 * unat (d ! (i + 1))"

definition put16 :: "bytes \<Rightarrow> nat \<Rightarrow> nat \<Rightarrow> bytes" where
  "put16 d i v = d[i := word_of_nat v, i + 1 := word_of_nat (v div 256)]"

definition get32 :: "bytes \<Rightarrow> nat \<Rightarrow> nat" where
  "get32 d i = get16 d i + 65536 * get16 d (i + 2)"

definition put32 :: "bytes \<Rightarrow> nat \<Rightarrow> nat \<Rightarrow> bytes" where
  "put32 d i v = put16 (put16 d i v) (i + 2) (v div 65536)"

definition get_short :: "bytes \<Rightarrow> nat \<Rightarrow> int" where
  "get_short d i = sint (word_of_nat (get16 d i) :: 16 word)"

definition put_short :: "bytes \<Rightarrow> nat \<Rightarrow> int \<Rightarrow> bytes" where
  "put_short d i v = put16 d i (nat (v mod 65536))"

lemma unat_byte [simp]: "unat (word_of_nat v :: uchar) = v mod 256"
  by (simp add: unat_of_nat)

lemma get16_less: "get16 d i < 65536"
  using unsigned_less [of "d ! i", where ?'a = nat] unsigned_less [of "d ! (i + 1)", where ?'a = nat] by (simp add: get16_def)

lemma get32_less: "get32 d i < 4294967296"
  using get16_less [of d i] get16_less [of d "i + 2"] by (simp add: get32_def)

lemma length_put16 [simp]: "length (put16 d i v) = length d"
  by (simp add: put16_def)

lemma length_put32 [simp]: "length (put32 d i v) = length d"
  by (simp add: put32_def)

lemma length_put_short [simp]: "length (put_short d i v) = length d"
  by (simp add: put_short_def)

lemma get16_put16_same: "i + 2 \<le> length d \<Longrightarrow> get16 (put16 d i v) i = v mod 65536"
  using mod_mult2_eq [of v 256 256]
  by (simp add: get16_def put16_def nth_list_update)

lemma get16_put16_other:
  "j + 2 \<le> i \<or> i + 2 \<le> j \<Longrightarrow> get16 (put16 d i v) j = get16 d j"
  by (auto simp: get16_def put16_def nth_list_update)

lemma get32_put32_same:
  assumes "i + 4 \<le> length d"
  shows "get32 (put32 d i v) i = v mod 4294967296"
proof -
  have "v mod (65536 * 65536) = 65536 * (v div 65536 mod 65536) + v mod 65536"
    by (rule mod_mult2_eq)
  then show ?thesis
    using assms by (simp add: get32_def put32_def get16_put16_same get16_put16_other)
qed

lemma get32_put32_other:
  "j + 4 \<le> i \<or> i + 4 \<le> j \<Longrightarrow> get32 (put32 d i v) j = get32 d j"
  by (auto simp: get32_def put32_def get16_put16_other)

lemma get16_put32_other:
  "j + 2 \<le> i \<or> i + 4 \<le> j \<Longrightarrow> get16 (put32 d i v) j = get16 d j"
  by (auto simp: put32_def get16_put16_other)

lemma get32_put16_other:
  "j + 4 \<le> i \<or> i + 2 \<le> j \<Longrightarrow> get32 (put16 d i v) j = get32 d j"
  by (auto simp: get32_def get16_put16_other)

lemma nth_put16_other: "j < i \<or> i + 2 \<le> j \<Longrightarrow> put16 d i v ! j = d ! j"
  by (auto simp: put16_def nth_list_update)

lemma nth_put32_other: "j < i \<or> i + 4 \<le> j \<Longrightarrow> put32 d i v ! j = d ! j"
  by (auto simp: put32_def nth_put16_other)

lemma get16_cong: "(\<And>k. k < 2 \<Longrightarrow> d ! (i + k) = e ! (j + k)) \<Longrightarrow> get16 d i = get16 e j"
proof -
  assume *: "\<And>k. k < 2 \<Longrightarrow> d ! (i + k) = e ! (j + k)"
  from * [of 0] * [of 1] show ?thesis by (simp add: get16_def)
qed

lemma get32_cong:
  assumes "\<And>k. k < 4 \<Longrightarrow> d ! (i + k) = e ! (j + k)"
  shows "get32 d i = get32 e j"
proof -
  have "get16 d i = get16 e j" by (rule get16_cong) (simp add: assms)
  moreover have "get16 d (i + 2) = get16 e (j + 2)"
    by (rule get16_cong) (use assms [of "2 + _"] in \<open>simp add: add.assoc\<close>)
  ultimately show ?thesis by (simp add: get32_def)
qed

lemma get16_slice:
  "off + i + 2 \<le> length d \<Longrightarrow> i + 2 \<le> n \<Longrightarrow> get16 (slice off n d) i = get16 d (off + i)"
  by (simp add: get16_def)

lemma get32_slice:
  "off + i + 4 \<le> length d \<Longrightarrow> i + 4 \<le> n \<Longrightarrow> get32 (slice off n d) i = get32 d (off + i)"
  by (simp add: get32_def get16_slice add.assoc)

lemma get_short_put_short:
  assumes "i + 2 \<le> length d" and "- 32768 \<le> v" and "v < 32768"
  shows "get_short (put_short d i v) i = v"
proof -
  have "nat (v mod 65536) mod 65536 = nat (v mod 65536)"
    by (simp add: nat_less_iff)
  moreover have "(word_of_nat (nat (v mod 65536)) :: 16 word) = word_of_int v"
    by (simp add: of_nat_nat word_of_int_eq_iff take_bit_eq_mod)
  moreover have "sint (word_of_int v :: 16 word) = v"
    using assms(2,3) by (simp add: signed_of_int signed_take_bit_int_eq_self)
  ultimately show ?thesis
    using assms(1) by (simp add: get_short_def put_short_def get16_put16_same)
qed

end
