(* ===== verification/Kstring.thy ===== *)
theory Kstring
  imports Prelude
begin

text \<open>
  string.c: the kernel's memory and string routines, over a byte memory indexed by address.
  Pointers are the addresses; the objects these routines get do not wrap around the address
  space, so addresses and counts are natural numbers.  The routines that walk to a NUL byte
  without a bound return an option, \<open>None\<close> when there is no NUL.
\<close>

type_synonym mem = "nat \<Rightarrow> uchar"

subsection \<open>x86.h: stosb and stosl\<close>

primrec stosb :: "nat \<Rightarrow> uint \<Rightarrow> nat \<Rightarrow> mem \<Rightarrow> mem" where
  "stosb addr data 0 m = m"
| "stosb addr data (Suc cnt) m = stosb (addr + 1) data cnt (m(addr := ucast data))"

primrec stosl :: "nat \<Rightarrow> uint \<Rightarrow> nat \<Rightarrow> mem \<Rightarrow> mem" where
  "stosl addr data 0 m = m"
| "stosl addr data (Suc cnt) m =
     stosl (addr + 4) data cnt
       (m(addr := ucast data, addr + 1 := ucast (drop_bit 8 data),
          addr + 2 := ucast (drop_bit 16 data), addr + 3 := ucast (drop_bit 24 data)))"

subsection \<open>memset, memcmp, memmove, memcpy\<close>

definition memset :: "nat \<Rightarrow> uint \<Rightarrow> nat \<Rightarrow> mem \<Rightarrow> mem" where
  "memset dst c n m =
     (if dst mod 4 = 0 \<and> n mod 4 = 0 then
        (let c = c AND 0xFF in
         stosl dst (push_bit 24 c OR push_bit 16 c OR push_bit 8 c OR c) (n div 4) m)
      else stosb dst c n m)"

primrec memcmp :: "nat \<Rightarrow> nat \<Rightarrow> nat \<Rightarrow> mem \<Rightarrow> int" where
  "memcmp s1 s2 0 m = 0"
| "memcmp s1 s2 (Suc n) m =
     (if m s1 \<noteq> m s2 then uint (m s1) - uint (m s2) else memcmp (s1 + 1) (s2 + 1) n m)"

text \<open>\<open>while(n-- > 0) *--d = *--s;\<close> and \<open>while(n-- > 0) *d++ = *s++;\<close>\<close>

primrec move_down :: "nat \<Rightarrow> nat \<Rightarrow> nat \<Rightarrow> mem \<Rightarrow> mem" where
  "move_down d s 0 m = m"
| "move_down d s (Suc n) m = move_down (d - 1) (s - 1) n (m(d - 1 := m (s - 1)))"

primrec move_up :: "nat \<Rightarrow> nat \<Rightarrow> nat \<Rightarrow> mem \<Rightarrow> mem" where
  "move_up d s 0 m = m"
| "move_up d s (Suc n) m = move_up (d + 1) (s + 1) n (m(d := m s))"

definition memmove :: "nat \<Rightarrow> nat \<Rightarrow> nat \<Rightarrow> mem \<Rightarrow> mem" where
  "memmove dst src n m =
     (if src < dst \<and> src + n > dst then move_down (dst + n) (src + n) n m
      else move_up dst src n m)"

definition memcpy :: "nat \<Rightarrow> nat \<Rightarrow> nat \<Rightarrow> mem \<Rightarrow> mem" where
  "memcpy dst src n m = memmove dst src n m"

subsection \<open>strncmp, strncpy, safestrcpy, strlen\<close>

primrec strncmp :: "nat \<Rightarrow> nat \<Rightarrow> nat \<Rightarrow> mem \<Rightarrow> int" where
  "strncmp p q 0 m = 0"
| "strncmp p q (Suc n) m =
     (if m p \<noteq> 0 \<and> m p = m q then strncmp (p + 1) (q + 1) n m
      else uint (m p) - uint (m q))"

primrec zero_fill :: "nat \<Rightarrow> nat \<Rightarrow> mem \<Rightarrow> mem" where
  "zero_fill s 0 m = m"
| "zero_fill s (Suc n) m = zero_fill (s + 1) n (m(s := 0))"

text \<open>The first loop of \<open>strncpy\<close>, which falls into the second one after it copied a NUL.\<close>

primrec strncpy_loop :: "nat \<Rightarrow> nat \<Rightarrow> nat \<Rightarrow> mem \<Rightarrow> mem" where
  "strncpy_loop s t 0 m = m"
| "strncpy_loop s t (Suc n) m =
     (if m t \<noteq> 0 then strncpy_loop (s + 1) (t + 1) n (m(s := m t))
      else zero_fill (s + 1) n (m(s := m t)))"

definition strncpy :: "nat \<Rightarrow> nat \<Rightarrow> int \<Rightarrow> mem \<Rightarrow> mem" where
  "strncpy s t n m = strncpy_loop s t (nat n) m"

text \<open>
  \<open>while(--n > 0 && (*s++ = *t++) != 0); *s = 0;\<close> with the count already decremented: the
  argument is the number of bytes the loop may still copy.
\<close>

primrec safestrcpy_loop :: "nat \<Rightarrow> nat \<Rightarrow> nat \<Rightarrow> mem \<Rightarrow> mem" where
  "safestrcpy_loop s t 0 m = m(s := 0)"
| "safestrcpy_loop s t (Suc n) m =
     (if m t \<noteq> 0 then safestrcpy_loop (s + 1) (t + 1) n (m(s := m t))
      else (m(s := m t))(s + 1 := 0))"

definition safestrcpy :: "nat \<Rightarrow> nat \<Rightarrow> int \<Rightarrow> mem \<Rightarrow> mem" where
  "safestrcpy s t n m = (if n \<le> 0 then m else safestrcpy_loop s t (nat (n - 1)) m)"

partial_function (option) strlen_from :: "nat \<Rightarrow> nat \<Rightarrow> mem \<Rightarrow> nat option" where
  "strlen_from s n m = (if m (s + n) \<noteq> 0 then strlen_from s (n + 1) m else Some n)"

definition strlen :: "nat \<Rightarrow> mem \<Rightarrow> nat option" where
  "strlen s m = strlen_from s 0 m"

subsection \<open>What the loops write\<close>

lemma stosb_apply:
  "stosb addr data cnt m a = (if addr \<le> a \<and> a < addr + cnt then ucast data else m a)"
  by (induction cnt arbitrary: addr m) auto

lemma stosl_apply:
  assumes "\<And>k. k < 4 \<Longrightarrow> ucast (drop_bit (8 * k) data) = b"
  shows "stosl addr data cnt m a = (if addr \<le> a \<and> a < addr + 4 * cnt then b else m a)"
proof (induction cnt arbitrary: addr m)
  case 0
  then show ?case by auto
next
  case (Suc cnt)
  have "ucast data = b" "ucast (drop_bit 8 data) = b"
    "ucast (drop_bit 16 data) = b" "ucast (drop_bit 24 data) = b"
    using assms [of 0] assms [of 1] assms [of 2] assms [of 3] by simp_all
  then show ?case by (auto simp: Suc)
qed

lemma memset_pattern:
  fixes c :: uint
  assumes "k < 4" and "d = c AND 0xFF"
  shows "(ucast (drop_bit (8 * k)
           (push_bit 24 d OR push_bit 16 d OR push_bit 8 d OR d)) :: uchar) = ucast c"
proof -
  have d: "bit d j \<longleftrightarrow> j < 8 \<and> bit c j" for j
  proof -
    have "d = take_bit 8 c"
      using assms(2) by (simp add: take_bit_eq_mask mask_eq_exp_minus_1)
    then show ?thesis by (auto simp only: bit_take_bit_iff)
  qed
  show ?thesis
  proof (rule bit_word_eqI)
    fix n
    assume "n < LENGTH(8)"
    then have n: "n < 8" by simp
    from assms(1) consider "k = 0" | "k = 1" | "k = 2" | "k = 3" by linarith
    then show "bit (ucast (drop_bit (8 * k)
        (push_bit 24 d OR push_bit 16 d OR push_bit 8 d OR d)) :: uchar) n
      \<longleftrightarrow> bit (ucast c :: uchar) n"
      by cases (use n in \<open>simp_all add: bit_ucast_iff bit_drop_bit_eq bit_or_iff
          bit_push_bit_iff d\<close>)
  qed
qed

lemma move_up_apply:
  assumes "d \<le> s \<or> s + n \<le> d"
  shows "move_up d s n m a = (if d \<le> a \<and> a < d + n then m (s + (a - d)) else m a)"
  using assms
proof (induction n arbitrary: d s m)
  case 0
  then show ?case by auto
next
  case (Suc n)
  have "move_up (d + 1) (s + 1) n (m(d := m s)) a =
      (if d + 1 \<le> a \<and> a < d + 1 + n then (m(d := m s)) (s + 1 + (a - (d + 1)))
       else (m(d := m s)) a)"
    using Suc.prems by (intro Suc.IH) auto
  moreover have "a \<noteq> d \<Longrightarrow> d \<le> a \<Longrightarrow> s + 1 + (a - (d + 1)) = s + (a - d)" by linarith
  moreover have "a \<noteq> d \<Longrightarrow> d \<le> a \<Longrightarrow> a < d + Suc n \<Longrightarrow> s + (a - d) \<noteq> d"
    using Suc.prems by linarith
  ultimately show ?case
    by (cases "a = d") (auto simp del: add_Suc add_Suc_right simp: less_Suc_eq_le)
qed

lemma move_down_apply:
  assumes "n \<le> s" and "s \<le> d"
  shows "move_down d s n m a = (if d - n \<le> a \<and> a < d then m (s - (d - a)) else m a)"
  using assms
proof (induction n arbitrary: d s m)
  case 0
  then show ?case by auto
next
  case (Suc n)
  have "move_down (d - 1) (s - 1) n (m(d - 1 := m (s - 1))) a =
      (if d - 1 - n \<le> a \<and> a < d - 1
       then (m(d - 1 := m (s - 1))) (s - 1 - (d - 1 - a))
       else (m(d - 1 := m (s - 1))) a)"
    using Suc.prems by (intro Suc.IH) auto
  moreover have "a = d - 1 \<or> a < d - 1 \<or> d \<le> a" by linarith
  ultimately show ?case using Suc.prems by auto
qed

lemma zero_fill_apply:
  "zero_fill s n m a = (if s \<le> a \<and> a < s + n then 0 else m a)"
  by (induction n arbitrary: s m) auto

lemma strncpy_loop_frame:
  "a < s \<or> s + n \<le> a \<Longrightarrow> strncpy_loop s t n m a = m a"
  by (induction n arbitrary: s t m) (auto simp: zero_fill_apply)

lemma safestrcpy_loop_frame:
  "a < s \<or> s + n < a \<Longrightarrow> safestrcpy_loop s t n m a = m a"
  by (induction n arbitrary: s t m) auto

text \<open>\<open>cstr m t xs\<close>: the C string at \<open>t\<close> has the bytes \<open>xs\<close> before its NUL.\<close>

definition cstr :: "mem \<Rightarrow> nat \<Rightarrow> uchar list \<Rightarrow> bool" where
  "cstr m t xs \<longleftrightarrow> (\<forall>i < length xs. m (t + i) = xs ! i \<and> xs ! i \<noteq> 0) \<and> m (t + length xs) = 0"

lemma cstr_Nil [simp]: "cstr m t [] \<longleftrightarrow> m t = 0"
  by (simp add: cstr_def)

lemma cstr_Cons [simp]: "cstr m t (x # xs) \<longleftrightarrow> x \<noteq> 0 \<and> m t = x \<and> cstr m (t + 1) xs"
proof -
  have "(\<forall>i < length (x # xs). m (t + i) = (x # xs) ! i \<and> (x # xs) ! i \<noteq> 0) \<longleftrightarrow>
      (m t = x \<and> x \<noteq> 0) \<and> (\<forall>i < length xs. m (t + 1 + i) = xs ! i \<and> xs ! i \<noteq> 0)"
    by (simp add: All_less_Suc2)
  then show ?thesis by (auto simp: cstr_def)
qed

lemma cstr_upd_out: "a < t \<or> t + length xs < a \<Longrightarrow> cstr (m(a := b)) t xs = cstr m t xs"
proof -
  assume "a < t \<or> t + length xs < a"
  then have "(m(a := b)) (t + i) = m (t + i)" if "i \<le> length xs" for i
    using that by auto
  then show ?thesis unfolding cstr_def by (metis less_imp_le order_refl)
qed

lemma strlen_from_cstr: "cstr m (s + n) xs \<Longrightarrow> strlen_from s n m = Some (n + length xs)"
proof (induction xs arbitrary: n)
  case Nil
  then show ?case by (subst strlen_from.simps) simp
next
  case (Cons x xs)
  then have "strlen_from s (n + 1) m = Some (n + 1 + length xs)"
    by (intro Cons.IH) (simp add: add.assoc)
  with Cons.prems show ?case by (subst strlen_from.simps) simp
qed

lemma safestrcpy_loop_cstr:
  assumes "cstr m t xs" and "s + n < t \<or> t + length xs < s"
  shows "cstr (safestrcpy_loop s t n m) s (take n xs)"
  using assms
proof (induction n arbitrary: s t m xs)
  case 0
  then show ?case by simp
next
  case (Suc n)
  show ?case
  proof (cases xs)
    case Nil
    then show ?thesis using Suc.prems by auto
  next
    case (Cons x ys)
    then have x: "x \<noteq> 0" "m t = x" using Suc.prems by auto
    let ?m = "m(s := x)"
    have "cstr m (t + 1) ys" using Suc.prems(1) Cons by simp
    then have "cstr ?m (t + 1) ys"
      by (subst cstr_upd_out) (use Suc.prems(2) Cons in auto)
    then have "cstr (safestrcpy_loop (s + 1) (t + 1) n ?m) (s + 1) (take n ys)"
      by (rule Suc.IH) (use Suc.prems(2) Cons in auto)
    moreover have "safestrcpy_loop (s + 1) (t + 1) n ?m s = x"
      by (subst safestrcpy_loop_frame) auto
    ultimately show ?thesis using Cons x by simp
  qed
qed

subsection \<open>Properties\<close>

lemma memset_spec:
  "memset dst c n m a = (if dst \<le> a \<and> a < dst + n then ucast c else m a)"
proof (cases "dst mod 4 = 0 \<and> n mod 4 = 0")
  case True
  then have n: "4 * (n div 4) = n" by auto
  define d where "d = c AND 0xFF"
  have "stosl dst (push_bit 24 d OR push_bit 16 d OR push_bit 8 d OR d) (n div 4) m a
      = (if dst \<le> a \<and> a < dst + 4 * (n div 4) then ucast c else m a)"
    by (rule stosl_apply) (rule memset_pattern [OF _ d_def])
  then have "memset dst c n m a = (if dst \<le> a \<and> a < dst + 4 * (n div 4) then ucast c else m a)"
    unfolding memset_def Let_def d_def if_P [OF True] .
  with n show ?thesis by simp
next
  case False
  then show ?thesis by (auto simp: memset_def stosb_apply)
qed

lemma memmove_spec:
  "memmove dst src n m a = (if dst \<le> a \<and> a < dst + n then m (src + (a - dst)) else m a)"
proof (cases "src < dst \<and> src + n > dst")
  case True
  then show ?thesis
    by (auto simp: memmove_def move_down_apply intro!: arg_cong [of _ _ m])
next
  case False
  then have "dst \<le> src \<or> src + n \<le> dst" by auto
  with False show ?thesis by (auto simp: memmove_def move_up_apply)
qed

lemma safestrcpy_spec:
  assumes "cstr m t xs" and "0 < n" and "s + nat n \<le> t \<or> t + length xs < s"
  shows "cstr (safestrcpy s t n m) s (take (nat (n - 1)) xs)"
    and "a < s \<or> s + nat n \<le> a \<Longrightarrow> safestrcpy s t n m a = m a"
proof -
  show "cstr (safestrcpy s t n m) s (take (nat (n - 1)) xs)"
    using assms by (auto simp: safestrcpy_def intro!: safestrcpy_loop_cstr)
  show "safestrcpy s t n m a = m a" if "a < s \<or> s + nat n \<le> a"
    using that assms(2) by (auto simp: safestrcpy_def intro!: safestrcpy_loop_frame)
qed

text \<open>The sign of \<open>strncmp\<close> is that of the first difference within the bound.\<close>

lemma strncmp_eq_0_iff:
  assumes "cstr m p xs" and "cstr m q ys"
  shows "strncmp p q n m = 0 \<longleftrightarrow> take n xs = take n ys"
  using assms
proof (induction n arbitrary: p q xs ys)
  case 0
  then show ?case by simp
next
  case (Suc n)
  show ?case
  proof (cases xs; cases ys)
    fix x xs' y ys'
    assume "xs = x # xs'" "ys = y # ys'"
    with Suc show ?thesis by (auto simp: word_uint_eq_iff)
  qed (use Suc in \<open>auto simp: uint_0_iff\<close>)
qed

end
