(* ===== verification/Kstring_Claims.thy ===== *)
theory Kstring_Claims
  imports Kstring
begin

text \<open>What string.c promises, whatever way its loops go.\<close>

text \<open>C12: \<open>memmove\<close> copies as if through a temporary: for every source and destination, whether they
  overlap or not, byte \<open>dst + k\<close> becomes the old byte \<open>src + k\<close> and no other byte changes.\<close>

theorem memmove_copies:
  "memmove dst src n m a = (if dst \<le> a \<and> a < dst + n then m (src + (a - dst)) else m a)"
  by (rule memmove_spec)

text \<open>\<open>memset\<close> sets every byte of the range, and no other, to the low byte of its argument, on
  the path that stores words and on the one that stores bytes.\<close>

theorem memset_fills:
  "memset dst c n m a = (if dst \<le> a \<and> a < dst + n then ucast c else m a)"
  by (rule memset_spec)

text \<open>C13: \<open>safestrcpy\<close> always leaves a NUL-terminated string, the longest prefix of the source
  that fits, and writes nothing outside the \<open>n\<close> bytes of the destination.\<close>

theorem safestrcpy_terminates_string:
  assumes "cstr m t xs" and "0 < n" and "s + nat n \<le> t \<or> t + length xs < s"
  shows "cstr (safestrcpy s t n m) s (take (nat (n - 1)) xs)
    \<and> (\<forall>a. a < s \<or> s + nat n \<le> a \<longrightarrow> safestrcpy s t n m a = m a)"
  using safestrcpy_spec [OF assms] by blast

lemma safestrcpy_terminates_string_witness:
  "cstr (safestrcpy 10 0 3 (\<lambda>i. if i < 5 then 65 else 0)) 10 [65, 65]
    \<and> safestrcpy 10 0 3 (\<lambda>i. if i < 5 then 65 else 0) 0 = 65"
proof -
  let ?m = "\<lambda>i::nat. if i < 5 then 65 else 0 :: uchar"
  have "cstr ?m 0 [65, 65, 65, 65, 65]" by simp
  from safestrcpy_terminates_string [OF this, of 3 10] show ?thesis by simp
qed

end
