(* ===== verification/Dll.thy ===== *)
theory Dll
  imports Prelude
begin

text \<open>
  Circular doubly linked lists with a head node, as the buffer cache keeps them: two pointer
  functions \<open>N\<close> (next) and \<open>P\<close> (prev) over node numbers.  \<open>seg N P a xs z\<close> says that the chain
  from \<open>a\<close> runs through \<open>xs\<close> and arrives at \<open>z\<close>, with the links right in both directions.
\<close>

fun seg :: "(nat \<Rightarrow> nat) \<Rightarrow> (nat \<Rightarrow> nat) \<Rightarrow> nat \<Rightarrow> nat list \<Rightarrow> nat \<Rightarrow> bool" where
  "seg N P a [] z = (N a = z \<and> P z = a)"
| "seg N P a (x # xs) z = (N a = x \<and> P x = a \<and> seg N P x xs z)"

lemma seg_append: "seg N P a (xs @ x # ys) z \<longleftrightarrow> seg N P a xs x \<and> seg N P x ys z"
  by (induction xs arbitrary: a) auto

lemma seg_cong:
  assumes "\<And>k. k \<in> set (a # xs) \<Longrightarrow> N k = N' k" and "\<And>k. k \<in> set (xs @ [z]) \<Longrightarrow> P k = P' k"
  shows "seg N P a xs z = seg N' P' a xs z"
  using assms by (induction xs arbitrary: a) auto

lemma seg_next_upd: "k \<notin> set (a # xs) \<Longrightarrow> seg (N(k := v)) P a xs z = seg N P a xs z"
  by (rule seg_cong) auto

lemma seg_prev_upd: "k \<notin> set (xs @ [z]) \<Longrightarrow> seg N (P(k := v)) a xs z = seg N P a xs z"
  by (rule seg_cong) auto

text \<open>Redirecting the last link of a segment to another node.\<close>

lemma seg_relink:
  assumes "seg N P a ys x" and "distinct (a # ys)" and "y \<notin> set ys"
  shows "seg (N(last (a # ys) := y)) (P(y := last (a # ys))) a ys y"
  using assms
proof (induction ys arbitrary: a)
  case Nil
  then show ?case by simp
next
  case (Cons b ys)
  have "seg (N(last (b # ys) := y)) (P(y := last (b # ys))) b ys y"
    by (rule Cons.IH) (use Cons.prems in auto)
  moreover have "last (b # ys) \<noteq> a" using Cons.prems(2) last_in_set [of "b # ys"] by auto
  moreover have "last (a # b # ys) = last (b # ys)" by simp
  ultimately show ?case using Cons.prems unfolding seg.simps by auto
qed

lemma seg_next_hd: "seg N P a xs z \<Longrightarrow> N a = hd (xs @ [z])"
  by (cases xs) auto

lemma seg_prev_last: "seg N P a xs z \<Longrightarrow> P z = last (a # xs)"
  by (induction xs arbitrary: a) auto

text \<open>Unlinking a node: \<open>b->next->prev = b->prev; b->prev->next = b->next;\<close>\<close>

lemma seg_unlink:
  assumes seg: "seg N P h (ys @ b # zs) h" and dist: "distinct (h # ys @ b # zs)"
  shows "seg (N(P b := N b)) (P(N b := P b)) h (ys @ zs) h"
proof -
  from seg have 1: "seg N P h ys b" and 2: "seg N P b zs h"
    by (simp_all add: seg_append)
  from 1 have pb: "P b = last (h # ys)" by (rule seg_prev_last)
  from 2 have nb: "N b = hd (zs @ [h])" by (rule seg_next_hd)
  have "last (h # ys) \<in> set (h # ys)" by (rule last_in_set) simp
  then have lst: "last (h # ys) \<notin> set zs" using dist by auto
  show ?thesis
  proof (cases zs)
    case Nil
    then show ?thesis using seg_relink [OF 1, of h] dist pb nb by simp
  next
    case (Cons z zs')
    have "seg (N(last (h # ys) := z)) (P(z := last (h # ys))) h ys z"
      using seg_relink [OF 1, of z] dist Cons by auto
    moreover have "seg (N(last (h # ys) := z)) (P(z := last (h # ys))) z zs' h"
      using 2 Cons dist lst by (simp add: seg_next_upd seg_prev_upd)
    ultimately show ?thesis using Cons pb nb by (simp add: seg_append)
  qed
qed

text \<open>
  Inserting a node behind the head:
  \<open>b->next = head.next; b->prev = &head; head.next->prev = b; head.next = b;\<close>
\<close>

lemma seg_insert:
  assumes seg: "seg N P h xs h" and "b \<notin> set (h # xs)" and "distinct (h # xs)"
  shows "seg (N(b := N h, h := b)) (P(b := h, N h := b)) h (b # xs) h"
proof (cases xs)
  case Nil
  then show ?thesis using assms by auto
next
  case (Cons x xs')
  then have "seg N P x xs' h" and x: "N h = x" using seg by auto
  then have "seg (N(b := N h, h := b)) (P(b := h, N h := b)) x xs' h"
    using assms Cons by (simp add: seg_next_upd seg_prev_upd)
  then show ?thesis using assms Cons x by auto
qed

text \<open>
  Walking the list: from node \<open>b\<close> along \<open>nx\<close> until \<open>p\<close> holds or the head \<open>h\<close> is reached; \<open>None\<close>
  when the fuel runs out.
\<close>

primrec scan :: "nat \<Rightarrow> (nat \<Rightarrow> nat) \<Rightarrow> (nat \<Rightarrow> bool) \<Rightarrow> nat \<Rightarrow> nat \<Rightarrow> nat option option" where
  "scan 0 nx p h b = None"
| "scan (Suc k) nx p h b =
     (if b = h then Some None else if p b then Some (Some b) else scan k nx p h (nx b))"

lemma scan_seg_next:
  "seg N P a xs h \<Longrightarrow> h \<notin> set xs \<Longrightarrow> length xs < k \<Longrightarrow> scan k N p h (N a) = Some (find p xs)"
proof (induction xs arbitrary: a k)
  case Nil
  then show ?case by (cases k) auto
next
  case (Cons x xs)
  then obtain k' where "k = Suc k'" "length xs < k'" by (cases k) auto
  with Cons show ?case by auto
qed

lemma scan_seg_prev:
  "seg N P h xs z \<Longrightarrow> h \<notin> set xs \<Longrightarrow> length xs < k \<Longrightarrow> scan k P p h (P z) = Some (find p (rev xs))"
proof (induction xs arbitrary: z k rule: rev_induct)
  case Nil
  then show ?case by (cases k) auto
next
  case (snoc x xs)
  then obtain k' where "k = Suc k'" "length xs < k'" by (cases k) auto
  with snoc show ?case by (auto simp: seg_append)
qed

declare scan.simps [simp del]

end
