(* ===== verification/Kstate.thy ===== *)
theory Kstate
  imports Prelude
begin

text \<open>
  The part of the kernel's state that every layer shares: the process table of proc.c, the spin
  locks the running process holds, and the sleep and wakeup of proc.c, on which the sleep locks,
  the log, the pipes and the console rest.  Each higher layer extends the record \<open>kern\<close> with its
  own fields, in the order of the layers.

  A spin lock is held only by the code that runs on the CPU (no process sleeps with one held, see
  \<open>sched\<close>), so a critical section is one atomic step of the system; \<open>locks\<close> lists the locks
  held, and its length is \<open>mycpu()->ncli\<close>.  Theory \<open>Spinlock\<close> models spinlock.c itself, for
  several CPUs; \<open>acquire_implements\<close> and \<open>release_implements\<close> in \<open>Spinlock_Claims\<close> show that the steps of
  a CPU through its \<open>acquire\<close> and \<open>release\<close> have the result of the two definitions here.

  The kernel's variables of type \<open>int\<close> are integers; a sum that can leave the 32 bits, as the next
  pid can, is taken back into them by \<open>int32\<close>.
\<close>

definition int32 :: "int \<Rightarrow> int" where
  "int32 n = sint (word_of_int n :: uint)"

lemma int32_small: "- 2147483648 \<le> n \<Longrightarrow> n < 2147483648 \<Longrightarrow> int32 n = n"
  by (simp add: int32_def signed_of_int signed_take_bit_int_eq_self)

lemma int32_overflow: "int32 2147483648 = - 2147483648"
  by (simp add: int32_def)

subsection \<open>param.h\<close>

definition NPROC :: nat where "NPROC = 64"
definition KSTACKSIZE :: nat where "KSTACKSIZE = 4096"
definition NCPU :: nat where "NCPU = 8"
definition NOFILE :: nat where "NOFILE = 16"
definition NFILE :: nat where "NFILE = 100"
definition NINODE :: nat where "NINODE = 50"
definition NDEV :: nat where "NDEV = 10"
definition ROOTDEV :: nat where "ROOTDEV = 1"
definition MAXARG :: nat where "MAXARG = 32"
definition MAXOPBLOCKS :: nat where "MAXOPBLOCKS = 10"
definition LOGSIZE :: nat where "LOGSIZE = MAXOPBLOCKS * 3"
definition NBUF :: nat where "NBUF = MAXOPBLOCKS * 3"
definition FSSIZE :: nat where "FSSIZE = 1000"

subsection \<open>Lock and channel names\<close>

text \<open>The sleep locks, by where they are: in a buffer or in a cached inode.\<close>

datatype lockaddr = BufLock nat | InodeLock nat

datatype spin = PtableLock | BcacheLock | LogLock | IcacheLock | FtableLock | IdeLock
  | TicksLock | ConsLock | KmemLock | PipeLock nat | SleepSpin lockaddr

text \<open>Sleep channels are addresses: the object whose address the code passes to \<open>sleep\<close>.\<close>

datatype chan = ChLog | ChTicks | ChInput | ChBuf nat | ChLock lockaddr
  | ChPipeRead nat | ChPipeWrite nat | ChProc nat

subsection \<open>x86.h, proc.h: trap frames, contexts and processes\<close>

record trapframe =
  tf_edi :: uint
  tf_esi :: uint
  tf_ebp :: uint
  tf_oesp :: uint
  tf_ebx :: uint
  tf_edx :: uint
  tf_ecx :: uint
  tf_eax :: uint
  tf_gs :: ushort
  tf_fs :: ushort
  tf_es :: ushort
  tf_ds :: ushort
  tf_trapno :: uint
  tf_err :: uint
  tf_eip :: uint
  tf_cs :: ushort
  tf_eflags :: uint
  tf_esp :: uint
  tf_ss :: ushort

record kcontext =
  cx_edi :: uint
  cx_esi :: uint
  cx_ebx :: uint
  cx_ebp :: uint
  cx_eip :: uint

datatype procstate = UNUSED | EMBRYO | SLEEPING | RUNNABLE | RUNNING | ZOMBIE

text \<open>
  \<open>p_tf\<close> and \<open>p_context\<close> hold what the code's pointers into the kernel stack point at; files,
  inodes and processes are named by their index in \<open>ftable\<close>, \<open>icache\<close> and \<open>ptable\<close>, with \<open>None\<close>
  for a null pointer.
\<close>

record proc =
  p_sz :: uint
  p_pgdir :: uint
  p_kstack :: uint
  p_state :: procstate
  p_pid :: int
  p_parent :: "nat option"
  p_tf :: trapframe
  p_context :: kcontext
  p_chan :: "chan option"
  p_killed :: bool
  p_ofile :: "nat option list"
  p_cwd :: "nat option"
  p_name :: "uchar list"

definition zero_tf :: trapframe where
  "zero_tf = \<lparr>tf_edi = 0, tf_esi = 0, tf_ebp = 0, tf_oesp = 0, tf_ebx = 0, tf_edx = 0, tf_ecx = 0,
     tf_eax = 0, tf_gs = 0, tf_fs = 0, tf_es = 0, tf_ds = 0, tf_trapno = 0, tf_err = 0, tf_eip = 0,
     tf_cs = 0, tf_eflags = 0, tf_esp = 0, tf_ss = 0\<rparr>"

text \<open>A process table entry as the kernel's zeroed data segment has it.\<close>

definition zero_proc :: proc where
  "zero_proc = \<lparr>p_sz = 0, p_pgdir = 0, p_kstack = 0, p_state = UNUSED, p_pid = 0, p_parent = None,
     p_tf = zero_tf, p_context = \<lparr>cx_edi = 0, cx_esi = 0, cx_ebx = 0, cx_ebp = 0, cx_eip = 0\<rparr>,
     p_chan = None, p_killed = False, p_ofile = replicate NOFILE None, p_cwd = None,
     p_name = replicate 16 0\<rparr>"

text \<open>
  The variable arguments of \<open>cprintf\<close>: words, or pointers to strings.  \<open>klog\<close> lists the calls of
  \<open>cprintf\<close> in the files below console.c, format and arguments, latest last; what the console makes
  of such a call is the \<open>cprintf\<close> of theory Console.
\<close>

datatype vararg = Word uint | Str "uchar list option"

record kern =
  locks :: "spin list"
  procs :: "proc list"
  curproc :: "nat option"
  nextpid :: int
  initproc :: "nat option"
  klog :: "(uchar list \<times> vararg list) list"

type_synonym ('z, 'a) kop = "'z kern_scheme \<Rightarrow> ('z kern_scheme, 'a) outcome"

definition ascii :: "string \<Rightarrow> uchar list" where
  "ascii s = map of_char s"

definition kprint :: "uchar list \<Rightarrow> vararg list \<Rightarrow> ('z, unit) kop" where
  "kprint fmt args = modify (\<lambda>s. s\<lparr>klog := klog s @ [(fmt, args)]\<rparr>)"

definition upd_proc :: "nat \<Rightarrow> (proc \<Rightarrow> proc) \<Rightarrow> 'z kern_scheme \<Rightarrow> 'z kern_scheme" where
  "upd_proc i f s = s\<lparr>procs := (procs s)[i := f (procs s ! i)]\<rparr>"

text \<open>\<open>myproc()\<close>, for code that goes on to follow the pointer.\<close>

definition with_proc :: "(nat \<Rightarrow> ('z, 'a) kop) \<Rightarrow> ('z, 'a) kop" where
  "with_proc f s = (case curproc s of None \<Rightarrow> Fault | Some i \<Rightarrow> f i s)"

definition mypid :: "'z kern_scheme \<Rightarrow> int" where
  "mypid s = p_pid (procs s ! the (curproc s))"

subsection \<open>Spin locks, as one CPU sees them\<close>

definition acquire :: "spin \<Rightarrow> ('z, unit) kop" where
  "acquire l s = (if l \<in> set (locks s) then Panic ''acquire''
                  else Ok () (s\<lparr>locks := l # locks s\<rparr>))"

definition release :: "spin \<Rightarrow> ('z, unit) kop" where
  "release l s = (if l \<notin> set (locks s) then Panic ''release''
                  else Ok () (s\<lparr>locks := remove1 l (locks s)\<rparr>))"

subsection \<open>proc.c: sched, sleep, wakeup, yield\<close>

text \<open>
  \<open>sched\<close>: the checks, and then \<open>swtch\<close>, which leaves the CPU to the scheduler.  (Interrupts
  are off whenever a lock is held, so its last check is not repeated here.)
\<close>

definition sched :: "('z, 'a) kop" where
  "sched = with_proc (\<lambda>p s.
     if PtableLock \<notin> set (locks s) then Panic ''sched ptable.lock''
     else if length (locks s) \<noteq> 1 then Panic ''sched locks''
     else if p_state (procs s ! p) = RUNNING then Panic ''sched running''
     else Switched s)"

definition sleep :: "chan \<Rightarrow> spin \<Rightarrow> ('z, 'a) kop" where
  "sleep c lk s =
     (case curproc s of
        None \<Rightarrow> Panic ''sleep''
      | Some p \<Rightarrow>
          bind (if lk \<noteq> PtableLock then bind (acquire PtableLock) (\<lambda>_. release lk) else ret ())
            (\<lambda>_. bind (modify (upd_proc p (\<lambda>q. q\<lparr>p_chan := Some c, p_state := SLEEPING\<rparr>)))
            (\<lambda>_. sched)) s)"

text \<open>What \<open>sleep\<close> does when the scheduler switches back to it.\<close>

definition sleep_return :: "spin \<Rightarrow> ('z, unit) kop" where
  "sleep_return lk = with_proc (\<lambda>p.
     bind (modify (upd_proc p (\<lambda>q. q\<lparr>p_chan := None\<rparr>)))
       (\<lambda>_. if lk \<noteq> PtableLock then bind (release PtableLock) (\<lambda>_. acquire lk) else ret ()))"

definition wakeup1 :: "chan \<Rightarrow> 'z kern_scheme \<Rightarrow> 'z kern_scheme" where
  "wakeup1 c s = s\<lparr>procs := map (\<lambda>p. if p_state p = SLEEPING \<and> p_chan p = Some c
                                    then p\<lparr>p_state := RUNNABLE\<rparr> else p) (procs s)\<rparr>"

definition wakeup :: "chan \<Rightarrow> ('z, unit) kop" where
  "wakeup c = bind (acquire PtableLock) (\<lambda>_. bind (modify (wakeup1 c)) (\<lambda>_. release PtableLock))"

definition yield :: "('z, 'a) kop" where
  "yield = bind (acquire PtableLock)
     (\<lambda>_. with_proc (\<lambda>p. bind (modify (upd_proc p (\<lambda>q. q\<lparr>p_state := RUNNABLE\<rparr>))) (\<lambda>_. sched)))"

text \<open>What \<open>yield\<close> does when the scheduler switches back to it.\<close>

definition yield_return :: "('z, unit) kop" where
  "yield_return = release PtableLock"

subsection \<open>Sleep locks (sleeplock.c)\<close>

record sleeplock =
  sl_locked :: bool
  sl_pid :: int

definition initsleeplock :: sleeplock where
  "initsleeplock = \<lparr>sl_locked = False, sl_pid = 0\<rparr>"

text \<open>
  The operations take the lock's address, a function that reads the lock in the state and one
  that updates it there.  A process that finds the lock taken goes to sleep holding only
  \<open>ptable.lock\<close>; when it runs again it re-enters the loop, which is the operation from its
  start.
\<close>

definition acquiresleep ::
  "lockaddr \<Rightarrow> ('z kern_scheme \<Rightarrow> sleeplock)
     \<Rightarrow> ((sleeplock \<Rightarrow> sleeplock) \<Rightarrow> 'z kern_scheme \<Rightarrow> 'z kern_scheme) \<Rightarrow> ('z, unit) kop" where
  "acquiresleep a get upd =
     bind (acquire (SleepSpin a)) (\<lambda>_.
     bind (reads (\<lambda>s. sl_locked (get s))) (\<lambda>locked.
     if locked then sleep (ChLock a) (SleepSpin a)
     else with_proc (\<lambda>p.
       bind (modify (\<lambda>s. upd (\<lambda>lk. lk\<lparr>sl_locked := True, sl_pid := p_pid (procs s ! p)\<rparr>) s)) (\<lambda>_.
       release (SleepSpin a)))))"

definition releasesleep ::
  "lockaddr \<Rightarrow> ((sleeplock \<Rightarrow> sleeplock) \<Rightarrow> 'z kern_scheme \<Rightarrow> 'z kern_scheme) \<Rightarrow> ('z, unit) kop" where
  "releasesleep a upd =
     bind (acquire (SleepSpin a)) (\<lambda>_.
     bind (modify (upd (\<lambda>lk. lk\<lparr>sl_locked := False, sl_pid := 0\<rparr>))) (\<lambda>_.
     bind (wakeup (ChLock a)) (\<lambda>_.
     release (SleepSpin a))))"

definition holdingsleep ::
  "lockaddr \<Rightarrow> ('z kern_scheme \<Rightarrow> sleeplock) \<Rightarrow> ('z, bool) kop" where
  "holdingsleep a get =
     bind (acquire (SleepSpin a)) (\<lambda>_.
     with_proc (\<lambda>p.
     bind (reads (\<lambda>s. sl_locked (get s) \<and> sl_pid (get s) = p_pid (procs s ! p))) (\<lambda>r.
     bind (release (SleepSpin a)) (\<lambda>_. ret r))))"

subsection \<open>What the lock operations do to the state\<close>

lemma acquire_Ok_iff:
  "acquire l s = Ok u t \<longleftrightarrow> l \<notin> set (locks s) \<and> t = s\<lparr>locks := l # locks s\<rparr>"
  by (auto simp: acquire_def)

lemma release_Ok_iff:
  "release l s = Ok u t \<longleftrightarrow> l \<in> set (locks s) \<and> t = s\<lparr>locks := remove1 l (locks s)\<rparr>"
  by (auto simp: release_def)

lemma acquire_free [simp]: "l \<notin> set (locks s) \<Longrightarrow> acquire l s = Ok () (s\<lparr>locks := l # locks s\<rparr>)"
  by (simp add: acquire_def)

lemma release_held [simp]:
  "l \<in> set (locks s) \<Longrightarrow> release l s = Ok () (s\<lparr>locks := remove1 l (locks s)\<rparr>)"
  by (simp add: release_def)

lemma with_proc_Ok_iff:
  "with_proc f s = Ok x t \<longleftrightarrow> (\<exists>p. curproc s = Some p \<and> f p s = Ok x t)"
  by (auto simp: with_proc_def split: option.splits)

lemma with_proc_Some [simp]: "curproc s = Some p \<Longrightarrow> with_proc f s = f p s"
  by (simp add: with_proc_def)

lemma sched_not_Ok [simp]: "sched s \<noteq> Ok x t"
  by (auto simp: sched_def with_proc_Ok_iff)

lemma sleep_not_Ok [simp]: "sleep c lk s \<noteq> Ok x t"
  by (auto simp: sleep_def run_iff split: option.splits)

lemma wakeup_Ok_iff:
  "wakeup c s = Ok u t \<longleftrightarrow> PtableLock \<notin> set (locks s) \<and> t = wakeup1 c s"
  by (auto simp: wakeup_def run_iff acquire_Ok_iff release_Ok_iff wakeup1_def)

lemma wakeup_free [simp]: "PtableLock \<notin> set (locks s) \<Longrightarrow> wakeup c s = Ok () (wakeup1 c s)"
  by (simp add: wakeup_Ok_iff)

lemma wakeup1_sel [simp]:
  "locks (wakeup1 c s) = locks s" "curproc (wakeup1 c s) = curproc s"
  "nextpid (wakeup1 c s) = nextpid s" "initproc (wakeup1 c s) = initproc s"
  "kern.more (wakeup1 c s) = kern.more s"
  "length (procs (wakeup1 c s)) = length (procs s)"
  by (simp_all add: wakeup1_def)

lemma wakeup1_nth:
  "i < length (procs s) \<Longrightarrow> procs (wakeup1 c s) ! i =
     (if p_state (procs s ! i) = SLEEPING \<and> p_chan (procs s ! i) = Some c
      then (procs s ! i)\<lparr>p_state := RUNNABLE\<rparr> else procs s ! i)"
  by (simp add: wakeup1_def)

lemma wakeup1_pid [simp]:
  "i < length (procs s) \<Longrightarrow> p_pid (procs (wakeup1 c s) ! i) = p_pid (procs s ! i)"
  by (simp add: wakeup1_nth)

text \<open>
  A sleep lock operation that returns: what was required, and the state it leaves.  The \<open>locks\<close>
  field is back to what it was.
\<close>

lemma acquiresleep_Ok_iff:
  assumes "\<And>f s l. upd f (s\<lparr>locks := l\<rparr>) = (upd f s)\<lparr>locks := l\<rparr>"
    and "\<And>s l. get (s\<lparr>locks := l\<rparr>) = get s" and "\<And>f s. locks (upd f s) = locks s"
  shows "acquiresleep a get upd s = Ok u t \<longleftrightarrow>
    SleepSpin a \<notin> set (locks s) \<and> \<not> sl_locked (get s) \<and> curproc s \<noteq> None
    \<and> t = upd (\<lambda>lk. lk\<lparr>sl_locked := True, sl_pid := mypid s\<rparr>) s"
  using assms(3) [of _ s]
  by (auto simp: acquiresleep_def run_iff acquire_Ok_iff release_Ok_iff with_proc_Ok_iff
      assms(1,2) mypid_def split: if_splits)

lemma releasesleep_Ok_iff:
  assumes "\<And>f s l. upd f (s\<lparr>locks := l\<rparr>) = (upd f s)\<lparr>locks := l\<rparr>"
    and "\<And>f s. locks (upd f s) = locks s"
  shows "releasesleep a upd s = Ok u t \<longleftrightarrow>
    SleepSpin a \<notin> set (locks s) \<and> PtableLock \<notin> set (locks s)
    \<and> t = wakeup1 (ChLock a) (upd (\<lambda>lk. lk\<lparr>sl_locked := False, sl_pid := 0\<rparr>) s)"
  using assms(2) [of _ s]
  by (auto simp: releasesleep_def run_iff acquire_Ok_iff release_Ok_iff wakeup_Ok_iff
      assms(1) wakeup1_def)

lemma holdingsleep_Ok_iff:
  assumes "\<And>s l. get (s\<lparr>locks := l\<rparr>) = get s"
  shows "holdingsleep a get s = Ok r t \<longleftrightarrow>
    SleepSpin a \<notin> set (locks s) \<and> curproc s \<noteq> None \<and> t = s
    \<and> r = (sl_locked (get s) \<and> sl_pid (get s) = mypid s)"
  by (auto simp: holdingsleep_def run_iff acquire_Ok_iff release_Ok_iff with_proc_Ok_iff
      assms mypid_def)

end
