(* ===== verification/Bio.thy ===== *)
theory Bio
  imports Bytes Dll Kstate
begin

text \<open>
  The block layer: buf.h, the disk driver memide.c (the driver that keeps the disk in memory) and
  the buffer cache bio.c.  The cache's list of buffers is kept with its pointers: buffers
  \<open>0 .. NBUF - 1\<close> are \<open>bcache.buf\<close>, and node \<open>NBUF\<close> is \<open>bcache.head\<close>.
\<close>

subsection \<open>State\<close>

definition BSIZE :: nat where "BSIZE = 512"
definition B_VALID :: uint where "B_VALID = 0x2"
definition B_DIRTY :: uint where "B_DIRTY = 0x4"

record buf =
  b_flags :: uint
  b_dev :: nat
  b_blockno :: nat
  b_lock :: sleeplock
  b_refcnt :: nat
  b_prev :: nat
  b_next :: nat
  b_qnext :: "nat option"
  b_data :: bytes

text \<open>
  \<open>memdisk\<close> is the memory that stands for the disk, one list of bytes per block; \<open>dwrites\<close> is a
  history variable, the blocks written to it so far, latest last.
\<close>

record bstate = kern +
  buffers :: "buf list"
  memdisk :: "bytes list"
  disksize :: nat
  dwrites :: "(nat \<times> bytes) list"

type_synonym ('z, 'a) bop = "'z bstate_scheme \<Rightarrow> ('z bstate_scheme, 'a) outcome"

definition upd_buf :: "nat \<Rightarrow> (buf \<Rightarrow> buf) \<Rightarrow> 'z bstate_scheme \<Rightarrow> 'z bstate_scheme" where
  "upd_buf i f s = s\<lparr>buffers := (buffers s)[i := f (buffers s ! i)]\<rparr>"

definition bufn :: "'z bstate_scheme \<Rightarrow> nat \<Rightarrow> buf" where
  "bufn s i = buffers s ! i"

definition buf_acquire :: "nat \<Rightarrow> ('z, unit) bop" where
  "buf_acquire i = acquiresleep (BufLock i) (\<lambda>s. b_lock (bufn s i))
     (\<lambda>f. upd_buf i (\<lambda>b. b\<lparr>b_lock := f (b_lock b)\<rparr>))"

definition buf_release :: "nat \<Rightarrow> ('z, unit) bop" where
  "buf_release i = releasesleep (BufLock i) (\<lambda>f. upd_buf i (\<lambda>b. b\<lparr>b_lock := f (b_lock b)\<rparr>))"

definition buf_holding :: "nat \<Rightarrow> ('z, bool) bop" where
  "buf_holding i = holdingsleep (BufLock i) (\<lambda>s. b_lock (bufn s i))"

subsection \<open>memide.c\<close>

definition ideinit :: "bytes list \<Rightarrow> ('z, unit) bop" where
  "ideinit img = modify (\<lambda>s. s\<lparr>memdisk := img, disksize := length img\<rparr>)"

definition iderw :: "nat \<Rightarrow> ('z, unit) bop" where
  "iderw i =
     bind (buf_holding i) (\<lambda>h.
     bind (panic_if (\<not> h) ''iderw: buf not locked'') (\<lambda>_.
     bind (reads (\<lambda>s. bufn s i)) (\<lambda>b.
     bind (panic_if (b_flags b AND (B_VALID OR B_DIRTY) = B_VALID) ''iderw: nothing to do'') (\<lambda>_.
     bind (panic_if (b_dev b \<noteq> 1) ''iderw: request not for disk 1'') (\<lambda>_.
     bind (reads disksize) (\<lambda>size.
     bind (panic_if (b_blockno b \<ge> size) ''iderw: block out of range'') (\<lambda>_.
     bind (if b_flags b AND B_DIRTY \<noteq> 0 then
             modify (\<lambda>s. (upd_buf i (\<lambda>b. b\<lparr>b_flags := b_flags b AND NOT B_DIRTY\<rparr>) s)
               \<lparr>memdisk := (memdisk s)[b_blockno b := b_data b],
                dwrites := dwrites s @ [(b_blockno b, b_data b)]\<rparr>)
           else modify (\<lambda>s. upd_buf i (\<lambda>c. c\<lparr>b_data := memdisk s ! b_blockno b\<rparr>) s)) (\<lambda>_.
     modify (upd_buf i (\<lambda>b. b\<lparr>b_flags := b_flags b OR B_VALID\<rparr>))))))))))"

subsection \<open>bio.c\<close>

text \<open>
  \<open>binit\<close>: starting from zeroed buffers (static storage), put each buffer behind the head.
\<close>

definition zero_buf :: buf where
  "zero_buf = \<lparr>b_flags = 0, b_dev = 0, b_blockno = 0, b_lock = initsleeplock, b_refcnt = 0,
     b_prev = 0, b_next = 0, b_qnext = None, b_data = replicate BSIZE 0\<rparr>"

definition link_front :: "nat \<Rightarrow> 'z bstate_scheme \<Rightarrow> 'z bstate_scheme" where
  "link_front i s =
     (let s = upd_buf i (\<lambda>b. b\<lparr>b_next := b_next (bufn s NBUF), b_prev := NBUF\<rparr>) s;
          s = upd_buf (b_next (bufn s NBUF)) (\<lambda>b. b\<lparr>b_prev := i\<rparr>) s
      in upd_buf NBUF (\<lambda>b. b\<lparr>b_next := i\<rparr>) s)"

definition binit :: "('z, unit) bop" where
  "binit =
     bind (modify (upd_buf NBUF (\<lambda>b. b\<lparr>b_prev := NBUF, b_next := NBUF\<rparr>))) (\<lambda>_.
     bind (for_each [0..<NBUF] (\<lambda>i.
       bind (modify (upd_buf i (\<lambda>b. b\<lparr>b_lock := initsleeplock\<rparr>)))
         (\<lambda>_. bind (modify (link_front i)) (\<lambda>_. ret (None :: unit option)))))
       (\<lambda>_. ret ()))"

definition bget :: "nat \<Rightarrow> nat \<Rightarrow> ('z, nat) bop" where
  "bget dev blockno =
     bind (acquire BcacheLock) (\<lambda>_.
     bind (reads (\<lambda>s. scan (NBUF + 1) (\<lambda>i. b_next (bufn s i))
             (\<lambda>i. b_dev (bufn s i) = dev \<and> b_blockno (bufn s i) = blockno)
             NBUF (b_next (bufn s NBUF)))) (\<lambda>hit.
     case hit of
       None \<Rightarrow> spins
     | Some (Some i) \<Rightarrow>
         bind (modify (upd_buf i (\<lambda>b. b\<lparr>b_refcnt := b_refcnt b + 1\<rparr>))) (\<lambda>_.
         bind (release BcacheLock) (\<lambda>_.
         bind (buf_acquire i) (\<lambda>_. ret i)))
     | Some None \<Rightarrow>
         bind (reads (\<lambda>s. scan (NBUF + 1) (\<lambda>i. b_prev (bufn s i))
                 (\<lambda>i. b_refcnt (bufn s i) = 0 \<and> b_flags (bufn s i) AND B_DIRTY = 0)
                 NBUF (b_prev (bufn s NBUF)))) (\<lambda>unused.
         case unused of
           None \<Rightarrow> spins
         | Some None \<Rightarrow> panic ''bget: no buffers''
         | Some (Some i) \<Rightarrow>
             bind (modify (upd_buf i (\<lambda>b. b\<lparr>b_dev := dev, b_blockno := blockno,
                     b_flags := 0, b_refcnt := 1\<rparr>))) (\<lambda>_.
             bind (release BcacheLock) (\<lambda>_.
             bind (buf_acquire i) (\<lambda>_. ret i))))))"

definition bread :: "nat \<Rightarrow> nat \<Rightarrow> ('z, nat) bop" where
  "bread dev blockno =
     bind (bget dev blockno) (\<lambda>i.
     bind (reads (\<lambda>s. b_flags (bufn s i) AND B_VALID = 0)) (\<lambda>stale.
     bind (whenM stale (iderw i)) (\<lambda>_. ret i)))"

definition bwrite :: "nat \<Rightarrow> ('z, unit) bop" where
  "bwrite i =
     bind (buf_holding i) (\<lambda>h.
     bind (panic_if (\<not> h) ''bwrite'') (\<lambda>_.
     bind (modify (upd_buf i (\<lambda>b. b\<lparr>b_flags := b_flags b OR B_DIRTY\<rparr>))) (\<lambda>_.
     iderw i)))"

definition unlink_buf :: "nat \<Rightarrow> 'z bstate_scheme \<Rightarrow> 'z bstate_scheme" where
  "unlink_buf i s =
     (let s = upd_buf (b_next (bufn s i)) (\<lambda>b. b\<lparr>b_prev := b_prev (bufn s i)\<rparr>) s
      in upd_buf (b_prev (bufn s i)) (\<lambda>b. b\<lparr>b_next := b_next (bufn s i)\<rparr>) s)"

definition brelse :: "nat \<Rightarrow> ('z, unit) bop" where
  "brelse i =
     bind (buf_holding i) (\<lambda>h.
     bind (panic_if (\<not> h) ''brelse'') (\<lambda>_.
     bind (buf_release i) (\<lambda>_.
     bind (acquire BcacheLock) (\<lambda>_.
     bind (modify (upd_buf i (\<lambda>b. b\<lparr>b_refcnt := b_refcnt b - 1\<rparr>))) (\<lambda>_.
     bind (reads (\<lambda>s. b_refcnt (bufn s i) = 0)) (\<lambda>last.
     bind (whenM last (bind (modify (unlink_buf i)) (\<lambda>_. modify (link_front i)))) (\<lambda>_.
     release BcacheLock)))))))"

subsection \<open>Flags\<close>

lemma B_VALID_test: "f AND B_VALID = 0 \<longleftrightarrow> \<not> bit f 1"
  using and_exp_eq_0_iff_not_bit [of f 1] by (simp add: B_VALID_def)

lemma B_DIRTY_test: "f AND B_DIRTY = 0 \<longleftrightarrow> \<not> bit f 2"
  using and_exp_eq_0_iff_not_bit [of f 2] by (simp add: B_DIRTY_def)

lemma bit_B_VALID: "bit B_VALID n \<longleftrightarrow> n = 1"
  using bit_exp_iff [of 1 n, where 'a = uint] by (auto simp: B_VALID_def possible_bit_word)

lemma bit_B_DIRTY: "bit B_DIRTY n \<longleftrightarrow> n = 2"
  using bit_exp_iff [of 2 n, where 'a = uint] by (auto simp: B_DIRTY_def possible_bit_word)

lemma B_clean_test: "f AND (B_VALID OR B_DIRTY) = B_VALID \<longleftrightarrow> bit f 1 \<and> \<not> bit f 2"
proof
  assume "f AND (B_VALID OR B_DIRTY) = B_VALID"
  then have "bit (f AND (B_VALID OR B_DIRTY)) n = bit B_VALID n" for n by simp
  from this [of 1] this [of 2] show "bit f 1 \<and> \<not> bit f 2"
    by (simp add: bit_B_VALID bit_B_DIRTY bit_and_iff bit_or_iff)
next
  assume "bit f 1 \<and> \<not> bit f 2"
  then show "f AND (B_VALID OR B_DIRTY) = B_VALID"
    by (intro bit_word_eqI) (auto simp: bit_B_VALID bit_B_DIRTY bit_and_iff bit_or_iff)
qed

lemmas flag_simps = B_VALID_test B_DIRTY_test B_clean_test bit_B_VALID bit_B_DIRTY
  bit_or_iff bit_and_iff bit_not_iff possible_bit_word

subsection \<open>Selectors through updates\<close>

lemma bufn_upd_buf:
  "i < length (buffers s) \<Longrightarrow> bufn (upd_buf i f s) j = (if i = j then f (bufn s i) else bufn s j)"
  by (auto simp: bufn_def upd_buf_def)

lemma upd_buf_sel [simp]:
  "length (buffers (upd_buf i f s)) = length (buffers s)"
  "locks (upd_buf i f s) = locks s" "procs (upd_buf i f s) = procs s"
  "curproc (upd_buf i f s) = curproc s" "memdisk (upd_buf i f s) = memdisk s"
  "nextpid (upd_buf i f s) = nextpid s" "initproc (upd_buf i f s) = initproc s"
  "disksize (upd_buf i f s) = disksize s" "dwrites (upd_buf i f s) = dwrites s"
  "bstate.more (upd_buf i f s) = bstate.more s" "mypid (upd_buf i f s) = mypid s"
  by (simp_all add: upd_buf_def mypid_def)

lemma upd_buf_twice: "upd_buf i f (upd_buf i g s) = upd_buf i (\<lambda>b. f (g b)) s"
  by (cases "i < length (buffers s)") (simp_all add: upd_buf_def list_update_beyond)

lemma upd_buf_locks: "upd_buf i f (s\<lparr>locks := l\<rparr>) = (upd_buf i f s)\<lparr>locks := l\<rparr>"
  by (simp add: upd_buf_def)

lemma bufn_other [simp]:
  "bufn (s\<lparr>locks := l\<rparr>) i = bufn s i" "bufn (s\<lparr>procs := ps\<rparr>) i = bufn s i"
  "bufn (s\<lparr>memdisk := d\<rparr>) i = bufn s i" "bufn (s\<lparr>dwrites := w\<rparr>) i = bufn s i"
  "bufn (wakeup1 c s) i = bufn s i"
  by (simp_all add: bufn_def wakeup1_def)

lemma wakeup1_bstate [simp]:
  "buffers (wakeup1 c s) = buffers s" "memdisk (wakeup1 c s) = memdisk s"
  "disksize (wakeup1 c s) = disksize s" "dwrites (wakeup1 c s) = dwrites s"
  "bstate.more (wakeup1 c s) = bstate.more s"
  by (simp_all add: wakeup1_def)

lemma buf_acquire_Ok_iff:
  "buf_acquire i s = Ok u t \<longleftrightarrow>
     SleepSpin (BufLock i) \<notin> set (locks s) \<and> \<not> sl_locked (b_lock (bufn s i)) \<and> curproc s \<noteq> None
     \<and> t = upd_buf i (\<lambda>b. b\<lparr>b_lock := (b_lock b)\<lparr>sl_locked := True, sl_pid := mypid s\<rparr>\<rparr>) s"
  unfolding buf_acquire_def
  by (rule acquiresleep_Ok_iff) (simp_all add: upd_buf_locks)

lemma buf_release_Ok_iff:
  "buf_release i s = Ok u t \<longleftrightarrow>
     SleepSpin (BufLock i) \<notin> set (locks s) \<and> PtableLock \<notin> set (locks s)
     \<and> t = wakeup1 (ChLock (BufLock i))
         (upd_buf i (\<lambda>b. b\<lparr>b_lock := (b_lock b)\<lparr>sl_locked := False, sl_pid := 0\<rparr>\<rparr>) s)"
  unfolding buf_release_def
  by (rule releasesleep_Ok_iff) (simp_all add: upd_buf_locks)

lemma buf_holding_Ok_iff:
  "buf_holding i s = Ok r t \<longleftrightarrow>
     SleepSpin (BufLock i) \<notin> set (locks s) \<and> curproc s \<noteq> None \<and> t = s
     \<and> r = (sl_locked (b_lock (bufn s i)) \<and> sl_pid (b_lock (bufn s i)) = mypid s)"
  unfolding buf_holding_def by (rule holdingsleep_Ok_iff) simp

subsection \<open>The invariant and the view of the disk through the cache\<close>

text \<open>The buffers in list order, most recently used first.\<close>

definition lru :: "'z bstate_scheme \<Rightarrow> nat list \<Rightarrow> bool" where
  "lru s xs \<longleftrightarrow> distinct xs \<and> set xs = {..<NBUF}
     \<and> seg (\<lambda>i. b_next (bufn s i)) (\<lambda>i. b_prev (bufn s i)) NBUF xs NBUF"

definition cached :: "'z bstate_scheme \<Rightarrow> nat \<Rightarrow> nat \<Rightarrow> bool" where
  "cached s i n \<longleftrightarrow> i < NBUF \<and> b_dev (bufn s i) = ROOTDEV \<and> b_blockno (bufn s i) = n"

definition bvalid :: "buf \<Rightarrow> bool" where "bvalid b \<longleftrightarrow> bit (b_flags b) 1"
definition bdirty :: "buf \<Rightarrow> bool" where "bdirty b \<longleftrightarrow> bit (b_flags b) 2"

text \<open>
  \<open>settled\<close>: the buffer is not ahead of the disk, or it is marked dirty, so the cache will not
  recycle it.  Buffers nobody has locked are settled.
\<close>

definition settled :: "'z bstate_scheme \<Rightarrow> nat \<Rightarrow> bool" where
  "settled s i \<longleftrightarrow> bvalid (bufn s i) \<longrightarrow> b_dev (bufn s i) = ROOTDEV \<longrightarrow> \<not> bdirty (bufn s i) \<longrightarrow>
     b_data (bufn s i) = memdisk s ! b_blockno (bufn s i)"

definition bio_inv :: "'z bstate_scheme \<Rightarrow> bool" where
  "bio_inv s \<longleftrightarrow>
     length (buffers s) = Suc NBUF \<and> (\<exists>xs. lru s xs)
     \<and> (\<forall>p. curproc s = Some p \<longrightarrow> p < length (procs s))
     \<and> (\<forall>i<NBUF. length (b_data (bufn s i)) = BSIZE)
     \<and> (\<forall>i j n. cached s i n \<longrightarrow> cached s j n \<longrightarrow> i = j)
     \<and> disksize s = length (memdisk s) \<and> (\<forall>n<disksize s. length (memdisk s ! n) = BSIZE)
     \<and> (\<forall>i<NBUF. bvalid (bufn s i) \<longrightarrow> b_dev (bufn s i) = ROOTDEV \<longrightarrow> b_blockno (bufn s i) < disksize s)
     \<and> (\<forall>i<NBUF. bdirty (bufn s i) \<longrightarrow> bvalid (bufn s i))
     \<and> (\<forall>i<NBUF. b_refcnt (bufn s i) = 0 \<longrightarrow> \<not> sl_locked (b_lock (bufn s i)))
     \<and> (\<forall>i<NBUF. \<not> sl_locked (b_lock (bufn s i)) \<longrightarrow> settled s i)"

definition blk :: "'z bstate_scheme \<Rightarrow> nat \<Rightarrow> bytes" where
  "blk s n = (case find (\<lambda>i. cached s i n \<and> bvalid (bufn s i)) [0..<NBUF] of
                Some i \<Rightarrow> b_data (bufn s i) | None \<Rightarrow> memdisk s ! n)"

text \<open>The caller holds buffer \<open>i\<close>, with the contents of block \<open>n\<close>.\<close>

definition holds :: "'z bstate_scheme \<Rightarrow> nat \<Rightarrow> nat \<Rightarrow> bool" where
  "holds s i n \<longleftrightarrow> cached s i n \<and> bvalid (bufn s i) \<and> sl_locked (b_lock (bufn s i))
     \<and> sl_pid (b_lock (bufn s i)) = mypid s \<and> 0 < b_refcnt (bufn s i)"

text \<open>Two buffers that agree in all but their list pointers.\<close>

definition same_buf :: "buf \<Rightarrow> buf \<Rightarrow> bool" where
  "same_buf b c \<longleftrightarrow> b_flags b = b_flags c \<and> b_dev b = b_dev c \<and> b_blockno b = b_blockno c
     \<and> b_lock b = b_lock c \<and> b_refcnt b = b_refcnt c \<and> b_data b = b_data c"

text \<open>
  What the block layer leaves alone: the buffers somebody holds, those in \<open>X\<close> excepted, the
  processes but for wakeups, and the spin locks.
\<close>

definition bframe :: "nat set \<Rightarrow> 'z bstate_scheme \<Rightarrow> 'z bstate_scheme \<Rightarrow> bool" where
  "bframe X s t \<longleftrightarrow>
     (\<forall>j<NBUF. j \<notin> X \<longrightarrow> sl_locked (b_lock (bufn s j)) \<longrightarrow> same_buf (bufn t j) (bufn s j))
     \<and> locks t = locks s \<and> curproc t = curproc s \<and> mypid t = mypid s
     \<and> disksize t = disksize s"

lemma same_buf_refl [simp]: "same_buf b b"
  by (simp add: same_buf_def)

lemma bframe_refl [simp]: "bframe X s s"
  by (simp add: bframe_def)

lemma bframe_trans: "bframe X s t \<Longrightarrow> bframe Y t u \<Longrightarrow> bframe (X \<union> Y) s u"
  unfolding bframe_def same_buf_def by (metis UnCI)

lemma bframe_trans0: "bframe {} s t \<Longrightarrow> bframe {} t u \<Longrightarrow> bframe {} s u"
  using bframe_trans [of "{}" s t "{}" u] by simp

lemma bframe_new: "bframe {i} s t \<Longrightarrow> \<not> sl_locked (b_lock (bufn s i)) \<Longrightarrow> bframe {} s t"
  by (auto simp: bframe_def)

lemma bframe_mono: "bframe X s t \<Longrightarrow> X \<subseteq> Y \<Longrightarrow> bframe Y s t"
  by (auto simp: bframe_def)

lemma cached_inj: "bio_inv s \<Longrightarrow> cached s i n \<Longrightarrow> cached s j n \<Longrightarrow> i = j"
  by (auto simp: bio_inv_def)

lemma blk_cached:
  assumes "bio_inv s" "cached s i n" "bvalid (bufn s i)"
  shows "blk s n = b_data (bufn s i)"
proof -
  have "find (\<lambda>i. cached s i n \<and> bvalid (bufn s i)) [0..<NBUF] = Some i"
    unfolding find_upt_Some
  proof (intro conjI allI impI)
    show "i < NBUF" using assms(2) by (simp add: cached_def)
    fix j
    assume "j < i"
    then show "\<not> (cached s j n \<and> bvalid (bufn s j))"
      using cached_inj [OF assms(1,2), of j] by auto
  qed (use assms in auto)
  then show ?thesis by (simp add: blk_def)
qed

lemma blk_uncached:
  assumes "\<And>i. cached s i n \<Longrightarrow> \<not> bvalid (bufn s i)"
  shows "blk s n = memdisk s ! n"
proof -
  have "find (\<lambda>i. cached s i n \<and> bvalid (bufn s i)) [0..<NBUF] = None"
    using assms by (auto simp: find_upt_None)
  then show ?thesis by (simp add: blk_def)
qed

lemma length_blk: "bio_inv s \<Longrightarrow> n < disksize s \<Longrightarrow> length (blk s n) = BSIZE"
proof -
  assume s: "bio_inv s" "n < disksize s"
  show ?thesis
  proof (cases "\<exists>i. cached s i n \<and> bvalid (bufn s i)")
    case True
    then obtain i where "cached s i n" "bvalid (bufn s i)" by blast
    with s have "blk s n = b_data (bufn s i)" and "i < NBUF"
      by (auto simp: blk_cached cached_def)
    with s(1) show ?thesis by (simp add: bio_inv_def)
  next
    case False
    then have "blk s n = memdisk s ! n" by (intro blk_uncached) auto
    with s show ?thesis by (simp add: bio_inv_def)
  qed
qed

lemma holds_bound: "bio_inv s \<Longrightarrow> holds s i n \<Longrightarrow> i < NBUF \<and> n < disksize s"
  by (auto simp: holds_def cached_def bio_inv_def)

lemma holds_blk: "bio_inv s \<Longrightarrow> holds s i n \<Longrightarrow> b_data (bufn s i) = blk s n"
  using blk_cached [of s i n] by (simp add: holds_def)

lemma holds_frame: "holds s i n \<Longrightarrow> bframe X s t \<Longrightarrow> i \<notin> X \<Longrightarrow> holds t i n"
  by (auto simp: holds_def bframe_def same_buf_def cached_def bvalid_def)

end
