(* ===== verification/Bio_Props.thy ===== *)
theory Bio_Props
  imports Bio
begin

text \<open>
  What the buffer cache promises: \<open>bread\<close> returns a locked buffer with the block's contents,
  \<open>brelse\<close> gives it back, \<open>bwrite\<close> puts it on the disk, and none of them changes the view of
  the disk through the cache or touches a buffer that somebody holds.
\<close>

subsection \<open>The list survives changes of other fields\<close>

lemma lru_upd_buf:
  assumes "b_next (f (bufn s i)) = b_next (bufn s i)" and "b_prev (f (bufn s i)) = b_prev (bufn s i)"
  shows "lru (upd_buf i f s) xs = lru s xs"
proof -
  have "b_next (bufn (upd_buf i f s) j) = b_next (bufn s j)"
    and "b_prev (bufn (upd_buf i f s) j) = b_prev (bufn s j)" for j
    using assms by (cases "i < length (buffers s)"; cases "i = j";
        simp add: bufn_def upd_buf_def list_update_beyond)+
  then show ?thesis by (simp add: lru_def)
qed

lemma lru_cong: "buffers t = buffers s \<Longrightarrow> lru t xs = lru s xs"
  by (simp add: lru_def bufn_def)

lemma lru_scan:
  assumes "lru s xs"
  shows "scan (Suc NBUF) (\<lambda>i. b_next (bufn s i)) p NBUF (b_next (bufn s NBUF)) = Some (find p xs)"
    and "scan (Suc NBUF) (\<lambda>i. b_prev (bufn s i)) p NBUF (b_prev (bufn s NBUF)) = Some (find p (rev xs))"
proof -
  from assms have seg: "seg (\<lambda>i. b_next (bufn s i)) (\<lambda>i. b_prev (bufn s i)) NBUF xs NBUF"
    and "distinct xs" and xs: "set xs = {..<NBUF}"
    by (auto simp: lru_def)
  then have "length xs = NBUF" using distinct_card [of xs] by simp
  then show "scan (Suc NBUF) (\<lambda>i. b_next (bufn s i)) p NBUF (b_next (bufn s NBUF)) = Some (find p xs)"
    and "scan (Suc NBUF) (\<lambda>i. b_prev (bufn s i)) p NBUF (b_prev (bufn s NBUF)) = Some (find p (rev xs))"
    using scan_seg_next [OF seg, of "Suc NBUF" p] scan_seg_prev [OF seg, of "Suc NBUF" p] xs by auto
qed

lemma lru_set: "lru s xs \<Longrightarrow> i \<in> set xs \<longleftrightarrow> i < NBUF"
  by (auto simp: lru_def)

subsection \<open>bget\<close>

definition take_lock :: "'z bstate_scheme \<Rightarrow> buf \<Rightarrow> buf" where
  "take_lock s b = b\<lparr>b_lock := (b_lock b)\<lparr>sl_locked := True, sl_pid := mypid s\<rparr>\<rparr>"

lemma bget_Ok:
  assumes inv: "bio_inv s" and run: "bget ROOTDEV n s = Ok i t"
  shows "i < NBUF \<and> \<not> sl_locked (b_lock (bufn s i)) \<and> curproc s \<noteq> None \<and>
     (cached s i n \<and> t = upd_buf i (\<lambda>b. take_lock s (b\<lparr>b_refcnt := b_refcnt b + 1\<rparr>)) s
      \<or> (\<forall>j. \<not> cached s j n) \<and> b_refcnt (bufn s i) = 0 \<and> \<not> bdirty (bufn s i)
        \<and> t = upd_buf i (\<lambda>b. take_lock s (b\<lparr>b_dev := ROOTDEV, b_blockno := n, b_flags := 0,
                b_refcnt := 1\<rparr>)) s)"
proof -
  from inv obtain xs where xs: "lru s xs" and len: "length (buffers s) = Suc NBUF"
    by (auto simp: bio_inv_def)
  note sc = lru_scan [OF xs]
  let ?p = "\<lambda>i. b_dev (bufn s i) = ROOTDEV \<and> b_blockno (bufn s i) = n"
  let ?q = "\<lambda>i. b_refcnt (bufn s i) = 0 \<and> b_flags (bufn s i) AND B_DIRTY = 0"
  show ?thesis
  proof (cases "find ?p xs")
    case (Some k)
    then have k: "?p k" "k < NBUF"
      using xs by (auto simp: find_Some_iff lru_def)
    have "i = k" and "\<not> sl_locked (b_lock (bufn s k))" and "curproc s \<noteq> None"
      and "t = upd_buf k (\<lambda>b. take_lock s (b\<lparr>b_refcnt := b_refcnt b + 1\<rparr>)) s"
      using run Some k len unfolding bget_def
      by (auto simp: run_iff acquire_Ok_iff release_Ok_iff buf_acquire_Ok_iff sc bufn_upd_buf
          upd_buf_twice upd_buf_locks take_lock_def mypid_def split: option.splits)
    with k show ?thesis by (auto simp: cached_def)
  next
    case None
    then have none: "\<not> cached s j n" for j
      using lru_set [OF xs, of j] by (auto simp: cached_def find_None_iff)
    show ?thesis
    proof (cases "find ?q (rev xs)")
      case (Some k)
      then have k: "?q k" "k < NBUF"
        using xs by (auto simp: find_Some_iff lru_def rev_nth)
      have "i = k" and "\<not> sl_locked (b_lock (bufn s k))" and "curproc s \<noteq> None"
        and "t = upd_buf k (\<lambda>b. take_lock s (b\<lparr>b_dev := ROOTDEV, b_blockno := n, b_flags := 0,
                b_refcnt := 1\<rparr>)) s"
        using run Some None k len unfolding bget_def
        by (auto simp: run_iff acquire_Ok_iff release_Ok_iff buf_acquire_Ok_iff sc bufn_upd_buf
            upd_buf_twice upd_buf_locks take_lock_def mypid_def split: option.splits)
      with k none show ?thesis by (auto simp: bdirty_def flag_simps)
    next
      case N: None
      with None run show ?thesis unfolding bget_def
        by (auto simp: run_iff acquire_Ok_iff release_Ok_iff sc split: option.splits)
    qed
  qed
qed

subsection \<open>bread\<close>

text \<open>
  One buffer \<open>i\<close>, which nobody held, now holds block \<open>n\<close> for the caller: what \<open>bread\<close> does to
  the state, however it found the buffer.
\<close>

lemma take_buffer:
  fixes s :: "'z bstate_scheme" and g :: "buf \<Rightarrow> buf" and i :: nat
  defines "b \<equiv> g (bufn s i)"
  defines "t \<equiv> upd_buf i g s"
  assumes inv: "bio_inv s" and i: "i < NBUF" and free: "\<not> sl_locked (b_lock (bufn s i))"
    and n: "n < disksize s"
    and links: "b_next b = b_next (bufn s i)" "b_prev b = b_prev (bufn s i)"
    and b: "b_dev b = ROOTDEV" "b_blockno b = n" "bvalid b" "sl_locked (b_lock b)"
      "sl_pid (b_lock b) = mypid s" "0 < b_refcnt b" "b_data b = blk s n"
    and src: "cached s i n \<and> (bvalid (bufn s i) \<longrightarrow> b_flags b = b_flags (bufn s i))
      \<or> (\<forall>j. \<not> cached s j n) \<and> \<not> bdirty (bufn s i)"
  shows "bio_inv t \<and> holds t i n \<and> settled t i \<and> blk t = blk s \<and> bframe {} s t"
proof -
  have len: "length (buffers s) = Suc NBUF" using inv by (simp add: bio_inv_def)
  have bt: "bufn t j = (if i = j then b else bufn s j)" for j
    using i len by (simp add: t_def b_def bufn_upd_buf)
  have ts: "memdisk t = memdisk s" "disksize t = disksize s" "mypid t = mypid s" "locks t = locks s"
    "curproc t = curproc s" "length (buffers t) = length (buffers s)" "procs t = procs s"
    by (simp_all add: t_def)
  have cach: "cached t j m = (if i = j then i < NBUF \<and> m = n else cached s j m)" for j m
    using b by (auto simp: cached_def bt)
  have only: "cached s j n \<Longrightarrow> j = i" for j
    using src cached_inj [OF inv] by blast
  have set_i: "settled s i" using inv i free by (auto simp: bio_inv_def)
  have setl: "settled t i"
  proof -
    have "b_data b = memdisk s ! n" if "\<not> bdirty b"
    proof (cases "cached s i n \<and> bvalid (bufn s i)")
      case True
      with src that have "\<not> bdirty (bufn s i)" by (auto simp: bdirty_def)
      with True set_i have "b_data (bufn s i) = memdisk s ! n"
        by (auto simp: settled_def cached_def)
      moreover have "blk s n = b_data (bufn s i)"
        using inv True by (auto intro: blk_cached)
      ultimately show ?thesis using b by simp
    next
      case False
      then have "blk s n = memdisk s ! n" using only by (intro blk_uncached) auto
      then show ?thesis using b by simp
    qed
    then show ?thesis using b by (auto simp: settled_def bt ts)
  qed
  have hold: "holds t i n" using b i by (auto simp: holds_def cach bt ts)
  have inv': "bio_inv t"
    unfolding bio_inv_def
  proof (intro conjI)
    show "length (buffers t) = Suc NBUF" using len by (simp add: ts)
    show "\<exists>xs. lru t xs" using inv links by (auto simp: t_def b_def bio_inv_def lru_upd_buf)
    show "\<forall>p. curproc t = Some p \<longrightarrow> p < length (procs t)"
      using inv by (simp add: bio_inv_def ts)
    show "\<forall>j<NBUF. length (b_data (bufn t j)) = BSIZE"
      using inv b length_blk [OF inv n] by (auto simp: bt bio_inv_def)
    show "\<forall>j k m. cached t j m \<longrightarrow> cached t k m \<longrightarrow> j = k"
      using only cached_inj [OF inv] by (auto simp: cach split: if_splits)
    show "disksize t = length (memdisk t)" "\<forall>m<disksize t. length (memdisk t ! m) = BSIZE"
      using inv by (auto simp: ts bio_inv_def)
    show "\<forall>j<NBUF. bvalid (bufn t j) \<longrightarrow> b_dev (bufn t j) = ROOTDEV \<longrightarrow> b_blockno (bufn t j) < disksize t"
      using inv b n by (auto simp: bt bio_inv_def ts)
    show "\<forall>j<NBUF. bdirty (bufn t j) \<longrightarrow> bvalid (bufn t j)"
      using inv b by (auto simp: bt bio_inv_def)
    show "\<forall>j<NBUF. b_refcnt (bufn t j) = 0 \<longrightarrow> \<not> sl_locked (b_lock (bufn t j))"
      using inv b by (auto simp: bt bio_inv_def)
    show "\<forall>j<NBUF. \<not> sl_locked (b_lock (bufn t j)) \<longrightarrow> settled t j"
      using inv b by (auto simp: bio_inv_def settled_def bt ts)
  qed
  have "blk t m = blk s m" for m
  proof (cases "m = n")
    case True
    then show ?thesis using blk_cached [OF inv', of i n] i b by (simp add: cach bt)
  next
    case m: False
    show ?thesis
    proof (cases "\<exists>j. j \<noteq> i \<and> cached s j m \<and> bvalid (bufn s j)")
      case True
      then obtain j where j: "j \<noteq> i" "cached s j m" "bvalid (bufn s j)" by blast
      then show ?thesis
        using blk_cached [OF inv j(2,3)] blk_cached [OF inv', of j m] by (simp add: cach bt)
    next
      case False
      then have "blk t m = memdisk s ! m"
        using m by (subst blk_uncached) (auto simp: cach bt ts)
      moreover have "blk s m = memdisk s ! m"
      proof (cases "cached s i m \<and> bvalid (bufn s i)")
        case True
        then have "\<not> cached s i n" using m by (auto simp: cached_def)
        with src have "\<not> bdirty (bufn s i)" by blast
        with set_i True have "b_data (bufn s i) = memdisk s ! m"
          by (auto simp: settled_def cached_def)
        then show ?thesis using blk_cached [OF inv, of i m] True by simp
      next
        case no: False
        with False show ?thesis by (intro blk_uncached) metis
      qed
      ultimately show ?thesis by simp
    qed
  qed
  then have "blk t = blk s" by blast
  moreover have "bframe {} s t" using free by (auto simp: bframe_def bt ts)
  ultimately show ?thesis using inv' hold setl by blast
qed

lemma iderw_read_Ok_iff:
  assumes "length (buffers s) = Suc NBUF" and "i < NBUF" and "\<not> bit (b_flags (bufn s i)) 2"
    and "\<not> bit (b_flags (bufn s i)) 1"
  shows "iderw i s = Ok u t \<longleftrightarrow>
    SleepSpin (BufLock i) \<notin> set (locks s) \<and> curproc s \<noteq> None
    \<and> sl_locked (b_lock (bufn s i)) \<and> sl_pid (b_lock (bufn s i)) = mypid s
    \<and> b_dev (bufn s i) = 1 \<and> b_blockno (bufn s i) < disksize s
    \<and> t = upd_buf i (\<lambda>b. b\<lparr>b_data := memdisk s ! b_blockno b, b_flags := b_flags b OR B_VALID\<rparr>) s"
  using assms
  by (auto simp: iderw_def run_iff buf_holding_Ok_iff flag_simps upd_buf_twice upd_buf_def bufn_def)

lemma iderw_write_Ok_iff:
  assumes "length (buffers s) = Suc NBUF" and "i < NBUF" and "bit (b_flags (bufn s i)) 2"
  shows "iderw i s = Ok u t \<longleftrightarrow>
    SleepSpin (BufLock i) \<notin> set (locks s) \<and> curproc s \<noteq> None
    \<and> sl_locked (b_lock (bufn s i)) \<and> sl_pid (b_lock (bufn s i)) = mypid s
    \<and> b_dev (bufn s i) = 1 \<and> b_blockno (bufn s i) < disksize s
    \<and> t = (upd_buf i (\<lambda>b. b\<lparr>b_flags := (b_flags b AND NOT B_DIRTY) OR B_VALID\<rparr>) s)
          \<lparr>memdisk := (memdisk s)[b_blockno (bufn s i) := b_data (bufn s i)],
           dwrites := dwrites s @ [(b_blockno (bufn s i), b_data (bufn s i))]\<rparr>"
  using assms
  by (auto simp: iderw_def run_iff buf_holding_Ok_iff flag_simps upd_buf_def bufn_def)

theorem bread_Ok:
  assumes inv: "bio_inv s" and run: "bread ROOTDEV n s = Ok i t"
  shows "bio_inv t \<and> holds t i n \<and> settled t i \<and> blk t = blk s \<and> bframe {} s t
    \<and> \<not> sl_locked (b_lock (bufn s i)) \<and> n < disksize s \<and> i < NBUF
    \<and> memdisk t = memdisk s \<and> dwrites t = dwrites s \<and> procs t = procs s
    \<and> nextpid t = nextpid s \<and> initproc t = initproc s \<and> bstate.more t = bstate.more s"
proof -
  from run obtain u where get: "bget ROOTDEV n s = Ok i u"
    and rest: "if b_flags (bufn u i) AND B_VALID = 0 then iderw i u = Ok () t else t = u"
    by (auto simp: bread_def run_iff)
  note g = bget_Ok [OF inv get]
  then have i: "i < NBUF" and free: "\<not> sl_locked (b_lock (bufn s i))" by auto
  have len: "length (buffers s) = Suc NBUF" using inv by (simp add: bio_inv_def)
  from g obtain f where u: "u = upd_buf i f s"
    and f: "b_dev (f (bufn s i)) = ROOTDEV" "b_blockno (f (bufn s i)) = n" "sl_locked (b_lock (f (bufn s i)))"
      "sl_pid (b_lock (f (bufn s i))) = mypid s" "0 < b_refcnt (f (bufn s i))"
      "b_next (f (bufn s i)) = b_next (bufn s i)" "b_prev (f (bufn s i)) = b_prev (bufn s i)"
      "b_data (f (bufn s i)) = b_data (bufn s i)"
    and src: "cached s i n \<and> b_flags (f (bufn s i)) = b_flags (bufn s i)
      \<or> (\<forall>j. \<not> cached s j n) \<and> \<not> bdirty (bufn s i) \<and> b_flags (f (bufn s i)) = 0"
    by (auto simp: take_lock_def cached_def)
  have bu: "bufn u i = f (bufn s i)" using u i len by (simp add: bufn_upd_buf)
  show ?thesis
  proof (cases "bit (b_flags (f (bufn s i))) 1")
    case True
    with rest bu have t: "t = upd_buf i f s" by (simp add: flag_simps u)
    from True src have hit: "cached s i n" "bvalid (bufn s i)" "b_flags (f (bufn s i)) = b_flags (bufn s i)"
      by (auto simp: bvalid_def)
    have n: "n < disksize s" using inv i hit by (auto simp: bio_inv_def cached_def)
    have "bio_inv (upd_buf i f s) \<and> holds (upd_buf i f s) i n \<and> settled (upd_buf i f s) i
        \<and> blk (upd_buf i f s) = blk s \<and> bframe {} s (upd_buf i f s)"
      by (rule take_buffer [OF inv i free n])
        (use f hit True blk_cached [OF inv hit(1,2)] in \<open>auto simp: bvalid_def\<close>)
    with t n free i show ?thesis by simp
  next
    case False
    then have clean: "\<not> bit (b_flags (f (bufn s i))) 2"
      using src inv i by (auto simp: bio_inv_def bdirty_def bvalid_def)
    from False rest bu have "iderw i u = Ok () t" by (simp add: flag_simps)
    then have t: "t = upd_buf i (\<lambda>b. (f b)\<lparr>b_data := memdisk s ! b_blockno (f b),
          b_flags := b_flags (f b) OR B_VALID\<rparr>) s" and n: "n < disksize s"
      using False clean i len bu f by (auto simp: iderw_read_Ok_iff u upd_buf_twice)
    have "blk s n = memdisk s ! n"
    proof (rule blk_uncached)
      fix j
      assume "cached s j n"
      with src have "j = i" using cached_inj [OF inv] by blast
      with \<open>cached s j n\<close> src False show "\<not> bvalid (bufn s j)" by (auto simp: bvalid_def)
    qed
    then have "bio_inv t \<and> holds t i n \<and> settled t i \<and> blk t = blk s \<and> bframe {} s t"
      unfolding t
      by (intro take_buffer [OF inv i free n])
        (use f src False in \<open>auto simp: bvalid_def flag_simps\<close>)
    with t n free i show ?thesis by simp
  qed
qed

subsection \<open>Changing a held buffer\<close>

lemma change_held:
  fixes s :: "'z bstate_scheme" and g :: "buf \<Rightarrow> buf" and i :: nat
  defines "b \<equiv> g (bufn s i)"
  assumes inv: "bio_inv s" and hold: "holds s i n"
    and b: "b_next b = b_next (bufn s i)" "b_prev b = b_prev (bufn s i)"
      "b_dev b = b_dev (bufn s i)" "b_blockno b = b_blockno (bufn s i)"
      "b_lock b = b_lock (bufn s i)" "b_refcnt b = b_refcnt (bufn s i)" "bvalid b"
      "length (b_data b) = BSIZE"
    and t: "t = (upd_buf i g s)\<lparr>memdisk := d, dwrites := w\<rparr>"
    and d: "d = memdisk s \<or> d = (memdisk s)[n := b_data b]"
  shows "bio_inv t \<and> holds t i n \<and> blk t = (blk s)(n := b_data b) \<and> bframe {i} s t
    \<and> bufn t i = b"
proof -
  have len: "length (buffers s) = Suc NBUF" using inv by (simp add: bio_inv_def)
  have i: "i < NBUF" and n: "n < disksize s" using holds_bound [OF inv hold] by auto
  have hd: "b_dev (bufn s i) = ROOTDEV" "b_blockno (bufn s i) = n" "bvalid (bufn s i)"
    "sl_locked (b_lock (bufn s i))" "sl_pid (b_lock (bufn s i)) = mypid s" "0 < b_refcnt (bufn s i)"
    using hold by (auto simp: holds_def cached_def)
  have bt: "bufn t j = (if i = j then b else bufn s j)" for j
    using i len by (simp add: t b_def bufn_upd_buf)
  have ts: "memdisk t = d" "disksize t = disksize s" "mypid t = mypid s" "locks t = locks s"
    "curproc t = curproc s" "length (buffers t) = length (buffers s)" "procs t = procs s"
    by (simp_all add: t mypid_def)
  have cach: "cached t j m = cached s j m" for j m
    using b hd by (auto simp: cached_def bt)
  have dl: "length d = length (memdisk s)" using d by auto
  have dn: "m \<noteq> n \<Longrightarrow> d ! m = memdisk s ! m" for m using d by auto
  have only: "cached s j n \<Longrightarrow> j = i" for j
    using cached_inj [OF inv, of j n i] hold by (simp add: holds_def)
  have inv': "bio_inv t"
    unfolding bio_inv_def
  proof (intro conjI)
    show "length (buffers t) = Suc NBUF" using len by (simp add: ts)
    have "lru t xs = lru s xs" for xs
      using b lru_upd_buf [of g s i xs] lru_cong [of t "upd_buf i g s"] by (simp add: b_def t)
    then show "\<exists>xs. lru t xs" using inv by (auto simp: bio_inv_def)
    show "\<forall>p. curproc t = Some p \<longrightarrow> p < length (procs t)"
      using inv by (simp add: bio_inv_def ts)
    show "\<forall>j<NBUF. length (b_data (bufn t j)) = BSIZE"
      using inv b by (auto simp: bt bio_inv_def)
    show "\<forall>j k m. cached t j m \<longrightarrow> cached t k m \<longrightarrow> j = k"
      using cached_inj [OF inv] by (auto simp: cach)
    show "disksize t = length (memdisk t)" using inv by (simp add: ts dl bio_inv_def)
    show "\<forall>m<disksize t. length (memdisk t ! m) = BSIZE"
    proof (intro allI impI)
      fix m
      assume "m < disksize t"
      then have "m < length (memdisk s)" "length (memdisk s ! m) = BSIZE"
        using inv by (auto simp: ts bio_inv_def)
      then show "length (memdisk t ! m) = BSIZE"
        using b(8) d by (cases "m = n") (auto simp: ts)
    qed
    show "\<forall>j<NBUF. bvalid (bufn t j) \<longrightarrow> b_dev (bufn t j) = ROOTDEV \<longrightarrow> b_blockno (bufn t j) < disksize t"
      using inv b hd n by (auto simp: bt bio_inv_def ts)
    show "\<forall>j<NBUF. bdirty (bufn t j) \<longrightarrow> bvalid (bufn t j)"
      using inv b by (auto simp: bt bio_inv_def)
    show "\<forall>j<NBUF. b_refcnt (bufn t j) = 0 \<longrightarrow> \<not> sl_locked (b_lock (bufn t j))"
      using inv b by (auto simp: bt bio_inv_def)
    show "\<forall>j<NBUF. \<not> sl_locked (b_lock (bufn t j)) \<longrightarrow> settled t j"
    proof (intro allI impI)
      fix j
      assume j: "j < NBUF" "\<not> sl_locked (b_lock (bufn t j))"
      then have ji: "j \<noteq> i" using b hd by (auto simp: bt)
      with j inv have "settled s j" by (auto simp: bio_inv_def bt)
      moreover have "b_dev (bufn s j) = ROOTDEV \<Longrightarrow> b_blockno (bufn s j) \<noteq> n"
        using only [of j] ji j by (auto simp: cached_def)
      ultimately show "settled t j" using ji by (auto simp: settled_def bt ts dn)
    qed
  qed
  have hold': "holds t i n" using hold b by (auto simp: holds_def cach bt ts)
  have "blk t m = ((blk s)(n := b_data b)) m" for m
  proof (cases "m = n")
    case True
    then show ?thesis using holds_blk [OF inv' hold'] by (simp add: bt)
  next
    case m: False
    show ?thesis
    proof (cases "\<exists>j. cached s j m \<and> bvalid (bufn s j)")
      case True
      then obtain j where j: "cached s j m" "bvalid (bufn s j)" by blast
      then have "j \<noteq> i" using m hd by (auto simp: cached_def)
      with j show ?thesis
        using blk_cached [OF inv j] blk_cached [OF inv', of j m] m by (simp add: cach bt)
    next
      case False
      then have "blk s m = memdisk s ! m" by (intro blk_uncached) auto
      moreover have "blk t m = memdisk t ! m"
        by (rule blk_uncached) (use False hd m b in \<open>auto simp: cach bt cached_def\<close>)
      ultimately show ?thesis using m by (simp add: ts dn)
    qed
  qed
  then have "blk t = (blk s)(n := b_data b)" by blast
  moreover have "bframe {i} s t" by (auto simp: bframe_def bt ts)
  ultimately show ?thesis using inv' hold' by (simp add: bt)
qed

definition set_data :: "nat \<Rightarrow> bytes \<Rightarrow> 'z bstate_scheme \<Rightarrow> 'z bstate_scheme" where
  "set_data i d = upd_buf i (\<lambda>b. b\<lparr>b_data := d\<rparr>)"

lemma held_facts:
  assumes "bio_inv s" "holds s i n"
  shows "bvalid (bufn s i)" "length (b_data (bufn s i)) = BSIZE" "b_blockno (bufn s i) = n"
    "length (buffers s) = Suc NBUF"
  using assms holds_blk [OF assms] holds_bound [OF assms] length_blk [OF assms(1), of n]
  by (auto simp: holds_def cached_def bio_inv_def)

lemma set_data_held:
  assumes "bio_inv s" "holds s i n" "length d = BSIZE"
  shows "bio_inv (set_data i d s) \<and> holds (set_data i d s) i n
    \<and> blk (set_data i d s) = (blk s)(n := d) \<and> bframe {i} s (set_data i d s)
    \<and> b_data (bufn (set_data i d s) i) = d"
proof -
  have "set_data i d s = (upd_buf i (\<lambda>b. b\<lparr>b_data := d\<rparr>) s)\<lparr>memdisk := memdisk s, dwrites := dwrites s\<rparr>"
    by (simp add: set_data_def upd_buf_def)
  from change_held [OF assms(1,2) _ _ _ _ _ _ _ _ this] assms(3) held_facts [OF assms(1,2)]
  show ?thesis by (simp add: bvalid_def)
qed

text \<open>Marking a held buffer dirty settles it.\<close>

definition mark_dirty :: "nat \<Rightarrow> 'z bstate_scheme \<Rightarrow> 'z bstate_scheme" where
  "mark_dirty i = upd_buf i (\<lambda>b. b\<lparr>b_flags := b_flags b OR B_DIRTY\<rparr>)"

lemma mark_dirty_held:
  assumes "bio_inv s" "holds s i n"
  shows "bio_inv (mark_dirty i s) \<and> holds (mark_dirty i s) i n \<and> blk (mark_dirty i s) = blk s
    \<and> bframe {i} s (mark_dirty i s) \<and> settled (mark_dirty i s) i"
proof -
  have "mark_dirty i s = (upd_buf i (\<lambda>b. b\<lparr>b_flags := b_flags b OR B_DIRTY\<rparr>) s)
      \<lparr>memdisk := memdisk s, dwrites := dwrites s\<rparr>"
    by (simp add: mark_dirty_def upd_buf_def)
  from change_held [OF assms _ _ _ _ _ _ _ _ this] held_facts [OF assms]
  have c: "bio_inv (mark_dirty i s) \<and> holds (mark_dirty i s) i n
      \<and> blk (mark_dirty i s) = (blk s)(n := b_data (bufn s i)) \<and> bframe {i} s (mark_dirty i s)
      \<and> bufn (mark_dirty i s) i = (bufn s i)\<lparr>b_flags := b_flags (bufn s i) OR B_DIRTY\<rparr>"
    by (simp add: bvalid_def flag_simps)
  then have "settled (mark_dirty i s) i"
    by (simp add: settled_def bdirty_def flag_simps)
  with c show ?thesis by (simp add: holds_blk [OF assms])
qed

theorem bwrite_Ok:
  assumes inv: "bio_inv s" and hold: "holds s i n" and run: "bwrite i s = Ok u t"
  shows "bio_inv t \<and> holds t i n \<and> settled t i \<and> \<not> bdirty (bufn t i) \<and> blk t = blk s
    \<and> bframe {i} s t \<and> memdisk t = (memdisk s)[n := blk s n]
    \<and> dwrites t = dwrites s @ [(n, blk s n)] \<and> procs t = procs s
    \<and> nextpid t = nextpid s \<and> initproc t = initproc s \<and> bstate.more t = bstate.more s"
proof -
  have len: "length (buffers s) = Suc NBUF" using inv by (simp add: bio_inv_def)
  have i: "i < NBUF" "n < disksize s" using holds_bound [OF inv hold] by auto
  have data: "b_data (bufn s i) = blk s n" and bn: "b_blockno (bufn s i) = n"
    using holds_blk [OF inv hold] hold by (auto simp: holds_def cached_def)
  have t: "t = (upd_buf i (\<lambda>b. b\<lparr>b_flags := ((b_flags b OR B_DIRTY) AND NOT B_DIRTY) OR B_VALID\<rparr>) s)
      \<lparr>memdisk := (memdisk s)[n := blk s n], dwrites := dwrites s @ [(n, blk s n)]\<rparr>"
    using run i len data bn
    by (auto simp: bwrite_def run_iff buf_holding_Ok_iff iderw_write_Ok_iff bufn_upd_buf
        flag_simps upd_buf_twice)
  from change_held [OF inv hold _ _ _ _ _ _ _ _ t]
  have c: "bio_inv t \<and> holds t i n \<and> blk t = (blk s)(n := blk s n) \<and> bframe {i} s t
    \<and> bufn t i = (bufn s i)\<lparr>b_flags := ((b_flags (bufn s i) OR B_DIRTY) AND NOT B_DIRTY) OR B_VALID\<rparr>"
    using data held_facts [OF inv hold] by (simp add: bvalid_def flag_simps)
  have "memdisk t = (memdisk s)[n := blk s n]" by (simp add: t)
  moreover have "n < length (memdisk s)" using i inv by (simp add: bio_inv_def)
  ultimately have "settled t i \<and> \<not> bdirty (bufn t i)"
    using c data bn by (simp add: settled_def bdirty_def flag_simps)
  with c show ?thesis by (simp add: t)
qed

subsection \<open>brelse\<close>

lemma same_bufs:
  assumes inv: "bio_inv s" and same: "\<And>j. j < NBUF \<Longrightarrow> same_buf (bufn t j) (bufn s j)"
    and t: "length (buffers t) = length (buffers s)" "memdisk t = memdisk s"
      "disksize t = disksize s" "curproc t = curproc s" "length (procs t) = length (procs s)"
    and lru: "lru t xs"
  shows "bio_inv t \<and> blk t = blk s"
proof -
  have cach: "cached t j m = cached s j m" for j m
    using same [of j] by (auto simp: cached_def same_buf_def)
  have val: "j < NBUF \<Longrightarrow> bvalid (bufn t j) = bvalid (bufn s j) \<and> bdirty (bufn t j) = bdirty (bufn s j)
      \<and> settled t j = settled s j" for j
    using same [of j] by (auto simp: same_buf_def bvalid_def bdirty_def settled_def t)
  have inv': "bio_inv t"
    using inv same lru unfolding bio_inv_def cach t
    by (auto simp: val same_buf_def t)
  have "find (\<lambda>i. cached t i m \<and> bvalid (bufn t i)) [0..<NBUF]
      = find (\<lambda>i. cached s i m \<and> bvalid (bufn s i)) [0..<NBUF]" for m
    by (rule find_cong) (auto simp: cach val)
  then have fe: "blk t m = (case find (\<lambda>i. cached s i m \<and> bvalid (bufn s i)) [0..<NBUF] of
      Some i \<Rightarrow> b_data (bufn t i) | None \<Rightarrow> memdisk s ! m)" for m
    by (simp only: blk_def t)
  have "blk t m = blk s m" for m
  proof (cases "find (\<lambda>i. cached s i m \<and> bvalid (bufn s i)) [0..<NBUF]")
    case (Some i)
    then have "i < NBUF" by (simp add: find_upt_Some)
    with same [of i] Some show ?thesis by (simp add: fe blk_def [of s] same_buf_def)
  qed (simp add: fe blk_def [of s])
  with inv' show ?thesis by blast
qed

lemma unlink_links:
  assumes "length (buffers s) = Suc NBUF" and "b_next (bufn s i) \<le> NBUF" and "b_prev (bufn s i) \<le> NBUF"
    and "b_next (bufn s i) \<noteq> i" and "i < NBUF"
  shows "(\<lambda>j. b_next (bufn (unlink_buf i s) j)) =
      (\<lambda>j. b_next (bufn s j))(b_prev (bufn s i) := b_next (bufn s i))"
    and "(\<lambda>j. b_prev (bufn (unlink_buf i s) j)) =
      (\<lambda>j. b_prev (bufn s j))(b_next (bufn s i) := b_prev (bufn s i))"
    and "same_buf (bufn (unlink_buf i s) j) (bufn s j)"
  using assms by (auto simp: unlink_buf_def Let_def bufn_upd_buf same_buf_def fun_eq_iff)

lemma link_front_links:
  assumes "length (buffers s) = Suc NBUF" and "b_next (bufn s NBUF) \<le> NBUF" and "i < NBUF"
  shows "(\<lambda>j. b_next (bufn (link_front i s) j)) =
      (\<lambda>j. b_next (bufn s j))(i := b_next (bufn s NBUF), NBUF := i)"
    and "(\<lambda>j. b_prev (bufn (link_front i s) j)) =
      (\<lambda>j. b_prev (bufn s j))(i := NBUF, b_next (bufn s NBUF) := i)"
    and "same_buf (bufn (link_front i s) j) (bufn s j)"
  using assms by (auto simp: link_front_def Let_def bufn_upd_buf same_buf_def fun_eq_iff)

lemma relink_sel [simp]:
  "length (buffers (unlink_buf i s)) = length (buffers s)"
  "length (buffers (link_front i s)) = length (buffers s)"
  "memdisk (unlink_buf i s) = memdisk s" "memdisk (link_front i s) = memdisk s"
  "dwrites (unlink_buf i s) = dwrites s" "dwrites (link_front i s) = dwrites s"
  "disksize (unlink_buf i s) = disksize s" "disksize (link_front i s) = disksize s"
  "locks (unlink_buf i s) = locks s" "locks (link_front i s) = locks s"
  "procs (unlink_buf i s) = procs s" "procs (link_front i s) = procs s"
  "curproc (unlink_buf i s) = curproc s" "curproc (link_front i s) = curproc s"
  "mypid (unlink_buf i s) = mypid s" "mypid (link_front i s) = mypid s"
  "nextpid (unlink_buf i s) = nextpid s" "nextpid (link_front i s) = nextpid s"
  "initproc (unlink_buf i s) = initproc s" "initproc (link_front i s) = initproc s"
  "bstate.more (unlink_buf i s) = bstate.more s" "bstate.more (link_front i s) = bstate.more s"
  by (simp_all add: unlink_buf_def link_front_def Let_def)

text \<open>A buffer whose last user lets it go moves to the front of the list.\<close>

lemma lru_move_front:
  assumes lru: "lru s xs" and i: "i < NBUF" and len: "length (buffers s) = Suc NBUF"
  shows "lru (link_front i (unlink_buf i s)) (i # remove1 i xs)"
    and "same_buf (bufn (link_front i (unlink_buf i s)) j) (bufn s j)"
proof -
  let ?N = "\<lambda>j. b_next (bufn s j)" and ?P = "\<lambda>j. b_prev (bufn s j)"
  let ?u = "unlink_buf i s"
  from lru have dist: "distinct xs" and set: "set xs = {..<NBUF}" and seg: "seg ?N ?P NBUF xs NBUF"
    by (auto simp: lru_def)
  from i set obtain ys zs where xs: "xs = ys @ i # zs"
    by (metis lessThan_iff split_list)
  from seg have 1: "seg ?N ?P NBUF ys i" and 2: "seg ?N ?P i zs NBUF"
    by (simp_all add: xs seg_append)
  have nx: "?N i = hd (zs @ [NBUF])" using seg_next_hd [OF 2] by simp
  have pv: "?P i = last (NBUF # ys)" using seg_prev_last [OF 1] by simp
  have sub: "x \<in> set xs \<Longrightarrow> x < NBUF" for x using set by auto
  have "?N i \<in> set (zs @ [NBUF])" unfolding nx by (rule hd_in_set) simp
  then have ni: "?N i \<le> NBUF" "?N i \<noteq> i" using sub [of "?N i"] dist i by (auto simp: xs)
  have "?P i \<in> set (NBUF # ys)" unfolding pv by (rule last_in_set) simp
  then have pi: "?P i \<le> NBUF" using sub by (auto simp: xs less_imp_le)
  note ul = unlink_links [OF len ni(1) pi ni(2) i]
  have nb: "NBUF \<notin> set xs" using set by auto
  have seg2: "seg (\<lambda>j. b_next (bufn ?u j)) (\<lambda>j. b_prev (bufn ?u j)) NBUF (ys @ zs) NBUF"
    unfolding ul by (rule seg_unlink) (use seg dist nb in \<open>auto simp: xs\<close>)
  have "b_next (bufn ?u NBUF) = hd (ys @ zs @ [NBUF])" using seg_next_hd [OF seg2] by simp
  moreover have "hd (ys @ zs @ [NBUF]) \<in> set (ys @ zs @ [NBUF])" by (rule hd_in_set) simp
  ultimately have nh: "b_next (bufn ?u NBUF) \<le> NBUF" using sub by (auto simp: xs less_imp_le)
  note lf = link_front_links [of ?u i, OF _ nh i]
  have "seg (\<lambda>j. b_next (bufn (link_front i ?u) j)) (\<lambda>j. b_prev (bufn (link_front i ?u) j))
      NBUF (i # ys @ zs) NBUF"
    unfolding lf(1) [OF len [folded relink_sel(1) [of i s]]] lf(2) [OF len [folded relink_sel(1) [of i s]]]
    by (rule seg_insert [OF seg2]) (use dist nb i in \<open>auto simp: xs\<close>)
  moreover have "remove1 i xs = ys @ zs" using dist by (simp add: xs remove1_append)
  moreover have "set (i # ys @ zs) = {..<NBUF}" using set by (simp add: xs)
  ultimately show "lru (link_front i ?u) (i # remove1 i xs)"
    using dist by (auto simp: lru_def xs)
  show "same_buf (bufn (link_front i ?u) j) (bufn s j)"
    using lf(3) [of j] ul(3) [of j] len by (simp add: same_buf_def)
qed

text \<open>Letting go of a held, settled buffer, before the list is touched.\<close>

lemma drop_held:
  assumes inv: "bio_inv s" and hold: "holds s i n" and settled: "settled s i"
    and bv: "\<And>j. bufn v j = (if i = j
        then (bufn s i)\<lparr>b_lock := (b_lock (bufn s i))\<lparr>sl_locked := False, sl_pid := 0\<rparr>,
               b_refcnt := r\<rparr> else bufn s j)"
    and vs: "memdisk v = memdisk s" "disksize v = disksize s" "curproc v = curproc s"
      "length (buffers v) = length (buffers s)" "length (procs v) = length (procs s)"
  shows "bio_inv v \<and> blk v = blk s"
proof -
  have cach: "cached v j m = cached s j m" for j m
    by (simp add: cached_def bv)
  have val: "bvalid (bufn v j) = bvalid (bufn s j)" "bdirty (bufn v j) = bdirty (bufn s j)"
    "b_data (bufn v j) = b_data (bufn s j)" "b_dev (bufn v j) = b_dev (bufn s j)"
    "b_blockno (bufn v j) = b_blockno (bufn s j)" "settled v j = settled s j"
    "b_next (bufn v j) = b_next (bufn s j)" "b_prev (bufn v j) = b_prev (bufn s j)" for j
    by (simp_all add: bv bvalid_def bdirty_def settled_def vs)
  have "lru v xs = lru s xs" for xs by (simp add: lru_def val)
  then have "bio_inv v"
    using inv settled unfolding bio_inv_def cach val vs by (auto simp: bv)
  moreover have "blk v = blk s" 
    by (rule ext) (simp add: blk_def cach val vs cong: option.case_cong)
  ultimately show ?thesis by blast
qed

lemma mypid_wakeup1 [simp]:
  "curproc s = Some p \<Longrightarrow> p < length (procs s) \<Longrightarrow> mypid (wakeup1 c s) = mypid s"
  by (simp add: mypid_def)

theorem brelse_Ok:
  assumes inv: "bio_inv s" and hold: "holds s i n" and settled: "settled s i"
    and run: "brelse i s = Ok u t"
  shows "bio_inv t \<and> blk t = blk s \<and> bframe {i} s t \<and> memdisk t = memdisk s
    \<and> dwrites t = dwrites s \<and> \<not> sl_locked (b_lock (bufn t i))
    \<and> map p_pid (procs t) = map p_pid (procs s)
    \<and> nextpid t = nextpid s \<and> initproc t = initproc s \<and> bstate.more t = bstate.more s"
proof -
  have len: "length (buffers s) = Suc NBUF" using inv by (simp add: bio_inv_def)
  have i: "i < NBUF" using holds_bound [OF inv hold] by simp
  define f :: "buf \<Rightarrow> buf" where "f = (\<lambda>b. b\<lparr>b_lock := (b_lock b)\<lparr>sl_locked := False, sl_pid := 0\<rparr>,
      b_refcnt := b_refcnt b - 1\<rparr>)"
  define v where "v = wakeup1 (ChLock (BufLock i)) (upd_buf i f s)"
  obtain p where p: "curproc s = Some p" "p < length (procs s)"
    using run inv by (auto simp: brelse_def run_iff buf_holding_Ok_iff bio_inv_def)
  have bv: "bufn v j = (if i = j then f (bufn s i) else bufn s j)" for j
    using i len by (simp add: v_def bufn_upd_buf)
  have vs: "memdisk v = memdisk s" "disksize v = disksize s" "locks v = locks s" "curproc v = curproc s"
    "dwrites v = dwrites s" "length (buffers v) = length (buffers s)" "length (procs v) = length (procs s)"
    "map p_pid (procs v) = map p_pid (procs s)" "mypid v = mypid s"
    "nextpid v = nextpid s" "initproc v = initproc s" "bstate.more v = bstate.more s"
    using p by (auto simp: v_def mypid_def wakeup1_nth intro!: nth_equalityI)
  have t: "t = (if b_refcnt (bufn v i) = 0 then link_front i (unlink_buf i v) else v)"
  proof -
    have swap: "upd_buf i (\<lambda>b. b\<lparr>b_refcnt := b_refcnt b - Suc 0\<rparr>)
        ((wakeup1 c (upd_buf i (\<lambda>b. b\<lparr>b_lock := (b_lock b)\<lparr>sl_locked := False, sl_pid := 0\<rparr>\<rparr>) s))
          \<lparr>locks := l\<rparr>) = (wakeup1 c (upd_buf i f s))\<lparr>locks := l\<rparr>" for c l
      using i len by (simp add: upd_buf_def wakeup1_def f_def)
    have lk: "link_front i (unlink_buf i (x\<lparr>locks := l\<rparr>)) = (link_front i (unlink_buf i x))\<lparr>locks := l\<rparr>"
      for x :: "'a bstate_scheme" and l
      by (simp add: link_front_def unlink_buf_def Let_def upd_buf_def bufn_def)
    have id: "x\<lparr>locks := locks s\<rparr> = x" if "locks x = locks s" for x :: "'a bstate_scheme"
      using that [symmetric] by simp
    note steps = brelse_def run_iff buf_holding_Ok_iff buf_release_Ok_iff acquire_Ok_iff
      release_Ok_iff swap lk id vs
    show ?thesis
    proof (cases "b_refcnt (bufn v i) = 0")
      case True
      with run show ?thesis by (auto simp: steps simp flip: v_def)
    next
      case False
      with run show ?thesis by (auto simp: steps simp flip: v_def)
    qed
  qed
  have inv_v: "bio_inv v \<and> blk v = blk s"
    by (rule drop_held [OF inv hold settled, where r = "b_refcnt (bufn s i) - 1"]) (simp_all add: bv f_def vs)
  obtain xs where xs: "lru v xs" using inv_v by (auto simp: bio_inv_def)
  have same: "same_buf (bufn t j) (bufn v j)" for j
    using lru_move_front(2) [OF xs i] len vs by (simp add: t)
  have ts: "memdisk t = memdisk v" "disksize t = disksize v" "locks t = locks v" "curproc t = curproc v"
    "dwrites t = dwrites v" "length (buffers t) = length (buffers v)" "procs t = procs v"
    "mypid t = mypid v" "nextpid t = nextpid v" "initproc t = initproc v"
    "bstate.more t = bstate.more v"
    by (simp_all add: t)
  have "\<exists>ys. lru t ys"
    using xs lru_move_front(1) [OF xs i] len vs by (auto simp: t)
  then have inv_t: "bio_inv t \<and> blk t = blk v"
    using same_bufs [OF conjunct1 [OF inv_v], of t] same ts by auto
  have "bframe {i} s t"
    using same by (auto simp: bframe_def ts vs same_buf_def bv)
  moreover have "\<not> sl_locked (b_lock (bufn t i))"
    using same [of i] by (simp add: same_buf_def bv f_def)
  ultimately show ?thesis using inv_t inv_v ts vs by simp
qed

subsection \<open>The operations return\<close>

lemma buf_acquire_returns:
  assumes "SleepSpin (BufLock i) \<notin> set (locks s)" "\<not> sl_locked (b_lock (bufn s i))" "curproc s = Some p"
  shows "buf_acquire i s = Ok () (upd_buf i (take_lock s) s)"
  using assms by (simp add: buf_acquire_Ok_iff take_lock_def [abs_def])

lemma bget_returns:
  assumes inv: "bio_inv s" and lk: "locks s = []" and p: "curproc s = Some p"
    and avail: "(\<exists>i. cached s i n \<and> \<not> sl_locked (b_lock (bufn s i)))
      \<or> (\<forall>i. \<not> cached s i n) \<and> (\<exists>i<NBUF. b_refcnt (bufn s i) = 0 \<and> \<not> bdirty (bufn s i))"
  shows "\<exists>i t. bget ROOTDEV n s = Ok i t"
proof -
  from inv obtain xs where xs: "lru s xs" and len: "length (buffers s) = Suc NBUF"
    by (auto simp: bio_inv_def)
  note sc = lru_scan [OF xs]
  let ?p = "\<lambda>i. b_dev (bufn s i) = ROOTDEV \<and> b_blockno (bufn s i) = n"
  let ?q = "\<lambda>i. b_refcnt (bufn s i) = 0 \<and> b_flags (bufn s i) AND B_DIRTY = 0"
  show ?thesis
  proof (cases "find ?p xs")
    case (Some k)
    then have k: "cached s k n" "k < NBUF"
      using xs by (auto simp: find_Some_iff lru_def cached_def)
    with avail have "\<not> sl_locked (b_lock (bufn s k))" using cached_inj [OF inv] by blast
    with Some k len lk p show ?thesis
      unfolding bget_def
      by (simp add: sc buf_acquire_returns [of k _ p] upd_buf_locks bufn_upd_buf)
  next
    case None
    then have none: "\<not> cached s j n" for j
      using lru_set [OF xs, of j] by (auto simp: cached_def find_None_iff)
    with avail obtain m where m: "m < NBUF" "?q m" by (auto simp: bdirty_def flag_simps)
    show ?thesis
    proof (cases "find ?q (rev xs)")
      case (Some k)
      then have k: "?q k" "k < NBUF"
        using xs by (auto simp: find_Some_iff lru_def rev_nth)
      then have "\<not> sl_locked (b_lock (bufn s k))" using inv by (auto simp: bio_inv_def)
      with Some None k len lk p show ?thesis
        unfolding bget_def
        by (simp add: sc buf_acquire_returns [of k _ p] upd_buf_locks bufn_upd_buf)
    next
      case N: None
      with m lru_set [OF xs, of m] show ?thesis by (auto simp: find_None_iff)
    qed
  qed
qed

theorem bread_returns:
  assumes inv: "bio_inv s" and lk: "locks s = []" and p: "curproc s = Some p" and n: "n < disksize s"
    and avail: "(\<exists>i. cached s i n \<and> \<not> sl_locked (b_lock (bufn s i)))
      \<or> (\<forall>i. \<not> cached s i n) \<and> (\<exists>i<NBUF. b_refcnt (bufn s i) = 0 \<and> \<not> bdirty (bufn s i))"
  shows "\<exists>i t. bread ROOTDEV n s = Ok i t"
proof -
  obtain i u where get: "bget ROOTDEV n s = Ok i u"
    using bget_returns [OF inv lk p avail] by blast
  have len: "length (buffers s) = Suc NBUF" using inv by (simp add: bio_inv_def)
  from bget_Ok [OF inv get] obtain g where i: "i < NBUF" and u: "u = upd_buf i g s"
    and g: "b_dev (g (bufn s i)) = ROOTDEV" "b_blockno (g (bufn s i)) = n"
      "sl_locked (b_lock (g (bufn s i)))" "sl_pid (b_lock (g (bufn s i))) = mypid s"
    and fl: "b_flags (g (bufn s i)) = b_flags (bufn s i) \<or> b_flags (g (bufn s i)) = 0"
    by (auto simp: take_lock_def cached_def)
  have bu: "bufn u i = g (bufn s i)" and lu: "length (buffers u) = Suc NBUF"
    using u i len by (simp_all add: bufn_upd_buf)
  show ?thesis
  proof (cases "bit (b_flags (bufn u i)) 1")
    case True
    with get show ?thesis by (simp add: bread_def flag_simps)
  next
    case False
    then have "\<not> bit (b_flags (bufn u i)) 2"
      using fl inv i by (auto simp: bu bio_inv_def bdirty_def bvalid_def)
    with False have "\<exists>t. iderw i u = Ok () t"
      by (simp add: iderw_read_Ok_iff [OF lu i] bu g lk p n; simp add: u lk p n g ROOTDEV_def)
    with get False show ?thesis by (auto simp: bread_def flag_simps)
  qed
qed

theorem brelse_returns:
  assumes "locks s = []" and "curproc s = Some p" and "holds s i n"
  shows "\<exists>t. brelse i s = Ok () t"
proof -
  define w where "w = wakeup1 (ChLock (BufLock i))
    (upd_buf i (\<lambda>b. b\<lparr>b_lock := (b_lock b)\<lparr>sl_locked := False, sl_pid := 0\<rparr>\<rparr>) s)"
  have hold: "buf_holding i s = Ok True s" and rel: "buf_release i s = Ok () w" and w: "locks w = []"
    using assms by (simp_all add: buf_holding_Ok_iff buf_release_Ok_iff w_def holds_def)
  show ?thesis
  proof (cases "b_refcnt (bufn (upd_buf i (\<lambda>b. b\<lparr>b_refcnt := b_refcnt b - 1\<rparr>)
      (w\<lparr>locks := [BcacheLock]\<rparr>)) i) = 0")
    case True
    with hold rel w show ?thesis by (simp add: brelse_def)
  next
    case False
    with hold rel w show ?thesis by (simp add: brelse_def)
  qed
qed

subsection \<open>binit\<close>

lemma link_front_seg:
  assumes "length (buffers s) = Suc NBUF" and "i < NBUF" and "i \<notin> set xs" and "distinct xs"
    and "set xs \<subseteq> {..<NBUF}"
    and "seg (\<lambda>j. b_next (bufn s j)) (\<lambda>j. b_prev (bufn s j)) NBUF xs NBUF"
  shows "seg (\<lambda>j. b_next (bufn (link_front i s) j)) (\<lambda>j. b_prev (bufn (link_front i s) j))
           NBUF (i # xs) NBUF"
proof -
  have "b_next (bufn s NBUF) = hd (xs @ [NBUF])" using seg_next_hd [OF assms(6)] by simp
  moreover have "hd (xs @ [NBUF]) \<in> set (xs @ [NBUF])" by (rule hd_in_set) simp
  ultimately have nh: "b_next (bufn s NBUF) \<le> NBUF" using assms(5) by auto
  show ?thesis
    unfolding link_front_links(1,2) [OF assms(1) nh assms(2)]
    by (rule seg_insert [OF assms(6)]) (use assms in auto)
qed

definition boot_bufs :: "'z bstate_scheme \<Rightarrow> bool" where
  "boot_bufs s \<longleftrightarrow> buffers s = replicate (Suc NBUF) zero_buf"

lemma binit_run:
  assumes "boot_bufs s"
  defines "s0 \<equiv> upd_buf NBUF (\<lambda>b. b\<lparr>b_prev := NBUF, b_next := NBUF\<rparr>) s"
  defines "step \<equiv> \<lambda>i s. link_front i (upd_buf i (\<lambda>b. b\<lparr>b_lock := initsleeplock\<rparr>) s)"
  assumes "k \<le> NBUF"
  shows "length (buffers (fold step [0..<k] s0)) = Suc NBUF
    \<and> seg (\<lambda>j. b_next (bufn (fold step [0..<k] s0) j)) (\<lambda>j. b_prev (bufn (fold step [0..<k] s0) j))
        NBUF (rev [0..<k]) NBUF
    \<and> (\<forall>j<NBUF. same_buf (bufn (fold step [0..<k] s0) j) zero_buf)"
proof -
  have len: "length (buffers s) = Suc NBUF" and zero: "\<And>j. j \<le> NBUF \<Longrightarrow> bufn s j = zero_buf"
    using assms(1) by (simp_all add: boot_bufs_def bufn_def del: replicate_Suc)
  show ?thesis
  using assms(4)
proof (induction k)
  case 0
  then show ?case
    using len zero by (simp add: s0_def bufn_upd_buf)
next
  case (Suc k)
  let ?f = "fold step [0..<k] s0"
  let ?u = "upd_buf k (\<lambda>b. b\<lparr>b_lock := initsleeplock\<rparr>) ?f"
  from Suc have IH: "length (buffers ?f) = Suc NBUF"
    "seg (\<lambda>j. b_next (bufn ?f j)) (\<lambda>j. b_prev (bufn ?f j)) NBUF (rev [0..<k]) NBUF"
    "\<forall>j<NBUF. same_buf (bufn ?f j) zero_buf" and k: "k < NBUF" by auto
  have nx: "(\<lambda>j. b_next (bufn ?u j)) = (\<lambda>j. b_next (bufn ?f j))"
    "(\<lambda>j. b_prev (bufn ?u j)) = (\<lambda>j. b_prev (bufn ?f j))"
    using IH(1) k by (auto simp: bufn_upd_buf)
  have "seg (\<lambda>j. b_next (bufn (link_front k ?u) j)) (\<lambda>j. b_prev (bufn (link_front k ?u) j))
      NBUF (k # rev [0..<k]) NBUF"
    by (rule link_front_seg) (use IH k nx in auto)
  moreover have "b_next (bufn ?u NBUF) \<le> NBUF"
  proof -
    have "b_next (bufn ?f NBUF) = hd (rev [0..<k] @ [NBUF])" using seg_next_hd [OF IH(2)] by simp
    also have "\<dots> \<le> NBUF" using k by (cases k) auto
    finally show ?thesis using fun_cong [OF nx(1), of NBUF] by simp
  qed
  then have "same_buf (bufn (link_front k ?u) j) (bufn ?u j)" for j
    using link_front_links(3) [of ?u k j] IH(1) k by simp
  moreover have "j < NBUF \<Longrightarrow> same_buf (bufn ?u j) zero_buf" for j
    using IH k by (auto simp: bufn_upd_buf same_buf_def zero_buf_def)
  ultimately show ?case
    using IH(1) by (auto simp: step_def same_buf_def)
qed
qed

lemma fold_boot_sel:
  defines "step \<equiv> \<lambda>i s. link_front i (upd_buf i (\<lambda>b. b\<lparr>b_lock := initsleeplock\<rparr>) s)"
  shows "memdisk (fold step is s) = memdisk s \<and> disksize (fold step is s) = disksize s
    \<and> curproc (fold step is s) = curproc s \<and> procs (fold step is s) = procs s
    \<and> dwrites (fold step is s) = dwrites s \<and> locks (fold step is s) = locks s
    \<and> bstate.more (fold step is s) = bstate.more s"
  by (induction "is" arbitrary: s) (simp_all add: step_def)

lemma binit_boot:
  assumes boot: "boot_bufs s" and d: "disksize s = length (memdisk s)"
    and bs: "\<forall>n<disksize s. length (memdisk s ! n) = BSIZE" and cp: "curproc s = None"
  shows "\<exists>t. binit s = Ok () t \<and> bio_inv t \<and> lru t (rev [0..<NBUF])
    \<and> (\<forall>n. blk t n = memdisk s ! n) \<and> memdisk t = memdisk s \<and> disksize t = disksize s
    \<and> curproc t = None \<and> procs t = procs s \<and> locks t = locks s \<and> dwrites t = dwrites s
    \<and> bstate.more t = bstate.more s \<and> (\<forall>j<NBUF. same_buf (bufn t j) zero_buf)"
proof -
  define s0 where "s0 = upd_buf NBUF (\<lambda>b. b\<lparr>b_prev := NBUF, b_next := NBUF\<rparr>) s"
  define step :: "nat \<Rightarrow> 'a bstate_scheme \<Rightarrow> 'a bstate_scheme" where
    "step = (\<lambda>i s. link_front i (upd_buf i (\<lambda>b. b\<lparr>b_lock := initsleeplock\<rparr>) s))"
  define t where "t = fold step [0..<NBUF] s0"
  have "for_each [0..<NBUF] (\<lambda>i. bind (modify (upd_buf i (\<lambda>b. b\<lparr>b_lock := initsleeplock\<rparr>)))
      (\<lambda>_. bind (modify (link_front i)) (\<lambda>_. ret (None :: unit option)))) s0 = Ok None t"
    unfolding t_def by (rule for_each_all) (simp add: step_def)
  then have run: "binit s = Ok () t" by (simp add: binit_def s0_def)
  have "length (buffers t) = Suc NBUF
    \<and> seg (\<lambda>j. b_next (bufn t j)) (\<lambda>j. b_prev (bufn t j)) NBUF (rev [0..<NBUF]) NBUF
    \<and> (\<forall>j<NBUF. same_buf (bufn t j) zero_buf)"
    using binit_run [OF boot order_refl] by (simp add: t_def s0_def step_def)
  then have len: "length (buffers t) = Suc NBUF"
    and lru: "lru t (rev [0..<NBUF])" and same: "j < NBUF \<Longrightarrow> same_buf (bufn t j) zero_buf" for j
    by (auto simp: lru_def)
  have ts: "memdisk t = memdisk s" "disksize t = disksize s" "curproc t = None"
    "procs t = procs s" "locks t = locks s" "dwrites t = dwrites s" "bstate.more t = bstate.more s"
    using fold_boot_sel [of "[0..<NBUF]" s0] cp
    by (simp_all add: t_def s0_def step_def)
  have nv: "j < NBUF \<Longrightarrow> \<not> bvalid (bufn t j) \<and> \<not> bdirty (bufn t j) \<and> \<not> cached t j n
      \<and> \<not> sl_locked (b_lock (bufn t j)) \<and> length (b_data (bufn t j)) = BSIZE" for j n
    using same [of j]
    by (simp add: same_buf_def zero_buf_def bvalid_def bdirty_def cached_def ROOTDEV_def
        initsleeplock_def)
  have "cached t j n \<Longrightarrow> j < NBUF" for j n by (simp add: cached_def)
  then have nc: "\<not> cached t j n" for j n using nv by blast
  have "bio_inv t"
    unfolding bio_inv_def settled_def using len lru nv ts d bs nc by auto
  moreover have "blk t n = memdisk s ! n" for n
    using blk_uncached [of t n] nc by (simp add: ts)
  ultimately show ?thesis using run lru ts same by blast
qed

end
