(* ===== verification/Log.thy ===== *)
theory Log
  imports Bio_Props
begin

text \<open>
  The redo log, log.c, and \<open>readsb\<close> of fs.c, which \<open>initlog\<close> calls.  The log's fields extend the
  block layer's state; the in-memory header is \<open>lh_n\<close> and \<open>lh_block\<close>, an array of \<open>LOGSIZE\<close>
  entries that the code indexes without a check when it reads a header from the disk, so that an
  index past its end is a \<open>Fault\<close>.
\<close>

subsection \<open>fs.h: the super block\<close>

record superblock =
  sb_size :: nat
  sb_nblocks :: nat
  sb_ninodes :: nat
  sb_nlog :: nat
  sb_logstart :: nat
  sb_inodestart :: nat
  sb_bmapstart :: nat

definition superblock_of :: "bytes \<Rightarrow> superblock" where
  "superblock_of d = \<lparr>sb_size = get32 d 0, sb_nblocks = get32 d 4, sb_ninodes = get32 d 8,
     sb_nlog = get32 d 12, sb_logstart = get32 d 16, sb_inodestart = get32 d 20,
     sb_bmapstart = get32 d 24\<rparr>"

definition readsb :: "nat \<Rightarrow> ('z, superblock) bop" where
  "readsb dev =
     bind (bread dev 1) (\<lambda>bp.
     bind (reads (\<lambda>s. superblock_of (b_data (bufn s bp)))) (\<lambda>sb.
     bind (brelse bp) (\<lambda>_. ret sb)))"

subsection \<open>State\<close>

record lstate = bstate +
  log_start :: nat
  log_size :: int
  log_outstanding :: int
  log_committing :: bool
  log_dev :: nat
  lh_n :: int
  lh_block :: "nat list"

type_synonym ('z, 'a) lop = "'z lstate_scheme \<Rightarrow> ('z lstate_scheme, 'a) outcome"

text \<open>An \<open>int\<close> field of an on-disk structure.\<close>

definition get_int :: "bytes \<Rightarrow> nat \<Rightarrow> int" where
  "get_int d i = sint (word_of_nat (get32 d i) :: 32 word)"

definition put_int :: "bytes \<Rightarrow> nat \<Rightarrow> int \<Rightarrow> bytes" where
  "put_int d i v = put32 d i (nat (v mod 4294967296))"

subsection \<open>log.c\<close>

definition install_trans :: "('z, unit) lop" where
  "install_trans =
     bind (reads lh_n) (\<lambda>n.
     bind (for_each [0..<nat n] (\<lambda>tail.
       bind (reads (\<lambda>s. (log_dev s, log_start s + tail + 1, lh_block s ! tail))) (\<lambda>(dev, src, dst).
       bind (bread dev src) (\<lambda>lbuf.
       bind (bread dev dst) (\<lambda>dbuf.
       bind (modify (\<lambda>s. set_data dbuf (b_data (bufn s lbuf)) s)) (\<lambda>_.
       bind (bwrite dbuf) (\<lambda>_.
       bind (brelse lbuf) (\<lambda>_.
       bind (brelse dbuf) (\<lambda>_. ret (None :: unit option))))))))))
     (\<lambda>_. ret ()))"

definition read_head :: "('z, unit) lop" where
  "read_head =
     bind (reads (\<lambda>s. (log_dev s, log_start s))) (\<lambda>(dev, start).
     bind (bread dev start) (\<lambda>bp.
     bind (reads (\<lambda>s. b_data (bufn s bp))) (\<lambda>d.
     bind (modify (\<lambda>s. s\<lparr>lh_n := get_int d 0\<rparr>)) (\<lambda>_.
     bind (for_each [0..<nat (get_int d 0)] (\<lambda>i.
       if i < LOGSIZE
       then bind (modify (\<lambda>s. s\<lparr>lh_block := (lh_block s)[i := get32 d (4 + 4 * i)]\<rparr>))
              (\<lambda>_. ret (None :: unit option))
       else fault))
     (\<lambda>_. brelse bp)))))"

definition put_head :: "int \<Rightarrow> nat list \<Rightarrow> bytes \<Rightarrow> bytes" where
  "put_head n bl d = fold (\<lambda>i d. put32 d (4 + 4 * i) (bl ! i)) [0..<nat n] (put_int d 0 n)"

definition write_head :: "('z, unit) lop" where
  "write_head =
     bind (reads (\<lambda>s. (log_dev s, log_start s, lh_n s, lh_block s))) (\<lambda>(dev, start, n, bl).
     bind (bread dev start) (\<lambda>bp.
     if length bl < nat n then fault
     else
       bind (modify (\<lambda>s. set_data bp (put_head n bl (b_data (bufn s bp))) s)) (\<lambda>_.
       bind (bwrite bp) (\<lambda>_.
       brelse bp))))"

definition recover_from_log :: "('z, unit) lop" where
  "recover_from_log =
     bind read_head (\<lambda>_.
     bind install_trans (\<lambda>_.
     bind (modify (\<lambda>s. s\<lparr>lh_n := 0\<rparr>)) (\<lambda>_.
     write_head)))"

definition initlog :: "nat \<Rightarrow> ('z, unit) lop" where
  "initlog dev =
     bind (panic_if (4 + 4 * LOGSIZE \<ge> BSIZE) ''initlog: too big logheader'') (\<lambda>_.
     bind (readsb dev) (\<lambda>sb.
     bind (modify (\<lambda>s. s\<lparr>log_start := sb_logstart sb, log_size := int (sb_nlog sb), log_dev := dev\<rparr>)) (\<lambda>_.
     recover_from_log)))"

definition begin_op :: "('z, unit) lop" where
  "begin_op =
     bind (acquire LogLock) (\<lambda>_.
     bind (reads (\<lambda>s. (log_committing s,
             lh_n s + (log_outstanding s + 1) * int MAXOPBLOCKS > int LOGSIZE))) (\<lambda>(committing, full).
     if committing then sleep ChLog LogLock
     else if full then sleep ChLog LogLock
     else bind (modify (\<lambda>s. s\<lparr>log_outstanding := log_outstanding s + 1\<rparr>)) (\<lambda>_. release LogLock)))"

definition write_log :: "('z, unit) lop" where
  "write_log =
     bind (reads lh_n) (\<lambda>n.
     bind (for_each [0..<nat n] (\<lambda>tail.
       bind (reads (\<lambda>s. (log_dev s, log_start s + tail + 1, lh_block s ! tail))) (\<lambda>(dev, dst, src).
       bind (bread dev dst) (\<lambda>to.
       bind (bread dev src) (\<lambda>from.
       bind (modify (\<lambda>s. set_data to (b_data (bufn s from)) s)) (\<lambda>_.
       bind (bwrite to) (\<lambda>_.
       bind (brelse from) (\<lambda>_.
       bind (brelse to) (\<lambda>_. ret (None :: unit option))))))))))
     (\<lambda>_. ret ()))"

definition commit :: "('z, unit) lop" where
  "commit =
     bind (reads lh_n) (\<lambda>n.
     whenM (n > 0)
       (bind write_log (\<lambda>_.
        bind write_head (\<lambda>_.
        bind install_trans (\<lambda>_.
        bind (modify (\<lambda>s. s\<lparr>lh_n := 0\<rparr>)) (\<lambda>_.
        write_head))))))"

definition end_op :: "('z, unit) lop" where
  "end_op =
     bind (acquire LogLock) (\<lambda>_.
     bind (modify (\<lambda>s. s\<lparr>log_outstanding := log_outstanding s - 1\<rparr>)) (\<lambda>_.
     bind (reads log_committing) (\<lambda>committing.
     bind (panic_if committing ''log.committing'') (\<lambda>_.
     bind (reads (\<lambda>s. log_outstanding s = 0)) (\<lambda>do_commit.
     bind (if do_commit then modify (\<lambda>s. s\<lparr>log_committing := True\<rparr>) else wakeup ChLog) (\<lambda>_.
     bind (release LogLock) (\<lambda>_.
     whenM do_commit
       (bind commit (\<lambda>_.
        bind (acquire LogLock) (\<lambda>_.
        bind (modify (\<lambda>s. s\<lparr>log_committing := False\<rparr>)) (\<lambda>_.
        bind (wakeup ChLog) (\<lambda>_.
        release LogLock)))))))))))) "

text \<open>The slot of the header that \<open>log_write\<close> uses: the block's own if it is in the log already.\<close>

definition log_slot :: "nat \<Rightarrow> nat list \<Rightarrow> nat \<Rightarrow> nat" where
  "log_slot n bl b = (case find (\<lambda>i. bl ! i = b) [0..<n] of Some i \<Rightarrow> i | None \<Rightarrow> n)"

definition log_write :: "nat \<Rightarrow> ('z, unit) lop" where
  "log_write b =
     bind (reads (\<lambda>s. lh_n s \<ge> int LOGSIZE \<or> lh_n s \<ge> log_size s - 1)) (\<lambda>big.
     bind (panic_if big ''too big a transaction'') (\<lambda>_.
     bind (reads (\<lambda>s. log_outstanding s < 1)) (\<lambda>outside.
     bind (panic_if outside ''log_write outside of trans'') (\<lambda>_.
     bind (acquire LogLock) (\<lambda>_.
     bind (reads (\<lambda>s. log_slot (nat (lh_n s)) (lh_block s) (b_blockno (bufn s b)))) (\<lambda>i.
     bind (modify (\<lambda>s. s\<lparr>lh_block := (lh_block s)[i := b_blockno (bufn s b)]\<rparr>)) (\<lambda>_.
     bind (modify (\<lambda>s. if int i = lh_n s then s\<lparr>lh_n := lh_n s + 1\<rparr> else s)) (\<lambda>_.
     bind (modify (mark_dirty b)) (\<lambda>_.
     release LogLock)))))))))"

end
