(* ===== verification/Log_Props.thy ===== *)
theory Log_Props
  imports Log
begin

text \<open>
  The log's guarantees: a commit makes the writes \<open>commit_writes\<close>, in that order, and after a
  crash at any point of them the recovery at boot leaves the file system as it was before the
  transaction or as it is after it.
\<close>

subsection \<open>One block copied through the cache\<close>

text \<open>What a block operation that has let go of its buffers leaves alone.\<close>

definition quiet_step :: "'z bstate_scheme \<Rightarrow> 'z bstate_scheme \<Rightarrow> bool" where
  "quiet_step s t \<longleftrightarrow> bframe {} s t \<and> map p_pid (procs t) = map p_pid (procs s)
     \<and> nextpid t = nextpid s \<and> initproc t = initproc s \<and> bstate.more t = bstate.more s"

lemma quiet_step_refl [simp]: "quiet_step s s"
  by (simp add: quiet_step_def)

lemma quiet_step_trans: "quiet_step s t \<Longrightarrow> quiet_step t u \<Longrightarrow> quiet_step s u"
  unfolding quiet_step_def using bframe_trans0 by auto

lemma settled_frame:
  assumes "settled s i" "holds s i n" "bframe X s t" "i \<notin> X" "memdisk t ! n = memdisk s ! n"
  shows "settled t i"
proof -
  have "i < NBUF" "b_blockno (bufn s i) = n" "sl_locked (b_lock (bufn s i))"
    using assms(2) by (auto simp: holds_def cached_def)
  then show ?thesis
    using assms by (auto simp: settled_def bframe_def same_buf_def bvalid_def bdirty_def)
qed

lemma bframe_locked: "bframe X s t \<Longrightarrow> j \<notin> X \<Longrightarrow> j < NBUF \<Longrightarrow> sl_locked (b_lock (bufn s j)) \<Longrightarrow>
    sl_locked (b_lock (bufn t j))"
  by (auto simp: bframe_def same_buf_def)

lemma bframe_new2:
  "bframe {i, j} s t \<Longrightarrow> \<not> sl_locked (b_lock (bufn s i)) \<Longrightarrow> \<not> sl_locked (b_lock (bufn s j)) \<Longrightarrow>
     bframe {} s t"
  by (auto simp: bframe_def)

lemma set_data_sel [simp]:
  "procs (set_data i d s) = procs s" "nextpid (set_data i d s) = nextpid s"
  "initproc (set_data i d s) = initproc s" "bstate.more (set_data i d s) = bstate.more s"
  "memdisk (set_data i d s) = memdisk s" "dwrites (set_data i d s) = dwrites s"
  "locks (set_data i d s) = locks s" "curproc (set_data i d s) = curproc s"
  "disksize (set_data i d s) = disksize s"
  by (simp_all add: set_data_def)

text \<open>
  Two buffers taken one after the other are different ones, and both are held.
\<close>

lemma bread_two:
  assumes inv: "bio_inv s" and 1: "bread ROOTDEV a s = Ok i s1" and 2: "bread ROOTDEV b s1 = Ok j s2"
  shows "bio_inv s2 \<and> holds s2 i a \<and> holds s2 j b \<and> settled s2 i \<and> settled s2 j \<and> i \<noteq> j \<and> a \<noteq> b
    \<and> blk s2 = blk s \<and> bframe {} s s2 \<and> memdisk s2 = memdisk s \<and> dwrites s2 = dwrites s
    \<and> procs s2 = procs s \<and> nextpid s2 = nextpid s \<and> initproc s2 = initproc s
    \<and> bstate.more s2 = bstate.more s \<and> i < NBUF \<and> j < NBUF \<and> a < disksize s \<and> b < disksize s
    \<and> \<not> sl_locked (b_lock (bufn s i)) \<and> \<not> sl_locked (b_lock (bufn s j))"
proof -
  note r1 = bread_Ok [OF inv 1]
  then have inv1: "bio_inv s1" and h1: "holds s1 i a" and st1: "settled s1 i" by auto
  note r2 = bread_Ok [OF inv1 2]
  have h2: "holds s2 i a" by (rule holds_frame [OF h1, of "{}" s2]) (use r2 in auto)
  have st2: "settled s2 i" by (rule settled_frame [OF st1 h1, of "{}"]) (use r2 in auto)
  have "sl_locked (b_lock (bufn s1 i))" using h1 by (simp add: holds_def)
  then have ij: "i \<noteq> j" using r2 by auto
  have "a \<noteq> b"
    using ij h2 r2 cached_inj [of s2 i a j] by (auto simp: holds_def)
  moreover have "\<not> sl_locked (b_lock (bufn s j))"
    using bframe_locked [of "{}" s s1 j] r1 r2 by auto
  moreover have "disksize s1 = disksize s" using r1 by (simp add: bframe_def)
  moreover have "bframe {} s s2" using bframe_trans0 r1 r2 by blast
  ultimately show ?thesis using r1 r2 h2 st2 ij by auto
qed

text \<open>Copy block \<open>a\<close>, held in \<open>i\<close>, over block \<open>b\<close>, held in \<open>j\<close>, write it and let both go.\<close>

lemma copy_held:
  assumes inv: "bio_inv s" and h: "holds s i a" "holds s j b" and ab: "a \<noteq> b" and st: "settled s i"
    and w: "bwrite j (set_data j (b_data (bufn s i)) s) = Ok u s1"
    and r: "brelse k s1 = Ok u' s2" "brelse l s2 = Ok u'' t" and kl: "{k, l} = {i, j}" "k \<noteq> l"
  shows "bio_inv t \<and> blk t = (blk s)(b := blk s a) \<and> bframe {i, j} s t
    \<and> memdisk t = (memdisk s)[b := blk s a] \<and> dwrites t = dwrites s @ [(b, blk s a)]
    \<and> map p_pid (procs t) = map p_pid (procs s) \<and> nextpid t = nextpid s
    \<and> initproc t = initproc s \<and> bstate.more t = bstate.more s"
proof -
  have ij: "i \<noteq> j" using h ab by (auto simp: holds_def cached_def)
  let ?d = "b_data (bufn s i)" and ?s0 = "set_data j (b_data (bufn s i)) s"
  have d: "?d = blk s a" "length ?d = BSIZE" using holds_blk [OF inv h(1)] held_facts [OF inv h(1)] by auto
  note r0 = set_data_held [OF inv h(2) d(2)]
  from bwrite_Ok [OF conjunct1 [OF r0] conjunct1 [OF conjunct2 [OF r0]] w] r0
  have r1: "bio_inv s1 \<and> holds s1 j b \<and> settled s1 j \<and> blk s1 = (blk s)(b := blk s a) \<and> bframe {j} ?s0 s1
    \<and> memdisk s1 = (memdisk s)[b := blk s a] \<and> dwrites s1 = dwrites s @ [(b, blk s a)]
    \<and> procs s1 = procs s \<and> nextpid s1 = nextpid s \<and> initproc s1 = initproc s
    \<and> bstate.more s1 = bstate.more s"
    by (simp add: d)
  then have f1: "bframe {j} s s1" using bframe_trans [of "{j}" s ?s0 "{j}" s1] r0 by simp
  have hi: "holds s1 i a" by (rule holds_frame [OF h(1) f1]) (use ij in simp)
  have si: "settled s1 i"
    by (rule settled_frame [OF st h(1) f1]) (use ij r1 ab in auto)
  have "\<exists>m n. holds s1 k m \<and> settled s1 k \<and> holds s1 l n \<and> settled s1 l"
    using kl r1 hi si by (auto simp: doubleton_eq_iff)
  then obtain m n where k: "holds s1 k m" "settled s1 k" and l: "holds s1 l n" "settled s1 l" by blast
  note r2 = brelse_Ok [OF conjunct1 [OF r1] k r(1)]
  have l2: "holds s2 l n" by (rule holds_frame [OF l(1), of "{k}"]) (use r2 kl in auto)
  have sl2: "settled s2 l"
    by (rule settled_frame [OF l(2,1), of "{k}"]) (use r2 kl in auto)
  note r3 = brelse_Ok [OF conjunct1 [OF r2] l2 sl2 r(2)]
  have "bframe ({j} \<union> {k} \<union> {l}) s t"
    using bframe_trans [OF bframe_trans [OF f1, of "{k}" s2], of "{l}" t] r2 r3 by simp
  then have "bframe {i, j} s t" by (rule bframe_mono) (use kl in auto)
  with r3 r2 r1 show ?thesis by simp
qed

definition copies :: "nat \<Rightarrow> nat \<Rightarrow> 'z bstate_scheme \<Rightarrow> 'z bstate_scheme \<Rightarrow> bool" where
  "copies a b s t \<longleftrightarrow> bio_inv t \<and> blk t = (blk s)(b := blk s a) \<and> memdisk t = (memdisk s)[b := blk s a]
     \<and> dwrites t = dwrites s @ [(b, blk s a)] \<and> quiet_step s t \<and> a \<noteq> b"

lemma copy_src_first:
  assumes inv: "bio_inv s"
    and run: "bind (bread ROOTDEV a) (\<lambda>i. bind (bread ROOTDEV b) (\<lambda>j.
       bind (modify (\<lambda>s. set_data j (b_data (bufn s i)) s)) (\<lambda>_. bind (bwrite j) (\<lambda>_.
       bind (brelse i) (\<lambda>_. bind (brelse j) (\<lambda>_. ret r)))))) s = Ok x t"
  shows "copies a b s t \<and> x = r"
proof -
  from run obtain i j s1 s2 s3 s4 where 1: "bread ROOTDEV a s = Ok i s1" "bread ROOTDEV b s1 = Ok j s2"
    and w: "bwrite j (set_data j (b_data (bufn s2 i)) s2) = Ok () s3"
    and r: "brelse i s3 = Ok () s4" "brelse j s4 = Ok () t" and x: "x = r"
    by (auto simp: run_iff)
  note b = bread_two [OF inv 1]
  then have "i \<noteq> j" "a \<noteq> b" by auto
  with copy_held [OF _ _ _ _ _ w r] b bframe_trans [of "{}" s s2 "{i, j}" t] bframe_new2 [of i j s t]
  show ?thesis by (auto simp: copies_def quiet_step_def x)
qed

lemma copy_dst_first:
  assumes inv: "bio_inv s"
    and run: "bind (bread ROOTDEV b) (\<lambda>j. bind (bread ROOTDEV a) (\<lambda>i.
       bind (modify (\<lambda>s. set_data j (b_data (bufn s i)) s)) (\<lambda>_. bind (bwrite j) (\<lambda>_.
       bind (brelse i) (\<lambda>_. bind (brelse j) (\<lambda>_. ret r)))))) s = Ok x t"
  shows "copies a b s t \<and> x = r"
proof -
  from run obtain i j s1 s2 s3 s4 where 1: "bread ROOTDEV b s = Ok j s1" "bread ROOTDEV a s1 = Ok i s2"
    and w: "bwrite j (set_data j (b_data (bufn s2 i)) s2) = Ok () s3"
    and r: "brelse i s3 = Ok () s4" "brelse j s4 = Ok () t" and x: "x = r"
    by (auto simp: run_iff)
  note b = bread_two [OF inv 1]
  then have "i \<noteq> j" "a \<noteq> b" by auto
  with copy_held [OF _ _ _ _ _ w r] b bframe_trans [of "{}" s s2 "{i, j}" t] bframe_new2 [of i j s t]
  show ?thesis by (auto simp: copies_def quiet_step_def x)
qed

subsection \<open>Sequences of writes\<close>

definition upd_all :: "(nat \<times> 'b) list \<Rightarrow> (nat \<Rightarrow> 'b) \<Rightarrow> nat \<Rightarrow> 'b" where
  "upd_all W D = fold (\<lambda>(n, b) D. D(n := b)) W D"

definition apply_writes :: "(nat \<times> 'b) list \<Rightarrow> 'b list \<Rightarrow> 'b list" where
  "apply_writes W d = fold (\<lambda>(n, b) d. d[n := b]) W d"

lemma upd_all_simps [simp]:
  "upd_all [] D = D" "upd_all ((n, b) # W) D = upd_all W (D(n := b))"
  "upd_all (V @ W) D = upd_all W (upd_all V D)"
  by (simp_all add: upd_all_def)

lemma apply_writes_simps [simp]:
  "apply_writes [] d = d" "apply_writes ((n, b) # W) d = apply_writes W (d[n := b])"
  "apply_writes (V @ W) d = apply_writes W (apply_writes V d)"
  by (simp_all add: apply_writes_def)

lemma length_apply_writes [simp]: "length (apply_writes W d) = length d"
  by (induction W arbitrary: d) auto

lemma nth_apply_writes: "m < length d \<Longrightarrow> apply_writes W d ! m = upd_all W (\<lambda>n. d ! n) m"
proof (induction W rule: rev_induct)
  case (snoc w W)
  obtain n b where "w = (n, b)" by (cases w)
  with snoc show ?case by (cases "n = m") simp_all
qed simp

lemma upd_all_out: "m \<notin> fst ` set W \<Longrightarrow> upd_all W D m = D m"
  by (induction W arbitrary: D) (auto simp: upd_all_def)

lemma upd_all_in:
  "distinct (map fst W) \<Longrightarrow> (m, b) \<in> set W \<Longrightarrow> upd_all W D m = b"
proof (induction W arbitrary: D)
  case (Cons w W)
  obtain n c where w: "w = (n, c)" by (cases w)
  show ?case
  proof (cases "(m, b) = w")
    case True
    with w Cons.prems(1) show ?thesis by (simp add: upd_all_out)
  next
    case False
    with Cons w show ?thesis by auto
  qed
qed simp

text \<open>Writes to distinct blocks given by two functions of an index.\<close>

lemma upd_all_map:
  assumes "inj_on dst (set ks)"
  shows "k \<in> set ks \<Longrightarrow> distinct ks \<Longrightarrow> upd_all (map (\<lambda>k. (dst k, val k)) ks) D (dst k) = val k"
    and "m \<notin> dst ` set ks \<Longrightarrow> upd_all (map (\<lambda>k. (dst k, val k)) ks) D m = D m"
  using assms by (auto simp: distinct_map o_def intro!: upd_all_in upd_all_out)

text \<open>From \<open>s\<close> to \<open>t\<close>, exactly the writes \<open>W\<close> have gone through the cache to the disk.\<close>

definition wrote :: "(nat \<times> bytes) list \<Rightarrow> 'z bstate_scheme \<Rightarrow> 'z bstate_scheme \<Rightarrow> bool" where
  "wrote W s t \<longleftrightarrow> blk t = upd_all W (blk s) \<and> memdisk t = apply_writes W (memdisk s)
     \<and> dwrites t = dwrites s @ W"

lemma wrote_refl [simp]: "wrote [] s s"
  by (simp add: wrote_def)

lemma wrote_trans: "wrote V s t \<Longrightarrow> wrote W t u \<Longrightarrow> wrote (V @ W) s u"
  by (simp add: wrote_def)

lemma copies_wrote: "copies a b s t \<Longrightarrow> wrote [(b, blk s a)] s t"
  by (simp add: copies_def wrote_def)

lemma copy_loop:
  assumes body: "\<And>s k x t. k \<in> set ks \<Longrightarrow> bio_inv s \<Longrightarrow> bstate.more s = m \<Longrightarrow> body k s = Ok x t
      \<Longrightarrow> copies (src k) (dst k) s t \<and> x = None"
    and disj: "\<And>j k. j \<in> set ks \<Longrightarrow> k \<in> set ks \<Longrightarrow> dst j \<noteq> src k"
    and s: "bio_inv s" "bstate.more s = m" and run: "for_each ks body s = Ok r t"
  shows "r = None \<and> bio_inv t \<and> quiet_step s t \<and> wrote (map (\<lambda>k. (dst k, blk s (src k))) ks) s t"
  using assms
proof (induction ks arbitrary: s)
  case Nil
  then show ?case by simp
next
  case (Cons k ks)
  from Cons.prems(5) obtain x s1 where 1: "body k s = Ok x s1"
    and 2: "(case x of None \<Rightarrow> for_each ks body | Some x \<Rightarrow> ret (Some x)) s1 = Ok r t"
    by (auto simp: run_iff)
  from Cons.prems(1) [OF _ Cons.prems(3,4) 1] have c: "copies (src k) (dst k) s s1" and x: "x = None"
    by auto
  then have s1: "bio_inv s1" "quiet_step s s1" "blk s1 = (blk s)(dst k := blk s (src k))"
    by (auto simp: copies_def)
  then have m: "bstate.more s1 = m" using Cons.prems(4) by (simp add: quiet_step_def)
  have "r = None \<and> bio_inv t \<and> quiet_step s1 t \<and> wrote (map (\<lambda>k. (dst k, blk s1 (src k))) ks) s1 t"
    by (rule Cons.IH) (use Cons.prems s1 m 2 x in auto)
  moreover have "map (\<lambda>k. (dst k, blk s1 (src k))) ks = map (\<lambda>k. (dst k, blk s (src k))) ks"
    using Cons.prems(2) by (auto simp: s1(3)) (metis list.set_intros)
  ultimately show ?case
    using wrote_trans [OF copies_wrote [OF c]] quiet_step_trans [OF s1(2)] by auto
qed

subsection \<open>The log's steps\<close>

lemma log_fields:
  assumes "bstate.more t = bstate.more s"
  shows "log_start t = log_start s" "log_size t = log_size s" "log_outstanding t = log_outstanding s"
    "log_committing t = log_committing s" "log_dev t = log_dev s" "lh_n t = lh_n s"
    "lh_block t = lh_block s"
  using assms by (cases s; cases t; simp)+

definition home :: "'z lstate_scheme \<Rightarrow> nat \<Rightarrow> nat" where
  "home s k = lh_block s ! k"

definition in_log :: "'z lstate_scheme \<Rightarrow> nat \<Rightarrow> bool" where
  "in_log s n \<longleftrightarrow> log_start s \<le> n \<and> n < log_start s + nat (log_size s)"

definition log_ok :: "'z lstate_scheme \<Rightarrow> bool" where
  "log_ok s \<longleftrightarrow> log_dev s = ROOTDEV \<and> length (lh_block s) = LOGSIZE
     \<and> 0 \<le> lh_n s \<and> lh_n s \<le> int LOGSIZE \<and> lh_n s + 1 \<le> log_size s
     \<and> (\<forall>j k. j < nat (lh_n s) \<longrightarrow> k < nat (lh_n s) \<longrightarrow> home s j = home s k \<longrightarrow> j = k)
     \<and> (\<forall>k < nat (lh_n s). \<not> in_log s (home s k) \<and> home s k < 4294967296)"

lemma log_ok_cong:
  assumes "bstate.more t = bstate.more s"
  shows "log_ok t = log_ok s" "home t = home s" "in_log t = in_log s"
  by (auto simp: log_ok_def home_def in_log_def fun_eq_iff log_fields [OF assms])

lemma log_slot_notin: "log_ok s \<Longrightarrow> k < nat (lh_n s) \<Longrightarrow> in_log s (log_start s + k + 1)"
  by (auto simp: log_ok_def in_log_def)

lemma install_trans_Ok:
  assumes inv: "bio_inv s" and ok: "log_ok s" and run: "install_trans s = Ok u t"
  shows "bio_inv t \<and> quiet_step s t
    \<and> wrote (map (\<lambda>k. (home s k, blk s (log_start s + k + 1))) [0..<nat (lh_n s)]) s t"
proof -
  have dev: "log_dev s = ROOTDEV" using ok by (simp add: log_ok_def)
  let ?body = "\<lambda>tail. bind (reads (\<lambda>s. (log_dev s, log_start s + tail + 1, lh_block s ! tail)))
     (\<lambda>(dev, src, dst). bind (bread dev src) (\<lambda>lbuf. bind (bread dev dst) (\<lambda>dbuf.
       bind (modify (\<lambda>s. set_data dbuf (b_data (bufn s lbuf)) s)) (\<lambda>_. bind (bwrite dbuf) (\<lambda>_.
       bind (brelse lbuf) (\<lambda>_. bind (brelse dbuf) (\<lambda>_. ret (None :: unit option))))))))"
  from run obtain r where loop: "for_each [0..<nat (lh_n s)] ?body s = Ok r t"
    by (auto simp: install_trans_def run_iff)
  have body: "copies (log_start s + k + 1) (home s k) s' t' \<and> x = None"
    if "bio_inv s'" "bstate.more s' = bstate.more s" "?body k s' = Ok x t'" for s' k x t'
    using copy_src_first [OF that(1), of "log_start s + k + 1" "home s k" None x t']
      that(3) by (simp add: log_fields [OF that(2)] dev home_def)
  have disj: "home s j \<noteq> log_start s + k + 1"
    if "j \<in> set [0..<nat (lh_n s)]" "k \<in> set [0..<nat (lh_n s)]" for j k
    using ok that log_slot_notin [OF ok, of k] by (auto simp: log_ok_def)
  have "r = None \<and> bio_inv t \<and> quiet_step s t
    \<and> wrote (map (\<lambda>k. (home s k, blk s (log_start s + k + 1))) [0..<nat (lh_n s)]) s t"
    by (rule copy_loop [where m = "bstate.more s", OF _ disj inv refl loop]) (rule body)
  then show ?thesis by simp
qed

lemma write_log_Ok:
  assumes inv: "bio_inv s" and ok: "log_ok s" and run: "write_log s = Ok u t"
  shows "bio_inv t \<and> quiet_step s t
    \<and> wrote (map (\<lambda>k. (log_start s + k + 1, blk s (home s k))) [0..<nat (lh_n s)]) s t"
proof -
  have dev: "log_dev s = ROOTDEV" using ok by (simp add: log_ok_def)
  let ?body = "\<lambda>tail. bind (reads (\<lambda>s. (log_dev s, log_start s + tail + 1, lh_block s ! tail)))
     (\<lambda>(dev, dst, src). bind (bread dev dst) (\<lambda>to. bind (bread dev src) (\<lambda>from.
       bind (modify (\<lambda>s. set_data to (b_data (bufn s from)) s)) (\<lambda>_. bind (bwrite to) (\<lambda>_.
       bind (brelse from) (\<lambda>_. bind (brelse to) (\<lambda>_. ret (None :: unit option))))))))"
  from run obtain r where loop: "for_each [0..<nat (lh_n s)] ?body s = Ok r t"
    by (auto simp: write_log_def run_iff)
  have body: "copies (home s k) (log_start s + k + 1) s' t' \<and> x = None"
    if "bio_inv s'" "bstate.more s' = bstate.more s" "?body k s' = Ok x t'" for s' k x t'
    using copy_dst_first [OF that(1), of "log_start s + k + 1" "home s k" None x t']
      that(3) by (simp add: log_fields [OF that(2)] dev home_def)
  have disj: "log_start s + j + 1 \<noteq> home s k"
    if "j \<in> set [0..<nat (lh_n s)]" "k \<in> set [0..<nat (lh_n s)]" for j k
    using ok that log_slot_notin [OF ok, of j] by (auto simp: log_ok_def)
  have "r = None \<and> bio_inv t \<and> quiet_step s t
    \<and> wrote (map (\<lambda>k. (log_start s + k + 1, blk s (home s k))) [0..<nat (lh_n s)]) s t"
    by (rule copy_loop [where m = "bstate.more s", OF _ disj inv refl loop]) (rule body)
  then show ?thesis by simp
qed

subsection \<open>The on-disk header\<close>

lemma length_put_int [simp]: "length (put_int d i v) = length d"
  by (simp add: put_int_def)

lemma get_int_put_int:
  assumes "i + 4 \<le> length d" "- 2147483648 \<le> v" "v < 2147483648"
  shows "get_int (put_int d i v) i = v"
proof -
  have "get32 (put_int d i v) i = nat (v mod 4294967296)"
    using assms(1) by (simp add: put_int_def get32_put32_same nat_mod_distrib)
  then have "get_int (put_int d i v) i = sint (word_of_int (v mod 4294967296) :: 32 word)"
    by (simp add: get_int_def)
  also have "(word_of_int (v mod 4294967296) :: 32 word) = word_of_int v"
    by (rule word_of_int_eq_iff [THEN iffD2]) (simp add: take_bit_eq_mod)
  finally show ?thesis
    using assms(2,3) by (simp add: sint_sbintrunc' signed_take_bit_int_eq_self)
qed

lemma put_head_steps:
  fixes bl :: "nat list"
  assumes "4 + 4 * n \<le> length d" and "j \<le> n"
  defines "f \<equiv> fold (\<lambda>i d. put32 d (4 + 4 * i) (bl ! i)) [0..<j]"
  shows "length (f d) = length d \<and> get32 (f d) 0 = get32 d 0
    \<and> (\<forall>k<j. get32 (f d) (4 + 4 * k) = bl ! k mod 4294967296)"
  using assms(2) unfolding f_def
proof (induction j)
  case (Suc j)
  let ?f = "fold (\<lambda>i d. put32 d (4 + 4 * i) (bl ! i)) [0..<j] d"
  from Suc have IH: "length ?f = length d" "get32 ?f 0 = get32 d 0"
    "\<And>k. k < j \<Longrightarrow> get32 ?f (4 + 4 * k) = bl ! k mod 4294967296" by auto
  have "get32 (put32 ?f (4 + 4 * j) (bl ! j)) (4 + 4 * k) = bl ! k mod 4294967296" if "k < Suc j" for k
  proof (cases "k = j")
    case True
    then show ?thesis using Suc.prems assms(1) IH(1) by (simp add: get32_put32_same)
  next
    case False
    then show ?thesis using that IH(3) [of k] by (subst get32_put32_other) auto
  qed
  moreover have "get32 (put32 ?f (4 + 4 * j) (bl ! j)) 0 = get32 d 0"
    using IH(2) by (subst get32_put32_other) auto
  ultimately show ?case using IH(1) by simp
qed simp

text \<open>The block numbers in a header block.\<close>

definition hdr_n :: "bytes \<Rightarrow> nat" where
  "hdr_n h = nat (get_int h 0)"

definition hdr_home :: "bytes \<Rightarrow> nat \<Rightarrow> nat" where
  "hdr_home h k = get32 h (4 + 4 * k)"

lemma put_head_read:
  assumes "length h = BSIZE" "0 \<le> n" "n \<le> int LOGSIZE"
  shows "length (put_head n bl h) = BSIZE" and "hdr_n (put_head n bl h) = nat n"
    and "k < nat n \<Longrightarrow> bl ! k < 4294967296 \<Longrightarrow> hdr_home (put_head n bl h) k = bl ! k"
proof -
  have "4 + 4 * nat n \<le> length (put_int h 0 n)" 
    using assms by (simp add: BSIZE_def LOGSIZE_def MAXOPBLOCKS_def)
  note f = put_head_steps [OF this order_refl, of bl, folded put_head_def]
  have "get_int (put_head n bl h) 0 = get_int (put_int h 0 n) 0"
    using f by (simp add: get_int_def)
  also have "\<dots> = n"
    using assms by (intro get_int_put_int) (auto simp: BSIZE_def LOGSIZE_def MAXOPBLOCKS_def)
  finally show "hdr_n (put_head n bl h) = nat n" by (simp add: hdr_n_def)
  show "length (put_head n bl h) = BSIZE" using f assms by simp
  show "k < nat n \<Longrightarrow> bl ! k < 4294967296 \<Longrightarrow> hdr_home (put_head n bl h) k = bl ! k"
    using f by (simp add: hdr_home_def)
qed

text \<open>One block changed, written through and let go.\<close>

lemma write_through:
  assumes inv: "bio_inv s" and len: "\<And>d. length d = BSIZE \<Longrightarrow> length (f d) = BSIZE"
    and b: "bread ROOTDEV n s = Ok i s1"
    and w: "bwrite i (set_data i (f (b_data (bufn s1 i))) s1) = Ok u s2" and r: "brelse i s2 = Ok v t"
  shows "bio_inv t \<and> quiet_step s t \<and> wrote [(n, f (blk s n))] s t"
proof -
  note 1 = bread_Ok [OF inv b]
  then have inv1: "bio_inv s1" and h1: "holds s1 i n" and free: "\<not> sl_locked (b_lock (bufn s i))" by auto
  have d: "b_data (bufn s1 i) = blk s n" using holds_blk [OF inv1 h1] 1 by simp
  note 2 = set_data_held [OF inv1 h1 len [OF held_facts(2) [OF inv1 h1]], unfolded d]
  note 3 = bwrite_Ok [OF conjunct1 [OF 2] conjunct1 [OF conjunct2 [OF 2]] w [unfolded d]]
  then have inv3: "bio_inv s2" "holds s2 i n" "settled s2 i" by auto
  note 4 = brelse_Ok [OF inv3 r]
  have "bframe ({} \<union> {i} \<union> {i} \<union> {i}) s t"
    by (intro bframe_trans [OF bframe_trans [OF bframe_trans]]) (use 1 2 3 4 in blast)+
  then have "bframe {} s t" using bframe_new [of i s t] free by simp
  with 1 2 3 4 show ?thesis by (simp add: quiet_step_def wrote_def)
qed

lemma write_head_Ok:
  assumes inv: "bio_inv s" and dev: "log_dev s = ROOTDEV" and n: "0 \<le> lh_n s" "lh_n s \<le> int LOGSIZE"
    and run: "write_head s = Ok u t"
  shows "bio_inv t \<and> quiet_step s t
    \<and> wrote [(log_start s, put_head (lh_n s) (lh_block s) (blk s (log_start s)))] s t"
proof -
  from run dev obtain i s1 s2 where "bread ROOTDEV (log_start s) s = Ok i s1"
    "bwrite i (set_data i (put_head (lh_n s) (lh_block s) (b_data (bufn s1 i))) s1) = Ok () s2"
    "brelse i s2 = Ok () t"
    by (auto simp: write_head_def run_iff split: if_splits)
  from write_through [where f = "put_head (lh_n s) (lh_block s)", OF inv _ this] put_head_read(1) n show ?thesis by blast
qed

subsection \<open>commit\<close>

definition commit_writes :: "'z lstate_scheme \<Rightarrow> (nat \<times> bytes) list" where
  "commit_writes s = (let n = nat (lh_n s); st = log_start s;
       h = put_head (lh_n s) (lh_block s) (blk s st) in
     map (\<lambda>k. (st + k + 1, blk s (home s k))) [0..<n] @ [(st, h)]
     @ map (\<lambda>k. (home s k, blk s (home s k))) [0..<n] @ [(st, put_head 0 (lh_block s) h)])"

lemma bio_inv_more:
  fixes s :: "'z bstate_scheme" and t :: "'y bstate_scheme"
  assumes "buffers t = buffers s" "memdisk t = memdisk s" "disksize t = disksize s"
    "curproc t = curproc s" "length (procs t) = length (procs s)"
  shows "bio_inv t = bio_inv s" and "blk t = blk s"
proof -
  have b: "bufn t = bufn s" using assms by (simp add: bufn_def fun_eq_iff)
  show "bio_inv t = bio_inv s"
    by (simp add: bio_inv_def lru_def cached_def settled_def assms b)
  show "blk t = blk s"
    by (simp add: blk_def cached_def assms b fun_eq_iff cong: option.case_cong)
qed

lemma lh_n_update [simp]:
  "bio_inv (s\<lparr>lh_n := n\<rparr>) = bio_inv s" "blk (s\<lparr>lh_n := n\<rparr>) = blk s"
  by (rule bio_inv_more; simp)+

lemma commit_Ok:
  assumes inv: "bio_inv s" and ok: "log_ok s" and n: "0 < lh_n s" and run: "commit s = Ok u t"
  shows "bio_inv t \<and> wrote (commit_writes s) s t \<and> bframe {} s t
    \<and> map p_pid (procs t) = map p_pid (procs s) \<and> bstate.more t = bstate.more (s\<lparr>lh_n := 0\<rparr>)"
proof -
  from run n obtain s1 s2 s3 where 1: "write_log s = Ok () s1" and 2: "write_head s1 = Ok () s2"
    and 3: "install_trans s2 = Ok () s3" and 4: "write_head (s3\<lparr>lh_n := 0\<rparr>) = Ok () t"
    by (auto simp: commit_def run_iff)
  let ?st = "log_start s" and ?n = "nat (lh_n s)"
  let ?h = "put_head (lh_n s) (lh_block s) (blk s ?st)"
  have ok': "log_dev s = ROOTDEV" "0 \<le> lh_n s" "lh_n s \<le> int LOGSIZE" using ok by (auto simp: log_ok_def)
  note w1 = write_log_Ok [OF inv ok 1]
  then have m1: "bstate.more s1 = bstate.more s" and i1: "bio_inv s1" by (auto simp: quiet_step_def)
  have st1: "blk s1 ?st = blk s ?st"
    using w1 by (auto simp: wrote_def intro!: upd_all_out)
  note w2 = write_head_Ok [OF i1 _ _ _ 2, unfolded log_fields [OF m1] st1, OF ok']
  then have m2: "bstate.more s2 = bstate.more s" and i2: "bio_inv s2" using m1 by (auto simp: quiet_step_def)
  note w3 = install_trans_Ok [OF i2 _ 3, unfolded log_ok_cong [OF m2] log_fields [OF m2], OF ok]
  then have m3: "bstate.more s3 = bstate.more s" and i3: "bio_inv s3" using m2 by (auto simp: quiet_step_def)
  let ?W1 = "map (\<lambda>k. (?st + k + 1, blk s (home s k))) [0..<?n]"
  have "blk s2 (?st + k + 1) = blk s (home s k)" if "k < ?n" for k
  proof -
    have "blk s1 (?st + k + 1) = blk s (home s k)"
      using w1 that upd_all_map(1) [of "\<lambda>k. ?st + k + 1" "[0..<?n]" k] by (simp add: wrote_def inj_on_def)
    then show ?thesis using w2 by (simp add: wrote_def)
  qed
  then have W3: "map (\<lambda>k. (home s k, blk s2 (?st + k + 1))) [0..<?n]
      = map (\<lambda>k. (home s k, blk s (home s k))) [0..<?n]" by simp
  have "\<not> in_log s (home s k)" if "k < ?n" for k using ok that by (simp add: log_ok_def)
  moreover have "in_log s ?st" using ok by (simp add: log_ok_def in_log_def)
  ultimately have "?st \<notin> fst ` set (map (\<lambda>k. (home s k, blk s2 (?st + k + 1))) [0..<?n])" by auto
  then have st3: "blk s3 ?st = ?h"
    using w3 w2 by (simp add: wrote_def upd_all_out)
  have m3': "bstate.more (s3\<lparr>lh_n := 0\<rparr>) = bstate.more (s\<lparr>lh_n := 0\<rparr>)"
    using m3 by (cases s; cases s3) simp
  have w4: "bio_inv t \<and> quiet_step (s3\<lparr>lh_n := 0\<rparr>) t
      \<and> wrote [(?st, put_head 0 (lh_block s) ?h)] (s3\<lparr>lh_n := 0\<rparr>) t"
    using write_head_Ok [OF _ _ _ _ 4] i3 ok' by (simp add: log_fields [OF m3] st3)
  then have "wrote [(?st, put_head 0 (lh_block s) ?h)] s3 t" by (simp add: wrote_def)
  then have W: "wrote (commit_writes s) s t"
    unfolding commit_writes_def Let_def W3 [symmetric]
    by (intro wrote_trans [of _ s s1] wrote_trans [of _ s1 s2] wrote_trans [of _ s2 s3])
      (use w1 w2 w3 in simp_all)
  have "bframe {} s s3" using w1 w2 w3 bframe_trans0 unfolding quiet_step_def by blast
  moreover have "bframe {} (s3\<lparr>lh_n := 0\<rparr>) t = bframe {} s3 t"
    by (simp add: bframe_def bufn_def mypid_def)
  ultimately have "bframe {} s t"
    using w4 bframe_trans0 [of s s3 t] by (simp add: quiet_step_def)
  moreover have "map p_pid (procs t) = map p_pid (procs s)"
    using w1 w2 w3 w4 by (simp add: quiet_step_def)
  moreover have "bstate.more t = bstate.more (s\<lparr>lh_n := 0\<rparr>)"
    using w4 m3' by (simp add: quiet_step_def)
  ultimately show ?thesis using w4 W by simp
qed

subsection \<open>Recovery\<close>

definition hdr_ok :: "nat \<Rightarrow> int \<Rightarrow> bytes \<Rightarrow> bool" where
  "hdr_ok st sz h \<longleftrightarrow> 0 \<le> get_int h 0 \<and> get_int h 0 + 1 \<le> sz
     \<and> inj_on (hdr_home h) {..<hdr_n h}
     \<and> (\<forall>k < hdr_n h. hdr_home h k < st \<or> st + nat sz \<le> hdr_home h k)"

definition recover_writes :: "nat \<Rightarrow> (nat \<Rightarrow> bytes) \<Rightarrow> (nat \<times> bytes) list" where
  "recover_writes st D = map (\<lambda>k. (hdr_home (D st) k, D (st + k + 1))) [0..<hdr_n (D st)]
     @ [(st, put_int (D st) 0 0)]"

lemma read_loop:
  assumes "for_each is (\<lambda>i. if i < LOGSIZE
       then bind (modify (\<lambda>s. s\<lparr>lh_block := (lh_block s)[i := f i]\<rparr>)) (\<lambda>_. ret (None :: unit option))
       else fault) s = Ok r t"
  shows "(\<forall>i \<in> set is. i < LOGSIZE) \<and> r = None
    \<and> t = s\<lparr>lh_block := apply_writes (map (\<lambda>i. (i, f i)) is) (lh_block s)\<rparr>"
  using assms
proof (induction "is" arbitrary: s)
  case (Cons a as)
  from Cons.prems have a: "a < LOGSIZE" by (auto simp: run_iff split: if_splits)
  with Cons.prems Cons.IH [of "s\<lparr>lh_block := (lh_block s)[a := f a]\<rparr>"] show ?case by simp
qed simp

lemma lh_block_update [simp]:
  "bio_inv (s\<lparr>lh_block := b\<rparr>) = bio_inv s" "blk (s\<lparr>lh_block := b\<rparr>) = blk s"
  by (rule bio_inv_more; simp)+

lemma lh_bufn [simp]:
  "bufn (s\<lparr>lh_n := n\<rparr>) = bufn s" "bufn (s\<lparr>lh_block := b\<rparr>) = bufn s"
  "mypid (s\<lparr>lh_n := n\<rparr>) = mypid s" "mypid (s\<lparr>lh_block := b\<rparr>) = mypid s"
  by (simp_all add: bufn_def mypid_def fun_eq_iff)

lemma lh_held [simp]:
  "holds (s\<lparr>lh_n := n\<rparr>) = holds s" "holds (s\<lparr>lh_block := b\<rparr>) = holds s"
  "settled (s\<lparr>lh_n := n\<rparr>) = settled s" "settled (s\<lparr>lh_block := b\<rparr>) = settled s"
  by (simp_all add: fun_eq_iff holds_def settled_def cached_def)

lemma read_head_Ok:
  assumes inv: "bio_inv s" and dev: "log_dev s = ROOTDEV" and len: "length (lh_block s) = LOGSIZE"
    and run: "read_head s = Ok u t"
  defines "h \<equiv> blk s (log_start s)"
  shows "bio_inv t \<and> blk t = blk s \<and> memdisk t = memdisk s \<and> dwrites t = dwrites s
    \<and> lh_n t = get_int h 0 \<and> hdr_n h \<le> LOGSIZE \<and> length (lh_block t) = LOGSIZE
    \<and> (\<forall>k < hdr_n h. home t k = hdr_home h k)
    \<and> log_start t = log_start s \<and> log_size t = log_size s \<and> log_dev t = log_dev s"
proof -
  from run dev obtain i s1 s2 r where 1: "bread ROOTDEV (log_start s) s = Ok i s1"
    and loop: "for_each [0..<nat (get_int (b_data (bufn s1 i)) 0)] (\<lambda>k. if k < LOGSIZE
       then bind (modify (\<lambda>s. s\<lparr>lh_block := (lh_block s)[k := get32 (b_data (bufn s1 i)) (4 + 4 * k)]\<rparr>))
         (\<lambda>_. ret (None :: unit option))
       else fault) (s1\<lparr>lh_n := get_int (b_data (bufn s1 i)) 0\<rparr>) = Ok r s2"
    and 3: "brelse i s2 = Ok () t"
    by (auto simp: read_head_def run_iff)
  note r1 = bread_Ok [OF inv 1]
  then have m1: "bstate.more s1 = bstate.more s" by simp
  have d: "b_data (bufn s1 i) = h" using r1 holds_blk [of s1 i] by (simp add: h_def)
  let ?W = "map (\<lambda>k. (k, hdr_home h k)) [0..<hdr_n h]"
  from read_loop [OF loop] have n: "\<forall>k < hdr_n h. k < LOGSIZE"
    and s2: "s2 = s1\<lparr>lh_n := get_int h 0, lh_block := apply_writes ?W (lh_block s1)\<rparr>"
    by (auto simp: d hdr_n_def hdr_home_def)
  have n': "hdr_n h \<le> LOGSIZE"
  proof (rule ccontr)
    assume "\<not> ?thesis"
    then have "LOGSIZE < hdr_n h" by simp
    with n show False by blast
  qed
  have bl: "length (lh_block s1) = LOGSIZE" by (simp add: log_fields [OF m1] len)
  have r3: "bio_inv t \<and> blk t = blk s2 \<and> memdisk t = memdisk s2 \<and> dwrites t = dwrites s2
      \<and> bstate.more t = bstate.more s2"
    using brelse_Ok [OF _ _ _ 3, of "log_start s"] r1 by (simp add: s2)
  then have m3: "bstate.more t = bstate.more s2" by simp
  have "home t k = hdr_home h k" if "k < hdr_n h" for k
    using that n' bl upd_all_map(1) [of "\<lambda>k. k" "[0..<hdr_n h]" k "hdr_home h"]
    by (simp add: home_def log_fields [OF m3] s2 nth_apply_writes)
  then show ?thesis
    using r1 r3 n' bl log_fields [OF m3] log_fields [OF m1] by (simp add: s2)
qed

lemma read_head_log_ok:
  assumes inv: "bio_inv s" and dev: "log_dev s = ROOTDEV" and len: "length (lh_block s) = LOGSIZE"
    and hdr: "hdr_ok (log_start s) (log_size s) (blk s (log_start s))"
    and hb: "\<forall>k < hdr_n (blk s (log_start s)). hdr_home (blk s (log_start s)) k < 4294967296"
    and run: "read_head s = Ok u t"
  shows "log_ok t \<and> nat (lh_n t) = hdr_n (blk s (log_start s)) \<and> 0 \<le> lh_n t"
proof -
  note r1 = read_head_Ok [OF inv dev len run]
  have n: "nat (lh_n t) = hdr_n (blk s (log_start s))" "0 \<le> lh_n t"
    using r1 hdr by (simp_all add: hdr_n_def hdr_ok_def)
  have "log_ok t"
    unfolding log_ok_def
  proof (intro conjI allI impI)
    show "log_dev t = ROOTDEV" "length (lh_block t) = LOGSIZE" "0 \<le> lh_n t"
      using r1 dev n by simp_all
    show "lh_n t \<le> int LOGSIZE" using r1 by (simp add: hdr_n_def nat_le_iff)
    show "lh_n t + 1 \<le> log_size t" using r1 hdr by (simp add: hdr_ok_def)
    show "j = k" if "j < nat (lh_n t)" "k < nat (lh_n t)" "home t j = home t k" for j k
      using that r1 hdr n by (auto simp: hdr_ok_def dest: inj_onD)
    fix k assume "k < nat (lh_n t)"
    then show "\<not> in_log t (home t k)" "home t k < 4294967296"
      using r1 hdr hb n by (auto simp: hdr_ok_def in_log_def)
  qed
  with n show ?thesis by blast
qed

lemma recover_Ok:
  assumes inv: "bio_inv s" and dev: "log_dev s = ROOTDEV" and len: "length (lh_block s) = LOGSIZE"
    and hdr: "hdr_ok (log_start s) (log_size s) (blk s (log_start s))"
    and hb: "\<forall>k < hdr_n (blk s (log_start s)). hdr_home (blk s (log_start s)) k < 4294967296"
    and run: "recover_from_log s = Ok u t"
  shows "bio_inv t \<and> wrote (recover_writes (log_start s) (blk s)) s t \<and> lh_n t = 0
    \<and> length (lh_block t) = LOGSIZE
    \<and> log_start t = log_start s \<and> log_size t = log_size s \<and> log_dev t = log_dev s"
proof -
  from run obtain s1 s2 where 1: "read_head s = Ok () s1" and 2: "install_trans s1 = Ok () s2"
    and 3: "write_head (s2\<lparr>lh_n := 0\<rparr>) = Ok () t"
    by (auto simp: recover_from_log_def run_iff)
  let ?st = "log_start s" and ?h = "blk s (log_start s)"
  let ?n = "hdr_n ?h"
  note r1 = read_head_Ok [OF inv dev len 1]
  have lb: "lh_block s1 ! k = hdr_home ?h k" if "k < ?n" for k
    using r1 that by (simp add: home_def)
  have ok1: "log_ok s1" and n: "nat (lh_n s1) = ?n" "0 \<le> lh_n s1"
    using read_head_log_ok [OF inv dev len hdr hb 1] by auto
  have i1: "bio_inv s1" using r1 by simp
  have st: "log_start s1 = ?st" "blk s1 = blk s" using r1 by simp_all
  let ?W = "map (\<lambda>k. (hdr_home ?h k, blk s (?st + k + 1))) [0..<?n]"
  have "map (\<lambda>k. (home s1 k, blk s1 (log_start s1 + k + 1))) [0..<nat (lh_n s1)] = ?W"
    unfolding n st using r1 by simp
  with install_trans_Ok [OF i1 ok1 2] have r2: "bio_inv s2" "quiet_step s1 s2" "wrote ?W s1 s2" by auto
  then have m2: "bstate.more s2 = bstate.more s1" by (simp add: quiet_step_def)
  have "?st \<noteq> hdr_home ?h k" if "k < ?n" for k
    using hdr that by (auto simp: hdr_ok_def hdr_n_def)
  then have "blk s2 ?st = ?h" using r2(3) r1 by (auto simp: wrote_def intro!: upd_all_out)
  then have r3: "bio_inv t \<and> quiet_step (s2\<lparr>lh_n := 0\<rparr>) t
      \<and> wrote [(?st, put_int ?h 0 0)] (s2\<lparr>lh_n := 0\<rparr>) t"
    using write_head_Ok [OF _ _ _ _ 3] r2 r1 dev
    by (simp add: log_fields [OF m2] put_head_def)
  then have m3: "bstate.more t = bstate.more (s2\<lparr>lh_n := 0\<rparr>)" by (simp add: quiet_step_def)
  have "wrote [(?st, put_int ?h 0 0)] s2 t" using r3 by (simp add: wrote_def)
  from wrote_trans [OF r2(3) this] have "wrote (recover_writes ?st (blk s)) s t"
    using r1 by (simp add: wrote_def recover_writes_def)
  then show ?thesis
    using r3 r1 log_fields [OF m3] log_fields [OF m2] by simp
qed

subsection \<open>Crashes\<close>

lemma upd_all_not_map: "m \<notin> dst ` set ks \<Longrightarrow> upd_all (map (\<lambda>k. (dst k, val k)) ks) D m = D m"
  by (auto intro!: upd_all_out)

text \<open>
  The disk after the first \<open>j\<close> writes of a commit, recovered: nothing outside the log has
  changed if the header has not been written yet, and everything is there once it has.
\<close>

lemma crash_disk:
  fixes hm :: "nat \<Rightarrow> nat" and new :: "nat \<Rightarrow> bytes" and D0 :: "nat \<Rightarrow> bytes" and h h0 :: bytes
    and st n j :: nat
  defines "W \<equiv> map (\<lambda>k. (st + k + 1, new k)) [0..<n] @ [(st, h)]
      @ map (\<lambda>k. (hm k, new k)) [0..<n] @ [(st, h0)]"
  assumes clear: "hdr_n (D0 st) = 0" "hdr_n h0 = 0"
    and h: "hdr_n h = n" "\<And>k. k < n \<Longrightarrow> hdr_home h k = hm k"
    and inj: "inj_on hm {..<n}" and out: "\<And>k. k < n \<Longrightarrow> hm k < st \<or> st + sz \<le> hm k"
    and n: "n < sz" and m: "m < st \<or> st + sz \<le> m"
  defines "D \<equiv> upd_all (take j W) D0"
  shows "upd_all (recover_writes st D) D m = (if j \<le> n then D0 m else upd_all W D0 m)"
proof -
  let ?L = "map (\<lambda>k. (st + k + 1, new k)) [0..<n]" and ?I = "map (\<lambda>k. (hm k, new k)) [0..<n]"
  have mst: "m \<noteq> st" and mL: "m \<notin> (\<lambda>k. st + k + 1) ` {..<n}" using m n by auto
  have final: "upd_all W D0 m = upd_all ?I D0 m"
  proof (cases "m \<in> hm ` {..<n}")
    case True
    then obtain k where k: "k < n" "m = hm k" by auto
    with mst upd_all_map(1) [of hm "[0..<n]" k new] inj
    show ?thesis by (simp add: W_def atLeast0LessThan)
  next
    case False
    with mst mL show ?thesis by (simp add: W_def upd_all_not_map atLeast0LessThan)
  qed
  consider "j \<le> n" | i where "j = n + 1 + i" "i \<le> n" | "2 * n + 2 \<le> j"
    using le_Suc_ex [of "n + 1" j] by fastforce
  then show ?thesis
  proof cases
    case 1
    then have take: "take j W = map (\<lambda>k. (st + k + 1, new k)) [0..<j]"
      by (simp add: W_def take_map min_absorb1)
    have jn: "set [0..<j] \<subseteq> {..<n}" using 1 by auto
    have "D st = D0 st" unfolding D_def take by (rule upd_all_not_map) auto
    moreover have "D m = D0 m" unfolding D_def take
      by (rule upd_all_not_map) (use mL jn in auto)
    ultimately show ?thesis using clear mst 1 by (simp add: recover_writes_def)
  next
    case 2
    then have take: "take j W = ?L @ [(st, h)] @ map (\<lambda>k. (hm k, new k)) [0..<i]"
      by (simp add: W_def take_map min_absorb1 del: upt_Suc)
    have sub: "set [0..<i] \<subseteq> {..<n}" using 2 by auto
    have st_out: "st \<notin> hm ` {..<n}" using out n by force
    then have "st \<notin> hm ` set [0..<i]" using sub by blast
    then have "D st = h"
      unfolding D_def take by (simp add: upd_all_not_map)
    moreover have "D (st + k + 1) = new k" if k: "k < n" for k
    proof -
      have "st + k + 1 \<notin> hm ` {..<n}" using out k n by force
      then have "st + k + 1 \<notin> hm ` set [0..<i]" using sub by blast
      then have "D (st + k + 1) = upd_all ?L D0 (st + k + 1)"
        unfolding D_def take by (simp add: upd_all_not_map)
      also have "\<dots> = new k"
        using upd_all_map(1) [of "\<lambda>k. st + k + 1" "[0..<n]" k new] k by (simp add: inj_on_def)
      finally show ?thesis .
    qed
    ultimately have rw: "recover_writes st D = ?I @ [(st, put_int h 0 0)]"
      by (simp add: recover_writes_def h)
    have "upd_all ?I D m = upd_all ?I D0 m"
    proof (cases "m \<in> hm ` {..<n}")
      case True
      then obtain k where "k < n" "m = hm k" by auto
      with upd_all_map(1) [of hm "[0..<n]" k new] inj show ?thesis by (simp add: atLeast0LessThan)
    next
      case False
      then have "m \<notin> hm ` set [0..<i]" using sub by blast
      with False mst mL show ?thesis by (simp add: D_def take upd_all_not_map atLeast0LessThan)
    qed
    then show ?thesis using 2 mst by (simp add: rw final)
  next
    case 3
    then have "take j W = W" by (simp add: W_def)
    then have D: "D = upd_all W D0" by (simp add: D_def)
    moreover have "upd_all W D0 st = h0" by (simp add: W_def)
    ultimately show ?thesis using clear mst 3 by (simp add: recover_writes_def)
  qed
qed

text \<open>
  A disk at boot: the buffers are fresh, so that what the cache shows is what the disk holds, and
  the log knows where it is.
\<close>

definition booted :: "nat \<Rightarrow> int \<Rightarrow> bytes list \<Rightarrow> 'z lstate_scheme \<Rightarrow> bool" where
  "booted st sz d s \<longleftrightarrow> bio_inv s \<and> memdisk s = d \<and> (\<forall>n < length d. blk s n = d ! n)
     \<and> log_dev s = ROOTDEV \<and> log_start s = st \<and> log_size s = sz \<and> length (lh_block s) = LOGSIZE"

definition outside_log :: "nat \<Rightarrow> int \<Rightarrow> nat \<Rightarrow> bool" where
  "outside_log st sz m \<longleftrightarrow> m < st \<or> st + nat sz \<le> m"

lemma nth_upd_all_eq:
  assumes "\<And>n. n < len \<Longrightarrow> D n = E n" and "m < len"
  shows "upd_all W D m = upd_all W E m"
  using assms(1)
proof (induction W arbitrary: D E)
  case (Cons w W)
  obtain n b where "w = (n, b)" by (cases w)
  then show ?case using Cons.prems by (simp, intro Cons.IH) auto
qed (use assms(2) in simp)

lemma recover_writes_cong:
  assumes "\<And>n. n < len \<Longrightarrow> D n = E n" and "st < len" and "st + hdr_n (D st) < len"
  shows "recover_writes st D = recover_writes st E"
proof -
  have st: "E st = D st" using assms(1,2) by simp
  have "D (st + k + 1) = E (st + k + 1)" if "k < hdr_n (D st)" for k
    using assms(1) [of "st + k + 1"] assms(3) that by simp
  then show ?thesis by (simp add: recover_writes_def st)
qed

lemma upd_all_cases: "upd_all W D m = D m \<or> (m, upd_all W D m) \<in> set W"
proof (induction W arbitrary: D)
  case (Cons w W)
  obtain n b where w: "w = (n, b)" by (cases w)
  define E where "E = D(n := b)"
  have "upd_all W E m = E m \<or> (m, upd_all W E m) \<in> set W" by (rule Cons)
  moreover have "upd_all (w # W) D = upd_all W E" by (simp add: w E_def)
  ultimately show ?case by (cases "m = n") (auto simp: w E_def)
qed simp

text \<open>What the writes of a commit are, and the header that a crash leaves in the log.\<close>

lemma commit_header:
  assumes inv: "bio_inv s" and ok: "log_ok s" and n: "0 < lh_n s" and st: "log_start s < disksize s"
  defines "h \<equiv> put_head (lh_n s) (lh_block s) (blk s (log_start s))"
  shows "get_int h 0 = lh_n s" and "hdr_n h = nat (lh_n s)"
    and "k < nat (lh_n s) \<Longrightarrow> hdr_home h k = home s k"
    and "get_int (put_head 0 (lh_block s) h) 0 = 0"
    and "inj_on (home s) {..<nat (lh_n s)}"
    and "k < nat (lh_n s) \<Longrightarrow> home s k < log_start s \<or> log_start s + nat (log_size s) \<le> home s k"
    and "lh_n s + 1 \<le> log_size s"
proof -
  have ok': "lh_n s \<le> int LOGSIZE" "k < nat (lh_n s) \<Longrightarrow> home s k < 4294967296" for k
    using ok by (auto simp: log_ok_def)
  show "inj_on (home s) {..<nat (lh_n s)}" and "lh_n s + 1 \<le> log_size s"
    and "k < nat (lh_n s) \<Longrightarrow> home s k < log_start s \<or> log_start s + nat (log_size s) \<le> home s k"
    using ok by (auto simp: log_ok_def inj_on_def in_log_def)
  note ph = put_head_read [where bl = "lh_block s", OF length_blk [OF inv st] less_imp_le [OF n] ok'(1),
      folded h_def]
  show "get_int (put_head 0 (lh_block s) h) 0 = 0"
  proof -
    have "get_int (put_int h 0 0) 0 = 0" using ph(1) by (intro get_int_put_int) (auto simp: BSIZE_def)
    then show ?thesis by (simp add: put_head_def)
  qed
  show "hdr_n h = nat (lh_n s)" by (rule ph(2))
  then show "get_int h 0 = lh_n s" using n unfolding hdr_n_def by linarith
  show "k < nat (lh_n s) \<Longrightarrow> hdr_home h k = home s k"
    using ph(3) [of k] ok'(2) [of k] by (simp add: home_def)
qed

lemma crash_header:
  fixes j :: nat
  assumes inv: "bio_inv s" and ok: "log_ok s" and n: "0 < lh_n s" and st: "log_start s < disksize s"
    and clean: "get_int (memdisk s ! log_start s) 0 = 0"
  defines "x \<equiv> upd_all (take j (commit_writes s)) (\<lambda>n. memdisk s ! n) (log_start s)"
  shows "hdr_ok (log_start s) (log_size s) x \<and> hdr_n x \<le> nat (lh_n s)
    \<and> (\<forall>k < hdr_n x. hdr_home x k = home s k)"
proof -
  let ?st = "log_start s" and ?n = "nat (lh_n s)" and ?D0 = "\<lambda>n. memdisk s ! n"
  let ?h = "put_head (lh_n s) (lh_block s) (blk s ?st)"
  let ?hz = "put_head 0 (lh_block s) ?h"
  note ph = commit_header [OF inv ok n st]
  have "x = ?D0 ?st \<or> (?st, x) \<in> set (commit_writes s)"
    using upd_all_cases [of "take j (commit_writes s)" ?D0 ?st] by (auto simp: x_def dest: in_set_takeD)
  moreover have "(?st, b) \<in> set (commit_writes s) \<Longrightarrow> b = ?h \<or> b = ?hz" for b
  proof -
    have "?st \<noteq> home s k" if k: "k < ?n" for k
      using ph(6) [OF k] ph(7) n by linarith
    then have "\<forall>k < ?n. ?st \<noteq> home s k" by blast
    then have "(?st, b) \<notin> set (map (\<lambda>k. (home s k, blk s (home s k))) [0..<?n])" by auto
    then show "(?st, b) \<in> set (commit_writes s) \<Longrightarrow> b = ?h \<or> b = ?hz"
      by (auto simp: commit_writes_def Let_def)
  qed
  ultimately have x: "x \<in> {?D0 ?st, ?h, ?hz}" by blast
  have zero: "hdr_ok ?st (log_size s) y \<and> hdr_n y = 0" if "get_int y 0 = 0" for y
    using that ph(7) n by (simp add: hdr_ok_def hdr_n_def)
  have "hdr_ok ?st (log_size s) ?h"
    using ph(1-3,5-7) n by (simp add: hdr_ok_def inj_on_def)
  then show ?thesis using x zero [of ?hz] zero [of "?D0 ?st"] clean ph(2-4) by auto
qed

lemma crash_atomic_Ok:
  assumes inv: "bio_inv s" and ok: "log_ok s" and n: "0 < lh_n s"
    and region: "log_start s + nat (log_size s) \<le> disksize s"
    and clean: "get_int (memdisk s ! log_start s) 0 = 0"
    and run: "commit s = Ok u t"
    and boot: "booted (log_start s) (log_size s)
      (apply_writes (take j (drop (length (dwrites s)) (dwrites t))) (memdisk s)) s'"
    and recv: "recover_from_log s' = Ok u' t'"
    and m: "m < disksize s" "outside_log (log_start s) (log_size s) m"
  shows "memdisk t' ! m = (if j \<le> nat (lh_n s) then memdisk s ! m else memdisk t ! m)"
proof -
  let ?st = "log_start s" and ?n = "nat (lh_n s)" and ?sz = "nat (log_size s)"
  let ?h = "put_head (lh_n s) (lh_block s) (blk s ?st)"
  let ?hz = "put_head 0 (lh_block s) ?h"
  let ?new = "\<lambda>k. blk s (home s k)"
  define W where "W = commit_writes s"
  define D0 where "D0 = (\<lambda>n. memdisk s ! n)"
  define d where "d = apply_writes (take j W) (memdisk s)"
  define D where "D = upd_all (take j W) D0"
  have W: "W = map (\<lambda>k. (?st + k + 1, ?new k)) [0..<?n] @ [(?st, ?h)]
      @ map (\<lambda>k. (home s k, ?new k)) [0..<?n] @ [(?st, ?hz)]"
    by (simp add: W_def commit_writes_def Let_def)
  have sz: "?n < ?sz" using ok n by (simp add: log_ok_def)
  have dk: "disksize s = length (memdisk s)" using inv by (simp add: bio_inv_def)
  have st: "?st < disksize s" using region sz by linarith
  note ph = commit_header [OF inv ok n st]
  have c: "wrote W s t" using commit_Ok [OF inv ok n run] by (simp add: W_def)
  then have ws: "drop (length (dwrites s)) (dwrites t) = W" by (simp add: wrote_def)
  have b: "booted ?st (log_size s) d s'" using boot by (simp add: ws d_def)
  have dD: "i < length d \<Longrightarrow> d ! i = D i" for i
    by (simp add: d_def D_def D0_def nth_apply_writes)
  have ld: "length d = disksize s" by (simp add: d_def dk)
  have bD: "i < length d \<Longrightarrow> blk s' i = D i" for i using b dD by (simp add: booted_def)
  have sts: "log_start s' = ?st" "log_size s' = log_size s" using b by (simp_all add: booted_def)
  have hdr: "hdr_ok ?st (log_size s) (D ?st) \<and> hdr_n (D ?st) \<le> ?n
      \<and> (\<forall>k < hdr_n (D ?st). hdr_home (D ?st) k < 4294967296)"
    using crash_header [OF inv ok n st clean, of j] ok by (auto simp: D_def D0_def W_def log_ok_def)
  have "blk s' ?st = D ?st" using bD st ld by simp
  then have r: "wrote (recover_writes ?st (blk s')) s' t'"
    using recover_Ok [OF _ _ _ _ _ recv] b hdr by (simp add: booted_def)
  have "recover_writes ?st (blk s') = recover_writes ?st D"
    by (rule recover_writes_cong [where len = "length d"])
      (use bD ld st hdr sz region \<open>blk s' ?st = D ?st\<close> in auto)
  then have "memdisk t' = apply_writes (recover_writes ?st D) d"
    using r b by (simp add: wrote_def booted_def)
  then have "memdisk t' ! m = upd_all (recover_writes ?st D) (\<lambda>i. d ! i) m"
    using m ld by (simp add: nth_apply_writes)
  also have "\<dots> = upd_all (recover_writes ?st D) D m"
    by (rule nth_upd_all_eq [where len = "length d"]) (use m ld dD in auto)
  also have "\<dots> = (if j \<le> ?n then D0 m else upd_all W D0 m)"
    unfolding D_def W
    by (rule crash_disk [where sz = ?sz])
      (use clean ph(2-6) sz m in \<open>auto simp: D0_def hdr_n_def outside_log_def\<close>)
  also have "upd_all W D0 m = memdisk t ! m"
    using c m dk by (simp add: wrote_def D0_def nth_apply_writes)
  finally show ?thesis by (simp add: D0_def)
qed

end
