(* ===== verification/Log_Total.thy ===== *)
theory Log_Total
  imports Log_Props
begin

text \<open>
  The log's steps return.  When nobody holds a buffer and the dirty buffers leave one to spare,
  no \<open>bread\<close> of a commit or a recovery finds the cache full or a buffer taken.
\<close>

subsection \<open>The one buffer each operation changes\<close>

lemma bread_only:
  assumes inv: "bio_inv s" and run: "bread ROOTDEV n s = Ok i t"
  shows "(\<forall>j. j \<noteq> i \<longrightarrow> bufn t j = bufn s j) \<and> b_refcnt (bufn t i) = Suc (b_refcnt (bufn s i))
    \<and> bdirty (bufn t i) = bdirty (bufn s i) \<and> i < NBUF
    \<and> (bdirty (bufn s i) \<longrightarrow> cached s i n)"
proof -
  from run obtain u where get: "bget ROOTDEV n s = Ok i u"
    and rest: "if b_flags (bufn u i) AND B_VALID = 0 then iderw i u = Ok () t else t = u"
    by (auto simp: bread_def run_iff)
  have len: "length (buffers s) = Suc NBUF" using inv by (simp add: bio_inv_def)
  from bget_Ok [OF inv get] obtain f where i: "i < NBUF" and u: "u = upd_buf i f s"
    and f: "b_refcnt (f (bufn s i)) = Suc (b_refcnt (bufn s i))"
      "bdirty (f (bufn s i)) = bdirty (bufn s i)" "bdirty (bufn s i) \<longrightarrow> cached s i n"
    and fl: "b_flags (f (bufn s i)) = b_flags (bufn s i) \<or> b_flags (f (bufn s i)) = 0"
    by (auto simp: take_lock_def bdirty_def)
  have bu: "bufn u j = (if i = j then f (bufn s i) else bufn s j)" for j
    using u i len by (simp add: bufn_upd_buf)
  show ?thesis
  proof (cases "bit (b_flags (bufn u i)) 1")
    case True
    with rest have "t = u" by (simp add: flag_simps)
    then show ?thesis using bu f i by simp
  next
    case False
    then have clean: "\<not> bit (b_flags (bufn u i)) 2"
      using fl inv i by (auto simp: bu bio_inv_def bdirty_def bvalid_def)
    from False rest have "iderw i u = Ok () t" by (simp add: flag_simps)
    moreover have lu: "length (buffers u) = Suc NBUF" using u len by simp
    ultimately have t: "t = upd_buf i (\<lambda>b. b\<lparr>b_data := memdisk u ! b_blockno b, b_flags := b_flags b OR B_VALID\<rparr>) u"
      using iderw_read_Ok_iff [OF lu i clean False, of "()" t] by blast
    have "bufn t j = (if i = j then (bufn u i)\<lparr>b_data := memdisk u ! b_blockno (bufn u i),
        b_flags := b_flags (bufn u i) OR B_VALID\<rparr> else bufn u j)" for j
      using t i lu by (simp add: bufn_upd_buf)
    then show ?thesis using bu f i clean by (auto simp: bdirty_def flag_simps)
  qed
qed

lemma bwrite_only:
  assumes inv: "bio_inv s" and hold: "holds s i n" and run: "bwrite i s = Ok u t"
  shows "(\<forall>j. j \<noteq> i \<longrightarrow> bufn t j = bufn s j) \<and> b_refcnt (bufn t i) = b_refcnt (bufn s i)"
proof -
  have len: "length (buffers s) = Suc NBUF" using inv by (simp add: bio_inv_def)
  have i: "i < NBUF" using holds_bound [OF inv hold] by auto
  have "buffers t = buffers (upd_buf i (\<lambda>b. b\<lparr>b_flags := ((b_flags b OR B_DIRTY) AND NOT B_DIRTY) OR B_VALID\<rparr>) s)"
    using run i len
    by (auto simp: bwrite_def run_iff buf_holding_Ok_iff iderw_write_Ok_iff bufn_upd_buf
        flag_simps upd_buf_twice)
  then have "bufn t j = bufn (upd_buf i (\<lambda>b. b\<lparr>b_flags := ((b_flags b OR B_DIRTY) AND NOT B_DIRTY) OR B_VALID\<rparr>) s) j" for j
    by (simp add: bufn_def)
  then show ?thesis using i len by (simp add: bufn_upd_buf)
qed

lemma bwrite_returns:
  assumes inv: "bio_inv s" and hold: "holds s i n" and lk: "locks s = []" and p: "curproc s \<noteq> None"
  shows "\<exists>t. bwrite i s = Ok () t"
proof -
  have len: "length (buffers s) = Suc NBUF" using inv by (simp add: bio_inv_def)
  have i: "i < NBUF" "n < disksize s" using holds_bound [OF inv hold] by auto
  let ?m = "upd_buf i (\<lambda>b. b\<lparr>b_flags := b_flags b OR B_DIRTY\<rparr>) s"
  have h: "buf_holding i s = Ok True s" using hold lk p by (simp add: buf_holding_Ok_iff holds_def)
  have "\<exists>t. iderw i ?m = Ok () t"
    using hold lk p i len
    by (subst iderw_write_Ok_iff)
      (auto simp: bufn_upd_buf flag_simps holds_def cached_def ROOTDEV_def)
  with h show ?thesis by (auto simp: bwrite_def)
qed

text \<open>A buffer as \<open>brelse\<close> leaves it.\<close>

definition dropped :: "buf \<Rightarrow> buf" where
  "dropped b = b\<lparr>b_lock := (b_lock b)\<lparr>sl_locked := False, sl_pid := 0\<rparr>, b_refcnt := b_refcnt b - 1\<rparr>"

lemma relinked_same:
  assumes "bio_inv v" and "i < NBUF"
  shows "same_buf (bufn (link_front i (unlink_buf i v)) j) (bufn v j)"
proof -
  obtain xs where "lru v xs" and "length (buffers v) = Suc NBUF" using assms(1) by (auto simp: bio_inv_def)
  then show ?thesis using lru_move_front(2) assms(2) by blast
qed

lemma brelse_only:
  assumes inv: "bio_inv s" and hold: "holds s i n" and settled: "settled s i"
    and run: "brelse i s = Ok u t"
  shows "same_buf (bufn t j) (if j = i then dropped (bufn s i) else bufn s j)"
proof -
  have len: "length (buffers s) = Suc NBUF" using inv by (simp add: bio_inv_def)
  have i: "i < NBUF" using holds_bound [OF inv hold] by simp
  define w where "w = wakeup1 (ChLock (BufLock i))
    (upd_buf i (\<lambda>b. b\<lparr>b_lock := (b_lock b)\<lparr>sl_locked := False, sl_pid := 0\<rparr>\<rparr>) s)"
  define v where "v = upd_buf i (\<lambda>b. b\<lparr>b_refcnt := b_refcnt b - 1\<rparr>) (w\<lparr>locks := BcacheLock # locks w\<rparr>)"
  have bv: "bufn v j = (if i = j then dropped (bufn s i) else bufn s j)" for j
    using i len by (simp add: v_def w_def bufn_upd_buf dropped_def)
  have vs: "length (buffers v) = length (buffers s)" "memdisk v = memdisk s" "disksize v = disksize s"
    "curproc v = curproc s" "length (procs v) = length (procs s)"
    by (simp_all add: v_def w_def)
  have inv_v: "bio_inv v"
    using drop_held [OF inv hold settled, of v "b_refcnt (bufn s i) - 1"] bv vs by (simp add: dropped_def)
  have hold': "buf_holding i s = Ok True s" and p: "curproc s \<noteq> None"
    using run hold by (auto simp: brelse_def run_iff buf_holding_Ok_iff holds_def)
  have rel: "buf_release i s = Ok () w" and bl: "BcacheLock \<notin> set (locks w)"
    using run hold' by (auto simp: brelse_def run_iff buf_release_Ok_iff acquire_Ok_iff w_def)
  have "bufn t = bufn (if b_refcnt (bufn v i) = 0 then link_front i (unlink_buf i v) else v)"
  proof (cases "b_refcnt (bufn v i) = 0")
    case True
    with run hold' rel bl show ?thesis
      unfolding brelse_def v_def by (auto simp: whenM_def release_Ok_iff acquire_Ok_iff bufn_def fun_eq_iff)
  next
    case False
    with run hold' rel bl show ?thesis
      unfolding brelse_def v_def by (auto simp: whenM_def release_Ok_iff acquire_Ok_iff bufn_def fun_eq_iff)
  qed
  then have "same_buf (bufn t j) (bufn v j)"
    using relinked_same [OF inv_v i] by simp
  then show ?thesis by (auto simp: bv split: if_splits)
qed


subsection \<open>Calm states\<close>

text \<open>Nobody holds a buffer or a spin lock, and a process is running.\<close>

definition calm :: "'z bstate_scheme \<Rightarrow> bool" where
  "calm s \<longleftrightarrow> bio_inv s \<and> locks s = [] \<and> curproc s \<noteq> None \<and> (\<forall>i<NBUF. b_refcnt (bufn s i) = 0)"

text \<open>Every dirty buffer is of a block in \<open>P\<close>: the buffers the log pins.\<close>

definition pinned :: "'z bstate_scheme \<Rightarrow> nat set \<Rightarrow> bool" where
  "pinned s P \<longleftrightarrow> (\<forall>i<NBUF. bdirty (bufn s i) \<longrightarrow> b_dev (bufn s i) = ROOTDEV \<and> b_blockno (bufn s i) \<in> P)"

definition dirtied :: "'z bstate_scheme \<Rightarrow> nat set" where
  "dirtied s = {i. i < NBUF \<and> bdirty (bufn s i)}"

lemma calmD:
  assumes "calm s"
  shows "bio_inv s" "locks s = []" "curproc s \<noteq> None" "i < NBUF \<Longrightarrow> b_refcnt (bufn s i) = 0"
    "i < NBUF \<Longrightarrow> \<not> sl_locked (b_lock (bufn s i))"
  using assms by (auto simp: calm_def bio_inv_def)

text \<open>The pinned buffers are at most as many as the blocks they are pinned for.\<close>

lemma dirtied_le:
  assumes inv: "bio_inv s" and pin: "pinned s P" and P: "finite P"
    and Q: "\<And>i. i < NBUF \<Longrightarrow> bdirty (bufn s i) \<Longrightarrow> b_blockno (bufn s i) \<notin> Q"
  shows "card (dirtied s) \<le> card (P - Q)"
proof (rule card_inj_on_le [of "\<lambda>i. b_blockno (bufn s i)"])
  show "inj_on (\<lambda>i. b_blockno (bufn s i)) (dirtied s)"
  proof (rule inj_onI)
    fix i j
    assume "i \<in> dirtied s" "j \<in> dirtied s" "b_blockno (bufn s i) = b_blockno (bufn s j)"
    then show "i = j"
      using cached_inj [OF inv, of i "b_blockno (bufn s j)" j] pin
      by (auto simp: dirtied_def pinned_def cached_def)
  qed
  show "(\<lambda>i. b_blockno (bufn s i)) ` dirtied s \<subseteq> P - Q"
    using pin Q by (auto simp: dirtied_def pinned_def)
qed (use P in simp)

lemma clean_buffers:
  assumes "card (dirtied s) + k \<le> NBUF"
  obtains C where "C \<subseteq> {..<NBUF}" "card C = k" "\<And>i. i \<in> C \<Longrightarrow> \<not> bdirty (bufn s i)"
proof -
  have "dirtied s \<subseteq> {..<NBUF}" by (auto simp: dirtied_def)
  then have "card ({..<NBUF} - dirtied s) = NBUF - card (dirtied s)"
    by (simp add: card_Diff_subset finite_subset [OF _ finite_lessThan])
  then have "k \<le> card ({..<NBUF} - dirtied s)" using assms by simp
  then obtain C where "C \<subseteq> {..<NBUF} - dirtied s" "card C = k"
    using obtain_subset_with_card_n by metis
  then show ?thesis by (intro that [of C]) (auto simp: dirtied_def)
qed

text \<open>The second of two reads: a buffer is cached or there is a free one beside the first.\<close>

lemma bread_calm:
  assumes c: "calm s" and n: "n < disksize s" and spare: "\<exists>i<NBUF. \<not> bdirty (bufn s i)"
  shows "\<exists>i t. bread ROOTDEV n s = Ok i t"
proof -
  obtain p where "curproc s = Some p" using calmD(3) [OF c] by blast
  then show ?thesis
    by (rule bread_returns [OF calmD(1,2) [OF c]]) (use calmD(4,5) [OF c] n spare in \<open>auto simp: cached_def\<close>)
qed

lemma bread_second:
  assumes c: "calm s" and b: "b < disksize s" "a \<noteq> b" and 1: "bread ROOTDEV a s = Ok i s1"
    and spare: "(\<exists>j<NBUF. bdirty (bufn s j) \<and> cached s j b) \<or> 2 \<le> card C"
    and C: "C \<subseteq> {..<NBUF}" "\<And>i. i \<in> C \<Longrightarrow> \<not> bdirty (bufn s i)"
  shows "\<exists>j t. bread ROOTDEV b s1 = Ok j t"
proof -
  note inv = calmD(1) [OF c]
  note r = bread_Ok [OF inv 1] and o = bread_only [OF inv 1]
  have fr: "locks s1 = []" "curproc s1 = curproc s" "disksize s1 = disksize s"
    using r calmD(2) [OF c] by (auto simp: bframe_def)
  obtain p where p: "curproc s1 = Some p" using calmD(3) [OF c] fr by auto
  have same: "j \<noteq> i \<Longrightarrow> bufn s1 j = bufn s j" for j using o by blast
  have ci: "cached s1 i a" using r by (simp add: holds_def)
  have free: "j \<noteq> i \<Longrightarrow> j < NBUF \<Longrightarrow> b_refcnt (bufn s1 j) = 0 \<and> \<not> sl_locked (b_lock (bufn s1 j))" for j
    using calmD(4,5) [OF c] by (simp add: same)
  have hit: "\<not> sl_locked (b_lock (bufn s1 j))" if "cached s1 j b" for j
    using that free [of j] ci b(2) by (auto simp: cached_def)
  have "(\<exists>j. cached s1 j b) \<or> (\<exists>j<NBUF. b_refcnt (bufn s1 j) = 0 \<and> \<not> bdirty (bufn s1 j))"
    using spare
  proof
    assume "\<exists>j<NBUF. bdirty (bufn s j) \<and> cached s j b"
    then obtain j where j: "j < NBUF" "bdirty (bufn s j)" "cached s j b" by blast
    then have "j \<noteq> i" using o b(2) by (auto simp: cached_def)
    then show ?thesis using j(3) same by (auto simp: cached_def)
  next
    assume "2 \<le> card C"
    then have "\<not> C \<subseteq> {i}" using card_mono [of "{i}" C] by auto
    then obtain j where j: "j \<in> C" "j \<noteq> i" by blast
    then have "j < NBUF" "\<not> bdirty (bufn s1 j)" using C same [OF j(2)] by auto
    then show ?thesis using free [OF j(2)] by blast
  qed
  with hit have avail: "(\<exists>j. cached s1 j b \<and> \<not> sl_locked (b_lock (bufn s1 j)))
      \<or> (\<forall>j. \<not> cached s1 j b) \<and> (\<exists>j<NBUF. b_refcnt (bufn s1 j) = 0 \<and> \<not> bdirty (bufn s1 j))"
    by blast
  have "bio_inv s1" using r by blast
  from bread_returns [OF this fr(1) p _ avail] show ?thesis using b(1) fr(3) by simp
qed


subsection \<open>Two reads, a copy, a write and two releases\<close>

definition copy_block :: "bool \<Rightarrow> nat \<Rightarrow> nat \<Rightarrow> 'r \<Rightarrow> ('z, 'r) bop" where
  "copy_block w a b r =
     bind (bread ROOTDEV a) (\<lambda>i.
     bind (bread ROOTDEV b) (\<lambda>j.
     bind (modify (\<lambda>s. set_data (if w then j else i) (b_data (bufn s (if w then i else j))) s)) (\<lambda>_.
     bind (bwrite (if w then j else i)) (\<lambda>_.
     bind (brelse (if w then i else j)) (\<lambda>_.
     bind (brelse (if w then j else i)) (\<lambda>_. ret r))))))"

lemma set_data_only: "length (buffers s) = Suc NBUF \<Longrightarrow> i < NBUF \<Longrightarrow>
    bufn (set_data i d s) k = (if k = i then (bufn s i)\<lparr>b_data := d\<rparr> else bufn s k)"
  by (simp add: set_data_def bufn_upd_buf)

lemma write_release_returns:
  assumes inv: "bio_inv s" and h: "holds s i a" "holds s j b" and ab: "a \<noteq> b" and st: "settled s i"
    and lk: "locks s = []" and p: "curproc s = Some p"
  shows "\<exists>s1 s2 t. bwrite j (set_data j (b_data (bufn s i)) s) = Ok () s1 \<and> brelse i s1 = Ok () s2
    \<and> brelse j s2 = Ok () t \<and> bio_inv t \<and> locks t = [] \<and> curproc t = Some p \<and> disksize t = disksize s
    \<and> (\<forall>k. k \<noteq> i \<longrightarrow> k \<noteq> j \<longrightarrow> same_buf (bufn t k) (bufn s k))
    \<and> same_buf (bufn t i) (dropped (bufn s i))
    \<and> b_refcnt (bufn t j) = b_refcnt (bufn s j) - 1 \<and> \<not> bdirty (bufn t j)"
proof -
  have ij: "i \<noteq> j" using h ab by (auto simp: holds_def cached_def)
  have bi: "i < NBUF" and bj: "j < NBUF" and len: "length (buffers s) = Suc NBUF"
    using holds_bound [OF inv h(1)] holds_bound [OF inv h(2)] inv by (auto simp: bio_inv_def)
  define u where "u = set_data j (b_data (bufn s i)) s"
  have d: "length (b_data (bufn s i)) = BSIZE" using inv bi by (simp add: bio_inv_def)
  have bu: "bufn u k = (if k = j then (bufn s j)\<lparr>b_data := b_data (bufn s i)\<rparr> else bufn s k)" for k
    using set_data_only [OF len bj] by (simp add: u_def)
  have u: "bio_inv u" "holds u j b" "locks u = []" "curproc u = Some p" "disksize u = disksize s"
    using set_data_held [OF inv h(2) d, folded u_def] lk p by (auto simp: u_def)
  have hu: "holds u i a" "settled u i"
    using h(1) st bu [of i] ij by (auto simp: holds_def settled_def cached_def mypid_def u_def)
  obtain s1 where 1: "bwrite j u = Ok () s1" using bwrite_returns [OF u(1,2,3)] u(4) by blast
  note w = bwrite_Ok [OF u(1,2) 1] and wo = bwrite_only [OF u(1,2) 1]
  have f1: "locks s1 = []" "curproc s1 = Some p" "disksize s1 = disksize s"
    using w u by (auto simp: bframe_def)
  have h1: "holds s1 i a" using holds_frame [OF hu(1), of "{j}" s1] w ij by blast
  have st1: "settled s1 i"
    using settled_frame [OF hu(2,1), of "{j}" s1] w ij ab by simp
  obtain s2 where 2: "brelse i s1 = Ok () s2" using brelse_returns [OF f1(1,2) h1] by blast
  have i1: "bio_inv s1" and hj1: "holds s1 j b" and sj1: "settled s1 j" using w by auto
  note x = brelse_Ok [OF i1 h1 st1 2] and xo = brelse_only [OF i1 h1 st1 2]
  have f2: "locks s2 = []" "curproc s2 = Some p" "disksize s2 = disksize s"
    using x f1 by (auto simp: bframe_def)
  have hj2: "holds s2 j b" using holds_frame [OF hj1, of "{i}" s2] x ij by simp
  have sj2: "settled s2 j"
    using settled_frame [OF sj1 hj1, of "{i}" s2] x ij by simp
  obtain t where 3: "brelse j s2 = Ok () t" using brelse_returns [OF f2(1,2) hj2] by blast
  have i2: "bio_inv s2" using x by blast
  note y = brelse_Ok [OF i2 hj2 sj2 3] and yo = brelse_only [OF i2 hj2 sj2 3]
  have f3: "locks t = []" "curproc t = Some p" "disksize t = disksize s"
    using y f2 by (auto simp: bframe_def)
  have other: "same_buf (bufn t k) (bufn s k)" if "k \<noteq> i" "k \<noteq> j" for k
    using yo [of k] xo [of k] wo bu [of k] that by (auto simp: same_buf_def)
  have bi_t: "same_buf (bufn t i) (dropped (bufn s i))"
    using yo [of i] xo [of i] wo bu [of i] ij by (auto simp: same_buf_def)
  have "same_buf (bufn t j) (dropped (bufn s2 j))" "same_buf (bufn s2 j) (bufn s1 j)"
    using yo [of j] xo [of j] ij by auto
  then have bj_t: "b_refcnt (bufn t j) = b_refcnt (bufn s j) - 1 \<and> \<not> bdirty (bufn t j)"
    using w wo bu [of j] by (auto simp: same_buf_def dropped_def bdirty_def)
  show ?thesis
    using 1 2 3 y f3 other bi_t bj_t unfolding u_def by blast
qed

lemma copy_block_returns:
  assumes c: "calm s" and pinQ: "pinned s Q" "Q \<subseteq> P" and P: "finite P" "card P < NBUF" "b \<in> P"
    and ab: "a \<noteq> b" and d: "a < disksize s" "b < disksize s"
  shows "\<exists>t. copy_block w a b r s = Ok r t \<and> calm t \<and> pinned t (if w then Q - {b} else Q)
    \<and> disksize t = disksize s"
proof -
  note inv = calmD(1) [OF c]
  have pin: "pinned s P" using pinQ by (auto simp: pinned_def)
  have le: "card (dirtied s) \<le> card P"
    using dirtied_le [OF inv pin P(1), of "{}"] by simp
  obtain C1 where "C1 \<subseteq> {..<NBUF}" "card C1 = 1" "\<And>i. i \<in> C1 \<Longrightarrow> \<not> bdirty (bufn s i)"
    using clean_buffers [of s 1] le P(2) by auto
  then have "\<exists>i<NBUF. \<not> bdirty (bufn s i)" by (auto simp: card_1_singleton_iff)
  then obtain i s1 where 1: "bread ROOTDEV a s = Ok i s1" using bread_calm [OF c d(1)] by blast
  have "\<exists>j s2. bread ROOTDEV b s1 = Ok j s2"
  proof (cases "\<exists>j<NBUF. bdirty (bufn s j) \<and> cached s j b")
    case True
    then show ?thesis using bread_second [OF c d(2) ab 1, of "{}"] by blast
  next
    case False
    have "card (dirtied s) \<le> card (P - {b})"
      by (rule dirtied_le [OF inv pin P(1)]) (use False pin in \<open>auto simp: pinned_def cached_def\<close>)
    then have "card (dirtied s) + 2 \<le> NBUF" using P card_Suc_Diff1 [of P b] by linarith
    then obtain C where "C \<subseteq> {..<NBUF}" "card C = 2" "\<And>i. i \<in> C \<Longrightarrow> \<not> bdirty (bufn s i)"
      using clean_buffers by blast
    then show ?thesis using bread_second [OF c d(2) ab 1, of C] by auto
  qed
  then obtain j s2 where 2: "bread ROOTDEV b s1 = Ok j s2" by blast
  note t = bread_two [OF inv 1 2]
  have inv1: "bio_inv s1" using bread_Ok [OF inv 1] by blast
  note o1 = bread_only [OF inv 1] and o2 = bread_only [OF inv1 2]
  obtain p where p: "curproc s2 = Some p" and lk: "locks s2 = []"
    using t calmD(2,3) [OF c] by (auto simp: bframe_def)
  have ij: "i \<noteq> j" "i < NBUF" "j < NBUF" using t by auto
  have ref: "b_refcnt (bufn s2 i) = 1" "b_refcnt (bufn s2 j) = 1"
    using o1 o2 ij calmD(4) [OF c] by auto
  have other: "bufn s2 k = bufn s k" if "k \<noteq> i" "k \<noteq> j" for k using o1 o2 that by auto
  have dirty: "bdirty (bufn s2 k) \<Longrightarrow> bdirty (bufn s k)" for k
    using o1 o2 ij other by (metis)
  have pin2: "b_dev (bufn s2 k) = ROOTDEV \<and> b_blockno (bufn s2 k) \<in> Q"
    if k: "k < NBUF" "bdirty (bufn s2 k)" for k
  proof -
    have "b_dev (bufn s2 k) = b_dev (bufn s k) \<and> b_blockno (bufn s2 k) = b_blockno (bufn s k)"
    proof (cases "k = i \<or> k = j")
      case True
      have "bdirty (bufn s i) \<Longrightarrow> cached s i a" using o1 by blast
      moreover have "bdirty (bufn s j) \<Longrightarrow> cached s j b"
        using o1 o2 ij by (auto simp: cached_def)
      ultimately show ?thesis using True t dirty [OF k(2)] by (auto simp: holds_def cached_def)
    next
      case False
      then show ?thesis using other [of k] by simp
    qed
    then show ?thesis using pinQ(1) dirty [OF k(2)] k(1) by (simp add: pinned_def)
  qed
  define x y where "x = (if w then i else j)" and "y = (if w then j else i)"
  have xy: "{x, y} = {i, j}" "x < NBUF" "y < NBUF" using ij by (auto simp: x_def y_def)
  have "\<exists>nx ny. holds s2 x nx \<and> holds s2 y ny \<and> nx \<noteq> ny \<and> settled s2 x"
    using t ab by (auto simp: x_def y_def)
  then obtain s3 s4 t' where run: "bwrite y (set_data y (b_data (bufn s2 x)) s2) = Ok () s3"
    "brelse x s3 = Ok () s4" "brelse y s4 = Ok () t'"
    and res: "bio_inv t'" "locks t' = []" "curproc t' = Some p" "disksize t' = disksize s2"
      "\<And>k. k \<noteq> x \<Longrightarrow> k \<noteq> y \<Longrightarrow> same_buf (bufn t' k) (bufn s2 k)"
      "same_buf (bufn t' x) (dropped (bufn s2 x))"
      "b_refcnt (bufn t' y) = b_refcnt (bufn s2 y) - 1" "\<not> bdirty (bufn t' y)"
    using write_release_returns [of s2 x _ y _ p] t lk p by blast
  have "copy_block w a b r s = Ok r t'"
    using 1 2 run by (cases w) (simp_all add: copy_block_def x_def y_def)
  moreover have "b_refcnt (bufn t' k) = 0" if "k < NBUF" for k
  proof -
    have "k \<noteq> x \<Longrightarrow> k \<noteq> y \<Longrightarrow> b_refcnt (bufn s2 k) = 0"
      using other [of k] calmD(4) [OF c that] xy(1) by (metis insertCI insertE singletonD)
    moreover have "b_refcnt (bufn s2 x) = 1" "b_refcnt (bufn s2 y) = 1"
      using ref by (simp_all add: x_def y_def)
    ultimately show ?thesis using res(5) [of k] res(6,7)
      by (cases "k = x"; cases "k = y") (auto simp: same_buf_def dropped_def)
  qed
  moreover have "pinned t' (if w then Q - {b} else Q)"
    unfolding pinned_def
  proof (intro allI impI)
    fix k
    assume k: "k < NBUF" "bdirty (bufn t' k)"
    then have ky: "k \<noteq> y" using res(8) by auto
    have same: "bdirty (bufn s2 k)" "b_dev (bufn t' k) = b_dev (bufn s2 k)"
      "b_blockno (bufn t' k) = b_blockno (bufn s2 k)"
      using res(5) [of k] res(6) k(2) ky
      by (cases "k = x"; simp add: same_buf_def dropped_def bdirty_def)+
    have "w \<Longrightarrow> b_blockno (bufn s2 k) \<noteq> b"
    proof
      assume w and "b_blockno (bufn s2 k) = b"
      then have "cached s2 k b" using pin2 [OF k(1) same(1)] k(1) by (simp add: cached_def)
      moreover have "cached s2 y b" using t \<open>w\<close> by (simp add: y_def holds_def)
      ultimately show False using cached_inj [of s2 k b y] t ky by blast
    qed
    then show "b_dev (bufn t' k) = ROOTDEV \<and> b_blockno (bufn t' k) \<in> (if w then Q - {b} else Q)"
      using pin2 [OF k(1) same(1)] same by simp
  qed
  ultimately show ?thesis using res t by (auto simp: calm_def bframe_def)
qed


lemma copy_block_more:
  assumes "bio_inv s" and "copy_block w a b r s = Ok x t"
  shows "bstate.more t = bstate.more s"
  using copy_src_first [OF assms(1), of a b r x t] copy_dst_first [OF assms(1), of a b r x t] assms(2)
  by (cases w) (simp_all add: copy_block_def copies_def quiet_step_def)

lemma copy_loop_returns:
  assumes body: "\<And>k u. k \<in> set ks \<Longrightarrow> bstate.more u = m \<Longrightarrow> body k u = copy_block w (a k) (b k) None u"
    and ks: "\<And>k. k \<in> set ks \<Longrightarrow> b k \<in> P \<and> a k \<noteq> b k \<and> a k < N \<and> b k < N"
    and P: "finite P" "card P < NBUF"
  shows "calm s \<Longrightarrow> pinned s Q \<Longrightarrow> Q \<subseteq> P \<Longrightarrow> bstate.more s = m \<Longrightarrow> disksize s = N \<Longrightarrow>
    \<exists>t. for_each ks body s = Ok (None :: unit option) t \<and> calm t
      \<and> pinned t (if w then Q - b ` set ks else Q) \<and> disksize t = N \<and> bstate.more t = m"
  using body ks
proof (induction ks arbitrary: s Q)
  case Nil
  then show ?case by simp
next
  case (Cons k ks)
  have k: "b k \<in> P" "a k \<noteq> b k" "a k < disksize s" "b k < disksize s"
    using Cons.prems(5,7) by auto
  obtain u where u: "copy_block w (a k) (b k) None s = Ok (None :: unit option) u" "calm u"
    "pinned u (if w then Q - {b k} else Q)" "disksize u = disksize s"
    using copy_block_returns [OF Cons.prems(1,2,3) P k(1) k(2,3,4), of w "None :: unit option"] by blast
  have m: "bstate.more u = m"
    using copy_block_more [OF calmD(1) [OF Cons.prems(1)] u(1)] Cons.prems(4) by simp
  have sub: "(if w then Q - {b k} else Q) \<subseteq> P" using Cons.prems(3) by auto
  have du: "disksize u = N" using u(4) Cons.prems(5) by simp
  have h: "\<And>j v. j \<in> set ks \<Longrightarrow> bstate.more v = m \<Longrightarrow> body j v = copy_block w (a j) (b j) None v"
    "\<And>j. j \<in> set ks \<Longrightarrow> b j \<in> P \<and> a j \<noteq> b j \<and> a j < N \<and> b j < N"
    using Cons.prems(6,7) by simp_all
  obtain t where t: "for_each ks body u = Ok (None :: unit option) t" "calm t"
      "pinned t (if w then (if w then Q - {b k} else Q) - b ` set ks else (if w then Q - {b k} else Q))"
      "disksize t = N" "bstate.more t = m"
    using Cons.IH [OF u(2,3) sub m du h] by blast
  have "body k s = Ok None u" using Cons.prems(6) [of k s] Cons.prems(4) u(1) by simp
  with t(1) have run: "for_each (k # ks) body s = Ok None t" by simp
  have "(if w then (if w then Q - {b k} else Q) - b ` set ks else (if w then Q - {b k} else Q))
      = (if w then Q - b ` set (k # ks) else Q)" by auto
  with t(3) have "pinned t (if w then Q - b ` set (k # ks) else Q)" by simp
  with run t(2,4,5) show ?case by blast
qed

lemma write_through_returns:
  assumes c: "calm s" and pin: "pinned s Q" and n: "n < disksize s" and spare: "\<exists>i<NBUF. \<not> bdirty (bufn s i)"
    and f: "\<And>d. length d = BSIZE \<Longrightarrow> length (f d) = BSIZE"
  shows "\<exists>i s1 s2 t. bread ROOTDEV n s = Ok i s1 \<and> bwrite i (set_data i (f (b_data (bufn s1 i))) s1) = Ok () s2
    \<and> brelse i s2 = Ok () t \<and> calm t \<and> pinned t Q \<and> disksize t = disksize s"
proof -
  note inv = calmD(1) [OF c]
  obtain i s1 where 1: "bread ROOTDEV n s = Ok i s1" using bread_calm [OF c n spare] by blast
  note r = bread_Ok [OF inv 1] and o = bread_only [OF inv 1]
  obtain p where p: "curproc s1 = Some p" and lk: "locks s1 = []"
    using r calmD(2,3) [OF c] by (auto simp: bframe_def)
  define d where "d = f (b_data (bufn s1 i))"
  define u where "u = set_data i d s1"
  have len: "length (buffers s1) = Suc NBUF" and d: "length d = BSIZE"
    using r f by (auto simp: bio_inv_def d_def)
  have bu: "bufn u k = (if k = i then (bufn s1 i)\<lparr>b_data := d\<rparr> else bufn s1 k)" for k
    using set_data_only [OF len] r by (simp add: u_def)
  have u: "bio_inv u" "holds u i n" "locks u = []" "curproc u = Some p" "disksize u = disksize s"
    using set_data_held [of s1 i n d, folded u_def] r d lk p by (auto simp: u_def bframe_def)
  obtain s2 where 2: "bwrite i u = Ok () s2" using bwrite_returns [OF u(1,2,3)] u(4) by blast
  note w = bwrite_Ok [OF u(1,2) 2] and wo = bwrite_only [OF u(1,2) 2]
  have f2: "locks s2 = []" "curproc s2 = Some p" "disksize s2 = disksize s"
    and h2: "bio_inv s2" "holds s2 i n" "settled s2 i"
    using w u by (auto simp: bframe_def)
  obtain t where 3: "brelse i s2 = Ok () t" using brelse_returns [OF f2(1,2) h2(2)] by blast
  note y = brelse_Ok [OF h2 3] and yo = brelse_only [OF h2 3]
  have t: "same_buf (bufn t k) (if k = i then dropped (bufn s2 i) else bufn s k)" for k
    using yo [of k] wo bu [of k] o by (auto simp: same_buf_def)
  have clean: "\<not> bdirty (bufn t i)" using t [of i] w by (simp add: same_buf_def dropped_def bdirty_def)
  have "b_refcnt (bufn t i) = 0"
    using t [of i] wo bu [of i] o calmD(4) [OF c] by (simp add: same_buf_def dropped_def)
  then have "b_refcnt (bufn t k) = 0" if "k < NBUF" for k
    using t [of k] calmD(4) [OF c that] by (cases "k = i") (simp_all add: same_buf_def)
  moreover have "pinned t Q"
    unfolding pinned_def
  proof (intro allI impI)
    fix k assume k: "k < NBUF" "bdirty (bufn t k)"
    with clean have "k \<noteq> i" by blast
    with t [of k] k pin show "b_dev (bufn t k) = ROOTDEV \<and> b_blockno (bufn t k) \<in> Q"
      by (simp add: same_buf_def pinned_def bdirty_def)
  qed
  ultimately have "calm t \<and> pinned t Q \<and> disksize t = disksize s"
    using y f2 by (auto simp: calm_def bframe_def)
  then show ?thesis using 1 2 3 unfolding u_def d_def by blast
qed


subsection \<open>commit and recovery return\<close>

text \<open>The blocks that the open transaction has given to the log.\<close>

definition logged :: "'z lstate_scheme \<Rightarrow> nat set" where
  "logged s = home s ` {..<nat (lh_n s)}"

text \<open>The log and the blocks in it are on the disk, and the cache can pin that many buffers.\<close>

definition log_fits :: "'z lstate_scheme \<Rightarrow> bool" where
  "log_fits s \<longleftrightarrow> log_start s + nat (log_size s) \<le> disksize s \<and> nat (lh_n s) < NBUF
     \<and> (\<forall>k < nat (lh_n s). home s k < disksize s)"

lemma spare_buffer:
  assumes "bio_inv s" "pinned s P" "finite P" "card P < NBUF"
  shows "\<exists>i<NBUF. \<not> bdirty (bufn s i)"
proof -
  have "card (dirtied s) + 1 \<le> NBUF" using dirtied_le [OF assms(1-3), of "{}"] assms(4) by simp
  from clean_buffers [OF this] obtain C where "C \<subseteq> {..<NBUF}" "card C = 1"
    "\<And>i. i \<in> C \<Longrightarrow> \<not> bdirty (bufn s i)" by blast
  then show ?thesis by (auto simp: card_1_singleton_iff)
qed

lemma card_logged: "card (logged s) \<le> nat (lh_n s)"
  unfolding logged_def using card_image_le [of "{..<nat (lh_n s)}" "home s"] by simp

lemma slot_home:
  assumes "log_ok s" and "k < nat (lh_n s)"
  shows "log_start s + k + 1 \<noteq> home s k" and "log_start s + k + 1 < log_start s + nat (log_size s)"
  using assms by (auto simp: log_ok_def in_log_def)

lemma write_log_returns:
  assumes c: "calm s" and ok: "log_ok s" and fit: "log_fits s" and pin: "pinned s (logged s)"
  shows "\<exists>t. write_log s = Ok () t \<and> calm t \<and> pinned t (logged s) \<and> disksize t = disksize s
    \<and> bstate.more t = bstate.more s"
proof -
  have dev: "log_dev s = ROOTDEV" using ok by (simp add: log_ok_def)
  let ?body = "\<lambda>tail. bind (reads (\<lambda>s. (log_dev s, log_start s + tail + 1, lh_block s ! tail)))
     (\<lambda>(dev, dst, src). bind (bread dev dst) (\<lambda>to. bind (bread dev src) (\<lambda>from.
       bind (modify (\<lambda>s. set_data to (b_data (bufn s from)) s)) (\<lambda>_. bind (bwrite to) (\<lambda>_.
       bind (brelse from) (\<lambda>_. bind (brelse to) (\<lambda>_. ret (None :: unit option))))))))"
  have body: "?body k u = copy_block False (log_start s + k + 1) (home s k) None u"
    if "bstate.more u = bstate.more s" for k u
    by (simp add: log_fields [OF that] dev copy_block_def home_def)
  have ks: "home s k \<in> logged s \<and> log_start s + k + 1 \<noteq> home s k \<and> log_start s + k + 1 < disksize s
      \<and> home s k < disksize s" if "k \<in> set [0..<nat (lh_n s)]" for k
    using that slot_home [OF ok, of k] fit by (auto simp: logged_def log_fits_def)
  have P: "finite (logged s)" "card (logged s) < NBUF"
    using card_logged [of s] fit by (auto simp: logged_def log_fits_def)
  obtain t where "for_each [0..<nat (lh_n s)] ?body s = Ok None t" "calm t" "pinned t (logged s)"
    "disksize t = disksize s" "bstate.more t = bstate.more s"
    using copy_loop_returns [where ks = "[0..<nat (lh_n s)]" and body = ?body and w = False
        and a = "\<lambda>k. log_start s + k + 1" and b = "home s" and P = "logged s"
        and m = "bstate.more s" and N = "disksize s", OF body ks P c pin subset_refl refl refl,
        unfolded if_False] by blast
  then show ?thesis by (auto simp: write_log_def)
qed

lemma install_trans_returns:
  assumes c: "calm s" and ok: "log_ok s" and fit: "log_fits s" and pin: "pinned s Q" "Q \<subseteq> logged s"
  shows "\<exists>t. install_trans s = Ok () t \<and> calm t \<and> pinned t {} \<and> disksize t = disksize s
    \<and> bstate.more t = bstate.more s"
proof -
  have dev: "log_dev s = ROOTDEV" using ok by (simp add: log_ok_def)
  let ?body = "\<lambda>tail. bind (reads (\<lambda>s. (log_dev s, log_start s + tail + 1, lh_block s ! tail)))
     (\<lambda>(dev, src, dst). bind (bread dev src) (\<lambda>lbuf. bind (bread dev dst) (\<lambda>dbuf.
       bind (modify (\<lambda>s. set_data dbuf (b_data (bufn s lbuf)) s)) (\<lambda>_. bind (bwrite dbuf) (\<lambda>_.
       bind (brelse lbuf) (\<lambda>_. bind (brelse dbuf) (\<lambda>_. ret (None :: unit option))))))))"
  have body: "?body k u = copy_block True (log_start s + k + 1) (home s k) None u"
    if "bstate.more u = bstate.more s" for k u
    by (simp add: log_fields [OF that] dev copy_block_def home_def)
  have ks: "home s k \<in> logged s \<and> log_start s + k + 1 \<noteq> home s k \<and> log_start s + k + 1 < disksize s
      \<and> home s k < disksize s" if "k \<in> set [0..<nat (lh_n s)]" for k
    using that slot_home [OF ok, of k] fit by (auto simp: logged_def log_fits_def)
  have P: "finite (logged s)" "card (logged s) < NBUF"
    using card_logged [of s] fit by (auto simp: logged_def log_fits_def)
  have empty: "Q - home s ` set [0..<nat (lh_n s)] = {}"
    using pin(2) by (auto simp: logged_def)
  obtain t where "for_each [0..<nat (lh_n s)] ?body s = Ok None t" "calm t" "pinned t {}"
    "disksize t = disksize s" "bstate.more t = bstate.more s"
    using copy_loop_returns [where ks = "[0..<nat (lh_n s)]" and body = ?body and w = True
        and a = "\<lambda>k. log_start s + k + 1" and b = "home s" and P = "logged s"
        and m = "bstate.more s" and N = "disksize s", OF body ks P c pin(1,2) refl refl,
        unfolded if_True empty] by blast
  then show ?thesis by (auto simp: install_trans_def)
qed

lemma write_head_returns:
  assumes c: "calm s" and pin: "pinned s P" "finite P" "card P < NBUF" and dev: "log_dev s = ROOTDEV"
    and st: "log_start s < disksize s" and n: "0 \<le> lh_n s" "lh_n s \<le> int LOGSIZE" "length (lh_block s) = LOGSIZE"
  shows "\<exists>t. write_head s = Ok () t \<and> calm t \<and> pinned t P \<and> disksize t = disksize s
    \<and> bstate.more t = bstate.more s"
proof -
  have f: "length (put_head (lh_n s) (lh_block s) d) = BSIZE" if "length d = BSIZE" for d
    using put_head_read(1) n that by blast
  obtain i s1 s2 t where run: "bread ROOTDEV (log_start s) s = Ok i s1"
    "bwrite i (set_data i (put_head (lh_n s) (lh_block s) (b_data (bufn s1 i))) s1) = Ok () s2"
    "brelse i s2 = Ok () t" and t: "calm t" "pinned t P" "disksize t = disksize s"
    using write_through_returns [OF c pin(1) st spare_buffer [OF calmD(1) [OF c] pin],
        of "put_head (lh_n s) (lh_block s)", OF f] by blast
  have len: "\<not> length (lh_block s) < nat (lh_n s)" using n by simp
  have "write_head s = Ok () t" using run dev len by (simp add: write_head_def)
  moreover have "bstate.more t = bstate.more s"
    using write_head_Ok [OF calmD(1) [OF c] dev n(1,2) \<open>write_head s = Ok () t\<close>] by (simp add: quiet_step_def)
  ultimately show ?thesis using t by blast
qed


lemma calm_lh [simp]: "calm (s\<lparr>lh_n := n\<rparr>) = calm s" "pinned (s\<lparr>lh_n := n\<rparr>) P = pinned s P"
  by (simp_all add: calm_def pinned_def)

theorem commit_returns:
  assumes c: "calm s" and ok: "log_ok s" and fit: "log_fits s" and pin: "pinned s (logged s)"
  shows "\<exists>t. commit s = Ok () t \<and> calm t \<and> pinned t {} \<and> disksize t = disksize s
    \<and> bstate.more t = bstate.more (s\<lparr>lh_n := 0\<rparr>)"
proof (cases "0 < lh_n s")
  case True
  have dev: "log_dev s = ROOTDEV" "0 \<le> lh_n s" "lh_n s \<le> int LOGSIZE" "length (lh_block s) = LOGSIZE"
    using ok by (auto simp: log_ok_def)
  have P: "finite (logged s)" "card (logged s) < NBUF"
    using card_logged [of s] fit by (auto simp: logged_def log_fits_def)
  have st: "log_start s < disksize s"
    using fit ok True by (auto simp: log_fits_def log_ok_def)
  obtain s1 where 1: "write_log s = Ok () s1" "calm s1" "pinned s1 (logged s)" "disksize s1 = disksize s"
    "bstate.more s1 = bstate.more s" using write_log_returns [OF c ok fit pin] by blast
  note m1 = log_fields [OF 1(5)]
  obtain s2 where 2: "write_head s1 = Ok () s2" "calm s2" "pinned s2 (logged s)" "disksize s2 = disksize s1"
    "bstate.more s2 = bstate.more s1"
    using write_head_returns [OF 1(2,3) P] dev st 1(4) by (auto simp: m1)
  have m2': "bstate.more s2 = bstate.more s" using 1 2 by simp
  note m2 = log_fields [OF m2']
  have "log_ok s2" "logged s2 = logged s" "log_fits s2"
    using ok fit log_ok_cong [OF m2'] 1(4) 2(4) by (simp_all add: logged_def log_fits_def m2)
  then obtain s3 where 3: "install_trans s2 = Ok () s3" "calm s3" "pinned s3 {}" "disksize s3 = disksize s2"
    "bstate.more s3 = bstate.more s2" using install_trans_returns [OF 2(2) _ _ 2(3)] by auto
  have m3: "bstate.more s3 = bstate.more s" using 3 m2' by simp
  have "0 < NBUF" by (simp add: NBUF_def MAXOPBLOCKS_def)
  then obtain t where 4: "write_head (s3\<lparr>lh_n := 0\<rparr>) = Ok () t" "calm t" "pinned t {}"
    "disksize t = disksize s3" "bstate.more t = bstate.more (s3\<lparr>lh_n := 0\<rparr>)"
    using write_head_returns [of "s3\<lparr>lh_n := 0\<rparr>" "{}"] 3 dev st 1(4) 2(4) by (auto simp: log_fields [OF m3])
  have "commit s = Ok () t" using 1 2 3 4 True by (simp add: commit_def)
  moreover have "bstate.more (s3\<lparr>lh_n := 0\<rparr>) = bstate.more (s\<lparr>lh_n := 0\<rparr>)"
    using m3 by (cases s; cases s3; simp)
  ultimately show ?thesis using 1 2 3 4 by auto
next
  case False
  then have z: "lh_n s = 0" using ok by (simp add: log_ok_def)
  then have "commit s = Ok () s" by (simp add: commit_def)
  moreover have "pinned s {}" using pin z by (simp add: logged_def)
  moreover have "bstate.more (s\<lparr>lh_n := 0\<rparr>) = bstate.more s" using z by (cases s) simp
  ultimately show ?thesis using c by auto
qed

lemma fold_lh_block:
  "\<exists>bl. fold (\<lambda>k s. s\<lparr>lh_block := (lh_block s)[k := g k]\<rparr>) ks u = u\<lparr>lh_block := bl\<rparr>"
proof (induction ks arbitrary: u)
  case Nil
  have "u = u\<lparr>lh_block := lh_block u\<rparr>" by simp
  then show ?case by (intro exI [of _ "lh_block u"]) simp
next
  case (Cons k ks)
  from Cons.IH [of "u\<lparr>lh_block := (lh_block u)[k := g k]\<rparr>"] show ?case by auto
qed

lemma read_head_returns:
  assumes c: "calm s" and pin: "pinned s {}" and dev: "log_dev s = ROOTDEV"
    and st: "log_start s < disksize s" and n: "hdr_n (blk s (log_start s)) \<le> LOGSIZE"
  shows "\<exists>t. read_head s = Ok () t \<and> calm t \<and> pinned t {} \<and> disksize t = disksize s"
proof -
  note inv = calmD(1) [OF c]
  have "\<exists>i<NBUF. \<not> bdirty (bufn s i)"
    using spare_buffer [OF inv pin] by (simp add: NBUF_def MAXOPBLOCKS_def)
  then obtain i s1 where 1: "bread ROOTDEV (log_start s) s = Ok i s1" using bread_calm [OF c st] by blast
  note r = bread_Ok [OF inv 1] and o = bread_only [OF inv 1]
  obtain p where p: "curproc s1 = Some p" and lk: "locks s1 = []"
    using r calmD(2,3) [OF c] by (auto simp: bframe_def)
  let ?d = "b_data (bufn s1 i)"
  have d: "?d = blk s (log_start s)" using r holds_blk [of s1 i] by simp
  define s2 where "s2 = fold (\<lambda>k s. s\<lparr>lh_block := (lh_block s)[k := get32 ?d (4 + 4 * k)]\<rparr>)
    [0..<nat (get_int ?d 0)] (s1\<lparr>lh_n := get_int ?d 0\<rparr>)"
  have loop: "for_each [0..<nat (get_int ?d 0)] (\<lambda>i. if i < LOGSIZE
       then bind (modify (\<lambda>s. s\<lparr>lh_block := (lh_block s)[i := get32 ?d (4 + 4 * i)]\<rparr>))
              (\<lambda>_. ret (None :: unit option))
       else fault) (s1\<lparr>lh_n := get_int ?d 0\<rparr>) = Ok None s2"
    unfolding s2_def by (rule for_each_all) (use n in \<open>auto simp: d hdr_n_def\<close>)
  obtain bl where s2: "s2 = s1\<lparr>lh_n := get_int ?d 0, lh_block := bl\<rparr>"
    using fold_lh_block [of "\<lambda>k. get32 ?d (4 + 4 * k)" "[0..<nat (get_int ?d 0)]"
        "s1\<lparr>lh_n := get_int ?d 0\<rparr>"] unfolding s2_def by auto
  have h2: "bio_inv s2" "holds s2 i (log_start s)" "settled s2 i" "locks s2 = []" "curproc s2 = Some p"
    using r lk p by (simp_all add: s2)
  obtain t where 3: "brelse i s2 = Ok () t" using brelse_returns [OF h2(4,5,2)] by blast
  note y = brelse_Ok [OF h2(1-3) 3] and yo = brelse_only [OF h2(1-3) 3]
  have t: "same_buf (bufn t k) (if k = i then dropped (bufn s1 i) else bufn s k)" for k
    using yo [of k] o by (cases "k = i") (simp_all add: s2)
  have "b_refcnt (bufn t k) = 0 \<and> \<not> bdirty (bufn t k)" if k: "k < NBUF" for k
    using t [of k] o k pin calmD(4) [OF c k]
    by (cases "k = i") (auto simp: same_buf_def dropped_def bdirty_def pinned_def)
  moreover have "curproc t = Some p" "locks t = []" "disksize t = disksize s"
    using y h2 r by (simp_all add: bframe_def s2)
  ultimately have "calm t \<and> pinned t {} \<and> disksize t = disksize s"
    using y by (simp add: calm_def pinned_def)
  moreover have "read_head s = Ok () t"
    using 1 loop 3 dev by (simp add: read_head_def)
  ultimately show ?thesis by blast
qed

theorem recover_returns:
  assumes c: "calm s" and pin: "pinned s {}" and dev: "log_dev s = ROOTDEV"
    and len: "length (lh_block s) = LOGSIZE" and region: "log_start s + nat (log_size s) \<le> disksize s"
    and hdr: "hdr_ok (log_start s) (log_size s) (blk s (log_start s))"
    and hb: "\<forall>k < hdr_n (blk s (log_start s)). hdr_home (blk s (log_start s)) k < 4294967296
      \<and> hdr_home (blk s (log_start s)) k < disksize s"
    and n: "hdr_n (blk s (log_start s)) < NBUF"
  shows "\<exists>t. recover_from_log s = Ok () t \<and> calm t \<and> pinned t {}"
proof -
  note inv = calmD(1) [OF c]
  have "0 < nat (log_size s)" using hdr by (auto simp: hdr_ok_def)
  then have st: "log_start s < disksize s" using region by linarith
  have N: "NBUF = LOGSIZE" by (simp add: NBUF_def LOGSIZE_def)
  obtain s1 where 1: "read_head s = Ok () s1" "calm s1" "pinned s1 {}" "disksize s1 = disksize s"
    using read_head_returns [OF c pin dev st] n N by auto
  note r1 = read_head_Ok [OF inv dev len 1(1)]
  have ok: "log_ok s1" and n1: "nat (lh_n s1) = hdr_n (blk s (log_start s))"
    using read_head_log_ok [OF inv dev len hdr _ 1(1)] hb by auto
  have "log_fits s1" using r1 1(4) region n hb by (auto simp: log_fits_def hdr_n_def)
  from install_trans_returns [OF 1(2) ok this 1(3)]
  obtain s2 where 2: "install_trans s1 = Ok () s2" "calm s2" "pinned s2 {}" "disksize s2 = disksize s1"
    "bstate.more s2 = bstate.more s1" by auto
  obtain t where "write_head (s2\<lparr>lh_n := 0\<rparr>) = Ok () t" "calm t" "pinned t {}"
    using write_head_returns [of "s2\<lparr>lh_n := 0\<rparr>" "{}"] 2 1(4) r1 dev st
    by (auto simp: log_fields [OF 2(5)] NBUF_def MAXOPBLOCKS_def)
  then show ?thesis using 1 2 by (auto simp: recover_from_log_def)
qed


subsection \<open>Boot\<close>

text \<open>After \<open>binit\<close>, a process that starts to run finds every buffer free and clean.\<close>

definition started :: "'z bstate_scheme \<Rightarrow> 'z bstate_scheme" where
  "started s = (case binit s of Ok _ t \<Rightarrow> t\<lparr>curproc := Some 0\<rparr> | _ \<Rightarrow> s)"

definition at_boot :: "'z bstate_scheme \<Rightarrow> bool" where
  "at_boot s \<longleftrightarrow> boot_bufs s \<and> disksize s = length (memdisk s)
     \<and> (\<forall>n<disksize s. length (memdisk s ! n) = BSIZE) \<and> curproc s = None \<and> locks s = []
     \<and> procs s \<noteq> []"

lemma started_calm:
  assumes "at_boot s"
  shows "calm (started s)" and "pinned (started s) P" and "blk (started s) n = memdisk s ! n"
    and "memdisk (started s) = memdisk s" and "disksize (started s) = disksize s"
    and "bstate.more (started s) = bstate.more s" and "lru (started s) (rev [0..<NBUF])"
    and "dwrites (started s) = dwrites s" and "\<not> cached (started s) i n" and "binit s \<noteq> Panic e"
    and "j < NBUF \<Longrightarrow> \<not> bdirty (bufn (started s) j)"
proof -
  from binit_boot [of s] assms obtain t where t: "binit s = Ok () t" "bio_inv t"
    "\<And>n. blk t n = memdisk s ! n" "memdisk t = memdisk s" "disksize t = disksize s"
    "procs t = procs s" "locks t = locks s" "bstate.more t = bstate.more s" "lru t (rev [0..<NBUF])"
    "dwrites t = dwrites s"
    "\<And>j. j < NBUF \<Longrightarrow> same_buf (bufn t j) zero_buf" by (auto simp: at_boot_def)
  let ?u = "t\<lparr>curproc := Some 0\<rparr>"
  have st: "started s = ?u" using t(1) by (simp add: started_def)
  have b: "bufn ?u = bufn t" by (simp add: bufn_def fun_eq_iff)
  have z: "j < NBUF \<Longrightarrow> b_refcnt (bufn t j) = 0 \<and> \<not> bdirty (bufn t j) \<and> b_dev (bufn t j) = 0" for j
    using t(11) [of j] by (simp add: same_buf_def zero_buf_def bdirty_def)
  have inv: "bio_inv ?u"
    using t(2,6) assms by (auto simp: bio_inv_def lru_def cached_def settled_def b at_boot_def)
  have "blk ?u = blk t"
    by (simp add: blk_def cached_def b fun_eq_iff cong: option.case_cong)
  then show "calm (started s)" "pinned (started s) P" "blk (started s) n = memdisk s ! n"
    using t(3,7) assms z inv by (simp_all add: calm_def pinned_def b st at_boot_def)
  show "lru (started s) (rev [0..<NBUF])" using t(9) by (simp add: st lru_def b)
  show "\<not> cached (started s) i n" using z by (auto simp: st cached_def b ROOTDEV_def)
  show "j < NBUF \<Longrightarrow> \<not> bdirty (bufn (started s) j)" using z by (simp add: st b)
qed (use binit_boot [of s] assms in \<open>auto simp: at_boot_def started_def\<close>)

end
