(* ===== verification/Log_Claims.thy ===== *)
theory Log_Claims
  imports Log_Total
begin

text \<open>
  What the redo log promises: a commit puts the blocks of its transactions on the disk, and a crash
  at any point of it leaves, after recovery, all of them or none.
\<close>

text \<open>The disk a crash leaves: the first \<open>j\<close> block writes of the run from \<open>s\<close> to \<open>t\<close> took place.\<close>

definition crashed :: "nat \<Rightarrow> 'z bstate_scheme \<Rightarrow> 'z bstate_scheme \<Rightarrow> bytes list" where
  "crashed j s t = apply_writes (take j (drop (length (dwrites s)) (dwrites t))) (memdisk s)"

text \<open>The kernel booted again on disk \<open>d\<close>, with the same log, before recovery.\<close>

definition rebooted :: "bytes list \<Rightarrow> 'z lstate_scheme \<Rightarrow> 'z lstate_scheme \<Rightarrow> bool" where
  "rebooted d s s' \<longleftrightarrow> calm s' \<and> pinned s' {} \<and> booted (log_start s) (log_size s) d s'
     \<and> disksize s' = disksize s"

lemma crash_recovers:
  assumes c: "calm s" and ok: "log_ok s" and fit: "log_fits s" and n: "0 < lh_n s"
    and clean: "get_int (memdisk s ! log_start s) 0 = 0" and run: "commit s = Ok () t"
    and re: "rebooted (crashed j s t) s s'"
  shows "\<exists>t'. recover_from_log s' = Ok () t'"
proof -
  note inv = calmD(1) [OF c]
  have st: "log_start s < disksize s"
    using fit ok n by (auto simp: log_fits_def log_ok_def)
  have b: "calm s'" "pinned s' {}" "log_dev s' = ROOTDEV" "length (lh_block s') = LOGSIZE"
    "log_start s' = log_start s" "log_size s' = log_size s" "disksize s' = disksize s"
    using re by (auto simp: rebooted_def booted_def)
  have dk: "disksize s = length (memdisk s)" using inv by (simp add: bio_inv_def)
  have "dwrites t = dwrites s @ commit_writes s"
    using commit_Ok [OF inv ok n run] by (simp add: wrote_def)
  then have cd: "crashed j s t = apply_writes (take j (commit_writes s)) (memdisk s)"
    by (simp add: crashed_def)
  have "blk s' (log_start s) = crashed j s t ! log_start s"
    using re st dk by (simp add: rebooted_def booted_def cd)
  then have x: "blk s' (log_start s) = upd_all (take j (commit_writes s)) (\<lambda>n. memdisk s ! n) (log_start s)"
    using st dk by (simp add: cd nth_apply_writes)
  note h = crash_header [OF inv ok n st clean, of j, folded x]
  have "home s k < 4294967296" "home s k < disksize s" if "k < nat (lh_n s)" for k
    using that ok fit by (auto simp: log_ok_def log_fits_def)
  moreover have "nat (lh_n s) < NBUF" "log_start s + nat (log_size s) \<le> disksize s"
    using fit by (auto simp: log_fits_def)
  ultimately show ?thesis
    using recover_returns [OF b(1-4)] h b(5-7) by auto
qed

text \<open>A kernel that has booted on a disk with a log that recovery can read.\<close>

definition recoverable :: "'z lstate_scheme \<Rightarrow> bool" where
  "recoverable s \<longleftrightarrow> calm s \<and> pinned s {} \<and> log_dev s = ROOTDEV \<and> length (lh_block s) = LOGSIZE
     \<and> log_start s + nat (log_size s) \<le> disksize s \<and> (\<forall>n < disksize s. blk s n = memdisk s ! n)
     \<and> (let h = memdisk s ! log_start s in hdr_ok (log_start s) (log_size s) h \<and> hdr_n h < NBUF
          \<and> (\<forall>k < hdr_n h. hdr_home h k < 4294967296 \<and> hdr_home h k < disksize s))"

lemma recoverable_header:
  "recoverable s \<Longrightarrow> log_start s < disksize s \<and> log_start s + hdr_n (memdisk s ! log_start s) < disksize s
    \<and> blk s (log_start s) = memdisk s ! log_start s"
  by (auto simp: recoverable_def Let_def hdr_ok_def hdr_n_def)

lemma recoverable_recovers:
  assumes r: "recoverable s"
  shows "\<exists>t. recover_from_log s = Ok () t \<and> calm t \<and> pinned t {} \<and> lh_n t = 0
    \<and> dwrites t = dwrites s @ recover_writes (log_start s) ((!) (memdisk s))
    \<and> memdisk t = apply_writes (recover_writes (log_start s) ((!) (memdisk s))) (memdisk s)"
proof -
  note h = recoverable_header [OF r]
  have c: "calm s" "pinned s {}" "log_dev s = ROOTDEV" "length (lh_block s) = LOGSIZE"
    "log_start s + nat (log_size s) \<le> disksize s" and b: "\<And>n. n < disksize s \<Longrightarrow> blk s n = memdisk s ! n"
    and hd: "hdr_ok (log_start s) (log_size s) (blk s (log_start s))" "hdr_n (blk s (log_start s)) < NBUF"
      "\<forall>k < hdr_n (blk s (log_start s)). hdr_home (blk s (log_start s)) k < 4294967296
        \<and> hdr_home (blk s (log_start s)) k < disksize s"
    using r h by (auto simp: recoverable_def Let_def)
  obtain t where t: "recover_from_log s = Ok () t" "calm t" "pinned t {}"
    using recover_returns [OF c hd(1,3,2)] by blast
  have w: "wrote (recover_writes (log_start s) (blk s)) s t" "lh_n t = 0"
    using recover_Ok [OF calmD(1) [OF c(1)] c(3,4) hd(1) _ t(1)] hd(3) by auto
  have "recover_writes (log_start s) (blk s) = recover_writes (log_start s) ((!) (memdisk s))"
    by (rule recover_writes_cong [where len = "disksize s"]) (use b h in auto)
  with w t show ?thesis by (simp add: wrote_def)
qed

text \<open>A prefix of the writes of a recovery leaves a log with the same meaning.\<close>

lemma recover_prefix:
  fixes D0 :: "nat \<Rightarrow> bytes" and i st :: nat
  defines "W \<equiv> recover_writes st D0"
  defines "D \<equiv> upd_all (take i W) D0"
  assumes out: "\<And>k. k < hdr_n (D0 st) \<Longrightarrow> hdr_home (D0 st) k < st \<or> st + sz \<le> hdr_home (D0 st) k"
    and inj: "inj_on (hdr_home (D0 st)) {..<hdr_n (D0 st)}" and n: "hdr_n (D0 st) < sz"
    and zero: "hdr_n (put_int (D0 st) 0 0) = 0"
  shows "D st = D0 st \<or> D st = put_int (D0 st) 0 0"
    and "m < st \<or> st + sz \<le> m \<Longrightarrow> upd_all (recover_writes st D) D m = upd_all W D0 m"
proof -
  let ?N = "hdr_n (D0 st)" and ?hm = "hdr_home (D0 st)"
  let ?I = "map (\<lambda>k. (?hm k, D0 (st + k + 1))) [0..<?N]"
  have W: "W = ?I @ [(st, put_int (D0 st) 0 0)]" by (simp add: W_def recover_writes_def)
  have small: "x \<notin> ?hm ` set [0..<?N]" if "st \<le> x" "x < st + sz" for x
    using that out by force
  have I: "upd_all ?I E x = (if x \<in> ?hm ` {..<?N} then upd_all ?I D0 x else E x)" for E x
    using upd_all_map(1) [of ?hm "[0..<?N]" _ "\<lambda>k. D0 (st + k + 1)"] inj
    by (auto simp: upd_all_not_map atLeast0LessThan)
  have "(D st = D0 st \<or> D st = put_int (D0 st) 0 0)
    \<and> (m < st \<or> st + sz \<le> m \<longrightarrow> upd_all (recover_writes st D) D m = upd_all W D0 m)"
  proof (cases "i \<le> ?N")
    case True
    then have tk: "take i W = map (\<lambda>k. (?hm k, D0 (st + k + 1))) [0..<i]"
      by (simp add: W take_map)
    have sub: "?hm ` set [0..<i] \<subseteq> ?hm ` set [0..<?N]" using True by auto
    have same: "D x = D0 x" if "st \<le> x" "x < st + sz" for x
    proof -
      have "x \<notin> ?hm ` set [0..<i]" using small [OF that] sub by blast
      then show ?thesis unfolding D_def tk by (rule upd_all_not_map)
    qed
    have st: "D st = D0 st" using same n by simp
    have "recover_writes st D = W"
    proof -
      have "D (st + k + 1) = D0 (st + k + 1)" if "k < ?N" for k using that n by (intro same) auto
      then have "map (\<lambda>k. (?hm k, D (st + k + 1))) [0..<?N] = ?I" by simp
      then show ?thesis unfolding recover_writes_def W st by simp
    qed
    moreover have "upd_all W D m = upd_all W D0 m" if "m < st \<or> st + sz \<le> m"
    proof -
      have ms: "m \<noteq> st" using that n by auto
      have "m \<notin> ?hm ` {..<?N} \<Longrightarrow> D m = D0 m"
        unfolding D_def tk using sub by (intro upd_all_not_map) (auto simp: atLeast0LessThan)
      then have "upd_all ?I D m = upd_all ?I D0 m"
        using I [of D m] by (cases "m \<in> ?hm ` {..<?N}") (simp_all add: upd_all_not_map atLeast0LessThan)
      then show ?thesis using ms by (simp add: W)
    qed
    ultimately show ?thesis using st by simp
  next
    case False
    then have D: "D = upd_all W D0" by (simp add: D_def W)
    then have "D st = put_int (D0 st) 0 0" by (simp add: W)
    moreover have "m \<noteq> st" if "m < st \<or> st + sz \<le> m" using that n by auto
    ultimately show ?thesis using zero by (auto simp: recover_writes_def D [symmetric])
  qed
  then show "D st = D0 st \<or> D st = put_int (D0 st) 0 0"
    and "m < st \<or> st + sz \<le> m \<Longrightarrow> upd_all (recover_writes st D) D m = upd_all W D0 m"
    by auto
qed

subsection \<open>A machine that has booted\<close>

text \<open>A zeroed disk of 40 blocks whose log, of 4 blocks, starts at block 2; one block in the log.\<close>

definition boot_kernel :: lstate where
  "boot_kernel = \<lparr>locks = [], procs = replicate NPROC zero_proc, curproc = None, nextpid = 1,
     initproc = None, klog = [], buffers = replicate (Suc NBUF) zero_buf, memdisk = replicate 40 (replicate BSIZE 0),
     disksize = 40, dwrites = [], log_start = 2, log_size = 4, log_outstanding = 0,
     log_committing = False, log_dev = ROOTDEV, lh_n = 1, lh_block = replicate LOGSIZE 30\<rparr>"

definition running_kernel :: lstate where
  "running_kernel = started boot_kernel"

lemma boot_kernel_at_boot: "at_boot boot_kernel"
  by (simp add: at_boot_def boot_kernel_def boot_bufs_def NPROC_def)

lemma running_kernel:
  "calm running_kernel" "pinned running_kernel P" "disksize running_kernel = 40"
  "memdisk running_kernel = replicate 40 (replicate BSIZE 0)"
  "blk running_kernel n = replicate 40 (replicate BSIZE 0) ! n"
  "log_start running_kernel = 2" "log_size running_kernel = 4" "log_dev running_kernel = ROOTDEV"
  "lh_n running_kernel = 1" "lh_block running_kernel = replicate LOGSIZE 30"
  "log_outstanding running_kernel = 0" "lru running_kernel (rev [0..<NBUF])"
proof -
  note st = started_calm [OF boot_kernel_at_boot, folded running_kernel_def]
  show "calm running_kernel" "pinned running_kernel P" "lru running_kernel (rev [0..<NBUF])"
    by (rule st)+
  show "disksize running_kernel = 40" "memdisk running_kernel = replicate 40 (replicate BSIZE 0)"
    "blk running_kernel n = replicate 40 (replicate BSIZE 0) ! n"
    by (simp_all add: st(3-5)) (simp_all add: boot_kernel_def)
  note f = log_fields [OF st(6)]
  show "log_start running_kernel = 2" "log_size running_kernel = 4" "log_dev running_kernel = ROOTDEV"
    "lh_n running_kernel = 1" "lh_block running_kernel = replicate LOGSIZE 30"
    "log_outstanding running_kernel = 0"
    by (simp_all add: f boot_kernel_def)
qed

lemma running_kernel_log:
  "log_ok running_kernel" "log_fits running_kernel" "logged running_kernel = {30}"
  "get_int (memdisk running_kernel ! log_start running_kernel) 0 = 0"
proof -
  show "log_ok running_kernel" "log_fits running_kernel" "logged running_kernel = {30}"
    by (auto simp: log_ok_def log_fits_def logged_def home_def in_log_def running_kernel
        LOGSIZE_def NBUF_def MAXOPBLOCKS_def)
  show "get_int (memdisk running_kernel ! log_start running_kernel) 0 = 0"
    by (simp add: running_kernel get_int_def get32_def get16_def BSIZE_def)
qed

subsection \<open>Properties\<close>

text \<open>C1: Crash atomicity. Commit from a calm state returns; and if the machine stops after any
  number \<open>j\<close> of the block writes it makes, the kernel that boots on that disk recovers, and every
  block outside the log then has its old contents if the header was not yet written (\<open>j\<close> at most
  the number of blocks logged) and the contents the commit gives it otherwise: all or nothing.\<close>

theorem commit_crash_atomic:
  assumes c: "calm s" and ok: "log_ok s" and fit: "log_fits s" and pin: "pinned s (logged s)"
    and n: "0 < lh_n s" and clean: "get_int (memdisk s ! log_start s) 0 = 0"
  shows "\<exists>t. commit s = Ok () t \<and>
    (\<forall>j s'. rebooted (crashed j s t) s s' \<longrightarrow>
      (\<exists>t'. recover_from_log s' = Ok () t' \<and>
        (\<forall>m < disksize s. outside_log (log_start s) (log_size s) m \<longrightarrow>
          memdisk t' ! m = (if j \<le> nat (lh_n s) then memdisk s ! m else memdisk t ! m))))"
proof -
  obtain t where t: "commit s = Ok () t" using commit_returns [OF c ok fit pin] by blast
  have region: "log_start s + nat (log_size s) \<le> disksize s" using fit by (simp add: log_fits_def)
  have "\<exists>t'. recover_from_log s' = Ok () t' \<and>
      (\<forall>m < disksize s. outside_log (log_start s) (log_size s) m \<longrightarrow>
        memdisk t' ! m = (if j \<le> nat (lh_n s) then memdisk s ! m else memdisk t ! m))"
    if re: "rebooted (crashed j s t) s s'" for j s'
  proof -
    obtain t' where t': "recover_from_log s' = Ok () t'"
      using crash_recovers [OF c ok fit n clean t re] by blast
    have "booted (log_start s) (log_size s)
        (apply_writes (take j (drop (length (dwrites s)) (dwrites t))) (memdisk s)) s'"
      using re by (simp add: rebooted_def crashed_def)
    from crash_atomic_Ok [OF calmD(1) [OF c] ok n region clean t this t'] t' show ?thesis by blast
  qed
  with t show ?thesis by blast
qed

lemma commit_crash_atomic_witness:
  "\<exists>t. commit running_kernel = Ok () t \<and>
    (\<forall>j s'. rebooted (crashed j running_kernel t) running_kernel s' \<longrightarrow>
      (\<exists>t'. recover_from_log s' = Ok () t' \<and>
        (\<forall>m < disksize running_kernel. outside_log (log_start running_kernel) (log_size running_kernel) m \<longrightarrow>
          memdisk t' ! m = (if j \<le> nat (lh_n running_kernel) then memdisk running_kernel ! m
            else memdisk t ! m))))"
proof (rule commit_crash_atomic)
  show "calm running_kernel" by (rule running_kernel)
  show "pinned running_kernel (logged running_kernel)"
    using running_kernel(2) by (simp add: pinned_def)
  show "0 < lh_n running_kernel" by (simp add: running_kernel)
qed (rule running_kernel_log)+

text \<open>C2: A commit installs its transaction: every block in the log is at home with the contents
  the cache had, no other block outside the log changes, neither on the disk nor in the cache's view,
  no buffer stays dirty and the log is empty, in memory and on the disk.\<close>

theorem commit_installs:
  assumes c: "calm s" and ok: "log_ok s" and fit: "log_fits s" and pin: "pinned s (logged s)"
    and n: "0 < lh_n s"
  shows "\<exists>t. commit s = Ok () t \<and> calm t \<and> pinned t {} \<and> lh_n t = 0 \<and>
    (\<forall>m \<in> logged s. memdisk t ! m = blk s m) \<and>
    (\<forall>m. outside_log (log_start s) (log_size s) m \<longrightarrow> blk t m = blk s m) \<and>
    (\<forall>m < disksize s. outside_log (log_start s) (log_size s) m \<longrightarrow> m \<notin> logged s \<longrightarrow>
       memdisk t ! m = memdisk s ! m) \<and>
    get_int (memdisk t ! log_start s) 0 = 0"
proof -
  obtain t where t: "commit s = Ok () t" "calm t" "pinned t {}" "bstate.more t = bstate.more (s\<lparr>lh_n := 0\<rparr>)"
    using commit_returns [OF c ok fit pin] by blast
  note inv = calmD(1) [OF c]
  have st: "log_start s < disksize s" using fit ok n by (auto simp: log_fits_def log_ok_def)
  let ?st = "log_start s" and ?n = "nat (lh_n s)"
  let ?new = "\<lambda>k. blk s (home s k)"
  let ?I = "map (\<lambda>k. (home s k, ?new k)) [0..<?n]"
  note ph = commit_header [OF inv ok n st]
  have w: "wrote (commit_writes s) s t" using commit_Ok [OF inv ok n t(1)] by blast
  have dk: "disksize s = length (memdisk s)" using inv by (simp add: bio_inv_def)
  have nst: "k < ?n \<Longrightarrow> home s k \<noteq> ?st" for k using ph(6) [of k] ph(7) n by linarith
  have inst: "upd_all ?I D m = (if m \<in> logged s then blk s m else D m)" for D m
    using upd_all_map(1) [of "home s" "[0..<?n]" _ ?new] ph(5)
    by (auto simp: logged_def upd_all_not_map atLeast0LessThan)
  have out: "upd_all (commit_writes s) D m = upd_all ?I D m"
    if m: "outside_log ?st (log_size s) m" for m D
  proof -
    have "m \<noteq> ?st" "m \<notin> (\<lambda>k. ?st + k + 1) ` set [0..<?n]"
      using m ph(7) n by (auto simp: outside_log_def)
    then have "upd_all (map (\<lambda>k. (?st + k + 1, ?new k)) [0..<?n]) D m = D m"
      by (simp add: upd_all_not_map)
    then show ?thesis using \<open>m \<noteq> ?st\<close> by (simp add: commit_writes_def Let_def inst)
  qed
  have lo: "m \<in> logged s \<Longrightarrow> outside_log ?st (log_size s) m \<and> m < disksize s" for m
    using ph(6) fit by (auto simp: logged_def outside_log_def log_fits_def)
  have dt: "memdisk t ! m = upd_all (commit_writes s) ((!) (memdisk s)) m" if "m < disksize s" for m
    using w that dk by (simp add: wrote_def nth_apply_writes)
  have "get_int (memdisk t ! ?st) 0 = 0"
    using ph(4) by (simp add: dt [OF st] commit_writes_def Let_def)
  moreover have "lh_n t = 0" using log_fields [OF t(4)] by simp
  moreover have "blk t = upd_all (commit_writes s) (blk s)" using w by (simp add: wrote_def)
  ultimately show ?thesis using t out inst lo dt by auto
qed

lemma commit_installs_witness:
  "\<exists>t. commit running_kernel = Ok () t \<and> lh_n t = 0 \<and> memdisk t ! 30 = replicate BSIZE 0"
proof -
  have "pinned running_kernel (logged running_kernel)"
    using running_kernel(2) by (simp add: pinned_def)
  moreover have "0 < lh_n running_kernel" by (simp add: running_kernel)
  ultimately show ?thesis
    using commit_installs [OF running_kernel(1) running_kernel_log(1,2)]
    by (auto simp: running_kernel_log running_kernel)
qed

text \<open>C3: Recovery is idempotent. Recovery returns from every readable log, and if the machine stops
  after any number of its writes, booting and recovering again returns too and gives every block
  outside the log the contents the first recovery would have given it.\<close>

theorem recovery_idempotent:
  assumes r: "recoverable s"
  shows "\<exists>t. recover_from_log s = Ok () t \<and>
    (\<forall>i s'. rebooted (crashed i s t) s s' \<longrightarrow>
      (\<exists>t'. recover_from_log s' = Ok () t' \<and>
        (\<forall>m < disksize s. outside_log (log_start s) (log_size s) m \<longrightarrow> memdisk t' ! m = memdisk t ! m)))"
proof -
  let ?st = "log_start s" and ?old = "(!) (memdisk s)"
  let ?W = "recover_writes ?st ?old"
  obtain t where t: "recover_from_log s = Ok () t" "dwrites t = dwrites s @ ?W"
    "memdisk t = apply_writes ?W (memdisk s)" using recoverable_recovers [OF r] by blast
  have dk: "disksize s = length (memdisk s)"
    using r by (simp add: recoverable_def calm_def bio_inv_def)
  note st = recoverable_header [OF r]
  have reg: "?st + nat (log_size s) \<le> disksize s" and hd: "hdr_ok ?st (log_size s) (?old ?st)"
    "hdr_n (?old ?st) < NBUF" "\<And>k. k < hdr_n (?old ?st) \<Longrightarrow> hdr_home (?old ?st) k < 4294967296 \<and> hdr_home (?old ?st) k < disksize s"
    using r by (auto simp: recoverable_def Let_def)
  have lz: "length (?old ?st) = BSIZE" using r st by (simp add: recoverable_def calm_def bio_inv_def)
  have gz: "get_int (put_int (?old ?st) 0 0) 0 = 0"
    using lz by (intro get_int_put_int) (auto simp: BSIZE_def)
  have n: "hdr_n (?old ?st) < nat (log_size s)" and z: "hdr_n (put_int (?old ?st) 0 0) = 0"
    using hd(1) gz by (auto simp: hdr_ok_def hdr_n_def)
  have out: "k < hdr_n (?old ?st) \<Longrightarrow> hdr_home (?old ?st) k < ?st \<or> ?st + nat (log_size s) \<le> hdr_home (?old ?st) k" for k
    using hd(1) by (auto simp: hdr_ok_def)
  have inj: "inj_on (hdr_home (?old ?st)) {..<hdr_n (?old ?st)}"
    using hd(1) by (auto simp: hdr_ok_def)
  note pre = recover_prefix [where ?D0.0 = ?old and st = ?st and sz = "nat (log_size s)", OF out inj n z]
  have "\<exists>t'. recover_from_log s' = Ok () t' \<and>
      (\<forall>m < disksize s. outside_log ?st (log_size s) m \<longrightarrow> memdisk t' ! m = memdisk t ! m)"
    if re: "rebooted (crashed i s t) s s'" for i s'
  proof -
    let ?new = "upd_all (take i ?W) ?old"
    have d: "memdisk s' = apply_writes (take i ?W) (memdisk s)" and s': "calm s'" "pinned s' {}"
      "log_start s' = ?st" "log_size s' = log_size s" "log_dev s' = ROOTDEV"
      "length (lh_block s') = LOGSIZE" "disksize s' = disksize s"
      "\<forall>n < length (memdisk s'). blk s' n = memdisk s' ! n"
      using re t(2) by (auto simp: rebooted_def booted_def crashed_def)
    have D: "m < disksize s \<Longrightarrow> memdisk s' ! m = ?new m" for m using d dk by (simp add: nth_apply_writes)
    have "memdisk s' ! ?st \<in> {?old ?st, put_int (?old ?st) 0 0}"
      using pre(1) [of i] D st by auto
    moreover have "hdr_ok ?st (log_size s) x \<and> hdr_n x < NBUF
        \<and> (\<forall>k < hdr_n x. hdr_home x k < 4294967296 \<and> hdr_home x k < disksize s)"
      if "x \<in> {?old ?st, put_int (?old ?st) 0 0}" for x
      using that hd gz z n by (auto simp: hdr_ok_def)
    ultimately have hx: "hdr_ok ?st (log_size s) (memdisk s' ! ?st) \<and> hdr_n (memdisk s' ! ?st) < NBUF
        \<and> (\<forall>k < hdr_n (memdisk s' ! ?st). hdr_home (memdisk s' ! ?st) k < 4294967296
          \<and> hdr_home (memdisk s' ! ?st) k < disksize s)" by blast
    have "disksize s' = length (memdisk s')" using s'(1) by (simp add: calm_def bio_inv_def)
    then have "recoverable s'"
      using s' reg hx unfolding recoverable_def Let_def by auto
    from recoverable_recovers [OF this] obtain t' where t': "recover_from_log s' = Ok () t'"
      "memdisk t' = apply_writes (recover_writes ?st ((!) (memdisk s'))) (memdisk s')"
      using s'(3) by auto
    have len': "length (memdisk s') = disksize s" using d dk by simp
    have rw: "recover_writes ?st ((!) (memdisk s')) = recover_writes ?st ?new"
      by (rule recover_writes_cong [where len = "disksize s"])
        (use D st \<open>recoverable s'\<close> s' recoverable_header [of s'] in auto)
    have "memdisk t' ! m = memdisk t ! m" if m: "m < disksize s" "outside_log ?st (log_size s) m" for m
    proof -
      have "memdisk t' ! m = upd_all (recover_writes ?st ?new) ((!) (memdisk s')) m"
        using t'(2) [unfolded rw] m len' by (simp add: nth_apply_writes)
      also have "\<dots> = upd_all (recover_writes ?st ?new) ?new m"
        by (rule nth_upd_all_eq [where len = "disksize s"]) (use D m in auto)
      also have "\<dots> = upd_all ?W ?old m"
        using pre(2) [of m i] m(2) by (simp add: outside_log_def)
      finally show ?thesis using m dk t(3) by (simp add: nth_apply_writes)
    qed
    with t'(1) show ?thesis by blast
  qed
  with t(1) show ?thesis by blast
qed

lemma recovery_idempotent_witness:
  "\<exists>t. recover_from_log running_kernel = Ok () t \<and>
    (\<forall>i s'. rebooted (crashed i running_kernel t) running_kernel s' \<longrightarrow>
      (\<exists>t'. recover_from_log s' = Ok () t' \<and>
        (\<forall>m < disksize running_kernel. outside_log (log_start running_kernel) (log_size running_kernel) m
          \<longrightarrow> memdisk t' ! m = memdisk t ! m)))"
proof (rule recovery_idempotent)
  have "get_int (replicate BSIZE 0) 0 = 0"
    using running_kernel_log(4) by (simp add: running_kernel)
  then show "recoverable running_kernel"
    by (auto simp: recoverable_def running_kernel Let_def hdr_ok_def hdr_n_def LOGSIZE_def NBUF_def
        MAXOPBLOCKS_def)
qed

end
