(* ===== verification/Store.thy ===== *)
theory Store
  imports Log_Total
begin

text \<open>
  The interface between the block layer and the file system: a store of blocks that are read into
  buffers, changed there, given to the log and released.  The locale \<open>block_store\<close> has the
  operations the file system calls and the laws they obey; it is interpreted on \<open>bread\<close>,
  \<open>log_write\<close> and \<open>brelse\<close> of the model.
\<close>

subsection \<open>log\_write\<close>

lemma log_slot_cases:
  "log_slot n bl b < n \<and> bl ! log_slot n bl b = b \<or> log_slot n bl b = n \<and> b \<notin> (!) bl ` {..<n}"
  by (auto simp: log_slot_def find_upt_Some find_upt_None split: option.splits)

lemma log_write_state:
  assumes "log_write i s = Ok u t"
  shows "lh_n s < int LOGSIZE \<and> lh_n s < log_size s - 1 \<and> 1 \<le> log_outstanding s \<and>
    LogLock \<notin> set (locks s) \<and>
    t = mark_dirty i (s\<lparr>lh_block := (lh_block s)[log_slot (nat (lh_n s)) (lh_block s) (b_blockno (bufn s i))
        := b_blockno (bufn s i)],
      lh_n := (if int (log_slot (nat (lh_n s)) (lh_block s) (b_blockno (bufn s i))) = lh_n s
        then lh_n s + 1 else lh_n s)\<rparr>)"
  using assms
  by (auto simp: log_write_def run_iff acquire_Ok_iff release_Ok_iff mark_dirty_def upd_buf_def bufn_def
      split: if_splits)

lemma log_write_Ok:
  assumes inv: "bio_inv s" and ok: "log_ok s" and hold: "holds s i n"
    and n: "\<not> in_log s n" "n < 4294967296" and run: "log_write i s = Ok u t"
  shows "bio_inv t \<and> log_ok t \<and> holds t i n \<and> settled t i \<and> blk t = blk s \<and> bframe {i} s t
    \<and> memdisk t = memdisk s \<and> dwrites t = dwrites s \<and> procs t = procs s \<and> nextpid t = nextpid s
    \<and> initproc t = initproc s \<and> log_start t = log_start s \<and> log_size t = log_size s
    \<and> log_dev t = log_dev s \<and> log_outstanding t = log_outstanding s
    \<and> log_committing t = log_committing s \<and> lstate.more t = lstate.more s
    \<and> logged t = insert n (logged s)"
proof -
  let ?k = "log_slot (nat (lh_n s)) (lh_block s) n"
  define v where "v = s\<lparr>lh_block := (lh_block s)[?k := n], lh_n := (if int ?k = lh_n s then lh_n s + 1 else lh_n s)\<rparr>"
  have bn: "b_blockno (bufn s i) = n" using hold by (simp add: holds_def cached_def)
  note r = log_write_state [OF run, unfolded bn]
  then have t: "t = mark_dirty i v" by (simp add: v_def)
  have v: "bio_inv v" "holds v i n" "blk v = blk s" "bframe {i} v t = bframe {i} s t"
    using inv hold by (simp_all add: v_def bframe_def)
  note m = mark_dirty_held [OF v(1,2), folded t]
  have ts: "home t = home v" "lh_n t = lh_n v" "log_size t = log_size s" "log_start t = log_start s"
    "log_dev t = log_dev s" "lh_block t = lh_block v" "in_log t = in_log s"
    by (auto simp: t v_def mark_dirty_def upd_buf_def home_def in_log_def fun_eq_iff)
  from ok have l: "length (lh_block s) = LOGSIZE" "0 \<le> lh_n s"
    and d: "\<And>j k. j < nat (lh_n s) \<Longrightarrow> k < nat (lh_n s) \<Longrightarrow> lh_block s ! j = lh_block s ! k \<Longrightarrow> j = k"
    and o: "\<And>k. k < nat (lh_n s) \<Longrightarrow> \<not> in_log s (lh_block s ! k) \<and> lh_block s ! k < 4294967296"
    by (auto simp: log_ok_def home_def)
  have nl: "nat (lh_n s) < LOGSIZE" using r l by linarith
  from log_slot_cases [of "nat (lh_n s)" "lh_block s" n]
  have "log_ok t \<and> logged t = insert n (logged s)"
  proof
    assume k: "?k < nat (lh_n s) \<and> lh_block s ! ?k = n"
    then have "?k < length (lh_block s)" using nl l by simp
    with k have "(lh_block s)[?k := n] = lh_block s" by (simp add: list_update_same_conv)
    with k have "lh_block v = lh_block s" "lh_n v = lh_n s"
      using l by (auto simp: v_def)
    moreover have "n \<in> logged s"
      using k by (auto simp: logged_def home_def image_iff intro!: bexI [of _ ?k])
    ultimately show ?thesis
      using ok by (auto simp: log_ok_def logged_def ts home_def insert_absorb)
  next
    assume k: "?k = nat (lh_n s) \<and> n \<notin> (!) (lh_block s) ` {..<nat (lh_n s)}"
    then have b: "lh_block v = (lh_block s)[nat (lh_n s) := n]" and nn: "lh_n v = lh_n s + 1"
      using l by (auto simp: v_def)
    have vb: "j < nat (lh_n s + 1) \<Longrightarrow> lh_block v ! j = (if j = nat (lh_n s) then n else lh_block s ! j)" for j
      using nl l by (auto simp: b nth_list_update)
    have new: "j < nat (lh_n s) \<Longrightarrow> lh_block s ! j \<noteq> n" for j using k by auto
    have sn: "nat (lh_n s + 1) = Suc (nat (lh_n s))" using l by linarith
    have "log_ok t"
      unfolding log_ok_def ts nn
    proof (intro conjI allI impI)
      show "log_dev s = ROOTDEV" using ok by (simp add: log_ok_def)
      show "length (lh_block v) = LOGSIZE" using l by (simp add: b)
      show "0 \<le> lh_n s + 1" "lh_n s + 1 \<le> int LOGSIZE" "lh_n s + 1 + 1 \<le> log_size s" using r l by auto
    next
      fix j k' assume jk: "j < nat (lh_n s + 1)" "k' < nat (lh_n s + 1)" "home v j = home v k'"
      have "(if j = nat (lh_n s) then n else lh_block s ! j)
          = (if k' = nat (lh_n s) then n else lh_block s ! k')"
        using jk(3) vb [OF jk(1)] vb [OF jk(2)] by (simp only: home_def)
      moreover have "j < nat (lh_n s) \<or> j = nat (lh_n s)" "k' < nat (lh_n s) \<or> k' = nat (lh_n s)"
        using jk(1,2) by (auto simp: sn)
      ultimately show "j = k'"
        using d [of j k'] new [of j] new [of k'] by (metis less_irrefl)
    next
      fix k' assume k': "k' < nat (lh_n s + 1)"
      then show "\<not> in_log s (home v k')" "home v k' < 4294967296"
        using o [of k'] n vb [OF k'] by (auto simp: home_def sn less_Suc_eq)
    qed
    moreover have "logged t = insert n (logged s)"
    proof -
      have "logged t = home v ` insert (nat (lh_n s)) {..<nat (lh_n s)}"
        by (simp add: logged_def ts nn sn lessThan_Suc)
      also have "\<dots> = insert n (home s ` {..<nat (lh_n s)})"
        using vb by (auto simp: home_def sn less_Suc_eq image_iff)
      finally show ?thesis by (simp add: logged_def)
    qed
    ultimately show ?thesis by blast
  qed
  moreover have "memdisk t = memdisk s \<and> dwrites t = dwrites s \<and> procs t = procs s \<and> nextpid t = nextpid s
    \<and> initproc t = initproc s \<and> log_outstanding t = log_outstanding s
    \<and> log_committing t = log_committing s \<and> lstate.more t = lstate.more s"
    by (simp add: t v_def mark_dirty_def upd_buf_def)
  ultimately show ?thesis using m v ts by simp
qed

subsection \<open>The block store\<close>

locale block_store =
  fixes inv :: "'s \<Rightarrow> bool"
    and view :: "'s \<Rightarrow> nat \<Rightarrow> bytes"
    and has :: "'s \<Rightarrow> nat \<Rightarrow> nat \<Rightarrow> bool"
    and busy :: "'s \<Rightarrow> nat \<Rightarrow> bool"
    and frame :: "nat set \<Rightarrow> 's \<Rightarrow> 's \<Rightarrow> bool"
    and writable :: "'s \<Rightarrow> nat \<Rightarrow> bool"
    and get :: "'s \<Rightarrow> nat \<Rightarrow> bytes"
    and put :: "nat \<Rightarrow> bytes \<Rightarrow> 's \<Rightarrow> 's"
    and take_block :: "nat \<Rightarrow> 's \<Rightarrow> ('s, nat) outcome"
    and log_block :: "nat \<Rightarrow> 's \<Rightarrow> ('s, unit) outcome"
    and drop_block :: "nat \<Rightarrow> 's \<Rightarrow> ('s, unit) outcome"
  assumes take_law: "inv s \<Longrightarrow> take_block n s = Ok i t \<Longrightarrow>
      inv t \<and> has t i n \<and> view t = view s \<and> frame {} s t \<and> \<not> busy s i \<and> length (view s n) = BSIZE"
    and put_law: "inv s \<Longrightarrow> has s i n \<Longrightarrow> length d = BSIZE \<Longrightarrow> log_block i (put i d s) = Ok u t \<Longrightarrow>
      writable s n \<Longrightarrow> inv t \<and> has t i n \<and> view t = (view s)(n := d) \<and> frame {i} s t"
    and drop_law: "inv s \<Longrightarrow> has s i n \<Longrightarrow> drop_block i s = Ok u t \<Longrightarrow>
      inv t \<and> view t = view s \<and> frame {i} s t"
    and has_get: "inv s \<Longrightarrow> has s i n \<Longrightarrow> get s i = view s n"
    and has_busy: "has s i n \<Longrightarrow> busy s i"
    and has_inj: "inv s \<Longrightarrow> has s i n \<Longrightarrow> has s j n \<Longrightarrow> i = j"
    and frame_refl: "frame {} s s"
    and frame_trans: "frame X s t \<Longrightarrow> frame Y t r \<Longrightarrow> frame (X \<union> Y) s r"
    and frame_has: "frame X s t \<Longrightarrow> has s i n \<Longrightarrow> i \<notin> X \<Longrightarrow> has t i n"
    and frame_busy: "frame X s t \<Longrightarrow> busy s i \<Longrightarrow> i \<notin> X \<Longrightarrow> busy t i"
    and frame_new: "frame (insert i X) s t \<Longrightarrow> \<not> busy s i \<Longrightarrow> frame X s t"
    and frame_writable: "frame X s t \<Longrightarrow> writable t n = writable s n"
begin

text \<open>Read a block and let it go.\<close>

lemma read_block:
  assumes inv: "inv s" and t: "take_block n s = Ok i s1" and d: "drop_block i s1 = Ok u t"
  shows "inv t \<and> view t = view s \<and> frame {} s t \<and> get s1 i = view s n \<and> length (view s n) = BSIZE"
proof -
  note r = take_law [OF inv t]
  then have i1: "inv s1" and h: "has s1 i n" by auto
  note q = drop_law [OF i1 h d]
  have "frame ({} \<union> {i}) s t" by (rule frame_trans) (use r q in auto)
  with r have "frame {} s t" by (auto intro: frame_new)
  with r q has_get [OF i1 h] show ?thesis by simp
qed

text \<open>Read a block, change it, give it to the log and let it go.\<close>

lemma update_block:
  assumes inv: "inv s" and t: "take_block n s = Ok i s1" and w: "writable s n"
    and f: "\<And>d. length d = BSIZE \<Longrightarrow> length (f d) = BSIZE"
    and l: "log_block i (put i (f (get s1 i)) s1) = Ok u s2" and d: "drop_block i s2 = Ok v t"
  shows "inv t \<and> view t = (view s)(n := f (view s n)) \<and> frame {} s t"
proof -
  note r = take_law [OF inv t]
  then have i1: "inv s1" and h: "has s1 i n" by auto
  have g: "get s1 i = view s n" using has_get [OF i1 h] r by simp
  have w1: "writable s1 n" using frame_writable [of "{}" s s1 n] r w by simp
  have "length (f (get s1 i)) = BSIZE" using f r g by simp
  note p = put_law [OF i1 h this l w1]
  then have i2: "inv s2" and h2: "has s2 i n" by auto
  note q = drop_law [OF i2 h2 d]
  have "frame ({} \<union> {i} \<union> {i}) s t"
    by (rule frame_trans [OF frame_trans]) (use r p q in auto)
  with r have "frame {} s t" by (auto intro: frame_new)
  with r p q g show ?thesis by simp
qed

text \<open>Steps in sequence while a buffer is held.\<close>

lemma frame_trans0: "frame {} s t \<Longrightarrow> frame {} t r \<Longrightarrow> frame {} s r"
  using frame_trans [of "{}" s t "{}" r] by simp

end

definition fs_inv :: "'z lstate_scheme \<Rightarrow> bool" where
  "fs_inv s \<longleftrightarrow> bio_inv s \<and> log_ok s"

definition has_block :: "'z lstate_scheme \<Rightarrow> nat \<Rightarrow> nat \<Rightarrow> bool" where
  "has_block s i n \<longleftrightarrow> holds s i n \<and> settled s i"

definition buf_busy :: "'z lstate_scheme \<Rightarrow> nat \<Rightarrow> bool" where
  "buf_busy s i \<longleftrightarrow> i < NBUF \<and> sl_locked (b_lock (bufn s i))"

text \<open>
  What every file system operation inside a transaction leaves alone: the disk, other processes'
  buffers, the spin locks, the log's geometry and the state of the higher layers.
\<close>

definition txn_frame :: "nat set \<Rightarrow> 'z lstate_scheme \<Rightarrow> 'z lstate_scheme \<Rightarrow> bool" where
  "txn_frame X s t \<longleftrightarrow> bframe X s t \<and> memdisk t = memdisk s \<and> dwrites t = dwrites s
     \<and> map p_pid (procs t) = map p_pid (procs s) \<and> nextpid t = nextpid s \<and> initproc t = initproc s
     \<and> log_start t = log_start s \<and> log_size t = log_size s \<and> log_dev t = log_dev s
     \<and> log_outstanding t = log_outstanding s \<and> log_committing t = log_committing s
     \<and> logged s \<subseteq> logged t \<and> lstate.more t = lstate.more s"

definition blk_writable :: "'z lstate_scheme \<Rightarrow> nat \<Rightarrow> bool" where
  "blk_writable s n \<longleftrightarrow> \<not> in_log s n \<and> n < 4294967296"

lemma txn_frame_more:
  fixes s t :: "'z lstate_scheme"
  assumes b: "bframe X s t" "memdisk t = memdisk s" "dwrites t = dwrites s"
    "map p_pid (procs t) = map p_pid (procs s)" "nextpid t = nextpid s" "initproc t = initproc s"
    and m: "bstate.more t = bstate.more s"
  shows "txn_frame X s t \<and> log_ok t = log_ok s"
proof -
  have "lstate.more t = lstate.more s" using m by (cases s; cases t) simp
  then show ?thesis
    using b log_fields [OF m] log_ok_cong [OF m] by (simp add: txn_frame_def logged_def)
qed

interpretation fsb: block_store fs_inv blk has_block buf_busy txn_frame blk_writable
    "\<lambda>s i. b_data (bufn s i)" set_data "bread ROOTDEV" log_write brelse
proof
  fix s t :: "'z lstate_scheme" and n i
  assume s: "fs_inv s" "bread ROOTDEV n s = Ok i t"
  then have b: "bio_inv s" by (simp add: fs_inv_def)
  note r = bread_Ok [OF b s(2)]
  have "txn_frame {} s t \<and> log_ok t = log_ok s" by (rule txn_frame_more) (use r in auto)
  with r s length_blk [OF b] show "fs_inv t \<and> has_block t i n \<and> blk t = blk s \<and> txn_frame {} s t
    \<and> \<not> buf_busy s i \<and> length (blk s n) = BSIZE"
    by (simp add: fs_inv_def has_block_def buf_busy_def)
next
  fix s t :: "'z lstate_scheme" and n i d u
  assume s: "fs_inv s" "has_block s i n" "length d = BSIZE" "log_write i (set_data i d s) = Ok u t"
    "blk_writable s n"
  then have b: "bio_inv s" "log_ok s" "holds s i n" by (simp_all add: fs_inv_def has_block_def)
  have m: "bstate.more (set_data i d s) = bstate.more s" by simp
  note p = set_data_held [OF b(1,3) s(3)]
  have "log_ok (set_data i d s)" "\<not> in_log (set_data i d s) n" "n < 4294967296"
    using log_ok_cong [OF m] b s(5) by (simp_all add: blk_writable_def)
  note q = log_write_Ok [OF _ this(1) _ this(2,3) s(4)]
  from p have p': "bio_inv (set_data i d s)" "holds (set_data i d s) i n" by auto
  note q = q [OF p']
  have "bframe ({i} \<union> {i}) s t" by (rule bframe_trans) (use p q in auto)
  moreover have "logged (set_data i d s) = logged s" by (simp add: logged_def log_ok_cong [OF m] log_fields [OF m])
  moreover have "lstate.more (set_data i d s) = lstate.more s" by (simp add: set_data_def upd_buf_def)
  ultimately show "fs_inv t \<and> has_block t i n \<and> blk t = (blk s)(n := d) \<and> txn_frame {i} s t"
    using p q by (auto simp: fs_inv_def has_block_def txn_frame_def log_fields [OF m])
next
  fix s t :: "'z lstate_scheme" and n i u
  assume s: "fs_inv s" "has_block s i n" "brelse i s = Ok u t"
  then have b: "bio_inv s" "log_ok s" "holds s i n" "settled s i"
    by (simp_all add: fs_inv_def has_block_def)
  note q = brelse_Ok [OF b(1,3,4) s(3)]
  have "txn_frame {i} s t \<and> log_ok t = log_ok s" by (rule txn_frame_more) (use q in auto)
  with q b show "fs_inv t \<and> blk t = blk s \<and> txn_frame {i} s t"
    by (simp add: fs_inv_def)
next
  fix s :: "'z lstate_scheme" and n i j
  show "fs_inv s \<Longrightarrow> has_block s i n \<Longrightarrow> b_data (bufn s i) = blk s n"
    by (simp add: fs_inv_def has_block_def holds_blk)
  show "has_block s i n \<Longrightarrow> buf_busy s i"
    by (simp add: has_block_def buf_busy_def holds_def cached_def)
  show "fs_inv s \<Longrightarrow> has_block s i n \<Longrightarrow> has_block s j n \<Longrightarrow> i = j"
    using cached_inj [of s i n j] by (simp add: fs_inv_def has_block_def holds_def)
  show "txn_frame {} s s" by (simp add: txn_frame_def)
next
  fix s t r :: "'z lstate_scheme" and X Y
  show "txn_frame X s t \<Longrightarrow> txn_frame Y t r \<Longrightarrow> txn_frame (X \<union> Y) s r"
    using bframe_trans [of X s t Y r] by (auto simp: txn_frame_def)
next
  fix s t :: "'z lstate_scheme" and X n i
  show "txn_frame X s t \<Longrightarrow> has_block s i n \<Longrightarrow> i \<notin> X \<Longrightarrow> has_block t i n"
    using holds_frame [of s i n X t] settled_frame [of s i n X t]
    by (simp add: txn_frame_def has_block_def)
  show "txn_frame X s t \<Longrightarrow> buf_busy s i \<Longrightarrow> i \<notin> X \<Longrightarrow> buf_busy t i"
    using bframe_locked [of X s t i] by (simp add: txn_frame_def buf_busy_def)
  show "txn_frame (insert i X) s t \<Longrightarrow> \<not> buf_busy s i \<Longrightarrow> txn_frame X s t"
    by (auto simp: txn_frame_def bframe_def buf_busy_def)
  show "txn_frame X s t \<Longrightarrow> blk_writable t n = blk_writable s n"
    by (simp add: txn_frame_def blk_writable_def in_log_def)
qed

end
