(* ===== verification/Txn_Claims.thy ===== *)
theory Txn_Claims
  imports Log_Claims Store
begin

text \<open>
  What \<open>begin_op\<close> reserves: the file system calls that are open share the log so that none of them
  runs out of room in it.  \<open>txn_run s bs\<close> says that \<open>s\<close> can be reached by calls that begin, write
  and end, with the blocks in \<open>bs\<close> that each open call may still add to the log; a call may write
  \<open>MAXOPBLOCKS\<close> different blocks, and writes of a block that is in the log already are free.
\<close>

definition same_log :: "'z lstate_scheme \<Rightarrow> 'z lstate_scheme \<Rightarrow> bool" where
  "same_log s t \<longleftrightarrow> lh_n t = lh_n s \<and> lh_block t = lh_block s \<and> log_size t = log_size s
     \<and> log_outstanding t = log_outstanding s \<and> log_committing t = log_committing s"

inductive txn_run :: "'z lstate_scheme \<Rightarrow> nat list \<Rightarrow> bool" where
  start: "lh_n s = 0 \<Longrightarrow> log_outstanding s = 0 \<Longrightarrow> int LOGSIZE < log_size s \<Longrightarrow> txn_run s []"
| begins: "txn_run s bs \<Longrightarrow> begin_op s = Ok () t \<Longrightarrow> txn_run t (MAXOPBLOCKS # bs)"
| writes: "txn_run s bs \<Longrightarrow> i < length bs \<Longrightarrow> 0 < bs ! i \<Longrightarrow> log_write b s = Ok () t \<Longrightarrow>
    txn_run t (bs[i := (if lh_n t = lh_n s then bs ! i else bs ! i - 1)])"
| ends: "txn_run s bs \<Longrightarrow> i < length bs \<Longrightarrow> bio_inv s \<Longrightarrow> log_ok s \<Longrightarrow> end_op s = Ok () t \<Longrightarrow>
    txn_run t (take i bs @ drop (Suc i) bs)"
| elsewhere: "txn_run s bs \<Longrightarrow> same_log s t \<Longrightarrow> txn_run t bs"

definition budgets :: "'z lstate_scheme \<Rightarrow> nat list \<Rightarrow> bool" where
  "budgets s bs \<longleftrightarrow> log_outstanding s = int (length bs) \<and> (\<forall>b \<in> set bs. b \<le> MAXOPBLOCKS)
     \<and> 0 \<le> lh_n s \<and> lh_n s + int (sum_list bs) \<le> int LOGSIZE \<and> int LOGSIZE < log_size s"

lemma sum_list_bounded: "(\<forall>b \<in> set bs. b \<le> k) \<Longrightarrow> sum_list bs \<le> length bs * (k::nat)"
  by (induction bs) auto

lemma sum_list_update_less:
  "i < length bs \<Longrightarrow> 0 < bs ! i \<Longrightarrow> sum_list (bs[i := bs ! i - 1]) + 1 = sum_list (bs :: nat list)"
  by (induction bs arbitrary: i) (auto split: nat.splits simp: nth_Cons)

lemma sum_list_remove: "i < length bs \<Longrightarrow> sum_list (take i bs @ drop (Suc i) bs) \<le> sum_list (bs :: nat list)"
  by (subst (3) append_take_drop_id [symmetric, of _ i]) (simp add: Cons_nth_drop_Suc [symmetric])

lemma begin_op_Ok:
  assumes "begin_op s = Ok () t"
  shows "t = s\<lparr>log_outstanding := log_outstanding s + 1\<rparr>" and "\<not> log_committing s"
    and "lh_n s + (log_outstanding s + 1) * int MAXOPBLOCKS \<le> int LOGSIZE"
  using assms by (auto simp: begin_op_def run_iff acquire_Ok_iff release_Ok_iff split: if_splits)

lemma end_op_Ok:
  assumes inv: "bio_inv s" and ok: "log_ok s" and run: "end_op s = Ok () t"
  shows "log_outstanding t = log_outstanding s - 1" "log_size t = log_size s"
    and "lh_n t = (if log_outstanding s = 1 then 0 else lh_n s)"
proof -
  let ?u = "s\<lparr>log_outstanding := log_outstanding s - 1\<rparr>"
  have "log_outstanding t = log_outstanding s - 1 \<and> log_size t = log_size s
      \<and> lh_n t = (if log_outstanding s = 1 then 0 else lh_n s)"
  proof (cases "log_outstanding s = 1")
    case False
    with run show "log_outstanding t = log_outstanding s - 1 \<and> log_size t = log_size s
        \<and> lh_n t = (if log_outstanding s = 1 then 0 else lh_n s)"
      by (auto simp: end_op_def run_iff acquire_Ok_iff release_Ok_iff wakeup_Ok_iff wakeup1_def)
  next
    case True
    let ?v = "?u\<lparr>log_committing := True\<rparr>"
    from run True obtain w where w: "commit ?v = Ok () w" and t: "t = wakeup1 ChLog (w\<lparr>log_committing := False\<rparr>)"
      by (auto simp: end_op_def run_iff acquire_Ok_iff release_Ok_iff wakeup_Ok_iff wakeup1_def)
    have "bio_inv ?v" using inv by (simp add: bio_inv_more [of ?v s])
    moreover have "log_ok ?v" using ok by (simp add: log_ok_def home_def in_log_def)
    ultimately have "lh_n w = 0 \<and> log_size w = log_size s \<and> log_outstanding w = log_outstanding s - 1"
    proof (cases "0 < lh_n s")
      case True
      then have "bstate.more w = bstate.more (?v\<lparr>lh_n := 0\<rparr>)"
        using commit_Ok [OF \<open>bio_inv ?v\<close> \<open>log_ok ?v\<close> _ w] by simp
      from log_fields [OF this] show ?thesis by simp
    next
      case False
      then have "w = ?v" "lh_n s = 0" using w ok by (auto simp: commit_def log_ok_def)
      then show ?thesis by simp
    qed
    then show "log_outstanding t = log_outstanding s - 1 \<and> log_size t = log_size s
        \<and> lh_n t = (if log_outstanding s = 1 then 0 else lh_n s)"
      using True by (simp add: t wakeup1_def)
  qed
  then show "log_outstanding t = log_outstanding s - 1" "log_size t = log_size s"
    and "lh_n t = (if log_outstanding s = 1 then 0 else lh_n s)" by auto
qed

lemma txn_run_budgets: "txn_run s bs \<Longrightarrow> budgets s bs"
proof (induction rule: txn_run.induct)
  case (start s)
  then show ?case by (simp add: budgets_def)
next
  case (begins s bs t)
  note t = begin_op_Ok [OF begins.hyps(2)]
  have "int (sum_list bs) \<le> int (length bs * MAXOPBLOCKS)"
    using begins.IH sum_list_bounded [of bs MAXOPBLOCKS] unfolding budgets_def of_nat_le_iff by blast
  then show ?case using begins.IH t by (auto simp: budgets_def algebra_simps)
next
  case (writes s bs i b t)
  note w = log_write_state [OF writes.hyps(4)]
  have t: "log_outstanding t = log_outstanding s" "log_size t = log_size s"
    "lh_n t = lh_n s \<or> lh_n t = lh_n s + 1"
    using w by (auto simp: mark_dirty_def upd_buf_def)
  have mem: "b \<in> set (bs[i := bs ! i - 1]) \<Longrightarrow> b \<le> MAXOPBLOCKS" for b
    using set_update_subset_insert [of bs i "bs ! i - 1"] writes.IH nth_mem [OF writes.hyps(2)]
    by (auto simp: budgets_def dest!: subsetD)
  show ?case
    using t(3) writes.IH t(1,2) mem sum_list_update_less [OF writes.hyps(2,3)]
    by (auto simp: budgets_def)
next
  case (ends s bs i t)
  note e = end_op_Ok [OF ends.hyps(3,4,5)]
  have "set (take i bs @ drop (Suc i) bs) \<subseteq> set bs"
    using set_take_subset [of i bs] set_drop_subset [of "Suc i" bs] by auto
  then have "b \<in> set (take i bs @ drop (Suc i) bs) \<Longrightarrow> b \<le> MAXOPBLOCKS" for b
    using ends.IH unfolding budgets_def by blast
  moreover have "int (sum_list (take i bs @ drop (Suc i) bs)) \<le> int (sum_list bs)"
    using sum_list_remove [OF ends.hyps(2)] by simp
  moreover have "int (length (take i bs @ drop (Suc i) bs)) = int (length bs) - 1"
    using ends.hyps(2) by simp
  ultimately show ?case
    using ends.IH e by (auto simp: budgets_def simp del: sum_list_append length_append)
next
  case (elsewhere s bs t)
  then show ?case by (simp add: budgets_def same_log_def)
qed

subsection \<open>Properties\<close>

text \<open>C4: The log never runs out. However many calls are open and however they interleave, in every
  state they can reach a call that \<open>begin_op\<close> let in and that has written fewer than
  \<open>MAXOPBLOCKS\<close> new blocks can write another one: \<open>log_write\<close> returns without a panic, adds at most
  one block to the header and leaves the header within its array. (The log must have room for
  \<open>LOGSIZE\<close> blocks and its header.)\<close>

theorem log_write_within_budget:
  assumes "txn_run s bs" and "i < length bs" and "0 < bs ! i" and "LogLock \<notin> set (locks s)"
  shows "\<exists>t. log_write b s = Ok () t \<and> lh_n t \<le> int LOGSIZE
    \<and> (lh_n t = lh_n s \<or> lh_n t = lh_n s + 1)"
proof -
  have b: "budgets s bs" by (rule txn_run_budgets [OF assms(1)])
  have "bs ! i \<le> sum_list bs" using assms(2) by (simp add: elem_le_sum_list)
  then have n: "lh_n s < int LOGSIZE" "lh_n s < log_size s - 1" "1 \<le> log_outstanding s"
    using b assms(2,3) by (auto simp: budgets_def)
  then have "\<exists>t. log_write b s = Ok () t"
    using assms(4) by (auto simp: log_write_def release_Ok_iff mark_dirty_def upd_buf_def)
  then obtain t where t: "log_write b s = Ok () t" by blast
  have "lh_n t = lh_n s \<or> lh_n t = lh_n s + 1"
    using log_write_state [OF t] by (auto simp: mark_dirty_def upd_buf_def)
  with t n show ?thesis by auto
qed

lemma log_write_within_budget_witness:
  "\<exists>t. log_write 3 (boot_kernel\<lparr>lh_n := 0, log_size := 40, log_outstanding := 1\<rparr>) = Ok () t
    \<and> lh_n t \<le> int LOGSIZE"
proof -
  let ?s = "boot_kernel\<lparr>lh_n := 0, log_size := 40\<rparr>"
  have "txn_run ?s []"
    by (rule start) (simp_all add: boot_kernel_def LOGSIZE_def MAXOPBLOCKS_def)
  moreover have "begin_op ?s = Ok () (?s\<lparr>log_outstanding := 1\<rparr>)"
    by (simp add: begin_op_def boot_kernel_def LOGSIZE_def MAXOPBLOCKS_def)
  ultimately have "txn_run (?s\<lparr>log_outstanding := 1\<rparr>) [MAXOPBLOCKS]" by (rule begins)
  from log_write_within_budget [OF this, of 0 3] show ?thesis
    by (auto simp: MAXOPBLOCKS_def boot_kernel_def)
qed

end
