(* ===== verification/Fs.thy ===== *)
theory Fs
  imports Store Kstring
begin

text \<open>
  The file system, fs.c: the block allocator, the inodes, their contents, directories and path
  names.  In-memory inodes are named by their index in \<open>icache\<close>, with \<open>None\<close> for a null pointer;
  the device switch, a table of function pointers that the device drivers fill in, is an argument
  of \<open>readi\<close> and \<open>writei\<close>.  Block numbers, sizes and offsets are the natural numbers below
  \<open>2^32\<close> that the code's \<open>uint\<close>s hold, with the wrap-around written out where the code tests for it.
\<close>

subsection \<open>fs.h, stat.h, file.h\<close>

definition ROOTINO :: nat where "ROOTINO = 1"
definition NDIRECT :: nat where "NDIRECT = 12"
definition NINDIRECT :: nat where "NINDIRECT = BSIZE div 4"
definition MAXFILE :: nat where "MAXFILE = NDIRECT + NINDIRECT"
definition DINODE_SIZE :: nat where "DINODE_SIZE = 64"
definition IPB :: nat where "IPB = BSIZE div DINODE_SIZE"
definition BPB :: nat where "BPB = BSIZE * 8"
definition DIRSIZ :: nat where "DIRSIZ = 14"
definition DIRENT_SIZE :: nat where "DIRENT_SIZE = 16"
definition T_DIR :: int where "T_DIR = 1"
definition T_FILE :: int where "T_FILE = 2"
definition T_DEV :: int where "T_DEV = 3"

definition IBLOCK :: "nat \<Rightarrow> superblock \<Rightarrow> nat" where
  "IBLOCK i sb = i div IPB + sb_inodestart sb"

definition BBLOCK :: "nat \<Rightarrow> superblock \<Rightarrow> nat" where
  "BBLOCK b sb = b div BPB + sb_bmapstart sb"

text \<open>The on-disk inode.\<close>

record dinode =
  d_type :: int
  d_major :: int
  d_minor :: int
  d_nlink :: int
  d_size :: nat
  d_addrs :: "nat list"

definition get_dinode :: "bytes \<Rightarrow> nat \<Rightarrow> dinode" where
  "get_dinode d o1 = \<lparr>d_type = get_short d o1, d_major = get_short d (o1 + 2),
     d_minor = get_short d (o1 + 4), d_nlink = get_short d (o1 + 6), d_size = get32 d (o1 + 8),
     d_addrs = map (\<lambda>k. get32 d (o1 + 12 + 4 * k)) [0..<NDIRECT + 1]\<rparr>"

definition put_dinode :: "nat \<Rightarrow> dinode \<Rightarrow> bytes \<Rightarrow> bytes" where
  "put_dinode o1 x d =
     (let d = put_short d o1 (d_type x);
          d = put_short d (o1 + 2) (d_major x);
          d = put_short d (o1 + 4) (d_minor x);
          d = put_short d (o1 + 6) (d_nlink x);
          d = put32 d (o1 + 8) (d_size x)
      in fold (\<lambda>k d. put32 d (o1 + 12 + 4 * k) (d_addrs x ! k)) [0..<NDIRECT + 1] d)"

text \<open>The inode in memory, and the stat structure.\<close>

record inode =
  i_dev :: nat
  i_inum :: nat
  i_ref :: int
  i_lock :: sleeplock
  i_valid :: bool
  i_type :: int
  i_major :: int
  i_minor :: int
  i_nlink :: int
  i_size :: nat
  i_addrs :: "nat list"

record statinfo =
  st_type :: int
  st_dev :: nat
  st_ino :: nat
  st_nlink :: int
  st_size :: nat

record fstate = lstate +
  fs_sb :: superblock
  icache :: "inode list"

type_synonym ('z, 'a) fop = "'z fstate_scheme \<Rightarrow> ('z fstate_scheme, 'a) outcome"

definition ino :: "'z fstate_scheme \<Rightarrow> nat \<Rightarrow> inode" where
  "ino s ip = icache s ! ip"

definition upd_ino :: "nat \<Rightarrow> (inode \<Rightarrow> inode) \<Rightarrow> 'z fstate_scheme \<Rightarrow> 'z fstate_scheme" where
  "upd_ino ip f s = s\<lparr>icache := (icache s)[ip := f (icache s ! ip)]\<rparr>"

text \<open>
  The device switch: for a major number, \<open>read\<close> gives the return value and the bytes stored in
  the caller's buffer.
\<close>

record 's devsw =
  dev_read :: "int \<Rightarrow> (nat \<Rightarrow> int \<Rightarrow> 's \<Rightarrow> ('s, int \<times> bytes) outcome) option"
  dev_write :: "int \<Rightarrow> (nat \<Rightarrow> bytes \<Rightarrow> int \<Rightarrow> 's \<Rightarrow> ('s, int) outcome) option"

subsection \<open>Blocks\<close>

definition bzero :: "nat \<Rightarrow> nat \<Rightarrow> ('z, unit) fop" where
  "bzero dev bno =
     bind (bread dev bno) (\<lambda>bp.
     bind (modify (set_data bp (replicate BSIZE 0))) (\<lambda>_.
     bind (log_write bp) (\<lambda>_.
     brelse bp)))"

text \<open>The bit of block \<open>b\<close> in its byte of the free map.\<close>

definition bit_mask :: "nat \<Rightarrow> uchar" where
  "bit_mask bi = push_bit (bi mod 8) 1"

definition balloc :: "nat \<Rightarrow> ('z, nat) fop" where
  "balloc dev =
     bind (reads fs_sb) (\<lambda>sb.
     bind (for_each (map (\<lambda>k. k * BPB) [0..<(sb_size sb + BPB - 1) div BPB]) (\<lambda>b.
       bind (bread dev (BBLOCK b sb)) (\<lambda>bp.
       bind (for_each [0..<min BPB (sb_size sb - b)] (\<lambda>bi.
         bind (reads (\<lambda>s. b_data (bufn s bp))) (\<lambda>d.
         if d ! (bi div 8) AND bit_mask bi = 0 then
           bind (modify (set_data bp (d[bi div 8 := d ! (bi div 8) OR bit_mask bi]))) (\<lambda>_.
           bind (log_write bp) (\<lambda>_.
           bind (brelse bp) (\<lambda>_.
           bind (bzero dev (b + bi)) (\<lambda>_.
           ret (Some (b + bi))))))
         else ret None))) (\<lambda>r.
       case r of
         Some a \<Rightarrow> ret (Some a)
       | None \<Rightarrow> bind (brelse bp) (\<lambda>_. ret None))))) (\<lambda>r.
     case r of Some a \<Rightarrow> ret a | None \<Rightarrow> panic ''balloc: out of blocks''))"

definition bfree :: "nat \<Rightarrow> nat \<Rightarrow> ('z, unit) fop" where
  "bfree dev b =
     bind (reads fs_sb) (\<lambda>sb.
     bind (bread dev (BBLOCK b sb)) (\<lambda>bp.
     bind (reads (\<lambda>s. b_data (bufn s bp))) (\<lambda>d.
     let bi = b mod BPB; m = bit_mask bi in
     bind (panic_if (d ! (bi div 8) AND m = 0) ''freeing free block'') (\<lambda>_.
     bind (modify (set_data bp (d[bi div 8 := d ! (bi div 8) AND NOT m]))) (\<lambda>_.
     bind (log_write bp) (\<lambda>_.
     brelse bp))))))"

subsection \<open>Inodes\<close>

definition iinit :: "nat \<Rightarrow> ('z, unit) fop" where
  "iinit dev =
     bind (modify (\<lambda>s. s\<lparr>icache := map (\<lambda>i. i\<lparr>i_lock := initsleeplock\<rparr>) (icache s)\<rparr>)) (\<lambda>_.
     bind (readsb dev) (\<lambda>sb.
     bind (modify (\<lambda>s. s\<lparr>fs_sb := sb\<rparr>)) (\<lambda>_.
     kprint (ascii ''sb: size %d nblocks %d ninodes %d nlog %d logstart %d inodestart %d bmap start %d'' @ [10])
       (map (\<lambda>n. Word (word_of_nat n)) [sb_size sb, sb_nblocks sb, sb_ninodes sb, sb_nlog sb,
          sb_logstart sb, sb_inodestart sb, sb_bmapstart sb]))))"

definition iget :: "nat \<Rightarrow> nat \<Rightarrow> ('z, nat) fop" where
  "iget dev inum =
     bind (acquire IcacheLock) (\<lambda>_.
     bind (reads (\<lambda>s. (find (\<lambda>i. i_ref (ino s i) > 0 \<and> i_dev (ino s i) = dev \<and> i_inum (ino s i) = inum) [0..<NINODE],
                       find (\<lambda>i. i_ref (ino s i) = 0) [0..<NINODE]))) (\<lambda>(hit, empty).
     case hit of
       Some ip \<Rightarrow>
         bind (modify (upd_ino ip (\<lambda>i. i\<lparr>i_ref := i_ref i + 1\<rparr>))) (\<lambda>_.
         bind (release IcacheLock) (\<lambda>_. ret ip))
     | None \<Rightarrow>
         (case empty of
            None \<Rightarrow> panic ''iget: no inodes''
          | Some ip \<Rightarrow>
              bind (modify (upd_ino ip (\<lambda>i. i\<lparr>i_dev := dev, i_inum := inum, i_ref := 1, i_valid := False\<rparr>))) (\<lambda>_.
              bind (release IcacheLock) (\<lambda>_. ret ip)))))"

definition ialloc :: "nat \<Rightarrow> int \<Rightarrow> ('z, nat) fop" where
  "ialloc dev type =
     bind (reads fs_sb) (\<lambda>sb.
     bind (for_each [1..<sb_ninodes sb] (\<lambda>inum.
       bind (bread dev (IBLOCK inum sb)) (\<lambda>bp.
       bind (reads (\<lambda>s. b_data (bufn s bp))) (\<lambda>d.
       let dip = inum mod IPB * DINODE_SIZE in
       if get_short d dip = 0 then
         bind (modify (set_data bp (put_short (blit dip (replicate DINODE_SIZE 0) d) dip type))) (\<lambda>_.
         bind (log_write bp) (\<lambda>_.
         bind (brelse bp) (\<lambda>_.
         bind (iget dev inum) (\<lambda>ip. ret (Some ip)))))
       else bind (brelse bp) (\<lambda>_. ret None))))) (\<lambda>r.
     case r of Some ip \<Rightarrow> ret ip | None \<Rightarrow> panic ''ialloc: no inodes''))"

definition to_dinode :: "inode \<Rightarrow> dinode" where
  "to_dinode i = \<lparr>d_type = i_type i, d_major = i_major i, d_minor = i_minor i, d_nlink = i_nlink i,
     d_size = i_size i, d_addrs = i_addrs i\<rparr>"

definition iupdate :: "nat \<Rightarrow> ('z, unit) fop" where
  "iupdate ip =
     bind (reads (\<lambda>s. (fs_sb s, ino s ip))) (\<lambda>(sb, i).
     bind (bread (i_dev i) (IBLOCK (i_inum i) sb)) (\<lambda>bp.
     bind (modify (\<lambda>s. set_data bp
        (put_dinode (i_inum i mod IPB * DINODE_SIZE) (to_dinode i) (b_data (bufn s bp))) s)) (\<lambda>_.
     bind (log_write bp) (\<lambda>_.
     brelse bp))))"

definition idup :: "nat \<Rightarrow> ('z, nat) fop" where
  "idup ip =
     bind (acquire IcacheLock) (\<lambda>_.
     bind (modify (upd_ino ip (\<lambda>i. i\<lparr>i_ref := i_ref i + 1\<rparr>))) (\<lambda>_.
     bind (release IcacheLock) (\<lambda>_. ret ip)))"

definition ino_acquire :: "nat \<Rightarrow> ('z, unit) fop" where
  "ino_acquire ip = acquiresleep (InodeLock ip) (\<lambda>s. i_lock (ino s ip))
     (\<lambda>f. upd_ino ip (\<lambda>i. i\<lparr>i_lock := f (i_lock i)\<rparr>))"

definition ino_release :: "nat \<Rightarrow> ('z, unit) fop" where
  "ino_release ip = releasesleep (InodeLock ip) (\<lambda>f. upd_ino ip (\<lambda>i. i\<lparr>i_lock := f (i_lock i)\<rparr>))"

definition ino_holding :: "nat \<Rightarrow> ('z, bool) fop" where
  "ino_holding ip = holdingsleep (InodeLock ip) (\<lambda>s. i_lock (ino s ip))"

definition from_dinode :: "dinode \<Rightarrow> inode \<Rightarrow> inode" where
  "from_dinode d i = i\<lparr>i_type := d_type d, i_major := d_major d, i_minor := d_minor d,
     i_nlink := d_nlink d, i_size := d_size d, i_addrs := d_addrs d\<rparr>"

definition ilock :: "nat option \<Rightarrow> ('z, unit) fop" where
  "ilock ipp =
     (case ipp of
        None \<Rightarrow> panic ''ilock''
      | Some ip \<Rightarrow>
          bind (reads (\<lambda>s. i_ref (ino s ip) < 1)) (\<lambda>bad.
          bind (panic_if bad ''ilock'') (\<lambda>_.
          bind (ino_acquire ip) (\<lambda>_.
          bind (reads (\<lambda>s. (fs_sb s, ino s ip))) (\<lambda>(sb, i).
          whenM (\<not> i_valid i)
            (bind (bread (i_dev i) (IBLOCK (i_inum i) sb)) (\<lambda>bp.
             bind (reads (\<lambda>s. get_dinode (b_data (bufn s bp)) (i_inum i mod IPB * DINODE_SIZE))) (\<lambda>d.
             bind (modify (upd_ino ip (from_dinode d))) (\<lambda>_.
             bind (brelse bp) (\<lambda>_.
             bind (modify (upd_ino ip (\<lambda>i. i\<lparr>i_valid := True\<rparr>))) (\<lambda>_.
             panic_if (d_type d = 0) ''ilock: no type'')))))))))))"

definition iunlock :: "nat option \<Rightarrow> ('z, unit) fop" where
  "iunlock ipp =
     (case ipp of
        None \<Rightarrow> panic ''iunlock''
      | Some ip \<Rightarrow>
          bind (ino_holding ip) (\<lambda>h.
          bind (panic_if (\<not> h) ''iunlock'') (\<lambda>_.
          bind (reads (\<lambda>s. i_ref (ino s ip) < 1)) (\<lambda>bad.
          bind (panic_if bad ''iunlock'') (\<lambda>_.
          ino_release ip)))))"

subsection \<open>Inode content\<close>

definition bmap :: "nat \<Rightarrow> nat \<Rightarrow> ('z, nat) fop" where
  "bmap ip bn =
     (if bn < NDIRECT then
        bind (reads (\<lambda>s. (i_addrs (ino s ip) ! bn, i_dev (ino s ip)))) (\<lambda>(addr, dev).
        if addr = 0 then
          bind (balloc dev) (\<lambda>addr.
          bind (modify (upd_ino ip (\<lambda>i. i\<lparr>i_addrs := (i_addrs i)[bn := addr]\<rparr>))) (\<lambda>_.
          ret addr))
        else ret addr)
      else if bn - NDIRECT < NINDIRECT then
        (let bn = bn - NDIRECT in
         bind (reads (\<lambda>s. (i_addrs (ino s ip) ! NDIRECT, i_dev (ino s ip)))) (\<lambda>(addr, dev).
         bind (if addr = 0 then
                 bind (balloc dev) (\<lambda>addr.
                 bind (modify (upd_ino ip (\<lambda>i. i\<lparr>i_addrs := (i_addrs i)[NDIRECT := addr]\<rparr>))) (\<lambda>_.
                 ret addr))
               else ret addr) (\<lambda>addr.
         bind (bread dev addr) (\<lambda>bp.
         bind (reads (\<lambda>s. get32 (b_data (bufn s bp)) (4 * bn))) (\<lambda>a.
         bind (if a = 0 then
                 bind (balloc dev) (\<lambda>a.
                 bind (modify (\<lambda>s. set_data bp (put32 (b_data (bufn s bp)) (4 * bn) a) s)) (\<lambda>_.
                 bind (log_write bp) (\<lambda>_.
                 ret a)))
               else ret a) (\<lambda>a.
         bind (brelse bp) (\<lambda>_.
         ret a)))))))
      else panic ''bmap: out of range'')"

definition itrunc :: "nat \<Rightarrow> ('z, unit) fop" where
  "itrunc ip =
     bind (for_each [0..<NDIRECT] (\<lambda>k.
       bind (reads (\<lambda>s. (i_addrs (ino s ip) ! k, i_dev (ino s ip)))) (\<lambda>(a, dev).
       bind (whenM (a \<noteq> 0)
         (bind (bfree dev a) (\<lambda>_.
          modify (upd_ino ip (\<lambda>i. i\<lparr>i_addrs := (i_addrs i)[k := 0]\<rparr>))))) (\<lambda>_.
       ret (None :: unit option))))) (\<lambda>_.
     bind (reads (\<lambda>s. (i_addrs (ino s ip) ! NDIRECT, i_dev (ino s ip)))) (\<lambda>(ind, dev).
     bind (whenM (ind \<noteq> 0)
       (bind (bread dev ind) (\<lambda>bp.
        bind (for_each [0..<NINDIRECT] (\<lambda>j.
          bind (reads (\<lambda>s. get32 (b_data (bufn s bp)) (4 * j))) (\<lambda>a.
          bind (whenM (a \<noteq> 0) (bfree dev a)) (\<lambda>_.
          ret (None :: unit option))))) (\<lambda>_.
        bind (brelse bp) (\<lambda>_.
        bind (bfree dev ind) (\<lambda>_.
        modify (upd_ino ip (\<lambda>i. i\<lparr>i_addrs := (i_addrs i)[NDIRECT := 0]\<rparr>)))))))) (\<lambda>_.
     bind (modify (upd_ino ip (\<lambda>i. i\<lparr>i_size := 0\<rparr>))) (\<lambda>_.
     iupdate ip))))"

definition iput :: "nat \<Rightarrow> ('z, unit) fop" where
  "iput ip =
     bind (ino_acquire ip) (\<lambda>_.
     bind (reads (\<lambda>s. i_valid (ino s ip) \<and> i_nlink (ino s ip) = 0)) (\<lambda>dead.
     bind (whenM dead
       (bind (acquire IcacheLock) (\<lambda>_.
        bind (reads (\<lambda>s. i_ref (ino s ip))) (\<lambda>r.
        bind (release IcacheLock) (\<lambda>_.
        whenM (r = 1)
          (bind (itrunc ip) (\<lambda>_.
           bind (modify (upd_ino ip (\<lambda>i. i\<lparr>i_type := 0\<rparr>))) (\<lambda>_.
           bind (iupdate ip) (\<lambda>_.
           modify (upd_ino ip (\<lambda>i. i\<lparr>i_valid := False\<rparr>))))))))))) (\<lambda>_.
     bind (ino_release ip) (\<lambda>_.
     bind (acquire IcacheLock) (\<lambda>_.
     bind (modify (upd_ino ip (\<lambda>i. i\<lparr>i_ref := i_ref i - 1\<rparr>))) (\<lambda>_.
     release IcacheLock))))))"

definition iunlockput :: "nat \<Rightarrow> ('z, unit) fop" where
  "iunlockput ip = bind (iunlock (Some ip)) (\<lambda>_. iput ip)"

definition stati :: "nat \<Rightarrow> 'z fstate_scheme \<Rightarrow> statinfo" where
  "stati ip s = \<lparr>st_type = i_type (ino s ip), st_dev = i_dev (ino s ip), st_ino = i_inum (ino s ip),
     st_nlink = i_nlink (ino s ip), st_size = i_size (ino s ip)\<rparr>"

text \<open>The loop of \<open>readi\<close>: \<open>n\<close> is what is left to read, \<open>n - tot\<close> in the code.\<close>

function readi_loop :: "nat \<Rightarrow> nat \<Rightarrow> nat \<Rightarrow> ('z, bytes) fop" where
  "readi_loop ip off n =
     (if n = 0 then ret []
      else
        bind (bmap ip (off div BSIZE)) (\<lambda>addr.
        bind (reads (\<lambda>s. i_dev (ino s ip))) (\<lambda>dev.
        bind (bread dev addr) (\<lambda>bp.
        let m = min n (BSIZE - off mod BSIZE) in
        bind (reads (\<lambda>s. slice (off mod BSIZE) m (b_data (bufn s bp)))) (\<lambda>chunk.
        bind (brelse bp) (\<lambda>_.
        bind (readi_loop ip (off + m) (n - m)) (\<lambda>rest.
        ret (chunk @ rest)))))))) "
  by pat_completeness auto
termination
  by (relation "measure (\<lambda>(ip, off, n). n)") (auto simp: BSIZE_def)

declare readi_loop.simps [simp del]

definition wrap32 :: "nat \<Rightarrow> nat" where
  "wrap32 n = n mod 4294967296"

definition readi :: "'z fstate_scheme devsw \<Rightarrow> nat \<Rightarrow> nat \<Rightarrow> nat \<Rightarrow> ('z, int \<times> bytes) fop" where
  "readi dsw ip off n =
     bind (reads (\<lambda>s. ino s ip)) (\<lambda>i.
     if i_type i = T_DEV then
       (if i_major i < 0 \<or> int NDEV \<le> i_major i then ret (- 1, [])
        else case dev_read dsw (i_major i) of
               None \<Rightarrow> ret (- 1, [])
             | Some rd \<Rightarrow> rd ip (int n))
     else if off > i_size i \<or> wrap32 (off + n) < off then ret (- 1, [])
     else
       (let n = (if wrap32 (off + n) > i_size i then i_size i - off else n) in
        bind (readi_loop ip off n) (\<lambda>d. ret (int n, d))))"

text \<open>The loop of \<open>writei\<close>, over the bytes that are left; it returns the final offset.\<close>

function writei_loop :: "nat \<Rightarrow> nat \<Rightarrow> bytes \<Rightarrow> ('z, nat) fop" where
  "writei_loop ip off src =
     (if src = [] then ret off
      else
        bind (bmap ip (off div BSIZE)) (\<lambda>addr.
        bind (reads (\<lambda>s. i_dev (ino s ip))) (\<lambda>dev.
        bind (bread dev addr) (\<lambda>bp.
        let m = min (length src) (BSIZE - off mod BSIZE) in
        bind (modify (\<lambda>s. set_data bp (blit (off mod BSIZE) (take m src) (b_data (bufn s bp))) s)) (\<lambda>_.
        bind (log_write bp) (\<lambda>_.
        bind (brelse bp) (\<lambda>_.
        writei_loop ip (off + m) (drop m src))))))))"
  by pat_completeness auto
termination
  by (relation "measure (\<lambda>(ip, off, src). length src)") (auto simp: BSIZE_def)

declare writei_loop.simps [simp del]

definition writei :: "'z fstate_scheme devsw \<Rightarrow> nat \<Rightarrow> bytes \<Rightarrow> nat \<Rightarrow> ('z, int) fop" where
  "writei dsw ip src off =
     (let n = length src in
     bind (reads (\<lambda>s. ino s ip)) (\<lambda>i.
     if i_type i = T_DEV then
       (if i_major i < 0 \<or> int NDEV \<le> i_major i then ret (- 1)
        else case dev_write dsw (i_major i) of
               None \<Rightarrow> ret (- 1)
             | Some wr \<Rightarrow> wr ip src (int n))
     else if off > i_size i \<or> wrap32 (off + n) < off then ret (- 1)
     else if wrap32 (off + n) > MAXFILE * BSIZE then ret (- 1)
     else
       bind (writei_loop ip off src) (\<lambda>off.
       bind (reads (\<lambda>s. n > 0 \<and> off > i_size (ino s ip))) (\<lambda>grew.
       bind (whenM grew
         (bind (modify (upd_ino ip (\<lambda>i. i\<lparr>i_size := off\<rparr>))) (\<lambda>_. iupdate ip))) (\<lambda>_.
       ret (int n))))))"

subsection \<open>Directories\<close>

text \<open>A memory that holds an array from address 0.\<close>

definition mem_of :: "bytes \<Rightarrow> mem" where
  "mem_of xs = (\<lambda>a. if a < length xs then xs ! a else 0)"

definition namecmp :: "bytes \<Rightarrow> bytes \<Rightarrow> int" where
  "namecmp s t = strncmp 0 (length s) DIRSIZ (mem_of (s @ t))"

definition de_inum :: "bytes \<Rightarrow> nat" where
  "de_inum de = get16 de 0"

definition de_name :: "bytes \<Rightarrow> bytes" where
  "de_name de = slice 2 DIRSIZ de"

definition dir_offs :: "nat \<Rightarrow> nat list" where
  "dir_offs sz = map (\<lambda>k. k * DIRENT_SIZE) [0..<(sz + DIRENT_SIZE - 1) div DIRENT_SIZE]"

text \<open>\<open>dirlookup\<close> returns the inode and the offset that the code stores through \<open>poff\<close>.\<close>

definition dirlookup :: "'z fstate_scheme devsw \<Rightarrow> nat \<Rightarrow> bytes \<Rightarrow> ('z, (nat \<times> nat) option) fop" where
  "dirlookup dsw dp name =
     bind (reads (\<lambda>s. ino s dp)) (\<lambda>d.
     bind (panic_if (i_type d \<noteq> T_DIR) ''dirlookup not DIR'') (\<lambda>_.
     for_each (dir_offs (i_size d)) (\<lambda>off.
       bind (readi dsw dp off DIRENT_SIZE) (\<lambda>(r, de).
       bind (panic_if (r \<noteq> int DIRENT_SIZE) ''dirlookup read'') (\<lambda>_.
       if de_inum de = 0 then ret None
       else if namecmp name (de_name de) = 0 then
         bind (iget (i_dev d) (de_inum de)) (\<lambda>ip. ret (Some (ip, off)))
       else ret None)))))"

definition make_dirent :: "bytes \<Rightarrow> nat \<Rightarrow> bytes \<Rightarrow> bytes" where
  "make_dirent name inum de =
     put16 (blit 2 (map (strncpy (length name) 0 (int DIRSIZ) (mem_of name))
                       [length name..<length name + DIRSIZ]) de) 0 inum"

definition dirlink :: "'z fstate_scheme devsw \<Rightarrow> nat \<Rightarrow> bytes \<Rightarrow> nat \<Rightarrow> ('z, int) fop" where
  "dirlink dsw dp name inum =
     bind (dirlookup dsw dp name) (\<lambda>old.
     case old of
       Some (ip, _) \<Rightarrow> bind (iput ip) (\<lambda>_. ret (- 1))
     | None \<Rightarrow>
         bind (reads (\<lambda>s. i_size (ino s dp))) (\<lambda>sz.
         bind (for_each (dir_offs sz) (\<lambda>off.
           bind (readi dsw dp off DIRENT_SIZE) (\<lambda>(r, de).
           bind (panic_if (r \<noteq> int DIRENT_SIZE) ''dirlink read'') (\<lambda>_.
           ret (if de_inum de = 0 then Some off else None))))) (\<lambda>free.
         let off = (case free of Some off \<Rightarrow> off | None \<Rightarrow> length (dir_offs sz) * DIRENT_SIZE) in
         bind (writei dsw dp (make_dirent name inum (replicate DIRENT_SIZE 0)) off) (\<lambda>r.
         bind (panic_if (r \<noteq> int DIRENT_SIZE) ''dirlink'') (\<lambda>_.
         ret 0)))))"

subsection \<open>Paths\<close>

definition slash :: uchar where "slash = 47"

text \<open>
  Paths are the strings before their NUL; \<open>name\<close> is the caller's buffer of \<open>DIRSIZ\<close> bytes.
\<close>

definition skipelem :: "bytes \<Rightarrow> bytes \<Rightarrow> (bytes \<times> bytes) option" where
  "skipelem path name =
     (let path = dropWhile (\<lambda>c. c = slash) path in
      if path = [] then None
      else
        let elem = takeWhile (\<lambda>c. c \<noteq> slash) path;
            path = dropWhile (\<lambda>c. c \<noteq> slash) path;
            len = length elem;
            name = (if len \<ge> DIRSIZ then blit 0 (take DIRSIZ elem) name
                    else (blit 0 elem name)[len := 0])
        in Some (dropWhile (\<lambda>c. c = slash) path, name))"

lemma skipelem_shorter: "skipelem path name = Some (path', name') \<Longrightarrow> length path' < length path"
proof -
  assume s: "skipelem path name = Some (path', name')"
  define p where "p = dropWhile (\<lambda>c. c = slash) path"
  from s have p: "p \<noteq> []" and path': "path' = dropWhile (\<lambda>c. c = slash) (dropWhile (\<lambda>c. c \<noteq> slash) p)"
    by (auto simp: skipelem_def Let_def p_def split: if_splits)
  from p have "hd p \<noteq> slash" unfolding p_def by (rule hd_dropWhile)
  then have "dropWhile (\<lambda>c. c \<noteq> slash) p = dropWhile (\<lambda>c. c \<noteq> slash) (tl p)"
    using p by (cases p) auto
  then have "length path' \<le> length (tl p)"
    unfolding path' by (metis length_dropWhile_le order_trans)
  also have "\<dots> < length p" using p by (cases p) auto
  also have "\<dots> \<le> length path" unfolding p_def by (rule length_dropWhile_le)
  finally show ?thesis .
qed

function namex_loop ::
  "'z fstate_scheme devsw \<Rightarrow> bool \<Rightarrow> nat \<Rightarrow> bytes \<Rightarrow> bytes \<Rightarrow> ('z, nat option \<times> bytes) fop" where
  "namex_loop dsw nameiparent ip path name =
     (case skipelem path name of
        None \<Rightarrow>
          if nameiparent then bind (iput ip) (\<lambda>_. ret (None, name))
          else ret (Some ip, name)
      | Some (path, name) \<Rightarrow>
          bind (ilock (Some ip)) (\<lambda>_.
          bind (reads (\<lambda>s. i_type (ino s ip))) (\<lambda>type.
          if type \<noteq> T_DIR then bind (iunlockput ip) (\<lambda>_. ret (None, name))
          else if nameiparent \<and> path = [] then bind (iunlock (Some ip)) (\<lambda>_. ret (Some ip, name))
          else
            bind (dirlookup dsw ip name) (\<lambda>next.
            case next of
              None \<Rightarrow> bind (iunlockput ip) (\<lambda>_. ret (None, name))
            | Some (next, _) \<Rightarrow>
                bind (iunlockput ip) (\<lambda>_.
                namex_loop dsw nameiparent next path name)))))"
  by pat_completeness auto
termination
  by (relation "measure (\<lambda>(dsw, nameiparent, ip, path, name). length path)")
    (auto dest: skipelem_shorter)

declare namex_loop.simps [simp del]

definition namex :: "'z fstate_scheme devsw \<Rightarrow> bytes \<Rightarrow> bool \<Rightarrow> bytes \<Rightarrow> ('z, nat option \<times> bytes) fop" where
  "namex dsw path nameiparent name =
     bind (if path \<noteq> [] \<and> hd path = slash then iget ROOTDEV ROOTINO
           else with_proc (\<lambda>p.
             bind (reads (\<lambda>s. p_cwd (procs s ! p))) (\<lambda>cwd.
             case cwd of None \<Rightarrow> fault | Some ip \<Rightarrow> idup ip)))
       (\<lambda>ip. namex_loop dsw nameiparent ip path name)"

definition namei :: "'z fstate_scheme devsw \<Rightarrow> bytes \<Rightarrow> ('z, nat option) fop" where
  "namei dsw path =
     bind (namex dsw path False (replicate DIRSIZ 0)) (\<lambda>(ip, _). ret ip)"

definition nameiparent :: "'z fstate_scheme devsw \<Rightarrow> bytes \<Rightarrow> bytes \<Rightarrow> ('z, nat option \<times> bytes) fop" where
  "nameiparent dsw path name = namex dsw path True name"

end
