(* ===== verification/Store_Total.thy ===== *)
theory Store_Total
  imports Store
begin

text \<open>
  The block store's update returns: in a transaction with room in the log, reading a block, changing
  it, giving it to the log and releasing it ends without a panic.
\<close>

text \<open>The log takes one more block of the open transaction.\<close>

definition log_room :: "'z lstate_scheme \<Rightarrow> bool" where
  "log_room s \<longleftrightarrow> lh_n s < int LOGSIZE \<and> lh_n s < log_size s - 1 \<and> 1 \<le> log_outstanding s"

lemma log_write_returns:
  assumes "log_room s" and "locks s = []"
  shows "\<exists>t. log_write b s = Ok () t"
  using assms by (auto simp: log_room_def log_write_def release_Ok_iff mark_dirty_def upd_buf_def)

lemma log_write_only:
  assumes len: "length (buffers s) = Suc NBUF" and i: "i < NBUF" and run: "log_write i s = Ok u t"
  shows "bufn t j = (if j = i then (bufn s i)\<lparr>b_flags := b_flags (bufn s i) OR B_DIRTY\<rparr> else bufn s j)"
    and "lh_n t \<le> lh_n s + 1"
  using log_write_state [OF run] len i by (auto simp: mark_dirty_def bufn_upd_buf) (auto simp: bufn_def upd_buf_def)

theorem update_returns:
  assumes c: "calm s" and ok: "log_ok s" and pin: "pinned s Q" and spare: "\<exists>i<NBUF. \<not> bdirty (bufn s i)"
    and n: "n < disksize s" "blk_writable s n" and room: "log_room s"
    and f: "\<And>d. length d = BSIZE \<Longrightarrow> length (f d) = BSIZE"
  shows "\<exists>i s1 s2 t. bread ROOTDEV n s = Ok i s1 \<and> b_data (bufn s1 i) = blk s n
    \<and> log_write i (set_data i (f (blk s n)) s1) = Ok () s2 \<and> brelse i s2 = Ok () t
    \<and> calm t \<and> log_ok t \<and> pinned t (insert n Q) \<and> txn_frame {} s t
    \<and> blk t = (blk s)(n := f (blk s n)) \<and> logged t = insert n (logged s) \<and> lh_n t \<le> lh_n s + 1"
proof -
  note inv = calmD(1) [OF c]
  have fs: "fs_inv s" using inv ok by (simp add: fs_inv_def)
  obtain i s1 where 1: "bread ROOTDEV n s = Ok i s1" using bread_calm [OF c n(1) spare] by blast
  note r = bread_Ok [OF inv 1] and o = bread_only [OF inv 1]
  note law = fsb.take_law [OF fs 1]
  then have fs1: "fs_inv s1" and h1: "has_block s1 i n" and d: "b_data (bufn s1 i) = blk s n"
    using fsb.has_get [of s1 i n] by auto
  obtain p where p: "curproc s1 = Some p" and lk: "locks s1 = []"
    using r calmD(2,3) [OF c] by (auto simp: bframe_def)
  define u where "u = set_data i (f (blk s n)) s1"
  have i: "i < NBUF" and len: "length (buffers s1) = Suc NBUF" using r by (auto simp: bio_inv_def)
  have bu: "bufn u k = (if k = i then (bufn s1 i)\<lparr>b_data := f (blk s n)\<rparr> else bufn s1 k)" for k
    using set_data_only [OF len i] by (simp add: u_def)
  have lenu: "length (buffers u) = Suc NBUF" using len by (simp add: u_def set_data_def)
  have more: "bstate.more u = bstate.more s" using r by (simp add: u_def)
  note mf = log_fields [OF more]
  have "log_room u" using room by (simp add: log_room_def mf)
  moreover have "locks u = []" using lk by (simp add: u_def)
  ultimately obtain s2 where 2: "log_write i u = Ok () s2" using log_write_returns by blast
  note w = log_write_only [OF lenu i 2]
  have fl: "length (f (blk s n)) = BSIZE" using law f by blast
  have w1: "blk_writable s1 n" using law n(2) fsb.frame_writable [of "{}" s s1 n] by blast
  note put = fsb.put_law [OF fs1 h1 fl 2 [unfolded u_def] w1]
  then have fs2: "fs_inv s2" and h2: "has_block s2 i n" by auto
  have lw: "logged s2 = insert n (logged s)"
  proof -
    have lc: "log_ok u" "logged u = logged s" "\<not> in_log u n" "n < 4294967296"
      using ok log_ok_cong [OF more] n(2) by (simp_all add: logged_def mf blk_writable_def)
    have "bio_inv u \<and> holds u i n"
      using set_data_held [of s1 i n "f (blk s n)", folded u_def] r fl by blast
    then show ?thesis using log_write_Ok [OF _ lc(1) _ lc(3,4) 2] lc(2) by auto
  qed
  have b2: "bio_inv s2" "holds s2 i n" "settled s2 i" "locks s2 = []" "curproc s2 = Some p"
    using fs2 h2 put lk p by (auto simp: fs_inv_def has_block_def txn_frame_def bframe_def)
  obtain t where 3: "brelse i s2 = Ok () t" using brelse_returns [OF b2(4,5,2)] by blast
  note drop = fsb.drop_law [OF fs2 h2 3] and yo = brelse_only [OF b2(1-3) 3]
  have t: "same_buf (bufn t k) (if k = i then dropped (bufn s2 i) else bufn s k)" for k
    using yo [of k] w(1) [of k] bu [of k] o by auto
  have more3: "bstate.more t = bstate.more s2" using brelse_Ok [OF b2(1-3) 3] by blast
  have zero: "b_refcnt (bufn t k) = 0" if "k < NBUF" for k
    using t [of k] w(1) [of i] bu [of i] o calmD(4) [OF c that]
    by (cases "k = i") (auto simp: same_buf_def dropped_def)
  have "pinned t (insert n Q)"
    unfolding pinned_def
  proof (intro allI impI)
    fix k assume k: "k < NBUF" "bdirty (bufn t k)"
    show "b_dev (bufn t k) = ROOTDEV \<and> b_blockno (bufn t k) \<in> insert n Q"
    proof (cases "k = i")
      case True
      then show ?thesis
        using t [of i] b2(2) by (auto simp: same_buf_def dropped_def holds_def cached_def)
    next
      case False
      then show ?thesis using t [of k] k pin by (simp add: same_buf_def pinned_def bdirty_def)
    qed
  qed
  moreover have "txn_frame {} s t"
  proof -
    have "txn_frame ({} \<union> {i} \<union> {i}) s t"
      by (rule fsb.frame_trans [OF fsb.frame_trans]) (use law put drop in auto)
    then show ?thesis using law by (auto intro: fsb.frame_new)
  qed
  moreover from this have "calm t"
    using drop zero b2 calmD(2,3) [OF c] by (auto simp: calm_def fs_inv_def txn_frame_def bframe_def)
  moreover have "logged t = insert n (logged s)" "lh_n t \<le> lh_n s + 1"
    using lw w(2) by (simp_all add: logged_def log_ok_cong [OF more3] log_fields [OF more3] mf)
  ultimately show ?thesis
    using 1 2 3 d drop put law unfolding u_def fs_inv_def by auto
qed

text \<open>A read that changes nothing.\<close>

theorem look_returns:
  assumes c: "calm s" and ok: "log_ok s" and pin: "pinned s Q" and spare: "\<exists>i<NBUF. \<not> bdirty (bufn s i)"
    and n: "n < disksize s"
  shows "\<exists>i s1 t. bread ROOTDEV n s = Ok i s1 \<and> b_data (bufn s1 i) = blk s n \<and> lstate.more s1 = lstate.more s
    \<and> brelse i s1 = Ok () t
    \<and> calm t \<and> log_ok t \<and> pinned t Q \<and> txn_frame {} s t \<and> blk t = blk s \<and> bstate.more t = bstate.more s"
proof -
  note inv = calmD(1) [OF c]
  have fs: "fs_inv s" using inv ok by (simp add: fs_inv_def)
  obtain i s1 where 1: "bread ROOTDEV n s = Ok i s1" using bread_calm [OF c n(1) spare] by blast
  note r = bread_Ok [OF inv 1] and o = bread_only [OF inv 1]
  note law = fsb.take_law [OF fs 1]
  then have fs1: "fs_inv s1" and h1: "has_block s1 i n" and d: "b_data (bufn s1 i) = blk s n"
    using fsb.has_get [of s1 i n] by auto
  obtain p where p: "curproc s1 = Some p" and lk: "locks s1 = []"
    using r calmD(2,3) [OF c] by (auto simp: bframe_def)
  have b1: "bio_inv s1" "holds s1 i n" "settled s1 i" using r by auto
  obtain t where 3: "brelse i s1 = Ok () t" using brelse_returns [OF lk p b1(2)] by blast
  note yo = brelse_only [OF b1 3] and rd = fsb.read_block [OF fs 1 3]
  have more: "bstate.more t = bstate.more s" using brelse_Ok [OF b1 3] r by simp
  have t: "same_buf (bufn t k) (if k = i then dropped (bufn s1 i) else bufn s k)" for k
    using yo [of k] o by auto
  have "b_refcnt (bufn t k) = 0" if "k < NBUF" for k
    using t [of k] o calmD(4) [OF c that] by (cases "k = i") (auto simp: same_buf_def dropped_def)
  then have "calm t"
    using rd calmD(2,3) [OF c] by (auto simp: calm_def fs_inv_def txn_frame_def bframe_def)
  moreover have "pinned t Q"
    unfolding pinned_def
  proof (intro allI impI)
    fix k assume k: "k < NBUF" "bdirty (bufn t k)"
    have "bdirty (bufn s k) \<and> b_dev (bufn t k) = b_dev (bufn s k) \<and> b_blockno (bufn t k) = b_blockno (bufn s k)"
      using t [of k] k(2) o b1(2)
      by (cases "k = i") (auto simp: same_buf_def dropped_def bdirty_def holds_def cached_def)
    then show "b_dev (bufn t k) = ROOTDEV \<and> b_blockno (bufn t k) \<in> Q" using pin k(1) by (simp add: pinned_def)
  qed
  moreover have "lstate.more s1 = lstate.more s" using law by (simp add: txn_frame_def)
  ultimately show ?thesis using 1 3 d rd more by (auto simp: fs_inv_def)
qed

end
