(* ===== verification/Fs_Props.thy ===== *)
theory Fs_Props
  imports Fs Store_Total
begin

text \<open>
  The block allocator and the inode blocks, in a transaction.  \<open>fs_ready s\<close>: the state in which the
  running process, inside \<open>begin_op\<close> and \<open>end_op\<close>, holds no buffer and no spin lock; \<open>room s k\<close>: the
  log can take \<open>k\<close> more blocks.
\<close>

definition fs_ready :: "'z lstate_scheme \<Rightarrow> bool" where
  "fs_ready s \<longleftrightarrow> calm s \<and> log_ok s \<and> pinned s (logged s) \<and> 1 \<le> log_outstanding s"

definition room :: "'z lstate_scheme \<Rightarrow> nat \<Rightarrow> bool" where
  "room s k \<longleftrightarrow> lh_n s + int k < int NBUF \<and> lh_n s + int k < log_size s"

lemma room_mono: "room s k \<Longrightarrow> j \<le> k \<Longrightarrow> room s j"
  by (auto simp: room_def)

lemma ready_spare:
  assumes "fs_ready s" and "room s 0"
  shows "\<exists>i<NBUF. \<not> bdirty (bufn s i)"
proof (rule spare_buffer)
  show "card (logged s) < NBUF" using card_logged [of s] assms by (auto simp: room_def fs_ready_def log_ok_def)
qed (use assms in \<open>auto simp: fs_ready_def logged_def calm_def\<close>)

text \<open>One block of the disk changed by a call of the file system, the blocks and states it leaves.\<close>

definition changed :: "nat \<Rightarrow> bytes \<Rightarrow> 'z lstate_scheme \<Rightarrow> 'z lstate_scheme \<Rightarrow> bool" where
  "changed n d s t \<longleftrightarrow> fs_ready t \<and> blk t = (blk s)(n := d) \<and> txn_frame {} s t
     \<and> (\<forall>k. room s (Suc k) \<longrightarrow> room t k)"

definition looked :: "'z lstate_scheme \<Rightarrow> 'z lstate_scheme \<Rightarrow> bool" where
  "looked s t \<longleftrightarrow> fs_ready t \<and> blk t = blk s \<and> txn_frame {} s t \<and> bstate.more t = bstate.more s"

lemma looked_room: "looked s t \<Longrightarrow> room t k = room s k"
  using log_fields [of t s] by (simp add: looked_def room_def)

lemma looked_frame:
  "looked s t \<Longrightarrow> disksize t = disksize s \<and> lstate.more t = lstate.more s \<and> blk_writable t = blk_writable s"
  by (auto simp: looked_def txn_frame_def bframe_def blk_writable_def in_log_def fun_eq_iff)

lemma changed_frame:
  "changed n d s t \<Longrightarrow> disksize t = disksize s \<and> lstate.more t = lstate.more s \<and> blk_writable t = blk_writable s"
  by (auto simp: changed_def txn_frame_def bframe_def blk_writable_def in_log_def fun_eq_iff)

lemma looked_trans: "looked s t \<Longrightarrow> looked t u \<Longrightarrow> looked s u"
  unfolding looked_def using fsb.frame_trans0 by auto

lemma looked_refl: "fs_ready s \<Longrightarrow> looked s s"
  by (simp add: looked_def fsb.frame_refl)

text \<open>The two ways the file system uses a block.\<close>

lemma change_block:
  assumes r: "fs_ready s" and rm: "room s 1" and n: "n < disksize s" "blk_writable s n"
    and f: "\<And>d. length d = BSIZE \<Longrightarrow> length (f d) = BSIZE"
  shows "\<exists>i s1 s2 t. bread ROOTDEV n s = Ok i s1 \<and> b_data (bufn s1 i) = blk s n
    \<and> log_write i (set_data i (f (blk s n)) s1) = Ok () s2 \<and> brelse i s2 = Ok () t
    \<and> changed n (f (blk s n)) s t"
proof -
  have lr: "log_room s"
    using r rm by (auto simp: room_def fs_ready_def log_room_def NBUF_def LOGSIZE_def)
  have sp: "\<exists>i<NBUF. \<not> bdirty (bufn s i)" using ready_spare [OF r room_mono [OF rm]] by simp
  obtain i s1 s2 t where t: "bread ROOTDEV n s = Ok i s1" "b_data (bufn s1 i) = blk s n"
    "log_write i (set_data i (f (blk s n)) s1) = Ok () s2" "brelse i s2 = Ok () t" "calm t" "log_ok t"
    "pinned t (insert n (logged s))" "txn_frame {} s t" "blk t = (blk s)(n := f (blk s n))"
    "logged t = insert n (logged s)" "lh_n t \<le> lh_n s + 1"
    using update_returns [OF _ _ _ sp n lr, of "logged s" f] f r unfolding fs_ready_def by blast
  then have "changed n (f (blk s n)) s t"
    using r by (auto simp: changed_def fs_ready_def room_def txn_frame_def)
  with t show ?thesis by blast
qed

lemma look_block:
  assumes r: "fs_ready s" and rm: "room s 0" and n: "n < disksize s"
  shows "\<exists>i s1 t. bread ROOTDEV n s = Ok i s1 \<and> b_data (bufn s1 i) = blk s n
    \<and> lstate.more s1 = lstate.more s \<and> brelse i s1 = Ok () t \<and> looked s t"
proof -
  obtain i s1 t where t: "bread ROOTDEV n s = Ok i s1" "b_data (bufn s1 i) = blk s n"
    "lstate.more s1 = lstate.more s" "brelse i s1 = Ok () t" "calm t" "log_ok t"
    "pinned t (logged s)" "txn_frame {} s t" "blk t = blk s" "bstate.more t = bstate.more s"
    using look_returns [OF _ _ _ ready_spare [OF r rm] n, of "logged s"] r unfolding fs_ready_def by blast
  then have "looked s t"
    using r log_fields [OF t(10)] log_ok_cong [OF t(10)] by (simp add: looked_def fs_ready_def logged_def)
  with t show ?thesis by blast
qed

lemma lstate_more:
  fixes s t :: "'z lstate_scheme"
  assumes "bstate.more t = bstate.more s"
  shows "lstate.more t = lstate.more s"
  using assms by (cases s; cases t) simp

lemma fs_fields:
  assumes "lstate.more t = lstate.more s"
  shows "fs_sb t = fs_sb s" and "icache t = icache s" and "ino t = ino s"
proof -
  show "fs_sb t = fs_sb s" and ic: "icache t = icache s" using assms by (cases s; cases t; simp)+
  show "ino t = ino s" by (simp add: ino_def fun_eq_iff ic)
qed

subsection \<open>The free map\<close>

definition map_block :: "'z fstate_scheme \<Rightarrow> nat \<Rightarrow> nat" where
  "map_block s b = BBLOCK b (fs_sb s)"

text \<open>The bit of block \<open>b\<close> in the free map, as the cache shows it.\<close>

definition used :: "'z fstate_scheme \<Rightarrow> nat \<Rightarrow> bool" where
  "used s b \<longleftrightarrow> blk s (map_block s b) ! (b mod BPB div 8) AND bit_mask (b mod BPB) \<noteq> 0"

text \<open>The file system's layout: the map and the blocks it covers are on the disk, outside the log.\<close>

definition map_ok :: "'z fstate_scheme \<Rightarrow> bool" where
  "map_ok s \<longleftrightarrow> (\<forall>b < sb_size (fs_sb s). map_block s b < disksize s \<and> blk_writable s (map_block s b)
     \<and> used s (map_block s b) \<and> b < disksize s \<and> (blk_writable s b \<or> used s b))"

lemma mask_bit: "x AND bit_mask k \<noteq> 0 \<longleftrightarrow> bit x (k mod 8)"
  using and_exp_eq_0_iff_not_bit [of x "k mod 8"] by (simp add: bit_mask_def push_bit_eq_mult)

lemma used_bit: "used s b \<longleftrightarrow> bit (blk s (map_block s b) ! (b mod BPB div 8)) (b mod 8)"
proof -
  have "b mod BPB mod 8 = b mod 8" by (simp add: BPB_def mod_mod_cancel)
  then show ?thesis using mask_bit [of _ "b mod BPB"] by (simp add: used_def)
qed

lemma bpb_index: "b mod BPB div 8 < BSIZE"
  by (simp add: BPB_def BSIZE_def less_mult_imp_div_less)

text \<open>Two blocks of the same map block are at different bits.\<close>

lemma map_bit_inj:
  assumes "map_block s b = map_block s c" and "b mod BPB div 8 = c mod BPB div 8" and "b mod 8 = c mod 8"
  shows "b = c"
proof -
  have "b div BPB = c div BPB" using assms(1) by (simp add: map_block_def BBLOCK_def)
  moreover have "b mod BPB = c mod BPB"
  proof -
    have "x mod BPB mod 8 = x mod 8" for x by (simp add: BPB_def mod_mod_cancel)
    then show ?thesis using assms(2,3) by (metis div_mult_mod_eq)
  qed
  ultimately show ?thesis by (metis div_mult_mod_eq)
qed

lemma used_upd:
  assumes t: "blk t = (blk s)(map_block s b := (blk s (map_block s b))[b mod BPB div 8 := w])"
    and sb: "fs_sb t = fs_sb s" and len: "length (blk s (map_block s b)) = BSIZE"
    and w: "\<And>k. k < 8 \<Longrightarrow> k \<noteq> b mod 8 \<Longrightarrow> bit w k = bit (blk s (map_block s b) ! (b mod BPB div 8)) k"
  shows "used t c = (if c = b then bit w (b mod 8) else used s c)"
proof -
  have mb: "map_block t x = map_block s x" for x by (simp add: map_block_def sb)
  show ?thesis
  proof (cases "c = b")
    case True
    then show ?thesis using bpb_index [of b] len by (simp add: used_bit mb t)
  next
    case False
    then have "map_block s b = map_block s c \<Longrightarrow> b mod BPB div 8 = c mod BPB div 8 \<Longrightarrow> c mod 8 \<noteq> b mod 8"
      using map_bit_inj [of s b c] by auto
    then show ?thesis
      using False w [of "c mod 8"] bpb_index [of b] len by (auto simp: used_bit mb t nth_list_update)
  qed
qed

subsection \<open>bzero and bfree\<close>

lemma bzero_returns:
  assumes r: "fs_ready s" and rm: "room s 1" and n: "n < disksize s" "blk_writable s n"
  shows "\<exists>t. bzero ROOTDEV n s = Ok () t \<and> changed n (replicate BSIZE 0) s t"
  using change_block [OF r rm n, of "\<lambda>_. replicate BSIZE 0"] by (auto simp: bzero_def)

lemma bfree_returns:
  assumes r: "fs_ready s" and rm: "room s 1" and ok: "map_ok s" and b: "b < sb_size (fs_sb s)" "used s b"
  shows "\<exists>t. bfree ROOTDEV b s = Ok () t \<and> fs_ready t \<and> (\<forall>c. used t c = (c \<noteq> b \<and> used s c))
    \<and> (\<forall>n. n \<noteq> map_block s b \<longrightarrow> blk t n = blk s n) \<and> txn_frame {} s t"
proof -
  have n: "map_block s b < disksize s" "blk_writable s (map_block s b)"
    using ok b by (auto simp: map_ok_def)
  let ?w = "\<lambda>d. d ! (b mod BPB div 8) AND NOT (bit_mask (b mod BPB))"
  obtain i s1 s2 t where t: "bread ROOTDEV (map_block s b) s = Ok i s1"
    "b_data (bufn s1 i) = blk s (map_block s b)"
    "log_write i (set_data i ((blk s (map_block s b))[b mod BPB div 8 := ?w (blk s (map_block s b))]) s1) = Ok () s2"
    "brelse i s2 = Ok () t"
    and c: "changed (map_block s b) ((blk s (map_block s b))[b mod BPB div 8 := ?w (blk s (map_block s b))]) s t"
    using change_block [OF r rm n, of "\<lambda>d. d[b mod BPB div 8 := ?w d]"] by auto
  have run: "bfree ROOTDEV b s = Ok () t"
    using t b(2) by (simp add: bfree_def map_block_def used_def Let_def)
  have inv: "bio_inv s" using r by (simp add: fs_ready_def calm_def)
  have bits: "bit (?w d) k \<longleftrightarrow> bit (d ! (b mod BPB div 8)) k \<and> k \<noteq> b mod 8" if "k < 8" for d k
  proof -
    have "b mod BPB mod 8 = b mod 8" by (simp add: BPB_def mod_mod_cancel)
    then show ?thesis using that
      by (auto simp: bit_and_iff bit_not_iff bit_mask_def bit_push_bit_iff bit_1_iff bit_exp_iff)
  qed
  have "used t c = (if c = b then bit (?w (blk s (map_block s b))) (b mod 8) else used s c)" for c
    by (rule used_upd) (use c changed_frame [OF c] fs_fields length_blk [OF inv n(1)] bits in \<open>auto simp: changed_def\<close>)
  then have "used t c = (c \<noteq> b \<and> used s c)" for c using bits [of "b mod 8"] by auto
  then show ?thesis using run c by (auto simp: changed_def)
qed


subsection \<open>balloc\<close>

text \<open>The bits of map block \<open>k\<close> from block \<open>k * BPB\<close> on, as \<open>balloc\<close> tests them.\<close>

lemma used_scan:
  assumes "bi < BPB"
  shows "blk s (BBLOCK (k * BPB) (fs_sb s)) ! (bi div 8) AND bit_mask bi = 0 \<longleftrightarrow> \<not> used s (k * BPB + bi)"
proof -
  have "(k * BPB + bi) mod BPB = bi" "(k * BPB + bi) div BPB = k"
    using assms by (auto simp: BPB_def)
  then show ?thesis by (simp add: used_def map_block_def BBLOCK_def BPB_def BSIZE_def)
qed

definition balloc_block :: "superblock \<Rightarrow> nat \<Rightarrow> ('z, nat option) fop" where
  "balloc_block sb b =
     bind (bread ROOTDEV (BBLOCK b sb)) (\<lambda>bp.
       bind (for_each [0..<min BPB (sb_size sb - b)] (\<lambda>bi.
         bind (reads (\<lambda>s. b_data (bufn s bp))) (\<lambda>d.
         if d ! (bi div 8) AND bit_mask bi = 0 then
           bind (modify (set_data bp (d[bi div 8 := d ! (bi div 8) OR bit_mask bi]))) (\<lambda>_.
           bind (log_write bp) (\<lambda>_.
           bind (brelse bp) (\<lambda>_.
           bind (bzero ROOTDEV (b + bi)) (\<lambda>_.
           ret (Some (b + bi))))))
         else ret None))) (\<lambda>r.
       case r of
         Some a \<Rightarrow> ret (Some a)
       | None \<Rightarrow> bind (brelse bp) (\<lambda>_. ret None)))"

lemma balloc_blocks:
  "balloc ROOTDEV = bind (reads fs_sb) (\<lambda>sb.
     bind (for_each (map (\<lambda>k. k * BPB) [0..<(sb_size sb + BPB - 1) div BPB]) (balloc_block sb)) (\<lambda>r.
     case r of Some a \<Rightarrow> ret a | None \<Rightarrow> panic ''balloc: out of blocks''))"
  by (simp add: balloc_def balloc_block_def [abs_def])

lemma balloc_block_full:
  assumes r: "fs_ready s" and rm: "room s 0" and ok: "map_ok s" and k: "k * BPB < sb_size (fs_sb s)"
    and full: "\<And>b. b < sb_size (fs_sb s) \<Longrightarrow> b div BPB = k \<Longrightarrow> used s b"
  shows "\<exists>t. balloc_block (fs_sb s) (k * BPB) s = Ok None t \<and> looked s t"
proof -
  let ?n = "BBLOCK (k * BPB) (fs_sb s)"
  have n: "?n < disksize s" using ok k by (auto simp: map_ok_def map_block_def)
  obtain i s1 t where t: "bread ROOTDEV ?n s = Ok i s1" "b_data (bufn s1 i) = blk s ?n"
    "brelse i s1 = Ok () t" "looked s t" using look_block [OF r rm n] by blast
  have "blk s ?n ! (bi div 8) AND bit_mask bi \<noteq> 0" if "bi < min BPB (sb_size (fs_sb s) - k * BPB)" for bi
  proof -
    have bi: "bi < BPB" "k * BPB + bi < sb_size (fs_sb s)" using that by auto
    then have "(k * BPB + bi) div BPB = k" by (simp add: BPB_def BSIZE_def)
    then show ?thesis using full [OF bi(2)] used_scan [OF bi(1), of s k] by simp
  qed
  then have "for_each [0..<min BPB (sb_size (fs_sb s) - k * BPB)] (\<lambda>bi.
      bind (reads (\<lambda>s. b_data (bufn s i))) (\<lambda>d.
      if d ! (bi div 8) AND bit_mask bi = 0 then
        bind (modify (set_data i (d[bi div 8 := d ! (bi div 8) OR bit_mask bi]))) (\<lambda>_.
        bind (log_write i) (\<lambda>_. bind (brelse i) (\<lambda>_. bind (bzero ROOTDEV (k * BPB + bi)) (\<lambda>_.
        ret (Some (k * BPB + bi))))))
      else ret None)) s1 = Ok None s1"
    by (intro for_each_none) (simp add: t(2))
  with t show ?thesis by (auto simp: balloc_block_def)
qed

lemma balloc_block_hit:
  assumes r: "fs_ready s" and rm: "room s 2" and ok: "map_ok s" and b: "b < sb_size (fs_sb s)" "\<not> used s b"
    and first: "\<And>c. c < b \<Longrightarrow> used s c"
  shows "\<exists>t. balloc_block (fs_sb s) (b div BPB * BPB) s = Ok (Some b) t \<and> fs_ready t \<and> txn_frame {} s t
    \<and> blk t b = replicate BSIZE 0 \<and> (\<forall>n. n \<noteq> b \<longrightarrow> n \<noteq> map_block s b \<longrightarrow> blk t n = blk s n)
    \<and> (\<forall>c < sb_size (fs_sb s). used t c = (c = b \<or> used s c))"
proof -
  let ?k = "b div BPB" and ?bi = "b mod BPB" and ?n = "map_block s b"
  have kb: "?k * BPB + ?bi = b" by simp
  have nb: "BBLOCK (?k * BPB) (fs_sb s) = ?n" by (simp add: map_block_def BBLOCK_def BPB_def BSIZE_def)
  have n: "?n < disksize s" "blk_writable s ?n" "used s ?n" "b < disksize s" "blk_writable s b"
    using ok b by (auto simp: map_ok_def)
  have inv: "bio_inv s" using r by (simp add: fs_ready_def calm_def)
  let ?w = "\<lambda>d. d ! (?bi div 8) OR bit_mask ?bi"
  let ?d = "(blk s ?n)[?bi div 8 := ?w (blk s ?n)]"
  obtain i s1 s2 t1 where t: "bread ROOTDEV ?n s = Ok i s1" "b_data (bufn s1 i) = blk s ?n"
    "log_write i (set_data i ?d s1) = Ok () s2" "brelse i s2 = Ok () t1" and c: "changed ?n ?d s t1"
    using change_block [OF r _ n(1,2), of "\<lambda>d. d[?bi div 8 := ?w d]"] room_mono [OF rm] by auto
  have t1: "fs_ready t1" "room t1 1" "b < disksize t1" "blk_writable t1 b"
    using c rm n changed_frame [OF c] by (auto simp: changed_def numeral_2_eq_2)
  obtain u where u: "bzero ROOTDEV b t1 = Ok () u" "changed b (replicate BSIZE 0) t1 u"
    using bzero_returns [OF t1] by blast
  let ?body = "\<lambda>bi. bind (reads (\<lambda>s. b_data (bufn s i))) (\<lambda>d.
      if d ! (bi div 8) AND bit_mask bi = 0 then
        bind (modify (set_data i (d[bi div 8 := d ! (bi div 8) OR bit_mask bi]))) (\<lambda>_.
        bind (log_write i) (\<lambda>_. bind (brelse i) (\<lambda>_. bind (bzero ROOTDEV (?k * BPB + bi)) (\<lambda>_.
        ret (Some (?k * BPB + bi))))))
      else ret None)"
  have "find (\<lambda>bi. blk s ?n ! (bi div 8) AND bit_mask bi = 0) [0..<min BPB (sb_size (fs_sb s) - ?k * BPB)] = Some ?bi"
    unfolding find_upt_Some
  proof (intro conjI allI impI)
    have "?bi < BPB" by (simp add: BPB_def BSIZE_def)
    moreover have "?bi < sb_size (fs_sb s) - ?k * BPB" using b(1) kb by linarith
    ultimately show "?bi < min BPB (sb_size (fs_sb s) - ?k * BPB)" by simp
    show "blk s ?n ! (?bi div 8) AND bit_mask ?bi = 0"
      using used_scan [OF \<open>?bi < BPB\<close>, of s ?k] b(2) by (simp add: nb)
    fix j assume "j < ?bi"
    then show "\<not> blk s ?n ! (j div 8) AND bit_mask j = 0"
      using used_scan [of j s ?k] first [of "?k * BPB + j"] kb \<open>?bi < BPB\<close> by (simp add: nb)
  qed
  moreover have hit: "?body ?bi s1 = Ok (Some b) u"
    using t u(1) b(2) by (simp add: used_def)
  ultimately have "for_each [0..<min BPB (sb_size (fs_sb s) - ?k * BPB)] ?body s1 = Ok (Some b) u"
    by (subst for_each_first) (auto simp: t(2))
  then have run: "balloc_block (fs_sb s) (?k * BPB) s = Ok (Some b) u"
    using t(1) by (simp add: balloc_block_def nb)
  have sb: "fs_sb u = fs_sb s" and sb1: "fs_sb t1 = fs_sb s"
    using fs_fields(1) changed_frame [OF c] changed_frame [OF u(2)] by (metis)+
  have bits: "bit (?w d) k \<longleftrightarrow> bit (d ! (?bi div 8)) k \<or> k = b mod 8" if "k < 8" for d k
  proof -
    have "b mod BPB mod 8 = b mod 8" by (simp add: BPB_def mod_mod_cancel)
    then show ?thesis using that
      by (auto simp: bit_or_iff bit_mask_def bit_push_bit_iff bit_1_iff bit_exp_iff)
  qed
  have u1: "used t1 x = (if x = b then bit (?w (blk s ?n)) (b mod 8) else used s x)" for x
    by (rule used_upd) (use c sb1 length_blk [OF inv n(1)] bits in \<open>auto simp: changed_def\<close>)
  have "used u x = (x = b \<or> used s x)" if "x < sb_size (fs_sb s)" for x
  proof -
    have "map_block s x \<noteq> b" using ok that b(2) by (auto simp: map_ok_def)
    then have "used u x = used t1 x"
      using u(2) by (simp add: used_def map_block_def sb sb1 changed_def)
    then show ?thesis using u1 [of x] bits [of "b mod 8"] by auto
  qed
  moreover have "?n \<noteq> b" using n(3) b(2) by auto
  moreover have "txn_frame {} s u" using c u(2) fsb.frame_trans0 by (auto simp: changed_def)
  ultimately show ?thesis using run c u(2) by (auto simp: changed_def)
qed

text \<open>The map blocks before the one with the first free block are passed over.\<close>

lemma balloc_skips:
  assumes r: "fs_ready s" and rm: "room s 0" and ok: "map_ok s" and k: "k * BPB \<le> sb_size (fs_sb s)"
    and full: "\<And>b. b < k * BPB \<Longrightarrow> used s b"
  shows "\<exists>t. looked s t \<and> (\<forall>rest. for_each (map (\<lambda>k. k * BPB) [0..<k] @ rest) (balloc_block (fs_sb s)) s
    = for_each rest (balloc_block (fs_sb s)) t)"
proof (rule for_each_skips [where I = "looked s", OF looked_refl [OF r]])
  fix n t
  assume n: "n \<in> set (map (\<lambda>k. k * BPB) [0..<k])" and t: "looked s t"
  from n obtain j where j: "n = j * BPB" "j \<in> {0..<k}" unfolding set_map set_upt by (rule imageE)
  have sb: "fs_sb t = fs_sb s" using fs_fields(1) looked_frame [OF t] by metis
  have same: "used t b = used s b" "map_block t b = map_block s b" for b
    using t by (simp_all add: used_def map_block_def sb looked_def)
  have le: "j * BPB + BPB \<le> k * BPB" using j(2) mult_le_mono1 [of "Suc j" k BPB] by simp
  have "map_ok t" using ok looked_frame [OF t] by (simp add: map_ok_def same sb)
  moreover have "used t b" if "b div BPB = j" for b
    using le full [of b] same that div_less_iff_less_mult [of BPB b "Suc j"] by (auto simp: BPB_def BSIZE_def)
  moreover have "j * BPB < sb_size (fs_sb t)" using le k by (simp add: sb BPB_def BSIZE_def)
  ultimately obtain u where "balloc_block (fs_sb s) (j * BPB) t = Ok None u" "looked t u"
    using balloc_block_full [of t j] t looked_room [OF t] rm sb by (auto simp: looked_def)
  then show "\<exists>u. balloc_block (fs_sb s) n t = Ok None u \<and> looked s u"
    using looked_trans [OF t] j(1) by blast
qed

theorem balloc_returns:
  assumes r: "fs_ready s" and rm: "room s 2" and ok: "map_ok s" and b: "b < sb_size (fs_sb s)" "\<not> used s b"
    and first: "\<And>c. c < b \<Longrightarrow> used s c"
  shows "\<exists>t. balloc ROOTDEV s = Ok b t \<and> fs_ready t \<and> txn_frame {} s t
    \<and> blk t b = replicate BSIZE 0 \<and> (\<forall>n. n \<noteq> b \<longrightarrow> n \<noteq> map_block s b \<longrightarrow> blk t n = blk s n)
    \<and> (\<forall>c < sb_size (fs_sb s). used t c = (c = b \<or> used s c))"
proof -
  let ?k = "b div BPB" and ?K = "(sb_size (fs_sb s) + BPB - 1) div BPB"
  have pos: "0 < BPB" by (simp add: BPB_def BSIZE_def)
  have kb: "?k * BPB \<le> b" by simp
  have "?k < ?K"
  proof -
    have "b + 1 \<le> sb_size (fs_sb s)" using b(1) by simp
    then have "(b + BPB) div BPB \<le> ?K" by (intro div_le_mono) linarith
    moreover have "(b + BPB) div BPB = Suc ?k" using pos by (simp add: div_add_self2)
    ultimately show ?thesis by linarith
  qed
  then have split: "[0..<?K] = [0..<?k] @ ?k # [Suc ?k..<?K]"
    using upt_add_eq_append [of 0 ?k "?K - ?k"] by (simp add: upt_conv_Cons)
  have le: "?k * BPB \<le> sb_size (fs_sb s)" and f: "\<And>c. c < ?k * BPB \<Longrightarrow> used s c"
    using kb b(1) first by (linarith, meson less_le_trans)
  obtain t where t: "looked s t" "\<And>rest. for_each (map (\<lambda>k. k * BPB) [0..<?k] @ rest) (balloc_block (fs_sb s)) s
    = for_each rest (balloc_block (fs_sb s)) t"
    using balloc_skips [OF r room_mono [OF rm zero_le] ok le f] by blast
  have sb: "fs_sb t = fs_sb s" using fs_fields(1) looked_frame [OF t(1)] by metis
  have same: "used t x = used s x" "map_block t x = map_block s x" for x
    using t(1) by (simp_all add: used_def map_block_def sb looked_def)
  have "map_ok t" using ok looked_frame [OF t(1)] by (simp add: map_ok_def same sb)
  from balloc_block_hit [OF _ _ this, of b] obtain u where u:
    "balloc_block (fs_sb s) (?k * BPB) t = Ok (Some b) u" "fs_ready u" "txn_frame {} t u"
    "blk u b = replicate BSIZE 0" "\<And>n. n \<noteq> b \<Longrightarrow> n \<noteq> map_block s b \<Longrightarrow> blk u n = blk t n"
    "\<And>c. c < sb_size (fs_sb s) \<Longrightarrow> used u c = (c = b \<or> used s c)"
    using t(1) looked_room [OF t(1)] rm b first by (auto simp: sb same looked_def)
  have "for_each (map (\<lambda>k. k * BPB) [0..<?K]) (balloc_block (fs_sb s)) s = Ok (Some b) u"
    unfolding split using u(1) t(2) [of "map (\<lambda>k. k * BPB) (?k # [Suc ?k..<?K])"] by simp
  then have "balloc ROOTDEV s = Ok b u" unfolding balloc_blocks by simp
  moreover have "txn_frame {} s u" using t(1) u(3) fsb.frame_trans0 by (auto simp: looked_def)
  ultimately show ?thesis using u t(1) by (auto simp: looked_def)
qed

end
