(* ===== verification/File_Props.thy ===== *)
theory File_Props
  imports Fs_Props
begin

text \<open>
  Files as byte arrays: what \<open>bmap\<close>, \<open>readi\<close> and \<open>writei\<close> do to the contents of a file whose blocks are
  allocated.  \<open>fbyte s ip k\<close> is byte \<open>k\<close> of the file, found through the inode's addresses and its
  indirect block in the cache's view of the disk.
\<close>

definition baddr :: "'z fstate_scheme \<Rightarrow> nat \<Rightarrow> nat \<Rightarrow> nat" where
  "baddr s ip bn = (if bn < NDIRECT then i_addrs (ino s ip) ! bn
     else get32 (blk s (i_addrs (ino s ip) ! NDIRECT)) (4 * (bn - NDIRECT)))"

definition fbyte :: "'z fstate_scheme \<Rightarrow> nat \<Rightarrow> nat \<Rightarrow> uchar" where
  "fbyte s ip k = blk s (baddr s ip (k div BSIZE)) ! (k mod BSIZE)"

definition contents :: "'z fstate_scheme \<Rightarrow> nat \<Rightarrow> bytes" where
  "contents s ip = map (fbyte s ip) [0..<i_size (ino s ip)]"

definition mapped :: "'z fstate_scheme \<Rightarrow> nat \<Rightarrow> nat \<Rightarrow> bool" where
  "mapped s ip bn \<longleftrightarrow> bn < MAXFILE \<and> baddr s ip bn \<noteq> 0 \<and> baddr s ip bn < disksize s
     \<and> (NDIRECT \<le> bn \<longrightarrow> i_addrs (ino s ip) ! NDIRECT \<noteq> 0 \<and> i_addrs (ino s ip) ! NDIRECT < disksize s)"

text \<open>The blocks of the file are its own: no two are the same and none is the indirect block.\<close>

definition file_ok :: "'z fstate_scheme \<Rightarrow> nat \<Rightarrow> nat \<Rightarrow> bool" where
  "file_ok s ip nb \<longleftrightarrow> i_dev (ino s ip) = ROOTDEV \<and> inj_on (baddr s ip) {..<nb}
     \<and> (\<forall>bn < nb. mapped s ip bn \<and> blk_writable s (baddr s ip bn)
          \<and> baddr s ip bn \<noteq> i_addrs (ino s ip) ! NDIRECT)"

lemma looked_file:
  fixes s t :: "'z fstate_scheme"
  assumes "looked s t"
  shows "baddr t = baddr s" "fbyte t = fbyte s" "mapped t = mapped s" "file_ok t = file_ok s"
    "ino t = ino s" "contents t = contents s"
proof -
  have i: "ino t = ino s" and b: "blk t = blk s" and d: "disksize t = disksize s"
    and w: "blk_writable t = blk_writable s"
    using fs_fields(3) looked_frame [OF assms] assms by (auto simp: looked_def)
  show ba: "baddr t = baddr s" by (simp add: baddr_def fun_eq_iff i b)
  show fb: "fbyte t = fbyte s" by (simp add: fbyte_def fun_eq_iff ba b)
  show m: "mapped t = mapped s" by (simp add: mapped_def fun_eq_iff ba d i)
  show "file_ok t = file_ok s" by (simp add: file_ok_def fun_eq_iff ba m i w)
  show "ino t = ino s" by (rule i)
  show "contents t = contents s" by (simp add: contents_def fun_eq_iff fb i)
qed

lemma bmap_mapped:
  assumes r: "fs_ready s" and rm: "room s 0" and m: "mapped s ip bn" and dev: "i_dev (ino s ip) = ROOTDEV"
  shows "\<exists>t. bmap ip bn s = Ok (baddr s ip bn) t \<and> looked s t"
proof (cases "bn < NDIRECT")
  case True
  then have "bmap ip bn s = Ok (baddr s ip bn) s"
    using m by (simp add: bmap_def mapped_def baddr_def)
  then show ?thesis using looked_refl [OF r] by blast
next
  case False
  let ?a = "i_addrs (ino s ip) ! NDIRECT" and ?k = "bn - NDIRECT"
  have a: "?a \<noteq> 0" "?a < disksize s" "?k < NINDIRECT" "baddr s ip bn \<noteq> 0"
    using m False by (auto simp: mapped_def MAXFILE_def)
  have ba: "baddr s ip bn = get32 (blk s ?a) (4 * ?k)" using False by (simp add: baddr_def)
  obtain i s1 t where t: "bread ROOTDEV ?a s = Ok i s1" "b_data (bufn s1 i) = blk s ?a"
    "brelse i s1 = Ok () t" "looked s t" using look_block [OF r rm a(2)] by blast
  have "bmap ip bn s = Ok (baddr s ip bn) t"
    using False a t dev by (simp add: bmap_def Let_def ba)
  with t(4) show ?thesis by blast
qed

subsection \<open>readi\<close>

lemma map_upt_slice:
  assumes "off div BSIZE = (off + m - 1) div BSIZE" and "length d = BSIZE" and "0 < m"
  shows "map (\<lambda>k. d ! (k mod BSIZE)) [off..<off + m] = slice (off mod BSIZE) m d"
proof (rule nth_equalityI)
  have pos: "0 < BSIZE" by (simp add: BSIZE_def)
  have eq: "(off + i) mod BSIZE = off mod BSIZE + i" if "i < m" for i
  proof -
    have "off div BSIZE \<le> (off + i) div BSIZE" "(off + i) div BSIZE \<le> (off + m - 1) div BSIZE"
      using that by (auto intro!: div_le_mono)
    then have q: "(off + i) div BSIZE = off div BSIZE" using assms(1) by simp
    have "off + i = BSIZE * (off div BSIZE) + (off + i) mod BSIZE"
      using mult_div_mod_eq [of BSIZE "off + i"] unfolding q by simp
    moreover have "off = BSIZE * (off div BSIZE) + off mod BSIZE" by simp
    ultimately show ?thesis by linarith
  qed
  have "off mod BSIZE + (m - 1) < BSIZE" using eq [of "m - 1"] assms(3) pos mod_less_divisor by (metis diff_less zero_less_one)
  then show l: "length (map (\<lambda>k. d ! (k mod BSIZE)) [off..<off + m]) = length (slice (off mod BSIZE) m d)"
    using assms(2,3) by simp
  fix i assume "i < length (map (\<lambda>k. d ! (k mod BSIZE)) [off..<off + m])"
  then show "map (\<lambda>k. d ! (k mod BSIZE)) [off..<off + m] ! i = slice (off mod BSIZE) m d ! i"
    using eq [of i] \<open>off mod BSIZE + (m - 1) < BSIZE\<close> assms(2) by simp
qed

text \<open>One step of the loops: the bytes of the block at \<open>off\<close> that the request covers.\<close>

lemma chunk_in_block:
  fixes off n :: nat
  assumes "0 < n"
  defines "m \<equiv> min n (BSIZE - off mod BSIZE)"
  shows "0 < m" "m \<le> n" "off div BSIZE = (off + m - 1) div BSIZE" "off mod BSIZE + m \<le> BSIZE"
    and "m < n \<Longrightarrow> (off + m) div BSIZE = Suc (off div BSIZE) \<and> (off + m) mod BSIZE = 0"
proof -
  have lt: "off mod BSIZE < BSIZE" by (simp add: BSIZE_def)
  then show m: "0 < m" "m \<le> n" and le: "off mod BSIZE + m \<le> BSIZE" using assms by auto
  have off: "off = BSIZE * (off div BSIZE) + off mod BSIZE" by simp
  have "off + m - 1 = BSIZE * (off div BSIZE) + (off mod BSIZE + m - 1)" using off m(1) by linarith
  moreover have "off mod BSIZE + m - 1 < BSIZE" using le m(1) lt by linarith
  ultimately show "off div BSIZE = (off + m - 1) div BSIZE"
    by (metis div_less div_mult_self4 add.right_neutral lt gr_zeroI not_less_zero)
  assume "m < n"
  then have "m = BSIZE - off mod BSIZE" by (simp add: m_def)
  then have "off + m = BSIZE * (off div BSIZE) + BSIZE" using off lt by linarith
  then have "off + m = BSIZE * Suc (off div BSIZE)" by simp
  then show "(off + m) div BSIZE = Suc (off div BSIZE) \<and> (off + m) mod BSIZE = 0"
    using lt by (metis mod_mult_self1_is_0 nonzero_mult_div_cancel_left not_less_zero)
qed

lemma readi_loop_returns:
  assumes "fs_ready s" and "room s 0" and "i_dev (ino s ip) = ROOTDEV"
    and "\<And>k. off \<le> k \<Longrightarrow> k < off + n \<Longrightarrow> mapped s ip (k div BSIZE)"
  shows "\<exists>t. readi_loop ip off n s = Ok (map (fbyte s ip) [off..<off + n]) t \<and> looked s t"
  using assms
proof (induction n arbitrary: s off rule: less_induct)
  case (less n s off)
  show ?case
  proof (cases "n = 0")
    case True
    then show ?thesis using looked_refl [OF less.prems(1)] by (simp add: readi_loop.simps)
  next
    case False
    let ?m = "min n (BSIZE - off mod BSIZE)" and ?a = "baddr s ip (off div BSIZE)"
    note ch = chunk_in_block [of n off, OF False [unfolded neq0_conv]]
    have mp: "mapped s ip (off div BSIZE)" using less.prems(4) [of off] False by simp
    obtain t1 where t1: "bmap ip (off div BSIZE) s = Ok ?a t1" "looked s t1"
      using bmap_mapped [OF less.prems(1,2) mp less.prems(3)] by blast
    have r1: "fs_ready t1" "room t1 0" "?a < disksize t1"
      using t1(2) less.prems(2) looked_room [OF t1(2)] looked_frame [OF t1(2)] mp
      by (auto simp: looked_def mapped_def)
    obtain i s1 t2 where t2: "bread ROOTDEV ?a t1 = Ok i s1" "b_data (bufn s1 i) = blk t1 ?a"
      "brelse i s1 = Ok () t2" "looked t1 t2" using look_block [OF r1] by blast
    have l2: "looked s t2" by (rule looked_trans [OF t1(2) t2(4)])
    note f2 = looked_file [OF l2]
    obtain t where t: "readi_loop ip (off + ?m) (n - ?m) t2
        = Ok (map (fbyte t2 ip) [off + ?m..<off + ?m + (n - ?m)]) t" "looked t2 t"
      using less.IH [of "n - ?m" t2 "off + ?m"] False ch less.prems l2 looked_room [OF l2] f2
      by (auto simp: looked_def)
    have "bio_inv s" using less.prems(1) by (simp add: fs_ready_def calm_def)
    then have len: "length (blk s ?a) = BSIZE" using length_blk mp by (auto simp: mapped_def)
    have "map (fbyte s ip) [off..<off + ?m] = map (\<lambda>k. blk s ?a ! (k mod BSIZE)) [off..<off + ?m]"
    proof (rule map_cong [OF refl])
      fix k assume "k \<in> set [off..<off + ?m]"
      then have "off div BSIZE \<le> k div BSIZE" "k div BSIZE \<le> (off + ?m - 1) div BSIZE"
        by (auto intro!: div_le_mono)
      then have "k div BSIZE = off div BSIZE" using ch(3) by simp
      then show "fbyte s ip k = blk s ?a ! (k mod BSIZE)" by (simp add: fbyte_def)
    qed
    then have chunk: "slice (off mod BSIZE) ?m (blk s ?a) = map (fbyte s ip) [off..<off + ?m]"
      using map_upt_slice [OF ch(3) len ch(1)] by simp
    have "[off..<off + n] = [off..<off + ?m] @ [off + ?m..<off + ?m + (n - ?m)]"
      using upt_add_eq_append [of off "off + ?m" "n - ?m"] ch(2) by simp
    moreover have "blk t1 = blk s" "ino t1 = ino s" using t1(2) looked_file [OF t1(2)] by (auto simp: looked_def)
    ultimately have "readi_loop ip off n s = Ok (map (fbyte s ip) [off..<off + n]) t"
      using False t1(1) t2 t(1) less.prems(3) chunk f2 by (subst readi_loop.simps) (simp add: Let_def)
    then show ?thesis using looked_trans [OF l2 t(2)] by blast
  qed
qed


subsection \<open>writei\<close>

text \<open>The blocks that a write of \<open>n\<close> bytes at \<open>off\<close> touches.\<close>

definition touched :: "nat \<Rightarrow> nat \<Rightarrow> nat" where
  "touched off n = (if n = 0 then 0 else (off + n - 1) div BSIZE - off div BSIZE + 1)"

lemma touched_step:
  fixes off n :: nat
  assumes "0 < n"
  shows "touched off n = Suc (touched (off + min n (BSIZE - off mod BSIZE)) (n - min n (BSIZE - off mod BSIZE)))"
proof -
  let ?m = "min n (BSIZE - off mod BSIZE)"
  note ch = chunk_in_block [of n off, OF assms]
  show ?thesis
  proof (cases "?m < n")
    case True
    have c: "(off + ?m) div BSIZE = Suc (off div BSIZE)" using ch(5) [OF True] by blast
    have "(off + ?m) div BSIZE \<le> (off + n - 1) div BSIZE" using True by (intro div_le_mono) linarith
    then have a: "Suc (off div BSIZE) \<le> (off + n - 1) div BSIZE" unfolding c .
    have d: "off + ?m + (n - ?m) - 1 = off + n - 1" using ch(2) by simp
    have "(off + n - 1) div BSIZE - off div BSIZE + 1
        = Suc ((off + ?m + (n - ?m) - 1) div BSIZE - (off + ?m) div BSIZE + 1)"
      unfolding d c using a by linarith
    then show ?thesis unfolding touched_def using True assms by auto
  next
    case False
    then have "?m = n" using ch(2) by simp
    then show ?thesis using ch(3) assms by (simp add: touched_def)
  qed
qed

text \<open>A block of the file is overwritten: the file keeps its blocks, and the bytes are the new ones.\<close>

lemma block_written:
  assumes ok: "file_ok s ip nb" and c: "changed (baddr s ip b) d s t" and b: "b < nb"
  shows "file_ok t ip nb" and "bn < nb \<Longrightarrow> baddr t ip bn = baddr s ip bn"
    and "k < nb * BSIZE \<Longrightarrow> fbyte t ip k = (if k div BSIZE = b then d ! (k mod BSIZE) else fbyte s ip k)"
proof -
  have i: "ino t = ino s" and d: "disksize t = disksize s" and w: "blk_writable t = blk_writable s"
    and bt: "blk t = (blk s)(baddr s ip b := d)"
    using fs_fields(3) changed_frame [OF c] c by (auto simp: changed_def)
  have ind: "baddr s ip b \<noteq> i_addrs (ino s ip) ! NDIRECT" using ok b by (simp add: file_ok_def)
  have ba: "baddr t ip bn = baddr s ip bn" for bn using ind by (simp add: baddr_def i bt)
  have "mapped t ip bn = mapped s ip bn" for bn by (simp add: mapped_def ba d i)
  moreover have "inj_on (baddr t ip) {..<nb} = inj_on (baddr s ip) {..<nb}" by (simp add: inj_on_def ba)
  ultimately show "file_ok t ip nb" using ok by (simp add: file_ok_def ba i w)
  show "bn < nb \<Longrightarrow> baddr t ip bn = baddr s ip bn" by (rule ba)
  assume "k < nb * BSIZE"
  then have "k div BSIZE < nb" by (simp add: less_mult_imp_div_less)
  then have "baddr s ip (k div BSIZE) = baddr s ip b \<longleftrightarrow> k div BSIZE = b"
    using ok b by (auto simp: file_ok_def inj_on_def)
  then show "fbyte t ip k = (if k div BSIZE = b then d ! (k mod BSIZE) else fbyte s ip k)"
    by (simp add: fbyte_def ba bt)
qed

lemma blit_byte:
  fixes off m k :: nat
  assumes "0 < m" "off div BSIZE = (off + m - 1) div BSIZE" "off mod BSIZE + m \<le> BSIZE"
    and "length d = BSIZE" "m \<le> length src" "k div BSIZE = off div BSIZE"
  shows "blit (off mod BSIZE) (take m src) d ! (k mod BSIZE)
    = (if off \<le> k \<and> k < off + m then src ! (k - off) else d ! (k mod BSIZE))"
proof -
  have "k = BSIZE * (off div BSIZE) + k mod BSIZE" "off = BSIZE * (off div BSIZE) + off mod BSIZE"
    using mult_div_mod_eq [of BSIZE k] unfolding assms(6) by simp_all
  then have "off mod BSIZE \<le> k mod BSIZE \<longleftrightarrow> off \<le> k" "k mod BSIZE < off mod BSIZE + m \<longleftrightarrow> k < off + m"
    "off \<le> k \<Longrightarrow> k mod BSIZE - off mod BSIZE = k - off" by linarith+
  moreover have "k mod BSIZE < BSIZE" by (simp add: BSIZE_def)
  ultimately show ?thesis using assms by (auto simp: nth_blit min_absorb2)
qed

lemma writei_loop_returns:
  assumes "fs_ready s" and "room s (touched off (length src))" and "file_ok s ip nb"
    and "off + length src \<le> nb * BSIZE"
  shows "\<exists>t. writei_loop ip off src s = Ok (off + length src) t \<and> fs_ready t \<and> txn_frame {} s t
    \<and> file_ok t ip nb \<and> room t 0
    \<and> (\<forall>k < nb * BSIZE. fbyte t ip k = (if off \<le> k \<and> k < off + length src then src ! (k - off) else fbyte s ip k))"
  using assms
proof (induction "length src" arbitrary: s off src rule: less_induct)
  case (less src s off)
  show ?case
  proof (cases "src = []")
    case True
    then show ?thesis using less.prems by (auto simp: writei_loop.simps fsb.frame_refl touched_def)
  next
    case False
    let ?n = "length src" and ?b = "off div BSIZE"
    let ?m = "min ?n (BSIZE - off mod BSIZE)" and ?a = "baddr s ip ?b"
    have pos: "0 < ?n" using False by simp
    note ch = chunk_in_block [of ?n off, OF pos]
    have dev: "i_dev (ino s ip) = ROOTDEV" using less.prems(3) by (simp add: file_ok_def)
    have "off < nb * BSIZE" using less.prems(4) pos by linarith
    then have b: "?b < nb" by (rule less_mult_imp_div_less)
    then have mp: "mapped s ip ?b" "blk_writable s ?a" using less.prems(3) by (auto simp: file_ok_def)
    have rm: "room s (Suc (touched (off + ?m) (?n - ?m)))" using less.prems(2) touched_step [OF pos] by simp
    obtain t1 where t1: "bmap ip ?b s = Ok ?a t1" "looked s t1"
      using bmap_mapped [OF less.prems(1) _ mp(1) dev] room_mono [OF rm] by blast
    note f1 = looked_file [OF t1(2)]
    have r1: "fs_ready t1" "room t1 1" "?a < disksize t1" "blk_writable t1 ?a"
      using t1(2) looked_room [OF t1(2)] room_mono [OF rm, of 1] looked_frame [OF t1(2)] mp
      by (auto simp: looked_def mapped_def)
    let ?f = "blit (off mod BSIZE) (take ?m src)"
    have lf: "length d = BSIZE \<Longrightarrow> length (?f d) = BSIZE" for d using ch(4) by simp
    obtain i s1 s2 t2 where t2: "bread ROOTDEV ?a t1 = Ok i s1" "b_data (bufn s1 i) = blk t1 ?a"
      "log_write i (set_data i (?f (blk t1 ?a)) s1) = Ok () s2" "brelse i s2 = Ok () t2"
      and c: "changed ?a (?f (blk t1 ?a)) t1 t2" using change_block [OF r1, of ?f, OF lf] by blast
    have ok1: "file_ok t1 ip nb" using less.prems(3) f1 by simp
    have c': "changed (baddr t1 ip ?b) (?f (blk t1 ?a)) t1 t2" using c f1 by simp
    note w = block_written [OF ok1 c' b]
    have len: "length (blk t1 ?a) = BSIZE"
      using r1 length_blk by (auto simp: fs_ready_def calm_def)
    have step: "fbyte t2 ip k = (if off \<le> k \<and> k < off + ?m then src ! (k - off) else fbyte s ip k)"
      if k: "k < nb * BSIZE" for k
    proof (cases "k div BSIZE = ?b")
      case True
      then show ?thesis
        using w(3) [OF k] blit_byte [OF ch(1,3,4) len _ True, of src] ch(2) f1 t1(2)
        by (simp add: fbyte_def looked_def)
    next
      case False
      have "\<not> (off \<le> k \<and> k < off + ?m)"
      proof
        assume "off \<le> k \<and> k < off + ?m"
        then have "?b \<le> k div BSIZE" "k div BSIZE \<le> (off + ?m - 1) div BSIZE"
          by (auto intro!: div_le_mono)
        with False ch(3) show False by simp
      qed
      then show ?thesis using w(3) [OF k] False f1 by auto
    qed
    have r2: "fs_ready t2" "room t2 (touched (off + ?m) (length (drop ?m src)))"
      using c rm looked_room [OF t1(2)] by (auto simp: changed_def)
    have lt: "length (drop ?m src) < ?n" using ch(1) pos by simp
    have bound: "off + ?m + length (drop ?m src) \<le> nb * BSIZE" using less.prems(4) ch(2) by simp
    obtain t where t: "writei_loop ip (off + ?m) (drop ?m src) t2 = Ok (off + ?m + length (drop ?m src)) t"
      "fs_ready t" "txn_frame {} t2 t" "file_ok t ip nb \<and> room t 0"
      "\<And>k. k < nb * BSIZE \<Longrightarrow> fbyte t ip k = (if off + ?m \<le> k \<and> k < off + ?m + length (drop ?m src)
         then drop ?m src ! (k - (off + ?m)) else fbyte t2 ip k)"
      using less.hyps [OF lt r2 w(1) bound] by blast
    have "fbyte t ip k = (if off \<le> k \<and> k < off + ?n then src ! (k - off) else fbyte s ip k)"
      if "k < nb * BSIZE" for k
      using t(5) [OF that] step [OF that] ch(2) by (auto simp: add.commute)
    moreover have "writei_loop ip off src s = Ok (off + ?n) t"
      using False t1(1) t2 t(1) dev f1 ch(2) by (subst writei_loop.simps) (simp add: Let_def)
    moreover have "txn_frame {} s t1" "txn_frame {} t1 t2"
      using t1(2) c by (simp_all add: looked_def changed_def)
    from fsb.frame_trans0 [OF fsb.frame_trans0 [OF this] t(3)] have "txn_frame {} s t" .
    ultimately show ?thesis using t(2,4) by blast
  qed
qed

lemma txn_frame_ino:
  assumes "txn_frame {} s t"
  shows "ino t = ino s" and "fs_sb t = fs_sb s"
  using fs_fields [of t s] assms by (auto simp: txn_frame_def)

theorem writei_returns:
  assumes r: "fs_ready s" and rm: "room s (touched off (length src))" and ok: "file_ok s ip nb"
    and ty: "i_type (ino s ip) \<noteq> T_DEV" and sz: "off + length src \<le> i_size (ino s ip)"
    and nb: "i_size (ino s ip) \<le> nb * BSIZE" "i_size (ino s ip) \<le> MAXFILE * BSIZE"
  shows "\<exists>t. writei dsw ip src off s = Ok (int (length src)) t \<and> fs_ready t \<and> txn_frame {} s t
    \<and> file_ok t ip nb \<and> room t 0 \<and> contents t ip = blit off src (contents s ip)"
proof -
  have w: "wrap32 (off + length src) = off + length src"
    using sz nb(2) by (simp add: wrap32_def MAXFILE_def NDIRECT_def NINDIRECT_def BSIZE_def)
  obtain t where t: "writei_loop ip off src s = Ok (off + length src) t" "fs_ready t" "txn_frame {} s t"
    "file_ok t ip nb \<and> room t 0" "\<And>k. k < nb * BSIZE \<Longrightarrow> fbyte t ip k =
      (if off \<le> k \<and> k < off + length src then src ! (k - off) else fbyte s ip k)"
    using writei_loop_returns [OF r rm ok, of] sz nb(1) by (meson order_trans)
  have i: "ino t = ino s" by (rule txn_frame_ino [OF t(3)])
  have "writei dsw ip src off s = Ok (int (length src)) t"
    using ty sz nb t(1) by (auto simp: writei_def Let_def w i)
  moreover have "contents t ip = blit off src (contents s ip)"
    using sz nb(1) t(5) by (intro nth_equalityI) (auto simp: contents_def i nth_blit)
  ultimately show ?thesis using t by blast
qed

theorem readi_returns:
  assumes r: "fs_ready s" and rm: "room s 0" and ok: "file_ok s ip nb"
    and ty: "i_type (ino s ip) \<noteq> T_DEV" and off: "off \<le> i_size (ino s ip)" and n: "off + n < 4294967296"
    and nb: "i_size (ino s ip) \<le> nb * BSIZE"
  shows "\<exists>t. readi dsw ip off n s = Ok (int (min n (i_size (ino s ip) - off)), slice off n (contents s ip)) t
    \<and> looked s t"
proof -
  let ?k = "min n (i_size (ino s ip) - off)"
  have w: "wrap32 (off + n) = off + n" using n by (simp add: wrap32_def)
  have "mapped s ip (k div BSIZE)" if "off \<le> k" "k < off + ?k" for k
  proof -
    have "k < nb * BSIZE" using that nb by linarith
    then show ?thesis using ok by (simp add: file_ok_def less_mult_imp_div_less)
  qed
  then obtain t where t: "readi_loop ip off ?k s = Ok (map (fbyte s ip) [off..<off + ?k]) t" "looked s t"
    using readi_loop_returns [OF r rm, of ip off ?k] ok by (auto simp: file_ok_def)
  have "map (fbyte s ip) [off..<off + ?k] = slice off n (contents s ip)"
    by (rule nth_equalityI) (auto simp: contents_def)
  moreover have "(if off + n > i_size (ino s ip) then i_size (ino s ip) - off else n) = ?k"
    using off by auto
  ultimately show ?thesis using t ty off by (auto simp: readi_def w Let_def)
qed

end
