(* ===== verification/Dir_Props.thy ===== *)
theory Dir_Props
  imports File_Props
begin

text \<open>
  Directories: the entries in a directory's contents, and names as C strings of at most \<open>DIRSIZ\<close>
  characters.
\<close>

subsection \<open>Names\<close>

text \<open>What the code may pass as a name: a string with its NUL, or at least \<open>DIRSIZ\<close> characters.\<close>

definition name_ok :: "bytes \<Rightarrow> bool" where
  "name_ok s \<longleftrightarrow> DIRSIZ \<le> length s \<or> 0 \<in> set s"

definition cname :: "bytes \<Rightarrow> bytes" where
  "cname s = takeWhile (\<lambda>c. c \<noteq> 0) (take DIRSIZ s)"

lemma strncmp_takeWhile:
  "strncmp p q n m = 0 \<longleftrightarrow> takeWhile (\<lambda>c. c \<noteq> 0) (map (\<lambda>i. m (p + i)) [0..<n])
     = takeWhile (\<lambda>c. c \<noteq> 0) (map (\<lambda>i. m (q + i)) [0..<n])"
proof (induction n arbitrary: p q)
  case (Suc n)
  have "map (\<lambda>i. m (a + i)) [0..<Suc n] = m a # map (\<lambda>i. m (Suc a + i)) [0..<n]" for a
    by (simp add: map_upt_Suc del: upt_Suc)
  then show ?case using Suc.IH [of "Suc p" "Suc q"] by (auto simp: word_uint_eq_iff)
qed simp

text \<open>A name followed by other bytes in memory.\<close>

lemma cname_prefix:
  assumes "name_ok s"
  shows "takeWhile (\<lambda>c. c \<noteq> 0) (map (\<lambda>i. mem_of (s @ t) i) [0..<DIRSIZ]) = cname s"
proof (cases "DIRSIZ \<le> length s")
  case True
  have "map (\<lambda>i. mem_of (s @ t) i) [0..<DIRSIZ] = take DIRSIZ s"
    by (rule nth_equalityI) (use True in \<open>simp_all add: mem_of_def nth_append\<close>)
  then show ?thesis by (simp add: cname_def)
next
  case False
  then have z: "0 \<in> set s" using assms by (simp add: name_ok_def)
  have "map (\<lambda>i. mem_of (s @ t) i) [0..<DIRSIZ] = s @ map (\<lambda>i. mem_of (s @ t) i) [length s..<DIRSIZ]"
    by (rule nth_equalityI) (use False in \<open>auto simp: mem_of_def nth_append\<close>)
  moreover have "takeWhile (\<lambda>c. c \<noteq> 0) (s @ t') = takeWhile (\<lambda>c. c \<noteq> 0) s" for t' :: bytes
    using z by (auto intro!: takeWhile_append1)
  ultimately show ?thesis using False by (simp add: cname_def)
qed

lemma namecmp_iff:
  assumes "name_ok s" and "length t = DIRSIZ"
  shows "namecmp s t = 0 \<longleftrightarrow> cname s = cname t"
proof -
  have "map (\<lambda>i. mem_of (s @ t) (length s + i)) [0..<DIRSIZ] = t"
    by (rule nth_equalityI) (use assms(2) in \<open>simp_all add: mem_of_def nth_append\<close>)
  then show ?thesis
    using cname_prefix [OF assms(1), of t] assms(2) by (simp add: namecmp_def strncmp_takeWhile cname_def)
qed

text \<open>The name that \<open>strncpy\<close> puts in an entry.\<close>

lemma strncpy_loop_copies:
  assumes "length xs \<le> n" and "\<forall>i < length xs. m (t + i) = xs ! i \<and> xs ! i \<noteq> 0" and "t + length xs \<le> s"
    and "length xs < n \<longrightarrow> t + length xs < s \<and> m (t + length xs) = 0"
  shows "map (strncpy_loop s t n m) [s..<s + n] = xs @ replicate (n - length xs) 0"
  using assms
proof (induction xs arbitrary: s t n m)
  case Nil
  have "map (strncpy_loop s t n m) [s..<s + n] = replicate n 0"
  proof (rule nth_equalityI)
    show "length (map (strncpy_loop s t n m) [s..<s + n]) = length (replicate n (0 :: uchar))" by simp
    fix i assume "i < length (map (strncpy_loop s t n m) [s..<s + n])"
    then have i: "i < n" by simp
    then obtain k where n: "n = Suc k" by (cases n) auto
    have "m t = 0" using Nil(4) n by simp
    then have "strncpy_loop s t n m (s + i) = 0" using i by (simp add: n zero_fill_apply)
    then show "map (strncpy_loop s t n m) [s..<s + n] ! i = replicate n 0 ! i" using i by (simp del: upt_Suc)
  qed
  then show ?case by simp
next
  case (Cons x xs)
  then obtain k where n: "n = Suc k" by (cases n) auto
  have x: "m t = x" "x \<noteq> 0" using Cons.prems(2) by fastforce+
  let ?m = "m(s := x)"
  have xs: "m (Suc t + i) = xs ! i \<and> xs ! i \<noteq> 0" if "i < length xs" for i
    using Cons.prems(2) that by fastforce
  have "map (strncpy_loop (Suc s) (Suc t) k ?m) [Suc s..<Suc s + k] = xs @ replicate (k - length xs) 0"
    by (rule Cons.IH) (use Cons.prems xs n in auto)
  moreover have "strncpy_loop (Suc s) (Suc t) k ?m s = x" by (simp add: strncpy_loop_frame)
  moreover have "[s..<s + n] = s # [Suc s..<Suc s + k]" by (simp add: n upt_rec)
  ultimately show ?case using x by (simp add: n del: upt_Suc)
qed

lemma length_cname: "length (cname s) \<le> DIRSIZ"
  unfolding cname_def by (rule order_trans [OF length_takeWhile_le]) simp

lemma cname_nth: "i < length (cname s) \<Longrightarrow> i < length s \<and> s ! i = cname s ! i \<and> cname s ! i \<noteq> 0"
proof -
  assume i: "i < length (cname s)"
  then have "i < length (take DIRSIZ s)" unfolding cname_def using length_takeWhile_le less_le_trans by blast
  moreover have "cname s ! i = take DIRSIZ s ! i" using i unfolding cname_def by (rule takeWhile_nth)
  moreover have "cname s ! i \<in> set (cname s)" using i by simp
  then have "cname s ! i \<noteq> 0" unfolding cname_def by (blast dest: set_takeWhileD)
  ultimately show ?thesis by simp
qed

lemma cname_end:
  assumes "name_ok s" and "length (cname s) < DIRSIZ"
  shows "length (cname s) < length s \<and> s ! length (cname s) = 0"
proof (cases "length (cname s) < length (take DIRSIZ s)")
  case True
  then show ?thesis using nth_length_takeWhile [of "\<lambda>c. c \<noteq> 0" "take DIRSIZ s"] by (simp add: cname_def)
next
  case False
  then have eq: "cname s = take DIRSIZ s"
    unfolding cname_def by (metis length_takeWhile_le linorder_not_less nle_le takeWhile_eq_take take_all)
  then have "length s < DIRSIZ" using assms(2) by (simp add: min_def split: if_splits)
  then have "0 \<in> set (cname s)" using assms(1) eq by (simp add: name_ok_def)
  then show ?thesis unfolding cname_def by (auto dest: set_takeWhileD)
qed

lemma make_dirent_parts:
  assumes "name_ok name" and "inum < 65536" and "length de = DIRENT_SIZE"
  shows "length (make_dirent name inum de) = DIRENT_SIZE" "de_inum (make_dirent name inum de) = inum"
    "de_name (make_dirent name inum de) = cname name @ replicate (DIRSIZ - length (cname name)) 0"
proof -
  let ?n = "length name" and ?x = "cname name"
  let ?c = "map (strncpy ?n 0 (int DIRSIZ) (mem_of name)) [?n..<?n + DIRSIZ]"
  have "map (strncpy_loop ?n 0 DIRSIZ (mem_of name)) [?n..<?n + DIRSIZ] = ?x @ replicate (DIRSIZ - length ?x) 0"
  proof (rule strncpy_loop_copies)
    show "length ?x \<le> DIRSIZ" by (rule length_cname)
    show "\<forall>i < length ?x. mem_of name (0 + i) = ?x ! i \<and> ?x ! i \<noteq> 0"
      using cname_nth [of _ name] by (auto simp: mem_of_def)
    have "length ?x \<le> ?n" unfolding cname_def by (rule order_trans [OF length_takeWhile_le]) simp
    then show "0 + length ?x \<le> ?n" by simp
    show "length ?x < DIRSIZ \<longrightarrow> 0 + length ?x < ?n \<and> mem_of name (0 + length ?x) = 0"
      using cname_end [OF assms(1)] by (simp add: mem_of_def)
  qed
  then have c: "?c = ?x @ replicate (DIRSIZ - length ?x) 0" by (simp add: strncpy_def)
  have lc: "length ?c = DIRSIZ" by simp
  have l: "length (blit 2 ?c de) = DIRENT_SIZE" using assms(3) by (simp add: DIRENT_SIZE_def DIRSIZ_def)
  then show "length (make_dirent name inum de) = DIRENT_SIZE" by (simp add: make_dirent_def)
  show "de_inum (make_dirent name inum de) = inum"
    using l assms(2) by (simp add: make_dirent_def de_inum_def get16_put16_same DIRENT_SIZE_def)
  have "slice 2 DIRSIZ (put16 (blit 2 ?c de) 0 inum) = slice 2 DIRSIZ (blit 2 ?c de)"
    by (rule nth_equalityI) (use l in \<open>simp_all add: put16_def DIRENT_SIZE_def DIRSIZ_def\<close>)
  also have "\<dots> = ?c" using slice_blit_same [of 2 ?c de] assms(3) lc by (simp add: DIRENT_SIZE_def DIRSIZ_def)
  finally show "de_name (make_dirent name inum de) = ?x @ replicate (DIRSIZ - length ?x) 0"
    by (simp only: make_dirent_def de_name_def c)
qed

lemma cname_padded: "cname (cname s @ replicate (DIRSIZ - length (cname s)) 0) = cname s"
proof -
  have "take DIRSIZ (cname s @ replicate (DIRSIZ - length (cname s)) 0) = cname s @ replicate (DIRSIZ - length (cname s)) 0"
    using length_cname [of s] by simp
  moreover have "\<forall>c \<in> set (cname s). c \<noteq> 0" by (auto simp: cname_def dest: set_takeWhileD)
  ultimately show ?thesis
    by (simp add: cname_def [of "_ @ _"] takeWhile_append takeWhile_replicate)
qed

subsection \<open>The entries of a directory\<close>

definition dirent :: "bytes \<Rightarrow> nat \<Rightarrow> bytes" where
  "dirent c k = slice (k * DIRENT_SIZE) DIRENT_SIZE c"

definition entries :: "bytes \<Rightarrow> nat" where
  "entries c = length c div DIRENT_SIZE"

definition dir_find :: "bytes \<Rightarrow> bytes \<Rightarrow> nat option" where
  "dir_find c name = find (\<lambda>k. de_inum (dirent c k) \<noteq> 0 \<and> cname (de_name (dirent c k)) = cname name) [0..<entries c]"

text \<open>The map from names to inode numbers that the contents of a directory stand for.\<close>

definition dir_entry :: "bytes \<Rightarrow> bytes \<Rightarrow> nat option" where
  "dir_entry c name = map_option (\<lambda>k. de_inum (dirent c k)) (dir_find c name)"

definition directory_ok :: "'z fstate_scheme \<Rightarrow> nat \<Rightarrow> nat \<Rightarrow> bool" where
  "directory_ok s dp nb \<longleftrightarrow> file_ok s dp nb \<and> i_type (ino s dp) = T_DIR \<and> i_size (ino s dp) mod DIRENT_SIZE = 0
     \<and> i_size (ino s dp) \<le> nb * BSIZE \<and> i_size (ino s dp) \<le> MAXFILE * BSIZE"

lemma dir_offs_entries:
  assumes "length c mod DIRENT_SIZE = 0"
  shows "dir_offs (length c) = map (\<lambda>k. k * DIRENT_SIZE) [0..<entries c]"
proof -
  have "(length c + DIRENT_SIZE - 1) div DIRENT_SIZE = entries c"
    using assms by (auto simp: entries_def DIRENT_SIZE_def)
  then show ?thesis by (simp add: dir_offs_def)
qed

lemma looked_directory: "looked s t \<Longrightarrow> directory_ok t dp nb = directory_ok s dp nb"
  by (simp add: directory_ok_def looked_file)

lemma entry_end:
  assumes "k < entries c"
  shows "k * DIRENT_SIZE + DIRENT_SIZE \<le> length c"
proof -
  have "Suc k \<le> length c div DIRENT_SIZE" using assms by (simp add: entries_def)
  then have "Suc k * DIRENT_SIZE \<le> length c" by (simp add: less_eq_div_iff_mult_less_eq DIRENT_SIZE_def)
  then show ?thesis by simp
qed

lemma read_entry:
  assumes r: "fs_ready s" "room s 0" and ok: "directory_ok s dp nb" and k: "k < entries (contents s dp)"
  shows "\<exists>t. readi dsw dp (k * DIRENT_SIZE) DIRENT_SIZE s = Ok (int DIRENT_SIZE, dirent (contents s dp) k) t \<and> looked s t"
proof -
  let ?sz = "i_size (ino s dp)"
  have c: "length (contents s dp) = ?sz" by (simp add: contents_def)
  have off: "k * DIRENT_SIZE + DIRENT_SIZE \<le> ?sz" using entry_end [OF k] c by simp
  have big: "?sz < 4294967296"
    using ok by (simp add: directory_ok_def MAXFILE_def NDIRECT_def NINDIRECT_def BSIZE_def)
  then show ?thesis
    using readi_returns [OF r, of dp nb "k * DIRENT_SIZE" DIRENT_SIZE dsw] ok off
    by (simp add: directory_ok_def dirent_def T_DIR_def T_DEV_def min_absorb1)
qed

lemma length_dirent: "k < entries c \<Longrightarrow> length (dirent c k) = DIRENT_SIZE"
  using entry_end [of k c] by (simp add: dirent_def)

lemma length_de_name: "length de = DIRENT_SIZE \<Longrightarrow> length (de_name de) = DIRSIZ"
  by (simp add: de_name_def DIRENT_SIZE_def DIRSIZ_def)

text \<open>A scan of a directory that stops at the first entry with a property.\<close>

lemma entry_scan:
  assumes r: "fs_ready s" and sz: "length c mod DIRENT_SIZE = 0"
    and step: "\<And>k t. k < entries c \<Longrightarrow> looked s t \<Longrightarrow> \<exists>u. looked s u \<and>
      body (k * DIRENT_SIZE) t = (if hit k then bind (h k) (\<lambda>x. ret (Some x)) u else Ok None u)"
  shows "case find hit [0..<entries c] of
      None \<Rightarrow> \<exists>t. for_each (dir_offs (length c)) body s = Ok None t \<and> looked s t
    | Some k \<Rightarrow> \<exists>t. looked s t \<and> for_each (dir_offs (length c)) body s = bind (h k) (\<lambda>x. ret (Some x)) t"
proof -
  let ?f = "\<lambda>k. k * DIRENT_SIZE"
  note run = dir_offs_entries [OF sz]
  have skip: "\<exists>t. looked s t \<and> (\<forall>rest. for_each (map ?f [0..<m] @ rest) body s = for_each rest body t)"
    if m: "m \<le> entries c" and no: "\<And>k. k < m \<Longrightarrow> \<not> hit k" for m
  proof (rule for_each_skips [where I = "looked s", OF looked_refl [OF r]])
    fix off t
    assume off: "off \<in> set (map ?f [0..<m])" and t: "looked s t"
    from off obtain k where k: "off = ?f k" "k \<in> {0..<m}" unfolding set_map set_upt by (rule imageE)
    then show "\<exists>u. body off t = Ok None u \<and> looked s u"
      using step [of k, OF _ t] no [of k] m by auto
  qed
  show ?thesis
  proof (cases "find hit [0..<entries c]")
    case None
    then have "\<not> hit k" if "k < entries c" for k using that unfolding find_None_iff by auto
    from skip [OF order_refl this] obtain t where
      t: "looked s t" "\<And>rest. for_each (map ?f [0..<entries c] @ rest) body s = for_each rest body t" by blast
    show ?thesis using None t(1) t(2) [of "[]"] by (auto simp: run)
  next
    case (Some k)
    then have k: "k < entries c" "hit k" "\<And>j. j < k \<Longrightarrow> \<not> hit j" unfolding find_upt_Some by auto
    obtain t where t: "looked s t" "\<And>rest. for_each (map ?f [0..<k] @ rest) body s = for_each rest body t"
      using skip [OF less_imp_le [OF k(1)] k(3)] by blast
    obtain u where u: "looked s u" "body (?f k) t = bind (h k) (\<lambda>x. ret (Some x)) u"
      using step [OF k(1) t(1)] k(2) by auto
    have "[0..<entries c] = [0..<k] @ k # [Suc k..<entries c]"
      using k(1) upt_add_eq_append [of 0 k "entries c - k"] by (simp add: upt_conv_Cons)
    then have "for_each (dir_offs (length c)) body s = for_each (?f k # map ?f [Suc k..<entries c]) body t"
      using t(2) [of "map ?f (k # [Suc k..<entries c])"] by (simp add: run)
    also have "\<dots> = bind (h k) (\<lambda>x. ret (Some x)) u"
      using u(2) by (cases "h k u") simp_all
    finally show ?thesis using u(1) Some by auto
  qed
qed

lemma bind_pair: "bind (bind m (\<lambda>ip. ret (ip, k))) (\<lambda>x. ret (Some x)) s = bind m (\<lambda>ip. ret (Some (ip, k))) s"
  by (cases "m s") simp_all

lemma dirlookup_run:
  assumes r: "fs_ready s" "room s 0" and ok: "directory_ok s dp nb" and nm: "name_ok name"
  shows "case dir_find (contents s dp) name of
      None \<Rightarrow> \<exists>t. dirlookup dsw dp name s = Ok None t \<and> looked s t
    | Some k \<Rightarrow> \<exists>t. looked s t \<and> dirlookup dsw dp name s
        = bind (bind (iget ROOTDEV (de_inum (dirent (contents s dp) k))) (\<lambda>ip. ret (ip, k * DIRENT_SIZE)))
            (\<lambda>x. ret (Some x)) t"
proof -
  let ?c = "contents s dp"
  let ?body = "\<lambda>off. bind (readi dsw dp off DIRENT_SIZE) (\<lambda>(r, de).
       bind (panic_if (r \<noteq> int DIRENT_SIZE) ''dirlookup read'') (\<lambda>_.
       if de_inum de = 0 then ret None
       else if namecmp name (de_name de) = 0 then
         bind (iget (i_dev (ino s dp)) (de_inum de)) (\<lambda>ip. ret (Some (ip, off)))
       else ret None))"
  have c: "length ?c = i_size (ino s dp)" by (simp add: contents_def)
  have run: "dirlookup dsw dp name s = for_each (dir_offs (length ?c)) ?body s"
    using ok by (simp add: dirlookup_def directory_ok_def c)
  have sz: "length ?c mod DIRENT_SIZE = 0" using ok by (simp add: directory_ok_def c)
  show ?thesis
    unfolding run dir_find_def
  proof (rule entry_scan [OF r(1) sz])
    fix k t
    assume k: "k < entries ?c" and t: "looked s t"
    have t': "fs_ready t" "room t 0" "directory_ok t dp nb" "contents t dp = ?c"
      using t looked_room [OF t] r(2) ok looked_directory [OF t] looked_file [OF t] by (auto simp: looked_def)
    obtain u where u: "readi dsw dp (k * DIRENT_SIZE) DIRENT_SIZE t = Ok (int DIRENT_SIZE, dirent ?c k) u"
      "looked t u"
      using read_entry [OF t'(1-3)] t'(4) k by metis
    have "namecmp name (de_name (dirent ?c k)) = 0 \<longleftrightarrow> cname (de_name (dirent ?c k)) = cname name"
      using namecmp_iff [OF nm length_de_name [OF length_dirent [OF k]]] by auto
    moreover have "i_dev (ino s dp) = ROOTDEV" using ok by (simp add: directory_ok_def file_ok_def)
    ultimately show "\<exists>u. looked s u \<and> ?body (k * DIRENT_SIZE) t
      = (if de_inum (dirent ?c k) \<noteq> 0 \<and> cname (de_name (dirent ?c k)) = cname name
         then bind (bind (iget ROOTDEV (de_inum (dirent ?c k))) (\<lambda>ip. ret (ip, k * DIRENT_SIZE)))
           (\<lambda>x. ret (Some x)) u else Ok None u)"
      using u looked_trans [OF t u(2)] by (intro exI [of _ u]) (simp add: bind_pair)
  qed
qed

lemma dirlookup_entry:
  assumes "fs_ready s" and "room s 0" and "directory_ok s dp nb" and "name_ok name"
  shows "case dir_entry (contents s dp) name of
      None \<Rightarrow> \<exists>t. dirlookup dsw dp name s = Ok None t
    | Some i \<Rightarrow> \<exists>t off. blk t = blk s \<and> dirlookup dsw dp name s
        = bind (iget ROOTDEV i) (\<lambda>ip. ret (Some (ip, off))) t"
proof (cases "dir_find (contents s dp) name")
  case None
  then show ?thesis using dirlookup_run [OF assms, of dsw] by (auto simp: dir_entry_def)
next
  case (Some k)
  then show ?thesis
    using dirlookup_run [OF assms, of dsw] by (auto simp: dir_entry_def looked_def bind_pair)
qed

subsection \<open>Linking a name\<close>

definition dir_slot :: "bytes \<Rightarrow> nat option" where
  "dir_slot c = find (\<lambda>k. de_inum (dirent c k) = 0) [0..<entries c]"

lemma dirent_blit:
  assumes "length d = DIRENT_SIZE" and "k < entries c" and "j < entries c"
  shows "dirent (blit (k * DIRENT_SIZE) d c) j = (if j = k then d else dirent c j)"
proof -
  have e: "k * DIRENT_SIZE + length d \<le> length c" using entry_end [OF assms(2)] assms(1) by simp
  have l: "length (dirent (blit (k * DIRENT_SIZE) d c) j) = DIRENT_SIZE"
    using entry_end [OF assms(3)] e by (simp add: dirent_def)
  show ?thesis
  proof (rule nth_equalityI)
    show "length (dirent (blit (k * DIRENT_SIZE) d c) j) = length (if j = k then d else dirent c j)"
      using l assms length_dirent [OF assms(3)] by simp
    fix i assume "i < length (dirent (blit (k * DIRENT_SIZE) d c) j)"
    then have i: "i < DIRENT_SIZE" using l by simp
    then have "j = k" if "k * DIRENT_SIZE \<le> j * DIRENT_SIZE + i" "j * DIRENT_SIZE + i < k * DIRENT_SIZE + DIRENT_SIZE"
      using that by (simp add: DIRENT_SIZE_def)
    then show "dirent (blit (k * DIRENT_SIZE) d c) j ! i = (if j = k then d else dirent c j) ! i"
      using i e entry_end [OF assms(3)] assms(1) by (auto simp: dirent_def nth_blit)
  qed
qed

text \<open>Writing an entry for a new name into a free slot updates the map at that name.\<close>

lemma dir_entry_link:
  fixes c :: bytes
  assumes nm: "name_ok name" and inum: "0 < inum" "inum < 65536" and k: "dir_slot c = Some k"
    and new: "dir_entry c name = None"
  defines "c' \<equiv> blit (k * DIRENT_SIZE) (make_dirent name inum (replicate DIRENT_SIZE 0)) c"
  shows "dir_entry c' name' = (if cname name' = cname name then Some inum else dir_entry c name')"
proof -
  let ?d = "make_dirent name inum (replicate DIRENT_SIZE 0)"
  have d: "length ?d = DIRENT_SIZE" "de_inum ?d = inum" "cname (de_name ?d) = cname name"
    using make_dirent_parts [OF nm inum(2)] cname_padded by simp_all
  have k': "k < entries c" "de_inum (dirent c k) = 0" using k unfolding dir_slot_def find_upt_Some by auto
  have e: "entries c' = entries c"
    using entry_end [OF k'(1)] d(1) by (simp add: c'_def entries_def)
  have dj: "dirent c' j = (if j = k then ?d else dirent c j)" if "j < entries c" for j
    unfolding c'_def by (rule dirent_blit [OF d(1) k'(1) that])
  have no: "\<not> (de_inum (dirent c j) \<noteq> 0 \<and> cname (de_name (dirent c j)) = cname name)" if "j < entries c" for j
    using new that by (auto simp: dir_entry_def dir_find_def find_None_iff)
  let ?hit = "\<lambda>c n j. de_inum (dirent c j) \<noteq> 0 \<and> cname (de_name (dirent c j)) = cname n"
  show ?thesis
  proof (cases "cname name' = cname name")
    case True
    have "find (?hit c' name') [0..<entries c'] = Some k"
      using no dj d inum(1) k'(1) True e unfolding find_upt_Some by auto
    then show ?thesis using dj [OF k'(1)] d(2) True by (simp add: dir_entry_def dir_find_def)
  next
    case False
    have "find (?hit c' name') [0..<entries c'] = find (?hit c name') [0..<entries c]"
      unfolding e by (rule find_cong [OF refl]) (use dj d(3) False k'(2) in auto)
    moreover have "j \<noteq> k \<and> j < entries c" if "find (?hit c name') [0..<entries c] = Some j" for j
      using that k'(2) unfolding find_upt_Some by auto
    ultimately show ?thesis
      using False dj by (auto simp: dir_entry_def dir_find_def split: option.split intro!: option.map_cong)
  qed
qed

end
