(* ===== verification/Dinode.thy ===== *)
theory Dinode
  imports Fs
begin

text \<open>On-disk inodes: \<open>put_dinode\<close> and \<open>get_dinode\<close> invert each other and keep to their place.\<close>

subsection \<open>On-disk inodes\<close>

text \<open>Values that fit the fields of a \<open>struct dinode\<close>.\<close>

definition is_short :: "int \<Rightarrow> bool" where
  "is_short v \<longleftrightarrow> - 32768 \<le> v \<and> v < 32768"

definition dinode_ok :: "dinode \<Rightarrow> bool" where
  "dinode_ok x \<longleftrightarrow> is_short (d_type x) \<and> is_short (d_major x) \<and> is_short (d_minor x)
     \<and> is_short (d_nlink x) \<and> d_size x < 4294967296 \<and> length (d_addrs x) = NDIRECT + 1
     \<and> (\<forall>a \<in> set (d_addrs x). a < 4294967296)"

lemma nth_put_short_other: "j < i \<or> i + 2 \<le> j \<Longrightarrow> put_short d i v ! j = d ! j"
  by (simp add: put_short_def nth_put16_other)

lemma get_short_cong: "(\<And>k. k < 2 \<Longrightarrow> d ! (i + k) = e ! (i + k)) \<Longrightarrow> get_short d i = get_short e i"
  unfolding get_short_def by (metis get16_cong)

lemma put_addrs:
  assumes "b + 4 * n \<le> length d"
  shows "length (fold (\<lambda>k d. put32 d (b + 4 * k) (f k)) [0..<n] d) = length d
    \<and> (\<forall>j. j < b \<or> b + 4 * n \<le> j \<longrightarrow> fold (\<lambda>k d. put32 d (b + 4 * k) (f k)) [0..<n] d ! j = d ! j)
    \<and> (\<forall>k < n. get32 (fold (\<lambda>k d. put32 d (b + 4 * k) (f k)) [0..<n] d) (b + 4 * k) = f k mod 4294967296)"
  using assms
proof (induction n)
  case (Suc n)
  let ?e = "fold (\<lambda>k d. put32 d (b + 4 * k) (f k)) [0..<n] d"
  have IH: "length ?e = length d" "\<And>j. j < b \<or> b + 4 * n \<le> j \<Longrightarrow> ?e ! j = d ! j"
    "\<And>k. k < n \<Longrightarrow> get32 ?e (b + 4 * k) = f k mod 4294967296" using Suc by auto
  have "get32 (put32 ?e (b + 4 * n) (f n)) (b + 4 * k) = f k mod 4294967296" if "k < Suc n" for k
    using that IH Suc.prems by (cases "k = n") (simp_all add: get32_put32_same get32_put32_other)
  then show ?case using IH Suc.prems by (auto simp: nth_put32_other)
qed simp

lemma put_dinode_get:
  assumes o: "off + DINODE_SIZE \<le> length d" and x: "dinode_ok x"
  shows "get_dinode (put_dinode off x d) off = x"
    and "length (put_dinode off x d) = length d"
    and "j < off \<or> off + DINODE_SIZE \<le> j \<Longrightarrow> put_dinode off x d ! j = d ! j"
proof -
  define d1 where "d1 = put_short d off (d_type x)"
  define d2 where "d2 = put_short d1 (off + 2) (d_major x)"
  define d3 where "d3 = put_short d2 (off + 4) (d_minor x)"
  define d4 where "d4 = put_short d3 (off + 6) (d_nlink x)"
  define d5 where "d5 = put32 d4 (off + 8) (d_size x)"
  define d6 where "d6 = fold (\<lambda>k d. put32 d (off + 12 + 4 * k) (d_addrs x ! k)) [0..<NDIRECT + 1] d5"
  have put: "put_dinode off x d = d6"
    by (simp add: put_dinode_def Let_def d1_def d2_def d3_def d4_def d5_def d6_def)
  have len: "length d1 = length d" "length d2 = length d" "length d3 = length d" "length d4 = length d"
    "length d5 = length d" by (simp_all add: d1_def d2_def d3_def d4_def d5_def)
  have room: "off + 12 + 4 * (NDIRECT + 1) \<le> length d5"
    using o len by (simp add: NDIRECT_def DINODE_SIZE_def)
  have a: "length d6 = length d5" "\<And>j. j < off + 12 \<or> off + 12 + 4 * (NDIRECT + 1) \<le> j \<Longrightarrow> d6 ! j = d5 ! j"
    "\<And>k. k < NDIRECT + 1 \<Longrightarrow> get32 d6 (off + 12 + 4 * k) = d_addrs x ! k mod 4294967296"
    using put_addrs [OF room] unfolding d6_def by blast+
  show "length (put_dinode off x d) = length d" using a(1) len by (simp add: put)
  have low: "d6 ! j = d5 ! j" if "j < off + 12" for j using a(2) [of j] that by simp
  have n: "NDIRECT + 1 = length (d_addrs x)" using x by (simp add: dinode_ok_def)
  have "map (\<lambda>k. get32 d6 (off + 12 + 4 * k)) [0..<NDIRECT + 1] = d_addrs x"
  proof (rule nth_equalityI)
    fix i assume "i < length (map (\<lambda>k. get32 d6 (off + 12 + 4 * k)) [0..<NDIRECT + 1])"
    then have i: "i < NDIRECT + 1" by simp
    then have "d_addrs x ! i < 4294967296" using x n by (simp add: dinode_ok_def)
    then show "map (\<lambda>k. get32 d6 (off + 12 + 4 * k)) [0..<NDIRECT + 1] ! i = d_addrs x ! i"
      using a(3) [OF i] i by (simp del: upt_Suc)
  qed (use n in simp)
  moreover have "get32 d6 (off + 8) = d_size x"
  proof -
    have "get32 d6 (off + 8) = get32 d5 (off + 8)" by (rule get32_cong) (use low in auto)
    also have "\<dots> = d_size x" using o x len
      by (simp add: d5_def get32_put32_same DINODE_SIZE_def dinode_ok_def)
    finally show ?thesis .
  qed
  moreover have "get_short d6 off = d_type x"
  proof -
    have "get_short d6 off = get_short d1 off"
      by (rule get_short_cong)
        (simp add: low d5_def d4_def d3_def d2_def nth_put32_other nth_put_short_other)
    then show ?thesis using o x by (simp add: d1_def get_short_put_short DINODE_SIZE_def dinode_ok_def is_short_def)
  qed
  moreover have "get_short d6 (off + 2) = d_major x"
  proof -
    have "get_short d6 (off + 2) = get_short d2 (off + 2)"
      by (rule get_short_cong)
        (simp add: low d5_def d4_def d3_def nth_put32_other nth_put_short_other)
    then show ?thesis using o x len
      by (simp add: d2_def get_short_put_short DINODE_SIZE_def dinode_ok_def is_short_def)
  qed
  moreover have "get_short d6 (off + 4) = d_minor x"
  proof -
    have "get_short d6 (off + 4) = get_short d3 (off + 4)"
      by (rule get_short_cong)
        (simp add: low d5_def d4_def nth_put32_other nth_put_short_other)
    then show ?thesis using o x len
      by (simp add: d3_def get_short_put_short DINODE_SIZE_def dinode_ok_def is_short_def)
  qed
  moreover have "get_short d6 (off + 6) = d_nlink x"
  proof -
    have "get_short d6 (off + 6) = get_short d4 (off + 6)"
      by (rule get_short_cong) (simp add: low d5_def nth_put32_other)
    then show ?thesis using o x len
      by (simp add: d4_def get_short_put_short DINODE_SIZE_def dinode_ok_def is_short_def)
  qed
  ultimately show "get_dinode (put_dinode off x d) off = x"
    by (simp add: put get_dinode_def)
  assume j: "j < off \<or> off + DINODE_SIZE \<le> j"
  then have "d6 ! j = d5 ! j" using a(2) [of j] by (auto simp: NDIRECT_def DINODE_SIZE_def)
  also have "\<dots> = d ! j" using j
    by (auto simp: d5_def d4_def d3_def d2_def d1_def nth_put32_other nth_put_short_other DINODE_SIZE_def)
  finally show "put_dinode off x d ! j = d ! j" by (simp add: put)
qed

lemma ipb_room: "inum mod IPB * DINODE_SIZE + DINODE_SIZE \<le> BSIZE"
proof -
  have "inum mod 8 < 8" by simp
  then have "inum mod 8 * 64 + 64 \<le> 512" by linarith
  then show ?thesis by (simp add: IPB_def DINODE_SIZE_def BSIZE_def)
qed

lemma get_dinode_cong:
  assumes "\<And>j. off \<le> j \<Longrightarrow> j < off + DINODE_SIZE \<Longrightarrow> d ! j = e ! j"
  shows "get_dinode d off = get_dinode e off"
proof -
  have s: "get_short d (off + k) = get_short e (off + k)" if "k \<le> 6" for k
    by (rule get_short_cong) (rule assms, use that in \<open>simp_all add: DINODE_SIZE_def\<close>)
  have g: "get32 d (off + k) = get32 e (off + k)" if "k \<le> 60" for k
    by (rule get32_cong) (rule assms, use that in \<open>simp_all add: DINODE_SIZE_def\<close>)
  show ?thesis
    using s [of 0] s [of 2] s [of 4] s [of 6] g [of 8]
    by (auto simp: get_dinode_def NDIRECT_def add.assoc simp del: upt_Suc intro!: g)
qed

text \<open>An inode is written into its place of its block, and the others stay.\<close>

lemma get_put_slot:
  assumes "length d = BSIZE" and x: "dinode_ok x"
  shows "get_dinode (put_dinode (i mod IPB * DINODE_SIZE) x d) (j mod IPB * DINODE_SIZE) =
    (if j mod IPB = i mod IPB then x else get_dinode d (j mod IPB * DINODE_SIZE))"
proof -
  have room: "i mod IPB * DINODE_SIZE + DINODE_SIZE \<le> length d" using assms(1) ipb_room by simp
  note p = put_dinode_get [OF room x]
  show ?thesis
  proof (cases "j mod IPB = i mod IPB")
    case False
    then have out: "k < i mod IPB * DINODE_SIZE \<or> i mod IPB * DINODE_SIZE + DINODE_SIZE \<le> k"
      if "j mod IPB * DINODE_SIZE \<le> k" "k < j mod IPB * DINODE_SIZE + DINODE_SIZE" for k
      using that by (auto simp: DINODE_SIZE_def)
    have "get_dinode (put_dinode (i mod IPB * DINODE_SIZE) x d) (j mod IPB * DINODE_SIZE)
        = get_dinode d (j mod IPB * DINODE_SIZE)"
      by (rule get_dinode_cong) (rule p(3), rule out)
    then show ?thesis using False by simp
  qed (simp add: p(1))
qed

end
