(* ===== verification/Fs_Claims.thy ===== *)
theory Fs_Claims
  imports File_Props Dinode
begin

text \<open>
  What the file system promises of the block allocator, of on-disk inodes and of the contents of
  files, and a small file system on which the statements are evaluated.
\<close>

subsection \<open>The block of an inode\<close>

definition on_disk :: "'z fstate_scheme \<Rightarrow> nat \<Rightarrow> dinode" where
  "on_disk s inum = get_dinode (blk s (IBLOCK inum (fs_sb s))) (inum mod IPB * DINODE_SIZE)"

lemma on_disk_put:
  assumes b: "blk t = (blk s)(IBLOCK i (fs_sb s) := put_dinode (i mod IPB * DINODE_SIZE) x (blk s (IBLOCK i (fs_sb s))))"
    and sb: "fs_sb t = fs_sb s" and len: "length (blk s (IBLOCK i (fs_sb s))) = BSIZE" and x: "dinode_ok x"
  shows "on_disk t j = (if j = i then x else on_disk s j)"
proof -
  have "j div IPB = i div IPB \<Longrightarrow> j mod IPB = i mod IPB \<Longrightarrow> j = i" by (metis div_mult_mod_eq)
  then show ?thesis
    using get_put_slot [OF len x, of i j] by (cases "j = i") (auto simp: on_disk_def b sb IBLOCK_def)
qed

lemma iupdate_returns:
  fixes s :: "'z fstate_scheme" and ip :: nat
  defines "i \<equiv> ino s ip"
  assumes r: "fs_ready s" and rm: "room s 1" and dev: "i_dev i = ROOTDEV" and ok: "dinode_ok (to_dinode i)"
    and n: "IBLOCK (i_inum i) (fs_sb s) < disksize s" "blk_writable s (IBLOCK (i_inum i) (fs_sb s))"
  shows "\<exists>t. iupdate ip s = Ok () t \<and> fs_ready t \<and> txn_frame {} s t
    \<and> (\<forall>j. on_disk t j = (if j = i_inum i then to_dinode i else on_disk s j))"
proof -
  let ?n = "IBLOCK (i_inum i) (fs_sb s)"
  let ?f = "put_dinode (i_inum i mod IPB * DINODE_SIZE) (to_dinode i)"
  have f: "length (?f d) = BSIZE" if "length d = BSIZE" for d
    using put_dinode_get(2) [OF _ ok] ipb_room that by simp
  obtain k s1 s2 t where t: "bread ROOTDEV ?n s = Ok k s1" "b_data (bufn s1 k) = blk s ?n"
    "log_write k (set_data k (?f (blk s ?n)) s1) = Ok () s2" "brelse k s2 = Ok () t"
    and c: "changed ?n (?f (blk s ?n)) s t" using change_block [OF r rm n, of ?f, OF f] by blast
  have run: "iupdate ip s = Ok () t"
    using t dev by (simp add: iupdate_def i_def)
  have len: "length (blk s ?n) = BSIZE" using r n(1) length_blk by (auto simp: fs_ready_def calm_def)
  have "blk t = (blk s)(?n := ?f (blk s ?n))" and fr: "txn_frame {} s t" using c by (auto simp: changed_def)
  then have "on_disk t j = (if j = i_inum i then to_dinode i else on_disk s j)" for j
    using on_disk_put [of t s "i_inum i"] txn_frame_ino(2) len ok by blast
  then show ?thesis using run c fr by (auto simp: changed_def)
qed

subsection \<open>A small file system\<close>

text \<open>
  40 blocks: the log from block 2 to 11, inodes in block 15, the free map in block 20 with blocks 0
  to 29 in use.  The cached inode 0 is a file of 100 bytes in block 25.
\<close>

definition zero_inode :: inode where
  "zero_inode = \<lparr>i_dev = 0, i_inum = 0, i_ref = 0, i_lock = initsleeplock, i_valid = False, i_type = 0,
     i_major = 0, i_minor = 0, i_nlink = 0, i_size = 0, i_addrs = replicate (NDIRECT + 1) 0\<rparr>"

definition some_file :: inode where
  "some_file = zero_inode\<lparr>i_dev := ROOTDEV, i_inum := 3, i_ref := 1, i_valid := True, i_type := T_FILE,
     i_nlink := 1, i_size := 100, i_addrs := 25 # replicate NDIRECT 0\<rparr>"

definition small_disk :: "bytes list" where
  "small_disk = (replicate 40 (replicate BSIZE 0))[20 := [255, 255, 255, 63] @ replicate (BSIZE - 4) 0]"

definition fs_boot :: "inode \<Rightarrow> fstate" where
  "fs_boot x = \<lparr>locks = [], procs = replicate NPROC zero_proc, curproc = None, nextpid = 1,
     initproc = None, klog = [], buffers = replicate (Suc NBUF) zero_buf, memdisk = small_disk,
     disksize = 40, dwrites = [], log_start = 2, log_size = 10, log_outstanding = 1,
     log_committing = False, log_dev = ROOTDEV, lh_n = 0, lh_block = replicate LOGSIZE 0,
     fs_sb = \<lparr>sb_size = 40, sb_nblocks = 20, sb_ninodes = 8, sb_nlog = 10, sb_logstart = 2,
       sb_inodestart = 15, sb_bmapstart = 20\<rparr>,
     icache = x # replicate (NINODE - 1) zero_inode\<rparr>"

definition small_with :: "inode \<Rightarrow> fstate" where
  "small_with x = started (fs_boot x)"

definition small_fs :: fstate where
  "small_fs = small_with some_file"

lemma fs_boot_at_boot: "at_boot (fs_boot x)"
  by (simp add: at_boot_def fs_boot_def boot_bufs_def NPROC_def small_disk_def nth_list_update BSIZE_def)

lemma small_with_fields:
  "disksize (small_with x) = 40" "blk (small_with x) n = small_disk ! n" "lh_n (small_with x) = 0"
  "log_size (small_with x) = 10" "log_start (small_with x) = 2"
  "fs_sb (small_with x) = fs_sb (fs_boot x)" "ino (small_with x) 0 = x"
proof -
  note st = started_calm [OF fs_boot_at_boot [of x], folded small_with_def]
  show "disksize (small_with x) = 40" "blk (small_with x) n = small_disk ! n"
    by (simp_all add: st(3,5)) (simp_all add: fs_boot_def)
  note f = log_fields [OF st(6)]
  show "lh_n (small_with x) = 0" "log_size (small_with x) = 10" "log_start (small_with x) = 2"
    by (simp_all add: f fs_boot_def)
  have "lstate.more (small_with x) = lstate.more (fs_boot x)"
    using lstate_more [OF st(6)] .
  note g = fs_fields [OF this]
  show "fs_sb (small_with x) = fs_sb (fs_boot x)" by (rule g)
  show "ino (small_with x) 0 = x" by (simp add: g(3) ino_def fs_boot_def)
qed

lemmas small_fs_fields = small_with_fields [of some_file, folded small_fs_def]

lemma small_with_ready: "fs_ready (small_with x)" "room (small_with x) 2"
proof -
  note st = started_calm [OF fs_boot_at_boot [of x], folded small_with_def]
  note f = log_fields [OF st(6)]
  have "log_ok (small_with x)"
    by (simp add: log_ok_def f fs_boot_def home_def)
  moreover have "log_outstanding (small_with x) = 1" by (simp add: f fs_boot_def)
  ultimately show "fs_ready (small_with x)" using st(1,2) by (simp add: fs_ready_def)
  show "room (small_with x) 2" by (simp add: room_def small_with_fields NBUF_def MAXOPBLOCKS_def)
qed

lemmas small_fs_ready = small_with_ready [of some_file, folded small_fs_def]

text \<open>The free map of the small file system.\<close>

lemma small_fs_used: "b < 40 \<Longrightarrow> used small_fs b \<longleftrightarrow> b < 30"
proof -
  assume b: "b < 40"
  have bpb: "BPB = 4096" "b mod BPB = b" using b by (simp_all add: BPB_def BSIZE_def)
  have "blk small_fs (map_block small_fs b) = [255, 255, 255, 63] @ replicate (BSIZE - 4) 0"
    using b by (simp add: map_block_def BBLOCK_def small_fs_fields fs_boot_def small_disk_def bpb(1))
  then have u: "used small_fs b \<longleftrightarrow> bit (([255, 255, 255, 63] @ replicate (BSIZE - 4) 0 :: bytes) ! (b div 8)) (b mod 8)"
    by (simp add: used_bit bpb(2))
  have "\<forall>b \<in> set [0..<40]. bit (([255, 255, 255, 63, 0] :: bytes) ! (b div 8)) (b mod 8) \<longleftrightarrow> b < 30"
    by code_simp
  moreover have "b div 8 < 5" using b by simp
  then have "([255, 255, 255, 63] @ replicate (BSIZE - 4) 0 :: bytes) ! (b div 8) = [255, 255, 255, 63, 0] ! (b div 8)"
    by (auto simp: nth_append BSIZE_def nth_Cons split: nat.splits)
  ultimately show ?thesis using u b by simp
qed

lemma small_fs_map_ok: "map_ok small_fs"
proof -
  have m: "b < 40 \<Longrightarrow> map_block small_fs b = 20" for b
    by (simp add: map_block_def BBLOCK_def small_fs_fields fs_boot_def BPB_def BSIZE_def)
  have "sb_size (fs_sb small_fs) = 40" by (simp add: small_fs_fields fs_boot_def)
  then show ?thesis
    by (auto simp: map_ok_def m small_fs_used small_fs_fields blk_writable_def in_log_def)
qed

lemma small_with_file:
  assumes "i_dev x = ROOTDEV" and "i_addrs x = 25 # replicate NDIRECT 0"
  shows "file_ok (small_with x) 0 1"
  using assms
  by (simp add: file_ok_def inj_on_def mapped_def baddr_def small_with_fields ROOTDEV_def NDIRECT_def
      MAXFILE_def blk_writable_def in_log_def)

lemma small_fs_file: "file_ok small_fs 0 1"
  unfolding small_fs_def by (rule small_with_file) (simp_all add: some_file_def)

subsection \<open>Properties\<close>

text \<open>C9: \<open>balloc\<close> returns the lowest free block, marks it used and nothing else, and clears it; no
  other block than it and its free-map block changes.  It works in any transaction with room for
  two more blocks in the log, whichever block of the free map holds the first free bit.\<close>

theorem balloc_first_free:
  assumes "fs_ready s" and "room s 2" and "map_ok s" and "b < sb_size (fs_sb s)" and "\<not> used s b"
    and "\<forall>c < b. used s c"
  shows "\<exists>t. balloc ROOTDEV s = Ok b t \<and> fs_ready t
    \<and> blk t b = replicate BSIZE 0 \<and> (\<forall>n. n \<noteq> b \<longrightarrow> n \<noteq> map_block s b \<longrightarrow> blk t n = blk s n)
    \<and> (\<forall>c < sb_size (fs_sb s). used t c = (c = b \<or> used s c))"
proof -
  have "c < b \<Longrightarrow> used s c" for c using assms(6) by blast
  from balloc_returns [OF assms(1-5) this] show ?thesis by blast
qed

lemma balloc_first_free_witness: "\<exists>t. balloc ROOTDEV small_fs = Ok 30 t \<and> used t 30 \<and> \<not> used t 31"
proof -
  have sb: "sb_size (fs_sb small_fs) = 40" by (simp add: small_fs_fields fs_boot_def)
  show ?thesis
    using balloc_first_free [OF small_fs_ready small_fs_map_ok, of 30] by (auto simp: sb small_fs_used)
qed

text \<open>\<open>bfree\<close> marks a used block free and changes no other bit of the free map and no other block;
  it does not take the \<open>freeing free block\<close> panic on a used block.\<close>

theorem bfree_frees:
  assumes "fs_ready s" and "room s 1" and "map_ok s" and "b < sb_size (fs_sb s)" and "used s b"
  shows "\<exists>t. bfree ROOTDEV b s = Ok () t \<and> fs_ready t \<and> (\<forall>c. used t c = (c \<noteq> b \<and> used s c))
    \<and> (\<forall>n. n \<noteq> map_block s b \<longrightarrow> blk t n = blk s n)"
  using bfree_returns [OF assms] by blast

lemma bfree_frees_witness: "\<exists>t. bfree ROOTDEV 7 small_fs = Ok () t \<and> \<not> used t 7 \<and> used t 8"
proof -
  have sb: "sb_size (fs_sb small_fs) = 40" by (simp add: small_fs_fields fs_boot_def)
  show ?thesis
    using bfree_frees [OF small_fs_ready(1) room_mono [OF small_fs_ready(2)] small_fs_map_ok, of 7]
    by (auto simp: sb small_fs_used)
qed

text \<open>C11: \<open>iupdate\<close> stores the inode in its place: read back from the disk block, the inode has every
  field of the cached one (the round trip through the bytes of a \<open>struct dinode\<close>), and no other
  inode, in the same block or elsewhere, changes.\<close>

theorem iupdate_stores:
  assumes "fs_ready s" and "room s 1" and "i_dev (ino s ip) = ROOTDEV" and "dinode_ok (to_dinode (ino s ip))"
    and "IBLOCK (i_inum (ino s ip)) (fs_sb s) < disksize s"
    and "blk_writable s (IBLOCK (i_inum (ino s ip)) (fs_sb s))"
  shows "\<exists>t. iupdate ip s = Ok () t \<and> fs_ready t
    \<and> (\<forall>j. on_disk t j = (if j = i_inum (ino s ip) then to_dinode (ino s ip) else on_disk s j))"
  using iupdate_returns [OF assms] by blast

lemma iupdate_stores_witness:
  "\<exists>t. iupdate 0 small_fs = Ok () t \<and> d_size (on_disk t 3) = 100 \<and> d_addrs (on_disk t 3) ! 0 = 25"
proof -
  have "\<exists>t. iupdate 0 small_fs = Ok () t \<and> fs_ready t
    \<and> (\<forall>j. on_disk t j = (if j = i_inum (ino small_fs 0) then to_dinode (ino small_fs 0) else on_disk small_fs j))"
    by (rule iupdate_stores)
      (simp_all add: small_fs_ready room_mono [OF small_fs_ready(2)] small_fs_fields some_file_def zero_inode_def
        to_dinode_def dinode_ok_def is_short_def T_FILE_def IBLOCK_def IPB_def DINODE_SIZE_def BSIZE_def
        fs_boot_def blk_writable_def in_log_def NDIRECT_def)
  then show ?thesis
    by (auto simp: small_fs_fields some_file_def to_dinode_def)
qed

text \<open>C7: \<open>writei\<close> within a file is the update of a byte array: it returns the number of bytes, and the
  contents of the file are the old ones with the new bytes written over them at the offset, whatever
  blocks, direct or indirect, the bytes cross.\<close>

theorem writei_updates:
  assumes "fs_ready s" and "room s (touched off (length src))" and "file_ok s ip nb"
    and "i_type (ino s ip) \<noteq> T_DEV" and "off + length src \<le> i_size (ino s ip)"
    and "i_size (ino s ip) \<le> nb * BSIZE" and "i_size (ino s ip) \<le> MAXFILE * BSIZE"
  shows "\<exists>t. writei dsw ip src off s = Ok (int (length src)) t \<and> fs_ready t
    \<and> contents t ip = blit off src (contents s ip)"
  using writei_returns [OF assms] by blast

lemma small_contents:
  assumes "i_addrs x = 25 # replicate NDIRECT 0" and "i_size x \<le> BSIZE"
  shows "contents (small_with x) 0 = replicate (i_size x) 0"
  by (rule nth_equalityI)
    (use assms in \<open>simp_all add: contents_def fbyte_def baddr_def small_with_fields NDIRECT_def small_disk_def BSIZE_def\<close>)

lemma small_fs_contents: "contents small_fs 0 = replicate 100 0"
  using small_contents [of some_file] by (simp add: small_fs_def some_file_def BSIZE_def)

lemma writei_updates_witness:
  "\<exists>t. writei \<lparr>dev_read = \<lambda>_. None, dev_write = \<lambda>_. None\<rparr> 0 [7, 8] 50 small_fs = Ok 2 t
    \<and> contents t 0 ! 51 = 8 \<and> contents t 0 ! 52 = 0"
proof -
  have "touched 50 (length [7, 8 :: uchar]) = 1" by (simp add: touched_def BSIZE_def)
  then have "room small_fs (touched 50 (length [7, 8 :: uchar]))"
    using room_mono [OF small_fs_ready(2), of 1] by simp
  then obtain t where "writei \<lparr>dev_read = \<lambda>_. None, dev_write = \<lambda>_. None\<rparr> 0 [7, 8] 50 small_fs = Ok 2 t"
    "contents t 0 = blit 50 [7, 8] (replicate 100 0)"
    using writei_updates [OF small_fs_ready(1) _ small_fs_file, of 50 "[7, 8]"
        "\<lparr>dev_read = \<lambda>_. None, dev_write = \<lambda>_. None\<rparr>"]
    by (auto simp: small_fs_fields some_file_def T_FILE_def T_DEV_def BSIZE_def MAXFILE_def NDIRECT_def
        NINDIRECT_def small_fs_contents)
  then show ?thesis by (auto simp: nth_blit)
qed

text \<open>C8: What \<open>writei\<close> wrote, \<open>readi\<close> reads: reading the range back returns the count and the bytes,
  and a read of any range returns that slice of the contents, cut at the end of the file.\<close>

theorem readi_after_writei:
  assumes "fs_ready s" and "room s (touched off (length src))" and "file_ok s ip nb"
    and "i_type (ino s ip) \<noteq> T_DEV" and "off + length src \<le> i_size (ino s ip)"
    and "i_size (ino s ip) \<le> nb * BSIZE" and "i_size (ino s ip) \<le> MAXFILE * BSIZE"
    and "a \<le> i_size (ino s ip)" and "a + n < 4294967296"
  shows "\<exists>t u v. writei dsw ip src off s = Ok (int (length src)) t
    \<and> readi dsw ip off (length src) t = Ok (int (length src), src) u
    \<and> readi dsw ip a n u = Ok (int (min n (i_size (ino s ip) - a)), slice a n (blit off src (contents s ip))) v"
proof -
  obtain t where t: "writei dsw ip src off s = Ok (int (length src)) t" "fs_ready t" "txn_frame {} s t"
    "file_ok t ip nb" "room t 0" "contents t ip = blit off src (contents s ip)"
    using writei_returns [OF assms(1-7)] by blast
  have i: "ino t = ino s" by (rule txn_frame_ino [OF t(3)])
  have len: "length (contents s ip) = i_size (ino s ip)" by (simp add: contents_def)
  have big: "off + length src < 4294967296"
    using assms(5,7) by (simp add: MAXFILE_def NDIRECT_def NINDIRECT_def BSIZE_def)
  obtain u where u: "readi dsw ip off (length src) t = Ok (int (min (length src) (i_size (ino t ip) - off)),
      slice off (length src) (contents t ip)) u" "looked t u"
    using readi_returns [OF t(2,5,4), of off "length src" dsw] assms(4,5,6) i big by auto
  note l = looked_file [OF u(2)]
  have u2: "fs_ready u" "room u 0" "file_ok u ip nb"
    using u(2) looked_room [OF u(2)] t(4,5) l by (auto simp: looked_def)
  obtain v where v: "readi dsw ip a n u = Ok (int (min n (i_size (ino u ip) - a)), slice a n (contents u ip)) v"
    using readi_returns [OF u2, of a n dsw] assms(4,6,8,9) i l by auto
  have "slice off (length src) (blit off src (contents s ip)) = src"
    by (rule slice_blit_same) (use assms(5) len in simp)
  moreover have "min (length src) (i_size (ino s ip) - off) = length src" using assms(5) by simp
  ultimately show ?thesis using t(1,6) u(1) v i l by auto
qed

lemma readi_after_writei_witness:
  "\<exists>t u v. writei \<lparr>dev_read = \<lambda>_. None, dev_write = \<lambda>_. None\<rparr> 0 [7, 8] 50 small_fs = Ok 2 t
    \<and> readi \<lparr>dev_read = \<lambda>_. None, dev_write = \<lambda>_. None\<rparr> 0 50 2 t = Ok (2, [7, 8]) u
    \<and> readi \<lparr>dev_read = \<lambda>_. None, dev_write = \<lambda>_. None\<rparr> 0 98 50 u = Ok (2, [0, 0]) v"
proof -
  have "touched 50 (length [7, 8 :: uchar]) = 1" by (simp add: touched_def BSIZE_def)
  then have "room small_fs (touched 50 (length [7, 8 :: uchar]))"
    using room_mono [OF small_fs_ready(2), of 1] by simp
  from readi_after_writei [OF small_fs_ready(1) this small_fs_file, of 98 50
      "\<lparr>dev_read = \<lambda>_. None, dev_write = \<lambda>_. None\<rparr>"]
  obtain t u v where r: "writei \<lparr>dev_read = \<lambda>_. None, dev_write = \<lambda>_. None\<rparr> 0 [7, 8] 50 small_fs = Ok 2 t"
    "readi \<lparr>dev_read = \<lambda>_. None, dev_write = \<lambda>_. None\<rparr> 0 50 2 t = Ok (2, [7, 8]) u"
    "readi \<lparr>dev_read = \<lambda>_. None, dev_write = \<lambda>_. None\<rparr> 0 98 50 u
      = Ok (2, slice 98 50 (blit 50 [7, 8] (replicate 100 0))) v"
    by (auto simp: small_fs_fields some_file_def T_FILE_def T_DEV_def BSIZE_def MAXFILE_def NDIRECT_def
        NINDIRECT_def small_fs_contents numeral_2_eq_2)
  have "slice 98 50 (blit 50 [7, 8] (replicate 100 0)) = ([0, 0] :: bytes)" by code_simp
  with r show ?thesis by auto
qed

end
