(* ===== verification/Dir_Claims.thy ===== *)
theory Dir_Claims
  imports Dir_Props Fs_Claims
begin

text \<open>What the directory operations promise: a directory is a finite map from names to inodes.\<close>

lemma touched_entry: "touched (k * DIRENT_SIZE) DIRENT_SIZE = 1"
proof -
  have "a div 512 = a div 16 div 32" for a :: nat by (simp add: div_mult2_eq [symmetric])
  then have "(k * 16 + 15) div 512 = k * 16 div 512" by simp
  then show ?thesis by (simp add: touched_def DIRENT_SIZE_def BSIZE_def)
qed

lemma dirlink_run:
  assumes r: "fs_ready s" and rm: "room s 1" and ok: "directory_ok s dp nb" and nm: "name_ok name"
    and new: "dir_entry (contents s dp) name = None" and slot: "dir_slot (contents s dp) = Some k"
    and inum: "inum < 65536"
  shows "\<exists>t. dirlink dsw dp name inum s = Ok 0 t \<and> fs_ready t \<and> room t 0 \<and> directory_ok t dp nb
    \<and> contents t dp = blit (k * DIRENT_SIZE) (make_dirent name inum (replicate DIRENT_SIZE 0)) (contents s dp)"
proof -
  let ?c = "contents s dp" and ?d = "make_dirent name inum (replicate DIRENT_SIZE 0)"
  have rm0: "room s 0" by (rule room_mono [OF rm]) simp
  have c: "length ?c = i_size (ino s dp)" by (simp add: contents_def)
  have sz: "length ?c mod DIRENT_SIZE = 0" using ok by (simp add: directory_ok_def c)
  have d: "length ?d = DIRENT_SIZE" using make_dirent_parts [OF nm inum] by simp
  have k: "k < entries ?c" using slot unfolding dir_slot_def find_upt_Some by auto
  have "dir_find ?c name = None" using new by (simp add: dir_entry_def)
  then obtain t1 where t1: "dirlookup dsw dp name s = Ok None t1" "looked s t1"
    using dirlookup_run [OF r rm0 ok nm, of dsw] by auto
  have t1': "fs_ready t1" "room t1 0" "ino t1 = ino s" "contents t1 dp = ?c"
    using t1(2) looked_room [OF t1(2)] rm0 looked_file [OF t1(2)] by (auto simp: looked_def)
  let ?body = "\<lambda>off. bind (readi dsw dp off DIRENT_SIZE) (\<lambda>(r, de).
           bind (panic_if (r \<noteq> int DIRENT_SIZE) ''dirlink read'') (\<lambda>_.
           ret (if de_inum de = 0 then Some off else None)))"
  have "case find (\<lambda>k. de_inum (dirent ?c k) = 0) [0..<entries ?c] of
      None \<Rightarrow> \<exists>t. for_each (dir_offs (length ?c)) ?body t1 = Ok None t \<and> looked t1 t
    | Some k \<Rightarrow> \<exists>t. looked t1 t \<and> for_each (dir_offs (length ?c)) ?body t1
        = bind (ret (k * DIRENT_SIZE)) (\<lambda>x. ret (Some x)) t"
  proof (rule entry_scan [OF t1'(1) sz])
    fix j t
    assume j: "j < entries ?c" and t: "looked t1 t"
    have l: "looked s t" by (rule looked_trans [OF t1(2) t])
    have t': "fs_ready t" "room t 0" "directory_ok t dp nb" "contents t dp = ?c"
      using l looked_room [OF l] rm0 ok looked_directory [OF l] looked_file [OF l] by (auto simp: looked_def)
    obtain u where u: "readi dsw dp (j * DIRENT_SIZE) DIRENT_SIZE t = Ok (int DIRENT_SIZE, dirent ?c j) u"
      "looked t u"
      using read_entry [OF t'(1-3)] t'(4) j by metis
    then show "\<exists>u. looked t1 u \<and> ?body (j * DIRENT_SIZE) t = (if de_inum (dirent ?c j) = 0
        then bind (ret (j * DIRENT_SIZE)) (\<lambda>x. ret (Some x)) u else Ok None u)"
      using looked_trans [OF t u(2)] by (intro exI [of _ u]) simp
  qed
  then obtain t2 where t2: "looked t1 t2" "for_each (dir_offs (length ?c)) ?body t1 = Ok (Some (k * DIRENT_SIZE)) t2"
    using slot by (auto simp: dir_slot_def)
  have l2: "looked s t2" by (rule looked_trans [OF t1(2) t2(1)])
  note f2 = looked_file [OF l2]
  have t2': "fs_ready t2" "room t2 (touched (k * DIRENT_SIZE) (length ?d))"
    using l2 looked_room [OF l2] rm by (auto simp: looked_def d touched_entry)
  obtain t where t: "writei dsw dp ?d (k * DIRENT_SIZE) t2 = Ok (int (length ?d)) t" "fs_ready t"
    "txn_frame {} t2 t" "file_ok t dp nb \<and> room t 0" "contents t dp = blit (k * DIRENT_SIZE) ?d (contents t2 dp)"
    using writei_returns [OF t2', of dp nb dsw] ok f2 entry_end [OF k] d c
    by (auto simp: directory_ok_def T_DIR_def T_DEV_def)
  have "dirlink dsw dp name inum s = Ok 0 t"
    using t1(1) t2(2) t(1) t1'(3) by (simp add: dirlink_def c d)
  moreover have "directory_ok t dp nb"
    using ok t(4) txn_frame_ino [OF t(3)] f2 by (simp add: directory_ok_def)
  ultimately show ?thesis using t f2 by auto
qed

subsection \<open>Properties\<close>

text \<open>C10: A directory is a map from names to inode numbers, where names are compared up to their NUL or
  to their fourteenth character: \<open>dirlink\<close> of a name that is not in the directory, with an entry
  free, returns 0 and updates the map at that name alone; a name longer than an entry is the name
  of its first fourteen characters.  \<open>dirlookup\<close> of any name then finds what the map says: nothing,
  or the inode of the map, which it takes from the inode cache.\<close>

theorem dirlink_updates:
  assumes "fs_ready s" and "room s 1" and "directory_ok s dp nb" and "name_ok name" and "0 < inum" and "inum < 65536"
    and "dir_entry (contents s dp) name = None" and "dir_slot (contents s dp) \<noteq> None"
  shows "\<exists>t. dirlink dsw dp name inum s = Ok 0 t \<and> fs_ready t \<and> directory_ok t dp nb
    \<and> (\<forall>name'. dir_entry (contents t dp) name'
          = (if cname name' = cname name then Some inum else dir_entry (contents s dp) name'))
    \<and> (\<forall>name'. name_ok name' \<longrightarrow> (case dir_entry (contents t dp) name' of
          None \<Rightarrow> \<exists>u. dirlookup dsw dp name' t = Ok None u
        | Some i \<Rightarrow> \<exists>u off. blk u = blk t \<and> dirlookup dsw dp name' t
            = bind (iget ROOTDEV i) (\<lambda>ip. ret (Some (ip, off))) u))"
proof -
  obtain k where k: "dir_slot (contents s dp) = Some k" using assms(8) by auto
  obtain t where t: "dirlink dsw dp name inum s = Ok 0 t" "fs_ready t" "room t 0" "directory_ok t dp nb"
    "contents t dp = blit (k * DIRENT_SIZE) (make_dirent name inum (replicate DIRENT_SIZE 0)) (contents s dp)"
    using dirlink_run [OF assms(1-4,7) k assms(6)] by blast
  have "dir_entry (contents t dp) name'
      = (if cname name' = cname name then Some inum else dir_entry (contents s dp) name')" for name'
    unfolding t(5) by (rule dir_entry_link [OF assms(4-6) k assms(7)])
  moreover have "case dir_entry (contents t dp) name' of
          None \<Rightarrow> \<exists>u. dirlookup dsw dp name' t = Ok None u
        | Some i \<Rightarrow> \<exists>u off. blk u = blk t \<and> dirlookup dsw dp name' t
            = bind (iget ROOTDEV i) (\<lambda>ip. ret (Some (ip, off))) u" if "name_ok name'" for name'
    using dirlookup_entry [OF t(2-4) that] .
  ultimately show ?thesis using t by blast
qed

text \<open>A directory of two free entries.\<close>

definition some_dir :: inode where
  "some_dir = some_file\<lparr>i_type := T_DIR, i_size := 32\<rparr>"

lemma some_dir_contents: "contents (small_with some_dir) 0 = replicate 32 0"
  using small_contents [of some_dir] by (simp add: some_dir_def some_file_def BSIZE_def)

lemma no_entries: "entries (replicate 32 0) = 2" "k < 2 \<Longrightarrow> de_inum (dirent (replicate 32 0) k) = 0"
proof -
  show "entries (replicate 32 0) = 2" by (simp add: entries_def DIRENT_SIZE_def)
  have "de_inum (dirent (replicate 32 0) 0) = 0" "de_inum (dirent (replicate 32 0) 1) = 0" by code_simp+
  moreover assume "k < 2"
  then have "k = 0 \<or> k = 1" by linarith
  ultimately show "de_inum (dirent (replicate 32 0) k) = 0" by auto
qed

lemma dirlink_updates_witness:
  "\<exists>t. dirlink \<lparr>dev_read = \<lambda>_. None, dev_write = \<lambda>_. None\<rparr> 0 [97, 98, 0] 5 (small_with some_dir) = Ok 0 t
    \<and> dir_entry (contents t 0) [97, 98, 0, 7] = Some 5 \<and> dir_entry (contents t 0) [97, 0] = None"
proof -
  let ?s = "small_with some_dir" and ?dsw = "\<lparr>dev_read = \<lambda>_. None, dev_write = \<lambda>_. None\<rparr>"
  have none: "dir_entry (contents ?s 0) n = None" for n
    using no_entries by (auto simp: some_dir_contents dir_entry_def dir_find_def find_None_iff)
  have slot: "dir_slot (contents ?s 0) \<noteq> None"
    using no_entries by (auto simp: some_dir_contents dir_slot_def find_None_iff intro!: exI [of _ 0])
  have "file_ok ?s 0 1" by (rule small_with_file) (simp_all add: some_dir_def some_file_def)
  then have ok: "directory_ok ?s 0 1"
    by (simp add: directory_ok_def small_with_fields some_dir_def DIRENT_SIZE_def BSIZE_def MAXFILE_def NDIRECT_def)
  have rm: "room ?s 1" by (rule room_mono [OF small_with_ready(2)]) simp
  have names: "cname [97, 98, 0] = [97, 98]" "cname [97, 98, 0, 7] = [97, 98]" "cname [97, 0] = [97]"
    by (simp_all add: cname_def DIRSIZ_def)
  have "name_ok [97, 98, 0]" by (simp add: name_ok_def)
  from dirlink_updates [OF small_with_ready(1) rm ok this _ _ none slot, of 5 ?dsw]
  show ?thesis using none by (auto simp: names)
qed

end
