(* ===== verification/Bio_Claims.thy ===== *)
theory Bio_Claims
  imports Log_Claims
begin

text \<open>
  What the buffer cache promises its callers: reading a block through it is reading the disk as the
  last writers left it, and the buffer it recycles is the least recently used one that may be.
\<close>

text \<open>The buffers \<open>bget\<close> may recycle.\<close>

definition idle :: "'z bstate_scheme \<Rightarrow> nat \<Rightarrow> bool" where
  "idle s i \<longleftrightarrow> b_refcnt (bufn s i) = 0 \<and> \<not> bdirty (bufn s i)"

lemma bread_lru:
  assumes inv: "bio_inv s" and run: "bread ROOTDEV n s = Ok i t"
  shows "lru t xs = lru s xs"
proof -
  from run obtain u where get: "bget ROOTDEV n s = Ok i u"
    and rest: "if b_flags (bufn u i) AND B_VALID = 0 then iderw i u = Ok () t else t = u"
    by (auto simp: bread_def run_iff)
  have len: "length (buffers s) = Suc NBUF" using inv by (simp add: bio_inv_def)
  from bget_Ok [OF inv get] obtain f where i: "i < NBUF" and u: "u = upd_buf i f s"
    and f: "b_next (f (bufn s i)) = b_next (bufn s i)" "b_prev (f (bufn s i)) = b_prev (bufn s i)"
    and fl: "b_flags (f (bufn s i)) = b_flags (bufn s i) \<or> b_flags (f (bufn s i)) = 0"
    by (auto simp: take_lock_def)
  have lu: "lru u xs = lru s xs" unfolding u by (rule lru_upd_buf) (simp_all add: f)
  have bu: "bufn u i = f (bufn s i)" "length (buffers u) = Suc NBUF" using u i len by (simp_all add: bufn_upd_buf)
  show ?thesis
  proof (cases "bit (b_flags (bufn u i)) 1")
    case True
    then show ?thesis using rest lu by (simp add: flag_simps)
  next
    case False
    then have "\<not> bit (b_flags (bufn u i)) 2"
      using fl inv i by (auto simp: bu bio_inv_def bdirty_def bvalid_def)
    then have "t = upd_buf i (\<lambda>b. b\<lparr>b_data := memdisk u ! b_blockno b, b_flags := b_flags b OR B_VALID\<rparr>) u"
      using rest False by (simp add: flag_simps iderw_read_Ok_iff [OF bu(2) i])
    then show ?thesis using lu by (simp add: lru_upd_buf)
  qed
qed

lemma bget_choice:
  assumes inv: "bio_inv s" and lru: "lru s xs" and none: "\<forall>j. \<not> cached s j n" and run: "bget ROOTDEV n s = Ok i t"
  shows "find (idle s) (rev xs) = Some i"
proof -
  note sc = lru_scan [OF lru]
  let ?p = "\<lambda>i. b_dev (bufn s i) = ROOTDEV \<and> b_blockno (bufn s i) = n"
  have "find ?p xs = None" using none lru_set [OF lru] by (auto simp: find_None_iff cached_def)
  moreover have q: "(\<lambda>i. b_refcnt (bufn s i) = 0 \<and> b_flags (bufn s i) AND B_DIRTY = 0) = idle s"
    by (simp add: idle_def fun_eq_iff bdirty_def flag_simps)
  ultimately show ?thesis using run
    by (cases "find (idle s) (rev xs)")
      (auto simp: bget_def sc bind_Ok_iff [of "acquire BcacheLock"] acquire_Ok_iff bufn_def [of "s\<lparr>locks := l\<rparr>" for l]
        bufn_def [symmetric] q run_iff)
qed

lemma bget_full:
  assumes "bio_inv s" and "locks s = []" and lru: "lru s xs"
    and "\<forall>j. \<not> cached s j n" and "\<forall>j < NBUF. \<not> idle s j"
  shows "bread ROOTDEV n s = Panic ''bget: no buffers''"
proof -
  note sc = lru_scan [OF lru]
  have "find (\<lambda>i. b_dev (bufn s i) = ROOTDEV \<and> b_blockno (bufn s i) = n) xs = None"
    using assms(4) lru_set [OF lru] by (auto simp: find_None_iff cached_def)
  moreover have "find (\<lambda>i. b_refcnt (bufn s i) = 0 \<and> b_flags (bufn s i) AND B_DIRTY = 0) (rev xs) = None"
    using assms(5) lru_set [OF lru] by (auto simp: find_None_iff idle_def bdirty_def flag_simps)
  ultimately have "bget ROOTDEV n s = Panic ''bget: no buffers''"
    using assms(2) by (simp add: bget_def sc)
  then show ?thesis by (simp add: bread_def)
qed

lemma brelse_lru:
  assumes lk: "locks s = []" and p: "curproc s = Some p" and hold: "holds s i n"
    and lru: "lru s xs" and len: "length (buffers s) = Suc NBUF" and run: "brelse i s = Ok () t"
  shows "lru t (if b_refcnt (bufn s i) = 1 then i # remove1 i xs else xs)"
proof -
  have i: "i < NBUF" and pos: "0 < b_refcnt (bufn s i)" using hold by (simp_all add: holds_def cached_def)
  define w where "w = wakeup1 (ChLock (BufLock i))
    (upd_buf i (\<lambda>b. b\<lparr>b_lock := (b_lock b)\<lparr>sl_locked := False, sl_pid := 0\<rparr>\<rparr>) s)"
  define x where "x = upd_buf i (\<lambda>b. b\<lparr>b_refcnt := b_refcnt b - 1\<rparr>) (w\<lparr>locks := [BcacheLock]\<rparr>)"
  have h: "buf_holding i s = Ok True s" and rel: "buf_release i s = Ok () w" and w: "locks w = []"
    using lk p hold by (simp_all add: buf_holding_Ok_iff buf_release_Ok_iff w_def holds_def)
  have xl: "length (buffers x) = Suc NBUF" using len by (simp add: x_def w_def)
  have "lru w xs = lru s xs"
  proof -
    have "lru w xs = lru (upd_buf i (\<lambda>b. b\<lparr>b_lock := (b_lock b)\<lparr>sl_locked := False, sl_pid := 0\<rparr>\<rparr>) s) xs"
      by (rule lru_cong) (simp add: w_def wakeup1_def)
    then show ?thesis by (simp add: lru_upd_buf)
  qed
  moreover have "lru (w\<lparr>locks := [BcacheLock]\<rparr>) xs = lru w xs" by (rule lru_cong) simp
  ultimately have x: "lru x xs" using lru by (simp add: x_def lru_upd_buf)
  then have l: "lru (link_front i (unlink_buf i x)) (i # remove1 i xs)" by (rule lru_move_front(1) [OF _ i xl])
  have c: "b_refcnt (bufn x i) = b_refcnt (bufn s i) - 1"
    using len i by (simp add: x_def w_def bufn_upd_buf bufn_def wakeup1_def upd_buf_def)
  have "bind (whenM (b_refcnt (bufn x i) = 0) (bind (modify (unlink_buf i)) (\<lambda>_. modify (link_front i))))
      (\<lambda>_. release BcacheLock) x = Ok () t"
    using run h rel w by (simp add: brelse_def x_def)
  moreover have "b_refcnt (bufn x i) = 0 \<longleftrightarrow> b_refcnt (bufn s i) = 1" using c pos by auto
  moreover have "locks x = [BcacheLock]" by (simp add: x_def)
  ultimately have "t = (if b_refcnt (bufn s i) = 1 then link_front i (unlink_buf i x) else x)\<lparr>locks := []\<rparr>"
    by (cases "b_refcnt (bufn s i) = 1") simp_all
  then have "buffers t = buffers (if b_refcnt (bufn s i) = 1 then link_front i (unlink_buf i x) else x)" by simp
  from lru_cong [OF this] show ?thesis using l x by simp
qed

lemma read_cycle:
  assumes inv: "bio_inv s" and lk: "locks s = []" and p: "curproc s = Some p" and lru: "lru s xs" and n: "n < disksize s"
    and avail: "if \<exists>j. cached s j n then \<exists>j. cached s j n \<and> \<not> sl_locked (b_lock (bufn s j)) else \<exists>j < NBUF. idle s j"
  shows "\<exists>i t u. bread ROOTDEV n s = Ok i t \<and> b_data (bufn t i) = blk s n \<and> brelse i t = Ok () u
    \<and> bio_inv u \<and> blk u = blk s \<and> memdisk u = memdisk s
    \<and> (if \<exists>j. cached s j n then cached s i n else find (idle s) (rev xs) = Some i)
    \<and> (\<forall>j < NBUF. j \<noteq> i \<longrightarrow> same_buf (bufn u j) (bufn s j)) \<and> b_refcnt (bufn u i) = b_refcnt (bufn s i)
    \<and> lru u (if b_refcnt (bufn s i) = 0 then i # remove1 i xs else xs)"
proof -
  obtain i t where 1: "bread ROOTDEV n s = Ok i t"
    using bread_returns [OF inv lk p n] avail by (auto simp: idle_def split: if_splits)
  note r = bread_Ok [OF inv 1] and o = bread_only [OF inv 1]
  obtain g where g: "bget ROOTDEV n s = Ok i g" using 1 by (auto simp: bread_def run_iff)
  have t: "bio_inv t" "holds t i n" "settled t i" "curproc t = Some p" "locks t = []"
    and len: "length (buffers t) = Suc NBUF" using r lk p by (auto simp: bio_inv_def bframe_def)
  obtain u where 2: "brelse i t = Ok () u" using brelse_returns [OF t(5,4,2)] by blast
  note y = brelse_Ok [OF t(1,2,3) 2] and yo = brelse_only [OF t(1,2,3) 2]
  have "lru t xs" using bread_lru [OF inv 1] lru by simp
  from brelse_lru [OF t(5,4,2) this len 2]
  have "lru u (if b_refcnt (bufn s i) = 0 then i # remove1 i xs else xs)" using o by simp
  moreover have "b_refcnt (bufn u i) = b_refcnt (bufn s i)" using yo [of i] o by (simp add: same_buf_def dropped_def)
  moreover have "same_buf (bufn u j) (bufn s j)" if "j \<noteq> i" for j using yo [of j] o that by simp
  moreover have "if \<exists>j. cached s j n then cached s i n else find (idle s) (rev xs) = Some i"
    using bget_Ok [OF inv g] bget_choice [OF inv lru _ g] by auto
  moreover have "b_data (bufn t i) = blk s n" using holds_blk [OF t(1,2)] r by simp
  ultimately show ?thesis using 1 2 y r by auto
qed

subsection \<open>Properties\<close>

text \<open>C14: The buffer cache is transparent and recycles the least recently used buffer, whatever other buffers are
  in use, locked or dirty.  If the block is cached and not locked, or is not cached and some buffer is neither
  referenced nor dirty, \<open>bread\<close> returns a buffer with the block's contents, the cache's if it
  has the block and the disk's otherwise; if the block was not cached, the buffer is the last one of
  the list, from the most to the least recently used, that is neither referenced nor dirty.  \<open>brelse\<close>
  then makes it the first of the list if nobody else refers to it.  No block's contents, no block on the disk
  and no other buffer change.  If the block is not cached and there is no such buffer, \<open>bread\<close> panics.\<close>

theorem cache_transparent_lru:
  assumes "bio_inv s" and "locks s = []" and "curproc s = Some p" and "lru s xs" and "n < disksize s"
  shows "((if \<exists>j. cached s j n then \<exists>j. cached s j n \<and> \<not> sl_locked (b_lock (bufn s j)) else \<exists>j < NBUF. idle s j) \<longrightarrow>
      (\<exists>i t u. bread ROOTDEV n s = Ok i t \<and> b_data (bufn t i) = blk s n \<and> brelse i t = Ok () u
        \<and> bio_inv u \<and> blk u = blk s \<and> memdisk u = memdisk s
        \<and> (if \<exists>j. cached s j n then cached s i n else find (idle s) (rev xs) = Some i)
        \<and> (\<forall>j < NBUF. j \<noteq> i \<longrightarrow> same_buf (bufn u j) (bufn s j)) \<and> b_refcnt (bufn u i) = b_refcnt (bufn s i)
        \<and> lru u (if b_refcnt (bufn s i) = 0 then i # remove1 i xs else xs)))
    \<and> ((\<forall>j. \<not> cached s j n) \<and> (\<forall>j < NBUF. \<not> idle s j) \<longrightarrow> bread ROOTDEV n s = Panic ''bget: no buffers'')"
  using read_cycle [OF assms] bget_full [OF assms(1,2,4)] by blast

text \<open>A process that holds buffer 0 reads another block: it gets buffer 1, though 0 is further back in the list.\<close>

lemma cache_transparent_lru_witness:
  "\<exists>s t. bread ROOTDEV 7 running_kernel = Ok 0 s \<and> b_refcnt (bufn s 0) = 1 \<and> bread ROOTDEV 8 s = Ok 1 t"
proof -
  note k = running_kernel
  let ?xs = "rev [0..<NBUF]"
  have inv: "bio_inv running_kernel" and lk: "locks running_kernel = []" using calmD [OF k(1)] by simp_all
  obtain p where p: "curproc running_kernel = Some p" using calmD(3) [OF k(1)] by blast
  have nb: "NBUF = 30" by (simp add: NBUF_def MAXOPBLOCKS_def)
  then have z: "0 < NBUF" by simp
  have clean: "idle running_kernel j" if "j < NBUF" for j
    using that calmD(4) [OF k(1)] k(2) [of "{}"] by (auto simp: idle_def pinned_def)
  have f: "find (idle running_kernel) (rev ?xs) = Some 0" using clean by (simp add: find_upt_Some nb)
  have no: "\<not> cached running_kernel j m" if "m = 7 \<or> m = 8" for j m
    using started_calm(9) [OF boot_kernel_at_boot] that by (auto simp: running_kernel_def)
  have "(if \<exists>j. cached running_kernel j 7 then \<exists>j. cached running_kernel j 7 \<and> \<not> sl_locked (b_lock (bufn running_kernel j))
      else \<exists>j < NBUF. idle running_kernel j)" using no clean [OF z] z by auto
  then obtain s where s: "bread ROOTDEV 7 running_kernel = Ok 0 s"
    using read_cycle [OF inv lk p k(12), of 7] no f by (auto simp: k(3))
  note r = bread_Ok [OF inv s] and o = bread_only [OF inv s]
  have t: "bio_inv s" "locks s = []" "curproc s = Some p" "lru s ?xs" "8 < disksize s"
    using r lk p bread_lru [OF inv s] k(12) by (auto simp: bframe_def k(3))
  have one: "b_refcnt (bufn s 0) = 1" using o calmD(4) [OF k(1), of 0] nb by simp
  have same: "bufn s j = bufn running_kernel j" if "j \<noteq> 0" for j using o that by simp
  have free: "idle s j" if "0 < j" "j < NBUF" for j using clean [OF that(2)] same [of j] that(1) by (simp add: idle_def)
  then have g: "find (idle s) [0..<NBUF] = Some 1" using one by (simp add: find_upt_Some nb idle_def)
  have no8: "\<not> cached s j 8" for j
  proof (cases "j = 0")
    case True
    then show ?thesis using r by (simp add: holds_def cached_def)
  next
    case False
    then show ?thesis using no [of 8 j] same [OF False] by (simp add: cached_def)
  qed
  have "\<exists>j < NBUF. idle s j" using free [of 1] nb by (intro exI [of _ 1]) simp
  then obtain t where "bread ROOTDEV 8 s = Ok 1 t" using cache_transparent_lru [OF t] no8 g by auto
  then show ?thesis using s one by blast
qed

end
