(* ===== verification/Kalloc.thy ===== *)
theory Kalloc
  imports Fs
begin

text \<open>
  Physical memory and its allocator, kalloc.c.  \<open>kmem\<close> is the memory that the kernel's pointers
  address: all of physical memory is mapped at \<open>KERNBASE\<close>, and the code converts with \<open>P2V\<close> and
  \<open>V2P\<close>.  The free list is the list the code keeps in the free pages themselves, each of which
  starts with the address of the next one.
\<close>

subsection \<open>mmu.h, memlayout.h\<close>

definition PGSIZE :: uint where "PGSIZE = 4096"
definition EXTMEM :: uint where "EXTMEM = 0x100000"
definition PHYSTOP :: uint where "PHYSTOP = 0xE000000"
definition DEVSPACE :: uint where "DEVSPACE = 0xFE000000"
definition KERNBASE :: uint where "KERNBASE = 0x80000000"
definition KERNLINK :: uint where "KERNLINK = KERNBASE + EXTMEM"

definition V2P :: "uint \<Rightarrow> uint" where "V2P a = a - KERNBASE"
definition P2V :: "uint \<Rightarrow> uint" where "P2V a = a + KERNBASE"

definition PGROUNDUP :: "uint \<Rightarrow> uint" where
  "PGROUNDUP sz = (sz + PGSIZE - 1) AND NOT (PGSIZE - 1)"

definition PGROUNDDOWN :: "uint \<Rightarrow> uint" where
  "PGROUNDDOWN a = a AND NOT (PGSIZE - 1)"

subsection \<open>State\<close>

text \<open>
  \<open>k_end\<close> and \<open>k_data\<close> are the addresses of the symbols \<open>end\<close> and \<open>data\<close> of the linker script.
  \<open>cr3\<close> and \<open>ts_esp0\<close> are the registers that \<open>switchkvm\<close> and \<open>switchuvm\<close> load.
\<close>

record vstate = fstate +
  kmem :: mem
  freelist :: uint
  use_lock :: bool
  k_end :: uint
  k_data :: uint
  kpgdir :: uint
  cr3 :: uint
  ts_esp0 :: uint

type_synonym ('z, 'a) vop = "'z vstate_scheme \<Rightarrow> ('z vstate_scheme, 'a) outcome"

definition load32 :: "mem \<Rightarrow> nat \<Rightarrow> uint" where
  "load32 m a = ucast (m a) OR push_bit 8 (ucast (m (a + 1)))
     OR push_bit 16 (ucast (m (a + 2))) OR push_bit 24 (ucast (m (a + 3)))"

definition store32 :: "nat \<Rightarrow> uint \<Rightarrow> mem \<Rightarrow> mem" where
  "store32 a w m = m(a := ucast w, a + 1 := ucast (drop_bit 8 w),
     a + 2 := ucast (drop_bit 16 w), a + 3 := ucast (drop_bit 24 w))"

definition load_at :: "uint \<Rightarrow> 'z vstate_scheme \<Rightarrow> uint" where
  "load_at a s = load32 (kmem s) (unat a)"

definition store_at :: "uint \<Rightarrow> uint \<Rightarrow> 'z vstate_scheme \<Rightarrow> 'z vstate_scheme" where
  "store_at a w s = s\<lparr>kmem := store32 (unat a) w (kmem s)\<rparr>"

definition memset_page :: "uint \<Rightarrow> uint \<Rightarrow> 'z vstate_scheme \<Rightarrow> 'z vstate_scheme" where
  "memset_page a c s = s\<lparr>kmem := memset (unat a) c (unat PGSIZE) (kmem s)\<rparr>"

subsection \<open>kalloc.c\<close>

definition kfree :: "uint \<Rightarrow> ('z, unit) vop" where
  "kfree v = bind (reads k_end) (\<lambda>kend.
    bind (panic_if (v mod PGSIZE \<noteq> 0 \<or> v < kend \<or> V2P v \<ge> PHYSTOP) ''kfree'') (\<lambda>_.
    bind (modify (memset_page v 1)) (\<lambda>_.
    bind (reads use_lock) (\<lambda>lock.
    bind (whenM lock (acquire KmemLock)) (\<lambda>_.
    bind (modify (\<lambda>s. store_at v (freelist s) s)) (\<lambda>_.
    bind (modify (\<lambda>s. s\<lparr>freelist := v\<rparr>)) (\<lambda>_.
    whenM lock (release KmemLock))))))))"

definition kalloc :: "('z, uint) vop" where
  "kalloc = bind (reads use_lock) (\<lambda>lock.
    bind (whenM lock (acquire KmemLock)) (\<lambda>_.
    bind (reads freelist) (\<lambda>r.
    bind (whenM (r \<noteq> 0) (modify (\<lambda>s. s\<lparr>freelist := load_at r s\<rparr>))) (\<lambda>_.
    bind (whenM lock (release KmemLock)) (\<lambda>_.
    ret r)))))"

text \<open>The pages from \<open>PGROUNDUP vstart\<close> that end at or below \<open>vend\<close>.\<close>

definition freerange :: "uint \<Rightarrow> uint \<Rightarrow> ('z, unit) vop" where
  "freerange vstart vend = bind (for_each (map (\<lambda>k. PGROUNDUP vstart + word_of_nat k * PGSIZE)
                [0..<(unat vend - unat (PGROUNDUP vstart)) div unat PGSIZE]) (\<lambda>p. bind (kfree p) (\<lambda>_.
                  ret (None :: unit option)))) (\<lambda>_.
    ret ())"

definition kinit1 :: "uint \<Rightarrow> uint \<Rightarrow> ('z, unit) vop" where
  "kinit1 vstart vend = bind (modify (\<lambda>s. s\<lparr>use_lock := False\<rparr>)) (\<lambda>_.
    freerange vstart vend)"

definition kinit2 :: "uint \<Rightarrow> uint \<Rightarrow> ('z, unit) vop" where
  "kinit2 vstart vend = bind (freerange vstart vend) (\<lambda>_.
    modify (\<lambda>s. s\<lparr>use_lock := True\<rparr>))"

end
