(* ===== verification/Kalloc_Props.thy ===== *)
theory Kalloc_Props
  imports Kalloc
begin

text \<open>
  The free list of kalloc.c as an abstract list of pages: what is stored in the free pages
  themselves, and what \<open>kfree\<close>, \<open>kalloc\<close> and \<open>freerange\<close> do to the list.
\<close>

subsection \<open>Words in memory\<close>

lemma load32_store32 [simp]: "load32 (store32 a w m) a = w"
proof (rule bit_word_eqI)
  fix n assume n: "n < LENGTH(32)"
  have "n < 24 \<Longrightarrow> \<not> n < 16 \<Longrightarrow> 16 + (n - 16) = n" "\<not> n < 24 \<Longrightarrow> 24 + (n - 24) = n" by simp_all
  then show "bit (load32 (store32 a w m) a) n \<longleftrightarrow> bit w n"
    using n by (cases "n < 8"; cases "n < 16"; cases "n < 24") (auto simp: load32_def store32_def bit_simps)
qed

lemma store32_out: "x < a \<or> a + 4 \<le> x \<Longrightarrow> store32 a w m x = m x"
  by (auto simp: store32_def)

lemma load32_cong: "(\<And>k. k < 4 \<Longrightarrow> m (a + k) = m' (a + k)) \<Longrightarrow> load32 m a = load32 m' a"
proof -
  assume h: "\<And>k. k < 4 \<Longrightarrow> m (a + k) = m' (a + k)"
  show ?thesis using h [of 0] h [of 1] h [of 2] h [of 3] by (simp add: load32_def)
qed

subsection \<open>Pages\<close>

text \<open>The addresses \<open>kfree\<close> takes: those of the pages between \<open>end\<close> and \<open>PHYSTOP\<close>.\<close>

definition page_ok :: "'z vstate_scheme \<Rightarrow> uint \<Rightarrow> bool" where
  "page_ok s p \<longleftrightarrow> p mod PGSIZE = 0 \<and> k_end s \<le> p \<and> V2P p < PHYSTOP"

definition in_page :: "uint \<Rightarrow> nat \<Rightarrow> bool" where
  "in_page p x \<longleftrightarrow> unat p \<le> x \<and> x < unat p + 4096"

lemma page_ok_unat: "page_ok s p \<Longrightarrow> unat p mod 4096 = 0"
proof -
  assume "page_ok s p"
  then have "unat (p mod 4096) = 0" by (simp add: page_ok_def PGSIZE_def)
  then show ?thesis by (simp add: unat_mod)
qed

lemma page_ok_nonzero: "page_ok s p \<Longrightarrow> p \<noteq> 0"
  by (auto simp: page_ok_def V2P_def KERNBASE_def PHYSTOP_def)

lemma page_ok_cong: "k_end t = k_end s \<Longrightarrow> page_ok t = page_ok s"
  by (simp add: page_ok_def fun_eq_iff)

lemma in_page_disjoint:
  assumes "unat p mod 4096 = 0" and "unat q mod 4096 = 0" and "p \<noteq> q" and "in_page p x"
  shows "\<not> in_page q x"
proof
  assume "in_page q x"
  then have near: "unat p < unat q + 4096" "unat q < unat p + 4096"
    using assms(4) by (auto simp: in_page_def)
  obtain j k where "unat p = 4096 * j" "unat q = 4096 * k"
    using assms(1,2) by (auto simp: mod_eq_0_iff_dvd dvd_def)
  moreover from this near have "j < k + 1" "k < j + 1" by linarith+
  ultimately have "unat p = unat q" by simp
  then show False using assms(3) by (simp add: word_unat_eq_iff)
qed

lemma in_page_word: "k < 4 \<Longrightarrow> in_page p (unat p + k)"
  by (simp add: in_page_def)

lemma load32_page:
  assumes "unat p mod 4096 = 0" and "unat q mod 4096 = 0" and "p \<noteq> q"
    and "\<And>x. \<not> in_page p x \<Longrightarrow> m' x = m x"
  shows "load32 m' (unat q) = load32 m (unat q)"
  by (rule load32_cong) (metis assms in_page_disjoint in_page_word)

subsection \<open>The free list\<close>

primrec chain :: "mem \<Rightarrow> uint \<Rightarrow> uint list \<Rightarrow> bool" where
  "chain m a [] \<longleftrightarrow> a = 0"
| "chain m a (p # ps) \<longleftrightarrow> a = p \<and> p \<noteq> 0 \<and> chain m (load32 m (unat p)) ps"

definition free_pages :: "'z vstate_scheme \<Rightarrow> uint list \<Rightarrow> bool" where
  "free_pages s ps \<longleftrightarrow> chain (kmem s) (freelist s) ps \<and> distinct ps \<and> (\<forall>p \<in> set ps. page_ok s p)"

lemma chain_cong:
  "(\<And>p. p \<in> set ps \<Longrightarrow> load32 m' (unat p) = load32 m (unat p)) \<Longrightarrow> chain m' a ps = chain m a ps"
  by (induction ps arbitrary: a) auto

lemma chain_unique: "chain m a ps \<Longrightarrow> chain m a qs \<Longrightarrow> ps = qs"
proof (induction ps arbitrary: a qs)
  case Nil
  then show ?case by (cases qs) auto
next
  case (Cons p ps)
  then show ?case by (cases qs) auto
qed

lemma free_pages_unique: "free_pages s ps \<Longrightarrow> free_pages s qs \<Longrightarrow> ps = qs"
  unfolding free_pages_def by (blast dest: chain_unique)

text \<open>A page that is not free can be written: the list is the same.\<close>

lemma free_pages_write:
  assumes "free_pages s ps" and "p \<notin> set ps" and "page_ok s p"
    and "\<And>x. \<not> in_page p x \<Longrightarrow> m x = kmem s x"
  shows "free_pages (s\<lparr>kmem := m\<rparr>) ps"
proof -
  have "chain m (freelist s) ps = chain (kmem s) (freelist s) ps"
  proof (rule chain_cong, rule load32_page [of p])
    fix q assume "q \<in> set ps"
    then show "unat q mod 4096 = 0" "p \<noteq> q"
      using assms(1,2) by (auto simp: free_pages_def page_ok_unat)
  qed (use assms page_ok_unat in blast)+
  then show ?thesis using assms(1) by (auto simp: free_pages_def page_ok_def)
qed

subsection \<open>Operations\<close>

definition kmem_free :: "'z vstate_scheme \<Rightarrow> bool" where
  "kmem_free s \<longleftrightarrow> (use_lock s \<longrightarrow> KmemLock \<notin> set (locks s))"

text \<open>The memory that \<open>kfree\<close> leaves, and its whole effect.\<close>

definition freed_mem :: "uint \<Rightarrow> 'z vstate_scheme \<Rightarrow> mem" where
  "freed_mem p s = store32 (unat p) (freelist s) (memset (unat p) 1 4096 (kmem s))"

lemma freed_mem_out: "\<not> in_page p x \<Longrightarrow> freed_mem p s x = kmem s x"
  by (auto simp: freed_mem_def in_page_def memset_spec store32_def)

lemma kfree_run:
  assumes "page_ok s p" and "kmem_free s"
  shows "kfree p s = Ok () (s\<lparr>kmem := freed_mem p s, freelist := p\<rparr>)"
proof -
  have c: "(p mod PGSIZE \<noteq> 0 \<or> p < k_end s \<or> V2P p \<ge> PHYSTOP) = False"
    using assms(1) by (auto simp: page_ok_def)
  have pg: "unat PGSIZE = 4096" by (simp add: PGSIZE_def)
  let ?m = "memset (unat p) 1 4096 (kmem s)"
  let ?t = "s\<lparr>kmem := store32 (unat p) (freelist s) ?m, freelist := p\<rparr>"
  have "kfree p s = bind (whenM (use_lock s) (acquire KmemLock)) (\<lambda>_.
    bind (modify (\<lambda>s. store_at p (freelist s) s)) (\<lambda>_.
    bind (modify (\<lambda>s. s\<lparr>freelist := p\<rparr>)) (\<lambda>_. whenM (use_lock s) (release KmemLock)))) (s\<lparr>kmem := ?m\<rparr>)"
    unfolding kfree_def bind_prims c panic_if_def if_False memset_page_def pg by simp
  also have "\<dots> = Ok () ?t"
  proof (cases "use_lock s")
    case True
    then have "KmemLock \<notin> set (locks (s\<lparr>kmem := ?m\<rparr>))" using assms(2) by (simp add: kmem_free_def)
    from acquire_free [OF this] show ?thesis using True by (simp add: store_at_def)
  next
    case False
    then show ?thesis by (simp add: store_at_def)
  qed
  finally show ?thesis by (simp add: freed_mem_def)
qed

lemma kfree_bad: "\<not> page_ok s p \<Longrightarrow> kfree p s = Panic ''kfree''"
  by (auto simp: kfree_def page_ok_def bind_def panic_if_def not_le not_less)

lemma kfree_Ok_ok: "kfree p s = Ok u t \<Longrightarrow> page_ok s p"
  using kfree_bad [of s p] by fastforce

lemma kfree_Ok_free: "kfree p s = Ok u t \<Longrightarrow> kmem_free s"
  by (auto simp: kfree_def kmem_free_def run_iff acquire_Ok_iff memset_page_def reads_def modify_def
      simp del: bind_simps whenM_simps)

lemma kfree_pushes:
  assumes "free_pages s ps" and "page_ok s p" and "p \<notin> set ps"
  shows "free_pages (s\<lparr>kmem := freed_mem p s, freelist := p\<rparr>) (p # ps)"
proof -
  have "free_pages (s\<lparr>kmem := freed_mem p s\<rparr>) ps"
    using free_pages_write [OF assms(1,3,2)] freed_mem_out by blast
  then show ?thesis
    using assms(2,3) page_ok_nonzero [OF assms(2)]
    by (auto simp: free_pages_def page_ok_def freed_mem_def)
qed

lemma kalloc_run:
  assumes "kmem_free s"
  shows "kalloc s = Ok (freelist s)
    (if freelist s = 0 then s else s\<lparr>freelist := load32 (kmem s) (unat (freelist s))\<rparr>)"
proof (cases "use_lock s")
  case True
  then have "acquire KmemLock s = Ok () (s\<lparr>locks := KmemLock # locks s\<rparr>)"
    using assms by (simp add: kmem_free_def)
  with True show ?thesis by (cases "freelist s = 0") (simp_all add: kalloc_def load_at_def)
next
  case False
  then show ?thesis by (cases "freelist s = 0") (simp_all add: kalloc_def load_at_def)
qed

lemma kalloc_Ok_free: "kalloc s = Ok r t \<Longrightarrow> kmem_free s"
  by (auto simp: kalloc_def kmem_free_def run_iff acquire_Ok_iff reads_def
      simp del: bind_simps whenM_simps)

lemma kalloc_pops:
  assumes "free_pages s (p # ps)"
  shows "freelist s = p" and "p \<noteq> 0" and "free_pages (s\<lparr>freelist := load32 (kmem s) (unat p)\<rparr>) ps"
  using assms by (auto simp: free_pages_def page_ok_def)

lemma kalloc_empty: "free_pages s [] \<Longrightarrow> freelist s = 0"
  by (simp add: free_pages_def)

subsection \<open>freerange\<close>

definition range_pages :: "uint \<Rightarrow> uint \<Rightarrow> uint list" where
  "range_pages a b = map (\<lambda>k. PGROUNDUP a + word_of_nat k * PGSIZE)
     [0..<(unat b - unat (PGROUNDUP a)) div unat PGSIZE]"

lemma free_each:
  assumes "free_pages s ps" and "kmem_free s" and "\<forall>p \<in> set qs. page_ok s p" and "distinct qs"
    and "set qs \<inter> set ps = {}"
  shows "\<exists>t. for_each qs (\<lambda>p. bind (kfree p) (\<lambda>_. ret (None :: unit option))) s = Ok None t
    \<and> free_pages t (rev qs @ ps) \<and> (\<exists>m f. t = s\<lparr>kmem := m, freelist := f\<rparr>)
    \<and> (\<forall>x. (\<forall>q \<in> set qs. \<not> in_page q x) \<longrightarrow> kmem t x = kmem s x)"
  using assms
proof (induction qs arbitrary: s ps)
  case Nil
  have "s = s\<lparr>kmem := kmem s, freelist := freelist s\<rparr>" by simp
  then have "\<exists>m f. s = s\<lparr>kmem := m, freelist := f\<rparr>" by blast
  moreover have "for_each [] (\<lambda>p. bind (kfree p) (\<lambda>_. ret (None :: unit option))) s = Ok None s" by simp
  moreover have "free_pages s (rev [] @ ps)" using Nil by simp
  ultimately show ?case by blast
next
  case (Cons q qs)
  let ?s = "s\<lparr>kmem := freed_mem q s, freelist := q\<rparr>"
  have run: "kfree q s = Ok () ?s" using Cons.prems by (simp add: kfree_run)
  have "free_pages ?s (q # ps)" using Cons.prems by (intro kfree_pushes) auto
  then have "\<exists>t. for_each qs (\<lambda>p. bind (kfree p) (\<lambda>_. ret (None :: unit option))) ?s = Ok None t
    \<and> free_pages t (rev qs @ q # ps) \<and> (\<exists>m f. t = ?s\<lparr>kmem := m, freelist := f\<rparr>)
    \<and> (\<forall>x. (\<forall>q \<in> set qs. \<not> in_page q x) \<longrightarrow> kmem t x = kmem ?s x)"
    using Cons.prems by (intro Cons.IH) (auto simp: kmem_free_def page_ok_def)
  then obtain t m f where t: "for_each qs (\<lambda>p. bind (kfree p) (\<lambda>_. ret (None :: unit option))) ?s = Ok None t"
    "free_pages t (rev qs @ q # ps)" "t = ?s\<lparr>kmem := m, freelist := f\<rparr>"
    "\<And>x. \<forall>q \<in> set qs. \<not> in_page q x \<Longrightarrow> kmem t x = kmem ?s x"
    by blast
  have "for_each (q # qs) (\<lambda>p. bind (kfree p) (\<lambda>_. ret (None :: unit option))) s = Ok None t"
    using t(1) by (simp only: for_each.simps bind_assoc bind_simps(1) [where m = "kfree q", OF run] bind_prims option.case)
  moreover have "t = s\<lparr>kmem := m, freelist := f\<rparr>" using t(3) by simp
  moreover have "kmem t x = kmem s x" if "\<forall>p \<in> set (q # qs). \<not> in_page p x" for x
    using t(4) [of x] that freed_mem_out [of q x s] by simp
  moreover have "free_pages t (rev (q # qs) @ ps)" using t(2) by simp
  ultimately show ?case by blast
qed

lemma range_pages_nth:
  fixes a b :: uint
  assumes "k < (unat b - unat (PGROUNDUP a)) div 4096"
  shows "unat (PGROUNDUP a + word_of_nat k * PGSIZE) = unat (PGROUNDUP a) + k * 4096"
proof -
  have b: "unat b < 2 ^ 32" by (rule unat_bound)
  have "(k + 1) * 4096 \<le> unat b - unat (PGROUNDUP a)" using assms
    by (metis Suc_eq_plus1 Suc_leI div_times_less_eq_dividend le_trans mult_le_mono1)
  then have "k * 4096 + 4096 \<le> unat b - unat (PGROUNDUP a)" by simp
  then have l: "unat (PGROUNDUP a) + k * 4096 < 2 ^ 32" using b by linarith
  have "PGROUNDUP a + word_of_nat k * PGSIZE = word_of_nat (unat (PGROUNDUP a) + k * 4096)"
    by (simp add: PGSIZE_def)
  also have "unat \<dots> = unat (PGROUNDUP a) + k * 4096" by (rule unat_of_nat32 [OF l])
  finally show ?thesis .
qed

lemma range_pages_distinct: "distinct (range_pages a b)"
proof -
  have "inj_on (\<lambda>k. PGROUNDUP a + word_of_nat k * PGSIZE) {0..<(unat b - unat (PGROUNDUP a)) div 4096}"
  proof (rule inj_onI)
    fix k j
    assume "k \<in> {0..<(unat b - unat (PGROUNDUP a)) div 4096}" "j \<in> {0..<(unat b - unat (PGROUNDUP a)) div 4096}"
      and e: "PGROUNDUP a + word_of_nat k * PGSIZE = PGROUNDUP a + word_of_nat j * PGSIZE"
    then have "k < (unat b - unat (PGROUNDUP a)) div 4096" "j < (unat b - unat (PGROUNDUP a)) div 4096" by auto
    from range_pages_nth [OF this(1)] range_pages_nth [OF this(2)] show "k = j" unfolding e by linarith
  qed
  then show ?thesis by (simp add: range_pages_def distinct_map PGSIZE_def)
qed

lemma PGROUNDUP_aligned: "PGROUNDUP a mod PGSIZE = 0"
proof -
  have "PGROUNDUP a AND mask 12 = 0"
    by (rule bit_word_eqI) (simp add: PGROUNDUP_def PGSIZE_def bit_simps mask_eq_exp_minus_1)
  then show ?thesis
    by (simp add: PGSIZE_def flip: take_bit_eq_mod [of 12, simplified] take_bit_eq_mask)
qed

end
