(* ===== verification/Kalloc_Claims.thy ===== *)
theory Kalloc_Claims
  imports Kalloc_Props
begin

text \<open>
  What the page allocator promises: the pages it hands out, over every sequence of allocations,
  frees and writes into allocated pages, starting from the pages that \<open>kinit1\<close> gave it.
\<close>

text \<open>\<open>page_run P s own\<close>: the allocator was given the pages \<open>P\<close>, and callers own the pages \<open>own\<close>.\<close>

inductive page_run :: "uint set \<Rightarrow> 'z vstate_scheme \<Rightarrow> uint set \<Rightarrow> bool" where
  start: "free_pages s [] \<Longrightarrow> \<forall>p \<in> set (range_pages a b). page_ok s p \<Longrightarrow> kinit1 a b s = Ok () t
    \<Longrightarrow> page_run (set (range_pages a b)) t {}"
| alloc: "page_run P s own \<Longrightarrow> kalloc s = Ok p t
    \<Longrightarrow> page_run P t (if p = 0 then own else insert p own)"
| free: "page_run P s own \<Longrightarrow> p \<in> own \<Longrightarrow> kfree p s = Ok () t \<Longrightarrow> page_run P t (own - {p})"
| poke: "page_run P s own \<Longrightarrow> p \<in> own \<Longrightarrow> in_page p x
    \<Longrightarrow> page_run P (s\<lparr>kmem := (kmem s)(x := b)\<rparr>) own"
| locking: "page_run P s own \<Longrightarrow> page_run P (s\<lparr>locks := ls, use_lock := ul\<rparr>) own"

lemma kinit1_run:
  assumes "free_pages s []" and "\<forall>p \<in> set (range_pages a b). page_ok s p"
  shows "\<exists>t. kinit1 a b s = Ok () t \<and> free_pages t (rev (range_pages a b)) \<and> k_end t = k_end s"
proof -
  let ?s = "s\<lparr>use_lock := False\<rparr>"
  have "free_pages ?s []" "kmem_free ?s" "\<forall>p \<in> set (range_pages a b). page_ok ?s p"
    using assms by (auto simp: free_pages_def kmem_free_def page_ok_def)
  from free_each [OF this range_pages_distinct]
  obtain t where "for_each (range_pages a b) (\<lambda>p. bind (kfree p) (\<lambda>_. ret (None :: unit option))) ?s = Ok None t"
    "free_pages t (rev (range_pages a b))" "k_end t = k_end s" by auto
  moreover from this have "freerange a b ?s = Ok () t"
    unfolding freerange_def range_pages_def by (subst bind_simps(1)) auto
  ultimately show ?thesis by (auto simp: kinit1_def)
qed

lemma page_run_inv:
  "page_run P s own \<Longrightarrow> \<exists>ps. free_pages s ps \<and> set ps \<inter> own = {} \<and> set ps \<union> own = P \<and> (\<forall>p \<in> P. page_ok s p)"
proof (induction rule: page_run.induct)
  case (start s a b t)
  from kinit1_run [OF start(1,2)] start(3) have "free_pages t (rev (range_pages a b))" "k_end t = k_end s" by auto
  then show ?case using start(2) by (intro exI [of _ "rev (range_pages a b)"]) (auto simp: page_ok_def)
next
  case (alloc P s own p t)
  then obtain ps where ps: "free_pages s ps" "set ps \<inter> own = {}" "set ps \<union> own = P" "\<forall>p \<in> P. page_ok s p" by auto
  note r = kalloc_run [OF kalloc_Ok_free [OF alloc.hyps(2)]]
  show ?case
  proof (cases ps)
    case Nil
    then show ?thesis using ps r alloc.hyps(2) kalloc_empty [of s] by (auto intro!: exI [of _ ps])
  next
    case (Cons q qs)
    note k = kalloc_pops [OF ps(1) [unfolded Cons]]
    have d: "distinct ps" using ps(1) by (simp add: free_pages_def)
    have "p = q" "t = s\<lparr>freelist := load32 (kmem s) (unat q)\<rparr>" using r k(1,2) alloc.hyps(2) by auto
    then show ?thesis using ps k d Cons by (intro exI [of _ qs]) (auto simp: page_ok_def)
  qed
next
  case (free P s own p t)
  then obtain ps where ps: "free_pages s ps" "set ps \<inter> own = {}" "set ps \<union> own = P" "\<forall>p \<in> P. page_ok s p" by auto
  then have p: "page_ok s p" "p \<notin> set ps" using free.hyps by auto
  have "t = s\<lparr>kmem := freed_mem p s, freelist := p\<rparr>"
    using kfree_run [OF p(1) kfree_Ok_free [OF free.hyps(3)]] free.hyps(3) by simp
  then show ?case using kfree_pushes [OF ps(1) p] ps free.hyps(2) by (intro exI [of _ "p # ps"]) (auto simp: page_ok_def)
next
  case (poke P s own p x b)
  then obtain ps where ps: "free_pages s ps" "set ps \<inter> own = {}" "set ps \<union> own = P" "\<forall>p \<in> P. page_ok s p" by auto
  then have "p \<notin> set ps" "page_ok s p" using poke.hyps by auto
  moreover have "((kmem s)(x := b)) y = kmem s y" if "\<not> in_page p y" for y using that poke.hyps(3) by auto
  ultimately have "free_pages (s\<lparr>kmem := (kmem s)(x := b)\<rparr>) ps" using free_pages_write [OF ps(1)] by blast
  then show ?case using ps by (intro exI [of _ ps]) (auto simp: page_ok_def)
next
  case (locking P s own ls ul)
  then obtain ps where "free_pages s ps" "set ps \<inter> own = {}" "set ps \<union> own = P" "\<forall>p \<in> P. page_ok s p" by auto
  then show ?case by (intro exI [of _ ps]) (auto simp: free_pages_def page_ok_def)
qed

subsection \<open>A small memory\<close>

text \<open>A kernel that ends at 2 MB and gives the allocator the two pages that follow.\<close>

definition two_pages :: vstate where
  "two_pages = \<lparr>locks = [], procs = [], curproc = None, nextpid = 1, initproc = None, klog = [], buffers = [], memdisk = [],
     disksize = 0, dwrites = [], log_start = 0, log_size = 0, log_outstanding = 0, log_committing = False,
     log_dev = 0, lh_n = 0, lh_block = [], fs_sb = \<lparr>sb_size = 0, sb_nblocks = 0, sb_ninodes = 0, sb_nlog = 0,
       sb_logstart = 0, sb_inodestart = 0, sb_bmapstart = 0\<rparr>, icache = [], kmem = (\<lambda>_. 0), freelist = 0,
     use_lock = True, k_end = 0x80200000, k_data = 0x80108000, kpgdir = 0, cr3 = 0, ts_esp0 = 0\<rparr>"

lemma two_pages_range: "range_pages 0x80200000 0x80202000 = [0x80200000, 0x80201000]"
proof -
  have "PGROUNDUP 0x80200000 = 0x80200000" by (simp add: PGROUNDUP_def PGSIZE_def)
  moreover have "[0..<2] = [0, 1 :: nat]" by (simp add: upt_rec)
  ultimately show ?thesis by (simp add: range_pages_def PGSIZE_def)
qed

lemma two_pages_ok: "free_pages two_pages []" "\<forall>p \<in> set (range_pages 0x80200000 0x80202000). page_ok two_pages p"
  unfolding two_pages_range
  by (simp_all add: free_pages_def two_pages_def page_ok_def PGSIZE_def V2P_def KERNBASE_def PHYSTOP_def)

subsection \<open>Properties\<close>

text \<open>C15: No page is owned twice.  Whatever sequence of allocations, frees of owned pages and writes
  into owned pages led here, \<open>kalloc\<close> returns 0 only if the callers own every page that the
  allocator was given, and otherwise a page of it that nobody owns: aligned, above the kernel's
  \<open>end\<close> and below \<open>PHYSTOP\<close>.\<close>

theorem kalloc_never_shares:
  assumes "page_run P s own" and "kalloc s = Ok p t"
  shows "if p = 0 then own = P else p \<in> P \<and> p \<notin> own \<and> page_ok s p"
proof -
  obtain ps where ps: "free_pages s ps" "set ps \<inter> own = {}" "set ps \<union> own = P" "\<forall>p \<in> P. page_ok s p"
    using page_run_inv [OF assms(1)] by blast
  have p: "p = freelist s" using kalloc_run [OF kalloc_Ok_free [OF assms(2)]] assms(2) by simp
  show ?thesis
  proof (cases ps)
    case Nil
    then show ?thesis using ps p kalloc_empty [of s] by auto
  next
    case (Cons q qs)
    then show ?thesis using ps p kalloc_pops(1,2) [OF ps(1) [unfolded Cons]] by auto
  qed
qed

lemma kalloc_never_shares_witness:
  "\<exists>(s :: vstate) t. page_run {0x80200000, 0x80201000} s {} \<and> kalloc s = Ok 0x80201000 t"
proof -
  obtain s where s: "kinit1 0x80200000 0x80202000 two_pages = Ok () s"
    "free_pages s (rev (range_pages 0x80200000 0x80202000))"
    using kinit1_run [OF two_pages_ok] by blast
  have "page_run (set (range_pages 0x80200000 0x80202000)) s {}" by (rule page_run.start [OF two_pages_ok s(1)])
  from page_run.locking [OF this, where ls = "[]" and ul = False]
  have run: "page_run {0x80200000, 0x80201000} (s\<lparr>locks := [], use_lock := False\<rparr>) {}"
    by (simp add: two_pages_range)
  have "kmem_free (s\<lparr>locks := [], use_lock := False\<rparr>)" by (simp add: kmem_free_def)
  note k = kalloc_run [OF this]
  have "freelist s = 0x80201000" using s(2) by (simp add: two_pages_range free_pages_def)
  with k have "kalloc (s\<lparr>locks := [], use_lock := False\<rparr>) = Ok 0x80201000
      (s\<lparr>locks := [], use_lock := False, freelist := load32 (kmem s) (unat (0x80201000 :: uint))\<rparr>)" by simp
  with kalloc_never_shares [OF run this] run show ?thesis by blast
qed

text \<open>\<open>kinit1\<close> frees exactly the whole pages of its range: it returns without a panic if they lie
  between the kernel's \<open>end\<close> and \<open>PHYSTOP\<close>, and leaves a free list of those pages, each once.\<close>

theorem kinit1_frees_range:
  assumes "free_pages s []" and "\<forall>p \<in> set (range_pages a b). page_ok s p"
  shows "\<exists>t. kinit1 a b s = Ok () t \<and> free_pages t (rev (range_pages a b))"
  using kinit1_run [OF assms] by blast

lemma kinit1_frees_range_witness:
  "\<exists>t. kinit1 0x80200000 0x80202000 two_pages = Ok () t \<and> free_pages t [0x80201000, 0x80200000]"
  using kinit1_frees_range [OF two_pages_ok] by (auto simp: two_pages_range)

end
