(* ===== verification/Vm.thy ===== *)
theory Vm
  imports Kalloc
begin

text \<open>
  Page tables and process memory, vm.c.  A page table entry is a word of \<open>kmem\<close>; the pointers to
  entries that \<open>walkpgdir\<close> returns are their addresses, with \<open>None\<close> for a null pointer.
\<close>

subsection \<open>mmu.h\<close>

definition NPDENTRIES :: nat where "NPDENTRIES = 1024"
definition NPTENTRIES :: nat where "NPTENTRIES = 1024"
definition PTE_P :: uint where "PTE_P = 0x001"
definition PTE_W :: uint where "PTE_W = 0x002"
definition PTE_U :: uint where "PTE_U = 0x004"

definition PDX :: "uint \<Rightarrow> uint" where "PDX va = drop_bit 22 va AND 0x3FF"
definition PTX :: "uint \<Rightarrow> uint" where "PTX va = drop_bit 12 va AND 0x3FF"

definition PGADDR :: "uint \<Rightarrow> uint \<Rightarrow> uint \<Rightarrow> uint" where
  "PGADDR d t x = (push_bit 22 d OR push_bit 12 t OR x)"

definition PTE_ADDR :: "uint \<Rightarrow> uint" where "PTE_ADDR pte = pte AND NOT 0xFFF"
definition PTE_FLAGS :: "uint \<Rightarrow> uint" where "PTE_FLAGS pte = pte AND 0xFFF"

subsection \<open>Page tables\<close>

definition walkpgdir :: "uint \<Rightarrow> uint \<Rightarrow> bool \<Rightarrow> ('z, uint option) vop" where
  "walkpgdir pgdir va alloc = (let pde = pgdir + 4 * PDX va in
    bind (reads (load_at pde)) (\<lambda>e.
    if e AND PTE_P \<noteq> 0 then ret (Some (P2V (PTE_ADDR e) + 4 * PTX va))
     else if \<not> alloc then ret None
     else bind kalloc (\<lambda>pgtab.
       if pgtab = 0 then ret None
       else bind (modify (memset_page pgtab 0)) (\<lambda>_.
         bind (modify (store_at pde (V2P pgtab OR PTE_P OR PTE_W OR PTE_U))) (\<lambda>_.
         ret (Some (pgtab + 4 * PTX va)))))))"

definition mappages :: "uint \<Rightarrow> uint \<Rightarrow> uint \<Rightarrow> uint \<Rightarrow> uint \<Rightarrow> ('z, int) vop" where
  "mappages pgdir va sz pa perm =
     (let a = PGROUNDDOWN va; last = PGROUNDDOWN (va + sz - 1) in bind (for_each (map word_of_nat [0..<unat (last - a) div unat PGSIZE + 1]) (\<lambda>k. bind (walkpgdir pgdir (a + k * PGSIZE) True) (\<lambda>pte.
       case pte of
         None \<Rightarrow> ret (Some (- 1))
       | Some pte \<Rightarrow> bind (reads (load_at pte)) (\<lambda>e.
         bind (panic_if (e AND PTE_P \<noteq> 0) ''remap'') (\<lambda>_.
         bind (modify (store_at pte ((pa + k * PGSIZE) OR perm OR PTE_P))) (\<lambda>_.
         ret None)))))) (\<lambda>r.
       ret (case r of None \<Rightarrow> 0 | Some r \<Rightarrow> r)))"

text \<open>
  \<open>deallocuvm\<close>: the address of the next iteration.  No caller passes an \<open>oldsz\<close> above \<open>KERNBASE\<close>,
  so the address does not wrap; if it did, the outcome would be \<open>Spins\<close>.
\<close>

definition next_page :: "bool \<Rightarrow> uint \<Rightarrow> uint" where
  "next_page no_table a = (if no_table then PGADDR (PDX a + 1) 0 0 - PGSIZE else a) + PGSIZE"

lemma word_up: "a < b \<Longrightarrow> 4294967296 - unat b < 4294967296 - unat (a :: uint)"
  using unsigned_less [of b, where 'a = nat] by (simp add: word_less_nat_alt)

function dealloc_loop :: "uint \<Rightarrow> uint \<Rightarrow> uint \<Rightarrow> ('z, unit) vop" where
  "dealloc_loop pgdir oldsz a =
     (if a < oldsz then bind (walkpgdir pgdir a False) (\<lambda>pte.
       bind ((case pte of
           None \<Rightarrow> ret ()
         | Some pte \<Rightarrow> bind (reads (load_at pte)) (\<lambda>e.
           whenM (e AND PTE_P \<noteq> 0) (bind (panic_if (PTE_ADDR e = 0) ''kfree'') (\<lambda>_.
               bind (kfree (P2V (PTE_ADDR e))) (\<lambda>_.
               modify (store_at pte 0))))))) (\<lambda>_.
       if a < next_page (pte = None) a then dealloc_loop pgdir oldsz (next_page (pte = None) a)
        else spins))
      else ret ())"
  by pat_completeness auto
termination
  by (relation "measure (\<lambda>(pgdir, oldsz, a). 4294967296 - unat a)")
    (auto dest: word_up)

declare dealloc_loop.simps [simp del]

definition deallocuvm :: "uint \<Rightarrow> uint \<Rightarrow> uint \<Rightarrow> ('z, uint) vop" where
  "deallocuvm pgdir oldsz newsz =
     (if newsz \<ge> oldsz then ret oldsz
      else bind (dealloc_loop pgdir oldsz (PGROUNDUP newsz)) (\<lambda>_.
        ret newsz))"

definition freevm :: "uint \<Rightarrow> ('z, unit) vop" where
  "freevm pgdir = bind (panic_if (pgdir = 0) ''freevm: no pgdir'') (\<lambda>_.
    bind (deallocuvm pgdir KERNBASE 0) (\<lambda>_.
    bind (for_each [0..<NPDENTRIES] (\<lambda>i. bind (reads (load_at (pgdir + 4 * word_of_nat i))) (\<lambda>e.
       bind (whenM (e AND PTE_P \<noteq> 0) (kfree (P2V (PTE_ADDR e)))) (\<lambda>_.
       ret (None :: unit option))))) (\<lambda>_.
    kfree pgdir)))"

text \<open>The table \<open>kmap\<close>: virtual address, physical range and permissions.\<close>

definition kmap :: "uint \<Rightarrow> (uint \<times> uint \<times> uint \<times> uint) list" where
  "kmap kdata = [(KERNBASE, 0, EXTMEM, PTE_W),
     (KERNLINK, V2P KERNLINK, V2P kdata, 0),
     (kdata, V2P kdata, PHYSTOP, PTE_W),
     (DEVSPACE, DEVSPACE, 0, PTE_W)]"

definition setupkvm :: "('z, uint) vop" where
  "setupkvm = bind kalloc (\<lambda>pgdir.
    if pgdir = 0 then ret 0
     else bind (modify (memset_page pgdir 0)) (\<lambda>_.
       bind (panic_if (P2V PHYSTOP > DEVSPACE) ''PHYSTOP too high'') (\<lambda>_.
       bind (reads k_data) (\<lambda>kdata.
       bind (for_each (kmap kdata) (\<lambda>(virt, pstart, pend, perm). bind (mappages pgdir virt (pend - pstart) pstart perm) (\<lambda>m.
         if m < 0 then bind (freevm pgdir) (\<lambda>_.
           ret (Some 0)) else ret None))) (\<lambda>r.
       ret (case r of None \<Rightarrow> pgdir | Some z \<Rightarrow> z))))))"

definition switchkvm :: "('z, unit) vop" where
  "switchkvm = modify (\<lambda>s. s\<lparr>cr3 := V2P (kpgdir s)\<rparr>)"

definition kvmalloc :: "('z, unit) vop" where
  "kvmalloc = bind setupkvm (\<lambda>d.
    bind (modify (\<lambda>s. s\<lparr>kpgdir := d\<rparr>)) (\<lambda>_.
    switchkvm))"

text \<open>
  Of the task state segment that \<open>switchuvm\<close> fills in, the model has the stack pointer.
\<close>

definition switchuvm :: "nat option \<Rightarrow> ('z, unit) vop" where
  "switchuvm pp =
     (case pp of
        None \<Rightarrow> panic ''switchuvm: no process''
      | Some i \<Rightarrow> bind (reads (\<lambda>s. procs s ! i)) (\<lambda>p.
        bind (panic_if (p_kstack p = 0) ''switchuvm: no kstack'') (\<lambda>_.
        bind (panic_if (p_pgdir p = 0) ''switchuvm: no pgdir'') (\<lambda>_.
        modify (\<lambda>s. s\<lparr>ts_esp0 := p_kstack p + word_of_nat KSTACKSIZE, cr3 := V2P (p_pgdir p)\<rparr>)))))"

subsection \<open>User memory\<close>

definition store_bytes :: "uint \<Rightarrow> bytes \<Rightarrow> 'z vstate_scheme \<Rightarrow> 'z vstate_scheme" where
  "store_bytes a bs s = s\<lparr>kmem := (\<lambda>x. if unat a \<le> x \<and> x < unat a + length bs
     then bs ! (x - unat a) else kmem s x)\<rparr>"

definition load_bytes :: "uint \<Rightarrow> nat \<Rightarrow> 'z vstate_scheme \<Rightarrow> bytes" where
  "load_bytes a n s = map (\<lambda>k. kmem s (unat a + k)) [0..<n]"

definition inituvm :: "uint \<Rightarrow> bytes \<Rightarrow> ('z, unit) vop" where
  "inituvm pgdir init = bind (panic_if (length init \<ge> unat PGSIZE) ''inituvm: more than a page'') (\<lambda>_.
    bind kalloc (\<lambda>mem.
    if mem = 0 then fault
     else bind (modify (memset_page mem 0)) (\<lambda>_.
       bind (mappages pgdir 0 PGSIZE (V2P mem) (PTE_W OR PTE_U)) (\<lambda>_.
       modify (store_bytes mem init)))))"

definition page_steps :: "nat \<Rightarrow> nat list" where
  "page_steps sz = map (\<lambda>k. k * unat PGSIZE) [0..<(sz + unat PGSIZE - 1) div unat PGSIZE]"

definition loaduvm :: "'z vstate_scheme devsw \<Rightarrow> uint \<Rightarrow> uint \<Rightarrow> nat \<Rightarrow> nat \<Rightarrow> nat \<Rightarrow> ('z, int) vop" where
  "loaduvm dsw pgdir addr ip offset sz = bind (panic_if (addr mod PGSIZE \<noteq> 0) ''loaduvm: addr must be page aligned'') (\<lambda>_.
    bind (for_each (page_steps sz) (\<lambda>i. bind (walkpgdir pgdir (addr + word_of_nat i) False) (\<lambda>pte.
       case pte of
         None \<Rightarrow> panic ''loaduvm: address should exist''
       | Some pte \<Rightarrow> bind (reads (load_at pte)) (\<lambda>e.
         let n = min (sz - i) (unat PGSIZE) in
         bind (readi dsw ip (wrap32 (offset + i)) n) (\<lambda>(r, d).
         bind (modify (store_bytes (P2V (PTE_ADDR e)) d)) (\<lambda>_.
         ret (if r \<noteq> int n then Some (- 1) else None))))))) (\<lambda>r.
    ret (case r of None \<Rightarrow> 0 | Some r \<Rightarrow> r)))"

definition allocuvm :: "uint \<Rightarrow> uint \<Rightarrow> uint \<Rightarrow> ('z, uint) vop" where
  "allocuvm pgdir oldsz newsz =
     (if newsz \<ge> KERNBASE then ret 0
      else if newsz < oldsz then ret oldsz
      else bind (for_each (map (\<lambda>i. PGROUNDUP oldsz + word_of_nat i)
            (page_steps (unat newsz - unat (PGROUNDUP oldsz)))) (\<lambda>a. bind kalloc (\<lambda>mem.
              if mem = 0 then bind (kprint (ascii ''allocuvm out of memory'' @ [10]) []) (\<lambda>_.
            bind (deallocuvm pgdir newsz oldsz) (\<lambda>_.
            ret (Some 0)))
          else bind (modify (memset_page mem 0)) (\<lambda>_.
            bind (mappages pgdir a PGSIZE (V2P mem) (PTE_W OR PTE_U)) (\<lambda>m.
            if m < 0 then bind (kprint (ascii ''allocuvm out of memory (2)'' @ [10]) []) (\<lambda>_.
              bind (deallocuvm pgdir newsz oldsz) (\<lambda>_.
              bind (kfree mem) (\<lambda>_.
              ret (Some 0))))
            else ret None))))) (\<lambda>r.
        ret (case r of None \<Rightarrow> newsz | Some z \<Rightarrow> z)))"

definition clearpteu :: "uint \<Rightarrow> uint \<Rightarrow> ('z, unit) vop" where
  "clearpteu pgdir uva = bind (walkpgdir pgdir uva False) (\<lambda>pte.
    case pte of
       None \<Rightarrow> panic ''clearpteu''
     | Some pte \<Rightarrow> modify (\<lambda>s. store_at pte (load_at pte s AND NOT PTE_U) s))"

definition copyuvm :: "uint \<Rightarrow> uint \<Rightarrow> ('z, uint) vop" where
  "copyuvm pgdir sz = bind setupkvm (\<lambda>d.
    if d = 0 then ret 0
     else bind (for_each (page_steps (unat sz)) (\<lambda>i. bind (walkpgdir pgdir (word_of_nat i) False) (\<lambda>pte.
         case pte of
           None \<Rightarrow> panic ''copyuvm: pte should exist''
         | Some pte \<Rightarrow> bind (reads (load_at pte)) (\<lambda>e.
           bind (panic_if (e AND PTE_P = 0) ''copyuvm: page not present'') (\<lambda>_.
           bind kalloc (\<lambda>mem.
           if mem = 0 then ret (Some ())
             else bind (modify (\<lambda>s. s\<lparr>kmem := memmove (unat mem) (unat (P2V (PTE_ADDR e))) (unat PGSIZE) (kmem s)\<rparr>)) (\<lambda>_.
               bind (mappages d (word_of_nat i) PGSIZE (V2P mem) (PTE_FLAGS e)) (\<lambda>m.
               if m < 0 then bind (kfree mem) (\<lambda>_.
                 ret (Some ()))
               else ret None)))))))) (\<lambda>r.
       case r of
         None \<Rightarrow> ret d
       | Some _ \<Rightarrow> bind (freevm d) (\<lambda>_.
         ret 0)))"

definition uva2ka :: "uint \<Rightarrow> uint \<Rightarrow> ('z, uint) vop" where
  "uva2ka pgdir uva = bind (walkpgdir pgdir uva False) (\<lambda>pte.
    case pte of
       None \<Rightarrow> fault
     | Some pte \<Rightarrow> bind (reads (load_at pte)) (\<lambda>e.
       ret (if e AND PTE_P = 0 then 0 else if e AND PTE_U = 0 then 0 else P2V (PTE_ADDR e))))"

text \<open>\<open>copyout\<close>, over the bytes that are left.\<close>

function copyout :: "uint \<Rightarrow> uint \<Rightarrow> bytes \<Rightarrow> ('z, int) vop" where
  "copyout pgdir va p =
     (if p = [] then ret 0
      else (let va0 = PGROUNDDOWN va in
        bind (uva2ka pgdir va0) (\<lambda>pa0.
        if pa0 = 0 then ret (- 1)
        else (let n = min (length p) (unat (PGSIZE - (va - va0))) in
          if n = 0 then spins
          else bind (modify (store_bytes (pa0 + (va - va0)) (take n p))) (\<lambda>_.
            copyout pgdir (va0 + PGSIZE) (drop n p))))))"
  by pat_completeness auto
termination
  by (relation "measure (\<lambda>(pgdir, va, p). length p)") auto

declare copyout.simps [simp del]

end
