(* ===== verification/Pipe.thy ===== *)
theory Pipe
  imports Vm
begin

text \<open>
  Pipes, pipe.c, but for \<open>pipealloc\<close>, which is in \<open>File\<close>.  A pipe is named by the address of the
  page that \<open>pipealloc\<close> got for it.  The counters \<open>nread\<close> and \<open>nwrite\<close> are 32-bit words and wrap.
\<close>

definition PIPESIZE :: nat where "PIPESIZE = 512"

record pipe =
  pi_data :: bytes
  pi_nread :: uint
  pi_nwrite :: uint
  pi_readopen :: bool
  pi_writeopen :: bool

text \<open>The descriptors of file.h, and the state that pipes, files and the clock add.\<close>

datatype fdtype = FD_NONE | FD_PIPE | FD_INODE

record ofile =
  f_type :: fdtype
  f_ref :: int
  f_readable :: bool
  f_writable :: bool
  f_pipe :: uint
  f_ip :: "nat option"
  f_off :: nat

record xstate = vstate +
  pipes :: "uint \<Rightarrow> pipe"
  ftable :: "ofile list"
  numberOfReadCalls :: uint
  ticks :: uint

type_synonym ('z, 'a) xop = "'z xstate_scheme \<Rightarrow> ('z xstate_scheme, 'a) outcome"

definition upd_pipe :: "uint \<Rightarrow> (pipe \<Rightarrow> pipe) \<Rightarrow> 'z xstate_scheme \<Rightarrow> 'z xstate_scheme" where
  "upd_pipe p f s = s\<lparr>pipes := (pipes s)(p := f (pipes s p))\<rparr>"

definition killed :: "'z xstate_scheme \<Rightarrow> bool" where
  "killed s = p_killed (procs s ! the (curproc s))"

subsection \<open>The ring buffer\<close>

definition pipe_full :: "pipe \<Rightarrow> bool" where
  "pipe_full p \<longleftrightarrow> pi_nwrite p = pi_nread p + word_of_nat PIPESIZE"

definition pipe_empty :: "pipe \<Rightarrow> bool" where
  "pipe_empty p \<longleftrightarrow> pi_nread p = pi_nwrite p"

text \<open>\<open>p->data[p->nwrite++ % PIPESIZE] = c\<close> and \<open>p->data[p->nread++ % PIPESIZE]\<close>.\<close>

definition pipe_put :: "uchar \<Rightarrow> pipe \<Rightarrow> pipe" where
  "pipe_put c p = p\<lparr>pi_data := (pi_data p)[unat (pi_nwrite p) mod PIPESIZE := c],
     pi_nwrite := pi_nwrite p + 1\<rparr>"

definition pipe_get :: "pipe \<Rightarrow> uchar \<times> pipe" where
  "pipe_get p = (pi_data p ! (unat (pi_nread p) mod PIPESIZE), p\<lparr>pi_nread := pi_nread p + 1\<rparr>)"

subsection \<open>pipe.c\<close>

definition pipeclose :: "uint \<Rightarrow> bool \<Rightarrow> ('z, unit) xop" where
  "pipeclose p writable = bind (acquire (PipeLock (unat p))) (\<lambda>_.
    bind (if writable then bind (modify (upd_pipe p (\<lambda>q. q\<lparr>pi_writeopen := False\<rparr>))) (\<lambda>_.
       wakeup (ChPipeRead (unat p)))
     else bind (modify (upd_pipe p (\<lambda>q. q\<lparr>pi_readopen := False\<rparr>))) (\<lambda>_.
       wakeup (ChPipeWrite (unat p)))) (\<lambda>_.
    bind (reads (\<lambda>s. pipes s p)) (\<lambda>q.
    if \<not> pi_readopen q \<and> \<not> pi_writeopen q then bind (release (PipeLock (unat p))) (\<lambda>_.
       kfree p)
     else release (PipeLock (unat p)))))"

text \<open>
  The loop of \<open>pipewrite\<close> over the bytes that are left.  A writer that finds the pipe full sleeps
  with the lock released; the scheduler resumes it in \<open>pipewrite_resume\<close>, at the test it slept in.
\<close>

primrec pipewrite_loop :: "uint \<Rightarrow> bytes \<Rightarrow> int \<Rightarrow> ('z, int) xop" where
  "pipewrite_loop p [] n = bind (wakeup (ChPipeRead (unat p))) (\<lambda>_.
    bind (release (PipeLock (unat p))) (\<lambda>_.
    ret n))"
| "pipewrite_loop p (c # rest) n = bind (reads (\<lambda>s. pipe_full (pipes s p))) (\<lambda>full.
  if full then bind (reads (\<lambda>s. \<not> pi_readopen (pipes s p))) (\<lambda>gone.
       bind (reads killed) (\<lambda>dead.
       if gone \<or> dead then bind (release (PipeLock (unat p))) (\<lambda>_.
         ret (- 1))
       else bind (wakeup (ChPipeRead (unat p))) (\<lambda>_.
         sleep (ChPipeWrite (unat p)) (PipeLock (unat p)))))
     else bind (modify (upd_pipe p (pipe_put c))) (\<lambda>_.
       pipewrite_loop p rest n))"

definition pipewrite :: "uint \<Rightarrow> bytes \<Rightarrow> ('z, int) xop" where
  "pipewrite p addr = bind (acquire (PipeLock (unat p))) (\<lambda>_.
    pipewrite_loop p addr (int (length addr)))"

definition pipewrite_resume :: "uint \<Rightarrow> bytes \<Rightarrow> int \<Rightarrow> ('z, int) xop" where
  "pipewrite_resume p rest n = bind (sleep_return (PipeLock (unat p))) (\<lambda>_.
    pipewrite_loop p rest n)"

primrec piperead_copy :: "uint \<Rightarrow> nat \<Rightarrow> ('z, bytes) xop" where
  "piperead_copy p 0 = ret []"
| "piperead_copy p (Suc n) = bind (reads (\<lambda>s. pipe_empty (pipes s p))) (\<lambda>empty.
  if empty then ret []
     else bind (reads (\<lambda>s. fst (pipe_get (pipes s p)))) (\<lambda>c.
       bind (modify (upd_pipe p (\<lambda>q. snd (pipe_get q)))) (\<lambda>_.
       bind (piperead_copy p n) (\<lambda>rest.
       ret (c # rest)))))"

text \<open>\<open>piperead\<close> from its first test on, with the lock held; a reader that sleeps resumes here.\<close>

definition piperead_locked :: "uint \<Rightarrow> nat \<Rightarrow> ('z, int \<times> bytes) xop" where
  "piperead_locked p n = bind (reads (\<lambda>s. pipe_empty (pipes s p) \<and> pi_writeopen (pipes s p))) (\<lambda>wait.
    if wait then bind (reads killed) (\<lambda>dead.
       if dead then bind (release (PipeLock (unat p))) (\<lambda>_.
         ret (- 1, []))
       else sleep (ChPipeRead (unat p)) (PipeLock (unat p)))
     else bind (piperead_copy p n) (\<lambda>d.
       bind (wakeup (ChPipeWrite (unat p))) (\<lambda>_.
       bind (release (PipeLock (unat p))) (\<lambda>_.
       ret (int (length d), d)))))"

definition piperead :: "uint \<Rightarrow> nat \<Rightarrow> ('z, int \<times> bytes) xop" where
  "piperead p n = bind (acquire (PipeLock (unat p))) (\<lambda>_.
    piperead_locked p n)"

definition piperead_resume :: "uint \<Rightarrow> nat \<Rightarrow> ('z, int \<times> bytes) xop" where
  "piperead_resume p n = bind (sleep_return (PipeLock (unat p))) (\<lambda>_.
    piperead_locked p n)"

end
