(* ===== verification/Ring.thy ===== *)
theory Ring
  imports Prelude
begin

text \<open>
  Bounded queues.  The pipes and the console keep their bytes in an array that 32-bit counters index
  modulo its length; the counters wrap.  The locale states what their users rely on, the first
  section is the arithmetic of such rings.
\<close>

subsection \<open>Windows of a ring\<close>

text \<open>The \<open>n\<close> elements of a ring of length \<open>N\<close> from counter \<open>r\<close> on.\<close>

definition window :: "nat \<Rightarrow> 'a list \<Rightarrow> uint \<Rightarrow> nat \<Rightarrow> 'a list" where
  "window N d r n = map (\<lambda>k. d ! (unat (r + word_of_nat k) mod N)) [0..<n]"

lemma length_window [simp]: "length (window N d r n) = n"
  by (simp add: window_def)

lemma window_0 [simp]: "window N d r 0 = []"
  by (simp add: window_def)

lemma window_Suc: "window N d r (Suc n) = window N d r n @ [d ! (unat (r + word_of_nat n) mod N)]"
  by (simp add: window_def)

lemma window_Cons: "window N d r (Suc n) = d ! (unat r mod N) # window N d (r + 1) n"
  by (simp add: window_def map_upt_Suc add.assoc del: upt_Suc)

lemma unat_add_mod:
  assumes "N dvd 2 ^ 32"
  shows "unat ((r :: uint) + word_of_nat k) mod N = (unat r + k) mod N"
proof -
  have "unat (r + word_of_nat k) = (unat r + k) mod 2 ^ 32"
    by (simp add: unat_word_ariths unsigned_of_nat take_bit_eq_mod mod_simps)
  then show ?thesis using assms by (simp add: mod_mod_cancel)
qed

lemma unat_word_of_nat_diff: "w = r + word_of_nat (unat (w - r :: uint))"
  by simp

text \<open>Writing the next element does not touch the ones in the window.\<close>

lemma window_put:
  assumes N: "N dvd 2 ^ 32" "0 < N" and n: "n < N" and d: "length d = N"
  shows "window N (d[unat (r + word_of_nat n) mod N := x]) r (Suc n) = window N d r n @ [x]"
proof -
  have i: "unat (r + word_of_nat k) mod N = (unat r + k) mod N" for k by (rule unat_add_mod [OF N(1)])
  have "(unat r + k) mod N \<noteq> (unat r + n) mod N" if "k < n" for k
  proof
    assume "(unat r + k) mod N = (unat r + n) mod N"
    then have "N dvd (unat r + n) - (unat r + k)" using that
      by (metis add_left_mono less_imp_le mod_eq_dvd_iff_nat)
    then have "N dvd n - k" by simp
    then have "N \<le> n - k" using that by (auto dest: dvd_imp_le)
    then show False using n that by linarith
  qed
  then have "window N (d[unat (r + word_of_nat n) mod N := x]) r n = window N d r n"
    by (simp add: window_def i) (metis atLeastLessThan_iff nth_list_update_neq)
  then show ?thesis using N d by (simp add: window_Suc i)
qed

text \<open>One more element in the ring, or one less.\<close>

lemma unat_succ_diff:
  fixes r w :: uint
  assumes "unat (w - r) < 2 ^ 32 - 1"
  shows "unat (w + 1 - r) = Suc (unat (w - r))"
proof -
  have "w + 1 - r = word_of_nat (Suc (unat (w - r)))" by (simp add: algebra_simps)
  also have "unat \<dots> = Suc (unat (w - r))" by (rule unat_of_nat32) (use assms in simp)
  finally show ?thesis .
qed

lemma unat_pred_diff:
  fixes r w :: uint
  assumes "w \<noteq> r"
  shows "unat (w - r) = Suc (unat (w - (r + 1)))"
proof -
  have "unat (w - r) \<noteq> 0" using assms by (simp add: unat_eq_zero)
  then have "unat ((w - r) - 1) = unat (w - r) - 1" by (simp add: unat_minus_one unat_eq_zero)
  moreover have "w - r - 1 = w - (r + 1)" by simp
  ultimately show ?thesis using \<open>unat (w - r) \<noteq> 0\<close> by simp
qed

text \<open>The elements between two counters: putting one behind them, taking one off the front or the back.\<close>

definition between :: "nat \<Rightarrow> 'a list \<Rightarrow> uint \<Rightarrow> uint \<Rightarrow> 'a list" where
  "between N d r w = window N d r (unat (w - r))"

lemma length_between [simp]: "length (between N d r w) = unat (w - r)"
  by (simp add: between_def)

lemma between_same [simp]: "between N d r r = []"
  by (simp add: between_def)

lemma between_put:
  assumes "N dvd 2 ^ 32" "0 < N" and "N < 2 ^ 32" and "unat (w - r) < N" and "length d = N"
  shows "between N (d[unat w mod N := x]) r (w + 1) = between N d r w @ [x]"
proof -
  have "unat (w + 1 - r) = Suc (unat (w - r))" by (rule unat_succ_diff) (use assms(3,4) in simp)
  then show ?thesis using window_put [OF assms(1,2,4,5), of r x] by (simp add: between_def)
qed

lemma between_get: "r \<noteq> w \<Longrightarrow> between N d r w = d ! (unat r mod N) # between N d (r + 1) w"
  using unat_pred_diff [of w r] by (simp add: between_def window_Cons)

lemma between_drop_last:
  assumes "r \<noteq> w"
  shows "between N d r (w - 1) = butlast (between N d r w)"
    and "last (between N d r w) = d ! (unat (w - 1) mod N)"
proof -
  have u: "unat (w - r) = Suc (unat (w - 1 - r))" using unat_pred_diff [of w r] assms by (simp add: algebra_simps)
  then show "between N d r (w - 1) = butlast (between N d r w)" by (simp add: between_def window_Suc)
  have "r + word_of_nat (unat (w - 1 - r)) = w - 1" by simp
  then show "last (between N d r w) = d ! (unat (w - 1) mod N)" using u by (simp add: between_def window_Suc)
qed

text \<open>A counter between the two others cuts the elements there.\<close>

lemma unat_between:
  fixes r w e :: uint
  assumes "unat (w - r) \<le> unat (e - r)"
  shows "unat (e - w) = unat (e - r) - unat (w - r)"
proof -
  have "unat ((e - r) - (w - r)) = unat (e - r) - unat (w - r)"
    by (rule unat_sub) (use assms in \<open>simp add: word_le_nat_alt\<close>)
  then show ?thesis by (simp only: diff_diff_eq2 diff_add_cancel)
qed

lemma between_cut:
  assumes "unat (w - r) \<le> unat (e - r)"
  shows "between N d r e = between N d r w @ between N d w e"
proof -
  let ?m = "unat (w - r)" and ?n = "unat (e - w)"
  have "window N d r (m + n) = window N d r m @ window N d (r + word_of_nat m) n" for m n
    by (induction n) (simp_all add: window_Suc add.assoc)
  from this [of ?m ?n] have "window N d r (?m + ?n) = window N d r ?m @ window N d w ?n"
    by simp
  then show ?thesis using unat_between [OF assms] assms by (simp add: between_def)
qed

subsection \<open>Bounded first-in first-out queues\<close>

locale fifo =
  fixes items :: "'q \<Rightarrow> 'a list"
    and ok :: "'q \<Rightarrow> bool"
    and put :: "'a \<Rightarrow> 'q \<Rightarrow> 'q"
    and get :: "'q \<Rightarrow> 'a \<times> 'q"
    and full :: "'q \<Rightarrow> bool"
    and empty :: "'q \<Rightarrow> bool"
    and cap :: nat
  assumes put_ok: "ok q \<Longrightarrow> \<not> full q \<Longrightarrow> ok (put x q)"
    and put_items: "ok q \<Longrightarrow> \<not> full q \<Longrightarrow> items (put x q) = items q @ [x]"
    and get_ok: "ok q \<Longrightarrow> \<not> empty q \<Longrightarrow> ok (snd (get q))"
    and get_items: "ok q \<Longrightarrow> \<not> empty q \<Longrightarrow> items q = fst (get q) # items (snd (get q))"
    and full_iff: "ok q \<Longrightarrow> full q \<longleftrightarrow> length (items q) = cap"
    and empty_iff: "ok q \<Longrightarrow> empty q \<longleftrightarrow> items q = []"
    and bounded: "ok q \<Longrightarrow> length (items q) \<le> cap"
begin

text \<open>A client that puts elements while there is room, and one that takes up to \<open>n\<close> of them.\<close>

primrec put_all :: "'a list \<Rightarrow> 'q \<Rightarrow> 'q" where
  "put_all [] q = q"
| "put_all (x # xs) q = (if full q then q else put_all xs (put x q))"

primrec get_upto :: "nat \<Rightarrow> 'q \<Rightarrow> 'a list \<times> 'q" where
  "get_upto 0 q = ([], q)"
| "get_upto (Suc n) q = (if empty q then ([], q)
     else let (x, q') = get q; (xs, q'') = get_upto n q' in (x # xs, q''))"

lemma put_all_spec:
  assumes "ok q"
  shows "ok (put_all xs q) \<and> items (put_all xs q) = items q @ take (cap - length (items q)) xs"
  using assms
proof (induction xs arbitrary: q)
  case (Cons x xs)
  show ?case
  proof (cases "full q")
    case True
    then show ?thesis using Cons.prems full_iff [of q] by simp
  next
    case False
    then have "length (items q) < cap" using Cons.prems full_iff [of q] bounded [of q] by simp
    then have "cap - length (items q) = Suc (cap - Suc (length (items q)))" by simp
    then show ?thesis using Cons.IH [of "put x q"] Cons.prems False
      by (simp add: put_ok put_items)
  qed
qed simp

lemma get_upto_spec:
  assumes "ok q"
  shows "fst (get_upto n q) = take n (items q) \<and> ok (snd (get_upto n q))
    \<and> items (snd (get_upto n q)) = drop n (items q)"
  using assms
proof (induction n arbitrary: q)
  case (Suc n)
  show ?case
  proof (cases "empty q")
    case True
    then show ?thesis using Suc.prems empty_iff [of q] by simp
  next
    case False
    then show ?thesis using Suc.IH [of "snd (get q)"] Suc.prems get_ok [of q] get_items [of q]
      by (simp add: case_prod_beta)
  qed
qed simp

text \<open>What goes in comes out, in the same order.\<close>

lemma put_then_get:
  assumes "ok q" and "items q = []" and "length xs \<le> cap"
  shows "fst (get_upto (length xs) (put_all xs q)) = xs"
  using assms put_all_spec [OF assms(1)] get_upto_spec by simp

end

end
