(* ===== verification/Pipe_Props.thy ===== *)
theory Pipe_Props
  imports Pipe Ring
begin

text \<open>
  The ring of a pipe as a bounded queue, and what the loops of \<open>pipewrite\<close> and \<open>piperead\<close> do to it.
\<close>

definition pipe_items :: "pipe \<Rightarrow> bytes" where
  "pipe_items p = between PIPESIZE (pi_data p) (pi_nread p) (pi_nwrite p)"

definition pipe_ok :: "pipe \<Rightarrow> bool" where
  "pipe_ok p \<longleftrightarrow> length (pi_data p) = PIPESIZE \<and> unat (pi_nwrite p - pi_nread p) \<le> PIPESIZE"

lemma pipesize: "PIPESIZE dvd 2 ^ 32" "0 < PIPESIZE" "unat (word_of_nat PIPESIZE :: uint) = PIPESIZE" "PIPESIZE < 2 ^ 32"
  by (simp_all add: PIPESIZE_def)

lemma pipe_full_unat: "pipe_full p \<longleftrightarrow> unat (pi_nwrite p - pi_nread p) = PIPESIZE"
proof -
  have "pipe_full p \<longleftrightarrow> pi_nwrite p - pi_nread p = word_of_nat PIPESIZE"
    by (auto simp: pipe_full_def algebra_simps)
  then show ?thesis using pipesize(3) by (metis word_unat_eq_iff)
qed

lemma pipe_put_simps:
  assumes "pipe_ok p" and "\<not> pipe_full p"
  shows "pipe_ok (pipe_put c p)" "pipe_items (pipe_put c p) = pipe_items p @ [c]"
proof -
  have n: "unat (pi_nwrite p - pi_nread p) < PIPESIZE" "length (pi_data p) = PIPESIZE"
    using assms by (auto simp: pipe_ok_def pipe_full_unat)
  show items: "pipe_items (pipe_put c p) = pipe_items p @ [c]"
    using between_put [OF pipesize(1,2,4) n] by (simp add: pipe_items_def pipe_put_def)
  have "unat (pi_nwrite p + 1 - pi_nread p) = Suc (unat (pi_nwrite p - pi_nread p))"
    using arg_cong [OF items, of length] by (simp add: pipe_items_def pipe_put_def)
  then show "pipe_ok (pipe_put c p)" using n by (simp add: pipe_ok_def pipe_put_def)
qed

lemma pipe_get_simps:
  assumes "pipe_ok p" and "\<not> pipe_empty p"
  shows "pipe_ok (snd (pipe_get p))" "pipe_items p = fst (pipe_get p) # pipe_items (snd (pipe_get p))"
proof -
  have "pi_nread p \<noteq> pi_nwrite p" using assms by (auto simp: pipe_empty_def)
  from between_get [OF this]
  show items: "pipe_items p = fst (pipe_get p) # pipe_items (snd (pipe_get p))"
    by (simp add: pipe_items_def pipe_get_def)
  show "pipe_ok (snd (pipe_get p))"
    using arg_cong [OF items, of length] assms(1) by (simp add: pipe_items_def pipe_ok_def pipe_get_def)
qed

lemma pipe_empty_items: "pipe_ok p \<Longrightarrow> pipe_empty p \<longleftrightarrow> pipe_items p = []"
proof -
  have "pipe_items p = [] \<longleftrightarrow> unat (pi_nwrite p - pi_nread p) = 0"
    by (metis length_0_conv length_between pipe_items_def)
  then show "pipe_empty p \<longleftrightarrow> pipe_items p = []" by (auto simp: pipe_empty_def unat_eq_zero)
qed

interpretation pr: fifo pipe_items pipe_ok pipe_put pipe_get pipe_full pipe_empty PIPESIZE
  by unfold_locales
    (simp_all add: pipe_put_simps pipe_get_simps(1) pipe_get_simps(2) [symmetric] pipe_empty_items pipe_full_unat,
     simp_all add: pipe_items_def pipe_ok_def)

subsection \<open>The loops\<close>

lemma upd_pipe_simps [simp]:
  "pipes (upd_pipe p f s) p = f (pipes s p)" "upd_pipe p f (upd_pipe p g s) = upd_pipe p (\<lambda>q. f (g q)) s"
  "locks (upd_pipe p f s) = locks s" "curproc (upd_pipe p f s) = curproc s" "procs (upd_pipe p f s) = procs s"
  "upd_pipe p (\<lambda>q. q) s = s" "killed (upd_pipe p f s) = killed s"
  by (simp_all add: upd_pipe_def killed_def)

lemma put_all_sel [simp]:
  "pi_readopen (pr.put_all xs q) = pi_readopen q" "pi_writeopen (pr.put_all xs q) = pi_writeopen q"
  by (induction xs arbitrary: q) (simp_all add: pipe_put_def)

text \<open>A writer that finds the pipe full.\<close>

definition pipe_blocked :: "uint \<Rightarrow> ('z, int) xop" where
  "pipe_blocked p s = (if \<not> pi_readopen (pipes s p) \<or> killed s
     then bind (release (PipeLock (unat p))) (\<lambda>_. ret (- 1)) s
     else bind (wakeup (ChPipeRead (unat p))) (\<lambda>_. sleep (ChPipeWrite (unat p)) (PipeLock (unat p))) s)"

definition pipe_written :: "uint \<Rightarrow> int \<Rightarrow> ('z, int) xop" where
  "pipe_written p n = bind (wakeup (ChPipeRead (unat p))) (\<lambda>_. bind (release (PipeLock (unat p))) (\<lambda>_. ret n))"

lemma pipewrite_loop_run:
  assumes "pipe_ok (pipes s p)"
  shows "pipewrite_loop p xs n s =
    (if length xs \<le> PIPESIZE - length (pipe_items (pipes s p)) then pipe_written p n else pipe_blocked p)
    (upd_pipe p (pr.put_all xs) s)"
  using assms
proof (induction xs arbitrary: s)
  case Nil
  then show ?case by (simp add: pipe_written_def)
next
  case (Cons x xs)
  show ?case
  proof (cases "pipe_full (pipes s p)")
    case True
    then have "PIPESIZE - length (pipe_items (pipes s p)) = 0" using Cons.prems pr.full_iff by simp
    moreover have "upd_pipe p (pr.put_all (x # xs)) s = s" using True by (simp add: upd_pipe_def)
    ultimately show ?thesis using True by (simp add: pipe_blocked_def del: pr.put_all.simps)
  next
    case False
    let ?s = "upd_pipe p (pipe_put x) s"
    have "length (pipe_items (pipes s p)) < PIPESIZE"
      using False Cons.prems pr.full_iff pr.bounded by (metis le_neq_implies_less)
    moreover have "pipe_ok (pipes ?s p)" "pipe_items (pipes ?s p) = pipe_items (pipes s p) @ [x]"
      using Cons.prems False by (simp_all add: pipe_put_simps)
    moreover have "upd_pipe p (pr.put_all xs) ?s = upd_pipe p (pr.put_all (x # xs)) s"
      using False by (simp add: upd_pipe_def)
    ultimately show ?thesis using Cons.IH [of ?s] False by (auto simp del: pr.put_all.simps)
  qed
qed

lemma piperead_copy_run:
  "piperead_copy p n s = Ok (fst (pr.get_upto n (pipes s p))) (upd_pipe p (\<lambda>q. snd (pr.get_upto n q)) s)"
proof (induction n arbitrary: s)
  case (Suc n)
  show ?case
  proof (cases "pipe_empty (pipes s p)")
    case True
    then show ?thesis by (simp add: upd_pipe_def)
  next
    case False
    then show ?thesis using Suc [of "upd_pipe p (\<lambda>q. snd (pipe_get q)) s"]
      by (simp add: case_prod_beta upd_pipe_def)
  qed
qed (simp add: upd_pipe_def)

text \<open>Going to sleep: the process is marked, and holds only \<open>ptable.lock\<close>.\<close>

lemma sleep_run:
  assumes "locks s = [lk]" and "lk \<noteq> PtableLock" and "curproc s = Some i" and "i < length (procs s)"
  shows "sleep c lk s = Switched (upd_proc i (\<lambda>q. q\<lparr>p_chan := Some c, p_state := SLEEPING\<rparr>)
    (s\<lparr>locks := [PtableLock]\<rparr>))"
  using assms by (simp add: sleep_def sched_def upd_proc_def)

end
