(* ===== verification/Pipe_Claims.thy ===== *)
theory Pipe_Claims
  imports Pipe_Props Kalloc_Claims
begin

text \<open>
  What a pipe promises: a writer's bytes arrive in order, a full pipe puts the writer to sleep and an
  empty one the reader, and nothing is lost or invented over any history of the pipe.
\<close>

lemma written_run:
  assumes "PtableLock \<notin> set (locks s)" and "PipeLock (unat p) \<in> set (locks s)"
  shows "pipe_written p n s = Ok n ((wakeup1 (ChPipeRead (unat p)) s)\<lparr>locks := remove1 (PipeLock (unat p)) (locks s)\<rparr>)"
  using assms by (simp add: pipe_written_def)

lemma wakeup1_pipes [simp]: "pipes (wakeup1 c s) = pipes s"
  by (simp add: wakeup1_def)

lemma upd_proc_pipes [simp]: "pipes (upd_proc i f s) = pipes s"
  by (simp add: upd_proc_def)

lemma put_all_items:
  "pipe_ok q \<Longrightarrow> pipe_items (pr.put_all xs q) = pipe_items q @ take (PIPESIZE - length (pipe_items q)) xs"
  using pr.put_all_spec by blast

lemma get_upto_items:
  "pipe_ok q \<Longrightarrow> fst (pr.get_upto n q) = take n (pipe_items q)"
  "pipe_ok q \<Longrightarrow> pipe_items (snd (pr.get_upto n q)) = drop n (pipe_items q)"
  using pr.get_upto_spec by blast+

text \<open>The locks a process has when it calls into a pipe: the pipe's and the table's are free.\<close>

definition pipe_free :: "uint \<Rightarrow> 'z xstate_scheme \<Rightarrow> bool" where
  "pipe_free p s \<longleftrightarrow> PipeLock (unat p) \<notin> set (locks s) \<and> PtableLock \<notin> set (locks s)"

lemma pipewrite_run:
  assumes "pipe_free p s" and "pipe_ok (pipes s p)"
  shows "pipewrite p xs s =
    (if length xs \<le> PIPESIZE - length (pipe_items (pipes s p)) then pipe_written p (int (length xs)) else pipe_blocked p)
    (upd_pipe p (pr.put_all xs) (s\<lparr>locks := PipeLock (unat p) # locks s\<rparr>))"
proof -
  have "pipewrite p xs s = pipewrite_loop p xs (int (length xs)) (s\<lparr>locks := PipeLock (unat p) # locks s\<rparr>)"
    using assms(1) by (simp add: pipewrite_def pipe_free_def)
  then show ?thesis using assms(2) pipewrite_loop_run [of "s\<lparr>locks := PipeLock (unat p) # locks s\<rparr>"] by simp
qed

lemma pipewrite_returns:
  assumes "pipe_free p s" and "pipe_ok (pipes s p)" and "length (pipe_items (pipes s p)) + length xs \<le> PIPESIZE"
  shows "\<exists>t. pipewrite p xs s = Ok (int (length xs)) t \<and> pipe_ok (pipes t p) \<and> pipe_free p t
    \<and> pipe_items (pipes t p) = pipe_items (pipes s p) @ xs \<and> locks t = locks s
    \<and> pi_writeopen (pipes t p) = pi_writeopen (pipes s p)"
proof -
  let ?u = "upd_pipe p (pr.put_all xs) (s\<lparr>locks := PipeLock (unat p) # locks s\<rparr>)"
  let ?t = "(wakeup1 (ChPipeRead (unat p)) ?u)\<lparr>locks := remove1 (PipeLock (unat p)) (locks ?u)\<rparr>"
  have "pipewrite p xs s = pipe_written p (int (length xs)) ?u"
    using pipewrite_run [OF assms(1,2)] assms(3) by (simp add: add_le_imp_le_diff add.commute)
  also have "\<dots> = Ok (int (length xs)) ?t" by (rule written_run) (use assms(1) in \<open>auto simp: pipe_free_def\<close>)
  finally have "pipewrite p xs s = Ok (int (length xs)) ?t" .
  moreover have "pipe_ok (pr.put_all xs (pipes s p))" using assms(2) pr.put_all_spec by blast
  ultimately show ?thesis using assms by (intro exI [of _ ?t]) (auto simp: put_all_items pipe_free_def)
qed

lemma piperead_returns:
  assumes "pipe_free p s" and "pipe_ok (pipes s p)"
    and "pipe_items (pipes s p) \<noteq> [] \<or> \<not> pi_writeopen (pipes s p)"
  shows "\<exists>t. piperead p n s = Ok (int (min n (length (pipe_items (pipes s p)))), take n (pipe_items (pipes s p))) t
    \<and> pipe_ok (pipes t p) \<and> pipe_free p t \<and> pipe_items (pipes t p) = drop n (pipe_items (pipes s p))"
proof -
  let ?s = "s\<lparr>locks := PipeLock (unat p) # locks s\<rparr>"
  let ?u = "upd_pipe p (\<lambda>q. snd (pr.get_upto n q)) ?s"
  let ?t = "(wakeup1 (ChPipeWrite (unat p)) ?u)\<lparr>locks := locks s\<rparr>"
  have w: "\<not> (pipe_empty (pipes s p) \<and> pi_writeopen (pipes s p))" using assms(2,3) pr.empty_iff by blast
  have "piperead p n s = piperead_locked p n ?s" using assms(1) by (simp add: piperead_def pipe_free_def)
  also have "\<dots> = Ok (int (length (fst (pr.get_upto n (pipes s p)))), fst (pr.get_upto n (pipes s p))) ?t"
    using w assms(1) by (auto simp: piperead_locked_def piperead_copy_run pipe_free_def)
  finally show ?thesis using assms(1,2) pr.get_upto_spec [OF assms(2), of n]
    by (intro exI [of _ ?t]) (auto simp: pipe_free_def get_upto_items min.commute)
qed

subsection \<open>Histories of a pipe\<close>

text \<open>
  \<open>pipe_hist p W R s\<close>: since the pipe \<open>p\<close> was empty, writers have put the bytes \<open>W\<close> into it and
  readers have taken \<open>R\<close> out, by calls and resumed calls of any processes in any order.  How many of
  its bytes a call wrote before it returned or went to sleep is what the counter says.
\<close>

inductive pipe_hist :: "uint \<Rightarrow> bytes \<Rightarrow> bytes \<Rightarrow> 'z xstate_scheme \<Rightarrow> bool" where
  fresh: "pipe_ok (pipes s p) \<Longrightarrow> pi_nread (pipes s p) = pi_nwrite (pipes s p) \<Longrightarrow> pipe_hist p [] [] s"
| wrote: "pipe_hist p W R s \<Longrightarrow> pipewrite_loop p xs n s = Ok r t \<or> pipewrite_loop p xs n s = Switched t
    \<Longrightarrow> pipe_hist p (W @ take (unat (pi_nwrite (pipes t p) - pi_nwrite (pipes s p))) xs) R t"
| took: "pipe_hist p W R s \<Longrightarrow> piperead_locked p n s = Ok (r, d) t \<or> piperead_locked p n s = Switched t \<and> d = []
    \<Longrightarrow> pipe_hist p W (R @ d) t"
| other: "pipe_hist p W R s \<Longrightarrow> pi_data (pipes t p) = pi_data (pipes s p)
    \<Longrightarrow> pi_nread (pipes t p) = pi_nread (pipes s p) \<Longrightarrow> pi_nwrite (pipes t p) = pi_nwrite (pipes s p)
    \<Longrightarrow> pipe_hist p W R t"

lemma sleep_Switched_pipes: "sleep c lk s = Switched t \<Longrightarrow> pipes t = pipes s"
  by (auto simp: sleep_def sched_def bind_def with_proc_def acquire_def release_def upd_proc_def
      split: option.splits outcome.splits if_splits)

lemma blocked_pipes:
  "pipe_blocked p s = Ok r t \<or> pipe_blocked p s = Switched t \<Longrightarrow> pipes t = pipes s"
  by (auto simp: pipe_blocked_def run_iff release_Ok_iff wakeup_Ok_iff bind_def wakeup_def acquire_def release_def
      split: if_splits outcome.splits dest: sleep_Switched_pipes)

lemma wake_release_pipes:
  "bind (wakeup c) (\<lambda>_. bind (release l) (\<lambda>_. ret x)) s = Ok r t \<or>
    bind (wakeup c) (\<lambda>_. bind (release l) (\<lambda>_. ret x)) s = Switched t \<Longrightarrow> pipes t = pipes s"
  by (auto simp: bind_def wakeup_def acquire_def release_def split: if_splits outcome.splits)

lemma wake_release_value:
  "bind (wakeup c) (\<lambda>_. bind (release l) (\<lambda>_. ret x)) s = Ok r t \<Longrightarrow> r = x"
  "bind (wakeup c) (\<lambda>_. bind (release l) (\<lambda>_. ret x)) s \<noteq> Switched t"
  by (auto simp: bind_def wakeup_def acquire_def release_def split: if_splits outcome.splits)

lemma written_pipes:
  "pipe_written p n s = Ok r t \<or> pipe_written p n s = Switched t \<Longrightarrow> pipes t = pipes s"
  unfolding pipe_written_def by (rule wake_release_pipes)

lemma put_all_nwrite:
  "pipe_ok q \<Longrightarrow> pi_nwrite (pr.put_all xs q) = pi_nwrite q + word_of_nat (min (length xs) (PIPESIZE - length (pipe_items q)))"
proof (induction xs arbitrary: q)
  case (Cons x xs)
  show ?case
  proof (cases "pipe_full q")
    case True
    then show ?thesis using Cons.prems pr.full_iff by simp
  next
    case False
    then have "length (pipe_items q) < PIPESIZE"
      using Cons.prems pr.full_iff pr.bounded by (metis le_neq_implies_less)
    then have "PIPESIZE - length (pipe_items q) = Suc (PIPESIZE - Suc (length (pipe_items q)))" by simp
    then show ?thesis using Cons.IH [of "pipe_put x q"] Cons.prems False
      by (simp add: pipe_put_simps) (simp add: pipe_put_def)
  qed
qed simp

lemma pipewrite_loop_effect:
  assumes "pipe_ok (pipes s p)"
    and "pipewrite_loop p xs n s = Ok r t \<or> pipewrite_loop p xs n s = Switched t"
  shows "pipe_ok (pipes t p) \<and> pipe_items (pipes t p) =
    pipe_items (pipes s p) @ take (unat (pi_nwrite (pipes t p) - pi_nwrite (pipes s p))) xs"
proof -
  let ?m = "PIPESIZE - length (pipe_items (pipes s p))"
  have t: "pipes t p = pr.put_all xs (pipes s p)"
    using assms written_pipes [of p n "upd_pipe p (pr.put_all xs) s" r t]
      blocked_pipes [of p "upd_pipe p (pr.put_all xs) s" r t]
    by (simp add: pipewrite_loop_run split: if_splits)
  have "unat (pi_nwrite (pipes t p) - pi_nwrite (pipes s p)) = min (length xs) ?m"
    using put_all_nwrite [OF assms(1), of xs] t
    by (simp add: unsigned_of_nat take_bit_nat_eq_self PIPESIZE_def)
  then show ?thesis using t assms(1) pr.put_all_spec [OF assms(1), of xs] by (auto simp: min_def)
qed

lemma piperead_locked_effect:
  assumes "pipe_ok (pipes s p)"
    and "piperead_locked p n s = Ok (r, d) t \<or> piperead_locked p n s = Switched t \<and> d = []"
  shows "pipe_ok (pipes t p) \<and> pipe_items (pipes s p) = d @ pipe_items (pipes t p)"
proof (cases "pipe_empty (pipes s p) \<and> pi_writeopen (pipes s p)")
  case True
  then have "pipes t = pipes s \<and> d = []" using assms(2)
    by (auto simp: piperead_locked_def run_iff release_Ok_iff bind_def release_def
        split: if_splits outcome.splits dest: sleep_Switched_pipes)
  then show ?thesis using assms(1) by simp
next
  case False
  let ?d = "fst (pr.get_upto n (pipes s p))" and ?u = "upd_pipe p (\<lambda>q. snd (pr.get_upto n q)) s"
  have "piperead_locked p n s = bind (wakeup (ChPipeWrite (unat p))) (\<lambda>_. bind (release (PipeLock (unat p)))
      (\<lambda>_. ret (int (length ?d), ?d))) ?u"
    unfolding piperead_locked_def bind_prims if_not_P [OF False] by (simp only: bind_simps(1) [OF piperead_copy_run])
  then have run: "bind (wakeup (ChPipeWrite (unat p))) (\<lambda>_. bind (release (PipeLock (unat p)))
      (\<lambda>_. ret (int (length ?d), ?d))) ?u = Ok (r, d) t"
    using assms(2) wake_release_value(2) by metis
  have "pipes t = pipes ?u" by (rule wake_release_pipes [OF disjI1 [OF run]])
  moreover have "d = ?d" using wake_release_value(1) [OF run] by simp
  ultimately have "pipes t p = snd (pr.get_upto n (pipes s p)) \<and> d = ?d" by simp
  then show ?thesis using assms(1) pr.get_upto_spec [OF assms(1), of n] by simp
qed

lemma pipe_hist_inv: "pipe_hist p W R s \<Longrightarrow> pipe_ok (pipes s p) \<and> W = R @ pipe_items (pipes s p)"
proof (induction rule: pipe_hist.induct)
  case (fresh s p)
  then show ?case by (simp add: pipe_items_def)
next
  case (wrote p W R s xs n r t)
  then have "pipe_ok (pipes s p)" "W = R @ pipe_items (pipes s p)" by simp_all
  with pipewrite_loop_effect [OF this(1) wrote.hyps(2)] show ?case by simp
next
  case (took p W R s n r d t)
  then have "pipe_ok (pipes s p)" "W = R @ pipe_items (pipes s p)" by simp_all
  with piperead_locked_effect [OF this(1) took.hyps(2)] show ?case by simp
next
  case (other p W R s t)
  then show ?case by (simp add: pipe_ok_def pipe_items_def)
qed

subsection \<open>A full pipe and an empty one\<close>

lemma blocked_run:
  assumes "locks s = [PipeLock (unat p)]" and "pi_readopen (pipes s p)" and "\<not> killed s"
    and "curproc s = Some i" and "i < length (procs s)"
  shows "\<exists>t. pipe_blocked p s = Switched t \<and> pipes t = pipes s \<and> locks t = [PtableLock]
    \<and> p_state (procs t ! i) = SLEEPING \<and> p_chan (procs t ! i) = Some (ChPipeWrite (unat p))"
proof -
  let ?w = "wakeup1 (ChPipeRead (unat p)) s"
  have "pipe_blocked p s = sleep (ChPipeWrite (unat p)) (PipeLock (unat p)) ?w"
    using assms by (simp add: pipe_blocked_def)
  also have "\<dots> = Switched (upd_proc i (\<lambda>q. q\<lparr>p_chan := Some (ChPipeWrite (unat p)), p_state := SLEEPING\<rparr>)
      (?w\<lparr>locks := [PtableLock]\<rparr>))" by (rule sleep_run) (use assms in auto)
  finally show ?thesis using assms by (auto simp: upd_proc_def)
qed

subsection \<open>A pipe whose counters are about to wrap\<close>

definition some_pipe :: pipe where
  "some_pipe = \<lparr>pi_data = replicate PIPESIZE 0, pi_nread = 0xFFFFFFFE, pi_nwrite = 0xFFFFFFFE,
     pi_readopen = True, pi_writeopen = True\<rparr>"

definition pipe_demo :: xstate where
  "pipe_demo = vstate.extend (two_pages\<lparr>procs := [zero_proc\<lparr>p_state := RUNNING, p_pid := 1\<rparr>], curproc := Some 0\<rparr>)
     (xstate.fields (\<lambda>_. some_pipe) [] 0 0)"

lemma pipe_demo_sel [simp]:
  "pipes pipe_demo p = some_pipe" "locks pipe_demo = []" "curproc pipe_demo = Some 0"
  "procs pipe_demo = [zero_proc\<lparr>p_state := RUNNING, p_pid := 1\<rparr>]"
  by (simp_all add: pipe_demo_def vstate.defs xstate.defs two_pages_def)

lemma some_pipe_ok [simp]:
  "pipe_ok some_pipe" "pipe_items some_pipe = []" "pi_readopen some_pipe" "pi_nread some_pipe = pi_nwrite some_pipe"
  by (simp_all add: pipe_ok_def pipe_items_def some_pipe_def)

lemma pipe_demo_free: "pipe_free p pipe_demo"
  by (simp add: pipe_free_def)

subsection \<open>Properties\<close>

text \<open>C16: Over every history of a pipe, by any interleaving of writers and readers that return, sleep and
  resume, the bytes read are a prefix of the bytes written, and what is missing is what the ring
  holds, at most \<open>PIPESIZE\<close> bytes.  The 32-bit counters may wrap any number of times.\<close>

theorem pipe_in_order:
  assumes "pipe_hist p W R s"
  shows "W = R @ pipe_items (pipes s p) \<and> length (pipe_items (pipes s p)) \<le> PIPESIZE"
  using pipe_hist_inv [OF assms] pr.bounded by blast

lemma pipe_in_order_witness: "\<exists>t :: xstate. pipe_hist 5 [7, 8, 9] [] t \<and> pipe_items (pipes t 5) = [7, 8, 9]"
proof -
  obtain t where t: "pipewrite 5 [7, 8, 9] pipe_demo = Ok 3 t"
    "pipe_items (pipes t 5) = [7, 8, 9]"
    using pipewrite_returns [OF pipe_demo_free, of 5 "[7, 8, 9]"] by (auto simp: PIPESIZE_def)
  have fresh: "pipe_hist 5 [] [] (pipe_demo\<lparr>locks := [PipeLock 5]\<rparr>)"
    by (rule pipe_hist.fresh) simp_all
  have "pipewrite_loop 5 [7, 8, 9] 3 (pipe_demo\<lparr>locks := [PipeLock 5]\<rparr>) = Ok 3 t"
    using t(1) by (simp add: pipewrite_def)
  from pipe_hist.wrote [OF fresh disjI1 [OF this]]
  obtain W where W: "pipe_hist 5 W [] t" by auto
  with pipe_in_order [OF W] t(2) show ?thesis by auto
qed

text \<open>What one process writes into a pipe with room, another reads: \<open>pipewrite\<close> returns the count, and
  a \<open>piperead\<close> of \<open>n\<close> bytes returns the first \<open>n\<close> of the bytes that were there followed by the new
  ones, without sleeping, and leaves the rest.\<close>

theorem pipe_transfer:
  assumes "pipe_free p s" and "pipe_ok (pipes s p)" and "length (pipe_items (pipes s p)) + length xs \<le> PIPESIZE"
    and "xs \<noteq> []"
  shows "\<exists>t u. pipewrite p xs s = Ok (int (length xs)) t
    \<and> piperead p n t = Ok (int (min n (length (pipe_items (pipes s p) @ xs))), take n (pipe_items (pipes s p) @ xs)) u
    \<and> pipe_items (pipes u p) = drop n (pipe_items (pipes s p) @ xs)"
proof -
  obtain t where t: "pipewrite p xs s = Ok (int (length xs)) t" "pipe_ok (pipes t p)" "pipe_free p t"
    "pipe_items (pipes t p) = pipe_items (pipes s p) @ xs" using pipewrite_returns [OF assms(1-3)] by blast
  have "pipe_items (pipes t p) \<noteq> [] \<or> \<not> pi_writeopen (pipes t p)" using t(4) assms(4) by simp
  from piperead_returns [OF t(3,2) this, of n, unfolded t(4)] show ?thesis using t(1) by blast
qed

lemma pipe_transfer_witness:
  "\<exists>t u. pipewrite 5 [7, 8, 9] pipe_demo = Ok 3 t \<and> piperead 5 2 t = Ok (2, [7, 8]) u \<and> pipe_items (pipes u 5) = [9]"
  using pipe_transfer [OF pipe_demo_free, of 5 "[7, 8, 9]" 2] by (auto simp: PIPESIZE_def)

text \<open>A writer with more bytes than there is room for fills the ring with the first of them and goes
  to sleep on the pipe's write channel, holding only \<open>ptable.lock\<close>, if a reader is left and the
  writer was not killed; with no reader left it returns \<open>-1\<close>.\<close>

theorem pipewrite_full_sleeps:
  assumes "locks s = []" and "pipe_ok (pipes s p)" and "PIPESIZE < length (pipe_items (pipes s p)) + length xs"
    and "curproc s = Some i" and "i < length (procs s)" and "\<not> killed s"
  shows "if pi_readopen (pipes s p)
    then \<exists>t. pipewrite p xs s = Switched t \<and> locks t = [PtableLock]
      \<and> p_state (procs t ! i) = SLEEPING \<and> p_chan (procs t ! i) = Some (ChPipeWrite (unat p))
      \<and> pipe_items (pipes t p) = take PIPESIZE (pipe_items (pipes s p) @ xs)
    else \<exists>t. pipewrite p xs s = Ok (- 1) t \<and> locks t = []"
proof -
  let ?u = "upd_pipe p (pr.put_all xs) (s\<lparr>locks := PipeLock (unat p) # locks s\<rparr>)"
  have free: "pipe_free p s" using assms(1) by (simp add: pipe_free_def)
  have long: "\<not> length xs \<le> PIPESIZE - length (pipe_items (pipes s p))"
    using assms(3) pr.bounded [OF assms(2)] by linarith
  have run: "pipewrite p xs s = pipe_blocked p ?u"
    unfolding pipewrite_run [OF free assms(2), of xs] if_not_P [OF long] by (rule refl)
  have k: "killed ?u = killed s" by (simp add: killed_def upd_pipe_def)
  have items: "pipe_items (pipes ?u p) = take PIPESIZE (pipe_items (pipes s p) @ xs)"
    using pr.bounded [OF assms(2)] by (simp add: put_all_items assms(2))
  show ?thesis
  proof (cases "pi_readopen (pipes s p)")
    case True
    have "\<exists>t. pipe_blocked p ?u = Switched t \<and> pipes t = pipes ?u \<and> locks t = [PtableLock]
      \<and> p_state (procs t ! i) = SLEEPING \<and> p_chan (procs t ! i) = Some (ChPipeWrite (unat p))"
      by (rule blocked_run) (use assms True k in simp_all)
    then show ?thesis using True run items by auto
  next
    case False
    then show ?thesis using run assms(1) by (simp add: pipe_blocked_def)
  qed
qed

lemma pipewrite_full_sleeps_witness:
  "\<exists>t. pipewrite 5 (replicate 600 1) pipe_demo = Switched t \<and> length (pipe_items (pipes t 5)) = 512"
  using pipewrite_full_sleeps [of pipe_demo 5 "replicate 600 1" 0]
  by (auto simp: PIPESIZE_def killed_def zero_proc_def)

end
