(* ===== verification/File.thy ===== *)
theory File
  imports Pipe
begin

text \<open>
  Open files, file.c, and \<open>pipealloc\<close> of pipe.c.  A \<open>struct file*\<close> is the file's index in
  \<open>ftable\<close>, with \<open>None\<close> for a null pointer.
\<close>

definition filen :: "'z xstate_scheme \<Rightarrow> nat \<Rightarrow> ofile" where
  "filen s f = ftable s ! f"

definition upd_file :: "nat \<Rightarrow> (ofile \<Rightarrow> ofile) \<Rightarrow> 'z xstate_scheme \<Rightarrow> 'z xstate_scheme" where
  "upd_file f g s = s\<lparr>ftable := (ftable s)[f := g (ftable s ! f)]\<rparr>"

definition filealloc :: "('z, nat option) xop" where
  "filealloc = bind (acquire FtableLock) (\<lambda>_.
    bind (reads (\<lambda>s. find (\<lambda>f. f_ref (filen s f) = 0) [0..<NFILE])) (\<lambda>f.
    case f of
       Some i \<Rightarrow> bind (modify (upd_file i (\<lambda>f. f\<lparr>f_ref := 1\<rparr>))) (\<lambda>_.
         bind (release FtableLock) (\<lambda>_.
         ret (Some i)))
     | None \<Rightarrow> bind (release FtableLock) (\<lambda>_.
       ret None)))"

definition filedup :: "nat \<Rightarrow> ('z, nat) xop" where
  "filedup f = bind (acquire FtableLock) (\<lambda>_.
    bind (reads (\<lambda>s. f_ref (filen s f) < 1)) (\<lambda>bad.
    bind (panic_if bad ''filedup'') (\<lambda>_.
    bind (modify (upd_file f (\<lambda>g. g\<lparr>f_ref := f_ref g + 1\<rparr>))) (\<lambda>_.
    bind (release FtableLock) (\<lambda>_.
    ret f)))))"

definition fileclose :: "nat \<Rightarrow> ('z, unit) xop" where
  "fileclose f = bind (acquire FtableLock) (\<lambda>_.
    bind (reads (\<lambda>s. f_ref (filen s f) < 1)) (\<lambda>bad.
    bind (panic_if bad ''fileclose'') (\<lambda>_.
    bind (modify (upd_file f (\<lambda>g. g\<lparr>f_ref := f_ref g - 1\<rparr>))) (\<lambda>_.
    bind (reads (\<lambda>s. filen s f)) (\<lambda>ff.
    if f_ref ff > 0 then release FtableLock
     else bind (modify (upd_file f (\<lambda>g. g\<lparr>f_ref := 0, f_type := FD_NONE\<rparr>))) (\<lambda>_.
       bind (release FtableLock) (\<lambda>_.
       if f_type ff = FD_PIPE then pipeclose (f_pipe ff) (f_writable ff)
       else if f_type ff = FD_INODE then
         (case f_ip ff of
            None \<Rightarrow> fault
          | Some ip \<Rightarrow> bind begin_op (\<lambda>_.
            bind (iput ip) (\<lambda>_.
            end_op)))
       else ret ())))))))"

definition filestat :: "nat \<Rightarrow> ('z, statinfo option) xop" where
  "filestat f = bind (reads (\<lambda>s. filen s f)) (\<lambda>g.
    if f_type g = FD_INODE then bind (ilock (f_ip g)) (\<lambda>_.
       bind (reads (stati (the (f_ip g)))) (\<lambda>st.
       bind (iunlock (f_ip g)) (\<lambda>_.
       ret (Some st))))
     else ret None)"

definition fileread :: "'z xstate_scheme devsw \<Rightarrow> nat \<Rightarrow> nat \<Rightarrow> ('z, int \<times> bytes) xop" where
  "fileread dsw f n = bind (reads (\<lambda>s. filen s f)) (\<lambda>g.
    if \<not> f_readable g then ret (- 1, [])
     else if f_type g = FD_PIPE then piperead (f_pipe g) n
     else if f_type g = FD_INODE then bind (ilock (f_ip g)) (\<lambda>_.
       bind (reads (\<lambda>s. f_off (filen s f))) (\<lambda>off.
       bind (readi dsw (the (f_ip g)) off n) (\<lambda>(r, d).
       bind (whenM (r > 0) (modify (upd_file f (\<lambda>g. g\<lparr>f_off := wrap32 (f_off g + nat r)\<rparr>)))) (\<lambda>_.
       bind (iunlock (f_ip g)) (\<lambda>_.
       ret (r, d))))))
     else panic ''fileread'')"

definition FILE_MAX :: nat where
  "FILE_MAX = (MAXOPBLOCKS - 1 - 1 - 2) div 2 * 512"

text \<open>The loop of \<open>filewrite\<close>: \<open>i\<close> bytes are written and \<open>rest\<close> is left; it returns \<open>i\<close>.\<close>

function filewrite_loop :: "'z xstate_scheme devsw \<Rightarrow> nat \<Rightarrow> nat \<Rightarrow> bytes \<Rightarrow> ('z, nat) xop" where
  "filewrite_loop dsw f i rest =
     (if rest = [] then ret i
      else (let n1 = min (length rest) FILE_MAX in
        bind (reads (\<lambda>s. filen s f)) (\<lambda>g.
        bind begin_op (\<lambda>_.
        bind (ilock (f_ip g)) (\<lambda>_.
        bind (reads (\<lambda>s. f_off (filen s f))) (\<lambda>off.
        bind (writei dsw (the (f_ip g)) (take n1 rest) off) (\<lambda>r.
        bind (whenM (r > 0) (modify (upd_file f (\<lambda>g. g\<lparr>f_off := wrap32 (f_off g + nat r)\<rparr>)))) (\<lambda>_.
        bind (iunlock (f_ip g)) (\<lambda>_.
        bind end_op (\<lambda>_.
        if r < 0 then ret i
        else if r \<noteq> int n1 then panic ''short filewrite''
        else filewrite_loop dsw f (i + n1) (drop n1 rest)))))))))))"
  by pat_completeness auto
termination
  by (relation "measure (\<lambda>(dsw, f, i, rest). length rest)") (auto simp: FILE_MAX_def MAXOPBLOCKS_def)

declare filewrite_loop.simps [simp del]

definition filewrite :: "'z xstate_scheme devsw \<Rightarrow> nat \<Rightarrow> bytes \<Rightarrow> ('z, int) xop" where
  "filewrite dsw f addr = bind (reads (\<lambda>s. filen s f)) (\<lambda>g.
    if \<not> f_writable g then ret (- 1)
     else if f_type g = FD_PIPE then pipewrite (f_pipe g) addr
     else if f_type g = FD_INODE then bind (filewrite_loop dsw f 0 addr) (\<lambda>i.
       ret (if i = length addr then int i else - 1))
     else panic ''filewrite'')"

subsection \<open>pipealloc\<close>

definition close_opt :: "nat option \<Rightarrow> ('z, unit) xop" where
  "close_opt f = (case f of None \<Rightarrow> ret () | Some f \<Rightarrow> fileclose f)"

definition pipealloc_bad :: "uint \<Rightarrow> nat option \<Rightarrow> nat option \<Rightarrow> ('z, (nat \<times> nat) option) xop" where
  "pipealloc_bad p f0 f1 = bind (whenM (p \<noteq> 0) (kfree p)) (\<lambda>_.
    bind (close_opt f0) (\<lambda>_.
    bind (close_opt f1) (\<lambda>_.
    ret None)))"

definition pipealloc :: "('z, (nat \<times> nat) option) xop" where
  "pipealloc = bind filealloc (\<lambda>f0.
    case f0 of
       None \<Rightarrow> pipealloc_bad 0 None None
     | Some rfile \<Rightarrow> bind filealloc (\<lambda>f1.
       case f1 of
           None \<Rightarrow> pipealloc_bad 0 f0 None
         | Some wfile \<Rightarrow> bind kalloc (\<lambda>p.
           if p = 0 then pipealloc_bad 0 f0 f1
             else bind (modify (upd_pipe p (\<lambda>q. q\<lparr>pi_readopen := True, pi_writeopen := True, pi_nwrite := 0,
                  pi_nread := 0\<rparr>))) (\<lambda>_.
               bind (modify (upd_file rfile (\<lambda>g. g\<lparr>f_type := FD_PIPE, f_readable := True, f_writable := False, f_pipe := p\<rparr>))) (\<lambda>_.
               bind (modify (upd_file wfile (\<lambda>g. g\<lparr>f_type := FD_PIPE, f_readable := False, f_writable := True, f_pipe := p\<rparr>))) (\<lambda>_.
               ret (Some (rfile, wfile))))))))"

end
