(* ===== verification/Exec.thy ===== *)
theory Exec
  imports File
begin

text \<open>
  \<open>exec\<close>, exec.c, and the ELF headers of elf.h.  The messages it prints on the console have no
  effect on the kernel's state and are left out.
\<close>

definition ELF_MAGIC :: nat where "ELF_MAGIC = 0x464C457F"
definition ELF_PROG_LOAD :: nat where "ELF_PROG_LOAD = 1"
definition ELFHDR_SIZE :: nat where "ELFHDR_SIZE = 52"
definition PROGHDR_SIZE :: nat where "PROGHDR_SIZE = 32"

record elfhdr =
  e_magic :: nat
  e_type :: nat
  e_machine :: nat
  e_version :: nat
  e_entry :: nat
  e_phoff :: nat
  e_shoff :: nat
  e_flags :: nat
  e_ehsize :: nat
  e_phentsize :: nat
  e_phnum :: nat
  e_shentsize :: nat
  e_shnum :: nat
  e_shstrndx :: nat

definition elfhdr_of :: "bytes \<Rightarrow> elfhdr" where
  "elfhdr_of d = \<lparr>e_magic = get32 d 0, e_type = get16 d 16, e_machine = get16 d 18,
     e_version = get32 d 20, e_entry = get32 d 24, e_phoff = get32 d 28, e_shoff = get32 d 32,
     e_flags = get32 d 36, e_ehsize = get16 d 40, e_phentsize = get16 d 42, e_phnum = get16 d 44,
     e_shentsize = get16 d 46, e_shnum = get16 d 48, e_shstrndx = get16 d 50\<rparr>"

record proghdr =
  ph_type :: nat
  ph_off :: nat
  ph_vaddr :: nat
  ph_paddr :: nat
  ph_filesz :: nat
  ph_memsz :: nat
  ph_flags :: nat
  ph_align :: nat

definition proghdr_of :: "bytes \<Rightarrow> proghdr" where
  "proghdr_of d = \<lparr>ph_type = get32 d 0, ph_off = get32 d 4, ph_vaddr = get32 d 8,
     ph_paddr = get32 d 12, ph_filesz = get32 d 16, ph_memsz = get32 d 20, ph_flags = get32 d 24,
     ph_align = get32 d 28\<rparr>"

definition word_bytes :: "uint \<Rightarrow> bytes" where
  "word_bytes w = [ucast w, ucast (drop_bit 8 w), ucast (drop_bit 16 w), ucast (drop_bit 24 w)]"

text \<open>The \<open>bad\<close> label.\<close>

definition exec_bad :: "uint \<Rightarrow> nat option \<Rightarrow> ('z, int) xop" where
  "exec_bad pgdir ip = bind (whenM (pgdir \<noteq> 0) (freevm pgdir)) (\<lambda>_.
    bind ((case ip of
        None \<Rightarrow> ret ()
      | Some ip \<Rightarrow> bind (iunlockput ip) (\<lambda>_.
        end_op))) (\<lambda>_.
    ret (- 1)))"

text \<open>The loop over the program headers: the new size, or \<open>None\<close> for \<open>goto bad\<close>.\<close>

primrec exec_load :: "'z xstate_scheme devsw \<Rightarrow> nat \<Rightarrow> uint \<Rightarrow> nat \<Rightarrow> nat list \<Rightarrow> uint
    \<Rightarrow> ('z, uint option) xop" where
  "exec_load dsw ip pgdir phoff [] sz = ret (Some sz)"
| "exec_load dsw ip pgdir phoff (i # is) sz = bind (readi dsw ip (wrap32 (phoff + i * PROGHDR_SIZE)) PROGHDR_SIZE) (\<lambda>(r, d).
  if r \<noteq> int PROGHDR_SIZE then ret None
     else (let ph = proghdr_of d in
       let vaddr = word_of_nat (ph_vaddr ph) in
       let memsz = word_of_nat (ph_memsz ph) in
       if ph_type ph \<noteq> ELF_PROG_LOAD then exec_load dsw ip pgdir phoff is sz
       else if ph_memsz ph < ph_filesz ph then ret None
       else if vaddr + memsz < vaddr then ret None
       else bind (allocuvm pgdir sz (vaddr + memsz)) (\<lambda>sz.
         if sz = 0 then ret None
         else if vaddr mod PGSIZE \<noteq> 0 then ret None
         else bind (loaduvm dsw pgdir vaddr ip (ph_off ph) (ph_filesz ph)) (\<lambda>r.
           if r < 0 then ret None
           else exec_load dsw ip pgdir phoff is sz))))"

text \<open>The loop that pushes the argument strings: the stack pointer and the strings' addresses.\<close>

fun exec_args :: "uint \<Rightarrow> bytes list \<Rightarrow> nat \<Rightarrow> uint \<Rightarrow> uint list \<Rightarrow> ('z, (uint \<times> uint list) option) xop" where
  "exec_args pgdir [] argc sp ustack = ret (Some (sp, ustack))"
| "exec_args pgdir (arg # argv) argc sp ustack =
     (if argc \<ge> MAXARG then ret None
      else (let sp = (sp - word_of_nat (length arg + 1)) AND NOT 3 in
        bind (copyout pgdir sp (arg @ [0])) (\<lambda>r.
        if r < 0 then ret None
        else exec_args pgdir argv (argc + 1) sp (ustack @ [sp]))))"

definition base_name :: "bytes \<Rightarrow> bytes" where
  "base_name path = rev (takeWhile (\<lambda>c. c \<noteq> slash) (rev path))"

text \<open>\<open>safestrcpy(dst, src, n)\<close> on an array \<open>dst\<close> of \<open>n\<close> bytes and a string.\<close>

definition copy_name :: "bytes \<Rightarrow> bytes \<Rightarrow> bytes" where
  "copy_name dst src = map (safestrcpy 0 (length dst) (int (length dst)) (mem_of (dst @ src)))
     [0..<length dst]"

definition exec_commit :: "uint \<Rightarrow> uint \<Rightarrow> uint \<Rightarrow> uint \<Rightarrow> bytes \<Rightarrow> ('z, int) xop" where
  "exec_commit pgdir sz entry sp path = with_proc (\<lambda>p. bind (modify (upd_proc p (\<lambda>q. q\<lparr>p_name := copy_name (p_name q) (base_name path)\<rparr>))) (\<lambda>_.
    bind (reads (\<lambda>s. p_pgdir (procs s ! p))) (\<lambda>oldpgdir.
    bind (modify (upd_proc p (\<lambda>q. q\<lparr>p_pgdir := pgdir, p_sz := sz,
       p_tf := (p_tf q)\<lparr>tf_eip := entry, tf_esp := sp\<rparr>\<rparr>))) (\<lambda>_.
    bind (switchuvm (Some p)) (\<lambda>_.
    bind (freevm oldpgdir) (\<lambda>_.
    ret 0))))))"

definition exec_stack :: "uint \<Rightarrow> uint \<Rightarrow> uint \<Rightarrow> bytes \<Rightarrow> bytes list \<Rightarrow> ('z, int) xop" where
  "exec_stack pgdir sz entry path argv = (let sz = PGROUNDUP sz in
    bind (allocuvm pgdir sz (sz + 2 * PGSIZE)) (\<lambda>sz.
    if sz = 0 then exec_bad pgdir None
     else bind (clearpteu pgdir (sz - 2 * PGSIZE)) (\<lambda>_.
       bind (exec_args pgdir argv 0 sz []) (\<lambda>args.
       case args of
         None \<Rightarrow> exec_bad pgdir None
       | Some (sp, ustack) \<Rightarrow> (let argc = word_of_nat (length argv) in
         let frame = [0xffffffff, argc, sp - (argc + 1) * 4] @ ustack @ [0] in
         let sp = sp - (3 + argc + 1) * 4 in
         bind (copyout pgdir sp (concat (map word_bytes frame))) (\<lambda>r.
         if r < 0 then exec_bad pgdir None
           else exec_commit pgdir sz entry sp path))))))"

definition exec :: "'z xstate_scheme devsw \<Rightarrow> bytes \<Rightarrow> bytes list \<Rightarrow> ('z, int) xop" where
  "exec dsw path argv = bind begin_op (\<lambda>_.
    bind (namei dsw path) (\<lambda>ipp.
    case ipp of
       None \<Rightarrow> bind end_op (\<lambda>_.
         bind (kprint (ascii ''exec: fail'' @ [10]) []) (\<lambda>_.
         ret (- 1)))
     | Some ip \<Rightarrow> bind (ilock (Some ip)) (\<lambda>_.
       bind (readi dsw ip 0 ELFHDR_SIZE) (\<lambda>(r, d).
       let elf = elfhdr_of d in
       if r \<noteq> int ELFHDR_SIZE then exec_bad 0 (Some ip)
         else if e_magic elf \<noteq> ELF_MAGIC then exec_bad 0 (Some ip)
         else bind setupkvm (\<lambda>pgdir.
           if pgdir = 0 then exec_bad 0 (Some ip)
           else bind (exec_load dsw ip pgdir (e_phoff elf) [0..<e_phnum elf] 0) (\<lambda>loaded.
             case loaded of
               None \<Rightarrow> exec_bad pgdir (Some ip)
             | Some sz \<Rightarrow> bind (iunlockput ip) (\<lambda>_.
               bind end_op (\<lambda>_.
               exec_stack pgdir sz (word_of_nat (e_entry elf)) path argv))))))))"

end
