(* ===== verification/Proc.thy ===== *)
theory Proc
  imports Exec
begin

text \<open>
  Processes, proc.c (\<open>sleep\<close>, \<open>wakeup\<close>, \<open>sched\<close> and \<open>yield\<close> are in \<open>Kstate\<close>).  A \<open>struct proc*\<close>
  is the index of the process in \<open>ptable\<close>.  \<open>forkret\<close>'s address, which \<open>allocproc\<close> puts into the
  new context, is the argument \<open>fr\<close>.
\<close>

definition SEG_UCODE :: ushort where "SEG_UCODE = 3"
definition SEG_UDATA :: ushort where "SEG_UDATA = 4"
definition DPL_USER :: ushort where "DPL_USER = 3"
definition FL_IF :: uint where "FL_IF = 0x200"

definition allocproc :: "uint \<Rightarrow> ('z, nat option) vop" where
  "allocproc fr = bind (acquire PtableLock) (\<lambda>_.
    bind (reads (\<lambda>s. find (\<lambda>i. p_state (procs s ! i) = UNUSED) [0..<NPROC])) (\<lambda>free.
    case free of
       None \<Rightarrow> bind (release PtableLock) (\<lambda>_.
         ret None)
     | Some i \<Rightarrow> bind (modify (\<lambda>s. (upd_proc i (\<lambda>p. p\<lparr>p_state := EMBRYO, p_pid := nextpid s\<rparr>) s)\<lparr>nextpid := int32 (nextpid s + 1)\<rparr>)) (\<lambda>_.
       bind (release PtableLock) (\<lambda>_.
       bind kalloc (\<lambda>k.
       bind (modify (upd_proc i (\<lambda>p. p\<lparr>p_kstack := k\<rparr>))) (\<lambda>_.
       if k = 0 then bind (modify (upd_proc i (\<lambda>p. p\<lparr>p_state := UNUSED\<rparr>))) (\<lambda>_.
           ret None)
         else bind (modify (upd_proc i (\<lambda>p. p\<lparr>p_context :=
             \<lparr>cx_edi = 0, cx_esi = 0, cx_ebx = 0, cx_ebp = 0, cx_eip = fr\<rparr>\<rparr>))) (\<lambda>_.
           ret (Some i))))))))"

definition initcode_name :: bytes where
  "initcode_name = [105, 110, 105, 116, 99, 111, 100, 101]"

definition userinit :: "'z vstate_scheme devsw \<Rightarrow> uint \<Rightarrow> bytes \<Rightarrow> ('z, unit) vop" where
  "userinit dsw fr initcode = bind (allocproc fr) (\<lambda>pp.
    bind (modify (\<lambda>s. s\<lparr>initproc := pp\<rparr>)) (\<lambda>_.
    case pp of
       None \<Rightarrow> fault
     | Some i \<Rightarrow> bind setupkvm (\<lambda>d.
       bind (modify (upd_proc i (\<lambda>p. p\<lparr>p_pgdir := d\<rparr>))) (\<lambda>_.
       bind (panic_if (d = 0) ''userinit: out of memory?'') (\<lambda>_.
       bind (inituvm d initcode) (\<lambda>_.
       bind (modify (upd_proc i (\<lambda>p. p\<lparr>p_sz := PGSIZE, p_tf := zero_tf
           \<lparr>tf_cs := push_bit 3 SEG_UCODE OR DPL_USER, tf_ds := push_bit 3 SEG_UDATA OR DPL_USER,
            tf_es := push_bit 3 SEG_UDATA OR DPL_USER, tf_ss := push_bit 3 SEG_UDATA OR DPL_USER,
            tf_eflags := FL_IF, tf_esp := PGSIZE, tf_eip := 0\<rparr>,
           p_name := copy_name (p_name p) initcode_name\<rparr>))) (\<lambda>_.
       bind (namei dsw [slash]) (\<lambda>cwd.
       bind (modify (upd_proc i (\<lambda>p. p\<lparr>p_cwd := cwd\<rparr>))) (\<lambda>_.
       bind (acquire PtableLock) (\<lambda>_.
       bind (modify (upd_proc i (\<lambda>p. p\<lparr>p_state := RUNNABLE\<rparr>))) (\<lambda>_.
       release PtableLock)))))))))))"

definition growproc :: "int \<Rightarrow> ('z, int) vop" where
  "growproc n = with_proc (\<lambda>i. bind (reads (\<lambda>s. procs s ! i)) (\<lambda>p.
    let old = p_sz p in
    bind ((if n > 0 then allocuvm (p_pgdir p) old (old + word_of_int n)
            else if n < 0 then deallocuvm (p_pgdir p) old (old + word_of_int n)
            else ret old)) (\<lambda>sz.
    if n \<noteq> 0 \<and> sz = 0 then ret (- 1)
     else bind (modify (upd_proc i (\<lambda>p. p\<lparr>p_sz := sz\<rparr>))) (\<lambda>_.
       bind (switchuvm (Some i)) (\<lambda>_.
       ret 0)))))"

definition fork :: "uint \<Rightarrow> ('z, int) xop" where
  "fork fr = with_proc (\<lambda>cur. bind (allocproc fr) (\<lambda>npp.
    case npp of
       None \<Rightarrow> ret (- 1)
     | Some np \<Rightarrow> bind (reads (\<lambda>s. procs s ! cur)) (\<lambda>c.
       bind (copyuvm (p_pgdir c) (p_sz c)) (\<lambda>d.
       bind (modify (upd_proc np (\<lambda>p. p\<lparr>p_pgdir := d\<rparr>))) (\<lambda>_.
       if d = 0 then bind (reads (\<lambda>s. p_kstack (procs s ! np))) (\<lambda>k.
           bind (kfree k) (\<lambda>_.
           bind (modify (upd_proc np (\<lambda>p. p\<lparr>p_kstack := 0, p_state := UNUSED\<rparr>))) (\<lambda>_.
           ret (- 1))))
         else bind (modify (upd_proc np (\<lambda>p. p\<lparr>p_sz := p_sz c, p_parent := Some cur,
             p_tf := (p_tf c)\<lparr>tf_eax := 0\<rparr>\<rparr>))) (\<lambda>_.
           bind (for_each [0..<NOFILE] (\<lambda>i.
             case p_ofile c ! i of
               None \<Rightarrow> ret (None :: unit option)
             | Some f \<Rightarrow> bind (filedup f) (\<lambda>f'.
               bind (modify (upd_proc np (\<lambda>p. p\<lparr>p_ofile := (p_ofile p)[i := Some f']\<rparr>))) (\<lambda>_.
               ret None)))) (\<lambda>_.
           bind ((case p_cwd c of
              None \<Rightarrow> fault
            | Some ip \<Rightarrow> bind (idup ip) (\<lambda>ip'.
              modify (upd_proc np (\<lambda>p. p\<lparr>p_cwd := Some ip'\<rparr>))))) (\<lambda>_.
           bind (modify (upd_proc np (\<lambda>p. p\<lparr>p_name := copy_name (p_name p) (takeWhile (\<lambda>c. c \<noteq> 0) (p_name c))\<rparr>))) (\<lambda>_.
           bind (reads (\<lambda>s. p_pid (procs s ! np))) (\<lambda>pid.
           bind (acquire PtableLock) (\<lambda>_.
           bind (modify (upd_proc np (\<lambda>p. p\<lparr>p_state := RUNNABLE\<rparr>))) (\<lambda>_.
           bind (release PtableLock) (\<lambda>_.
           ret pid)))))))))))))"

text \<open>
  The part of \<open>exit\<close> under \<open>ptable.lock\<close>: wake the parent, hand the children to \<open>init\<close> and become
  a zombie.
\<close>

definition wakeup_proc :: "nat option \<Rightarrow> 'z kern_scheme \<Rightarrow> 'z kern_scheme" where
  "wakeup_proc p s = (case p of None \<Rightarrow> s | Some p \<Rightarrow> wakeup1 (ChProc p) s)"

definition reparent :: "nat \<Rightarrow> nat \<Rightarrow> 'z kern_scheme \<Rightarrow> 'z kern_scheme" where
  "reparent cur i s =
     (if p_parent (procs s ! i) = Some cur then
        (let s = upd_proc i (\<lambda>p. p\<lparr>p_parent := initproc s\<rparr>) s in
         if p_state (procs s ! i) = ZOMBIE then wakeup_proc (initproc s) s else s)
      else s)"

definition exit_locked :: "nat \<Rightarrow> ('z, 'a) kop" where
  "exit_locked cur = bind (modify (\<lambda>s. wakeup_proc (p_parent (procs s ! cur)) s)) (\<lambda>_.
    bind (modify (fold (reparent cur) [0..<NPROC])) (\<lambda>_.
    bind (modify (upd_proc cur (\<lambda>p. p\<lparr>p_state := ZOMBIE\<rparr>))) (\<lambda>_.
    sched)))"

definition exit :: "('z, 'a) xop" where
  "exit = with_proc (\<lambda>cur. bind (reads initproc) (\<lambda>init.
    bind (panic_if (Some cur = init) ''init exiting'') (\<lambda>_.
    bind (for_each [0..<NOFILE] (\<lambda>fd. bind (reads (\<lambda>s. p_ofile (procs s ! cur) ! fd)) (\<lambda>f.
       case f of
         None \<Rightarrow> ret (None :: unit option)
       | Some f \<Rightarrow> bind (fileclose f) (\<lambda>_.
         bind (modify (upd_proc cur (\<lambda>p. p\<lparr>p_ofile := (p_ofile p)[fd := None]\<rparr>))) (\<lambda>_.
         ret None))))) (\<lambda>_.
    bind begin_op (\<lambda>_.
    bind (reads (\<lambda>s. p_cwd (procs s ! cur))) (\<lambda>cwd.
    bind ((case cwd of None \<Rightarrow> fault | Some ip \<Rightarrow> iput ip)) (\<lambda>_.
    bind end_op (\<lambda>_.
    bind (modify (upd_proc cur (\<lambda>p. p\<lparr>p_cwd := None\<rparr>))) (\<lambda>_.
    bind (acquire PtableLock) (\<lambda>_.
    exit_locked cur))))))))))"

text \<open>
  \<open>wait\<close> with \<open>ptable.lock\<close> held: one scan of the table; a parent that sleeps scans again when it
  is woken.
\<close>

definition reap :: "nat \<Rightarrow> ('z, int) vop" where
  "reap i = bind (reads (\<lambda>s. procs s ! i)) (\<lambda>p.
    bind (kfree (p_kstack p)) (\<lambda>_.
    bind (modify (upd_proc i (\<lambda>p. p\<lparr>p_kstack := 0\<rparr>))) (\<lambda>_.
    bind (freevm (p_pgdir p)) (\<lambda>_.
    bind (modify (upd_proc i (\<lambda>p. p\<lparr>p_pid := 0, p_parent := None, p_name := (p_name p)[0 := 0], p_killed := False,
       p_state := UNUSED\<rparr>))) (\<lambda>_.
    bind (release PtableLock) (\<lambda>_.
    ret (p_pid p)))))))"

definition wait_locked :: "nat \<Rightarrow> ('z, int) vop" where
  "wait_locked cur = bind (reads (\<lambda>s. find (\<lambda>i. p_parent (procs s ! i) = Some cur \<and> p_state (procs s ! i) = ZOMBIE) [0..<NPROC])) (\<lambda>z.
    case z of
       Some i \<Rightarrow> reap i
     | None \<Rightarrow> bind (reads (\<lambda>s. \<exists>i \<in> set [0..<NPROC]. p_parent (procs s ! i) = Some cur)) (\<lambda>havekids.
       bind (reads (\<lambda>s. p_killed (procs s ! cur))) (\<lambda>dead.
       if \<not> havekids \<or> dead then bind (release PtableLock) (\<lambda>_.
           ret (- 1))
         else sleep (ChProc cur) PtableLock)))"

definition wait :: "('z, int) vop" where
  "wait = with_proc (\<lambda>cur. bind (acquire PtableLock) (\<lambda>_.
    wait_locked cur))"

definition wait_resume :: "('z, int) vop" where
  "wait_resume = with_proc (\<lambda>cur. bind (sleep_return PtableLock) (\<lambda>_.
    wait_locked cur))"

text \<open>
  The scheduler.  \<open>scheduler_pick k\<close> is the scan of the process table from entry \<open>k\<close> on, up to the
  switch to the process it finds or the release of the lock at the end of the round;
  \<open>scheduler_back\<close> is what follows the switch when the process gives up the CPU.
\<close>

definition scheduler_start :: "('z, unit) vop" where
  "scheduler_start = bind (modify (\<lambda>s. s\<lparr>curproc := None\<rparr>)) (\<lambda>_.
    acquire PtableLock)"

definition scheduler_pick :: "nat \<Rightarrow> ('z, nat option) vop" where
  "scheduler_pick k = bind (reads (\<lambda>s. find (\<lambda>i. p_state (procs s ! i) = RUNNABLE) [k..<NPROC])) (\<lambda>r.
    case r of
       Some i \<Rightarrow> bind (modify (\<lambda>s. s\<lparr>curproc := Some i\<rparr>)) (\<lambda>_.
         bind (switchuvm (Some i)) (\<lambda>_.
         bind (modify (upd_proc i (\<lambda>p. p\<lparr>p_state := RUNNING\<rparr>))) (\<lambda>_.
         ret (Some i))))
     | None \<Rightarrow> bind (release PtableLock) (\<lambda>_.
       ret None))"

definition scheduler_back :: "('z, unit) vop" where
  "scheduler_back = bind switchkvm (\<lambda>_.
    modify (\<lambda>s. s\<lparr>curproc := None\<rparr>))"

definition forkret :: "bool \<Rightarrow> ('z, bool) vop" where
  "forkret first = bind (release PtableLock) (\<lambda>_.
    bind (whenM first (bind (iinit ROOTDEV) (\<lambda>_.
       initlog ROOTDEV))) (\<lambda>_.
    ret False))"

definition kill :: "int \<Rightarrow> ('z, int) kop" where
  "kill pid = bind (acquire PtableLock) (\<lambda>_.
    bind (reads (\<lambda>s. find (\<lambda>i. p_pid (procs s ! i) = pid) [0..<NPROC])) (\<lambda>r.
    case r of
       Some i \<Rightarrow> bind (modify (upd_proc i (\<lambda>p. p\<lparr>p_killed := True,
           p_state := (if p_state p = SLEEPING then RUNNABLE else p_state p)\<rparr>))) (\<lambda>_.
         bind (release PtableLock) (\<lambda>_.
         ret 0))
     | None \<Rightarrow> bind (release PtableLock) (\<lambda>_.
       ret (- 1))))"

end
