(* ===== verification/Sysfile.thy ===== *)
theory Sysfile
  imports Proc
begin

text \<open>
  System call arguments, syscall.c, and the system calls on files, sysfile.c.  The kernel follows
  user pointers through the current process's page table; \<open>user_addr\<close> is that translation, and an
  address that is not mapped is a \<open>Fault\<close>.
\<close>

subsection \<open>User memory\<close>

definition user_addr :: "uint \<Rightarrow> uint \<Rightarrow> 'z vstate_scheme \<Rightarrow> uint option" where
  "user_addr pgdir va s =
     (let pde = load_at (pgdir + 4 * PDX va) s in
      if pde AND PTE_P = 0 then None
      else
        let pte = load_at (P2V (PTE_ADDR pde) + 4 * PTX va) s in
        if pte AND PTE_P = 0 then None
        else Some (P2V (PTE_ADDR pte) + (va AND 0xFFF)))"

definition user_read :: "uint \<Rightarrow> nat \<Rightarrow> ('z, bytes) vop" where
  "user_read va n = with_proc (\<lambda>i s.
     (let as = map (\<lambda>k. user_addr (p_pgdir (procs s ! i)) (va + word_of_nat k) s) [0..<n] in
      if None \<in> set as then Fault
      else Ok (map (\<lambda>a. kmem s (unat (the a))) as) s))"

definition user_write :: "uint \<Rightarrow> bytes \<Rightarrow> ('z, unit) vop" where
  "user_write va bs = with_proc (\<lambda>i s.
     (let as = map (\<lambda>k. user_addr (p_pgdir (procs s ! i)) (va + word_of_nat k) s) [0..<length bs] in
      if None \<in> set as then Fault
      else Ok () (s\<lparr>kmem := fold (\<lambda>(a, b) m. m(unat (the a) := b)) (zip as bs) (kmem s)\<rparr>)))"

subsection \<open>syscall.c: fetching arguments\<close>

text \<open>The functions return \<open>None\<close> where the code returns \<open>-1\<close>.\<close>

definition fetchint :: "uint \<Rightarrow> ('z, int option) vop" where
  "fetchint addr = with_proc (\<lambda>i. bind (reads (\<lambda>s. p_sz (procs s ! i))) (\<lambda>sz.
    if addr \<ge> sz \<or> addr + 4 > sz then ret None
     else bind (user_read addr 4) (\<lambda>d.
       ret (Some (get_int d 0)))))"

text \<open>The scan for the NUL, over the \<open>n\<close> bytes up to the end of the process's memory.\<close>

primrec fetchstr_loop :: "uint \<Rightarrow> nat \<Rightarrow> ('z, bytes option) vop" where
  "fetchstr_loop a 0 = ret None"
| "fetchstr_loop a (Suc n) = bind (user_read a 1) (\<lambda>c.
  if hd c = 0 then ret (Some [])
     else bind (fetchstr_loop (a + 1) n) (\<lambda>rest.
       ret (map_option (\<lambda>cs. hd c # cs) rest)))"

definition fetchstr :: "uint \<Rightarrow> ('z, bytes option) vop" where
  "fetchstr addr = with_proc (\<lambda>i. bind (reads (\<lambda>s. p_sz (procs s ! i))) (\<lambda>sz.
    if addr \<ge> sz then ret None
     else fetchstr_loop addr (unat (sz - addr))))"

definition argint :: "nat \<Rightarrow> ('z, int option) vop" where
  "argint n = with_proc (\<lambda>i. bind (reads (\<lambda>s. tf_esp (p_tf (procs s ! i)))) (\<lambda>esp.
    fetchint (esp + 4 + 4 * word_of_nat n)))"

definition argptr :: "nat \<Rightarrow> int \<Rightarrow> ('z, uint option) vop" where
  "argptr n sz = with_proc (\<lambda>p. bind (argint n) (\<lambda>a.
    bind (reads (\<lambda>s. p_sz (procs s ! p))) (\<lambda>psz.
    case a of
       None \<Rightarrow> ret None
     | Some i \<Rightarrow>
         if sz < 0 \<or> word_of_int i \<ge> psz \<or> word_of_int i + word_of_int sz > psz then ret None
         else ret (Some (word_of_int i)))))"

definition argstr :: "nat \<Rightarrow> ('z, bytes option) vop" where
  "argstr n = bind (argint n) (\<lambda>a.
    case a of None \<Rightarrow> ret None | Some addr \<Rightarrow> fetchstr (word_of_int addr))"

subsection \<open>sysfile.c: descriptors\<close>

definition argfd :: "nat \<Rightarrow> ('z, (nat \<times> nat) option) xop" where
  "argfd n = with_proc (\<lambda>i. bind (argint n) (\<lambda>a.
    case a of
       None \<Rightarrow> ret None
     | Some fd \<Rightarrow> bind (reads (\<lambda>s. p_ofile (procs s ! i))) (\<lambda>fs.
       if fd < 0 \<or> fd \<ge> int NOFILE then ret None
         else ret (map_option (\<lambda>f. (nat fd, f)) (fs ! nat fd)))))"

definition set_ofile :: "nat \<Rightarrow> nat \<Rightarrow> nat option \<Rightarrow> 'z kern_scheme \<Rightarrow> 'z kern_scheme" where
  "set_ofile i fd f = upd_proc i (\<lambda>p. p\<lparr>p_ofile := (p_ofile p)[fd := f]\<rparr>)"

definition fdalloc :: "nat \<Rightarrow> ('z, int) kop" where
  "fdalloc f = with_proc (\<lambda>i. bind (reads (\<lambda>s. find (\<lambda>fd. p_ofile (procs s ! i) ! fd = None) [0..<NOFILE])) (\<lambda>r.
    case r of
       None \<Rightarrow> ret (- 1)
     | Some fd \<Rightarrow> bind (modify (set_ofile i fd (Some f))) (\<lambda>_.
       ret (int fd))))"

definition sys_dup :: "('z, int) xop" where
  "sys_dup = bind (argfd 0) (\<lambda>a.
    case a of
       None \<Rightarrow> ret (- 1)
     | Some (_, f) \<Rightarrow> bind (fdalloc f) (\<lambda>fd.
       if fd < 0 then ret (- 1)
         else bind (filedup f) (\<lambda>_.
           ret fd)))"

definition sys_read :: "'z xstate_scheme devsw \<Rightarrow> ('z, int) xop" where
  "sys_read dsw = bind (modify (\<lambda>s. s\<lparr>numberOfReadCalls := numberOfReadCalls s + 1\<rparr>)) (\<lambda>_.
    bind (argfd 0) (\<lambda>a.
    case a of
       None \<Rightarrow> ret (- 1)
     | Some (_, f) \<Rightarrow> bind (argint 2) (\<lambda>n.
       case n of
           None \<Rightarrow> ret (- 1)
         | Some n \<Rightarrow> bind (argptr 1 n) (\<lambda>p.
           case p of
               None \<Rightarrow> ret (- 1)
             | Some p \<Rightarrow> bind (fileread dsw f (nat n)) (\<lambda>(r, d).
               bind (user_write p d) (\<lambda>_.
               ret r))))))"

definition sys_getreadcount :: "('z, int) xop" where
  "sys_getreadcount = reads (\<lambda>s. sint (numberOfReadCalls s))"

definition sys_write :: "'z xstate_scheme devsw \<Rightarrow> ('z, int) xop" where
  "sys_write dsw = bind (argfd 0) (\<lambda>a.
    case a of
       None \<Rightarrow> ret (- 1)
     | Some (_, f) \<Rightarrow> bind (argint 2) (\<lambda>n.
       case n of
           None \<Rightarrow> ret (- 1)
         | Some n \<Rightarrow> bind (argptr 1 n) (\<lambda>p.
           case p of
               None \<Rightarrow> ret (- 1)
             | Some p \<Rightarrow> bind (user_read p (nat n)) (\<lambda>d.
               filewrite dsw f d))))"

definition sys_close :: "('z, int) xop" where
  "sys_close = bind (argfd 0) (\<lambda>a.
    case a of
       None \<Rightarrow> ret (- 1)
     | Some (fd, f) \<Rightarrow> bind (with_proc (\<lambda>i. modify (set_ofile i fd None))) (\<lambda>_.
       bind (fileclose f) (\<lambda>_.
       ret 0)))"

text \<open>The stat structure as the compiler lays it out: 20 bytes, \<open>type\<close> and \<open>nlink\<close> padded.\<close>

definition stat_bytes :: "statinfo \<Rightarrow> bytes \<Rightarrow> bytes" where
  "stat_bytes st d = put32 (put_short (put32 (put32 (put_short d 0 (st_type st)) 4 (st_dev st))
     8 (st_ino st)) 12 (st_nlink st)) 16 (st_size st)"

definition sys_fstat :: "('z, int) xop" where
  "sys_fstat = bind (argfd 0) (\<lambda>a.
    case a of
       None \<Rightarrow> ret (- 1)
     | Some (_, f) \<Rightarrow> bind (argptr 1 20) (\<lambda>p.
       case p of
           None \<Rightarrow> ret (- 1)
         | Some p \<Rightarrow> bind (filestat f) (\<lambda>st.
           case st of
               None \<Rightarrow> ret (- 1)
             | Some st \<Rightarrow> bind (user_read p 20) (\<lambda>old.
               bind (user_write p (stat_bytes st old)) (\<lambda>_.
               ret 0)))))"

subsection \<open>Links and directories\<close>

definition short :: "int \<Rightarrow> int" where
  "short v = sint (word_of_int v :: 16 word)"

definition fail_op :: "('z, int) xop" where
  "fail_op = bind end_op (\<lambda>_.
    ret (- 1))"

definition sys_link_bad :: "nat \<Rightarrow> ('z, int) xop" where
  "sys_link_bad ip = bind (ilock (Some ip)) (\<lambda>_.
    bind (modify (upd_ino ip (\<lambda>i. i\<lparr>i_nlink := short (i_nlink i - 1)\<rparr>))) (\<lambda>_.
    bind (iupdate ip) (\<lambda>_.
    bind (iunlockput ip) (\<lambda>_.
    bind end_op (\<lambda>_.
    ret (- 1))))))"

definition link :: "'z xstate_scheme devsw \<Rightarrow> bytes \<Rightarrow> bytes \<Rightarrow> ('z, int) xop" where
  "link dsw old new = bind begin_op (\<lambda>_.
    bind (namei dsw old) (\<lambda>ipp.
    case ipp of
       None \<Rightarrow> fail_op
     | Some ip \<Rightarrow> bind (ilock (Some ip)) (\<lambda>_.
       bind (reads (\<lambda>s. ino s ip)) (\<lambda>i.
       if i_type i = T_DIR then bind (iunlockput ip) (\<lambda>_.
           fail_op)
         else bind (modify (upd_ino ip (\<lambda>i. i\<lparr>i_nlink := short (i_nlink i + 1)\<rparr>))) (\<lambda>_.
           bind (iupdate ip) (\<lambda>_.
           bind (iunlock (Some ip)) (\<lambda>_.
           bind (nameiparent dsw new (replicate DIRSIZ 0)) (\<lambda>(dpp, name).
           case dpp of
             None \<Rightarrow> sys_link_bad ip
           | Some dp \<Rightarrow> bind (ilock (Some dp)) (\<lambda>_.
             bind (reads (\<lambda>s. i_dev (ino s dp) = i_dev (ino s ip))) (\<lambda>same.
             bind ((if same then dirlink dsw dp name (i_inum i) else ret (- 1))) (\<lambda>r.
             if r < 0 then bind (iunlockput dp) (\<lambda>_.
                 sys_link_bad ip)
               else bind (iunlockput dp) (\<lambda>_.
                 bind (iput ip) (\<lambda>_.
                 bind end_op (\<lambda>_.
                 ret 0))))))))))))))"

definition sys_link :: "'z xstate_scheme devsw \<Rightarrow> ('z, int) xop" where
  "sys_link dsw = bind (argstr 0) (\<lambda>old.
    case old of
       None \<Rightarrow> ret (- 1)
     | Some old \<Rightarrow> bind (argstr 1) (\<lambda>new.
       case new of
           None \<Rightarrow> ret (- 1)
         | Some new \<Rightarrow> link dsw old new))"

definition isdirempty :: "'z xstate_scheme devsw \<Rightarrow> nat \<Rightarrow> ('z, bool) xop" where
  "isdirempty dsw dp = bind (reads (\<lambda>s. i_size (ino s dp))) (\<lambda>sz.
    bind (for_each (drop 2 (dir_offs sz)) (\<lambda>off. bind (readi dsw dp off DIRENT_SIZE) (\<lambda>(r, de).
       bind (panic_if (r \<noteq> int DIRENT_SIZE) ''isdirempty: readi'') (\<lambda>_.
       ret (if de_inum de \<noteq> 0 then Some () else None))))) (\<lambda>r.
    ret (r = None)))"

definition unlink_bad :: "nat \<Rightarrow> ('z, int) xop" where
  "unlink_bad dp = bind (iunlockput dp) (\<lambda>_.
    bind end_op (\<lambda>_.
    ret (- 1)))"

definition dot :: bytes where "dot = [46, 0]"
definition dotdot :: bytes where "dotdot = [46, 46, 0]"

definition unlink :: "'z xstate_scheme devsw \<Rightarrow> bytes \<Rightarrow> ('z, int) xop" where
  "unlink dsw path = bind begin_op (\<lambda>_.
    bind (nameiparent dsw path (replicate DIRSIZ 0)) (\<lambda>(dpp, name).
    case dpp of
       None \<Rightarrow> fail_op
     | Some dp \<Rightarrow> bind (ilock (Some dp)) (\<lambda>_.
       if namecmp name dot = 0 \<or> namecmp name dotdot = 0 then unlink_bad dp
         else bind (dirlookup dsw dp name) (\<lambda>hit.
           case hit of
             None \<Rightarrow> unlink_bad dp
           | Some (ip, off) \<Rightarrow> bind (ilock (Some ip)) (\<lambda>_.
             bind (reads (\<lambda>s. ino s ip)) (\<lambda>i.
             bind (panic_if (i_nlink i < 1) ''unlink: nlink < 1'') (\<lambda>_.
             bind ((if i_type i = T_DIR then isdirempty dsw ip else ret True)) (\<lambda>empty.
             if \<not> empty then bind (iunlockput ip) (\<lambda>_.
                 unlink_bad dp)
               else bind (writei dsw dp (replicate DIRENT_SIZE 0) off) (\<lambda>r.
                 bind (panic_if (r \<noteq> int DIRENT_SIZE) ''unlink: writei'') (\<lambda>_.
                 bind (whenM (i_type i = T_DIR) (bind (modify (upd_ino dp (\<lambda>i. i\<lparr>i_nlink := short (i_nlink i - 1)\<rparr>))) (\<lambda>_.
                   iupdate dp))) (\<lambda>_.
                 bind (iunlockput dp) (\<lambda>_.
                 bind (modify (upd_ino ip (\<lambda>i. i\<lparr>i_nlink := short (i_nlink i - 1)\<rparr>))) (\<lambda>_.
                 bind (iupdate ip) (\<lambda>_.
                 bind (iunlockput ip) (\<lambda>_.
                 bind end_op (\<lambda>_.
                 ret 0))))))))))))))))"

definition sys_unlink :: "'z xstate_scheme devsw \<Rightarrow> ('z, int) xop" where
  "sys_unlink dsw = bind (argstr 0) (\<lambda>path.
    case path of None \<Rightarrow> ret (- 1) | Some path \<Rightarrow> unlink dsw path)"

definition create_new :: "'z xstate_scheme devsw \<Rightarrow> nat \<Rightarrow> bytes \<Rightarrow> int \<Rightarrow> int \<Rightarrow> int
    \<Rightarrow> ('z, nat option) xop" where
  "create_new dsw dp name type major minor = bind (reads (\<lambda>s. i_dev (ino s dp))) (\<lambda>dev.
    bind (ialloc dev type) (\<lambda>ip.
    bind (ilock (Some ip)) (\<lambda>_.
    bind (modify (upd_ino ip (\<lambda>i. i\<lparr>i_major := major, i_minor := minor, i_nlink := 1\<rparr>))) (\<lambda>_.
    bind (iupdate ip) (\<lambda>_.
    bind (reads (\<lambda>s. i_inum (ino s ip))) (\<lambda>inum.
    bind (whenM (type = T_DIR) (bind (modify (upd_ino dp (\<lambda>i. i\<lparr>i_nlink := short (i_nlink i + 1)\<rparr>))) (\<lambda>_.
       bind (iupdate dp) (\<lambda>_.
       bind (reads (\<lambda>s. i_inum (ino s dp))) (\<lambda>pnum.
       bind (dirlink dsw ip dot inum) (\<lambda>r1.
       bind ((if r1 < 0 then ret (- 1) else dirlink dsw ip dotdot pnum)) (\<lambda>r2.
       panic_if (r1 < 0 \<or> r2 < 0) ''create dots''))))))) (\<lambda>_.
    bind (dirlink dsw dp name inum) (\<lambda>r.
    bind (panic_if (r < 0) ''create: dirlink'') (\<lambda>_.
    bind (iunlockput dp) (\<lambda>_.
    ret (Some ip)))))))))))"

definition create :: "'z xstate_scheme devsw \<Rightarrow> bytes \<Rightarrow> int \<Rightarrow> int \<Rightarrow> int \<Rightarrow> ('z, nat option) xop" where
  "create dsw path type major minor = bind (nameiparent dsw path (replicate DIRSIZ 0)) (\<lambda>(dpp, name).
    case dpp of
       None \<Rightarrow> ret None
     | Some dp \<Rightarrow> bind (ilock (Some dp)) (\<lambda>_.
       bind (dirlookup dsw dp name) (\<lambda>hit.
       case hit of
           Some (ip, _) \<Rightarrow> bind (iunlockput dp) (\<lambda>_.
             bind (ilock (Some ip)) (\<lambda>_.
             bind (reads (\<lambda>s. i_type (ino s ip))) (\<lambda>t.
             if type = T_FILE \<and> t = T_FILE then ret (Some ip)
             else bind (iunlockput ip) (\<lambda>_.
               ret None))))
         | None \<Rightarrow> create_new dsw dp name type major minor)))"

subsection \<open>open, mkdir, mknod, chdir, exec, pipe\<close>

definition O_RDONLY :: uint where "O_RDONLY = 0x000"
definition O_WRONLY :: uint where "O_WRONLY = 0x001"
definition O_RDWR :: uint where "O_RDWR = 0x002"
definition O_CREATE :: uint where "O_CREATE = 0x200"

definition open_inode :: "'z xstate_scheme devsw \<Rightarrow> bytes \<Rightarrow> uint \<Rightarrow> ('z, nat option) xop" where
  "open_inode dsw path omode =
     (if omode AND O_CREATE \<noteq> 0 then create dsw path T_FILE 0 0
      else bind (namei dsw path) (\<lambda>ipp.
        case ipp of
          None \<Rightarrow> ret None
        | Some ip \<Rightarrow> bind (ilock (Some ip)) (\<lambda>_.
          bind (reads (\<lambda>s. i_type (ino s ip))) (\<lambda>t.
          if t = T_DIR \<and> omode \<noteq> O_RDONLY then bind (iunlockput ip) (\<lambda>_.
              ret None)
            else ret (Some ip)))))"

definition open_file :: "'z xstate_scheme devsw \<Rightarrow> bytes \<Rightarrow> uint \<Rightarrow> ('z, int) xop" where
  "open_file dsw path omode = bind begin_op (\<lambda>_.
    bind (open_inode dsw path omode) (\<lambda>ipp.
    case ipp of
       None \<Rightarrow> fail_op
     | Some ip \<Rightarrow> bind filealloc (\<lambda>fp.
       bind ((case fp of None \<Rightarrow> ret (- 1) | Some f \<Rightarrow> fdalloc f)) (\<lambda>fd.
       if fd < 0 then bind (close_opt fp) (\<lambda>_.
           bind (iunlockput ip) (\<lambda>_.
           fail_op))
         else bind (iunlock (Some ip)) (\<lambda>_.
           bind end_op (\<lambda>_.
           bind (modify (upd_file (the fp) (\<lambda>f. f\<lparr>f_type := FD_INODE, f_ip := Some ip, f_off := 0,
             f_readable := (omode AND O_WRONLY = 0),
             f_writable := (omode AND O_WRONLY \<noteq> 0 \<or> omode AND O_RDWR \<noteq> 0)\<rparr>))) (\<lambda>_.
           ret fd)))))))"

definition sys_open :: "'z xstate_scheme devsw \<Rightarrow> ('z, int) xop" where
  "sys_open dsw = bind (argstr 0) (\<lambda>path.
    case path of
       None \<Rightarrow> ret (- 1)
     | Some path \<Rightarrow> bind (argint 1) (\<lambda>m.
       case m of
           None \<Rightarrow> ret (- 1)
         | Some m \<Rightarrow> open_file dsw path (word_of_int m)))"

definition sys_mkdir :: "'z xstate_scheme devsw \<Rightarrow> ('z, int) xop" where
  "sys_mkdir dsw = bind begin_op (\<lambda>_.
    bind (argstr 0) (\<lambda>path.
    bind ((case path of None \<Rightarrow> ret None | Some path \<Rightarrow> create dsw path T_DIR 0 0)) (\<lambda>ipp.
    case ipp of
       None \<Rightarrow> fail_op
     | Some ip \<Rightarrow> bind (iunlockput ip) (\<lambda>_.
       bind end_op (\<lambda>_.
       ret 0)))))"

definition sys_mknod :: "'z xstate_scheme devsw \<Rightarrow> ('z, int) xop" where
  "sys_mknod dsw = bind begin_op (\<lambda>_.
    bind (argstr 0) (\<lambda>path.
    bind ((case path of
       None \<Rightarrow> ret None
     | Some path \<Rightarrow> bind (argint 1) (\<lambda>major.
       case major of
           None \<Rightarrow> ret None
         | Some major \<Rightarrow> bind (argint 2) (\<lambda>minor.
           case minor of
               None \<Rightarrow> ret None
             | Some minor \<Rightarrow> create dsw path T_DEV (short major) (short minor))))) (\<lambda>ipp.
    case ipp of
       None \<Rightarrow> fail_op
     | Some ip \<Rightarrow> bind (iunlockput ip) (\<lambda>_.
       bind end_op (\<lambda>_.
       ret 0)))))"

definition sys_chdir :: "'z xstate_scheme devsw \<Rightarrow> ('z, int) xop" where
  "sys_chdir dsw = with_proc (\<lambda>cur. bind begin_op (\<lambda>_.
    bind (argstr 0) (\<lambda>path.
    bind ((case path of None \<Rightarrow> ret None | Some path \<Rightarrow> namei dsw path)) (\<lambda>ipp.
    case ipp of
       None \<Rightarrow> fail_op
     | Some ip \<Rightarrow> bind (ilock (Some ip)) (\<lambda>_.
       bind (reads (\<lambda>s. i_type (ino s ip))) (\<lambda>t.
       if t \<noteq> T_DIR then bind (iunlockput ip) (\<lambda>_.
           fail_op)
         else bind (iunlock (Some ip)) (\<lambda>_.
           bind (reads (\<lambda>s. p_cwd (procs s ! cur))) (\<lambda>cwd.
           bind ((case cwd of None \<Rightarrow> fault | Some old \<Rightarrow> iput old)) (\<lambda>_.
           bind end_op (\<lambda>_.
           bind (modify (upd_proc cur (\<lambda>p. p\<lparr>p_cwd := Some ip\<rparr>))) (\<lambda>_.
           ret 0)))))))))))"

text \<open>The loop of \<open>sys_exec\<close> over the \<open>n\<close> slots that are left in \<open>argv\<close>.\<close>

primrec exec_argv :: "uint \<Rightarrow> nat \<Rightarrow> nat \<Rightarrow> ('z, bytes list option) xop" where
  "exec_argv uargv i 0 = ret None"
| "exec_argv uargv i (Suc n) = bind (fetchint (uargv + 4 * word_of_nat i)) (\<lambda>uarg.
  case uarg of
       None \<Rightarrow> ret None
     | Some uarg \<Rightarrow>
         if uarg = 0 then ret (Some [])
         else bind (fetchstr (word_of_int uarg)) (\<lambda>arg.
           case arg of
             None \<Rightarrow> ret None
           | Some arg \<Rightarrow> bind (exec_argv uargv (i + 1) n) (\<lambda>rest.
             ret (map_option (\<lambda>as. arg # as) rest))))"

definition sys_exec :: "'z xstate_scheme devsw \<Rightarrow> ('z, int) xop" where
  "sys_exec dsw = bind (argstr 0) (\<lambda>path.
    case path of
       None \<Rightarrow> ret (- 1)
     | Some path \<Rightarrow> bind (argint 1) (\<lambda>a.
       case a of
           None \<Rightarrow> ret (- 1)
         | Some uargv \<Rightarrow> bind (exec_argv (word_of_int uargv) 0 MAXARG) (\<lambda>argv.
           case argv of
               None \<Rightarrow> ret (- 1)
             | Some argv \<Rightarrow> exec dsw path argv)))"

definition sys_pipe :: "('z, int) xop" where
  "sys_pipe = with_proc (\<lambda>cur. bind (argptr 0 8) (\<lambda>fdp.
    case fdp of
       None \<Rightarrow> ret (- 1)
     | Some fdp \<Rightarrow> bind pipealloc (\<lambda>fs.
       case fs of
           None \<Rightarrow> ret (- 1)
         | Some (rfile, wfile) \<Rightarrow> bind (fdalloc rfile) (\<lambda>fd0.
           bind ((if fd0 < 0 then ret (- 1) else fdalloc wfile)) (\<lambda>fd1.
           if fd0 < 0 \<or> fd1 < 0 then bind (whenM (fd0 \<ge> 0) (modify (set_ofile cur (nat fd0) None))) (\<lambda>_.
               bind (fileclose rfile) (\<lambda>_.
               bind (fileclose wfile) (\<lambda>_.
               ret (- 1))))
             else bind (user_write fdp (word_bytes (word_of_int fd0) @ word_bytes (word_of_int fd1))) (\<lambda>_.
               ret 0))))))"

end
