(* ===== verification/Syscall.thy ===== *)
theory Syscall
  imports Sysfile
begin

text \<open>
  The system calls on processes, sysproc.c, and the dispatch in syscall.c and syscall.h.
\<close>

subsection \<open>sysproc.c\<close>

definition sys_fork :: "uint \<Rightarrow> ('z, int) xop" where "sys_fork fr = fork fr"
definition sys_exit :: "('z, int) xop" where "sys_exit = exit"
definition sys_wait :: "('z, int) xop" where "sys_wait = wait"

definition sys_kill :: "('z, int) xop" where
  "sys_kill = bind (argint 0) (\<lambda>pid.
    case pid of None \<Rightarrow> ret (- 1) | Some pid \<Rightarrow> kill pid)"

definition sys_getpid :: "('z, int) xop" where
  "sys_getpid = with_proc (\<lambda>i. reads (\<lambda>s. p_pid (procs s ! i)))"

definition sys_sbrk :: "('z, int) xop" where
  "sys_sbrk = bind (argint 0) (\<lambda>n.
    case n of
       None \<Rightarrow> ret (- 1)
     | Some n \<Rightarrow> with_proc (\<lambda>i. bind (reads (\<lambda>s. p_sz (procs s ! i))) (\<lambda>addr.
       bind (growproc n) (\<lambda>r.
       ret (if r < 0 then - 1 else sint addr)))))"

text \<open>The loop of \<open>sys_sleep\<close>, with \<open>tickslock\<close> held; a sleeper that wakes tests again.\<close>

definition sleep_locked :: "uint \<Rightarrow> uint \<Rightarrow> ('z, int) xop" where
  "sleep_locked ticks0 n = bind (reads (\<lambda>s. ticks s - ticks0 < n)) (\<lambda>early.
    bind (reads killed) (\<lambda>dead.
    if early then
       (if dead then bind (release TicksLock) (\<lambda>_.
         ret (- 1))
        else sleep ChTicks TicksLock)
     else bind (release TicksLock) (\<lambda>_.
       ret 0)))"

definition sys_sleep :: "('z, int) xop" where
  "sys_sleep = bind (argint 0) (\<lambda>n.
    case n of
       None \<Rightarrow> ret (- 1)
     | Some n \<Rightarrow> bind (acquire TicksLock) (\<lambda>_.
       bind (reads ticks) (\<lambda>ticks0.
       sleep_locked ticks0 (word_of_int n))))"

definition sys_sleep_resume :: "uint \<Rightarrow> uint \<Rightarrow> ('z, int) xop" where
  "sys_sleep_resume ticks0 n = bind (sleep_return TicksLock) (\<lambda>_.
    sleep_locked ticks0 n)"

definition sys_uptime :: "('z, int) xop" where
  "sys_uptime = bind (acquire TicksLock) (\<lambda>_.
    bind (reads ticks) (\<lambda>xticks.
    bind (release TicksLock) (\<lambda>_.
    ret (sint xticks))))"

subsection \<open>syscall.h, syscall.c: dispatch\<close>

definition syscall_table :: "'z xstate_scheme devsw \<Rightarrow> uint \<Rightarrow> nat \<Rightarrow> ('z, int) xop option" where
  "syscall_table dsw fr num =
     (if num = 1 then Some (sys_fork fr)
      else if num = 2 then Some sys_exit
      else if num = 3 then Some sys_wait
      else if num = 4 then Some sys_pipe
      else if num = 5 then Some (sys_read dsw)
      else if num = 6 then Some sys_kill
      else if num = 7 then Some (sys_exec dsw)
      else if num = 8 then Some sys_fstat
      else if num = 9 then Some (sys_chdir dsw)
      else if num = 10 then Some sys_dup
      else if num = 11 then Some sys_getpid
      else if num = 12 then Some sys_sbrk
      else if num = 13 then Some sys_sleep
      else if num = 14 then Some sys_uptime
      else if num = 15 then Some (sys_open dsw)
      else if num = 16 then Some (sys_write dsw)
      else if num = 17 then Some (sys_mknod dsw)
      else if num = 18 then Some (sys_unlink dsw)
      else if num = 19 then Some (sys_link dsw)
      else if num = 20 then Some (sys_mkdir dsw)
      else if num = 21 then Some sys_close
      else if num = 22 then Some sys_getreadcount
      else None)"

definition set_eax :: "nat \<Rightarrow> int \<Rightarrow> 'z kern_scheme \<Rightarrow> 'z kern_scheme" where
  "set_eax i v = upd_proc i (\<lambda>p. p\<lparr>p_tf := (p_tf p)\<lparr>tf_eax := word_of_int v\<rparr>\<rparr>)"

text \<open>The \<open>else\<close> branch of \<open>syscall\<close>.\<close>

definition unknown_call :: "nat \<Rightarrow> int \<Rightarrow> ('z, unit) kop" where
  "unknown_call i num = bind (reads (\<lambda>s. procs s ! i)) (\<lambda>p.
     bind (kprint (ascii ''%d %s: unknown sys call %d'' @ [10])
       [Word (word_of_int (p_pid p)), Str (Some (takeWhile (\<lambda>c. c \<noteq> 0) (p_name p))), Word (word_of_int num)]) (\<lambda>_.
     modify (set_eax i (- 1))))"

definition syscall :: "'z xstate_scheme devsw \<Rightarrow> uint \<Rightarrow> ('z, unit) xop" where
  "syscall dsw fr = with_proc (\<lambda>i. bind (reads (\<lambda>s. sint (tf_eax (p_tf (procs s ! i))))) (\<lambda>num.
    case (if num > 0 then syscall_table dsw fr (nat num) else None) of
       Some f \<Rightarrow> bind f (\<lambda>r.
         modify (set_eax i r))
     | None \<Rightarrow> unknown_call i num))"

end
