(* ===== verification/Console.thy ===== *)
theory Console
  imports Syscall begin

text \<open>
  The console: console.c, the serial port output of uart.c, and the keyboard, kbd.c and kbd.h.
  The screen is \<open>crt\<close>, with the cursor position that the code keeps in the CRT controller's
  registers; \<open>uart_out\<close> collects what is sent to the serial port.  What the interrupt handlers'
  \<open>getc\<close> delivers, until it returns a negative number, is a list argument.
\<close>

definition INPUT_BUF :: nat where "INPUT_BUF = 128"
definition BACKSPACE :: int where "BACKSPACE = 0x100"
definition CONSOLE :: int where "CONSOLE = 1"

text \<open>Control characters: \<open>C('P')\<close> and so on.\<close>

definition ctrl :: "int \<Rightarrow> int" where "ctrl x = x - 64"

record inputbuf =
  in_buf :: bytes
  in_r :: uint
  in_w :: uint
  in_e :: uint

record cstate = xstate +
  input :: inputbuf
  cons_locking :: bool
  panicked :: bool
  uart :: bool
  uart_out :: "int list"
  crt :: "ushort list"
  crt_pos :: int
  kbd_shift :: nat

type_synonym ('z, 'a) cop = "'z cstate_scheme \<Rightarrow> ('z cstate_scheme, 'a) outcome"

subsection \<open>Output\<close>

definition uartputc :: "int \<Rightarrow> ('z, unit) cop" where
  "uartputc c = modify (\<lambda>s. if uart s then s\<lparr>uart_out := uart_out s @ [c]\<rparr> else s)"

text \<open>\<open>cgaputc\<close>: the new cursor position, before and after scrolling, and the screen.\<close>

definition cga_move :: "int \<Rightarrow> int \<Rightarrow> int" where
  "cga_move c pos = (if c = 10 then pos + (80 - pos mod 80)
     else if c = BACKSPACE then (if pos > 0 then pos - 1 else pos) else pos + 1)"

definition cga_char :: "int \<Rightarrow> ushort" where
  "cga_char c = (word_of_int c AND 0xff) OR 0x0700"

definition cga_write :: "int \<Rightarrow> int \<Rightarrow> ushort list \<Rightarrow> ushort list" where
  "cga_write c pos screen = (if c = 10 \<or> c = BACKSPACE then screen else screen[nat pos := cga_char c])"

definition cga_scroll :: "int \<Rightarrow> ushort list \<Rightarrow> ushort list" where
  "cga_scroll pos screen = blit (nat pos) (replicate (nat (24 * 80 - pos)) 0)
     (blit 0 (slice 80 (23 * 80) screen) screen)"

definition cgaputc :: "int \<Rightarrow> ('z, unit) cop" where
  "cgaputc c = bind (reads crt_pos) (\<lambda>pos.
    bind (modify (\<lambda>s. s\<lparr>crt := cga_write c pos (crt s)\<rparr>)) (\<lambda>_.
    let pos = cga_move c pos in
    bind (panic_if (pos < 0 \<or> pos > 25 * 80) ''pos under/overflow'') (\<lambda>_.
    let scrolled = (if pos div 80 \<ge> 24 then pos - 80 else pos) in
    bind (modify (\<lambda>s. if pos div 80 \<ge> 24 then s\<lparr>crt := cga_scroll scrolled (crt s)\<rparr> else s)) (\<lambda>_.
    modify (\<lambda>s. s\<lparr>crt_pos := scrolled, crt := (crt s)[nat scrolled := cga_char 32]\<rparr>)))))"

definition consputc :: "int \<Rightarrow> ('z, unit) cop" where
  "consputc c = bind (reads panicked) (\<lambda>dead.
    if dead then spins
     else bind ((if c = BACKSPACE then bind (uartputc 8) (\<lambda>_.
         bind (uartputc 32) (\<lambda>_.
         uartputc 8))
        else uartputc c)) (\<lambda>_.
       cgaputc c))"

primrec consputs :: "int list \<Rightarrow> ('z, unit) cop" where
  "consputs [] = ret ()"
| "consputs (c # cs) = bind (consputc c) (\<lambda>_.
  consputs cs)"

subsection \<open>printint and cprintf\<close>

definition digit_chars :: "int list" where
  "digit_chars = map (\<lambda>k. 48 + k) [0, 1, 2, 3, 4, 5, 6, 7, 8, 9] @ [97, 98, 99, 100, 101, 102]"

text \<open>The characters \<open>printint\<close> puts out, in their order.\<close>

definition printint :: "uint \<Rightarrow> nat \<Rightarrow> bool \<Rightarrow> int list" where
  "printint xx base sign =
     (let neg = (sign \<and> sint xx < 0);
          x = (if neg then - xx else xx);
          buf = map (\<lambda>d. digit_chars ! d) (digits_of (unat x) base) @ (if neg then [45] else [])
      in rev buf)"

definition null_text :: "int list" where
  "null_text = [40, 110, 117, 108, 108, 41]"

definition char_int :: "uchar \<Rightarrow> int" where
  "char_int c = sint c"

text \<open>
  The formatting loop of \<open>cprintf\<close>: the characters it gives to \<open>consputc\<close>; \<open>None\<close> when a conversion
  finds no argument of its kind.
\<close>

fun cprintf_out :: "bytes \<Rightarrow> vararg list \<Rightarrow> int list option" where
  "cprintf_out [] args = Some []"
| "cprintf_out [c] args = (if c = 37 then Some [] else Some [uint c])"
| "cprintf_out (c # d # fmt) args =
     (if c \<noteq> 37 then map_option (\<lambda>out. uint c # out) (cprintf_out (d # fmt) args)
      else if d = 100 then
        (case args of Word w # args \<Rightarrow> map_option (\<lambda>out. printint w 10 True @ out) (cprintf_out fmt args)
                    | _ \<Rightarrow> None)
      else if d = 120 \<or> d = 112 then
        (case args of Word w # args \<Rightarrow> map_option (\<lambda>out. printint w 16 False @ out) (cprintf_out fmt args)
                    | _ \<Rightarrow> None)
      else if d = 115 then
        (case args of
           Str None # args \<Rightarrow> map_option (\<lambda>out. null_text @ out) (cprintf_out fmt args)
         | Str (Some s) # args \<Rightarrow> map_option (\<lambda>out. map char_int s @ out) (cprintf_out fmt args)
         | _ \<Rightarrow> None)
      else if d = 37 then map_option (\<lambda>out. 37 # out) (cprintf_out fmt args)
      else map_option (\<lambda>out. 37 # uint d # out) (cprintf_out fmt args))"

definition cprintf :: "bytes option \<Rightarrow> vararg list \<Rightarrow> ('z, unit) cop" where
  "cprintf fmt args = bind (reads cons_locking) (\<lambda>locking.
    bind (whenM locking (acquire ConsLock)) (\<lambda>_.
    case fmt of
       None \<Rightarrow> panic ''null fmt''
     | Some fmt \<Rightarrow>
         (case cprintf_out fmt args of
            None \<Rightarrow> fault
          | Some out \<Rightarrow> bind (consputs out) (\<lambda>_.
            whenM locking (release ConsLock)))))"

subsection \<open>getcallerpcs, spinlock.c, and procdump, proc.c\<close>

text \<open>The walk over the saved frame pointers from \<open>ebp\<close> on, and the rest of the array of \<open>n\<close> cleared.\<close>

primrec callerpcs_loop :: "nat \<Rightarrow> mem \<Rightarrow> uint \<Rightarrow> uint list" where
  "callerpcs_loop 0 m ebp = []"
| "callerpcs_loop (Suc n) m ebp =
     (if ebp = 0 \<or> ebp < KERNBASE \<or> ebp = 0xffffffff then replicate (Suc n) 0
      else load32 m (unat (ebp + 4)) # callerpcs_loop n m (load32 m (unat ebp)))"

definition getcallerpcs :: "mem \<Rightarrow> uint \<Rightarrow> uint list" where
  "getcallerpcs m v = callerpcs_loop 10 m (v - 8)"

definition state_name :: "procstate \<Rightarrow> string" where
  "state_name st = (case st of UNUSED \<Rightarrow> ''unused'' | EMBRYO \<Rightarrow> ''embryo'' | SLEEPING \<Rightarrow> ''sleep ''
     | RUNNABLE \<Rightarrow> ''runble'' | RUNNING \<Rightarrow> ''run   '' | ZOMBIE \<Rightarrow> ''zombie'')"

definition print_pcs :: "uint list \<Rightarrow> ('z, unit) cop" where
  "print_pcs pcs = bind (for_each (takeWhile (\<lambda>pc. pc \<noteq> 0) pcs)
     (\<lambda>pc. bind (cprintf (Some (ascii '' %p'')) [Word pc]) (\<lambda>_. ret (None :: unit option)))) (\<lambda>_. ret ())"

definition dump_proc :: "nat \<Rightarrow> ('z, unit) cop" where
  "dump_proc i = bind (reads (\<lambda>s. procs s ! i)) (\<lambda>p.
     whenM (p_state p \<noteq> UNUSED) (
       bind (cprintf (Some (ascii ''%d %s %s'')) [Word (word_of_int (p_pid p)), Str (Some (ascii (state_name (p_state p)))),
         Str (Some (takeWhile (\<lambda>c. c \<noteq> 0) (p_name p)))]) (\<lambda>_.
       bind (whenM (p_state p = SLEEPING) (
         bind (reads (\<lambda>s. getcallerpcs (kmem s) (cx_ebp (p_context p) + 8))) (\<lambda>pcs. print_pcs pcs))) (\<lambda>_.
       cprintf (Some [10]) []))))"

definition procdump :: "('z, unit) cop" where
  "procdump = bind (for_each [0..<NPROC] (\<lambda>i. bind (dump_proc i) (\<lambda>_. ret (None :: unit option)))) (\<lambda>_. ret ())"

subsection \<open>Input\<close>

definition upd_input :: "(inputbuf \<Rightarrow> inputbuf) \<Rightarrow> 'z cstate_scheme \<Rightarrow> 'z cstate_scheme" where
  "upd_input f s = s\<lparr>input := f (input s)\<rparr>"

definition input_at :: "inputbuf \<Rightarrow> uint \<Rightarrow> uchar" where
  "input_at i k = in_buf i ! (unat k mod INPUT_BUF)"

text \<open>The kill-line loop: how many characters it takes back (the line has at most \<open>INPUT_BUF\<close>).\<close>

primrec kill_line :: "nat \<Rightarrow> ('z, unit) cop" where
  "kill_line 0 = spins"
| "kill_line (Suc n) = bind (reads input) (\<lambda>i.
  if in_e i \<noteq> in_w i \<and> input_at i (in_e i - 1) \<noteq> 10 then bind (modify (upd_input (\<lambda>i. i\<lparr>in_e := in_e i - 1\<rparr>))) (\<lambda>_.
       bind (consputc BACKSPACE) (\<lambda>_.
       kill_line n))
     else ret ())"

definition input_char :: "int \<Rightarrow> ('z, unit) cop" where
  "input_char c = bind (reads input) (\<lambda>i.
    whenM (c \<noteq> 0 \<and> unat (in_e i - in_r i) < INPUT_BUF) ((let c = (if c = 13 then 10 else c) in
       bind (modify (upd_input (\<lambda>i. i\<lparr>in_buf := (in_buf i)[unat (in_e i) mod INPUT_BUF := word_of_int c],
         in_e := in_e i + 1\<rparr>))) (\<lambda>_.
       bind (consputc c) (\<lambda>_.
       bind (reads input) (\<lambda>i.
       whenM (c = 10 \<or> c = ctrl 68 \<or> in_e i = in_r i + word_of_nat INPUT_BUF) (bind (modify (upd_input (\<lambda>i. i\<lparr>in_w := in_e i\<rparr>))) (\<lambda>_.
         wakeup ChInput))))))))"

definition consoleintr_char :: "int \<Rightarrow> ('z, unit) cop" where
  "consoleintr_char c =
     (if c = ctrl 80 then ret ()
      else if c = ctrl 85 then kill_line (Suc INPUT_BUF)
      else if c = ctrl 72 \<or> c = 127 then bind (reads input) (\<lambda>i.
        whenM (in_e i \<noteq> in_w i) (bind (modify (upd_input (\<lambda>i. i\<lparr>in_e := in_e i - 1\<rparr>))) (\<lambda>_.
          consputc BACKSPACE)))
      else input_char c)"

primrec consoleintr_loop :: "int list \<Rightarrow> ('z, unit) cop" where
  "consoleintr_loop [] = ret ()"
| "consoleintr_loop (c # cs) = bind (consoleintr_char c) (\<lambda>_.
  consoleintr_loop cs)"

text \<open>\<open>consoleintr\<close>; the process listing that \<open>C('P')\<close> asks for follows when the lock is free again.\<close>

definition consoleintr :: "int list \<Rightarrow> ('z, unit) cop" where
  "consoleintr cs = bind (acquire ConsLock) (\<lambda>_.
    bind (consoleintr_loop cs) (\<lambda>_.
    bind (release ConsLock) (\<lambda>_.
    whenM (ctrl 80 \<in> set cs) procdump)))"

text \<open>
  The loop of \<open>consoleread\<close>, with the lock held: \<open>n\<close> bytes are still wanted and \<open>got\<close> have been
  stored.  A reader that sleeps resumes at the same point.
\<close>

primrec consoleread_loop :: "nat \<Rightarrow> nat \<Rightarrow> bytes \<Rightarrow> nat \<Rightarrow> ('z, int \<times> bytes) cop" where
  "consoleread_loop ip target got 0 = bind (release ConsLock) (\<lambda>_.
    bind (ilock (Some ip)) (\<lambda>_.
    ret (int (length got), got)))"
| "consoleread_loop ip target got (Suc n) = bind (reads input) (\<lambda>i.
  if in_r i = in_w i then bind (reads killed) (\<lambda>dead.
       if dead then bind (release ConsLock) (\<lambda>_.
         bind (ilock (Some ip)) (\<lambda>_.
         ret (- 1, got)))
       else sleep ChInput ConsLock)
     else (let c = input_at i (in_r i) in
       bind (modify (upd_input (\<lambda>i. i\<lparr>in_r := in_r i + 1\<rparr>))) (\<lambda>_.
       if char_int c = ctrl 68 then bind (whenM (Suc n < target) (modify (upd_input (\<lambda>i. i\<lparr>in_r := in_r i - 1\<rparr>)))) (\<lambda>_.
         bind (release ConsLock) (\<lambda>_.
         bind (ilock (Some ip)) (\<lambda>_.
         ret (int (length got), got))))
       else if c = 10 then bind (release ConsLock) (\<lambda>_.
         bind (ilock (Some ip)) (\<lambda>_.
         ret (int (length got) + 1, got @ [c])))
       else consoleread_loop ip target (got @ [c]) n)))"

definition consoleread :: "nat \<Rightarrow> int \<Rightarrow> ('z, int \<times> bytes) cop" where
  "consoleread ip n = bind (iunlock (Some ip)) (\<lambda>_.
    bind (acquire ConsLock) (\<lambda>_.
    consoleread_loop ip (nat n) [] (nat n)))"

definition consoleread_resume :: "nat \<Rightarrow> nat \<Rightarrow> bytes \<Rightarrow> nat \<Rightarrow> ('z, int \<times> bytes) cop" where
  "consoleread_resume ip target got n = bind (sleep_return ConsLock) (\<lambda>_.
    consoleread_loop ip target got n)"

definition consolewrite :: "nat \<Rightarrow> bytes \<Rightarrow> int \<Rightarrow> ('z, int) cop" where
  "consolewrite ip buf n = bind (iunlock (Some ip)) (\<lambda>_.
    bind (acquire ConsLock) (\<lambda>_.
    bind (consputs (map uint (take (nat n) buf))) (\<lambda>_.
    bind (release ConsLock) (\<lambda>_.
    bind (ilock (Some ip)) (\<lambda>_.
    ret n)))))"

text \<open>The device switch after \<open>consoleinit\<close>.\<close>

definition consoledev :: "'z cstate_scheme devsw" where
  "consoledev = \<lparr>dev_read = (\<lambda>major. if major = CONSOLE then Some consoleread else None),
     dev_write = (\<lambda>major. if major = CONSOLE then Some consolewrite else None)\<rparr>"

subsection \<open>kbd.h: the key maps\<close>

definition keymap :: "nat list \<Rightarrow> (nat \<times> nat) list \<Rightarrow> nat list" where
  "keymap keys special = fold (\<lambda>(i, k) m. m[i := k]) special (keys @ replicate (256 - length keys) 0)"

definition shiftcode :: "nat list" where
  "shiftcode = keymap []
     [(0x1D, 2), (0x2A, 1), (0x36, 1), (0x38, 4), (0x9D, 2), (0xB8, 4)]"

definition togglecode :: "nat list" where
  "togglecode = keymap []
     [(0x3A, 8), (0x45, 16), (0x46, 32)]"

definition normalmap :: "nat list" where
  "normalmap = keymap [0, 27, 49, 50, 51, 52, 53, 54, 55, 56, 57, 48, 45, 61, 8, 9,
     113, 119, 101, 114, 116, 121, 117, 105, 111, 112, 91, 93, 10, 0, 97, 115,
     100, 102, 103, 104, 106, 107, 108, 59, 39, 96, 0, 92, 122, 120, 99, 118,
     98, 110, 109, 44, 46, 47, 0, 42, 0, 32, 0, 0, 0, 0, 0, 0,
     0, 0, 0, 0, 0, 0, 0, 55, 56, 57, 45, 52, 53, 54, 43, 49,
     50, 51, 48, 46, 0, 0, 0, 0]
     [(0x9C, 10), (0xB5, 47), (0xC8, 226), (0xD0, 227), (0xC9, 230), (0xD1, 231), (0xCB, 228), (0xCD, 229), (0x97, 224), (0xCF, 225), (0xD2, 232), (0xD3, 233)]"

definition shiftmap :: "nat list" where
  "shiftmap = keymap [0, 27, 33, 64, 35, 36, 37, 94, 38, 42, 40, 41, 95, 43, 8, 9,
     81, 87, 69, 82, 84, 89, 85, 73, 79, 80, 123, 125, 10, 0, 65, 83,
     68, 70, 71, 72, 74, 75, 76, 58, 34, 126, 0, 124, 90, 88, 67, 86,
     66, 78, 77, 60, 62, 63, 0, 42, 0, 32, 0, 0, 0, 0, 0, 0,
     0, 0, 0, 0, 0, 0, 0, 55, 56, 57, 45, 52, 53, 54, 43, 49,
     50, 51, 48, 46, 0, 0, 0, 0]
     [(0x9C, 10), (0xB5, 47), (0xC8, 226), (0xD0, 227), (0xC9, 230), (0xD1, 231), (0xCB, 228), (0xCD, 229), (0x97, 224), (0xCF, 225), (0xD2, 232), (0xD3, 233)]"

definition ctlmap :: "nat list" where
  "ctlmap = keymap [0, 0, 0, 0, 0, 0, 0, 0, 0, 0, 0, 0, 0, 0, 0, 0,
     17, 23, 5, 18, 20, 25, 21, 9, 15, 16, 0, 0, 13, 0, 1, 19,
     4, 6, 7, 8, 10, 11, 12, 0, 0, 0, 0, 28, 26, 24, 3, 22,
     2, 14, 13, 0, 0, 239, 0, 0]
     [(0x9C, 13), (0xB5, 239), (0xC8, 226), (0xD0, 227), (0xC9, 230), (0xD1, 231), (0xCB, 228), (0xCD, 229), (0x97, 224), (0xCF, 225), (0xD2, 232), (0xD3, 233)]"


subsection \<open>kbd.c\<close>

definition KBS_DIB :: nat where "KBS_DIB = 0x01"
definition E0ESC :: nat where "E0ESC = 64"
definition CAPSLOCK :: nat where "CAPSLOCK = 8"

text \<open>\<open>kbdgetc\<close> on a scan code that is there to be read: the result and the new shift state.\<close>

definition kbd_code :: "nat \<Rightarrow> nat \<Rightarrow> int \<times> nat" where
  "kbd_code sh sc =
     (if sc = 0xE0 then (0, sh OR E0ESC)
      else if sc AND 0x80 \<noteq> 0 then
        (let sc = (if sh AND E0ESC \<noteq> 0 then sc else sc AND 0x7F);
             off = shiftcode ! sc OR E0ESC
         in (0, sh AND (0xFFFFFFFF - off)))
      else
        (let esc = (sh AND E0ESC \<noteq> 0);
             sc = (if esc then sc OR 0x80 else sc);
             sh = (if esc then sh AND (0xFFFFFFFF - E0ESC) else sh);
             sh = (sh OR shiftcode ! sc);
             sh = (sh XOR togglecode ! sc);
             c = [normalmap, shiftmap, ctlmap, ctlmap] ! (sh AND 3) ! sc;
             c = (if sh AND CAPSLOCK \<noteq> 0 then
                    (if 97 \<le> c \<and> c \<le> 122 then c - 32 else if 65 \<le> c \<and> c \<le> 90 then c + 32 else c)
                  else c)
         in (int c, sh)))"

definition kbdgetc :: "nat \<Rightarrow> nat \<Rightarrow> ('z, int) cop" where
  "kbdgetc st sc =
     (if st AND KBS_DIB = 0 then ret (- 1)
      else bind (reads kbd_shift) (\<lambda>sh.
        bind (modify (\<lambda>s. s\<lparr>kbd_shift := snd (kbd_code sh sc)\<rparr>)) (\<lambda>_.
        ret (fst (kbd_code sh sc)))))"

text \<open>The keyboard interrupt, with the scan codes that the controller has.\<close>

primrec kbd_codes :: "nat \<Rightarrow> nat list \<Rightarrow> int list \<times> nat" where
  "kbd_codes sh [] = ([], sh)"
| "kbd_codes sh (d # ds) =
     (let (c, sh1) = kbd_code sh d; (cs, sh2) = kbd_codes sh1 ds in (c # cs, sh2))"

definition kbdintr :: "nat list \<Rightarrow> ('z, unit) cop" where
  "kbdintr scans = bind (acquire ConsLock) (\<lambda>_.
    bind (reads kbd_shift) (\<lambda>sh.
    let r = kbd_codes sh scans in
    bind (modify (\<lambda>s. s\<lparr>kbd_shift := snd r\<rparr>)) (\<lambda>_.
    bind (consoleintr_loop (fst r)) (\<lambda>_.
    bind (release ConsLock) (\<lambda>_.
    whenM (ctrl 80 \<in> set (fst r)) procdump)))))"

end
