(* ===== verification/Readcount.thy ===== *)
theory Readcount
  imports Console
begin

text \<open>
  The read counter of the project's \<open>getreadcount\<close> call, followed through the whole kernel: every
  function but \<open>sys_read\<close> leaves it alone, on every path on which it returns or gives up the CPU.
\<close>

named_theorems counter_keeps \<open>the functions that leave the read counter alone\<close>

definition counts :: "uint \<Rightarrow> 'z xstate_scheme \<Rightarrow> bool" where
  "counts c s \<longleftrightarrow> numberOfReadCalls s = c"

subsection \<open>Composition\<close>

lemma keeps_if [counter_keeps]:
  "(c \<Longrightarrow> keeps m P) \<Longrightarrow> (\<not> c \<Longrightarrow> keeps n P) \<Longrightarrow> keeps (if c then m else n) P"
  by simp

lemma keeps_option [counter_keeps]:
  "(v = None \<Longrightarrow> keeps m P) \<Longrightarrow> (\<And>x. v = Some x \<Longrightarrow> keeps (f x) P) \<Longrightarrow> keeps (case v of None \<Rightarrow> m | Some x \<Rightarrow> f x) P"
  by (cases v) simp_all

lemma keeps_prod [counter_keeps]: "(\<And>x y. v = (x, y) \<Longrightarrow> keeps (f x y) P) \<Longrightarrow> keeps (case v of (x, y) \<Rightarrow> f x y) P"
  by (cases v) simp

lemma keeps_Let [counter_keeps]: "keeps (f v) P \<Longrightarrow> keeps (Let v f) P"
  by (simp add: Let_def)

lemma keeps_with_proc [counter_keeps]: "(\<And>i. keeps (f i) P) \<Longrightarrow> keeps (with_proc f) P"
  by (auto simp: keeps_def with_proc_def split: option.splits)

lemma keeps_state: "(\<And>v. keeps (F v) P) \<Longrightarrow> keeps (\<lambda>s. F (g s) s) P"
  by (simp add: keeps_def)

declare keeps_bind [counter_keeps] keeps_andthen [counter_keeps] keeps_prims [counter_keeps]
  keeps_whenM [counter_keeps] keeps_for_each [counter_keeps] keeps_modify [counter_keeps]

subsection \<open>Updates of other fields\<close>

lemma counts_updates [simp]:
  "counts c (upd_proc i f s) = counts c s" "counts c (upd_buf k g s) = counts c s"
  "counts c (upd_ino ip h s) = counts c s" "counts c (upd_pipe p q s) = counts c s"
  "counts c (upd_file k f' s) = counts c s" "counts c (wakeup1 ch s) = counts c s"
  "counts c (set_data k d s) = counts c s" "counts c (mark_dirty k s) = counts c s"
  "counts c (store_at a w s) = counts c s" "counts c (memset_page a w s) = counts c s"
  "counts c (store_bytes a bs s) = counts c s" "counts c (set_ofile i fd fo s) = counts c s"
  "counts c (set_eax i v s) = counts c s"
  by (simp_all add: counts_def upd_proc_def upd_buf_def upd_ino_def upd_pipe_def upd_file_def wakeup1_def
      set_data_def mark_dirty_def store_at_def memset_page_def store_bytes_def set_ofile_def set_eax_def)

lemma counts_fields [simp]:
  "counts c (s\<lparr>locks := a1\<rparr>) = counts c s" "counts c (s\<lparr>nextpid := a2\<rparr>) = counts c s" "counts c (s\<lparr>klog := k2\<rparr>) = counts c s"
  "counts c (s\<lparr>curproc := a3\<rparr>) = counts c s" "counts c (s\<lparr>initproc := a4\<rparr>) = counts c s"
  "counts c (s\<lparr>memdisk := a5, dwrites := a6\<rparr>) = counts c s" "counts c (s\<lparr>log_outstanding := a7\<rparr>) = counts c s"
  "counts c (s\<lparr>log_committing := a8\<rparr>) = counts c s" "counts c (s\<lparr>lh_n := a9\<rparr>) = counts c s"
  "counts c (s\<lparr>lh_block := b1\<rparr>) = counts c s" "counts c (s\<lparr>kmem := b2\<rparr>) = counts c s"
  "counts c (s\<lparr>freelist := b3\<rparr>) = counts c s" "counts c (s\<lparr>ts_esp0 := b4, cr3 := b5\<rparr>) = counts c s"
  "counts c (s\<lparr>cr3 := b6\<rparr>) = counts c s" "counts c (s\<lparr>ts_esp0 := b4\<rparr>) = counts c s" "counts c (s\<lparr>kpgdir := b7\<rparr>) = counts c s"
  by (simp_all add: counts_def)

lemma counts_console [simp]:
  "counts c (s\<lparr>uart_out := a1\<rparr>) = counts c s" "counts c (s\<lparr>crt := a2\<rparr>) = counts c s"
  "counts c (s\<lparr>crt_pos := a3, crt := a4\<rparr>) = counts c s"
  "counts c (s\<lparr>crt_pos := a3\<rparr>) = counts c s" "counts c (upd_input f s) = counts c s"
  by (simp_all add: counts_def upd_input_def)

lemma counts_links [simp]: "counts c (link_front k s) = counts c s" "counts c (unlink_buf k s) = counts c s"
  by (simp_all add: link_front_def unlink_buf_def Let_def)

lemma counts_reparent [simp]: "counts c (wakeup_proc p s) = counts c s" "counts c (reparent cur i s) = counts c s"
  by (simp_all add: wakeup_proc_def reparent_def Let_def split: option.split)

lemma counts_fold_reparent [simp]: "counts c (fold (reparent cur) is s) = counts c s"
  by (induction "is" arbitrary: s) simp_all

subsection \<open>Locks and the scheduler\<close>

lemma keeps_acquire [counter_keeps]: "keeps (acquire l) (counts c)"
  by (simp add: keeps_def acquire_def)

lemma keeps_kprint [counter_keeps]: "keeps (kprint fmt args) (counts c)"
  by (simp add: keeps_def kprint_def)

lemma keeps_release [counter_keeps]: "keeps (release l) (counts c)"
  by (simp add: keeps_def release_def)

lemma keeps_sched [counter_keeps]: "keeps sched (counts c)"
  unfolding sched_def by (rule keeps_with_proc) (simp add: keeps_def)

lemma keeps_sleep [counter_keeps]: "keeps (sleep ch lk :: 'z xstate_scheme \<Rightarrow> ('z xstate_scheme, 'a) outcome) (counts c)"
proof -
  define F :: "nat option \<Rightarrow> 'z xstate_scheme \<Rightarrow> ('z xstate_scheme, 'a) outcome" where "F p = (case p of None \<Rightarrow> (\<lambda>s. Panic ''sleep'') | Some p \<Rightarrow>
      bind (if lk \<noteq> PtableLock then bind (acquire PtableLock) (\<lambda>_. release lk) else ret ())
        (\<lambda>_. bind (modify (upd_proc p (\<lambda>q. q\<lparr>p_chan := Some ch, p_state := SLEEPING\<rparr>))) (\<lambda>_. sched)))"
    for p
  have "sleep ch lk = (\<lambda>s. F (curproc s) s)"
    by (simp add: fun_eq_iff sleep_def F_def split: option.split)
  moreover have "keeps (F p) (counts c)" for p
    by (cases p) (auto intro!: counter_keeps simp: F_def keeps_def [of "\<lambda>s. Panic e" for e] simp del: bind_prims)
  ultimately show ?thesis using keeps_state [of F "counts c" curproc] by simp
qed

lemma keeps_acquiresleep [counter_keeps]:
  "(\<And>f s. counts c s \<Longrightarrow> counts c (upd f s)) \<Longrightarrow> keeps (acquiresleep a get upd) (counts c)"
  by (auto simp: acquiresleep_def intro!: counter_keeps)

lemma keeps_releasesleep [counter_keeps]:
  "(\<And>f s. counts c s \<Longrightarrow> counts c (upd f s)) \<Longrightarrow> keeps (releasesleep a upd) (counts c)"
  by (auto simp: releasesleep_def wakeup_def intro!: counter_keeps)

lemma keeps_holdingsleep [counter_keeps]: "keeps (holdingsleep a get) (counts c)"
  by (auto simp: holdingsleep_def intro!: counter_keeps)

lemma keeps_exit_locked [counter_keeps]: "keeps (exit_locked i) (counts c)"
  by (auto simp: exit_locked_def intro!: counter_keeps)

lemma keeps_user_read [counter_keeps]: "keeps (user_read a n) (counts c)"
  unfolding user_read_def by (rule keeps_with_proc) (simp add: keeps_def Let_def)

lemma keeps_user_write [counter_keeps]: "keeps (user_write a bs) (counts c)"
  unfolding user_write_def by (rule keeps_with_proc) (simp add: keeps_def Let_def)

text \<open>A device switch whose functions leave the counter alone.\<close>

definition dev_keeps :: "'z xstate_scheme devsw \<Rightarrow> uint \<Rightarrow> bool" where
  "dev_keeps dsw c \<longleftrightarrow> (\<forall>m rd ip n. dev_read dsw m = Some rd \<longrightarrow> keeps (rd ip n) (counts c))
     \<and> (\<forall>m wr ip d n. dev_write dsw m = Some wr \<longrightarrow> keeps (wr ip d n) (counts c))"

lemma keeps_dev_read: "dev_keeps dsw c \<Longrightarrow> keeps (case dev_read dsw m of None \<Rightarrow> ret x | Some rd \<Rightarrow> rd ip n) (counts c)"
  by (auto simp: dev_keeps_def split: option.split)

lemma keeps_dev_write: "dev_keeps dsw c \<Longrightarrow> keeps (case dev_write dsw m of None \<Rightarrow> ret x | Some wr \<Rightarrow> wr ip d n) (counts c)"
  by (auto simp: dev_keeps_def split: option.split)

lemma keeps_wakeup [counter_keeps]: "keeps (wakeup a) (counts c)"
  by (auto simp: wakeup_def intro!: counter_keeps)

subsection \<open>The buffer cache and the log\<close>

lemma keeps_buf_acquire [counter_keeps]: "keeps (buf_acquire a) (counts c)"
  by (auto simp: buf_acquire_def intro!: counter_keeps)

lemma keeps_buf_release [counter_keeps]: "keeps (buf_release a) (counts c)"
  by (auto simp: buf_release_def intro!: counter_keeps)

lemma keeps_buf_holding [counter_keeps]: "keeps (buf_holding a) (counts c)"
  by (auto simp: buf_holding_def intro!: counter_keeps)

lemma keeps_iderw [counter_keeps]: "keeps (iderw a) (counts c)"
  by (auto simp: iderw_def intro!: counter_keeps)

lemma keeps_bget [counter_keeps]: "keeps (bget a b) (counts c)"
  by (auto simp: bget_def intro!: counter_keeps)

lemma keeps_bread [counter_keeps]: "keeps (bread a b) (counts c)"
  by (auto simp: bread_def intro!: counter_keeps)

lemma keeps_bwrite [counter_keeps]: "keeps (bwrite a) (counts c)"
  by (auto simp: bwrite_def intro!: counter_keeps)

lemma keeps_brelse [counter_keeps]: "keeps (brelse a) (counts c)"
  by (auto simp: brelse_def intro!: counter_keeps)

lemma keeps_install_trans [counter_keeps]: "keeps install_trans (counts c)"
  by (auto simp: install_trans_def intro!: counter_keeps)

lemma keeps_write_head [counter_keeps]: "keeps write_head (counts c)"
  by (auto simp: write_head_def intro!: counter_keeps)

lemma keeps_begin_op [counter_keeps]: "keeps begin_op (counts c)"
  by (auto simp: begin_op_def intro!: counter_keeps)

lemma keeps_write_log [counter_keeps]: "keeps write_log (counts c)"
  by (auto simp: write_log_def intro!: counter_keeps)

lemma keeps_commit [counter_keeps]: "keeps commit (counts c)"
  by (auto simp: commit_def intro!: counter_keeps)

lemma keeps_end_op [counter_keeps]: "keeps end_op (counts c)"
  by (auto simp: end_op_def intro!: counter_keeps)

lemma keeps_log_write [counter_keeps]: "keeps (log_write a) (counts c)"
  by (auto simp: log_write_def intro!: counter_keeps)

subsection \<open>Files\<close>

lemma keeps_bzero [counter_keeps]: "keeps (bzero a b) (counts c)"
  by (auto simp: bzero_def intro!: counter_keeps)

lemma keeps_balloc [counter_keeps]: "keeps (balloc a) (counts c)"
  by (auto simp: balloc_def intro!: counter_keeps)

lemma keeps_bfree [counter_keeps]: "keeps (bfree a b) (counts c)"
  by (auto simp: bfree_def intro!: counter_keeps)

lemma keeps_iget [counter_keeps]: "keeps (iget a b) (counts c)"
  by (auto simp: iget_def intro!: counter_keeps)

lemma keeps_ialloc [counter_keeps]: "keeps (ialloc a b) (counts c)"
  by (auto simp: ialloc_def intro!: counter_keeps)

lemma keeps_iupdate [counter_keeps]: "keeps (iupdate a) (counts c)"
  by (auto simp: iupdate_def intro!: counter_keeps)

lemma keeps_idup [counter_keeps]: "keeps (idup a) (counts c)"
  by (auto simp: idup_def intro!: counter_keeps)

lemma keeps_ino_acquire [counter_keeps]: "keeps (ino_acquire a) (counts c)"
  by (auto simp: ino_acquire_def intro!: counter_keeps)

lemma keeps_ino_release [counter_keeps]: "keeps (ino_release a) (counts c)"
  by (auto simp: ino_release_def intro!: counter_keeps)

lemma keeps_ino_holding [counter_keeps]: "keeps (ino_holding a) (counts c)"
  by (auto simp: ino_holding_def intro!: counter_keeps)

lemma keeps_ilock [counter_keeps]: "keeps (ilock a) (counts c)"
  by (auto simp: ilock_def intro!: counter_keeps)

lemma keeps_iunlock [counter_keeps]: "keeps (iunlock a) (counts c)"
  by (auto simp: iunlock_def intro!: counter_keeps)

lemma keeps_bmap [counter_keeps]: "keeps (bmap a b) (counts c)"
  by (auto simp: bmap_def intro!: counter_keeps)

lemma keeps_itrunc [counter_keeps]: "keeps (itrunc a) (counts c)"
  by (auto simp: itrunc_def intro!: counter_keeps)

lemma keeps_iput [counter_keeps]: "keeps (iput a) (counts c)"
  by (auto simp: iput_def intro!: counter_keeps)

lemma keeps_iunlockput [counter_keeps]: "keeps (iunlockput a) (counts c)"
  by (auto simp: iunlockput_def intro!: counter_keeps)

lemma keeps_readi_loop [counter_keeps]: "keeps (readi_loop a b d) (counts c)"
proof (induction a b d rule: readi_loop.induct)
  case (1 a b d)
  then show ?case by (subst readi_loop.simps) (auto intro!: counter_keeps)
qed

lemma keeps_readi [counter_keeps]: "dev_keeps dsw c \<Longrightarrow> keeps (readi dsw a b d) (counts c)"
  by (auto simp: readi_def intro!: counter_keeps keeps_dev_read keeps_dev_write)

lemma keeps_writei_loop [counter_keeps]: "keeps (writei_loop a b d) (counts c)"
proof (induction a b d rule: writei_loop.induct)
  case (1 a b d)
  then show ?case by (subst writei_loop.simps) (auto intro!: counter_keeps)
qed

lemma keeps_writei [counter_keeps]: "dev_keeps dsw c \<Longrightarrow> keeps (writei dsw a b d) (counts c)"
  by (auto simp: writei_def intro!: counter_keeps keeps_dev_read keeps_dev_write)

lemma keeps_dirlookup [counter_keeps]: "dev_keeps dsw c \<Longrightarrow> keeps (dirlookup dsw a b) (counts c)"
  by (auto simp: dirlookup_def intro!: counter_keeps)

lemma keeps_dirlink [counter_keeps]: "dev_keeps dsw c \<Longrightarrow> keeps (dirlink dsw a b d) (counts c)"
  by (auto simp: dirlink_def intro!: counter_keeps)

lemma keeps_namex_loop [counter_keeps]: "dev_keeps dsw c \<Longrightarrow> keeps (namex_loop dsw a b d e) (counts c)"
proof (induction dsw a b d e rule: namex_loop.induct)
  case (1 dsw a b d e)
  from "1.prems" show ?case by (subst namex_loop.simps) (auto intro!: counter_keeps intro: "1.IH")
qed

lemma keeps_namex [counter_keeps]: "dev_keeps dsw c \<Longrightarrow> keeps (namex dsw a b d) (counts c)"
  by (auto simp: namex_def intro!: counter_keeps)

lemma keeps_namei [counter_keeps]: "dev_keeps dsw c \<Longrightarrow> keeps (namei dsw a) (counts c)"
  by (auto simp: namei_def intro!: counter_keeps)

lemma keeps_nameiparent [counter_keeps]: "dev_keeps dsw c \<Longrightarrow> keeps (nameiparent dsw a b) (counts c)"
  by (auto simp: nameiparent_def intro!: counter_keeps)

subsection \<open>Memory\<close>

lemma keeps_kfree [counter_keeps]: "keeps (kfree a) (counts c)"
  by (auto simp: kfree_def intro!: counter_keeps)

lemma keeps_kalloc [counter_keeps]: "keeps kalloc (counts c)"
  by (auto simp: kalloc_def intro!: counter_keeps)

lemma keeps_walkpgdir [counter_keeps]: "keeps (walkpgdir a b d) (counts c)"
  by (auto simp: walkpgdir_def intro!: counter_keeps)

lemma keeps_mappages [counter_keeps]: "keeps (mappages a b d e f) (counts c)"
  by (auto simp: mappages_def intro!: counter_keeps)

lemma keeps_dealloc_loop [counter_keeps]: "keeps (dealloc_loop a b d) (counts c)"
proof (induction a b d rule: dealloc_loop.induct)
  case (1 a b d)
  then show ?case by (subst dealloc_loop.simps) (auto intro!: counter_keeps)
qed

lemma keeps_deallocuvm [counter_keeps]: "keeps (deallocuvm a b d) (counts c)"
  by (auto simp: deallocuvm_def intro!: counter_keeps)

lemma keeps_freevm [counter_keeps]: "keeps (freevm a) (counts c)"
  by (auto simp: freevm_def intro!: counter_keeps)

lemma keeps_setupkvm [counter_keeps]: "keeps setupkvm (counts c)"
  by (auto simp: setupkvm_def intro!: counter_keeps)

lemma keeps_switchkvm [counter_keeps]: "keeps switchkvm (counts c)"
  by (auto simp: switchkvm_def intro!: counter_keeps)

lemma keeps_switchuvm [counter_keeps]: "keeps (switchuvm a) (counts c)"
  by (auto simp: switchuvm_def intro!: counter_keeps)

lemma keeps_loaduvm [counter_keeps]: "dev_keeps dsw c \<Longrightarrow> keeps (loaduvm dsw a b d e f) (counts c)"
  by (auto simp: loaduvm_def intro!: counter_keeps)

lemma keeps_allocuvm [counter_keeps]: "keeps (allocuvm a b d) (counts c)"
  by (auto simp: allocuvm_def intro!: counter_keeps)

lemma keeps_clearpteu [counter_keeps]: "keeps (clearpteu a b) (counts c)"
  by (auto simp: clearpteu_def intro!: counter_keeps)

lemma keeps_copyuvm [counter_keeps]: "keeps (copyuvm a b) (counts c)"
  by (auto simp: copyuvm_def intro!: counter_keeps)

lemma keeps_uva2ka [counter_keeps]: "keeps (uva2ka a b) (counts c)"
  by (auto simp: uva2ka_def intro!: counter_keeps)

lemma keeps_copyout [counter_keeps]: "keeps (copyout a b d) (counts c)"
proof (induction a b d rule: copyout.induct)
  case (1 a b d)
  then show ?case by (subst copyout.simps) (auto intro!: counter_keeps)
qed

subsection \<open>Pipes and open files\<close>

lemma keeps_pipeclose [counter_keeps]: "keeps (pipeclose a b) (counts c)"
  by (auto simp: pipeclose_def intro!: counter_keeps)

lemma keeps_pipewrite_loop [counter_keeps]: "keeps (pipewrite_loop a b d) (counts c)"
  by (induction b arbitrary: d) (auto intro!: counter_keeps simp del: bind_prims)

lemma keeps_pipewrite [counter_keeps]: "keeps (pipewrite a b) (counts c)"
  by (auto simp: pipewrite_def intro!: counter_keeps)

lemma keeps_piperead_copy [counter_keeps]: "keeps (piperead_copy a b) (counts c)"
proof (induction b)
  case (Suc n)
  then show ?case unfolding piperead_copy.simps by (intro counter_keeps) simp_all
qed simp

lemma keeps_piperead_locked [counter_keeps]: "keeps (piperead_locked a b) (counts c)"
  by (auto simp: piperead_locked_def intro!: counter_keeps)

lemma keeps_piperead [counter_keeps]: "keeps (piperead a b) (counts c)"
  by (auto simp: piperead_def intro!: counter_keeps)

lemma keeps_filealloc [counter_keeps]: "keeps filealloc (counts c)"
  by (auto simp: filealloc_def intro!: counter_keeps)

lemma keeps_filedup [counter_keeps]: "keeps (filedup a) (counts c)"
  by (auto simp: filedup_def intro!: counter_keeps)

lemma keeps_fileclose [counter_keeps]: "keeps (fileclose a) (counts c)"
  by (auto simp: fileclose_def intro!: counter_keeps)

lemma keeps_filestat [counter_keeps]: "keeps (filestat a) (counts c)"
  by (auto simp: filestat_def intro!: counter_keeps)

lemma keeps_fileread [counter_keeps]: "dev_keeps dsw c \<Longrightarrow> keeps (fileread dsw a b) (counts c)"
  by (auto simp: fileread_def intro!: counter_keeps)

lemma keeps_filewrite_loop [counter_keeps]: "dev_keeps dsw c \<Longrightarrow> keeps (filewrite_loop dsw a b d) (counts c)"
proof (induction dsw a b d rule: filewrite_loop.induct)
  case (1 dsw a b d)
  then show ?case by (subst filewrite_loop.simps) (auto intro!: counter_keeps)
qed

lemma keeps_filewrite [counter_keeps]: "dev_keeps dsw c \<Longrightarrow> keeps (filewrite dsw a b) (counts c)"
  by (auto simp: filewrite_def intro!: counter_keeps)

lemma keeps_close_opt [counter_keeps]: "keeps (close_opt a) (counts c)"
  by (auto simp: close_opt_def intro!: counter_keeps)

lemma keeps_pipealloc_bad [counter_keeps]: "keeps (pipealloc_bad a b d) (counts c)"
  by (auto simp: pipealloc_bad_def intro!: counter_keeps)

lemma keeps_pipealloc [counter_keeps]: "keeps pipealloc (counts c)"
  by (auto simp: pipealloc_def intro!: counter_keeps)

subsection \<open>Processes\<close>

lemma keeps_exec_bad [counter_keeps]: "keeps (exec_bad a b) (counts c)"
  by (auto simp: exec_bad_def intro!: counter_keeps)

lemma keeps_exec_load [counter_keeps]: "dev_keeps dsw c \<Longrightarrow> keeps (exec_load dsw a b d e f) (counts c)"
  by (induction e arbitrary: d f) (auto intro!: counter_keeps simp del: bind_prims)

lemma keeps_exec_args [counter_keeps]: "keeps (exec_args a b d e f) (counts c)"
  by (induction a b d e f rule: exec_args.induct) (auto intro!: counter_keeps)

lemma keeps_exec_commit [counter_keeps]: "keeps (exec_commit a b d e f) (counts c)"
  by (auto simp: exec_commit_def intro!: counter_keeps)

lemma keeps_exec_stack [counter_keeps]: "keeps (exec_stack a b d e f) (counts c)"
  by (auto simp: exec_stack_def intro!: counter_keeps)

lemma keeps_exec [counter_keeps]: "dev_keeps dsw c \<Longrightarrow> keeps (exec dsw a b) (counts c)"
  by (auto simp: exec_def intro!: counter_keeps)

lemma keeps_allocproc [counter_keeps]: "keeps (allocproc a) (counts c)"
  by (auto simp: allocproc_def intro!: counter_keeps)

lemma keeps_growproc [counter_keeps]: "keeps (growproc a) (counts c)"
  by (auto simp: growproc_def intro!: counter_keeps)

lemma keeps_fork [counter_keeps]: "keeps (fork a) (counts c)"
  by (auto simp: fork_def intro!: counter_keeps)

lemma keeps_exit [counter_keeps]: "keeps exit (counts c)"
  by (auto simp: exit_def intro!: counter_keeps)

lemma keeps_reap [counter_keeps]: "keeps (reap a) (counts c)"
  by (auto simp: reap_def intro!: counter_keeps)

lemma keeps_wait_locked [counter_keeps]: "keeps (wait_locked a) (counts c)"
  by (auto simp: wait_locked_def intro!: counter_keeps)

lemma keeps_wait [counter_keeps]: "keeps wait (counts c)"
  by (auto simp: wait_def intro!: counter_keeps)

lemma keeps_kill [counter_keeps]: "keeps (kill a) (counts c)"
  by (auto simp: kill_def intro!: counter_keeps)

subsection \<open>System calls\<close>

lemma keeps_fetchint [counter_keeps]: "keeps (fetchint a) (counts c)"
  by (auto simp: fetchint_def intro!: counter_keeps)

lemma keeps_fetchstr_loop [counter_keeps]: "keeps (fetchstr_loop a b) (counts c)"
  by (induction b arbitrary: a) (auto intro!: counter_keeps simp del: bind_prims)

lemma keeps_fetchstr [counter_keeps]: "keeps (fetchstr a) (counts c)"
  by (auto simp: fetchstr_def intro!: counter_keeps)

lemma keeps_argint [counter_keeps]: "keeps (argint a) (counts c)"
  by (auto simp: argint_def intro!: counter_keeps)

lemma keeps_argptr [counter_keeps]: "keeps (argptr a b) (counts c)"
  by (auto simp: argptr_def intro!: counter_keeps)

lemma keeps_argstr [counter_keeps]: "keeps (argstr a) (counts c)"
  by (auto simp: argstr_def intro!: counter_keeps)

lemma keeps_argfd [counter_keeps]: "keeps (argfd a) (counts c)"
  by (auto simp: argfd_def intro!: counter_keeps)

lemma keeps_fdalloc [counter_keeps]: "keeps (fdalloc a) (counts c)"
  by (auto simp: fdalloc_def intro!: counter_keeps)

lemma keeps_sys_dup [counter_keeps]: "keeps sys_dup (counts c)"
  by (auto simp: sys_dup_def intro!: counter_keeps)

lemma keeps_sys_getreadcount [counter_keeps]: "keeps sys_getreadcount (counts c)"
  by (auto simp: sys_getreadcount_def intro!: counter_keeps)

lemma keeps_sys_write [counter_keeps]: "dev_keeps dsw c \<Longrightarrow> keeps (sys_write dsw) (counts c)"
  by (auto simp: sys_write_def intro!: counter_keeps)

lemma keeps_sys_close [counter_keeps]: "keeps sys_close (counts c)"
  by (auto simp: sys_close_def intro!: counter_keeps)

lemma keeps_sys_fstat [counter_keeps]: "keeps sys_fstat (counts c)"
  by (auto simp: sys_fstat_def intro!: counter_keeps)

lemma keeps_fail_op [counter_keeps]: "keeps fail_op (counts c)"
  by (auto simp: fail_op_def intro!: counter_keeps)

lemma keeps_sys_link_bad [counter_keeps]: "keeps (sys_link_bad a) (counts c)"
  by (auto simp: sys_link_bad_def intro!: counter_keeps)

lemma keeps_link [counter_keeps]: "dev_keeps dsw c \<Longrightarrow> keeps (link dsw a b) (counts c)"
  by (auto simp: link_def intro!: counter_keeps)

lemma keeps_sys_link [counter_keeps]: "dev_keeps dsw c \<Longrightarrow> keeps (sys_link dsw) (counts c)"
  by (auto simp: sys_link_def intro!: counter_keeps)

lemma keeps_isdirempty [counter_keeps]: "dev_keeps dsw c \<Longrightarrow> keeps (isdirempty dsw a) (counts c)"
  by (auto simp: isdirempty_def intro!: counter_keeps)

lemma keeps_unlink_bad [counter_keeps]: "keeps (unlink_bad a) (counts c)"
  by (auto simp: unlink_bad_def intro!: counter_keeps)

lemma keeps_unlink [counter_keeps]: "dev_keeps dsw c \<Longrightarrow> keeps (unlink dsw a) (counts c)"
  by (auto simp: unlink_def intro!: counter_keeps)

lemma keeps_sys_unlink [counter_keeps]: "dev_keeps dsw c \<Longrightarrow> keeps (sys_unlink dsw) (counts c)"
  by (auto simp: sys_unlink_def intro!: counter_keeps)

lemma keeps_create_new [counter_keeps]: "dev_keeps dsw c \<Longrightarrow> keeps (create_new dsw a b d e f) (counts c)"
  by (auto simp: create_new_def intro!: counter_keeps)

lemma keeps_create [counter_keeps]: "dev_keeps dsw c \<Longrightarrow> keeps (create dsw a b d e) (counts c)"
  by (auto simp: create_def intro!: counter_keeps)

lemma keeps_open_inode [counter_keeps]: "dev_keeps dsw c \<Longrightarrow> keeps (open_inode dsw a b) (counts c)"
  by (auto simp: open_inode_def intro!: counter_keeps)

lemma keeps_open_file [counter_keeps]: "dev_keeps dsw c \<Longrightarrow> keeps (open_file dsw a b) (counts c)"
  by (auto simp: open_file_def intro!: counter_keeps)

lemma keeps_sys_open [counter_keeps]: "dev_keeps dsw c \<Longrightarrow> keeps (sys_open dsw) (counts c)"
  by (auto simp: sys_open_def intro!: counter_keeps)

lemma keeps_sys_mkdir [counter_keeps]: "dev_keeps dsw c \<Longrightarrow> keeps (sys_mkdir dsw) (counts c)"
  by (auto simp: sys_mkdir_def intro!: counter_keeps)

lemma keeps_sys_mknod [counter_keeps]: "dev_keeps dsw c \<Longrightarrow> keeps (sys_mknod dsw) (counts c)"
  by (auto simp: sys_mknod_def intro!: counter_keeps)

lemma keeps_sys_chdir [counter_keeps]: "dev_keeps dsw c \<Longrightarrow> keeps (sys_chdir dsw) (counts c)"
  by (auto simp: sys_chdir_def intro!: counter_keeps)

lemma keeps_exec_argv [counter_keeps]: "keeps (exec_argv a b d) (counts c)"
  by (induction d arbitrary: b) (auto intro!: counter_keeps simp del: bind_prims)

lemma keeps_sys_exec [counter_keeps]: "dev_keeps dsw c \<Longrightarrow> keeps (sys_exec dsw) (counts c)"
  by (auto simp: sys_exec_def intro!: counter_keeps)

lemma keeps_sys_pipe [counter_keeps]: "keeps sys_pipe (counts c)"
  by (auto simp: sys_pipe_def intro!: counter_keeps)

lemma keeps_sys_fork [counter_keeps]: "keeps (sys_fork a) (counts c)"
  by (auto simp: sys_fork_def intro!: counter_keeps)

lemma keeps_sys_exit [counter_keeps]: "keeps sys_exit (counts c)"
  by (auto simp: sys_exit_def intro!: counter_keeps)

lemma keeps_sys_wait [counter_keeps]: "keeps sys_wait (counts c)"
  by (auto simp: sys_wait_def intro!: counter_keeps)

lemma keeps_sys_kill [counter_keeps]: "keeps sys_kill (counts c)"
  by (auto simp: sys_kill_def intro!: counter_keeps)

lemma keeps_sys_getpid [counter_keeps]: "keeps sys_getpid (counts c)"
  by (auto simp: sys_getpid_def intro!: counter_keeps)

lemma keeps_sys_sbrk [counter_keeps]: "keeps sys_sbrk (counts c)"
  by (auto simp: sys_sbrk_def intro!: counter_keeps)

lemma keeps_sleep_locked [counter_keeps]: "keeps (sleep_locked a b) (counts c)"
  by (auto simp: sleep_locked_def intro!: counter_keeps)

lemma keeps_sys_sleep [counter_keeps]: "keeps sys_sleep (counts c)"
  by (auto simp: sys_sleep_def intro!: counter_keeps)

lemma keeps_sys_uptime [counter_keeps]: "keeps sys_uptime (counts c)"
  by (auto simp: sys_uptime_def intro!: counter_keeps)

subsection \<open>The console\<close>

lemma keeps_uartputc [counter_keeps]: "keeps (uartputc a) (counts c)"
  by (auto simp: uartputc_def intro!: counter_keeps)

lemma keeps_cgaputc [counter_keeps]: "keeps (cgaputc a) (counts c)"
  by (auto simp: cgaputc_def intro!: counter_keeps)

lemma keeps_consputc [counter_keeps]: "keeps (consputc a) (counts c)"
  by (auto simp: consputc_def intro!: counter_keeps)

lemma keeps_consputs [counter_keeps]: "keeps (consputs a) (counts c)"
  by (induction a) (auto intro!: counter_keeps simp del: bind_prims)

lemma keeps_consoleread_loop [counter_keeps]: "keeps (consoleread_loop a b d e) (counts c)"
  by (induction e arbitrary: d) (auto intro!: counter_keeps simp del: bind_prims)

lemma keeps_consoleread [counter_keeps]: "keeps (consoleread a b) (counts c)"
  by (auto simp: consoleread_def intro!: counter_keeps)

lemma keeps_consolewrite [counter_keeps]: "keeps (consolewrite a b d) (counts c)"
  by (auto simp: consolewrite_def intro!: counter_keeps)

end
