(* ===== verification/Syscall_Claims.thy ===== *)
theory Syscall_Claims
  imports Readcount Pipe_Claims
begin

text \<open>
  The system call boundary: the read counter that the project adds, the checks on the pointers that
  user programs pass, and the descriptor table.
\<close>

subsection \<open>The read counter\<close>

lemma keeps_consoledev: "dev_keeps consoledev c"
  by (auto simp: dev_keeps_def consoledev_def intro: keeps_consoleread keeps_consolewrite split: if_splits)

lemma keeps_result:
  "keeps m (counts c) \<Longrightarrow> counts c s \<Longrightarrow> m s = Ok x t \<or> m s = Switched t \<Longrightarrow> numberOfReadCalls t = c"
  by (auto simp: counts_def dest: keeps_Ok keeps_Switched)

text \<open>\<open>sys_read\<close> after it counted.\<close>

definition sys_read_rest :: "'z xstate_scheme devsw \<Rightarrow> ('z, int) xop" where
  "sys_read_rest dsw = bind (argfd 0) (\<lambda>a.
    case a of
       None \<Rightarrow> ret (- 1)
     | Some (_, f) \<Rightarrow> bind (argint 2) (\<lambda>n.
       case n of
           None \<Rightarrow> ret (- 1)
         | Some n \<Rightarrow> bind (argptr 1 n) (\<lambda>p.
           case p of
               None \<Rightarrow> ret (- 1)
             | Some p \<Rightarrow> bind (fileread dsw f (nat n)) (\<lambda>(r, d).
               bind (user_write p d) (\<lambda>_.
               ret r)))))"

lemma sys_read_split:
  "sys_read dsw s = sys_read_rest dsw (s\<lparr>numberOfReadCalls := numberOfReadCalls s + 1\<rparr>)"
  by (simp only: sys_read_def sys_read_rest_def bind_prims)

lemma keeps_sys_read_rest: "dev_keeps dsw c \<Longrightarrow> keeps (sys_read_rest dsw) (counts c)"
  by (auto simp: sys_read_rest_def intro!: counter_keeps)

lemma keeps_table:
  "dev_keeps dsw c \<Longrightarrow> n \<noteq> 5 \<Longrightarrow> syscall_table dsw fr n = Some f \<Longrightarrow> keeps f (counts c)"
  by (auto simp: syscall_table_def intro!: counter_keeps split: if_splits)

lemma table_read: "syscall_table dsw fr 5 = Some (sys_read dsw)"
  by (simp add: syscall_table_def)

definition sysnum :: "nat \<Rightarrow> 'z kern_scheme \<Rightarrow> uint" where
  "sysnum i s = tf_eax (p_tf (procs s ! i))"

lemma sint_5: "sint (w :: uint) = 5 \<longleftrightarrow> w = 5"
proof
  assume "sint w = 5"
  then have "word_of_int (sint w) = (word_of_int 5 :: uint)" by simp
  then show "w = 5" by simp
qed simp

lemma sint_22: "sint (22 :: uint) = 22"
  by simp

lemma syscall_run:
  assumes "curproc s = Some i"
  shows "syscall dsw fr s =
    (case (if sint (sysnum i s) > 0 then syscall_table dsw fr (nat (sint (sysnum i s))) else None) of
       Some f \<Rightarrow> bind f (\<lambda>r. modify (set_eax i r)) | None \<Rightarrow> unknown_call i (sint (sysnum i s))) s"
  unfolding sysnum_def using assms by (simp add: syscall_def)

lemma syscall_counts:
  assumes p: "curproc s = Some i" and d: "\<And>c. dev_keeps dsw c"
    and r: "syscall dsw fr s = Ok () t \<or> syscall dsw fr s = Switched t"
  shows "numberOfReadCalls t = numberOfReadCalls s + (if sysnum i s = 5 then 1 else 0)"
proof (cases "sysnum i s = 5")
  case True
  let ?s = "s\<lparr>numberOfReadCalls := numberOfReadCalls s + 1\<rparr>"
  have "syscall dsw fr s = bind (sys_read dsw) (\<lambda>r. modify (set_eax i r)) s"
    by (simp add: syscall_run [OF p] True table_read)
  also have "\<dots> = bind (sys_read_rest dsw) (\<lambda>r. modify (set_eax i r)) ?s"
    by (simp only: bind_def sys_read_split)
  finally have e: "syscall dsw fr s = bind (sys_read_rest dsw) (\<lambda>r. modify (set_eax i r)) ?s" .
  have "keeps (bind (sys_read_rest dsw) (\<lambda>r. modify (set_eax i r))) (counts (numberOfReadCalls s + 1))"
    by (intro keeps_bind keeps_sys_read_rest d keeps_modify) simp
  from keeps_result [OF this _ r [unfolded e]] True show ?thesis by (simp add: counts_def)
next
  case False
  then have n: "nat (sint (sysnum i s)) \<noteq> 5" using sint_5 [of "sysnum i s"] by auto
  let ?f = "if sint (sysnum i s) > 0 then syscall_table dsw fr (nat (sint (sysnum i s))) else None"
  have "keeps (case ?f of Some f \<Rightarrow> bind f (\<lambda>r. modify (set_eax i r)) | None \<Rightarrow> unknown_call i (sint (sysnum i s)))
      (counts (numberOfReadCalls s))"
    by (rule keeps_option) (auto intro!: counter_keeps intro: keeps_table [OF d n] simp: unknown_call_def split: if_splits)
  from keeps_result [OF this _ r [unfolded syscall_run [OF p]]] False show ?thesis by (simp add: counts_def)
qed

subsection \<open>Checks on user pointers\<close>

lemma user_read_Ok: "user_read a n s = Ok d t \<Longrightarrow> t = s \<and> length d = n"
  by (auto simp: user_read_def with_proc_Ok_iff Let_def split: if_splits)

lemma argint_Ok: "argint n s = Ok r t \<Longrightarrow> t = s"
  by (auto simp: argint_def fetchint_def with_proc_Ok_iff run_iff dest: user_read_Ok split: if_splits)

lemma unat_plus_nowrap:
  fixes a b m :: uint
  assumes "a < m" and "a + b \<le> m" and "unat b < 2 ^ 31" and "unat m \<le> 2 ^ 31"
  shows "unat a + unat b \<le> unat m"
proof -
  have "unat a + unat b < 2 ^ 32" using assms by (simp add: word_less_nat_alt)
  then have "unat (a + b) = unat a + unat b" by (simp add: unat_word_ariths)
  then show ?thesis using assms(2) by (simp add: word_le_nat_alt)
qed

lemma argptr_bounds:
  assumes "argptr n sz s = Ok (Some p) t" and "curproc s = Some i"
    and "p_sz (procs s ! i) \<le> KERNBASE" and "sz < 2 ^ 31"
  shows "0 \<le> sz \<and> unat p + nat sz \<le> unat (p_sz (procs s ! i)) \<and> t = s"
proof -
  obtain y where y: "argint n s = Ok y s"
    and r: "(case y of None \<Rightarrow> ret None | Some a \<Rightarrow>
         if sz < 0 \<or> word_of_int a \<ge> p_sz (procs s ! i) \<or> word_of_int a + word_of_int sz > p_sz (procs s ! i)
         then ret None else ret (Some (word_of_int a))) s = Ok (Some p) t"
    using assms(1) argint_Ok [of n s] by (auto simp: argptr_def with_proc_Some [OF assms(2)] run_iff)
  from r have sz: "0 \<le> sz" and lt: "p < p_sz (procs s ! i)" "p + word_of_int sz \<le> p_sz (procs s ! i)"
    and t: "t = s" by (auto split: option.splits if_splits simp: not_le not_less)
  have n: "unat (word_of_int sz :: uint) = nat sz"
    using sz assms(4) by (simp add: unsigned_of_int take_bit_int_eq_self)
  have "unat p + unat (word_of_int sz :: uint) \<le> unat (p_sz (procs s ! i))"
    by (rule unat_plus_nowrap [OF lt])
      (use n sz assms(3,4) in \<open>simp_all add: word_le_nat_alt KERNBASE_def nat_less_iff\<close>)
  then show ?thesis using n sz t by simp
qed

text \<open>The byte at an address of the current process, and the bytes from it on.\<close>

definition user_mem :: "uint \<Rightarrow> 'z vstate_scheme \<Rightarrow> uchar option" where
  "user_mem a s = (case curproc s of None \<Rightarrow> None
     | Some i \<Rightarrow> map_option (\<lambda>x. kmem s (unat x)) (user_addr (p_pgdir (procs s ! i)) a s))"

primrec user_has :: "uint \<Rightarrow> bytes \<Rightarrow> 'z vstate_scheme \<Rightarrow> bool" where
  "user_has a [] s \<longleftrightarrow> True"
| "user_has a (c # cs) s \<longleftrightarrow> user_mem a s = Some c \<and> user_has (a + 1) cs s"

lemma user_read_byte:
  assumes "curproc s = Some i"
  shows "user_read a 1 s = (case user_mem a s of None \<Rightarrow> Fault | Some c \<Rightarrow> Ok [c] s)"
  using assms by (auto simp: user_read_def user_mem_def Let_def split: option.split)

lemma fetchstr_loop_step:
  assumes "curproc s = Some i"
  shows "fetchstr_loop a (Suc n) s = (case user_mem a s of None \<Rightarrow> Fault
    | Some c \<Rightarrow> if c = 0 then Ok (Some []) s else bind (fetchstr_loop (a + 1) n) (\<lambda>r. ret (map_option ((#) c) r)) s)"
  using user_read_byte [OF assms, of a] by (cases "user_mem a s") (simp_all add: bind_def)

lemma fetchstr_loop_Some:
  assumes "curproc s = Some i"
  shows "fetchstr_loop a n s = Ok (Some xs) t \<longleftrightarrow> t = s \<and> length xs < n \<and> 0 \<notin> set xs \<and> user_has a (xs @ [0]) s"
proof (induction n arbitrary: a xs)
  case (Suc n)
  show ?case
  proof (cases "user_mem a s")
    case None
    then show ?thesis by (cases xs) (simp_all add: fetchstr_loop_step [OF assms] del: fetchstr_loop.simps)
  next
    case (Some c)
    then show ?thesis using Suc.IH
      by (cases xs) (auto simp: fetchstr_loop_step [OF assms] bind_Ok_iff simp del: fetchstr_loop.simps)
  qed
qed simp

lemma fetchstr_loop_None:
  assumes "curproc s = Some i"
  shows "fetchstr_loop a n s = Ok None t \<longleftrightarrow>
    t = s \<and> (\<forall>k < n. \<exists>c. c \<noteq> 0 \<and> user_mem (a + word_of_nat k) s = Some c)"
proof (induction n arbitrary: a)
  case (Suc n)
  have "(\<forall>k < Suc n. \<exists>c. c \<noteq> 0 \<and> user_mem (a + word_of_nat k) s = Some c) \<longleftrightarrow>
    (\<exists>c. c \<noteq> 0 \<and> user_mem a s = Some c) \<and> (\<forall>k < n. \<exists>c. c \<noteq> 0 \<and> user_mem (a + 1 + word_of_nat k) s = Some c)"
    by (simp add: All_less_Suc2 add.assoc)
  then show ?case using Suc.IH
    by (cases "user_mem a s") (auto simp: fetchstr_loop_step [OF assms] bind_Ok_iff simp del: fetchstr_loop.simps)
qed auto

lemma fetchstr_run:
  assumes "curproc s = Some i"
  shows "fetchstr a s = (if p_sz (procs s ! i) \<le> a then Ok None s
    else fetchstr_loop a (unat (p_sz (procs s ! i)) - unat a) s)"
  using assms by (simp add: fetchstr_def unat_sub not_le)

subsection \<open>The descriptor table\<close>

lemma fdalloc_run:
  assumes "curproc s = Some i" and "i < length (procs s)" and "length (p_ofile (procs s ! i)) = NOFILE"
    and "fd < NOFILE" and "p_ofile (procs s ! i) ! fd = None" and "\<forall>k < fd. p_ofile (procs s ! i) ! k \<noteq> None"
  shows "fdalloc f s = Ok (int fd) (set_ofile i fd (Some f) s)"
proof -
  have "find (\<lambda>fd. p_ofile (procs s ! i) ! fd = None) [0..<NOFILE] = Some fd"
    using assms(4-6) by (simp add: find_upt_Some)
  then show ?thesis using assms(1) by (simp add: fdalloc_def)
qed

subsection \<open>A process whose memory is all ones\<close>

text \<open>Every page directory and page table entry is present, and every user word is \<open>0x01010101\<close>.\<close>

definition ones_demo :: "int \<Rightarrow> uint \<Rightarrow> cstate" where
  "ones_demo pid eax = xstate.extend (vstate.extend (two_pages\<lparr>procs := [zero_proc\<lparr>p_state := RUNNING, p_pid := pid, p_sz := 0x02000000,
      p_tf := zero_tf\<lparr>tf_eax := eax\<rparr>\<rparr>], curproc := Some 0, kmem := (\<lambda>_. 1)\<rparr>)
     (xstate.fields (\<lambda>_. some_pipe) [] 41 0))
     (cstate.fields \<lparr>in_buf = replicate INPUT_BUF 0, in_r = 0, in_w = 0, in_e = 0\<rparr> True False False [] [] 0 0)"

lemma ones_demo_sel [simp]:
  "curproc (ones_demo pid eax) = Some 0" "locks (ones_demo pid eax) = []"
  "procs (ones_demo pid eax) = [zero_proc\<lparr>p_state := RUNNING, p_pid := pid, p_sz := 0x02000000,
      p_tf := zero_tf\<lparr>tf_eax := eax\<rparr>\<rparr>]"
  "kmem (ones_demo pid eax) = (\<lambda>_. 1)" "numberOfReadCalls (ones_demo pid eax) = 41"
  by (simp_all add: ones_demo_def vstate.defs xstate.defs cstate.defs two_pages_def)

lemma ones_user_read:
  "user_read a n (ones_demo pid eax) = Ok (replicate n 1) (ones_demo pid eax)"
proof -
  have l: "load_at p (ones_demo pid eax) = 0x01010101" for p
    by (simp add: load_at_def load32_def)
  have "None \<noteq> user_addr d v (ones_demo pid eax)" for d v
    by (simp add: user_addr_def l PTE_P_def)
  then show ?thesis
    by (simp add: user_read_def Let_def o_def map_replicate_const image_iff del: not_None_eq)
qed

lemma ones_int: "get_int (replicate 4 1) 0 = 0x01010101"
proof -
  have "replicate 4 1 = [1, 1, 1, 1 :: uchar]" by (simp add: numeral_eq_Suc)
  then show ?thesis by (simp only:) (simp add: get_int_def get32_def get16_def)
qed

lemma ones_argint: "argint 1 (ones_demo pid eax) = Ok (Some 0x01010101) (ones_demo pid eax)"
proof -
  show ?thesis
    by (simp add: argint_def fetchint_def ones_user_read ones_int zero_tf_def word_less_nat_alt not_le)
qed

subsection \<open>Properties\<close>

text \<open>C22: The project's read counter counts exactly the \<open>read\<close> calls.  Whatever system call a process
  makes, with whatever arguments, and whether the call returns, fails, exits or goes to sleep, the
  counter goes up by one if the call is \<open>read\<close> (number 5) and stays as it is otherwise.\<close>

theorem counter_counts_reads:
  assumes "curproc s = Some i" and "syscall consoledev fr s = Ok () t \<or> syscall consoledev fr s = Switched t"
  shows "numberOfReadCalls t = numberOfReadCalls s + (if tf_eax (p_tf (procs s ! i)) = 5 then 1 else 0)"
  using syscall_counts [OF assms(1) keeps_consoledev assms(2)] by (simp add: sysnum_def)

lemma counter_counts_reads_witness:
  "\<exists>t. syscall consoledev 0 (ones_demo 1 5) = Ok () t \<and> numberOfReadCalls t = 42"
proof -
  let ?s = "(ones_demo 1 5)\<lparr>numberOfReadCalls := 42\<rparr>"
  have "user_read a n ?s = Ok (replicate n 1) ?s" for a n
  proof -
    have l: "load_at p ?s = 0x01010101" for p by (simp add: load_at_def load32_def)
    have "None \<noteq> user_addr d v ?s" for d v by (simp add: user_addr_def l PTE_P_def)
    then show ?thesis
      by (simp add: user_read_def Let_def o_def map_replicate_const image_iff del: not_None_eq)
  qed
  then have "argint 0 ?s = Ok (Some 0x01010101) ?s"
    by (simp add: argint_def fetchint_def ones_int zero_tf_def word_less_nat_alt not_le)
  then have "argfd 0 ?s = Ok None ?s" by (simp add: argfd_def NOFILE_def)
  then have "syscall consoledev 0 (ones_demo 1 5) = Ok () (set_eax 0 (- 1) ?s)"
    by (simp add: syscall_def syscall_table_def sys_read_def)
  with counter_counts_reads [OF ones_demo_sel(1) disjI1 [OF this]] show ?thesis by simp
qed

text \<open>\<open>getreadcount\<close>, system call 22, returns the counter to the caller and changes nothing else.\<close>

theorem getreadcount_reports:
  assumes "curproc s = Some i" and "i < length (procs s)" and "tf_eax (p_tf (procs s ! i)) = 22"
  shows "syscall dsw fr s = Ok () (set_eax i (sint (numberOfReadCalls s)) s)
    \<and> tf_eax (p_tf (procs (set_eax i (sint (numberOfReadCalls s)) s) ! i)) = numberOfReadCalls s"
proof -
  have "sysnum i s = 22" using assms(3) by (simp add: sysnum_def)
  then have "syscall dsw fr s = Ok () (set_eax i (sint (numberOfReadCalls s)) s)"
    by (simp add: syscall_run [OF assms(1)] syscall_table_def sys_getreadcount_def)
  then show ?thesis using assms(2) by (simp add: set_eax_def upd_proc_def)
qed

lemma getreadcount_reports_witness:
  "\<exists>t. syscall consoledev 0 (ones_demo 1 22) = Ok () t \<and> tf_eax (p_tf (procs t ! 0)) = 41"
  using getreadcount_reports [of "ones_demo 1 22" 0] by fastforce

text \<open>C23: A pointer argument that \<open>argptr\<close> accepts points at \<open>sz\<close> bytes that all lie in the caller's
  memory: the end of the range is within its size, with no wrap-around of the 32-bit sum, for every
  process below \<open>KERNBASE\<close> and every count a caller can pass.\<close>

theorem argptr_in_bounds:
  assumes "argptr n sz s = Ok (Some p) t" and "curproc s = Some i"
    and "p_sz (procs s ! i) \<le> KERNBASE" and "sz < 2 ^ 31"
  shows "0 \<le> sz \<and> unat p + nat sz \<le> unat (p_sz (procs s ! i)) \<and> t = s"
  by (rule argptr_bounds [OF assms])

lemma argptr_in_bounds_witness:
  "argptr 1 16 (ones_demo 1 5) = Ok (Some 0x01010101) (ones_demo 1 5) \<and> unat (0x01010101 :: uint) + 16 \<le> 0x02000000"
proof -
  have "argptr 1 16 (ones_demo 1 5) = Ok (Some 0x01010101) (ones_demo 1 5)"
    by (simp add: argptr_def ones_argint [unfolded One_nat_def])
  with argptr_in_bounds [OF this, of 0] show ?thesis by (simp add: KERNBASE_def)
qed

text \<open>C24: \<open>fetchstr\<close> takes exactly the strings that lie in the caller's memory.  It returns the bytes \<open>xs\<close> if and only
  if they are what the caller's memory holds at the address, none of them is NUL, and the byte after
  them is NUL and still below the size of the process.  It returns -1 if and only if there is no NUL from the
  address up to the size.  It changes nothing.\<close>

theorem fetchstr_in_bounds:
  assumes "curproc s = Some i"
  shows "(fetchstr a s = Ok (Some xs) t \<longleftrightarrow>
      t = s \<and> unat a + length xs < unat (p_sz (procs s ! i)) \<and> 0 \<notin> set xs \<and> user_has a (xs @ [0]) s)
    \<and> (fetchstr a s = Ok None t \<longleftrightarrow>
      t = s \<and> (\<forall>k. unat a + k < unat (p_sz (procs s ! i)) \<longrightarrow> (\<exists>c. c \<noteq> 0 \<and> user_mem (a + word_of_nat k) s = Some c)))"
proof (cases "p_sz (procs s ! i) \<le> a")
  case True
  then show ?thesis by (auto simp: fetchstr_run [OF assms] word_le_nat_alt)
next
  case False
  then have "unat a + k < unat (p_sz (procs s ! i)) \<longleftrightarrow> k < unat (p_sz (procs s ! i)) - unat a" for k
    by (auto simp: word_le_nat_alt)
  then show ?thesis using False
    by (simp add: fetchstr_run [OF assms] fetchstr_loop_Some [OF assms] fetchstr_loop_None [OF assms])
qed

text \<open>A string of two bytes at the address 5 of the process, in the page that has the page table.\<close>

definition string_demo :: cstate where
  "string_demo = (ones_demo 1 5)\<lparr>kmem := (\<lambda>x. if x = 0x81010007 then 0 else 1)\<rparr>"

lemma string_demo_mem:
  assumes "a = 5 \<or> a = 6 \<or> a = 7"
  shows "user_mem a string_demo = Some (if a = 7 then 0 else 1)"
proof -
  have sel: "curproc string_demo = Some 0" "p_pgdir (procs string_demo ! 0) = 0"
    "kmem string_demo = (\<lambda>x. if x = 0x81010007 then 0 else 1)"
    by (simp_all add: string_demo_def zero_proc_def)
  have l: "load_at 0 string_demo = 0x01010101" "load_at 0x81010000 string_demo = 0x01010101"
    by (simp_all add: load_at_def load32_def sel)
  have "user_addr 0 a string_demo = Some (0x81010000 + a)" using assms
    by (elim disjE) (simp_all add: user_addr_def PDX_def PTX_def PTE_P_def PTE_ADDR_def P2V_def KERNBASE_def l)
  then show ?thesis using assms by (elim disjE) (simp_all add: user_mem_def sel)
qed

lemma fetchstr_in_bounds_witness: "fetchstr 5 string_demo = Ok (Some [1, 1]) string_demo"
proof -
  have sel: "curproc string_demo = Some 0" "p_sz (procs string_demo ! 0) = 0x02000000"
    by (simp_all add: string_demo_def)
  have "user_has 5 ([1, 1] @ [0]) string_demo" by (simp add: string_demo_mem)
  then show ?thesis
    using fetchstr_in_bounds [OF sel(1), of 5 "[1, 1]" string_demo] by (simp add: sel(2))
qed

text \<open>\<open>fdalloc\<close> gives the lowest free descriptor of the calling process, and changes no other.\<close>

theorem fdalloc_lowest:
  assumes "curproc s = Some i" and "i < length (procs s)" and "length (p_ofile (procs s ! i)) = NOFILE"
    and "fd < NOFILE" and "p_ofile (procs s ! i) ! fd = None" and "\<forall>k < fd. p_ofile (procs s ! i) ! k \<noteq> None"
  shows "\<exists>t. fdalloc f s = Ok (int fd) t \<and> p_ofile (procs t ! i) = (p_ofile (procs s ! i))[fd := Some f]
    \<and> (\<forall>j. j \<noteq> i \<longrightarrow> procs t ! j = procs s ! j)"
  unfolding fdalloc_run [OF assms] using assms(2) by (simp add: set_ofile_def upd_proc_def)

lemma fdalloc_lowest_witness: "\<exists>t. fdalloc 3 (ones_demo 1 5) = Ok 0 t \<and> p_ofile (procs t ! 0) ! 0 = Some 3"
  using fdalloc_lowest [of "ones_demo 1 5" 0 0 3] by (auto simp: zero_proc_def NOFILE_def)

end
