(* ===== verification/Proc_Props.thy ===== *)
theory Proc_Props
  imports Readcount
begin

text \<open>
  The process table under the operations of proc.c: which fields the rest of the kernel leaves alone,
  and the invariant of the table.
\<close>

subsection \<open>Operations that change one entry of the table\<close>

text \<open>
  \<open>entry ps c n i ok s\<close>: the table is \<open>ps\<close> with entry \<open>i\<close> replaced by one that satisfies \<open>ok\<close>, and the
  current process is \<open>c\<close> and the next pid \<open>n\<close>.
\<close>

definition entry :: "proc list \<Rightarrow> nat option \<Rightarrow> int \<Rightarrow> nat \<Rightarrow> (proc \<Rightarrow> bool) \<Rightarrow> 'z kern_scheme \<Rightarrow> bool" where
  "entry ps c n i ok s \<longleftrightarrow> (\<exists>p. procs s = ps[i := p] \<and> ok p) \<and> curproc s = c \<and> nextpid s = n"

named_theorems table_keeps \<open>the functions that keep \<open>entry\<close>\<close>

declare keeps_bind [table_keeps] keeps_andthen [table_keeps] keeps_prims [table_keeps]
  keeps_whenM [table_keeps] keeps_for_each [table_keeps] keeps_if [table_keeps] keeps_option [table_keeps]
  keeps_prod [table_keeps] keeps_Let [table_keeps] keeps_with_proc [table_keeps] keeps_modify [table_keeps]

lemma entry_fields [simp]:
  "entry ps c n i ok (s\<lparr>locks := a1\<rparr>) = entry ps c n i ok s"
  "entry ps c n i ok (s'\<lparr>kmem := a2\<rparr>) = entry ps c n i ok s'"
  "entry ps c n i ok (s'\<lparr>freelist := a3\<rparr>) = entry ps c n i ok s'"
  "entry ps c n i ok (s'\<lparr>ts_esp0 := a4\<rparr>) = entry ps c n i ok s'"
  "entry ps c n i ok (s'\<lparr>cr3 := a5\<rparr>) = entry ps c n i ok s'"
  "entry ps c n i ok (store_at a w s') = entry ps c n i ok s'"
  "entry ps c n i ok (memset_page a w s') = entry ps c n i ok s'"
  "entry ps c n i ok (upd_file f g x) = entry ps c n i ok x"
  "entry ps c n i ok (upd_ino ip h y) = entry ps c n i ok y"
  by (simp_all add: entry_def store_at_def memset_page_def upd_file_def upd_ino_def)

lemma entry_upd:
  assumes "entry ps c n i ok s" and "\<And>p. ok p \<Longrightarrow> ok (f p)" and "i < length ps"
  shows "entry ps c n i ok (upd_proc i f s)"
proof -
  obtain p where p: "procs s = ps[i := p]" "ok p" and r: "curproc s = c" "nextpid s = n"
    using assms(1) by (auto simp: entry_def)
  have "procs (upd_proc i f s) = ps[i := f p]" using p(1) assms(3) by (simp add: upd_proc_def)
  then show ?thesis using p(2) r assms(2) by (auto simp: entry_def upd_proc_def)
qed

lemma table_acquire [table_keeps]: "keeps (acquire l) (entry ps c n i ok)"
  by (simp add: keeps_def acquire_def)

lemma table_release [table_keeps]: "keeps (release l) (entry ps c n i ok)"
  by (simp add: keeps_def release_def)

lemma table_kfree [table_keeps]: "keeps (kfree a) (entry ps c n i ok)"
  by (auto simp: kfree_def intro!: table_keeps)

lemma table_kalloc [table_keeps]: "keeps kalloc (entry ps c n i ok)"
  by (auto simp: kalloc_def intro!: table_keeps)

lemma table_walkpgdir [table_keeps]: "keeps (walkpgdir a b d) (entry ps c n i ok)"
  by (auto simp: walkpgdir_def intro!: table_keeps)

lemma table_mappages [table_keeps]: "keeps (mappages a b d e f) (entry ps c n i ok)"
  by (auto simp: mappages_def intro!: table_keeps)

lemma table_dealloc_loop [table_keeps]: "keeps (dealloc_loop a b d) (entry ps c n i ok)"
proof (induction a b d rule: dealloc_loop.induct)
  case (1 a b d)
  then show ?case by (subst dealloc_loop.simps) (auto intro!: table_keeps)
qed

lemma table_deallocuvm [table_keeps]: "keeps (deallocuvm a b d) (entry ps c n i ok)"
  by (auto simp: deallocuvm_def intro!: table_keeps)

lemma table_freevm [table_keeps]: "keeps (freevm a) (entry ps c n i ok)"
  by (auto simp: freevm_def intro!: table_keeps)

lemma table_setupkvm [table_keeps]: "keeps setupkvm (entry ps c n i ok)"
  by (auto simp: setupkvm_def intro!: table_keeps)

lemma table_copyuvm [table_keeps]: "keeps (copyuvm a b) (entry ps c n i ok)"
  by (auto simp: copyuvm_def intro!: table_keeps)

lemma table_switchuvm [table_keeps]: "keeps (switchuvm p) (entry ps c n i ok)"
  by (auto simp: switchuvm_def intro!: table_keeps simp: entry_def)

lemma table_switchkvm [table_keeps]: "keeps switchkvm (entry ps c n i ok)"
  by (auto simp: switchkvm_def intro!: table_keeps)

lemma table_filedup [table_keeps]: "keeps (filedup f) (entry ps c n i ok)"
  by (auto simp: filedup_def intro!: table_keeps)

lemma table_idup [table_keeps]: "keeps (idup ip) (entry ps c n i ok)"
  by (auto simp: idup_def intro!: table_keeps)

subsection \<open>The invariant\<close>

definition pid_ok :: "int \<Rightarrow> proc \<Rightarrow> bool" where
  "pid_ok n p \<longleftrightarrow> p_state p \<noteq> UNUSED \<longrightarrow> 0 < p_pid p \<and> p_pid p < n"

definition clash :: "proc \<Rightarrow> proc \<Rightarrow> bool" where
  "clash p q \<longleftrightarrow> p_state p \<noteq> UNUSED \<and> p_state q \<noteq> UNUSED \<and> p_pid p = p_pid q"

definition pids_ok :: "proc list \<Rightarrow> int \<Rightarrow> bool" where
  "pids_ok ps n \<longleftrightarrow> (\<forall>i < length ps. pid_ok n (ps ! i))
     \<and> (\<forall>i < length ps. \<forall>j < length ps. i \<noteq> j \<longrightarrow> \<not> clash (ps ! i) (ps ! j))"

text \<open>What the current process's entry and the others may be.\<close>

definition sched_ok :: "nat option \<Rightarrow> nat \<Rightarrow> proc \<Rightarrow> bool" where
  "sched_ok c i p \<longleftrightarrow> (p_state p = RUNNING \<longrightarrow> c = Some i) \<and> (p_state p = SLEEPING \<longrightarrow> p_chan p \<noteq> None)"

definition table_ok :: "'z kern_scheme \<Rightarrow> bool" where
  "table_ok s \<longleftrightarrow> length (procs s) = NPROC \<and> 0 < nextpid s \<and> pids_ok (procs s) (nextpid s)
     \<and> (\<forall>i < NPROC. sched_ok (curproc s) i (procs s ! i))"

lemma clash_sym: "clash p q = clash q p"
  by (auto simp: clash_def)

lemma pids_ok_update:
  assumes "pids_ok ps n" and "i < length ps" and "pid_ok m p" and "n \<le> m"
    and "\<And>q. q \<in> set ps \<Longrightarrow> pid_ok n q \<Longrightarrow> clash p q \<Longrightarrow> clash (ps ! i) q"
  shows "pids_ok (ps[i := p]) m"
proof -
  have ok: "pid_ok n (ps ! j)" if "j < length ps" for j using assms(1) that by (simp add: pids_ok_def)
  have c: "\<not> clash p (ps ! j)" if "j < length ps" "j \<noteq> i" for j
    using assms(1,2) that assms(5) [of "ps ! j"] ok [OF that(1)] by (auto simp: pids_ok_def)
  have "pid_ok m (ps ! j)" if "j < length ps" for j
    using ok [OF that] assms(4) by (auto simp: pid_ok_def)
  then show ?thesis using assms(1,2,3) c
    by (simp add: pids_ok_def nth_list_update_if) (metis clash_sym)
qed

text \<open>An operation that replaced one entry.\<close>

lemma table_ok_update:
  assumes "table_ok s" and "procs t = (procs s)[i := p]" and "i < NPROC" and "curproc t = curproc s"
    and "nextpid s \<le> nextpid t" and "pid_ok (nextpid t) p"
    and "\<And>q. pid_ok (nextpid s) q \<Longrightarrow> clash p q \<Longrightarrow> clash (procs s ! i) q"
    and "sched_ok (curproc s) i p"
  shows "table_ok t"
proof -
  have "pids_ok (procs t) (nextpid t)" unfolding assms(2)
    by (rule pids_ok_update [OF _ _ assms(6,5)]) (use assms(1,3,7) in \<open>auto simp: table_ok_def\<close>)
  then show ?thesis using assms by (auto simp: table_ok_def nth_list_update_if)
qed

lemma entry_self: "entry (procs s) (curproc s) (nextpid s) i (\<lambda>p. p = procs s ! i) s"
  unfolding entry_def by (metis list_update_id)

lemma entry_table_ok:
  assumes "table_ok s" and "entry (procs s) (curproc s) n i ok t" and "i < NPROC" and "nextpid s \<le> n"
    and "\<And>p. ok p \<Longrightarrow> pid_ok n p \<and> sched_ok (curproc s) i p
      \<and> (\<forall>q. pid_ok (nextpid s) q \<longrightarrow> clash p q \<longrightarrow> clash (procs s ! i) q)"
  shows "table_ok t"
proof -
  obtain p where p: "procs t = (procs s)[i := p]" "ok p" and r: "curproc t = curproc s" "nextpid t = n"
    using assms(2) by (auto simp: entry_def)
  show ?thesis by (rule table_ok_update [OF assms(1) p(1) assms(3) r(1)]) (use assms(4,5) p(2) r(2) in auto)
qed

subsection \<open>allocproc and fork\<close>

definition fresh :: "int \<Rightarrow> proc \<Rightarrow> bool" where
  "fresh pid p \<longleftrightarrow> p_pid p = pid \<and> p_state p \<noteq> SLEEPING \<and> p_state p \<noteq> RUNNING"

text \<open>\<open>allocproc\<close> from the release of the lock on.\<close>

definition allocproc_rest :: "uint \<Rightarrow> nat \<Rightarrow> ('z, nat option) vop" where
  "allocproc_rest fr i = bind (release PtableLock) (\<lambda>_.
       bind kalloc (\<lambda>k.
       bind (modify (upd_proc i (\<lambda>p. p\<lparr>p_kstack := k\<rparr>))) (\<lambda>_.
       if k = 0 then bind (modify (upd_proc i (\<lambda>p. p\<lparr>p_state := UNUSED\<rparr>))) (\<lambda>_.
           ret None)
         else bind (modify (upd_proc i (\<lambda>p. p\<lparr>p_context :=
             \<lparr>cx_edi = 0, cx_esi = 0, cx_ebx = 0, cx_ebp = 0, cx_eip = fr\<rparr>\<rparr>))) (\<lambda>_.
           ret (Some i)))))"

lemma allocproc_split:
  "allocproc fr s = bind (acquire PtableLock) (\<lambda>_. bind (reads (\<lambda>s. find (\<lambda>i. p_state (procs s ! i) = UNUSED) [0..<NPROC]))
    (\<lambda>free. case free of None \<Rightarrow> bind (release PtableLock) (\<lambda>_. ret None)
      | Some i \<Rightarrow> bind (modify (\<lambda>s. (upd_proc i (\<lambda>p. p\<lparr>p_state := EMBRYO, p_pid := nextpid s\<rparr>) s)\<lparr>nextpid := int32 (nextpid s + 1)\<rparr>))
          (\<lambda>_. allocproc_rest fr i))) s"
  unfolding allocproc_def allocproc_rest_def ..

lemma keeps_allocproc_rest:
  "i < length ps \<Longrightarrow> keeps (allocproc_rest fr i) (entry ps c n i (fresh pid))"
  by (auto simp: allocproc_rest_def fresh_def intro!: table_keeps entry_upd)

lemma allocproc_rest_value: "allocproc_rest fr i s = Ok r t \<Longrightarrow> r = None \<or> r = Some i"
  by (auto simp: allocproc_rest_def run_iff split: if_splits)

lemma allocproc_entry:
  assumes "allocproc fr s = Ok r t" and "length (procs s) = NPROC"
  shows "r = None \<and> procs t = procs s \<and> curproc t = curproc s \<and> nextpid t = nextpid s
    \<or> (\<exists>i < NPROC. p_state (procs s ! i) = UNUSED
        \<and> entry (procs s) (curproc s) (int32 (nextpid s + 1)) i (fresh (nextpid s)) t \<and> (r = None \<or> r = Some i))"
proof (cases "find (\<lambda>i. p_state (procs s ! i) = UNUSED) [0..<NPROC]")
  case None
  then show ?thesis using assms
    by (auto simp: allocproc_split bind_Ok_iff [of "acquire PtableLock"] acquire_Ok_iff)
next
  case (Some i)
  then have i: "i < NPROC" "p_state (procs s ! i) = UNUSED" by (auto simp: find_upt_Some)
  let ?u = "(upd_proc i (\<lambda>p. p\<lparr>p_state := EMBRYO, p_pid := nextpid s\<rparr>) (s\<lparr>locks := PtableLock # locks s\<rparr>))
    \<lparr>nextpid := int32 (nextpid s + 1)\<rparr>"
  have run: "allocproc_rest fr i ?u = Ok r t" using assms(1) Some
    by (auto simp: allocproc_split bind_Ok_iff [of "acquire PtableLock"] acquire_Ok_iff)
  have "entry (procs s) (curproc s) (int32 (nextpid s + 1)) i (fresh (nextpid s)) ?u"
    by (auto simp: entry_def upd_proc_def fresh_def)
  from keeps_Ok [OF keeps_allocproc_rest this run] show ?thesis
    using i assms(2) allocproc_rest_value [OF run] by auto
qed

lemma fresh_ok:
  assumes "fresh n p" and "0 < n" and "p_state q = UNUSED"
  shows "pid_ok (n + 1) p \<and> sched_ok c i p \<and> (\<forall>r. pid_ok n r \<longrightarrow> clash p r \<longrightarrow> clash q r)"
  using assms by (auto simp: fresh_def pid_ok_def sched_ok_def clash_def)

lemma table_ok_fresh:
  assumes "table_ok s" and "p_state (procs s ! i) = UNUSED" and "i < NPROC"
    and "entry (procs s) (curproc s) (int32 (nextpid s + 1)) i (fresh (nextpid s)) t" and "nextpid s < 2147483647"
  shows "table_ok t \<and> nextpid t \<le> nextpid s + 1"
proof -
  have "0 < nextpid s" using assms(1) by (simp add: table_ok_def)
  then have "int32 (nextpid s + 1) = nextpid s + 1" using assms(5) by (intro int32_small) simp_all
  then have e: "entry (procs s) (curproc s) (nextpid s + 1) i (fresh (nextpid s)) t" using assms(4) by simp
  have "table_ok t"
  proof (rule entry_table_ok [OF assms(1) e assms(3)])
    fix p assume "fresh (nextpid s) p"
    then show "pid_ok (nextpid s + 1) p \<and> sched_ok (curproc s) i p
        \<and> (\<forall>q. pid_ok (nextpid s) q \<longrightarrow> clash p q \<longrightarrow> clash (procs s ! i) q)"
      using assms(1,2) by (intro fresh_ok) (auto simp: table_ok_def)
  qed simp
  then show ?thesis using e by (simp add: entry_def)
qed

lemma table_ok_cong:
  "procs t = procs s \<Longrightarrow> curproc t = curproc s \<Longrightarrow> nextpid t = nextpid s \<Longrightarrow> table_ok t = table_ok s"
  by (simp add: table_ok_def)

text \<open>\<open>fork\<close> after \<open>allocproc\<close>.\<close>

definition fork_rest :: "nat \<Rightarrow> nat \<Rightarrow> ('z, int) xop" where
  "fork_rest cur np = bind (reads (\<lambda>s. procs s ! cur)) (\<lambda>c.
       bind (copyuvm (p_pgdir c) (p_sz c)) (\<lambda>d.
       bind (modify (upd_proc np (\<lambda>p. p\<lparr>p_pgdir := d\<rparr>))) (\<lambda>_.
       if d = 0 then bind (reads (\<lambda>s. p_kstack (procs s ! np))) (\<lambda>k.
           bind (kfree k) (\<lambda>_.
           bind (modify (upd_proc np (\<lambda>p. p\<lparr>p_kstack := 0, p_state := UNUSED\<rparr>))) (\<lambda>_.
           ret (- 1))))
         else bind (modify (upd_proc np (\<lambda>p. p\<lparr>p_sz := p_sz c, p_parent := Some cur,
             p_tf := (p_tf c)\<lparr>tf_eax := 0\<rparr>\<rparr>))) (\<lambda>_.
           bind (for_each [0..<NOFILE] (\<lambda>i.
             case p_ofile c ! i of
               None \<Rightarrow> ret (None :: unit option)
             | Some f \<Rightarrow> bind (filedup f) (\<lambda>f'.
               bind (modify (upd_proc np (\<lambda>p. p\<lparr>p_ofile := (p_ofile p)[i := Some f']\<rparr>))) (\<lambda>_.
               ret None)))) (\<lambda>_.
           bind ((case p_cwd c of
              None \<Rightarrow> fault
            | Some ip \<Rightarrow> bind (idup ip) (\<lambda>ip'.
              modify (upd_proc np (\<lambda>p. p\<lparr>p_cwd := Some ip'\<rparr>))))) (\<lambda>_.
           bind (modify (upd_proc np (\<lambda>p. p\<lparr>p_name := copy_name (p_name p) (takeWhile (\<lambda>c. c \<noteq> 0) (p_name c))\<rparr>))) (\<lambda>_.
           bind (reads (\<lambda>s. p_pid (procs s ! np))) (\<lambda>pid.
           bind (acquire PtableLock) (\<lambda>_.
           bind (modify (upd_proc np (\<lambda>p. p\<lparr>p_state := RUNNABLE\<rparr>))) (\<lambda>_.
           bind (release PtableLock) (\<lambda>_.
           ret pid)))))))))))"

lemma fork_split:
  "fork fr = with_proc (\<lambda>cur. bind (allocproc fr) (\<lambda>npp. case npp of None \<Rightarrow> ret (- 1) | Some np \<Rightarrow> fork_rest cur np))"
  unfolding fork_def fork_rest_def ..

lemma keeps_fork_rest:
  "i < length ps \<Longrightarrow> keeps (fork_rest cur i) (entry ps c n i (fresh pid))"
  by (auto simp: fork_rest_def fresh_def intro!: table_keeps entry_upd)

lemma fork_table:
  assumes "table_ok s" and "fork fr s = Ok r t" and "nextpid s < 2147483647"
  shows "table_ok t \<and> nextpid t \<le> nextpid s + 1"
proof -
  obtain cur where cur: "curproc s = Some cur" using assms(2) by (auto simp: fork_def with_proc_Ok_iff)
  then obtain npp u where a: "allocproc fr s = Ok npp u"
    and b: "(case npp of None \<Rightarrow> ret (- 1) | Some np \<Rightarrow> fork_rest cur np) u = Ok r t"
    using assms(2) by (auto simp: fork_split bind_Ok_iff)
  have len: "length (procs s) = NPROC" using assms(1) by (simp add: table_ok_def)
  from allocproc_entry [OF a len] show ?thesis
  proof (elim disjE exE conjE)
    assume "npp = None" "procs u = procs s" "curproc u = curproc s" "nextpid u = nextpid s"
    then show ?thesis using b assms(1) table_ok_cong [of u s] by simp
  next
    fix i assume i: "i < NPROC" "p_state (procs s ! i) = UNUSED"
      "entry (procs s) (curproc s) (int32 (nextpid s + 1)) i (fresh (nextpid s)) u" and "npp = None"
    then show ?thesis using b table_ok_fresh [OF assms(1) i(2,1,3) assms(3)] by simp
  next
    fix i assume i: "i < NPROC" "p_state (procs s ! i) = UNUSED"
      "entry (procs s) (curproc s) (int32 (nextpid s + 1)) i (fresh (nextpid s)) u" and n: "npp = Some i"
    have "fork_rest cur i u = Ok r t" using b n by simp
    from keeps_Ok [OF keeps_fork_rest i(3) this]
    have "entry (procs s) (curproc s) (int32 (nextpid s + 1)) i (fresh (nextpid s)) t" using i(1) len by simp
    from table_ok_fresh [OF assms(1) i(2,1) this assms(3)] show ?thesis by simp
  qed
qed

subsection \<open>Changes to every entry\<close>

text \<open>Changes of an entry that do not concern its pid: it stays used or unused.\<close>

definition harmless :: "nat option \<Rightarrow> (proc \<Rightarrow> proc) \<Rightarrow> bool" where
  "harmless c f \<longleftrightarrow> (\<forall>p. p_pid (f p) = p_pid p \<and> (p_state (f p) = UNUSED \<longleftrightarrow> p_state p = UNUSED)
     \<and> (p_state (f p) = RUNNING \<longrightarrow> p_state p = RUNNING)
     \<and> (p_state (f p) = SLEEPING \<longrightarrow> p_state p = SLEEPING \<and> (p_chan p \<noteq> None \<longrightarrow> p_chan (f p) \<noteq> None)))"

lemma harmlessD:
  assumes "harmless c f"
  shows "pid_ok n (f p) = pid_ok n p" "clash (f p) q = clash p q" "clash q (f p) = clash q p"
    "sched_ok c i p \<Longrightarrow> sched_ok c i (f p)"
proof -
  have h: "p_pid (f p) = p_pid p" "p_state (f p) = UNUSED \<longleftrightarrow> p_state p = UNUSED"
    "p_state (f p) = RUNNING \<Longrightarrow> p_state p = RUNNING"
    "p_state (f p) = SLEEPING \<Longrightarrow> p_state p = SLEEPING \<and> (p_chan p \<noteq> None \<longrightarrow> p_chan (f p) \<noteq> None)"
    using assms unfolding harmless_def by blast+
  show "pid_ok n (f p) = pid_ok n p" "clash (f p) q = clash p q" "clash q (f p) = clash q p"
    by (simp_all add: pid_ok_def clash_def h(1,2))
  show "sched_ok c i p \<Longrightarrow> sched_ok c i (f p)" using h(3,4) unfolding sched_ok_def by blast
qed

lemma table_ok_map:
  assumes "table_ok s" and "procs t = map f (procs s)" and "harmless (curproc s) f"
    and "curproc t = curproc s" and "nextpid t = nextpid s"
  shows "table_ok t"
proof -
  note h = harmlessD [OF assms(3)]
  have "\<not> clash (map f (procs s) ! i) (map f (procs s) ! j)" if "i < length (procs s)" "j < length (procs s)" "i \<noteq> j" for i j
    using assms(1) that by (simp add: table_ok_def pids_ok_def h(2,3))
  moreover have "pid_ok (nextpid s) (map f (procs s) ! i)" if "i < length (procs s)" for i
    using assms(1) that by (simp add: table_ok_def pids_ok_def h(1))
  moreover have "sched_ok (curproc s) i (map f (procs s) ! i)" if "i < length (procs s)" for i
    using assms(1) that h(4) by (simp add: table_ok_def)
  ultimately show ?thesis using assms(1) by (simp add: table_ok_def pids_ok_def assms(2,4,5))
qed

lemma table_ok_harmless:
  assumes "table_ok s" and "harmless (curproc s) f" and "i < NPROC"
  shows "table_ok (upd_proc i f s)"
proof -
  note h = harmlessD [OF assms(2)]
  have e: "pid_ok (nextpid s) (procs s ! i)" "sched_ok (curproc s) i (procs s ! i)"
    using assms(1,3) by (simp_all add: table_ok_def pids_ok_def)
  show ?thesis
  proof (rule table_ok_update [OF assms(1) _ assms(3), of _ "f (procs s ! i)"])
    show "pid_ok (nextpid (upd_proc i f s)) (f (procs s ! i))" using e(1) by (simp add: upd_proc_def h(1))
    show "sched_ok (curproc s) i (f (procs s ! i))" by (rule h(4) [OF e(2)])
    show "clash (f (procs s ! i)) q \<Longrightarrow> clash (procs s ! i) q" for q by (simp add: h(2))
  qed (simp_all add: upd_proc_def)
qed

lemma table_wakeup1 [simp]: "table_ok s \<Longrightarrow> table_ok (wakeup1 c s)"
  by (rule table_ok_map [of s _ "\<lambda>p. if p_state p = SLEEPING \<and> p_chan p = Some c then p\<lparr>p_state := RUNNABLE\<rparr> else p"])
    (simp_all add: wakeup1_def harmless_def)

lemma table_locks [simp]: "table_ok (s\<lparr>locks := l\<rparr>) = table_ok s"
  by (simp add: table_ok_def)

lemma wakeup_table: "table_ok s \<Longrightarrow> wakeup c s = Ok u t \<Longrightarrow> table_ok t"
  by (auto simp: wakeup_Ok_iff)

lemma kill_table:
  assumes "table_ok s" and "kill pid s = Ok r t"
  shows "table_ok t"
proof (cases "find (\<lambda>i. p_pid (procs s ! i) = pid) [0..<NPROC]")
  case None
  then show ?thesis using assms
    by (auto simp: kill_def bind_Ok_iff [of "acquire PtableLock"] acquire_Ok_iff)
next
  case (Some i)
  let ?f = "\<lambda>p. p\<lparr>p_killed := True, p_state := (if p_state p = SLEEPING then RUNNABLE else p_state p)\<rparr>"
  have i: "i < NPROC" using Some by (auto simp: find_upt_Some)
  have h: "harmless c ?f" for c by (simp add: harmless_def)
  let ?u = "upd_proc i ?f (s\<lparr>locks := PtableLock # locks s\<rparr>)"
  have "PtableLock \<notin> set (locks s)" using assms(2) by (auto simp: kill_def bind_Ok_iff [of "acquire PtableLock"] acquire_Ok_iff)
  then have "kill pid s = bind (release PtableLock) (\<lambda>_. ret 0) ?u"
    using Some by (simp add: kill_def)
  moreover have "PtableLock \<in> set (locks ?u)" by (simp add: upd_proc_def)
  ultimately have "kill pid s = Ok 0 (?u\<lparr>locks := remove1 PtableLock (locks ?u)\<rparr>)"
    by (simp only: bind_simps(1) [OF release_held]) simp
  then have "t = ?u\<lparr>locks := remove1 PtableLock (locks ?u)\<rparr>" using assms(2) by simp
  moreover have "table_ok ?u" by (rule table_ok_harmless [OF _ h i]) (simp add: assms(1))
  ultimately show ?thesis by simp
qed

subsection \<open>Giving up the CPU\<close>

text \<open>The state a process leaves when it gives up the CPU: it does not run any more.\<close>

definition gave_up :: "'z kern_scheme \<Rightarrow> bool" where
  "gave_up s \<longleftrightarrow> table_ok s \<and> (\<forall>i < NPROC. p_state (procs s ! i) \<noteq> RUNNING) \<and> PtableLock \<in> set (locks s)"

lemma sched_Switched: "sched s = Switched t \<Longrightarrow> t = s \<and> PtableLock \<in> set (locks s)
    \<and> (\<exists>i. curproc s = Some i \<and> p_state (procs s ! i) \<noteq> RUNNING)"
  by (auto simp: sched_def with_proc_def split: option.splits if_splits)

lemma sched_gave_up:
  assumes "table_ok s" and "sched s = Switched t"
  shows "gave_up t"
proof -
  obtain i where i: "t = s" "PtableLock \<in> set (locks s)" "curproc s = Some i" "p_state (procs s ! i) \<noteq> RUNNING"
    using sched_Switched [OF assms(2)] by blast
  have "sched_ok (Some i) j (procs s ! j)" if "j < NPROC" for j
    using assms(1) i(3) that by (auto simp: table_ok_def)
  then have "p_state (procs s ! j) \<noteq> RUNNING" if "j < NPROC" for j
    using i(4) that by (cases "j = i") (auto simp: sched_ok_def)
  then show ?thesis using assms(1) i by (simp add: gave_up_def)
qed

lemma table_cur_update:
  assumes "table_ok s" and "curproc s = Some i" and "i < NPROC" and "p_state (procs s ! i) \<noteq> UNUSED"
    and "\<And>p. p_pid (f p) = p_pid p" and "p_state (f (procs s ! i)) \<noteq> UNUSED"
    and "p_state (f (procs s ! i)) = SLEEPING \<Longrightarrow> p_chan (f (procs s ! i)) \<noteq> None"
  shows "table_ok (upd_proc i f s)"
proof (rule table_ok_update [OF assms(1) _ assms(3), of _ "f (procs s ! i)"])
  have "pid_ok (nextpid s) (procs s ! i)" using assms(1,3) by (simp add: table_ok_def pids_ok_def)
  then show "pid_ok (nextpid (upd_proc i f s)) (f (procs s ! i))" using assms(4,5) by (simp add: pid_ok_def upd_proc_def)
  show "clash (f (procs s ! i)) q \<Longrightarrow> clash (procs s ! i) q" for q using assms(4,5) by (auto simp: clash_def)
  show "sched_ok (curproc s) i (f (procs s ! i))" using assms(2,7) by (auto simp: sched_ok_def)
qed (simp_all add: upd_proc_def)

lemma sleep_gave_up:
  assumes "table_ok s" and "curproc s = Some i" and "i < NPROC" and "p_state (procs s ! i) \<noteq> UNUSED"
    and "sleep c lk s = (Switched t :: ('z kern_scheme, 'a) outcome)"
  shows "gave_up t"
proof -
  have sw: "bind (if lk \<noteq> PtableLock then bind (acquire PtableLock) (\<lambda>_. release lk) else ret ())
      (\<lambda>_. bind (modify (upd_proc i (\<lambda>q. q\<lparr>p_chan := Some c, p_state := SLEEPING\<rparr>))) (\<lambda>_. sched)) s = (Switched t :: ('z kern_scheme, 'a) outcome)"
    using assms(5) unfolding sleep_def assms(2) option.case .
  obtain l where "sched (upd_proc i (\<lambda>q. q\<lparr>p_chan := Some c, p_state := SLEEPING\<rparr>) (s\<lparr>locks := l\<rparr>))
      = (Switched t :: ('z kern_scheme, 'a) outcome)"
  proof (cases "lk = PtableLock")
    case True
    have "s = s\<lparr>locks := locks s\<rparr>" by simp
    then show ?thesis using sw True that [of "locks s"] by simp
  next
    case False
    then show ?thesis using sw that
      by (cases "PtableLock \<in> set (locks s)"; cases "lk \<in> set (locks s)")
        (simp_all add: acquire_def release_def)
  qed
  moreover have "table_ok (upd_proc i (\<lambda>q. q\<lparr>p_chan := Some c, p_state := SLEEPING\<rparr>) (s\<lparr>locks := l\<rparr>))"
    by (rule table_cur_update) (use assms in auto)
  ultimately show ?thesis by (metis sched_gave_up)
qed

text \<open>Only \<open>allocproc\<close> changes the next pid.\<close>

definition next_is :: "int \<Rightarrow> 'z kern_scheme \<Rightarrow> bool" where
  "next_is n s \<longleftrightarrow> nextpid s = n"

lemma next_upd [simp]:
  "next_is n (s\<lparr>locks := l\<rparr>) = next_is n s" "next_is n (upd_proc i f s) = next_is n s"
  "next_is n (wakeup1 c s) = next_is n s" "next_is n (wakeup_proc p s) = next_is n s"
  "next_is n (reparent i k s) = next_is n s"
  by (simp_all add: next_is_def upd_proc_def wakeup_proc_def reparent_def Let_def split: option.split)

lemma next_fold [simp]: "next_is n (fold (reparent i) ks s) = next_is n s"
  by (induction ks arbitrary: s) simp_all

lemma next_locks: "keeps (acquire l) (next_is n)" "keeps (release l) (next_is n)" "keeps sched (next_is n)"
  by (auto simp: keeps_def acquire_def release_def sched_def with_proc_def split: option.split)

lemma next_procs:
  "keeps (wakeup c) (next_is n)" "keeps (kill pid) (next_is n)"
  "keeps yield (next_is n)" "keeps (exit_locked i) (next_is n)"
proof -
  note k = keeps_bind keeps_prims keeps_modify keeps_if keeps_option keeps_with_proc next_locks
  show "keeps (wakeup c) (next_is n)" unfolding wakeup_def by (intro k) simp_all
  show "keeps (kill pid) (next_is n)" unfolding kill_def by (intro k) simp_all
  show "keeps yield (next_is n)" unfolding yield_def by (intro k) simp_all
  show "keeps (exit_locked i) (next_is n)" unfolding exit_locked_def by (intro k) simp_all
qed

lemma next_sleep: "keeps (sleep c lk) (next_is n)"
proof (rule keepsI)
  fix s x s' assume "next_is n s" and "sleep c lk s = Switched s'"
  then show "next_is n s'"
    by (cases "PtableLock \<in> set (locks s)"; cases "lk \<in> set (locks s)"; cases "lk = PtableLock")
      (auto simp: sleep_def acquire_def release_def dest!: sched_Switched split: option.splits)
qed simp

lemma next_Switched: "keeps m (next_is (nextpid s)) \<Longrightarrow> m s = Switched t \<Longrightarrow> nextpid t = nextpid s"
  by (drule keeps_Switched) (simp_all add: next_is_def)

lemma next_Ok: "keeps m (next_is (nextpid s)) \<Longrightarrow> m s = Ok r t \<Longrightarrow> nextpid t = nextpid s"
  by (drule keeps_Ok) (simp_all add: next_is_def)

subsection \<open>yield, exit, wait and the scheduler\<close>

lemma yield_gave_up:
  assumes "table_ok s" and "curproc s = Some i" and "i < NPROC" and "p_state (procs s ! i) \<noteq> UNUSED"
    and "yield s = (Switched t :: ('z kern_scheme, 'a) outcome)"
  shows "gave_up t"
proof -
  have "PtableLock \<notin> set (locks s)" using assms(5) by (auto simp: yield_def bind_def acquire_def)
  then have "sched (upd_proc i (\<lambda>q. q\<lparr>p_state := RUNNABLE\<rparr>) (s\<lparr>locks := PtableLock # locks s\<rparr>))
      = (Switched t :: ('z kern_scheme, 'a) outcome)"
    using assms(2,5) by (simp add: yield_def)
  moreover have "table_ok (upd_proc i (\<lambda>q. q\<lparr>p_state := RUNNABLE\<rparr>) (s\<lparr>locks := PtableLock # locks s\<rparr>))"
    by (rule table_cur_update) (use assms in auto)
  ultimately show ?thesis by (metis sched_gave_up)
qed

lemma reparent_table:
  assumes "table_ok s" and "k < NPROC"
  shows "table_ok (reparent cur k s)"
proof -
  have "table_ok (upd_proc k (\<lambda>p. p\<lparr>p_parent := initproc s\<rparr>) s)"
    by (rule table_ok_harmless [OF assms(1) _ assms(2)]) (simp add: harmless_def)
  then show ?thesis using assms(1)
    by (auto simp: reparent_def Let_def wakeup_proc_def split: option.splits)
qed

lemma nth_update_same: "i < length xs \<Longrightarrow> (\<And>x. g (f x) = g x) \<Longrightarrow> g (xs[k := f (xs ! k)] ! i) = g (xs ! i)"
  by (cases "k = i") simp_all

lemma reparent_cur:
  assumes "i < length (procs s)"
  shows "curproc (reparent cur k s) = curproc s" "p_state (procs (reparent cur k s) ! i) = UNUSED \<longleftrightarrow> p_state (procs s ! i) = UNUSED"
    "length (procs (reparent cur k s)) = length (procs s)"
  using assms
  by (simp_all add: reparent_def Let_def wakeup_proc_def upd_proc_def nth_update_same wakeup1_nth split: option.split)

lemma fold_reparent:
  assumes "table_ok s" and "set ks \<subseteq> {..<NPROC}" and "i < NPROC"
  shows "table_ok (fold (reparent cur) ks s) \<and> curproc (fold (reparent cur) ks s) = curproc s
    \<and> (p_state (procs (fold (reparent cur) ks s) ! i) = UNUSED \<longleftrightarrow> p_state (procs s ! i) = UNUSED)"
  using assms
proof (induction ks arbitrary: s)
  case (Cons k ks)
  have i: "i < length (procs s)" using Cons.prems by (simp add: table_ok_def)
  have "table_ok (reparent cur k s)" using Cons.prems by (intro reparent_table) auto
  from Cons.IH [OF this _ Cons.prems(3)] Cons.prems reparent_cur [OF i, of cur k] show ?case by simp
qed simp

lemma exit_locked_gave_up:
  assumes "table_ok s" and "curproc s = Some i" and "i < NPROC" and "p_state (procs s ! i) \<noteq> UNUSED"
    and "exit_locked i s = (Switched t :: ('z kern_scheme, 'a) outcome)"
  shows "gave_up t"
proof -
  let ?w = "wakeup_proc (p_parent (procs s ! i)) s"
  let ?f = "fold (reparent i) [0..<NPROC] ?w"
  have len: "i < length (procs s)" using assms(1,3) by (simp add: table_ok_def)
  have w: "table_ok ?w" "curproc ?w = curproc s" "p_state (procs ?w ! i) = UNUSED \<longleftrightarrow> p_state (procs s ! i) = UNUSED"
    using assms(1) len by (auto simp: wakeup_proc_def wakeup1_nth split: option.splits)
  have all: "set [0..<NPROC] \<subseteq> {..<NPROC}" by auto
  have f: "table_ok ?f" "curproc ?f = Some i" "p_state (procs ?f ! i) \<noteq> UNUSED"
    using fold_reparent [OF w(1) all assms(3), of i] w assms(2-4) by auto
  have "table_ok (upd_proc i (\<lambda>p. p\<lparr>p_state := ZOMBIE\<rparr>) ?f)"
    by (rule table_cur_update [OF f(1,2) assms(3) f(3)]) simp_all
  moreover have "sched (upd_proc i (\<lambda>p. p\<lparr>p_state := ZOMBIE\<rparr>) ?f) = (Switched t :: ('z kern_scheme, 'a) outcome)"
    using assms(5) by (simp add: exit_locked_def)
  ultimately show ?thesis by (metis sched_gave_up)
qed

definition reaped :: "int \<Rightarrow> proc \<Rightarrow> bool" where
  "reaped pid p \<longleftrightarrow> p_state p = UNUSED \<or> p_state p = ZOMBIE \<and> p_pid p = pid"

lemma table_reap_entry:
  "i < length ps \<Longrightarrow> keeps (reap i) (entry ps c n i (reaped pid))"
  by (auto simp: reap_def reaped_def intro!: table_keeps entry_upd)

lemma reap_table:
  assumes "table_ok s" and "i < NPROC" and "p_state (procs s ! i) = ZOMBIE" and "reap i s = Ok r t"
  shows "table_ok t \<and> nextpid t = nextpid s"
proof -
  have "entry (procs s) (curproc s) (nextpid s) i (reaped (p_pid (procs s ! i))) s"
    unfolding entry_def reaped_def using assms(3) by (intro conjI exI [of _ "procs s ! i"]) simp_all
  then have e: "entry (procs s) (curproc s) (nextpid s) i (reaped (p_pid (procs s ! i))) t"
    using keeps_Ok [OF table_reap_entry _ assms(4)] assms(1,2) by (simp add: table_ok_def)
  have "pid_ok (nextpid s) (procs s ! i)" using assms(1,2) by (simp add: table_ok_def pids_ok_def)
  then have "table_ok t"
    by (intro entry_table_ok [OF assms(1) e assms(2)])
      (auto simp: reaped_def pid_ok_def sched_ok_def clash_def assms(3))
  then show ?thesis using e by (simp add: entry_def)
qed

lemma wait_locked_table:
  assumes "table_ok s" and "wait_locked i s = Ok r t"
  shows "table_ok t \<and> nextpid t = nextpid s"
proof (cases "find (\<lambda>j. p_parent (procs s ! j) = Some i \<and> p_state (procs s ! j) = ZOMBIE) [0..<NPROC]")
  case None
  then have "\<exists>l. t = s\<lparr>locks := l\<rparr>" using assms(2)
    by (auto simp: wait_locked_def run_iff release_Ok_iff split: if_splits)
  then show ?thesis using assms(1) by auto
next
  case (Some j)
  then have "j < NPROC" "p_state (procs s ! j) = ZOMBIE" by (auto simp: find_upt_Some)
  moreover have "reap j s = Ok r t" using assms(2) Some by (simp add: wait_locked_def)
  ultimately show ?thesis using reap_table [OF assms(1)] by blast
qed

lemma wait_locked_gave_up:
  assumes "table_ok s" and "curproc s = Some i" and "i < NPROC" and "p_state (procs s ! i) \<noteq> UNUSED"
    and "wait_locked i s = Switched t"
    and "find (\<lambda>j. p_parent (procs s ! j) = Some i \<and> p_state (procs s ! j) = ZOMBIE) [0..<NPROC] = None"
  shows "gave_up t"
proof -
  have "sleep (ChProc i) PtableLock s = (Switched t :: (_, int) outcome)" using assms(5,6)
    by (auto simp: wait_locked_def bind_def release_def split: if_splits)
  then show ?thesis by (rule sleep_gave_up [OF assms(1-4)])
qed

lemma scheduler_pick_table:
  assumes "table_ok s" and "curproc s = None" and "scheduler_pick k s = Ok r t"
  shows "table_ok t \<and> nextpid t = nextpid s \<and> (case r of None \<Rightarrow> procs t = procs s \<and> curproc t = None
      | Some i \<Rightarrow> k \<le> i \<and> i < NPROC \<and> p_state (procs s ! i) = RUNNABLE \<and> p_state (procs t ! i) = RUNNING \<and> curproc t = Some i)"
proof (cases "find (\<lambda>i. p_state (procs s ! i) = RUNNABLE) [k..<NPROC]")
  case None
  then have "r = None \<and> (\<exists>l. t = s\<lparr>locks := l\<rparr>)" using assms(3)
    by (auto simp: scheduler_pick_def run_iff release_Ok_iff)
  then show ?thesis using assms(1,2) by auto
next
  case (Some i)
  then have i: "k \<le> i" "i < NPROC" "p_state (procs s ! i) = RUNNABLE"
    by (auto simp: find_Some_iff)
  have len: "length (procs s) = NPROC" using assms(1) by (simp add: table_ok_def)
  let ?run = "\<lambda>p. p\<lparr>p_state := RUNNING\<rparr>"
  have "r = Some i \<and> procs t = (procs s)[i := ?run (procs s ! i)] \<and> curproc t = Some i \<and> nextpid t = nextpid s"
    using assms(3) Some
    by (auto simp: scheduler_pick_def switchuvm_def run_iff upd_proc_def)
  moreover from this have "table_ok t"
  proof (intro table_ok_update [of "s\<lparr>curproc := Some i\<rparr>" t i "?run (procs s ! i)"])
    show "table_ok (s\<lparr>curproc := Some i\<rparr>)" using assms(1,2) by (auto simp: table_ok_def sched_ok_def)
  qed (use assms(1) i in \<open>auto simp: table_ok_def pids_ok_def pid_ok_def clash_def sched_ok_def\<close>)
  ultimately show ?thesis using i len by simp
qed

lemma scheduler_back_table:
  assumes "gave_up s" and "scheduler_back s = Ok () t"
  shows "table_ok t \<and> nextpid t = nextpid s \<and> curproc t = None \<and> procs t = procs s"
  using assms by (auto simp: scheduler_back_def switchkvm_def gave_up_def table_ok_def sched_ok_def)

end
