(* ===== verification/Proc_Claims.thy ===== *)
theory Proc_Claims
  imports Proc_Props Pipe_Claims
begin







subsection \<open>A system that boots\<close>


text \<open>The same with two processes: a parent that runs and a child, in entries 0 and 1.\<close>

definition family :: "procstate \<Rightarrow> xstate" where
  "family st = pipe_demo\<lparr>procs := (replicate NPROC zero_proc)
     [0 := zero_proc\<lparr>p_state := RUNNING, p_pid := 1, p_kstack := 4096, p_pgdir := 8192\<rparr>,
      1 := zero_proc\<lparr>p_state := st, p_pid := 2, p_parent := Some 0, p_kstack := 4096, p_pgdir := 8192\<rparr>,
      2 := zero_proc\<lparr>p_state := RUNNABLE, p_pid := 3, p_parent := Some 1, p_kstack := 4096, p_pgdir := 8192\<rparr>],
     curproc := Some 0, nextpid := 4, initproc := Some 0, locks := [PtableLock]\<rparr>"

lemma family_sel [simp]:
  "curproc (family st) = Some 0" "locks (family st) = [PtableLock]" "initproc (family st) = Some 0"
  "length (procs (family st)) = NPROC" "nextpid (family st) = 4"
  "procs (family st) ! 0 = zero_proc\<lparr>p_state := RUNNING, p_pid := 1, p_kstack := 4096, p_pgdir := 8192\<rparr>"
  "procs (family st) ! Suc 0 = zero_proc\<lparr>p_state := st, p_pid := 2, p_parent := Some 0, p_kstack := 4096, p_pgdir := 8192\<rparr>"
  "procs (family st) ! 2 = zero_proc\<lparr>p_state := RUNNABLE, p_pid := 3, p_parent := Some 1, p_kstack := 4096, p_pgdir := 8192\<rparr>"
  by (simp_all add: family_def NPROC_def)

lemma family_rest: "2 < k \<Longrightarrow> k < NPROC \<Longrightarrow> procs (family st) ! k = zero_proc"
  by (simp add: family_def nth_list_update)

subsection \<open>Handing over the children\<close>

lemma reparent_nth:
  assumes "j < length (procs s)"
  shows "p_parent (procs (reparent cur k s) ! j) =
      (if j = k \<and> p_parent (procs s ! j) = Some cur then initproc s else p_parent (procs s ! j))"
    and "initproc (reparent cur k s) = initproc s" and "length (procs (reparent cur k s)) = length (procs s)"
    and "locks (reparent cur k s) = locks s" and "curproc (reparent cur k s) = curproc s"
    and "p_state (procs s ! j) \<noteq> SLEEPING \<Longrightarrow> p_state (procs (reparent cur k s) ! j) = p_state (procs s ! j)"
proof -
  have p: "p_parent ((procs s)[k := (procs s ! k)\<lparr>p_parent := v\<rparr>] ! j) = (if j = k then v else p_parent (procs s ! j))" for v
    using assms by (cases "j = k") simp_all
  show "p_parent (procs (reparent cur k s) ! j) =
      (if j = k \<and> p_parent (procs s ! j) = Some cur then initproc s else p_parent (procs s ! j))"
    using assms p by (auto simp: reparent_def Let_def wakeup_proc_def upd_proc_def wakeup1_nth split: option.split)
  show "p_state (procs s ! j) \<noteq> SLEEPING \<Longrightarrow> p_state (procs (reparent cur k s) ! j) = p_state (procs s ! j)"
    using assms by (simp add: reparent_def Let_def wakeup_proc_def upd_proc_def wakeup1_nth nth_update_same
        split: option.split)
qed (use assms in \<open>auto simp: reparent_def Let_def wakeup_proc_def upd_proc_def split: option.split\<close>)

lemma fold_reparent_nth:
  assumes "j < length (procs s)" and "distinct ks"
  shows "p_parent (procs (fold (reparent cur) ks s) ! j) =
      (if j \<in> set ks \<and> p_parent (procs s ! j) = Some cur then initproc s else p_parent (procs s ! j))
    \<and> locks (fold (reparent cur) ks s) = locks s \<and> curproc (fold (reparent cur) ks s) = curproc s
    \<and> length (procs (fold (reparent cur) ks s)) = length (procs s)
    \<and> (p_state (procs s ! j) \<noteq> SLEEPING \<longrightarrow> p_state (procs (fold (reparent cur) ks s) ! j) = p_state (procs s ! j))"
  using assms
proof (induction ks arbitrary: s)
  case (Cons k ks)
  note r = reparent_nth [OF Cons.prems(1), of cur k]
  have "j < length (procs (reparent cur k s))" "distinct ks" using Cons.prems r(3) by auto
  from Cons.IH [OF this] show ?case using r Cons.prems(2) by auto
qed simp

lemma wakeup_proc_nth:
  assumes "j < length (procs s)"
  shows "p_parent (procs (wakeup_proc q s) ! j) = p_parent (procs s ! j)"
    and "q = Some j \<Longrightarrow> p_state (procs s ! j) = SLEEPING \<Longrightarrow> p_chan (procs s ! j) = Some (ChProc j)
      \<Longrightarrow> p_state (procs (wakeup_proc q s) ! j) = RUNNABLE"
    and "p_state (procs s ! j) \<noteq> SLEEPING \<Longrightarrow> p_state (procs (wakeup_proc q s) ! j) = p_state (procs s ! j)"
    and "locks (wakeup_proc q s) = locks s" "curproc (wakeup_proc q s) = curproc s"
    "initproc (wakeup_proc q s) = initproc s" "length (procs (wakeup_proc q s)) = length (procs s)"
  using assms by (auto simp: wakeup_proc_def wakeup1_nth split: option.splits)

subsection \<open>Properties\<close>



text \<open>The pid after the last one an \<open>int\<close> holds is negative, which the callers of \<open>fork\<close> take for a failure.\<close>

theorem next_pid_overflows:
  assumes "allocproc fr s = Ok (Some i) t" and "length (procs s) = NPROC" and "nextpid s = 2147483647"
  shows "nextpid t = - 2147483648"
  using allocproc_entry [OF assms(1,2)] assms(3) by (auto simp: entry_def int32_overflow)

text \<open>C20: \<open>exit\<close>, once its files are closed, makes the process a zombie and gives up the CPU.  Every child
  of it, and no other process, gets \<open>init\<close> as its parent, and a parent that waits is made runnable.\<close>

theorem exit_hands_over_children:
  assumes "length (procs s) = NPROC" and "locks s = [PtableLock]" and "curproc s = Some i" and "i < NPROC"
    and "p_state (procs s ! i) = RUNNING"
  shows "\<exists>t. exit_locked i s = (Switched t :: (_, unit) outcome) \<and> p_state (procs t ! i) = ZOMBIE
    \<and> (\<forall>j < NPROC. p_parent (procs t ! j)
        = (if p_parent (procs s ! j) = Some i then initproc s else p_parent (procs s ! j)))
    \<and> (\<forall>q < NPROC. p_parent (procs s ! i) = Some q \<and> q \<noteq> i \<and> p_state (procs s ! q) = SLEEPING
        \<and> p_chan (procs s ! q) = Some (ChProc q) \<longrightarrow> p_state (procs t ! q) = RUNNABLE)"
proof -
  let ?w = "wakeup_proc (p_parent (procs s ! i)) s"
  let ?f = "fold (reparent i) [0..<NPROC] ?w"
  let ?t = "upd_proc i (\<lambda>p. p\<lparr>p_state := ZOMBIE\<rparr>) ?f"
  have w: "p_parent (procs ?w ! j) = p_parent (procs s ! j)" "initproc ?w = initproc s" "locks ?w = locks s"
    "curproc ?w = curproc s" "length (procs ?w) = NPROC" if "j < NPROC" for j
    using wakeup_proc_nth [of j s "p_parent (procs s ! i)"] that assms(1) by simp_all
  have f: "p_parent (procs ?f ! j) = (if p_parent (procs s ! j) = Some i then initproc s else p_parent (procs s ! j))"
    "locks ?f = [PtableLock]" "curproc ?f = Some i" "length (procs ?f) = NPROC"
    "p_state (procs ?w ! j) \<noteq> SLEEPING \<Longrightarrow> p_state (procs ?f ! j) = p_state (procs ?w ! j)" if "j < NPROC" for j
    using fold_reparent_nth [of j ?w "[0..<NPROC]" i] w [OF that] that assms(2,3) by simp_all
  have "exit_locked i s = (Switched ?t :: (_, unit) outcome)"
    using f [OF assms(4)] assms(4) by (simp add: exit_locked_def sched_def upd_proc_def)
  moreover have "p_state (procs ?t ! i) = ZOMBIE" using f(4) [OF assms(4)] assms(4) by (simp add: upd_proc_def)
  moreover have "p_parent (procs ?t ! j) = (if p_parent (procs s ! j) = Some i then initproc s else p_parent (procs s ! j))"
    if "j < NPROC" for j
    using f(1,4) [OF that] that by (simp add: upd_proc_def nth_update_same)
  moreover have "p_state (procs ?t ! q) = RUNNABLE"
    if "q < NPROC" "p_parent (procs s ! i) = Some q \<and> q \<noteq> i \<and> p_state (procs s ! q) = SLEEPING
        \<and> p_chan (procs s ! q) = Some (ChProc q)" for q
  proof -
    have "p_state (procs ?w ! q) = RUNNABLE"
      using wakeup_proc_nth(2) [of q s "p_parent (procs s ! i)"] that assms(1) by simp
    then show ?thesis using f(4,5) [OF that(1)] that by (simp add: upd_proc_def nth_list_update)
  qed
  ultimately show ?thesis by blast
qed

lemma exit_hands_over_children_witness:
  "\<exists>t. exit_locked 1 ((family RUNNING)\<lparr>curproc := Some 1\<rparr>) = (Switched t :: (_, unit) outcome)
    \<and> p_state (procs t ! 1) = ZOMBIE \<and> p_parent (procs t ! 2) = Some 0"
  using exit_hands_over_children [of "(family RUNNING)\<lparr>curproc := Some 1\<rparr>" 1]
  by (auto simp: NPROC_def)

text \<open>C21: \<open>wait\<close> with no zombie child: with no child at all, or killed, it returns \<open>-1\<close> and releases the
  lock; otherwise it sleeps on its own channel, which is the one \<open>exit\<close> wakes.\<close>

theorem wait_without_zombie:
  assumes "length (procs s) = NPROC" and "locks s = [PtableLock]" and "curproc s = Some i" and "i < NPROC"
    and "\<forall>j < NPROC. p_parent (procs s ! j) = Some i \<longrightarrow> p_state (procs s ! j) \<noteq> ZOMBIE"
  shows "if (\<exists>j < NPROC. p_parent (procs s ! j) = Some i) \<and> \<not> p_killed (procs s ! i)
    then \<exists>t. wait_locked i s = Switched t \<and> locks t = [PtableLock]
      \<and> p_state (procs t ! i) = SLEEPING \<and> p_chan (procs t ! i) = Some (ChProc i)
    else wait_locked i s = Ok (- 1) (s\<lparr>locks := []\<rparr>)"
proof -
  have n: "find (\<lambda>j. p_parent (procs s ! j) = Some i \<and> p_state (procs s ! j) = ZOMBIE) [0..<NPROC] = None"
    using assms(5) by (auto simp: find_upt_None)
  have k: "(\<exists>j \<in> set [0..<NPROC]. p_parent (procs s ! j) = Some i) = (\<exists>j < NPROC. p_parent (procs s ! j) = Some i)"
    by auto
  show ?thesis
  proof (cases "(\<exists>j < NPROC. p_parent (procs s ! j) = Some i) \<and> \<not> p_killed (procs s ! i)")
    case True
    then have "wait_locked i s = sleep (ChProc i) PtableLock s"
      using n by (auto simp: wait_locked_def)
    also have "\<dots> = Switched (upd_proc i (\<lambda>q. q\<lparr>p_chan := Some (ChProc i), p_state := SLEEPING\<rparr>) s)"
      using assms(1-4) by (simp add: sleep_def sched_def upd_proc_def)
    finally show ?thesis using True assms(1,2,4) by (simp add: upd_proc_def)
  next
    case False
    have "wait_locked i s = bind (release PtableLock) (\<lambda>_. ret (- 1)) s"
      unfolding wait_locked_def bind_prims n option.case k using False by auto
    then show ?thesis unfolding if_not_P [OF False] using assms(2) by simp
  qed
qed

lemma wait_without_zombie_witness:
  "\<exists>t. wait_locked 0 (family RUNNABLE) = Switched t \<and> p_chan (procs t ! 0) = Some (ChProc 0)"
proof -
  have "p_parent (procs (family RUNNABLE) ! j) = Some 0 \<longrightarrow> p_state (procs (family RUNNABLE) ! j) \<noteq> ZOMBIE"
    if "j < NPROC" for j
  proof -
    have "j = 0 \<or> j = 1 \<or> j = 2 \<or> 2 < j" by linarith
    then show ?thesis using family_rest [of j RUNNABLE] that by (auto simp: zero_proc_def)
  qed
  moreover have "\<exists>j < NPROC. p_parent (procs (family RUNNABLE) ! j) = Some 0"
    by (intro exI [of _ 1]) (simp add: NPROC_def)
  ultimately show ?thesis
    using wait_without_zombie [of "family RUNNABLE" 0] by (auto simp: NPROC_def zero_proc_def)
qed

text \<open>The scheduler runs the first runnable process of its scan: with no process running, a scan from
  entry \<open>k\<close> makes the lowest runnable entry from \<open>k\<close> on the current one, running on its own stack
  and page table, and changes no other entry; with none left it releases the lock.\<close>

theorem scheduler_runs_first:
  assumes "length (procs s) = NPROC" and "locks s = [PtableLock]"
    and "\<forall>i < NPROC. p_state (procs s ! i) = RUNNABLE \<longrightarrow> p_kstack (procs s ! i) \<noteq> 0 \<and> p_pgdir (procs s ! i) \<noteq> 0"
  shows "if (\<exists>i < NPROC. k \<le> i \<and> p_state (procs s ! i) = RUNNABLE)
    then \<exists>i t. scheduler_pick k s = Ok (Some i) t \<and> k \<le> i \<and> i < NPROC \<and> p_state (procs s ! i) = RUNNABLE
      \<and> (\<forall>j. k \<le> j \<and> j < i \<longrightarrow> p_state (procs s ! j) \<noteq> RUNNABLE)
      \<and> procs t = (procs s)[i := (procs s ! i)\<lparr>p_state := RUNNING\<rparr>] \<and> curproc t = Some i
      \<and> cr3 t = V2P (p_pgdir (procs s ! i)) \<and> ts_esp0 t = p_kstack (procs s ! i) + word_of_nat KSTACKSIZE
    else scheduler_pick k s = Ok None (s\<lparr>locks := []\<rparr>)"
proof (cases "find (\<lambda>i. p_state (procs s ! i) = RUNNABLE) [k..<NPROC]")
  case None
  then have "\<not> (\<exists>i < NPROC. k \<le> i \<and> p_state (procs s ! i) = RUNNABLE)" by (auto simp: find_None_iff)
  then show ?thesis using None assms(2) by (simp add: scheduler_pick_def)
next
  case (Some i)
  then obtain m where m: "k + m = i" "i < NPROC" "p_state (procs s ! i) = RUNNABLE"
    "\<forall>j < m. p_state (procs s ! (k + j)) \<noteq> RUNNABLE"
    by (auto simp: find_Some_iff)
  have low: "p_state (procs s ! j) \<noteq> RUNNABLE" if "k \<le> j" "j < i" for j
    using m(4) that m(1) by (metis add_less_cancel_left le_iff_add)
  have nz: "p_kstack (procs s ! i) \<noteq> 0" "p_pgdir (procs s ! i) \<noteq> 0" using assms(3) m(2,3) by auto
  have "\<exists>t. scheduler_pick k s = Ok (Some i) t \<and> procs t = (procs s)[i := (procs s ! i)\<lparr>p_state := RUNNING\<rparr>]
      \<and> curproc t = Some i \<and> cr3 t = V2P (p_pgdir (procs s ! i))
      \<and> ts_esp0 t = p_kstack (procs s ! i) + word_of_nat KSTACKSIZE"
    using Some nz by (simp add: scheduler_pick_def switchuvm_def upd_proc_def)
  moreover have "\<exists>i < NPROC. k \<le> i \<and> p_state (procs s ! i) = RUNNABLE" using m by auto
  moreover have "k \<le> i" using m(1) by simp
  ultimately show ?thesis using low m(2,3) by auto
qed

lemma scheduler_runs_first_witness:
  "\<exists>t. scheduler_pick 1 (family SLEEPING) = Ok (Some 2) t \<and> p_state (procs t ! 2) = RUNNING"
proof -
  have rest: "p_state (procs (family SLEEPING) ! i) = RUNNABLE \<Longrightarrow> i < NPROC \<Longrightarrow> i = 2" for i
  proof -
    assume a: "p_state (procs (family SLEEPING) ! i) = RUNNABLE" "i < NPROC"
    have "i = 0 \<or> i = 1 \<or> i = 2 \<or> 2 < i" by linarith
    then show "i = 2" using a family_rest [of i SLEEPING] by (auto simp: zero_proc_def)
  qed
  have "\<exists>i < NPROC. 1 \<le> i \<and> p_state (procs (family SLEEPING) ! i) = RUNNABLE"
    by (intro exI [of _ 2]) (simp add: NPROC_def)
  moreover have "\<forall>i < NPROC. p_state (procs (family SLEEPING) ! i) = RUNNABLE
      \<longrightarrow> p_kstack (procs (family SLEEPING) ! i) \<noteq> 0 \<and> p_pgdir (procs (family SLEEPING) ! i) \<noteq> 0"
    using rest by fastforce
  ultimately obtain i t where t: "scheduler_pick 1 (family SLEEPING) = Ok (Some i) t" "i < NPROC"
    "p_state (procs (family SLEEPING) ! i) = RUNNABLE"
    "procs t = (procs (family SLEEPING))[i := (procs (family SLEEPING) ! i)\<lparr>p_state := RUNNING\<rparr>]"
    using scheduler_runs_first [of "family SLEEPING" 1] by auto
  then show ?thesis using rest [OF t(3,2)] by (auto simp: NPROC_def)
qed

end
