(* ===== verification/Console_Props.thy ===== *)
theory Console_Props
  imports Console Ring
begin

text \<open>
  The console's input.  The ring holds two things: complete lines, between the counters \<open>r\<close> and \<open>w\<close>,
  for the readers to take, and between \<open>w\<close> and \<open>e\<close> the line that is still being edited.
\<close>

subsection \<open>The ring\<close>

definition con_chars :: "inputbuf \<Rightarrow> bytes" where
  "con_chars i = between INPUT_BUF (in_buf i) (in_r i) (in_e i)"

definition con_ready :: "inputbuf \<Rightarrow> bytes" where
  "con_ready i = between INPUT_BUF (in_buf i) (in_r i) (in_w i)"

definition con_edit :: "inputbuf \<Rightarrow> bytes" where
  "con_edit i = between INPUT_BUF (in_buf i) (in_w i) (in_e i)"

definition con_ring :: "inputbuf \<Rightarrow> bool" where
  "con_ring i \<longleftrightarrow> length (in_buf i) = INPUT_BUF \<and> unat (in_e i - in_r i) \<le> INPUT_BUF"

definition con_put :: "uchar \<Rightarrow> inputbuf \<Rightarrow> inputbuf" where
  "con_put c i = i\<lparr>in_buf := (in_buf i)[unat (in_e i) mod INPUT_BUF := c], in_e := in_e i + 1\<rparr>"

definition con_get :: "inputbuf \<Rightarrow> uchar \<times> inputbuf" where
  "con_get i = (input_at i (in_r i), i\<lparr>in_r := in_r i + 1\<rparr>)"

definition con_full :: "inputbuf \<Rightarrow> bool" where
  "con_full i \<longleftrightarrow> \<not> unat (in_e i - in_r i) < INPUT_BUF"

lemma input_buf: "INPUT_BUF dvd 2 ^ 32" "0 < INPUT_BUF" "INPUT_BUF < 2 ^ 32"
  by (simp_all add: INPUT_BUF_def)

lemma con_put_simps:
  assumes "con_ring i" and "\<not> con_full i"
  shows "con_ring (con_put c i)" "con_chars (con_put c i) = con_chars i @ [c]"
proof -
  have n: "unat (in_e i - in_r i) < INPUT_BUF" "length (in_buf i) = INPUT_BUF"
    using assms by (auto simp: con_ring_def con_full_def)
  show chars: "con_chars (con_put c i) = con_chars i @ [c]"
    using between_put [OF input_buf n] by (simp add: con_chars_def con_put_def)
  have "unat (in_e i + 1 - in_r i) = Suc (unat (in_e i - in_r i))"
    using arg_cong [OF chars, of length] by (simp add: con_chars_def con_put_def)
  then show "con_ring (con_put c i)" using n by (simp add: con_ring_def con_put_def)
qed

lemma con_get_simps:
  assumes "con_ring i" and "in_r i \<noteq> in_e i"
  shows "con_ring (snd (con_get i))" "con_chars i = fst (con_get i) # con_chars (snd (con_get i))"
proof -
  show chars: "con_chars i = fst (con_get i) # con_chars (snd (con_get i))"
    using between_get [OF assms(2)] by (simp add: con_chars_def con_get_def input_at_def)
  show "con_ring (snd (con_get i))"
    using arg_cong [OF chars, of length] assms(1) by (simp add: con_chars_def con_ring_def con_get_def)
qed

lemma between_empty: "between N d r w = [] \<longleftrightarrow> r = w"
  by (metis between_same length_between length_0_conv eq_iff_diff_eq_0 unat_eq_zero)

interpretation cr: fifo con_chars con_ring con_put con_get con_full "\<lambda>i. in_r i = in_e i" INPUT_BUF
  by unfold_locales
    (simp_all add: con_put_simps con_get_simps(1) con_get_simps(2) [symmetric],
     auto simp: con_chars_def con_ring_def con_full_def between_empty)

text \<open>The invariant of the console's input: the ring, and no line end in the line being edited.\<close>

definition line_end :: "uchar \<Rightarrow> bool" where
  "line_end c \<longleftrightarrow> c = 10 \<or> c = 4"

definition con_ok :: "inputbuf \<Rightarrow> bool" where
  "con_ok i \<longleftrightarrow> con_ring i \<and> unat (in_w i - in_r i) \<le> unat (in_e i - in_r i)
     \<and> (\<forall>c \<in> set (con_edit i). \<not> line_end c)"

text \<open>The counter \<open>w\<close> cuts the characters in the ring.\<close>

definition con_cuts :: "inputbuf \<Rightarrow> bool" where
  "con_cuts i \<longleftrightarrow> unat (in_w i - in_r i) \<le> unat (in_e i - in_r i)"

lemma con_parts:
  assumes "con_cuts i"
  shows "con_ready i = take (unat (in_w i - in_r i)) (con_chars i)"
    and "con_edit i = drop (unat (in_w i - in_r i)) (con_chars i)"
    and "con_chars i = con_ready i @ con_edit i"
  using between_cut [OF assms [unfolded con_cuts_def], of INPUT_BUF "in_buf i"]
  by (simp_all add: con_chars_def con_ready_def con_edit_def)

lemma con_ok_iff: "con_ok i \<longleftrightarrow> con_ring i \<and> con_cuts i \<and> (\<forall>c \<in> set (con_edit i). \<not> line_end c)"
  by (simp add: con_ok_def con_cuts_def)

lemma con_cut: "con_ok i \<Longrightarrow> con_chars i = con_ready i @ con_edit i"
  by (simp add: con_ok_iff con_parts(3))

lemma con_room: "con_ok i \<Longrightarrow> con_full i \<longleftrightarrow> INPUT_BUF \<le> length (con_ready i) + length (con_edit i)"
  using arg_cong [OF con_cut [of i], of length] by (auto simp: con_chars_def con_full_def)

lemma con_edit_empty: "in_e i = in_w i \<longleftrightarrow> con_edit i = []"
  by (auto simp: con_edit_def between_empty)

lemma con_ready_empty: "in_r i = in_w i \<longleftrightarrow> con_ready i = []"
  by (simp add: con_ready_def between_empty)

text \<open>The steps on the ring: a character more, the line complete, a character less, a character read.\<close>

lemma con_put_parts:
  assumes "con_ok i" and "\<not> con_full i"
  shows "con_ring (con_put c i)" "con_cuts (con_put c i)"
    "con_ready (con_put c i) = con_ready i" "con_edit (con_put c i) = con_edit i @ [c]"
proof -
  have i: "con_ring i" "con_cuts i" using assms(1) by (simp_all add: con_ok_iff)
  note j = con_put_simps [OF i(1) assms(2), of c]
  show "con_ring (con_put c i)" by (rule j(1))
  have n: "unat (in_e i + 1 - in_r i) = Suc (unat (in_e i - in_r i))"
    using arg_cong [OF j(2), of length] by (simp add: con_chars_def con_put_def)
  with i(2) show cuts: "con_cuts (con_put c i)" by (simp add: con_cuts_def con_put_def)
  have w: "unat (in_w (con_put c i) - in_r (con_put c i)) = unat (in_w i - in_r i)"
    "unat (in_w i - in_r i) \<le> length (con_chars i)"
    using i(2) by (simp_all add: con_put_def con_cuts_def con_chars_def)
  show "con_ready (con_put c i) = con_ready i" "con_edit (con_put c i) = con_edit i @ [c]"
    unfolding con_parts(1,2) [OF cuts] con_parts(1,2) [OF i(2)] w(1) j(2) using w(2) by simp_all
qed

lemma con_insert:
  assumes "con_ok i" and "\<not> con_full i" and "\<not> line_end c"
  shows "con_ok (con_put c i)"
  using assms con_put_parts [OF assms(1,2), of c] by (auto simp: con_ok_iff)

lemma con_commit:
  assumes "con_ring j" and "con_cuts j"
  shows "con_ok (j\<lparr>in_w := in_e j\<rparr>)" "con_ready (j\<lparr>in_w := in_e j\<rparr>) = con_ready j @ con_edit j"
    "con_edit (j\<lparr>in_w := in_e j\<rparr>) = []"
  using assms con_parts(3) [OF assms(2)]
  by (simp_all add: con_ok_iff con_ring_def con_cuts_def con_ready_def con_edit_def con_chars_def)

lemma con_erase:
  assumes "con_ok i" and "con_edit i \<noteq> []"
  shows "con_ok (i\<lparr>in_e := in_e i - 1\<rparr>)" "con_ready (i\<lparr>in_e := in_e i - 1\<rparr>) = con_ready i"
    "con_edit (i\<lparr>in_e := in_e i - 1\<rparr>) = butlast (con_edit i)" "input_at i (in_e i - 1) = last (con_edit i)"
proof -
  let ?j = "i\<lparr>in_e := in_e i - 1\<rparr>"
  have i: "con_ring i" "con_cuts i" using assms(1) by (simp_all add: con_ok_iff)
  have ne: "in_w i \<noteq> in_e i" using assms(2) con_edit_empty by metis
  note last = between_drop_last [OF ne, of INPUT_BUF "in_buf i"]
  show r: "con_ready ?j = con_ready i" by (simp add: con_ready_def)
  show e: "con_edit ?j = butlast (con_edit i)" using last(1) by (simp add: con_edit_def)
  show "input_at i (in_e i - 1) = last (con_edit i)" using last(2) by (simp add: input_at_def con_edit_def)
  have w: "unat (in_e i - in_w i) = unat (in_e i - in_r i) - unat (in_w i - in_r i)"
    by (rule unat_between) (use i(2) in \<open>simp add: con_cuts_def\<close>)
  have "in_e i \<noteq> in_r i" using i(2) ne by (metis con_cuts_def le_zero_eq unat_eq_zero eq_iff_diff_eq_0)
  from unat_pred_diff [OF this] have n: "unat (in_e i - in_r i) = Suc (unat (in_e i - 1 - in_r i))"
    by (simp add: algebra_simps)
  have "unat (in_e i - in_w i) \<noteq> 0" using ne by (simp add: unat_eq_zero)
  then have "con_ring ?j" "con_cuts ?j" using i n w by (simp_all add: con_ring_def con_cuts_def)
  then show "con_ok ?j" using e assms(1) by (auto simp: con_ok_iff dest: in_set_butlastD)
qed

lemma con_take:
  assumes "con_ok i" and "con_ready i \<noteq> []"
  shows "con_ok (i\<lparr>in_r := in_r i + 1\<rparr>)" "con_ready i = input_at i (in_r i) # con_ready (i\<lparr>in_r := in_r i + 1\<rparr>)"
    "con_edit (i\<lparr>in_r := in_r i + 1\<rparr>) = con_edit i"
proof -
  let ?j = "i\<lparr>in_r := in_r i + 1\<rparr>"
  have i: "con_ring i" "con_cuts i" using assms(1) by (simp_all add: con_ok_iff)
  have ne: "in_r i \<noteq> in_w i" using assms(2) con_ready_empty by metis
  then show "con_ready i = input_at i (in_r i) # con_ready ?j"
    using between_get [OF ne] by (simp add: con_ready_def input_at_def)
  show e: "con_edit ?j = con_edit i" by (simp add: con_edit_def)
  have "in_r i \<noteq> in_e i" using i(2) ne by (metis con_cuts_def le_zero_eq unat_eq_zero eq_iff_diff_eq_0)
  then have "con_ring ?j" "con_cuts ?j"
    using i unat_pred_diff [of "in_e i" "in_r i"] unat_pred_diff [of "in_w i" "in_r i"] ne
    by (auto simp: con_ring_def con_cuts_def)
  then show "con_ok ?j" using e assms(1) by (simp add: con_ok_iff)
qed

subsection \<open>Echo\<close>

text \<open>The console prints: the kernel has not panicked and the cursor is on one of the first 24 lines.\<close>

definition con_live :: "'z cstate_scheme \<Rightarrow> bool" where
  "con_live s \<longleftrightarrow> \<not> panicked s \<and> 0 \<le> crt_pos s \<and> crt_pos s < 24 * 80"

text \<open>
  What the console's interrupt may change: its input, what is on the screen and on the serial line,
  and, if it wakes the readers, the states of those that sleep.
\<close>

definition con_frame :: "bool \<Rightarrow> 'z cstate_scheme \<Rightarrow> 'z cstate_scheme \<Rightarrow> bool" where
  "con_frame woke s t \<longleftrightarrow> con_live t \<and> (\<exists>i o' scr p.
     t = (if woke then wakeup1 ChInput s else s)\<lparr>input := i, uart_out := o', crt := scr, crt_pos := p\<rparr>)"

lemma wakeup1_con_sel [simp]:
  "input (wakeup1 c s) = input s" "panicked (wakeup1 c s) = panicked s" "uart_out (wakeup1 c s) = uart_out s"
  "crt (wakeup1 c s) = crt s" "crt_pos (wakeup1 c s) = crt_pos s"
  by (simp_all add: wakeup1_def)

lemma wakeup1_twice: "wakeup1 c (wakeup1 c s) = wakeup1 c s"
  by (simp add: wakeup1_def comp_def)

lemma wakeup1_con_upd:
  "wakeup1 c (s\<lparr>input := i, uart_out := o', crt := scr, crt_pos := p\<rparr>) =
     (wakeup1 c s)\<lparr>input := i, uart_out := o', crt := scr, crt_pos := p\<rparr>"
  by (simp add: wakeup1_def)

lemma con_frame_trans:
  assumes "con_frame a s t" and "con_frame b t u"
  shows "con_frame (a \<or> b) s u"
proof -
  obtain i o' scr p where t: "t = (if a then wakeup1 ChInput s else s)\<lparr>input := i, uart_out := o', crt := scr, crt_pos := p\<rparr>"
    using assms(1) by (auto simp: con_frame_def)
  obtain i' o'' scr' p' where
    u: "u = (if b then wakeup1 ChInput t else t)\<lparr>input := i', uart_out := o'', crt := scr', crt_pos := p'\<rparr>"
    using assms(2) by (auto simp: con_frame_def)
  have "u = (if a \<or> b then wakeup1 ChInput s else s)\<lparr>input := i', uart_out := o'', crt := scr', crt_pos := p'\<rparr>"
    unfolding u t by (cases a; cases b) (simp_all add: wakeup1_con_upd wakeup1_twice)
  then show ?thesis using assms(2) unfolding con_frame_def by blast
qed

lemma con_frame_sel:
  "con_frame w s t \<Longrightarrow> con_live t" "con_frame w s t \<Longrightarrow> locks t = locks s"
  "con_frame w s t \<Longrightarrow> curproc t = curproc s"
  by (auto simp: con_frame_def)

lemma con_frame_input: "con_live s \<Longrightarrow> con_frame False s (upd_input f s)"
  by (auto simp: con_frame_def upd_input_def con_live_def intro!: exI [of _ "uart_out s"] exI [of _ "crt s"]
      exI [of _ "crt_pos s"])

lemma con_frame_refl: "con_live s \<Longrightarrow> con_frame False s s"
  unfolding con_frame_def
  by (auto intro!: exI [of _ "input s"] exI [of _ "uart_out s"] exI [of _ "crt s"] exI [of _ "crt_pos s"])

text \<open>Output that comes back.\<close>

definition con_shows :: "('z, unit) cop \<Rightarrow> bool" where
  "con_shows m \<longleftrightarrow> (\<forall>s. con_live s \<longrightarrow> (\<exists>t. m s = Ok () t \<and> con_frame False s t \<and> input t = input s))"

lemma con_shows_bind:
  assumes "con_shows m" and "con_shows n"
  shows "con_shows (bind m (\<lambda>_. n))"
  unfolding con_shows_def
proof (intro allI impI)
  fix s :: "'a cstate_scheme"
  assume "con_live s"
  with assms(1) obtain t where t: "m s = Ok () t" "con_frame False s t" "input t = input s"
    unfolding con_shows_def by blast
  with assms(2) obtain u where "n t = Ok () u" "con_frame False t u" "input u = input t"
    unfolding con_shows_def using con_frame_sel(1) by blast
  with t show "\<exists>t. bind m (\<lambda>_. n) s = Ok () t \<and> con_frame False s t \<and> input t = input s"
    using con_frame_trans [of False s t False u] by simp
qed

lemma cga_move_range:
  assumes "0 \<le> pos" and "pos < 1920"
  shows "0 \<le> cga_move c pos \<and> cga_move c pos \<le> 1920"
proof -
  have "pos - pos mod 80 = 80 * (pos div 80)" by (simp add: minus_mod_eq_mult_div)
  moreover have "pos div 80 < 24" using assms by simp
  ultimately show ?thesis using assms by (auto simp: cga_move_def)
qed

lemma con_frame_screen:
  assumes "con_live s" and "0 \<le> p" and "p < 1920"
  shows "con_frame False s (s\<lparr>crt := scr, crt_pos := p\<rparr>)"
proof -
  have "s\<lparr>crt := scr, crt_pos := p\<rparr> = s\<lparr>input := input s, uart_out := uart_out s, crt := scr, crt_pos := p\<rparr>"
    by simp
  moreover have "con_live (s\<lparr>crt := scr, crt_pos := p\<rparr>)" using assms by (simp add: con_live_def)
  ultimately show ?thesis unfolding con_frame_def if_False by blast
qed

lemma cgaputc_shows: "con_shows (cgaputc c)"
  unfolding con_shows_def
proof (intro allI impI)
  fix s :: "'a cstate_scheme"
  assume s: "con_live s"
  define pos where "pos = cga_move c (crt_pos s)"
  define p where "p = (if pos div 80 \<ge> 24 then pos - 80 else pos)"
  have pos: "0 \<le> pos" "pos \<le> 1920" unfolding pos_def using cga_move_range [of "crt_pos s" c] s
    by (simp_all add: con_live_def)
  then have p: "0 \<le> p" "p < 1920" by (auto simp: p_def)
  define scr where "scr = (if pos div 80 \<ge> 24 then cga_scroll p (cga_write c (crt_pos s) (crt s))
    else cga_write c (crt_pos s) (crt s))[nat p := cga_char 32]"
  have "cgaputc c s = Ok () (s\<lparr>crt := scr, crt_pos := p\<rparr>)"
    using pos unfolding cgaputc_def Let_def scr_def p_def bind_prims pos_def [symmetric]
    by (cases "pos div 80 \<ge> 24") (simp_all add: panic_if_def)
  then show "\<exists>t. cgaputc c s = Ok () t \<and> con_frame False s t \<and> input t = input s"
    using con_frame_screen [OF s p] by simp
qed

lemma uartputc_shows: "con_shows (uartputc c)"
proof -
  have "con_frame False s (s\<lparr>uart_out := x\<rparr>)" if "con_live s" for s :: "'a cstate_scheme" and x
    unfolding con_frame_def using that
    by (auto simp: con_live_def intro!: exI [of _ "input s"] exI [of _ "crt s"] exI [of _ "crt_pos s"])
  then show ?thesis by (simp add: con_shows_def uartputc_def con_frame_refl)
qed

lemma consputc_live:
  "con_live s \<Longrightarrow> consputc c s = bind (if c = BACKSPACE
     then bind (uartputc 8) (\<lambda>_. bind (uartputc 32) (\<lambda>_. uartputc 8)) else uartputc c) (\<lambda>_. cgaputc c) s"
  by (simp only: consputc_def bind_prims con_live_def if_False simp_thms)

lemma consputc_shows: "con_shows (consputc c)"
proof -
  let ?m = "bind (if c = BACKSPACE then bind (uartputc 8) (\<lambda>_. bind (uartputc 32) (\<lambda>_. uartputc 8))
     else uartputc c) (\<lambda>_. cgaputc c) :: ('a, unit) cop"
  have m: "con_shows ?m" by (simp add: con_shows_bind uartputc_shows cgaputc_shows)
  have "\<exists>t. consputc c s = Ok () t \<and> con_frame False s t \<and> input t = input s" if "con_live s" for s :: "'a cstate_scheme"
    unfolding consputc_live [OF that] using m that unfolding con_shows_def by blast
  then show ?thesis unfolding con_shows_def by blast
qed

lemma consputs_shows: "con_shows (consputs cs)"
  by (induction cs) (simp_all add: con_shows_bind consputc_shows, simp add: con_shows_def con_frame_refl)

lemma con_frame_unlock:
  assumes "con_frame w (s\<lparr>locks := k\<rparr>) t"
  shows "con_frame w s (t\<lparr>locks := locks s\<rparr>)"
proof -
  obtain i o' scr p where
    t: "t = (if w then wakeup1 ChInput (s\<lparr>locks := k\<rparr>) else s\<lparr>locks := k\<rparr>)\<lparr>input := i, uart_out := o', crt := scr, crt_pos := p\<rparr>"
    using assms by (auto simp: con_frame_def)
  have "t\<lparr>locks := locks s\<rparr> = (if w then wakeup1 ChInput s else s)\<lparr>input := i, uart_out := o', crt := scr, crt_pos := p\<rparr>"
    unfolding t by (simp add: wakeup1_def)
  moreover have "con_live (t\<lparr>locks := locks s\<rparr>)" using assms by (simp add: con_frame_def con_live_def)
  ultimately show ?thesis unfolding con_frame_def by blast
qed

subsection \<open>Printing with the lock\<close>

text \<open>Output that comes back when the console's lock is free.\<close>

definition con_prints :: "('z, unit) cop \<Rightarrow> bool" where
  "con_prints m \<longleftrightarrow> (\<forall>s. con_live s \<longrightarrow> ConsLock \<notin> set (locks s) \<longrightarrow>
     (\<exists>t. m s = Ok () t \<and> con_frame False s t \<and> input t = input s))"

named_theorems con_prints_intros \<open>rules for output that comes back\<close>

lemma con_prints_bind [con_prints_intros]:
  assumes "con_prints m" and "con_prints n"
  shows "con_prints (bind m (\<lambda>_. n))"
  unfolding con_prints_def
proof (intro allI impI)
  fix s :: "'a cstate_scheme"
  assume s: "con_live s" "ConsLock \<notin> set (locks s)"
  with assms(1) obtain t where t: "m s = Ok () t" "con_frame False s t" "input t = input s"
    unfolding con_prints_def by blast
  then have "con_live t" "ConsLock \<notin> set (locks t)" using con_frame_sel(1,2) s(2) by metis+
  with assms(2) obtain u where "n t = Ok () u" "con_frame False t u" "input u = input t"
    unfolding con_prints_def by blast
  with t show "\<exists>t. bind m (\<lambda>_. n) s = Ok () t \<and> con_frame False s t \<and> input t = input s"
    using con_frame_trans [of False s t False u] by simp
qed

lemma con_prints_ret [con_prints_intros]: "con_prints (ret ())"
  by (simp add: con_prints_def con_frame_refl)

lemma con_prints_whenM [con_prints_intros]: "con_prints m \<Longrightarrow> con_prints (whenM c m)"
  by (cases c) (simp_all add: con_prints_def con_frame_refl)

lemma con_prints_reads [con_prints_intros]: "(\<And>x. con_prints (f x)) \<Longrightarrow> con_prints (bind (reads g) f)"
  by (simp add: con_prints_def)

lemma con_prints_each [con_prints_intros]:
  assumes "\<And>i. con_prints (m i)"
  shows "con_prints (bind (for_each is (\<lambda>i. bind (m i) (\<lambda>_. ret (None :: unit option)))) (\<lambda>_. ret ()))"
proof (induction "is")
  case (Cons i "is")
  let ?body = "\<lambda>i. bind (m i) (\<lambda>_. ret (None :: unit option))"
  have step: "bind (for_each (i # is) ?body) (\<lambda>_. ret ()) = bind (m i) (\<lambda>_. bind (for_each is ?body) (\<lambda>_. ret ()))"
  proof
    show "bind (for_each (i # is) ?body) (\<lambda>_. ret ()) s
      = bind (m i) (\<lambda>_. bind (for_each is ?body) (\<lambda>_. ret ())) s" for s
      by (cases "m i s") (simp_all add: bind_def)
  qed
  show ?case unfolding step by (rule con_prints_bind [OF assms [of i] Cons.IH])
qed (simp add: con_prints_def con_frame_refl)

lemma cprintf_prints:
  assumes "cprintf_out fmt args = Some out"
  shows "con_prints (cprintf (Some fmt) args)"
  unfolding con_prints_def
proof (intro allI impI)
  fix s :: "'a cstate_scheme"
  assume s: "con_live s" "ConsLock \<notin> set (locks s)"
  let ?s = "if cons_locking s then s\<lparr>locks := ConsLock # locks s\<rparr> else s"
  have "con_live ?s" using s(1) by (simp add: con_live_def)
  then obtain t where t: "consputs out ?s = Ok () t" "con_frame False ?s t" "input t = input ?s"
    using consputs_shows unfolding con_shows_def by blast
  let ?t = "t\<lparr>locks := locks s\<rparr>"
  have "locks t = locks ?s" by (rule con_frame_sel(2) [OF t(2)])
  moreover have "t\<lparr>locks := locks t\<rparr> = t" by simp
  ultimately have "cprintf (Some fmt) args s = Ok () ?t"
    using s(2) t(1) assms by (cases "cons_locking s") (simp_all add: cprintf_def)
  moreover have "con_frame False s ?t"
  proof (cases "cons_locking s")
    case True
    with t(2) have "con_frame False (s\<lparr>locks := ConsLock # locks s\<rparr>) t" by simp
    then show ?thesis by (rule con_frame_unlock)
  next
    case False
    with t(2) have f: "con_frame False s t" by simp
    have "?t = t" using con_frame_sel(2) [OF f] by simp
    with f show ?thesis by simp
  qed
  ultimately show "\<exists>t. cprintf (Some fmt) args s = Ok () t \<and> con_frame False s t \<and> input t = input s"
    using t(3) by (intro exI [of _ ?t]) simp
qed

lemma procdump_prints: "con_prints procdump"
proof -
  have fmt: "ascii ''%d %s %s'' = [37, 100, 32, 37, 115, 32, 37, 115]" "ascii '' %p'' = [32, 37, 112]"
    by (simp_all add: ascii_def of_char_def)
  have "con_prints (cprintf (Some (ascii ''%d %s %s'')) [Word a, Str (Some b), Str (Some c)])" for a b c
    unfolding fmt by (rule cprintf_prints) simp
  moreover have "con_prints (cprintf (Some (ascii '' %p'')) [Word a])" for a
    unfolding fmt by (rule cprintf_prints) simp
  moreover have "con_prints (cprintf (Some [10]) [])" by (rule cprintf_prints) simp
  ultimately show ?thesis
    unfolding procdump_def dump_proc_def print_pcs_def by (intro con_prints_intros)
qed

subsection \<open>The line editor\<close>

text \<open>
  What a key does to the complete lines and to the line being edited: Control-U clears the line,
  backspace and delete take its last character, Enter, Control-D or a full buffer complete it.
\<close>

fun type_key :: "bytes \<times> bytes \<Rightarrow> int \<Rightarrow> bytes \<times> bytes" where
  "type_key (ready, line) c =
     (if c = ctrl 80 then (ready, line)
      else if c = ctrl 85 then (ready, [])
      else if c = ctrl 72 \<or> c = 127 then (ready, butlast line)
      else if c = 0 \<or> INPUT_BUF \<le> length ready + length line then (ready, line)
      else let line = line @ [word_of_int (if c = 13 then 10 else c)] in
        if c = 10 \<or> c = 13 \<or> c = ctrl 68 \<or> length ready + length line = INPUT_BUF then (ready @ line, [])
        else (ready, line))"

definition con_lines :: "inputbuf \<Rightarrow> bytes \<times> bytes" where
  "con_lines i = (con_ready i, con_edit i)"

text \<open>\<open>typed w s t l\<close>: the console goes from \<open>s\<close> to \<open>t\<close>, where its lines are \<open>l\<close>, and wakes the readers if \<open>w\<close>.\<close>

definition typed :: "bool \<Rightarrow> 'z cstate_scheme \<Rightarrow> 'z cstate_scheme \<Rightarrow> bytes \<times> bytes \<Rightarrow> bool" where
  "typed w s t l \<longleftrightarrow> con_frame w s t \<and> con_ok (input t) \<and> con_lines (input t) = l"

lemma typed_bind:
  assumes "m s = Ok () t" and "typed v s t l" and "\<exists>u. n t = Ok () u \<and> typed w t u l'"
  shows "\<exists>u. bind m (\<lambda>_. n) s = Ok () u \<and> typed (v \<or> w) s u l'"
  using assms con_frame_trans [of v s t w] by (auto simp: typed_def)

lemma echo_after:
  assumes "con_live s" and "con_ok (f (input s))" and "con_lines (f (input s)) = l"
  shows "\<exists>t. bind (modify (upd_input f)) (\<lambda>_. consputc c) s = Ok () t \<and> typed False s t l \<and> input t = f (input s)"
proof -
  let ?s = "upd_input f s"
  have s: "con_frame False s ?s" using assms(1) by (rule con_frame_input)
  then obtain t where t: "consputc c ?s = Ok () t" "con_frame False ?s t" "input t = input ?s"
    using consputc_shows con_frame_sel(1) unfolding con_shows_def by blast
  have "input ?s = f (input s)" by (simp add: upd_input_def)
  then show ?thesis using t con_frame_trans [OF s t(2)] assms(2,3) by (simp add: typed_def)
qed

lemma kill_line_types:
  assumes "con_live s" and "con_ok (input s)" and "length (con_edit (input s)) < n"
  shows "\<exists>t. kill_line n s = Ok () t \<and> typed False s t (con_ready (input s), [])"
  using assms
proof (induction n arbitrary: s)
  case (Suc n)
  show ?case
  proof (cases "con_edit (input s) = []")
    case True
    then show ?thesis using Suc.prems
      by (simp add: con_edit_empty typed_def con_frame_refl con_lines_def)
  next
    case False
    let ?f = "\<lambda>i. i\<lparr>in_e := in_e i - 1\<rparr>"
    note e = con_erase [OF Suc.prems(2) False]
    have "\<not> line_end (last (con_edit (input s)))" using Suc.prems(2) False by (simp add: con_ok_iff)
    then have go: "in_e (input s) \<noteq> in_w (input s)" "input_at (input s) (in_e (input s) - 1) \<noteq> 10"
      using False e(4) by (auto simp: con_edit_empty line_end_def)
    obtain t where t: "bind (modify (upd_input ?f)) (\<lambda>_. consputc BACKSPACE) s = Ok () t"
      "typed False s t (con_ready (input s), butlast (con_edit (input s)))"
      using echo_after [OF Suc.prems(1), of ?f "(con_ready (input s), butlast (con_edit (input s)))" BACKSPACE] e
      by (auto simp: con_lines_def)
    from t(2) have t': "con_live t" "con_ok (input t)" "con_ready (input t) = con_ready (input s)"
      "con_edit (input t) = butlast (con_edit (input s))"
      by (auto simp: typed_def con_lines_def con_frame_sel)
    have "\<exists>u. kill_line n t = Ok () u \<and> typed False t u (con_ready (input s), [])"
      using Suc.IH [OF t'(1,2)] t'(3,4) Suc.prems(3) False by (simp add: less_diff_conv2 Suc_leI)
    from typed_bind [where m = "bind (modify (upd_input ?f)) (\<lambda>_. consputc BACKSPACE)" and n = "kill_line n", OF t this] show ?thesis using go by (simp add: bind_assoc)
  qed
qed simp

lemma line_end_byte:
  assumes "0 \<le> c" and "c < 256"
  shows "line_end (word_of_int c) \<longleftrightarrow> c = 10 \<or> c = 4"
proof -
  have u: "uint (word_of_int k :: uchar) = k" if "0 \<le> k" "k < 256" for k
    using that by (simp add: uint_word_of_int)
  then have "(word_of_int c :: uchar) = word_of_int k \<longleftrightarrow> c = k" if "0 \<le> k" "k < 256" for k
    using that assms by metis
  from this [of 10] this [of 4] show ?thesis by (simp add: line_end_def)
qed

lemma con_frame_wake: "con_live t \<Longrightarrow> con_frame True t (wakeup1 ChInput (upd_input f t))"
proof -
  have u: "upd_input f t = t\<lparr>input := f (input t), uart_out := uart_out t, crt := crt t, crt_pos := crt_pos t\<rparr>"
    by (simp add: upd_input_def)
  assume "con_live t"
  then have "con_live (wakeup1 ChInput (upd_input f t))" by (simp add: con_live_def upd_input_def)
  then show ?thesis unfolding con_frame_def unfolding u wakeup1_con_upd if_True by blast
qed

text \<open>A character is put in the ring, echoed, and completes the line if it is to.\<close>

lemma input_char_puts:
  assumes s: "con_live s" "con_ok (input s)" "PtableLock \<notin> set (locks s)" and c: "0 \<le> c" "c < 256" "c \<noteq> 0"
    and room: "\<not> con_full (input s)"
  shows "\<exists>t. input_char c s = Ok () t \<and>
    (let d = (if c = 13 then 10 else c); line = con_edit (input s) @ [word_of_int d];
         full = (d = 10 \<or> d = ctrl 68 \<or> length (con_ready (input s)) + length line = INPUT_BUF)
     in typed full s t (if full then (con_ready (input s) @ line, []) else (con_ready (input s), line)))"
proof -
  define d where "d = (if c = 13 then 10 else c)"
  define line where "line = con_edit (input s) @ [word_of_int d]"
  let ?full = "d = 10 \<or> d = ctrl 68 \<or> length (con_ready (input s)) + length line = INPUT_BUF"
  let ?f = "con_put (word_of_int d)"
  note j = con_put_parts [OF s(2) room, of "word_of_int d"]
  let ?s = "upd_input ?f s"
  obtain t where t: "consputc d ?s = Ok () t" "con_frame False ?s t" "input t = input ?s"
    using consputc_shows con_frame_sel(1) con_frame_input [OF s(1)] unfolding con_shows_def by blast
  have input_t: "input t = ?f (input s)" using t(3) by (simp add: upd_input_def)
  have frame: "con_frame False s t" using con_frame_trans [OF con_frame_input [OF s(1)] t(2)] by simp
  have locks_t: "PtableLock \<notin> set (locks t)" using con_frame_sel(2) [OF frame] s(3) by simp
  have "in_e (input t) = in_r (input t) + word_of_nat INPUT_BUF
    \<longleftrightarrow> in_e (input t) - in_r (input t) = word_of_nat INPUT_BUF" by (auto simp: algebra_simps)
  also have "\<dots> \<longleftrightarrow> unat (in_e (input t) - in_r (input t)) = INPUT_BUF"
    by (simp add: word_unat_eq_iff unat_of_nat32 input_buf(3) [simplified])
  also have "\<dots> \<longleftrightarrow> length (con_ready (input s)) + length line = INPUT_BUF"
    using arg_cong [OF con_parts(3) [OF j(2)], of length] input_t j(3,4)
    by (simp add: con_chars_def line_def)
  finally have full: "in_e (input t) = in_r (input t) + word_of_nat INPUT_BUF
    \<longleftrightarrow> length (con_ready (input s)) + length line = INPUT_BUF" .
  have run: "input_char c s = (bind (reads input) (\<lambda>i. whenM (d = 10 \<or> d = ctrl 68
      \<or> in_e i = in_r i + word_of_nat INPUT_BUF)
      (bind (modify (upd_input (\<lambda>i. i\<lparr>in_w := in_e i\<rparr>))) (\<lambda>_. wakeup ChInput)))) t"
    using c(3) room t(1) by (simp add: input_char_def d_def con_full_def con_put_def upd_input_def Let_def)
  have t': "con_live t" "con_ring (input t)" "con_cuts (input t)" "con_ready (input t) = con_ready (input s)"
    "con_edit (input t) = line"
    using con_frame_sel(1) [OF frame] j by (simp_all add: input_t line_def)
  have "\<exists>u. input_char c s = Ok () u \<and>
    typed ?full s u (if ?full then (con_ready (input s) @ line, []) else (con_ready (input s), line))"
  proof (cases ?full)
    case True
    let ?u = "wakeup1 ChInput (upd_input (\<lambda>i. i\<lparr>in_w := in_e i\<rparr>) t)"
    have "input_char c s = Ok () ?u" using True locks_t by (auto simp: run full upd_input_def)
    moreover have "con_frame True s ?u"
      using con_frame_trans [OF frame con_frame_wake [OF t'(1)], of "\<lambda>i. i\<lparr>in_w := in_e i\<rparr>"] by simp
    moreover have "input ?u = (input t)\<lparr>in_w := in_e (input t)\<rparr>" by (simp add: upd_input_def)
    ultimately show ?thesis using True con_commit [OF t'(2,3)] t'(4,5)
      by (auto simp: typed_def con_lines_def)
  next
    case False
    then have "con_ok (input t)"
      using con_insert [OF s(2) room] line_end_byte [of d] c by (simp add: input_t d_def ctrl_def)
    moreover have "input_char c s = Ok () t" using False by (simp add: run full)
    ultimately show ?thesis using frame t'(4,5) False by (auto simp: typed_def con_lines_def)
  qed
  then show ?thesis by (simp only: Let_def d_def line_def)
qed

text \<open>Every key does to the console's lines what \<open>type_key\<close> says.\<close>

lemma consoleintr_char_types:
  assumes s: "con_live s" "con_ok (input s)" "PtableLock \<notin> set (locks s)" and c: "0 \<le> c" "c < 256"
  shows "\<exists>t. consoleintr_char c s = Ok () t \<and>
    typed (fst (type_key (con_lines (input s)) c) \<noteq> con_ready (input s)) s t (type_key (con_lines (input s)) c)"
proof -
  have idle: "typed False s s (con_ready (input s), con_edit (input s))"
    using s by (simp add: typed_def con_frame_refl con_lines_def)
  consider (list) "c = ctrl 80" | (kill) "c = ctrl 85" | (erase) "c = ctrl 72 \<or> c = 127"
    | (char) "c \<noteq> ctrl 80" "c \<noteq> ctrl 85" "c \<noteq> ctrl 72" "c \<noteq> 127" by blast
  then show ?thesis
  proof cases
    case list
    then show ?thesis using idle by (simp add: consoleintr_char_def con_lines_def)
  next
    case kill
    have "length (con_edit (input s)) < Suc INPUT_BUF"
      using s(2) arg_cong [OF con_cut [OF s(2)], of length]
      by (simp add: con_ok_def con_ring_def con_chars_def)
    from kill_line_types [OF s(1,2) this] show ?thesis
      using kill by (simp add: consoleintr_char_def con_lines_def ctrl_def)
  next
    case erase
    show ?thesis
    proof (cases "con_edit (input s) = []")
      case True
      then show ?thesis using erase idle
        by (auto simp: consoleintr_char_def con_lines_def ctrl_def con_edit_empty)
    next
      case False
      let ?f = "\<lambda>i. i\<lparr>in_e := in_e i - 1\<rparr>"
      from echo_after [OF s(1), of ?f "(con_ready (input s), butlast (con_edit (input s)))" BACKSPACE]
        con_erase [OF s(2) False]
      show ?thesis using erase False
        by (auto simp: consoleintr_char_def con_lines_def ctrl_def con_edit_empty)
    qed
  next
    case char
    then have run: "consoleintr_char c s = input_char c s" by (simp add: consoleintr_char_def)
    show ?thesis
    proof (cases "c = 0 \<or> con_full (input s)")
      case True
      then have "input_char c s = Ok () s" by (auto simp: input_char_def con_full_def)
      then show ?thesis using True char idle run con_room [OF s(2)] by (auto simp: con_lines_def)
    next
      case False
      with input_char_puts [OF s c] show ?thesis using char run con_room [OF s(2)]
        by (auto simp: con_lines_def Let_def ctrl_def)
    qed
  qed
qed

end
