(* ===== verification/Console_Claims.thy ===== *)
theory Console_Claims
  imports Console_Props Pipe_Claims Fs_Claims
begin

text \<open>
  What the console promises: the keys typed edit a line, complete lines wait for the readers, and a
  reader gets a line, or the part of it that fits.
\<close>

subsection \<open>A console\<close>

text \<open>
  Process 1 is about to read the console, whose inode is in entry 0 of the cache; \<open>line\<close> has been
  typed and completed.
\<close>

definition some_console :: "bytes \<Rightarrow> cstate" where
  "some_console line = xstate.extend
     (pipe_demo\<lparr>icache := [zero_inode\<lparr>i_ref := 1, i_valid := True, i_type := T_DEV, i_major := CONSOLE,
        i_lock := \<lparr>sl_locked = True, sl_pid = 1\<rparr>\<rparr>]\<rparr>)
     (cstate.fields \<lparr>in_buf = line @ replicate (INPUT_BUF - length line) 0, in_r = 0,
        in_w = word_of_nat (length line), in_e = word_of_nat (length line)\<rparr>
      True False True [] (replicate (25 * 80) 0) 0 0)"

lemma some_console_sel [simp]:
  "locks (some_console l) = []" "curproc (some_console l) = Some 0"
  "procs (some_console l) = [zero_proc\<lparr>p_state := RUNNING, p_pid := 1\<rparr>]"
  "input (some_console l) = \<lparr>in_buf = l @ replicate (INPUT_BUF - length l) 0, in_r = 0,
     in_w = word_of_nat (length l), in_e = word_of_nat (length l)\<rparr>"
  "ino (some_console l) 0 = zero_inode\<lparr>i_ref := 1, i_valid := True, i_type := T_DEV, i_major := CONSOLE,
     i_lock := \<lparr>sl_locked = True, sl_pid = 1\<rparr>\<rparr>" "con_live (some_console l)"
  by (simp_all add: some_console_def xstate.defs cstate.defs pipe_demo_def vstate.defs two_pages_def ino_def
      con_live_def)

lemma some_console_ok:
  assumes "length l \<le> INPUT_BUF"
  shows "con_ok (input (some_console l))" "con_ready (input (some_console l)) = l" "con_edit (input (some_console l)) = []"
proof -
  have n: "unat (word_of_nat (length l) :: uint) = length l"
    by (rule unat_of_nat32) (use assms in \<open>simp add: INPUT_BUF_def\<close>)
  show "con_edit (input (some_console l)) = []" by (simp add: con_edit_def)
  then show "con_ok (input (some_console l))" using n assms by (simp add: con_ok_def con_ring_def)
  have "(unat (word_of_nat k :: uint)) mod INPUT_BUF = k" if "k < length l" for k
    using that assms by (simp add: unat_of_nat32 INPUT_BUF_def)
  then show "con_ready (input (some_console l)) = l"
    by (auto simp: con_ready_def between_def window_def n nth_append intro: nth_equalityI)
qed

lemma some_console_iunlock: "\<exists>t. iunlock (Some 0) (some_console l) = Ok () t"
proof -
  let ?s = "some_console l"
  have i: "ino (?s\<lparr>locks := k\<rparr>) 0 = ino ?s 0" for k by (simp add: ino_def)
  have "ino_holding 0 ?s = Ok True ?s"
    unfolding ino_holding_def by (subst holdingsleep_Ok_iff) (simp_all add: ino_def [symmetric] mypid_def, simp add: ino_def)
  then show ?thesis
    by (simp add: iunlock_def ino_release_def releasesleep_def upd_ino_def)
qed

subsection \<open>Typing\<close>

lemma type_key_grows: "\<exists>x. fst (type_key l c) = fst l @ x"
  by (cases l) (auto simp: Let_def)

lemma type_keys_grow: "\<exists>x. fst (foldl type_key l cs) = fst l @ x"
proof (induction cs arbitrary: l)
  case (Cons c cs)
  from Cons.IH [of "type_key l c"] type_key_grows [of l c] show ?case by fastforce
qed simp

lemma consoleintr_loop_types:
  assumes "con_live s" and "con_ok (input s)" and "PtableLock \<notin> set (locks s)" and "\<forall>c \<in> set cs. 0 \<le> c \<and> c < 256"
  shows "\<exists>t. consoleintr_loop cs s = Ok () t \<and>
    typed (fst (foldl type_key (con_lines (input s)) cs) \<noteq> con_ready (input s)) s t (foldl type_key (con_lines (input s)) cs)"
  using assms
proof (induction cs arbitrary: s)
  case Nil
  then show ?case by (simp add: typed_def con_frame_refl con_lines_def)
next
  case (Cons c cs)
  let ?l = "type_key (con_lines (input s)) c"
  obtain t where t: "consoleintr_char c s = Ok () t" "typed (fst ?l \<noteq> con_ready (input s)) s t ?l"
    using consoleintr_char_types [OF Cons.prems(1-3), of c] Cons.prems(4) by auto
  then have t': "con_live t" "con_ok (input t)" "PtableLock \<notin> set (locks t)" "con_lines (input t) = ?l"
    using Cons.prems(3) con_frame_sel(1,2) unfolding typed_def by metis+
  have "con_ready (input t) = fst ?l" using t'(4) by (metis con_lines_def fst_conv)
  moreover have "\<exists>u. consoleintr_loop cs t = Ok () u \<and>
    typed (fst (foldl type_key ?l cs) \<noteq> con_ready (input t)) t u (foldl type_key ?l cs)"
    using Cons.IH [OF t'(1-3)] Cons.prems(4) t'(4) by simp
  moreover have "fst ?l \<noteq> con_ready (input s) \<or> fst (foldl type_key ?l cs) \<noteq> fst ?l
      \<longleftrightarrow> fst (foldl type_key ?l cs) \<noteq> con_ready (input s)"
    using type_key_grows [of "con_lines (input s)" c] type_keys_grow [of ?l cs]
    by (auto simp: con_lines_def)
  ultimately have "\<exists>u. consoleintr_loop cs t = Ok () u
      \<and> typed (fst (foldl type_key ?l cs) \<noteq> fst ?l) t u (foldl type_key ?l cs)"
    and eq: "(fst ?l \<noteq> con_ready (input s) \<or> fst (foldl type_key ?l cs) \<noteq> fst ?l)
      = (fst (foldl type_key ?l cs) \<noteq> con_ready (input s))" by simp_all
  from typed_bind [where m = "consoleintr_char c" and n = "consoleintr_loop cs", OF t this(1)]
  show ?case unfolding eq by simp
qed

text \<open>C17: The console is a line editor. Whatever keys are typed, its interrupt returns; the ring then
  holds the complete lines and the unfinished one that \<open>type_key\<close>, the editor on lists of
  characters, gives for these keys, whatever the values of the three wrapping counters. Nothing but
  the input, the screen and the serial output changes, and the processes that sleep on the
  console are woken exactly if a line was completed.\<close>

theorem consoleintr_edits:
  assumes "con_live s" and "con_ok (input s)" and "PtableLock \<notin> set (locks s)" and "ConsLock \<notin> set (locks s)"
    and "\<forall>c \<in> set cs. 0 \<le> c \<and> c < 256"
  shows "\<exists>t. consoleintr cs s = Ok () t \<and> con_ok (input t)
    \<and> (con_ready (input t), con_edit (input t)) = foldl type_key (con_ready (input s), con_edit (input s)) cs
    \<and> con_frame (con_ready (input t) \<noteq> con_ready (input s)) s t"
proof -
  let ?s = "s\<lparr>locks := ConsLock # locks s\<rparr>"
  have "con_live ?s" "con_ok (input ?s)" "PtableLock \<notin> set (locks ?s)"
    using assms(1-3) by (simp_all add: con_live_def)
  from consoleintr_loop_types [OF this assms(5)] obtain t where t: "consoleintr_loop cs ?s = Ok () t"
    "typed (fst (foldl type_key (con_lines (input s)) cs) \<noteq> con_ready (input s)) ?s t (foldl type_key (con_lines (input s)) cs)"
    by auto
  then have l: "con_lines (input t) = foldl type_key (con_lines (input s)) cs" "con_ok (input t)"
    by (simp_all only: typed_def)
  then have "fst (foldl type_key (con_lines (input s)) cs) = con_ready (input t)" by (metis con_lines_def fst_conv)
  then have f: "con_frame (con_ready (input t) \<noteq> con_ready (input s)) ?s t"
    using t(2) by (simp only: typed_def)
  let ?t = "t\<lparr>locks := locks s\<rparr>"
  have f': "con_frame (con_ready (input t) \<noteq> con_ready (input s)) s ?t" by (rule con_frame_unlock [OF f])
  obtain u where u: "procdump ?t = Ok () u" "con_frame False ?t u" "input u = input ?t"
    using procdump_prints con_frame_sel(1) [OF f'] assms(4) unfolding con_prints_def by force
  let ?u = "if ctrl 80 \<in> set cs then u else ?t"
  have "locks t = ConsLock # locks s" using con_frame_sel(2) [OF f] by simp
  then have "consoleintr cs s = Ok () ?u" using assms(4) t(1) u(1) by (simp add: consoleintr_def)
  moreover have "con_frame (con_ready (input t) \<noteq> con_ready (input s)) s ?u"
    using f' con_frame_trans [OF f' u(2)] by simp
  moreover have "input ?u = input t" using u(3) by simp
  ultimately show ?thesis using l by (auto simp: con_lines_def)
qed

theorem consoleintr_edits_witness:
  "\<exists>t. consoleintr [108, 120, 8, 115, 13] (some_console []) = Ok () t \<and> con_ready (input t) = [108, 115, 10]
     \<and> con_edit (input t) = []"
proof -
  have l: "length ([] :: bytes) \<le> INPUT_BUF" by simp
  have "foldl type_key ([], []) [108, 120, 8, 115, 13] = ([108, 115, 10], [])" by (simp add: ctrl_def INPUT_BUF_def)
  with consoleintr_edits [OF some_console_sel(6) some_console_ok(1) [OF l], of "[108, 120, 8, 115, 13]"]
  show ?thesis by (auto simp: some_console_ok(2,3) [OF l] simp del: some_console_sel(4))
qed

subsection \<open>Reading\<close>

text \<open>
  What a read of \<open>n\<close> bytes gets from the complete lines, and what it leaves: \<open>n\<close> bytes, or the rest
  of the line with its newline.  Control-D ends the read and is left in place unless the read got
  nothing before it, so that the next read sees the end of the file.  \<open>None\<close>: there is no line end
  yet.
\<close>

definition con_reply :: "nat \<Rightarrow> bytes \<Rightarrow> (bytes \<times> bytes) option" where
  "con_reply n ready =
     (let line = takeWhile (\<lambda>c. \<not> line_end c) ready in
      if n \<le> length line then Some (take n ready, drop n ready)
      else if line = ready then None
      else if ready ! length line = 10 then Some (line @ [10], drop (Suc (length line)) ready)
      else if line = [] then Some ([], tl ready)
      else Some (line, drop (length line) ready))"

text \<open>The same for a read that has stored \<open>got\<close> before, byte by byte.\<close>

fun take_line :: "bytes \<Rightarrow> nat \<Rightarrow> bytes \<Rightarrow> (bytes \<times> bytes) option" where
  "take_line got 0 ready = Some (got, ready)"
| "take_line got (Suc n) [] = None"
| "take_line got (Suc n) (c # cs) =
     (if c = 4 then Some (got, if got = [] then cs else c # cs)
      else if c = 10 then Some (got @ [c], cs)
      else take_line (got @ [c]) n cs)"

lemma take_line_got:
  "take_line got n ready =
     (let line = takeWhile (\<lambda>c. \<not> line_end c) ready in
      if n \<le> length line then Some (got @ take n ready, drop n ready)
      else if line = ready then None
      else if ready ! length line = 10 then Some (got @ line @ [10], drop (Suc (length line)) ready)
      else if got @ line = [] then Some ([], tl ready)
      else Some (got @ line, drop (length line) ready))"
proof (induction n arbitrary: got ready)
  case (Suc n)
  show ?case
  proof (cases ready)
    case (Cons c cs)
    consider (eof) "c = 4" | (nl) "c = 10" | (char) "c \<noteq> 4" "c \<noteq> 10" by blast
    then show ?thesis
    proof cases
      case char
      then have "take_line got (Suc n) ready = take_line (got @ [c]) n cs" by (simp add: Cons)
      also note Suc
      finally show ?thesis using char by (simp add: Cons line_end_def Let_def)
    qed (simp_all add: Cons line_end_def)
  qed simp
qed simp

lemma take_line_reply: "take_line [] n ready = con_reply n ready"
  unfolding take_line_got con_reply_def Let_def append_Nil by (rule refl)

definition con_return :: "nat \<Rightarrow> int \<Rightarrow> bytes \<Rightarrow> ('z, int \<times> bytes) cop" where
  "con_return ip r x = bind (release ConsLock) (\<lambda>_. bind (ilock (Some ip)) (\<lambda>_. ret (r, x)))"

lemma char_int_ctrl_D: "char_int c = ctrl 68 \<longleftrightarrow> c = 4"
proof -
  have "sint c = sint (4 :: uchar) \<longleftrightarrow> c = 4" by (auto intro: signed_word_eqI)
  then show ?thesis by (simp add: char_int_def ctrl_def)
qed

lemma consoleread_loop_run:
  assumes "con_ok (input s)"
  shows "\<exists>j. con_ok j \<and> con_edit j = con_edit (input s) \<and> (case take_line got n (con_ready (input s)) of
      Some (x, rest) \<Rightarrow> con_ready j = rest
        \<and> consoleread_loop ip (length got + n) got n s = con_return ip (int (length x)) x (s\<lparr>input := j\<rparr>)
    | None \<Rightarrow> con_ready j = []
        \<and> consoleread_loop ip (length got + n) got n s =
            (if killed s then con_return ip (- 1) (got @ con_ready (input s)) else sleep ChInput ConsLock) (s\<lparr>input := j\<rparr>))"
  using assms
proof (induction n arbitrary: s got)
  case 0
  then show ?case by (auto simp: con_return_def intro!: exI [of _ "input s"])
next
  case (Suc n)
  show ?case
  proof (cases "con_ready (input s) = []")
    case True
    then show ?thesis using Suc.prems
      by (auto simp: con_return_def con_ready_empty intro!: exI [of _ "input s"])
  next
    case False
    let ?j = "(input s)\<lparr>in_r := in_r (input s) + 1\<rparr>"
    let ?s = "s\<lparr>input := ?j\<rparr>"
    let ?c = "input_at (input s) (in_r (input s))"
    note t = con_take [OF Suc.prems False]
    have go: "in_r (input s) \<noteq> in_w (input s)" using False by (simp add: con_ready_empty)
    consider (eof) "?c = 4" | (nl) "?c = 10" | (char) "?c \<noteq> 4" "?c \<noteq> 10" by blast
    then show ?thesis
    proof cases
      case eof
      have "consoleread_loop ip (length got + Suc n) got (Suc n) s =
        con_return ip (int (length got)) got (if got = [] then ?s else s)"
        using eof go by (simp add: con_return_def Let_def char_int_ctrl_D upd_input_def)
      moreover have "take_line got (Suc n) (con_ready (input s)) =
        Some (got, if got = [] then con_ready ?j else con_ready (input s))"
        using t(2) eof by (metis take_line.simps(3))
      ultimately show ?thesis using t Suc.prems
        by (intro exI [of _ "if got = [] then ?j else input s"]) (simp del: consoleread_loop.simps)
    next
      case nl
      have "consoleread_loop ip (length got + Suc n) got (Suc n) s =
        con_return ip (1 + int (length got)) (got @ [10]) ?s"
        using nl go by (simp add: add.commute [of 1 "int (length got)"] con_return_def Let_def char_int_ctrl_D upd_input_def)
      moreover have "take_line got (Suc n) (con_ready (input s)) = Some (got @ [10], con_ready ?j)"
        using t(2) nl by (simp only: take_line.simps(3)) simp
      ultimately show ?thesis using t(1,3)
        by (intro exI [of _ ?j]) (simp del: consoleread_loop.simps)
    next
      case char
      have run: "consoleread_loop ip (length got + Suc n) got (Suc n) s =
        consoleread_loop ip (length (got @ [?c]) + n) (got @ [?c]) n ?s"
        using char go by (simp add: Let_def char_int_ctrl_D upd_input_def)
      have "con_ok (input ?s)" using t(1) by simp
      note IH = Suc.IH [OF this, of "got @ [?c]"]
      have tl: "take_line got (Suc n) (con_ready (input s)) = take_line (got @ [?c]) n (con_ready ?j)"
        using t(2) char by (metis take_line.simps(3))
      have eq: "(got @ [?c]) @ con_ready ?j = got @ con_ready (input s)" using t(2) by simp
      have s: "input ?s = ?j" "killed ?s = killed s" "?s\<lparr>input := j\<rparr> = s\<lparr>input := j\<rparr>" for j
        by (simp_all add: killed_def)
      show ?thesis using IH unfolding run tl s eq t(3) .
    qed
  qed
qed

lemma iunlock_console:
  assumes "iunlock (Some ip) s = Ok u t"
  shows "input t = input s" "locks t = locks s"
  using assms
  by (auto simp: iunlock_def ino_holding_def ino_release_def run_iff holdingsleep_Ok_iff releasesleep_Ok_iff
      upd_ino_def ino_def)

text \<open>C18: A read of the console takes its bytes from the complete lines as \<open>con_reply\<close> says: up to
  \<open>n\<close> bytes, not beyond a newline, and up to a Control-D, which is left for the next read unless
  it was the first character. With no line end in reach it takes what is there and sleeps on the
  input, or returns \<open>-1\<close> if the process was killed. The line being edited is not touched.\<close>

theorem consoleread_lines:
  assumes "con_ok (input s)" and "ConsLock \<notin> set (locks s)" and "iunlock (Some ip) s = Ok () t"
  shows "\<exists>j. con_ok j \<and> con_edit j = con_edit (input s) \<and> (case con_reply (nat n) (con_ready (input s)) of
      Some (x, rest) \<Rightarrow> con_ready j = rest
        \<and> consoleread ip n s = bind (ilock (Some ip)) (\<lambda>_. ret (int (length x), x)) (t\<lparr>input := j\<rparr>)
    | None \<Rightarrow> con_ready j = []
        \<and> consoleread ip n s =
            (if killed t then bind (ilock (Some ip)) (\<lambda>_. ret (- 1, con_ready (input s))) (t\<lparr>input := j\<rparr>)
             else sleep ChInput ConsLock (t\<lparr>locks := ConsLock # locks t, input := j\<rparr>)))"
proof -
  let ?t = "t\<lparr>locks := ConsLock # locks t\<rparr>"
  note same = iunlock_console [OF assms(3)]
  have "con_ok (input ?t)" using assms(1) same(1) by simp
  note run = consoleread_loop_run [OF this, of ip "[]" "nat n"]
  have "input ?t = input t" by simp
  from run [unfolded take_line_reply list.size(3) append_Nil add_0 this] obtain j where
    j: "con_ok j" "con_edit j = con_edit (input t)" and
    run: "case con_reply (nat n) (con_ready (input t)) of
      Some (x, rest) \<Rightarrow> con_ready j = rest
        \<and> consoleread_loop ip (nat n) [] (nat n) ?t = con_return ip (int (length x)) x (?t\<lparr>input := j\<rparr>)
    | None \<Rightarrow> con_ready j = []
        \<and> consoleread_loop ip (nat n) [] (nat n) ?t =
            (if killed ?t then con_return ip (- 1) (con_ready (input t)) else sleep ChInput ConsLock) (?t\<lparr>input := j\<rparr>)"
    by blast
  have start: "consoleread ip n s = consoleread_loop ip (nat n) [] (nat n) ?t"
    using assms(2,3) same(2) by (simp add: consoleread_def)
  have done_eq: "con_return ip r x (?t\<lparr>input := j\<rparr>) = bind (ilock (Some ip)) (\<lambda>_. ret (r, x)) (t\<lparr>input := j\<rparr>)" for r x
    by (simp add: con_return_def)
  show ?thesis
  proof (cases "con_reply (nat n) (con_ready (input t))")
    case None
    then show ?thesis using j run same(1)
      by (intro exI [of _ j]) (auto simp: start done_eq killed_def simp del: consoleread_loop.simps)
  next
    case (Some p)
    then show ?thesis using j run same(1)
      by (cases p) (auto simp: start done_eq simp del: consoleread_loop.simps)
  qed
qed

theorem consoleread_lines_witness:
  "\<exists>t j. iunlock (Some 0) (some_console [108, 115, 10]) = Ok () t \<and> con_ready j = [] \<and>
     consoleread 0 100 (some_console [108, 115, 10]) = bind (ilock (Some 0)) (\<lambda>_. ret (3, [108, 115, 10])) (t\<lparr>input := j\<rparr>)"
proof -
  let ?l = "[108, 115, 10] :: bytes"
  have l: "length ?l \<le> INPUT_BUF" by (simp add: INPUT_BUF_def)
  obtain t where t: "iunlock (Some 0) (some_console ?l) = Ok () t" using some_console_iunlock by blast
  have "con_reply 100 ?l = Some (?l, [])" by (simp add: con_reply_def line_end_def)
  with consoleread_lines [OF some_console_ok(1) [OF l] _ t, of 100] show ?thesis
    using t by (auto simp: some_console_ok(2,3) [OF l] simp del: some_console_sel(4))
qed

subsection \<open>A typed line is what the next read gets\<close>

text \<open>Keys that stand for themselves.\<close>

definition plain_key :: "int \<Rightarrow> bool" where
  "plain_key c \<longleftrightarrow> 32 \<le> c \<and> c < 127"

lemma type_plain_keys:
  assumes "\<forall>c \<in> set cs. plain_key c" and "length line + length cs < INPUT_BUF"
  shows "foldl type_key ([], line) cs = ([], line @ map word_of_int cs)"
  using assms
proof (induction cs arbitrary: line)
  case (Cons c cs)
  then have "type_key ([], line) c = ([], line @ [word_of_int c])" by (simp add: plain_key_def ctrl_def)
  then show ?case using Cons by simp
qed simp

lemma plain_not_line_end: "plain_key c \<Longrightarrow> \<not> line_end (word_of_int c)"
  by (simp add: plain_key_def line_end_byte)

lemma con_reply_line:
  assumes "\<forall>c \<in> set cs. plain_key c" and "length cs < n"
  shows "con_reply n (map word_of_int cs @ [10]) = Some (map word_of_int cs @ [10], [])"
proof -
  have "takeWhile (\<lambda>c. \<not> line_end c) (map word_of_int cs @ [10]) = map word_of_int cs"
    using assms(1) plain_not_line_end by (subst takeWhile_append2) (auto simp: line_end_def)
  then show ?thesis using assms(2) by (simp add: con_reply_def Let_def nth_append)
qed

lemma typed_line_reply:
  assumes "\<forall>c \<in> set cs. plain_key c" and "length cs + 1 < INPUT_BUF" and "length cs < n"
  shows "con_reply n (fst (foldl type_key ([], []) (cs @ [13]))) = Some (map word_of_int cs @ [10], [])"
proof -
  have "foldl type_key ([], []) (cs @ [13]) = (map word_of_int cs @ [10], [])"
    using type_plain_keys [OF assms(1), of "[]"] assms(2) by (simp add: ctrl_def)
  then show ?thesis using con_reply_line [OF assms(1,3)] by simp
qed

end
