(* ===== verification/Ide.thy ===== *)
theory Ide
  imports Bio
begin

text \<open>
  The IDE disk driver, ide.c, which the kernel uses in place of memide.c when it runs from a disk.
  Requests wait in a queue linked through \<open>qnext\<close>.  The ports the driver writes are collected in
  \<open>ide_out\<close>; what it reads from the controller (a status, a sector) is an argument.
\<close>

definition SECTOR_SIZE :: nat where "SECTOR_SIZE = 512"
definition IDE_BSY :: uchar where "IDE_BSY = 0x80"
definition IDE_DRDY :: uchar where "IDE_DRDY = 0x40"
definition IDE_DF :: uchar where "IDE_DF = 0x20"
definition IDE_ERR :: uchar where "IDE_ERR = 0x01"
definition IDE_CMD_READ :: nat where "IDE_CMD_READ = 0x20"
definition IDE_CMD_WRITE :: nat where "IDE_CMD_WRITE = 0x30"
definition IDE_CMD_RDMUL :: nat where "IDE_CMD_RDMUL = 0xc4"
definition IDE_CMD_WRMUL :: nat where "IDE_CMD_WRMUL = 0xc5"

text \<open>A port write: a byte, or the block that \<open>outsl\<close> sends.\<close>

datatype portwrite = Outb nat nat | Outsl nat bytes

record istate = bstate +
  idequeue :: "nat option"
  havedisk1 :: bool
  ide_out :: "portwrite list"

type_synonym ('z, 'a) iop = "'z istate_scheme \<Rightarrow> ('z istate_scheme, 'a) outcome"

definition ports_out :: "portwrite list \<Rightarrow> ('z, unit) iop" where
  "ports_out ws = modify (\<lambda>s. s\<lparr>ide_out := ide_out s @ ws\<rparr>)"

text \<open>\<open>idewait\<close>, given the first status that says the drive is ready.\<close>

definition idewait :: "bool \<Rightarrow> uchar \<Rightarrow> int" where
  "idewait checkerr r = (if checkerr \<and> r AND (IDE_DF OR IDE_ERR) \<noteq> 0 then - 1 else 0)"

text \<open>\<open>ide_ideinit\<close>, given the statuses that the loop over the second drive reads.\<close>

definition ide_ideinit :: "uchar list \<Rightarrow> ('z, unit) iop" where
  "ide_ideinit statuses = bind (ports_out [Outb 0x1f6 (0xe0 OR 16)]) (\<lambda>_.
    bind (modify (\<lambda>s. s\<lparr>havedisk1 := havedisk1 s \<or> list_ex (\<lambda>r. r \<noteq> 0) (take 1000 statuses)\<rparr>)) (\<lambda>_.
    ports_out [Outb 0x1f6 0xe0]))"

definition ide_command :: "buf \<Rightarrow> portwrite list" where
  "ide_command b =
     (let per = BSIZE div SECTOR_SIZE;
          sector = b_blockno b * per;
          read_cmd = (if per = 1 then IDE_CMD_READ else IDE_CMD_RDMUL);
          write_cmd = (if per = 1 then IDE_CMD_WRITE else IDE_CMD_WRMUL)
      in [Outb 0x3f6 0, Outb 0x1f2 per, Outb 0x1f3 (sector mod 256), Outb 0x1f4 (sector div 256 mod 256),
          Outb 0x1f5 (sector div 65536 mod 256),
          Outb 0x1f6 (0xe0 OR (push_bit 4 (b_dev b mod 2)) OR (sector div 16777216 mod 16))]
         @ (if b_flags b AND B_DIRTY \<noteq> 0 then [Outb 0x1f7 write_cmd, Outsl 0x1f0 (b_data b)]
            else [Outb 0x1f7 read_cmd]))"

definition idestart :: "nat option \<Rightarrow> ('z, unit) iop" where
  "idestart bp =
     (case bp of
        None \<Rightarrow> panic ''idestart''
      | Some i \<Rightarrow> bind (reads (\<lambda>s. bufn s i)) (\<lambda>b.
        bind (panic_if (b_blockno b \<ge> FSSIZE) ''incorrect blockno'') (\<lambda>_.
        bind (panic_if (BSIZE div SECTOR_SIZE > 7) ''idestart'') (\<lambda>_.
        ports_out (ide_command b)))))"

text \<open>The interrupt handler, given the drive's status and the sector it has for a read.\<close>

definition ideintr :: "uchar \<Rightarrow> bytes \<Rightarrow> ('z, unit) iop" where
  "ideintr status sector = bind (acquire IdeLock) (\<lambda>_.
    bind (reads idequeue) (\<lambda>bp.
    case bp of
       None \<Rightarrow> release IdeLock
     | Some i \<Rightarrow> bind (modify (\<lambda>s. s\<lparr>idequeue := b_qnext (bufn s i)\<rparr>)) (\<lambda>_.
       bind (reads (\<lambda>s. bufn s i)) (\<lambda>b.
       bind (whenM (b_flags b AND B_DIRTY = 0 \<and> idewait True status \<ge> 0)
           (modify (upd_buf i (\<lambda>b. b\<lparr>b_data := sector\<rparr>)))) (\<lambda>_.
       bind (modify (upd_buf i (\<lambda>b. b\<lparr>b_flags := (b_flags b OR B_VALID) AND NOT B_DIRTY\<rparr>))) (\<lambda>_.
       bind (wakeup (ChBuf i)) (\<lambda>_.
       bind (reads idequeue) (\<lambda>q.
       bind (whenM (q \<noteq> None) (idestart q)) (\<lambda>_.
       release IdeLock)))))))))"

text \<open>The walk to the end of the queue: the last buffer in it.\<close>

primrec last_queued :: "nat \<Rightarrow> (nat \<Rightarrow> nat option) \<Rightarrow> nat \<Rightarrow> nat option" where
  "last_queued 0 nxt i = None"
| "last_queued (Suc fuel) nxt i = (case nxt i of None \<Rightarrow> Some i | Some j \<Rightarrow> last_queued fuel nxt j)"

definition ide_enqueue :: "nat \<Rightarrow> ('z, unit) iop" where
  "ide_enqueue i = bind (modify (upd_buf i (\<lambda>b. b\<lparr>b_qnext := None\<rparr>))) (\<lambda>_.
    bind (reads idequeue) (\<lambda>q.
    case q of
       None \<Rightarrow> modify (\<lambda>s. s\<lparr>idequeue := Some i\<rparr>)
     | Some h \<Rightarrow> bind (reads (\<lambda>s. last_queued (NBUF + 1) (\<lambda>j. b_qnext (bufn s j)) h)) (\<lambda>l.
       case l of
           None \<Rightarrow> spins
         | Some j \<Rightarrow> modify (upd_buf j (\<lambda>b. b\<lparr>b_qnext := Some i\<rparr>)))))"

text \<open>The wait for the request, with the lock held; a process that wakes tests again.\<close>

definition ide_wait :: "nat \<Rightarrow> ('z, unit) iop" where
  "ide_wait i = bind (reads (\<lambda>s. b_flags (bufn s i) AND (B_VALID OR B_DIRTY) \<noteq> B_VALID)) (\<lambda>waiting.
    if waiting then sleep (ChBuf i) IdeLock else release IdeLock)"

definition ide_iderw :: "nat \<Rightarrow> ('z, unit) iop" where
  "ide_iderw i = bind (buf_holding i) (\<lambda>h.
    bind (panic_if (\<not> h) ''iderw: buf not locked'') (\<lambda>_.
    bind (reads (\<lambda>s. bufn s i)) (\<lambda>b.
    bind (panic_if (b_flags b AND (B_VALID OR B_DIRTY) = B_VALID) ''iderw: nothing to do'') (\<lambda>_.
    bind (reads havedisk1) (\<lambda>disk1.
    bind (panic_if (b_dev b \<noteq> 0 \<and> \<not> disk1) ''iderw: ide disk 1 not present'') (\<lambda>_.
    bind (acquire IdeLock) (\<lambda>_.
    bind (ide_enqueue i) (\<lambda>_.
    bind (reads idequeue) (\<lambda>q.
    bind (whenM (q = Some i) (idestart (Some i))) (\<lambda>_.
    ide_wait i))))))))))"

definition ide_resume :: "nat \<Rightarrow> ('z, unit) iop" where
  "ide_resume i = bind (sleep_return IdeLock) (\<lambda>_.
    ide_wait i)"

end
