(* ===== verification/Spinlock.thy ===== *)
theory Spinlock
  imports Kstate
begin

text \<open>
  Spin locks on several CPUs, spinlock.c.  Each CPU has its interrupt flag and the nesting count of
  \<open>pushcli\<close>; a lock has the word that \<open>xchg\<close> works on and the CPU that holds it.  The atomic steps of
  \<open>acquire\<close> and \<open>release\<close> are the steps of a relation, so that CPUs can interleave between them.
\<close>

record cpustate =
  c_if :: bool
  c_ncli :: int
  c_intena :: bool

record slock =
  lk_locked :: bool
  lk_cpu :: "nat option"

text \<open>Where a CPU is inside \<open>acquire\<close> or \<open>release\<close>, and the locks it has.\<close>

datatype where_at = Outside | Spinning spin | Won spin | Dropping spin

record smp =
  cpus :: "nat \<Rightarrow> cpustate"
  slocks :: "spin \<Rightarrow> slock"
  at :: "nat \<Rightarrow> where_at"
  held :: "nat \<Rightarrow> spin list"

definition upd_cpu :: "nat \<Rightarrow> (cpustate \<Rightarrow> cpustate) \<Rightarrow> smp \<Rightarrow> smp" where
  "upd_cpu c f s = s\<lparr>cpus := (cpus s)(c := f (cpus s c))\<rparr>"

definition upd_slock :: "spin \<Rightarrow> (slock \<Rightarrow> slock) \<Rightarrow> smp \<Rightarrow> smp" where
  "upd_slock l f s = s\<lparr>slocks := (slocks s)(l := f (slocks s l))\<rparr>"

definition initlock :: "spin \<Rightarrow> smp \<Rightarrow> smp" where
  "initlock l = upd_slock l (\<lambda>_. \<lparr>lk_locked = False, lk_cpu = None\<rparr>)"

definition pushcli :: "nat \<Rightarrow> smp \<Rightarrow> smp" where
  "pushcli c = upd_cpu c (\<lambda>x. x\<lparr>c_if := False,
     c_intena := (if c_ncli x = 0 then c_if x else c_intena x), c_ncli := c_ncli x + 1\<rparr>)"

definition popcli :: "nat \<Rightarrow> smp \<Rightarrow> (smp, unit) outcome" where
  "popcli c = bind (reads (\<lambda>s. cpus s c)) (\<lambda>x.
    bind (panic_if (c_if x) ''popcli - interruptible'') (\<lambda>_.
    bind (panic_if (c_ncli x - 1 < 0) ''popcli'') (\<lambda>_.
    bind (modify (upd_cpu c (\<lambda>x. x\<lparr>c_ncli := c_ncli x - 1\<rparr>))) (\<lambda>_.
    modify (upd_cpu c (\<lambda>x. if c_ncli x = 0 \<and> c_intena x then x\<lparr>c_if := True\<rparr> else x))))))"

text \<open>\<open>holding\<close>, between its \<open>pushcli\<close> and \<open>popcli\<close>.\<close>

definition holds_lock :: "nat \<Rightarrow> spin \<Rightarrow> smp \<Rightarrow> bool" where
  "holds_lock c l s \<longleftrightarrow> lk_locked (slocks s l) \<and> lk_cpu (slocks s l) = Some c"

definition holding :: "nat \<Rightarrow> spin \<Rightarrow> smp \<Rightarrow> (smp, bool) outcome" where
  "holding c l = bind (modify (pushcli c)) (\<lambda>_.
    bind (reads (holds_lock c l)) (\<lambda>r.
    bind (popcli c) (\<lambda>_.
    ret r)))"

text \<open>The parts of \<open>acquire\<close>: up to the spin loop, one \<open>xchg\<close>, and the record of the owner.\<close>

definition acquire_enter :: "nat \<Rightarrow> spin \<Rightarrow> smp \<Rightarrow> (smp, unit) outcome" where
  "acquire_enter c l = bind (modify (pushcli c)) (\<lambda>_.
    bind (holding c l) (\<lambda>h.
    bind (panic_if h ''acquire'') (\<lambda>_.
    modify (\<lambda>s. s\<lparr>at := (at s)(c := Spinning l)\<rparr>))))"

definition xchg_locked :: "spin \<Rightarrow> smp \<Rightarrow> (smp, bool) outcome" where
  "xchg_locked l = bind (reads (\<lambda>s. lk_locked (slocks s l))) (\<lambda>old.
    bind (modify (upd_slock l (\<lambda>k. k\<lparr>lk_locked := True\<rparr>))) (\<lambda>_.
    ret old))"

definition acquire_spin :: "nat \<Rightarrow> spin \<Rightarrow> smp \<Rightarrow> (smp, unit) outcome" where
  "acquire_spin c l = bind (xchg_locked l) (\<lambda>old.
    whenM (\<not> old) (modify (\<lambda>s. s\<lparr>at := (at s)(c := Won l)\<rparr>)))"

definition acquire_record :: "nat \<Rightarrow> spin \<Rightarrow> smp \<Rightarrow> (smp, unit) outcome" where
  "acquire_record c l = bind (modify (upd_slock l (\<lambda>k. k\<lparr>lk_cpu := Some c\<rparr>))) (\<lambda>_.
    modify (\<lambda>s. s\<lparr>at := (at s)(c := Outside), held := (held s)(c := l # held s c)\<rparr>))"

text \<open>The parts of \<open>release\<close>: up to the barrier, and the store that frees the lock.\<close>

definition release_enter :: "nat \<Rightarrow> spin \<Rightarrow> smp \<Rightarrow> (smp, unit) outcome" where
  "release_enter c l = bind (holding c l) (\<lambda>h.
    bind (panic_if (\<not> h) ''release'') (\<lambda>_.
    bind (modify (upd_slock l (\<lambda>k. k\<lparr>lk_cpu := None\<rparr>))) (\<lambda>_.
    modify (\<lambda>s. s\<lparr>at := (at s)(c := Dropping l), held := (held s)(c := remove1 l (held s c))\<rparr>))))"

definition release_store :: "nat \<Rightarrow> spin \<Rightarrow> smp \<Rightarrow> (smp, unit) outcome" where
  "release_store c l = bind (modify (upd_slock l (\<lambda>k. k\<lparr>lk_locked := False\<rparr>))) (\<lambda>_.
    bind (popcli c) (\<lambda>_.
    modify (\<lambda>s. s\<lparr>at := (at s)(c := Outside)\<rparr>)))"

inductive lock_step :: "smp \<Rightarrow> smp \<Rightarrow> bool" where
  enter: "at s c = Outside \<Longrightarrow> acquire_enter c l s = Ok () t \<Longrightarrow> lock_step s t"
| spin: "at s c = Spinning l \<Longrightarrow> acquire_spin c l s = Ok () t \<Longrightarrow> lock_step s t"
| record_owner: "at s c = Won l \<Longrightarrow> acquire_record c l s = Ok () t \<Longrightarrow> lock_step s t"
| leave: "at s c = Outside \<Longrightarrow> release_enter c l s = Ok () t \<Longrightarrow> lock_step s t"
| store: "at s c = Dropping l \<Longrightarrow> release_store c l s = Ok () t \<Longrightarrow> lock_step s t"

inductive_cases lock_stepE: "lock_step s t"

definition smp_boot :: "bool \<Rightarrow> smp" where
  "smp_boot ie = \<lparr>cpus = (\<lambda>_. \<lparr>c_if = ie, c_ncli = 0, c_intena = False\<rparr>),
     slocks = (\<lambda>_. \<lparr>lk_locked = False, lk_cpu = None\<rparr>), at = (\<lambda>_. Outside), held = (\<lambda>_. [])\<rparr>"

definition reachable :: "smp \<Rightarrow> bool" where
  "reachable s \<longleftrightarrow> (\<exists>ie. lock_step\<^sup>*\<^sup>* (smp_boot ie) s)"

end
