(* ===== verification/Spinlock_Props.thy ===== *)
theory Spinlock_Props
  imports Spinlock
begin

text \<open>
  Mutual exclusion of the spin locks, for any interleaving of the CPUs' steps, and the discipline
  of the interrupt flag: a CPU with a lock has interrupts off, and \<open>release\<close> by the holder never
  panics.
\<close>

definition owner :: "smp \<Rightarrow> nat \<Rightarrow> spin \<Rightarrow> bool" where
  "owner s c l \<longleftrightarrow> l \<in> set (held s c) \<or> at s c = Won l \<or> at s c = Dropping l"

definition spin_inv :: "smp \<Rightarrow> bool" where
  "spin_inv s \<longleftrightarrow>
     (\<forall>c d l. owner s c l \<longrightarrow> owner s d l \<longrightarrow> c = d)
     \<and> (\<forall>l. lk_locked (slocks s l) \<longleftrightarrow> (\<exists>c. owner s c l))
     \<and> (\<forall>c l. lk_cpu (slocks s l) = Some c \<longleftrightarrow> l \<in> set (held s c))
     \<and> (\<forall>c. distinct (held s c))
     \<and> (\<forall>c l. at s c = Won l \<or> at s c = Dropping l \<longrightarrow> l \<notin> set (held s c))
     \<and> (\<forall>c. c_ncli (cpus s c) = int (length (held s c)) + (if at s c = Outside then 0 else 1))
     \<and> (\<forall>c. 0 < c_ncli (cpus s c) \<longrightarrow> \<not> c_if (cpus s c))"

lemma spin_invD:
  assumes "spin_inv s"
  shows "owner s d k \<Longrightarrow> owner s e k \<Longrightarrow> d = e"
    and "lk_locked (slocks s k) \<longleftrightarrow> (\<exists>d. owner s d k)"
    and "lk_cpu (slocks s k) = Some d \<longleftrightarrow> k \<in> set (held s d)" and "distinct (held s d)"
    and "at s d = Won k \<or> at s d = Dropping k \<Longrightarrow> k \<notin> set (held s d)"
    and "c_ncli (cpus s d) = int (length (held s d)) + (if at s d = Outside then 0 else 1)"
    and "0 < c_ncli (cpus s d) \<Longrightarrow> \<not> c_if (cpus s d)"
  using assms unfolding spin_inv_def by blast+

lemma spin_invI:
  assumes "\<And>d e k. owner s d k \<Longrightarrow> owner s e k \<Longrightarrow> d = e"
    and "\<And>k. lk_locked (slocks s k) \<longleftrightarrow> (\<exists>d. owner s d k)"
    and "\<And>d k. lk_cpu (slocks s k) = Some d \<longleftrightarrow> k \<in> set (held s d)" and "\<And>d. distinct (held s d)"
    and "\<And>d k. at s d = Won k \<or> at s d = Dropping k \<Longrightarrow> k \<notin> set (held s d)"
    and "\<And>d. c_ncli (cpus s d) = int (length (held s d)) + (if at s d = Outside then 0 else 1)"
    and "\<And>d. 0 < c_ncli (cpus s d) \<Longrightarrow> \<not> c_if (cpus s d)"
  shows "spin_inv s"
  using assms unfolding spin_inv_def by blast

text \<open>\<open>pushcli\<close> and \<open>popcli\<close> around a read.\<close>

lemma cpu_sel [simp]:
  "slocks (upd_cpu c f s) = slocks s" "at (upd_cpu c f s) = at s" "held (upd_cpu c f s) = held s"
  "cpus (upd_slock l g s) = cpus s" "at (upd_slock l g s) = at s" "held (upd_slock l g s) = held s"
  "cpus (upd_cpu c f s) d = (if d = c then f (cpus s c) else cpus s d)"
  "slocks (upd_slock l g s) k = (if k = l then g (slocks s l) else slocks s k)"
  by (simp_all add: upd_cpu_def upd_slock_def)

lemma popcli_Ok_iff:
  "popcli c s = Ok u t \<longleftrightarrow> \<not> c_if (cpus s c) \<and> 1 \<le> c_ncli (cpus s c) \<and>
     t = upd_cpu c (\<lambda>x. x\<lparr>c_ncli := c_ncli x - 1,
       c_if := (c_ncli x = 1 \<and> c_intena x)\<rparr>) s"
  by (auto simp: popcli_def run_iff upd_cpu_def fun_eq_iff)

lemma holding_Ok:
  assumes "0 \<le> c_ncli (cpus s c)" and "0 < c_ncli (cpus s c) \<longrightarrow> \<not> c_if (cpus s c)"
  shows "\<exists>b. holding c l s = Ok (holds_lock c l s) (upd_cpu c (\<lambda>x. x\<lparr>c_intena := b\<rparr>) s)"
proof -
  let ?p = "pushcli c s"
  have "popcli c ?p = Ok () (upd_cpu c (\<lambda>x. x\<lparr>c_intena :=
      (if c_ncli x = 0 then c_if x else c_intena x)\<rparr>) s)"
    using assms by (auto simp: popcli_Ok_iff pushcli_def upd_cpu_def fun_eq_iff)
  moreover have "holds_lock c l ?p = holds_lock c l s" by (simp add: holds_lock_def pushcli_def)
  ultimately have "holding c l s = Ok (holds_lock c l s) (upd_cpu c (\<lambda>x. x\<lparr>c_intena :=
      (if c_ncli (cpus s c) = 0 then c_if (cpus s c) else c_intena (cpus s c))\<rparr>) s)"
    by (simp add: holding_def upd_cpu_def)
  then show ?thesis by blast
qed

lemma spin_inv_ncli:
  assumes "spin_inv s"
  shows "0 \<le> c_ncli (cpus s c)" and "0 < c_ncli (cpus s c) \<longrightarrow> \<not> c_if (cpus s c)"
  using assms by (auto simp: spin_inv_def)

lemma holds_lock_iff: "spin_inv s \<Longrightarrow> holds_lock c l s \<longleftrightarrow> l \<in> set (held s c)"
  by (auto simp: spin_inv_def holds_lock_def owner_def)

lemma spin_inv_intena: "spin_inv (upd_cpu c (\<lambda>x. x\<lparr>c_intena := b\<rparr>) s) = spin_inv s"
  by (auto simp: spin_inv_def owner_def)

lemma enter_inv:
  assumes inv: "spin_inv s" and o: "at s c = Outside" and run: "acquire_enter c l s = Ok () t"
  shows "spin_inv t"
proof -
  have "0 \<le> c_ncli (cpus (pushcli c s) c)" "0 < c_ncli (cpus (pushcli c s) c) \<longrightarrow> \<not> c_if (cpus (pushcli c s) c)"
    using spin_inv_ncli [OF inv, of c] by (simp_all add: pushcli_def)
  then obtain b where "holding c l (pushcli c s)
      = Ok (holds_lock c l (pushcli c s)) (upd_cpu c (\<lambda>x. x\<lparr>c_intena := b\<rparr>) (pushcli c s))"
    using holding_Ok by blast
  with run have t: "t = (upd_cpu c (\<lambda>x. x\<lparr>c_intena := b\<rparr>) (pushcli c s))\<lparr>at := (at s)(c := Spinning l)\<rparr>"
    by (auto simp: acquire_enter_def run_iff pushcli_def)
  have ow: "owner t d k = owner s d k" for d k
    using o by (auto simp: t owner_def pushcli_def)
  have sel: "slocks t = slocks s" "held t = held s" "at t = (at s)(c := Spinning l)"
    "c_ncli (cpus t d) = c_ncli (cpus s d) + (if d = c then 1 else 0)"
    "c_if (cpus t d) = (c_if (cpus s d) \<and> d \<noteq> c)" for d
    by (simp_all add: t pushcli_def)
  show ?thesis using inv o unfolding spin_inv_def ow sel by auto
qed

lemma spin_step_inv:
  assumes inv: "spin_inv s" and a: "at s c = Spinning l" and run: "acquire_spin c l s = Ok () t"
  shows "spin_inv t"
proof (cases "lk_locked (slocks s l)")
  case True
  with run have "t = upd_slock l (\<lambda>k. k\<lparr>lk_locked := True\<rparr>) s"
    by (auto simp: acquire_spin_def xchg_locked_def run_iff)
  also have "\<dots> = s" using True by (auto simp: upd_slock_def fun_eq_iff intro!: smp.equality slock.equality)
  finally show ?thesis using inv by simp
next
  case False
  with run have t: "t = (upd_slock l (\<lambda>k. k\<lparr>lk_locked := True\<rparr>) s)\<lparr>at := (at s)(c := Won l)\<rparr>"
    by (auto simp: acquire_spin_def xchg_locked_def run_iff)
  have free: "\<not> owner s d l" for d using False inv by (auto simp: spin_inv_def)
  have ow: "owner t d k \<longleftrightarrow> owner s d k \<or> d = c \<and> k = l" for d k
    using a by (auto simp: t owner_def)
  have sel: "held t = held s" "cpus t = cpus s" "at t = (at s)(c := Won l)"
    "lk_cpu (slocks t k) = lk_cpu (slocks s k)"
    "lk_locked (slocks t k) = (lk_locked (slocks s k) \<or> k = l)" for k
    by (simp_all add: t)
  have "l \<notin> set (held s c)" using free [of c] by (simp add: owner_def)
  then show ?thesis
    using inv a free unfolding spin_inv_def ow sel by (auto split: if_splits)
qed

lemma record_inv:
  assumes inv: "spin_inv s" and a: "at s c = Won l" and run: "acquire_record c l s = Ok () t"
  shows "spin_inv t"
proof -
  from run have t: "t = (upd_slock l (\<lambda>k. k\<lparr>lk_cpu := Some c\<rparr>) s)
      \<lparr>at := (at s)(c := Outside), held := (held s)(c := l # held s c)\<rparr>"
    by (auto simp: acquire_record_def run_iff)
  have own: "owner s c l" using a by (simp add: owner_def)
  have ow: "owner t d k \<longleftrightarrow> owner s d k" for d k
    using a by (auto simp: t owner_def)
  have only: "owner s d l \<Longrightarrow> d = c" for d using inv own by (auto simp: spin_inv_def)
  have nh: "l \<notin> set (held s c)" using inv a by (auto simp: spin_inv_def)
  have sel: "held t = (held s)(c := l # held s c)" "cpus t = cpus s" "at t = (at s)(c := Outside)"
    "lk_cpu (slocks t k) = (if k = l then Some c else lk_cpu (slocks s k))"
    "lk_locked (slocks t k) = lk_locked (slocks s k)" for k
    by (simp_all add: t)
  have nd: "l \<in> set (held s d) \<Longrightarrow> d = c" for d using only [of d] by (simp add: owner_def)
  show ?thesis
    using inv a nh nd unfolding spin_inv_def ow sel by (auto split: if_splits)
qed

lemma leave_inv:
  assumes inv: "spin_inv s" and o: "at s c = Outside" and run: "release_enter c l s = Ok () t"
  shows "spin_inv t"
proof -
  obtain b where "holding c l s = Ok (holds_lock c l s) (upd_cpu c (\<lambda>x. x\<lparr>c_intena := b\<rparr>) s)"
    using holding_Ok [OF spin_inv_ncli [OF inv]] by blast
  with run have h: "holds_lock c l s"
    and t: "t = (upd_slock l (\<lambda>k. k\<lparr>lk_cpu := None\<rparr>) (upd_cpu c (\<lambda>x. x\<lparr>c_intena := b\<rparr>) s))
      \<lparr>at := (at s)(c := Dropping l), held := (held s)(c := remove1 l (held s c))\<rparr>"
    by (auto simp: release_enter_def run_iff)
  have hl: "l \<in> set (held s c)" using h holds_lock_iff [OF inv] by simp
  have d: "distinct (held s c)" using inv by (simp add: spin_inv_def)
  have ow: "owner t e k \<longleftrightarrow> owner s e k" for e k
    using o hl d by (auto simp: t owner_def)
  have sel: "held t = (held s)(c := remove1 l (held s c))" "at t = (at s)(c := Dropping l)"
    "c_ncli (cpus t e) = c_ncli (cpus s e)" "c_if (cpus t e) = c_if (cpus s e)"
    "lk_cpu (slocks t k) = (if k = l then None else lk_cpu (slocks s k))"
    "lk_locked (slocks t k) = lk_locked (slocks s k)" for e k
    by (simp_all add: t)
  have nd: "l \<in> set (held s e) \<Longrightarrow> e = c" for e
    using inv hl by (auto simp: spin_inv_def owner_def)
  have ln: "length (held s c) = Suc (length (remove1 l (held s c)))"
    using hl length_pos_if_in_set [OF hl] by (simp add: length_remove1)
  note I = spin_invD [OF inv]
  show ?thesis
  proof (rule spin_invI, unfold ow sel)
    show "owner s d k \<Longrightarrow> owner s e k \<Longrightarrow> d = e" for d e k by (rule I(1))
    show "lk_locked (slocks s k) = (\<exists>d. owner s d k)" for k by (rule I(2))
    show "((if k = l then None else lk_cpu (slocks s k)) = Some e)
        = (k \<in> set (((held s)(c := remove1 l (held s c))) e))" for k e
      using I(3) [of k e] nd [of e] d by auto
    show "distinct (((held s)(c := remove1 l (held s c))) e)" for e using I(4) [of e] d by (simp add: distinct_remove1)
    show "((at s)(c := Dropping l)) e = Won k \<or> ((at s)(c := Dropping l)) e = Dropping k
        \<Longrightarrow> k \<notin> set (((held s)(c := remove1 l (held s c))) e)" for e k
      using I(5) [of e k] d by (auto split: if_splits)
    show "c_ncli (cpus s e) = int (length (((held s)(c := remove1 l (held s c))) e))
        + (if ((at s)(c := Dropping l)) e = Outside then 0 else 1)" for e
      using I(6) [of e] ln o by simp
    show "0 < c_ncli (cpus s e) \<Longrightarrow> \<not> c_if (cpus s e)" for e by (rule I(7))
  qed
qed

lemma store_inv:
  assumes inv: "spin_inv s" and a: "at s c = Dropping l" and run: "release_store c l s = Ok () t"
  shows "spin_inv t"
proof -
  from run have t: "t = (upd_cpu c (\<lambda>x. x\<lparr>c_ncli := c_ncli x - 1, c_if := (c_ncli x = 1 \<and> c_intena x)\<rparr>)
      (upd_slock l (\<lambda>k. k\<lparr>lk_locked := False\<rparr>) s))\<lparr>at := (at s)(c := Outside)\<rparr>"
    by (auto simp: release_store_def run_iff popcli_Ok_iff)
  have own: "owner s c l" using a by (simp add: owner_def)
  have only: "owner s d l \<Longrightarrow> d = c" for d using inv own by (auto simp: spin_inv_def)
  have nh: "l \<notin> set (held s c)" using inv a by (auto simp: spin_inv_def)
  have ow: "owner t d k \<longleftrightarrow> owner s d k \<and> k \<noteq> l" for d k
  proof (cases "d = c")
    case True
    then show ?thesis using a nh by (auto simp: t owner_def)
  next
    case False
    then have "owner t d k = owner s d k" by (simp add: t owner_def)
    moreover have "\<not> owner s d l" using only [of d] False by blast
    ultimately show ?thesis by metis
  qed
  have sel: "held t = held s" "at t = (at s)(c := Outside)"
    "lk_cpu (slocks t k) = lk_cpu (slocks s k)"
    "lk_locked (slocks t k) = (lk_locked (slocks s k) \<and> k \<noteq> l)"
    "c_ncli (cpus t d) = c_ncli (cpus s d) - (if d = c then 1 else 0)"
    "c_if (cpus t d) = (if d = c then c_ncli (cpus s c) = 1 \<and> c_intena (cpus s c) else c_if (cpus s d))" for k d
    by (simp_all add: t)
  note I = spin_invD [OF inv]
  show ?thesis
  proof (rule spin_invI, unfold ow sel)
    show "owner s d k \<and> k \<noteq> l \<Longrightarrow> owner s e k \<and> k \<noteq> l \<Longrightarrow> d = e" for d e k using I(1) by blast
    show "(lk_locked (slocks s k) \<and> k \<noteq> l) = (\<exists>d. owner s d k \<and> k \<noteq> l)" for k using I(2) by blast
    show "(lk_cpu (slocks s k) = Some d) = (k \<in> set (held s d))" for k d by (rule I(3))
    show "distinct (held s d)" for d by (rule I(4))
    show "c_ncli (cpus s d) - (if d = c then 1 else 0)
        = int (length (held s d)) + (if ((at s)(c := Outside)) d = Outside then 0 else 1)" for d
      using I(6) [of d] a by simp
    show "0 < c_ncli (cpus s d) - (if d = c then 1 else 0) \<Longrightarrow>
        \<not> (if d = c then c_ncli (cpus s c) = 1 \<and> c_intena (cpus s c) else c_if (cpus s d))" for d
      using I(7) [of d] by (simp split: if_splits)
    show "((at s)(c := Outside)) d = Won k \<or> ((at s)(c := Outside)) d = Dropping k
        \<Longrightarrow> k \<notin> set (held s d)" for d k
      using I(5) [of d k] by (simp split: if_splits)
  qed
qed

lemma lock_step_inv: "lock_step s t \<Longrightarrow> spin_inv s \<Longrightarrow> spin_inv t"
  by (erule lock_stepE) (auto intro: enter_inv spin_step_inv record_inv leave_inv store_inv)

lemma smp_boot_inv: "spin_inv (smp_boot ie)"
  by (simp add: spin_inv_def smp_boot_def owner_def)

lemma reachable_inv:
  assumes "reachable s"
  shows "spin_inv s"
proof -
  from assms obtain ie where "lock_step\<^sup>*\<^sup>* (smp_boot ie) s" by (auto simp: reachable_def)
  then show ?thesis by (induction rule: rtranclp_induct) (auto intro: smp_boot_inv lock_step_inv)
qed

end
