(* ===== verification/Spinlock_Claims.thy ===== *)
theory Spinlock_Claims
  imports Spinlock_Props
begin

text \<open>
  What spinlock.c promises on several CPUs, and a run of one CPU against which the statements are
  evaluated: CPU 0 takes the ptable lock while CPU 1 spins on it.
\<close>

lemma reachable_boot: "reachable (smp_boot ie)"
  by (auto simp: reachable_def)

lemma reachable_step: "reachable s \<Longrightarrow> lock_step s t \<Longrightarrow> reachable t"
  unfolding reachable_def by (meson rtranclp.rtrancl_into_rtrancl)

definition run_take :: "nat \<Rightarrow> spin \<Rightarrow> smp \<Rightarrow> (smp, unit) outcome" where
  "run_take c l = bind (acquire_enter c l) (\<lambda>_. bind (acquire_spin c l) (\<lambda>_. acquire_record c l))"

definition contended :: smp where
  "contended = (case bind (run_take 0 PtableLock) (\<lambda>_. bind (acquire_enter 1 PtableLock)
     (\<lambda>_. acquire_spin 1 PtableLock)) (smp_boot True) of Ok _ s \<Rightarrow> s | _ \<Rightarrow> smp_boot True)"

lemmas run_simps = acquire_enter_def acquire_spin_def acquire_record_def xchg_locked_def holding_def
  popcli_def pushcli_def upd_cpu_def upd_slock_def holds_lock_def smp_boot_def bind_def ret_def
  panic_if_def panic_def reads_def modify_def whenM_def

lemma take_reachable:
  assumes r: "reachable s" and o: "at s c = Outside" and e: "acquire_enter c l s = Ok () t"
    and sp: "acquire_spin c l t = Ok () u" and w: "at t c = Spinning l" "at u c = Won l"
    and a: "acquire_record c l u = Ok () v"
  shows "reachable v"
  using reachable_step [OF reachable_step [OF reachable_step [OF r lock_step.enter [OF o e]]
      lock_step.spin [OF w(1) sp]] lock_step.record_owner [OF w(2) a]] .

lemma contended_reachable: "reachable contended"
proof -
  let ?b = "smp_boot True"
  obtain s1 where 1: "acquire_enter 0 PtableLock ?b = Ok () s1" by (simp add: run_simps)
  obtain s2 where 2: "acquire_spin 0 PtableLock s1 = Ok () s2" using 1 by (auto simp: run_simps)
  obtain s3 where 3: "acquire_record 0 PtableLock s2 = Ok () s3" by (simp add: run_simps)
  have a: "at s1 0 = Spinning PtableLock" "at s2 0 = Won PtableLock" "at ?b 0 = Outside"
    using 1 2 by (auto simp: run_simps)
  have r3: "reachable s3" by (rule take_reachable [OF reachable_boot a(3) 1 2 a(1,2) 3])
  obtain s4 where 4: "acquire_enter 1 PtableLock s3 = Ok () s4" using 1 2 3 by (auto simp: run_simps)
  obtain s5 where 5: "acquire_spin 1 PtableLock s4 = Ok () s5"
    by (cases "lk_locked (slocks s4 PtableLock)") (auto simp: run_simps)
  have b: "at s3 1 = Outside" "at s4 1 = Spinning PtableLock" using 1 2 3 4 by (auto simp: run_simps)
  have "reachable s5"
    by (rule reachable_step [OF reachable_step [OF r3 lock_step.enter [OF b(1) 4]]
          lock_step.spin [OF b(2) 5]])
  moreover have "contended = s5"
    using 1 2 3 4 5 by (simp add: contended_def run_take_def)
  ultimately show ?thesis by simp
qed

lemma contended_locks:
  "held contended 0 = [PtableLock]" "at contended 1 = Spinning PtableLock"
  by (simp_all add: contended_def run_take_def run_simps)

subsection \<open>The locks of one CPU\<close>

text \<open>
  With no other CPU in the way, the steps of a CPU through \<open>acquire\<close> and \<open>release\<close> have the result that
  theory Kstate gives them in one step, the list \<open>held\<close> being its \<open>locks\<close>.
\<close>

definition run_drop :: "nat \<Rightarrow> spin \<Rightarrow> smp \<Rightarrow> (smp, unit) outcome" where
  "run_drop c l = bind (release_enter c l) (\<lambda>_. release_store c l)"

lemma holding_run:
  assumes "spin_inv s"
  obtains b where "holding c l s = Ok (l \<in> set (held s c)) (upd_cpu c (\<lambda>x. x\<lparr>c_intena := b\<rparr>) s)"
  using holding_Ok [OF spin_inv_ncli [OF assms], of c l] holds_lock_iff [OF assms] by auto

lemma holding_pushed:
  assumes "spin_inv s"
  obtains b where "holding c l (pushcli c s) = Ok (l \<in> set (held s c)) (upd_cpu c (\<lambda>x. x\<lparr>c_intena := b\<rparr>) (pushcli c s))"
proof -
  have "0 \<le> c_ncli (cpus (pushcli c s) c)" "0 < c_ncli (cpus (pushcli c s) c) \<longrightarrow> \<not> c_if (cpus (pushcli c s) c)"
    using spin_inv_ncli [OF assms, of c] by (simp_all add: pushcli_def)
  from holding_Ok [OF this, of l] holds_lock_iff [OF assms, of c l] that show ?thesis
    by (auto simp: holds_lock_def pushcli_def)
qed

lemma acquire_implements:
  assumes r: "reachable s" and o: "at s c = Outside" and k: "locks k = held s c"
    and alone: "\<And>d. d \<noteq> c \<Longrightarrow> \<not> owner s d l"
  shows "case acquire l k of
      Ok _ k' \<Rightarrow> \<exists>t. run_take c l s = Ok () t \<and> reachable t \<and> at t c = Outside \<and> held t c = locks k'
    | Panic e \<Rightarrow> run_take c l s = Panic e | _ \<Rightarrow> False"
proof -
  have inv: "spin_inv s" by (rule reachable_inv [OF r])
  obtain b where h: "holding c l (pushcli c s) = Ok (l \<in> set (held s c)) (upd_cpu c (\<lambda>x. x\<lparr>c_intena := b\<rparr>) (pushcli c s))"
    by (rule holding_pushed [OF inv])
  show ?thesis
  proof (cases "l \<in> set (held s c)")
    case True
    then show ?thesis using h by (simp add: acquire_def k run_take_def acquire_enter_def)
  next
    case False
    then have "\<not> owner s d l" for d using alone [of d] o by (cases "d = c") (auto simp: owner_def)
    then have free: "\<not> lk_locked (slocks s l)" using spin_invD(2) [OF inv, of l] by simp
    define t where "t = (upd_cpu c (\<lambda>x. x\<lparr>c_intena := b\<rparr>) (pushcli c s))\<lparr>at := (at s)(c := Spinning l)\<rparr>"
    define u where "u = (upd_slock l (\<lambda>k. k\<lparr>lk_locked := True\<rparr>) t)\<lparr>at := (at t)(c := Won l)\<rparr>"
    define v where "v = (upd_slock l (\<lambda>k. k\<lparr>lk_cpu := Some c\<rparr>) u)\<lparr>at := (at u)(c := Outside), held := (held u)(c := l # held u c)\<rparr>"
    have 1: "acquire_enter c l s = Ok () t"
      using h False by (simp add: acquire_enter_def t_def pushcli_def)
    have sl: "slocks t = slocks s" "at t c = Spinning l" "held t = held s" by (simp_all add: t_def pushcli_def)
    have 2: "acquire_spin c l t = Ok () u" using free by (simp add: acquire_spin_def xchg_locked_def sl u_def)
    have 3: "acquire_record c l u = Ok () v" by (simp add: acquire_record_def v_def)
    have "reachable v" by (rule take_reachable [OF r o 1 2 sl(2) _ 3]) (simp add: u_def)
    moreover have "run_take c l s = Ok () v" by (simp add: run_take_def 1 2 3)
    moreover have "at v c = Outside" "held v c = l # held s c" by (simp_all add: v_def u_def sl)
    ultimately show ?thesis using False k by (simp add: acquire_def)
  qed
qed

lemma release_run:
  assumes r: "reachable s" and l: "l \<in> set (held s c)" and o: "at s c = Outside"
  shows "\<exists>t u. release_enter c l s = Ok () t \<and> release_store c l t = Ok () u \<and> reachable u
    \<and> held u c = remove1 l (held s c) \<and> \<not> lk_locked (slocks u l) \<and> lk_cpu (slocks u l) = None
    \<and> at u c = Outside \<and> c_ncli (cpus u c) = c_ncli (cpus s c) - 1"
proof -
  have inv: "spin_inv s" by (rule reachable_inv [OF r])
  obtain b where h: "holding c l s = Ok (l \<in> set (held s c)) (upd_cpu c (\<lambda>x. x\<lparr>c_intena := b\<rparr>) s)"
    by (rule holding_run [OF inv])
  have n: "1 \<le> c_ncli (cpus s c)" "\<not> c_if (cpus s c)"
    using spin_invD(6,7) [OF inv, of c] l by (cases "held s c"; auto)+
  define t where "t = (upd_slock l (\<lambda>k. k\<lparr>lk_cpu := None\<rparr>) (upd_cpu c (\<lambda>x. x\<lparr>c_intena := b\<rparr>) s))
      \<lparr>at := (at s)(c := Dropping l), held := (held s)(c := remove1 l (held s c))\<rparr>"
  have 1: "release_enter c l s = Ok () t" using h l by (simp add: release_enter_def t_def)
  have 2: "release_store c l t = Ok () ((upd_cpu c (\<lambda>x. x\<lparr>c_ncli := c_ncli x - 1,
       c_if := (c_ncli x = 1 \<and> c_intena x)\<rparr>) (upd_slock l (\<lambda>k. k\<lparr>lk_locked := False\<rparr>) t))
      \<lparr>at := (at t)(c := Outside)\<rparr>)" (is "_ = Ok () ?u")
    using n by (auto simp: release_store_def run_iff popcli_Ok_iff t_def upd_slock_def upd_cpu_def)
  have "at t c = Dropping l" by (simp add: t_def)
  then have ru: "reachable ?u"
    using reachable_step [OF reachable_step [OF r lock_step.leave [OF o 1]] lock_step.store [OF _ 2]] by simp
  show ?thesis
    by (intro exI conjI, rule 1, rule 2, rule ru) (simp_all add: t_def)
qed

lemma release_implements:
  assumes r: "reachable s" and o: "at s c = Outside" and k: "locks k = held s c"
  shows "case release l k of
      Ok _ k' \<Rightarrow> \<exists>t. run_drop c l s = Ok () t \<and> reachable t \<and> at t c = Outside \<and> held t c = locks k'
    | Panic e \<Rightarrow> run_drop c l s = Panic e | _ \<Rightarrow> False"
proof (cases "l \<in> set (held s c)")
  case True
  from release_run [OF r True o] obtain t u where "release_enter c l s = Ok () t" "release_store c l t = Ok () u"
    "reachable u" "held u c = remove1 l (held s c)" "at u c = Outside" by blast
  then show ?thesis using True k by (simp add: release_def run_drop_def)
next
  case False
  obtain b where "holding c l s = Ok (l \<in> set (held s c)) (upd_cpu c (\<lambda>x. x\<lparr>c_intena := b\<rparr>) s)"
    by (rule holding_run [OF reachable_inv [OF r]])
  then show ?thesis using False k by (simp add: release_def run_drop_def release_enter_def)
qed

subsection \<open>Properties\<close>

text \<open>C5: Mutual exclusion of spin locks. In every state that any interleaving of acquires and
  releases on any number of CPUs can reach, a lock is held by one CPU at most, the CPU that holds
  it has interrupts off, and the lock word and owner field say who holds it.\<close>

theorem spinlock_mutual_exclusion:
  assumes "reachable s" and "l \<in> set (held s c)"
  shows "(\<forall>d. l \<in> set (held s d) \<longrightarrow> d = c) \<and> \<not> c_if (cpus s c)
    \<and> lk_locked (slocks s l) \<and> lk_cpu (slocks s l) = Some c \<and> holds_lock c l s"
proof -
  have inv: "spin_inv s" by (rule reachable_inv [OF assms(1)])
  note D = spin_invD [OF inv]
  have own: "l \<in> set (held s d) \<Longrightarrow> owner s d l" for d by (simp add: owner_def)
  have "0 < c_ncli (cpus s c)"
    using D(6) [of c] assms(2) by (cases "held s c") auto
  then show ?thesis
    using D(1) [of _ l c] D(2) [of l] D(3) [of l c] D(7) [of c] own assms(2) holds_lock_iff [OF inv]
    by blast
qed

lemma spinlock_mutual_exclusion_witness:
  "PtableLock \<notin> set (held contended 1) \<and> \<not> c_if (cpus contended 0)
    \<and> lk_locked (slocks contended PtableLock) \<and> lk_cpu (slocks contended PtableLock) = Some 0
    \<and> holds_lock 0 PtableLock contended"
  using spinlock_mutual_exclusion [OF contended_reachable, of PtableLock 0]
  by (auto simp: contended_locks)

text \<open>C6: A CPU that holds a lock can always release it: \<open>release\<close> does not panic, gives the lock
  up, and restores the interrupt flag when it was the last lock.\<close>

theorem spinlock_release_ok:
  assumes "reachable s" and "l \<in> set (held s c)" and "at s c = Outside"
  shows "\<exists>t u. release_enter c l s = Ok () t \<and> release_store c l t = Ok () u
    \<and> held u c = remove1 l (held s c) \<and> \<not> lk_locked (slocks u l) \<and> lk_cpu (slocks u l) = None
    \<and> at u c = Outside \<and> c_ncli (cpus u c) = c_ncli (cpus s c) - 1"
  using release_run [OF assms] by blast

lemma spinlock_release_ok_witness:
  "\<exists>t u. release_enter 0 PtableLock contended = Ok () t \<and> release_store 0 PtableLock t = Ok () u
    \<and> held u 0 = remove1 PtableLock (held contended 0) \<and> \<not> lk_locked (slocks u PtableLock)
    \<and> lk_cpu (slocks u PtableLock) = None \<and> at u 0 = Outside
    \<and> c_ncli (cpus u 0) = c_ncli (cpus contended 0) - 1"
  by (rule spinlock_release_ok [OF contended_reachable])
    (simp_all add: contended_def run_take_def run_simps)

end
