(* ===== verification/Ulib.thy ===== *)
theory Ulib
  imports Kstring
begin

text \<open>
  The library of the user programs, ulib.c and printf.c.  The routines that only read their
  strings are over lists of characters: the list is what the pointer points at, \<open>chr_at s 0\<close> is
  \<open>*s\<close> with the NUL behind the last character, and \<open>tl s\<close> is \<open>s + 1\<close>.  The routines that write
  are over the byte memory of the kernel's string routines, whose types they share.  What
  \<open>read(0, ...)\<close> delivers is a list of characters, its end is the end of the input.
\<close>

definition NUL :: char where "NUL = CHR 0x00"

definition chr_at :: "string \<Rightarrow> nat \<Rightarrow> char" where
  "chr_at s i = (if i < length s then s ! i else NUL)"

lemma chr_at_simps [simp]:
  "chr_at [] i = NUL" "chr_at (c # s) 0 = c" "chr_at (c # s) (Suc i) = chr_at s i"
  by (simp_all add: chr_at_def)

text \<open>C strings: no NUL before the end.\<close>

definition cstring :: "string \<Rightarrow> bool" where
  "cstring s \<longleftrightarrow> NUL \<notin> set s"

lemma cstring_simps [simp]:
  "cstring []" "cstring (c # s) \<longleftrightarrow> c \<noteq> NUL \<and> cstring s" "cstring (s @ t) \<longleftrightarrow> cstring s \<and> cstring t"
  by (auto simp: cstring_def)

lemma cstring_drop [simp]: "cstring s \<Longrightarrow> cstring (drop n s)"
  by (auto simp: cstring_def dest: in_set_dropD)

lemma chr_at_NUL: "cstring s \<Longrightarrow> chr_at s 0 = NUL \<longleftrightarrow> s = []"
  by (cases s) auto

text \<open>The string at a position of the buffer.\<close>

definition string_at :: "string \<Rightarrow> nat \<Rightarrow> string" where
  "string_at b q = takeWhile (\<lambda>c. c \<noteq> NUL) (drop q b)"

subsection \<open>ulib.c: strings\<close>

text \<open>\<open>while((*s++ = *t++) != 0);\<close> over memory: \<open>None\<close> if \<open>t\<close> has no NUL.\<close>

partial_function (option) ustrcpy :: "nat \<Rightarrow> nat \<Rightarrow> mem \<Rightarrow> mem option" where
  "ustrcpy s t m = (let m' = m(s := m t) in
     if m t \<noteq> 0 then ustrcpy (s + 1) (t + 1) m' else Some m')"

function ustrcmp :: "string \<Rightarrow> string \<Rightarrow> int" where
  "ustrcmp p q =
     (if chr_at p 0 \<noteq> NUL \<and> chr_at p 0 = chr_at q 0 then ustrcmp (tl p) (tl q)
      else of_char (chr_at p 0) - of_char (chr_at q 0))"
  by pat_completeness auto
termination
  by (relation "measure (length \<circ> fst)") (auto simp: chr_at_def split: if_splits)

function ustrlen :: "string \<Rightarrow> nat" where
  "ustrlen s = (if chr_at s 0 \<noteq> NUL then Suc (ustrlen (tl s)) else 0)"
  by pat_completeness auto
termination
  by (relation "measure length") (auto simp: chr_at_def split: if_splits)

definition umemset :: "nat \<Rightarrow> uint \<Rightarrow> nat \<Rightarrow> mem \<Rightarrow> mem" where
  "umemset dst c n m = stosb dst c n m"

text \<open>\<open>strchr\<close>: the index of the pointer it returns, \<open>None\<close> for a null pointer.\<close>

function strchr :: "string \<Rightarrow> char \<Rightarrow> nat option" where
  "strchr s c =
     (if chr_at s 0 = NUL then None
      else if chr_at s 0 = c then Some 0
      else map_option Suc (strchr (tl s) c))"
  by pat_completeness auto
termination
  by (relation "measure (length \<circ> fst)") (auto simp: chr_at_def split: if_splits)

declare ustrcmp.simps [simp del] ustrlen.simps [simp del] strchr.simps [simp del]

lemma strchr_Nil [simp]: "strchr [] c = None"
  by (simp add: strchr.simps)

text \<open>
  \<open>gets(buf, max)\<close>: the characters it stores in front of the NUL, and the input that is left;
  the first argument is how many more fit, \<open>max - 1 - i\<close>.
\<close>

fun gets_loop :: "nat \<Rightarrow> string \<Rightarrow> string \<times> string" where
  "gets_loop 0 inp = ([], inp)"
| "gets_loop (Suc n) [] = ([], [])"
| "gets_loop (Suc n) (c # inp) =
     (if c = CHR 0x0A \<or> c = CHR 0x0D then ([c], inp)
      else (let (line, rest) = gets_loop n inp in (c # line, rest)))"

definition gets :: "nat \<Rightarrow> string \<Rightarrow> string \<times> string" where
  "gets n inp = gets_loop (n - 1) inp"

lemma gets_loop_length: "gets_loop n inp = (line, rest) \<Longrightarrow> length rest + length line = length inp"
  by (induction n inp arbitrary: line rest rule: gets_loop.induct) (auto split: if_splits prod.splits)

lemma gets_shorter: "gets n inp = (line, rest) \<Longrightarrow> chr_at line 0 \<noteq> NUL \<Longrightarrow> length rest < length inp"
  using gets_loop_length [of "n - 1" inp line rest] by (cases line) (auto simp: gets_def)

text \<open>\<open>stat\<close>: \<open>open\<close>, \<open>fstat\<close> and \<open>close\<close> of the kernel are arguments.\<close>

definition ustat :: "(string \<Rightarrow> 's \<Rightarrow> int \<times> 's) \<Rightarrow> (int \<Rightarrow> 's \<Rightarrow> int \<times> 's) \<Rightarrow> (int \<Rightarrow> 's \<Rightarrow> 's)
    \<Rightarrow> string \<Rightarrow> 's \<Rightarrow> int \<times> 's" where
  "ustat sys_op sys_fst sys_cl n s =
     (let (fd, s) = sys_op n s in
      if fd < 0 then (- 1, s)
      else (let (r, s) = sys_fst fd s in (r, sys_cl fd s)))"

text \<open>\<open>'0' <= *s && *s <= '9'\<close>: characters are signed, those from 128 on are below \<open>'0'\<close>.\<close>

definition is_digit :: "char \<Rightarrow> bool" where
  "is_digit c \<longleftrightarrow> (48 :: nat) \<le> of_char c \<and> of_char c \<le> (57 :: nat)"

text \<open>\<open>n = n*10 + *s++ - '0'\<close> wraps around like the \<open>int\<close> it is computed in.\<close>

primrec atoi_loop :: "uint \<Rightarrow> string \<Rightarrow> uint" where
  "atoi_loop n [] = n"
| "atoi_loop n (c # s) = (if is_digit c then atoi_loop (n * 10 + of_char c - 48) s else n)"

definition atoi :: "string \<Rightarrow> int" where
  "atoi s = sint (atoi_loop 0 s)"

text \<open>\<open>while(n-- > 0) *dst++ = *src++;\<close> whatever the overlap.\<close>

definition umemmove :: "nat \<Rightarrow> nat \<Rightarrow> int \<Rightarrow> mem \<Rightarrow> mem" where
  "umemmove vdst vsrc n m = move_up vdst vsrc (nat n) m"

definition strcmpbool :: "string \<Rightarrow> string \<Rightarrow> bool" where
  "strcmpbool p q = (ustrcmp p q = 0)"

text \<open>
  \<open>read(fd, buf, k)\<close> of the programs that read a whole file: the elements of the list are what is
  there when the calls are made, \<open>None\<close> an error; what does not fit is left for the next call, and
  no bytes are the end.
\<close>

fun uread :: "nat \<Rightarrow> string option list \<Rightarrow> string option \<times> string option list" where
  "uread k [] = (Some [], [])"
| "uread k (None # inp) = (None, inp)"
| "uread k (Some r # inp) = (Some (take k r), if length r \<le> k then inp else Some (drop k r) # inp)"

definition input_size :: "string option list \<Rightarrow> nat" where
  "input_size inp = sum_list (map (case_option 0 length) inp)"

lemma uread_size:
  "uread k inp = (Some r, inp') \<Longrightarrow> input_size inp = length r + input_size inp'"
  by (induction k inp rule: uread.induct) (auto simp: input_size_def split: if_splits)

lemma uread_length: "uread k inp = (Some r, inp') \<Longrightarrow> length r \<le> k"
  by (induction k inp rule: uread.induct) auto

subsection \<open>printf.c\<close>

definition hex_digits :: string where
  "hex_digits = ''0123456789ABCDEF''"

text \<open>The characters that \<open>printint\<close> gives to \<open>putc\<close>, in their order.\<close>

definition uprintint :: "uint \<Rightarrow> nat \<Rightarrow> bool \<Rightarrow> string" where
  "uprintint xx base sign =
     (let neg = (sign \<and> sint xx < 0);
          x = (if neg then - xx else xx);
          buf = map (\<lambda>d. hex_digits ! d) (digits_of (unat x) base) @ (if neg then ''-'' else [])
      in rev buf)"

text \<open>The variable arguments: words, or pointers to strings, \<open>None\<close> for a null pointer.\<close>

datatype uarg = UWord uint | UStr "string option"

text \<open>
  What \<open>printf\<close> writes; \<open>None\<close> when a conversion finds no argument of its kind.  A percent sign
  at the end of the format prints nothing.
\<close>

fun uprintf :: "string \<Rightarrow> uarg list \<Rightarrow> string option" where
  "uprintf [] args = Some []"
| "uprintf [c] args = Some (if c = CHR ''%'' then [] else [c])"
| "uprintf (c # d # fmt) args =
     (if c \<noteq> CHR ''%'' then map_option (\<lambda>out. c # out) (uprintf (d # fmt) args)
      else if d = CHR ''d'' then
        (case args of UWord w # args \<Rightarrow> map_option (\<lambda>out. uprintint w 10 True @ out) (uprintf fmt args)
                    | _ \<Rightarrow> None)
      else if d = CHR ''x'' \<or> d = CHR ''p'' then
        (case args of UWord w # args \<Rightarrow> map_option (\<lambda>out. uprintint w 16 False @ out) (uprintf fmt args)
                    | _ \<Rightarrow> None)
      else if d = CHR ''s'' then
        (case args of
           UStr s # args \<Rightarrow> map_option (\<lambda>out. (case s of None \<Rightarrow> ''(null)'' | Some s \<Rightarrow> s) @ out) (uprintf fmt args)
         | _ \<Rightarrow> None)
      else if d = CHR ''c'' then
        (case args of UWord w # args \<Rightarrow> map_option (\<lambda>out. char_of (unat w) # out) (uprintf fmt args)
                    | _ \<Rightarrow> None)
      else if d = CHR ''%'' then map_option (\<lambda>out. d # out) (uprintf fmt args)
      else map_option (\<lambda>out. CHR ''%'' # d # out) (uprintf fmt args))"

subsection \<open>The string routines on C strings\<close>

lemma ustrlen_length: "cstring s \<Longrightarrow> ustrlen s = length s"
  by (induction s) (auto simp: ustrlen.simps)

lemma of_char_eq [simp]: "of_char c = (of_char d :: int) \<longleftrightarrow> c = d"
proof -
  have "of_char c = (of_char d :: int) \<longleftrightarrow> int (of_char c) = int (of_char d)"
    by (simp only: of_nat_of_char)
  then show ?thesis by (simp del: of_nat_of_char)
qed

lemma of_char_0 [simp]: "of_char c = (0 :: int) \<longleftrightarrow> c = CHR 0x00"
  using of_char_eq [of c "CHR 0x00"] by simp

lemma ustrcmp_eq: "cstring p \<Longrightarrow> cstring q \<Longrightarrow> ustrcmp p q = 0 \<longleftrightarrow> p = q"
proof (induction p arbitrary: q)
  case Nil
  show ?case
    by (cases q) (use Nil in \<open>auto simp: ustrcmp.simps [of "[]"] NUL_def\<close>)
next
  case (Cons c p)
  show ?case
    by (cases q) (use Cons in \<open>auto simp: ustrcmp.simps [of "c # p"] NUL_def\<close>)
qed

lemma strcmpbool_eq: "cstring p \<Longrightarrow> cstring q \<Longrightarrow> strcmpbool p q \<longleftrightarrow> p = q"
  by (simp add: strcmpbool_def ustrcmp_eq)

lemma strchr_None: "cstring s \<Longrightarrow> strchr s c = None \<longleftrightarrow> c \<notin> set s"
  by (induction s) (auto simp: strchr.simps)

lemma strchr_Some: "cstring s \<Longrightarrow> strchr s c = Some i \<Longrightarrow> i < length s \<and> s ! i = c \<and> c \<notin> set (take i s)"
proof (induction s arbitrary: i)
  case Nil
  then show ?case by (simp add: strchr.simps)
next
  case (Cons a s)
  then show ?case by (cases i) (auto simp: strchr.simps [of "a # s"] split: if_splits)
qed

text \<open>The pieces of a string between the occurrences of a character.\<close>

fun split_on :: "char \<Rightarrow> string \<Rightarrow> string list" where
  "split_on c [] = [[]]"
| "split_on c (x # s) = (if x = c then [] # split_on c s
     else (x # hd (split_on c s)) # tl (split_on c s))"

lemma split_on_nonempty [simp]: "split_on c s \<noteq> []"
  by (cases s) auto

lemma split_on_none: "c \<notin> set s \<Longrightarrow> split_on c s = [s]"
  by (induction s) auto

lemma split_on_append: "c \<notin> set s \<Longrightarrow> split_on c (s @ c # t) = s # split_on c t"
  by (induction s) auto

lemma split_on_prefix:
  "c \<notin> set s \<Longrightarrow> split_on c (s @ t) = (s @ hd (split_on c t)) # tl (split_on c t)"
  by (induction s) auto

lemma split_on_single: "split_on c s = [w] \<Longrightarrow> w = s"
  by (induction s arbitrary: w) (auto split: if_splits simp: tl_Nil)

text \<open>Only the last piece of the front goes on.\<close>

lemma split_on_app: "split_on c (s @ t) = butlast (split_on c s) @ split_on c (last (split_on c s) @ t)"
proof (induction s)
  case (Cons x s)
  obtain h T where S: "split_on c s = h # T" by (cases "split_on c s") auto
  show ?case
    by (cases "T = []") (use Cons S split_on_single [of c s h] in \<open>auto\<close>)
qed simp

lemma split_on_last: "c \<notin> set (last (split_on c s))"
proof (induction s)
  case (Cons x s)
  obtain h T where "split_on c s = h # T" by (cases "split_on c s") auto
  then show ?case using Cons by (auto split: if_splits)
qed simp

lemma split_on_last_length: "length (last (split_on c s)) \<le> length s"
  "c \<in> set s \<Longrightarrow> length (last (split_on c s)) < length s"
proof -
  have "length (last (split_on c s)) \<le> length s \<and>
    (c \<in> set s \<longrightarrow> length (last (split_on c s)) < length s)"
  proof (induction s)
    case (Cons x s)
    obtain h T where "split_on c s = h # T" by (cases "split_on c s") auto
    then show ?case using Cons split_on_single [of c s h] split_on_none [of c s] by auto
  qed simp
  then show "length (last (split_on c s)) \<le> length s"
    "c \<in> set s \<Longrightarrow> length (last (split_on c s)) < length s" by auto
qed

lemma split_on_last_set: "set (last (split_on c s)) \<subseteq> set s"
proof (induction s)
  case (Cons x s)
  obtain h T where "split_on c s = h # T" by (cases "split_on c s") auto
  then show ?case using Cons split_on_single [of c s h] by auto
qed simp

lemma split_on_strchr:
  assumes "cstring s" and "strchr s c = Some i"
  shows "split_on c s = take i s # split_on c (drop (Suc i) s)"
proof -
  from strchr_Some [OF assms] have i: "i < length s" "s ! i = c" "c \<notin> set (take i s)" by auto
  have "s = take i s @ c # drop (Suc i) s" using id_take_nth_drop [OF i(1)] unfolding i(2) .
  then show ?thesis using split_on_append [OF i(3), of "drop (Suc i) s"] by simp
qed

subsection \<open>Printing and reading numbers\<close>

lemma hex_digit_code: "d < 10 \<Longrightarrow> of_char (hex_digits ! d) = (48 + d :: nat)"
  by (auto simp: hex_digits_def less_Suc_eq numeral_eq_Suc)

lemma hex_digit_is_digit: "d < 10 \<Longrightarrow> is_digit (hex_digits ! d)"
  by (simp add: is_digit_def hex_digit_code)

lemma atoi_loop_digits:
  assumes "list_all (\<lambda>d. d < 10) ds"
  shows "atoi_loop (word_of_nat n) (map (\<lambda>d. hex_digits ! d) ds @ rest)
    = atoi_loop (word_of_nat (foldl (\<lambda>n d. n * 10 + d) n ds)) rest"
  using assms
proof (induction ds arbitrary: n)
  case (Cons d ds)
  let ?f = "\<lambda>d. hex_digits ! d"
  have d: "d < 10" and ds: "list_all (\<lambda>d. d < 10) ds" using Cons.prems by simp_all
  have "of_char (?f d) = (of_nat (of_char (?f d)) :: uint)" by (simp only: of_nat_of_char)
  then have step: "word_of_nat n * 10 + of_char (?f d) - 48 = (word_of_nat (n * 10 + d) :: uint)"
    using hex_digit_code [OF d] by simp
  have "atoi_loop (word_of_nat n) (map ?f (d # ds) @ rest)
      = atoi_loop (word_of_nat n * 10 + of_char (?f d) - 48) (map ?f ds @ rest)"
    by (simp add: hex_digit_is_digit [OF d])
  also have "\<dots> = atoi_loop (word_of_nat (foldl (\<lambda>n d. n * 10 + d) (n * 10 + d) ds)) rest"
    unfolding step by (rule Cons.IH [OF ds])
  finally show ?case by simp
qed simp

lemma atoi_digits:
  assumes "list_all (\<lambda>d. d < 10) ds"
  shows "atoi_loop 0 (map (\<lambda>d. hex_digits ! d) ds) = word_of_nat (digits_value 10 ds)"
  using atoi_loop_digits [OF assms, of 0 "[]"] by (simp add: digits_value_def)

end
