(* ===== verification/Userprog.thy ===== *)
theory Userprog
  imports Ulib
begin

text \<open>
  User programs as trees of system calls: what a program does next is a function of what the call
  returned, so a tree holds the program's behaviour for every answer of the kernel.  The branches of
  a tree are finite: \<open>Spin\<close> is a loop without a call, and \<open>More\<close> is where a loop that only an answer
  can end has gone through the number of rounds it was given.  \<open>execs\<close> runs a
  tree on a table of file descriptors and lists the programs that are executed, with the table
  each of them gets.
\<close>

datatype sysreq =
    SFork | SWait
  | SExec string "string list"
  | SOpen string int
  | SClose int
  | SDup int
  | SWrite int string
  | SChdir string
  | SMkdir string
  | SUnlink string
  | SLink string string
  | SMknod string int int
  | SKill int
  | SSleep int
  | SGetpid
  | SSbrk int
  | SReadcount
  | SLinkAt string uint

text \<open>
  \<open>SLinkAt\<close> is \<open>link\<close> with a second argument that is an address and no string.  What the programs do
  besides system calls: accesses to memory, instructions (\<open>IntSyscall\<close> is a system call with a given
  stack pointer), and the calls of the allocator, whose model is umalloc.c's.
\<close>

datatype prim =
    Peek uint | Poke uint uint
  | Peek32 uint | Poke32 uint uint
  | Outb uint uint | Inb uint
  | IntSyscall nat uint
  | Malloc uint | Free uint

text \<open>
  \<open>CallPipe\<close>: the result of \<open>pipe(p)\<close>, \<open>p[0]\<close> and \<open>p[1]\<close>.  \<open>CallRead\<close>: the result of \<open>read\<close> and the
  bytes it stored.
\<close>

datatype prog =
    Exit
  | Call sysreq "int \<Rightarrow> prog"
  | CallPipe "int \<Rightarrow> int \<Rightarrow> int \<Rightarrow> prog"
  | CallRead int int "int \<Rightarrow> string \<Rightarrow> prog"
  | Do prim "uint \<Rightarrow> prog"
  | Spin
  | More

text \<open>A string given to \<open>printf\<close> is written character by character.\<close>

primrec puts :: "int \<Rightarrow> string \<Rightarrow> prog \<Rightarrow> prog" where
  "puts fd [] k = k"
| "puts fd (c # s) k = Call (SWrite fd [c]) (\<lambda>_. puts fd s k)"

abbreviation newline :: string where "newline \<equiv> [CHR 0x0A]"

subsection \<open>Running a program on its file descriptors\<close>

text \<open>What a descriptor is open on; pipes are numbered in the order they are made.\<close>

datatype fobj = Console | Disk string int | PipeRead nat | PipeWrite nat

type_synonym fdtable = "nat \<Rightarrow> fobj option"

text \<open>\<open>fdalloc\<close> of the kernel: the lowest free descriptor below \<open>NOFILE = 16\<close>.\<close>

definition lowest_fd :: "fdtable \<Rightarrow> nat option" where
  "lowest_fd t = find (\<lambda>i. t i = None) [0..<16]"

definition open_fd :: "fobj \<Rightarrow> fdtable \<Rightarrow> int \<times> fdtable" where
  "open_fd x t = (case lowest_fd t of None \<Rightarrow> (- 1, t) | Some i \<Rightarrow> (int i, t(i := Some x)))"

definition fd_object :: "int \<Rightarrow> fdtable \<Rightarrow> fobj option" where
  "fd_object fd t = (if 0 \<le> fd \<and> fd < 16 then t (nat fd) else None)"

text \<open>
  What the calls on descriptors return, and the table after them.  A call on a descriptor that
  is not open returns -1; opening a file works if there is a free descriptor.
\<close>

definition fd_call :: "sysreq \<Rightarrow> fdtable \<Rightarrow> int \<times> fdtable" where
  "fd_call r t = (case r of
       SOpen f mode \<Rightarrow> open_fd (Disk f mode) t
     | SClose fd \<Rightarrow> (if fd_object fd t = None then (- 1, t) else (0, t(nat fd := None)))
     | SDup fd \<Rightarrow> (case fd_object fd t of None \<Rightarrow> (- 1, t) | Some x \<Rightarrow> open_fd x t)
     | SWrite fd s \<Rightarrow> (if fd_object fd t = None then - 1 else int (length s), t)
     | _ \<Rightarrow> (0, t))"

text \<open>
  The programs that a tree executes, when \<open>fork\<close>, \<open>exec\<close> and \<open>open\<close> succeed and every file is at its
  end: the child's first, then the parent's; with the number of pipes made so far.
\<close>

primrec execs :: "prog \<Rightarrow> fdtable \<Rightarrow> nat \<Rightarrow> (string list \<times> fdtable) list \<times> nat" where
  "execs Exit t n = ([], n)"
| "execs (Call r k) t n =
     (case r of
        SExec path argv \<Rightarrow> ([(argv, t)], n)
      | SFork \<Rightarrow> (let (xs, n) = execs (k 0) t n; (ys, n) = execs (k 1) t n in (xs @ ys, n))
      | _ \<Rightarrow> execs (k (fst (fd_call r t))) (snd (fd_call r t)) n)"
| "execs (CallPipe k) t n =
     (let (r, t1) = open_fd (PipeRead n) t; (w, t2) = open_fd (PipeWrite n) t1 in
      if r < 0 \<or> w < 0 then execs (k (- 1) 0 0) t n else execs (k 0 r w) t2 (n + 1))"
| "execs (CallRead fd m k) t n = execs (k 0 []) t n"
| "execs (Do p k) t n = execs (k 0) t n"
| "execs Spin t n = ([], n)"
| "execs More t n = ([], n)"

lemma lowest_fd_Some: "lowest_fd t = Some i \<longleftrightarrow> i < 16 \<and> t i = None \<and> list_all (\<lambda>j. t j \<noteq> None) [0..<i]"
  by (auto simp: lowest_fd_def find_upt_Some list_all_iff)

lemma open_fd_lowest:
  "lowest_fd t = Some i \<Longrightarrow> open_fd x t = (int i, t(i := Some x))"
  by (simp add: open_fd_def)

lemma execs_simps [simp]:
  "execs (Call (SExec path argv) k) t n = ([(argv, t)], n)"
  "execs (Call SFork k) t n =
     (let (xs, n) = execs (k 0) t n; (ys, n) = execs (k 1) t n in (xs @ ys, n))"
  "execs (Call SWait k) t n = execs (k 0) t n"
  "execs (Call (SOpen f mode) k) t n =
     (let (r, t) = open_fd (Disk f mode) t in execs (k r) t n)"
  by (auto simp: fd_call_def Let_def split: prod.splits)

lemma execs_close:
  assumes "i < 16" and "t i = Some x"
  shows "execs (Call (SClose (int i)) k) t n = execs (k 0) (t(i := None)) n"
  using assms by (simp add: execs.simps(2) fd_call_def fd_object_def)

lemma execs_dup:
  assumes "i < 16" and "t i = Some x" and "lowest_fd t = Some j"
  shows "execs (Call (SDup (int i)) k) t n = execs (k (int j)) (t(j := Some x)) n"
  using assms by (simp add: execs.simps(2) fd_call_def fd_object_def open_fd_lowest)

declare execs.simps(2) [simp del]

end
