(* ===== verification/Sh.thy ===== *)
theory Sh
  imports Userprog
begin

text \<open>
  The shell, sh.c.  The parser works on the buffer \<open>b\<close> (the characters in front of the NUL, so
  \<open>es\<close> is \<open>length b\<close>) and positions in it; a word of a command is a pair of positions \<open>(q, eq)\<close>.
  A call of \<open>panic\<close> is \<open>Inl\<close> with its message.  \<open>malloc\<close> is taken to succeed.
\<close>

subsection \<open>Commands\<close>

definition MAXARGS :: nat where "MAXARGS = 10"

datatype 'w cmd =
    EXEC "'w list"
  | REDIR "'w cmd" 'w int int
  | PIPE "'w cmd" "'w cmd"
  | LIST "'w cmd" "'w cmd"
  | BACK "'w cmd"

type_synonym token = "nat \<times> nat"

subsection \<open>Running a command\<close>

definition sh_panic :: "string \<Rightarrow> prog" where
  "sh_panic s = puts 2 (s @ newline) Exit"

definition fork1 :: "(int \<Rightarrow> prog) \<Rightarrow> prog" where
  "fork1 k = Call SFork (\<lambda>pid. if pid = - 1 then sh_panic ''fork'' else k pid)"

primrec runcmd :: "string cmd \<Rightarrow> prog" where
  "runcmd (EXEC argv) =
     (if argv = [] then Exit
      else Call (SExec (hd argv) argv) (\<lambda>_. puts 2 (''exec '' @ hd argv @ '' failed'' @ newline) Exit))"
| "runcmd (REDIR c file mode fd) = Call (SClose fd) (\<lambda>_. Call (SOpen file mode) (\<lambda>r.
     if r < 0 then puts 2 (''open '' @ file @ '' failed'' @ newline) Exit else runcmd c))"
| "runcmd (LIST l r) = fork1 (\<lambda>pid.
     if pid = 0 then runcmd l else Call SWait (\<lambda>_. runcmd r))"
| "runcmd (PIPE l r) = CallPipe (\<lambda>res p0 p1.
     if res < 0 then sh_panic ''pipe''
     else fork1 (\<lambda>pid.
       if pid = 0 then Call (SClose 1) (\<lambda>_. Call (SDup p1) (\<lambda>_.
         Call (SClose p0) (\<lambda>_. Call (SClose p1) (\<lambda>_. runcmd l))))
       else fork1 (\<lambda>pid.
         if pid = 0 then Call (SClose 0) (\<lambda>_. Call (SDup p0) (\<lambda>_.
           Call (SClose p0) (\<lambda>_. Call (SClose p1) (\<lambda>_. runcmd r))))
         else Call (SClose p0) (\<lambda>_. Call (SClose p1) (\<lambda>_.
           Call SWait (\<lambda>_. Call SWait (\<lambda>_. Exit)))))))"
| "runcmd (BACK c) = fork1 (\<lambda>pid. if pid = 0 then runcmd c else Exit)"

subsection \<open>Tokens\<close>

definition sh_whitespace :: string where
  "sh_whitespace = [CHR '' '', CHR 0x09, CHR 0x0D, CHR 0x0A, CHR 0x0B]"

definition symbols :: string where
  "symbols = ''<|>&;()''"

function skip_ws :: "string \<Rightarrow> nat \<Rightarrow> nat" where
  "skip_ws b s = (if s < length b \<and> strchr sh_whitespace (b ! s) \<noteq> None then skip_ws b (s + 1) else s)"
  by pat_completeness auto
termination
  by (relation "measure (\<lambda>(b, s). length b - s)") auto

function skip_word :: "string \<Rightarrow> nat \<Rightarrow> nat" where
  "skip_word b s =
     (if s < length b \<and> strchr sh_whitespace (b ! s) = None \<and> strchr symbols (b ! s) = None
      then skip_word b (s + 1) else s)"
  by pat_completeness auto
termination
  by (relation "measure (\<lambda>(b, s). length b - s)") auto

declare skip_ws.simps [simp del] skip_word.simps [simp del]

text \<open>\<open>gettoken\<close>: its result, \<open>*q\<close>, \<open>*eq\<close> and \<open>*ps\<close>.\<close>

definition gettoken :: "string \<Rightarrow> nat \<Rightarrow> char \<times> nat \<times> nat \<times> nat" where
  "gettoken b ps =
     (let q = skip_ws b ps; c = chr_at b q;
          (tok, eq) =
            (if c = NUL then (NUL, q)
             else if c \<in> set ''|();&<'' then (c, q + 1)
             else if c = CHR ''>'' then
               (if chr_at b (q + 1) = CHR ''>'' then (CHR ''+'', q + 2) else (c, q + 1))
             else (CHR ''a'', skip_word b q))
      in (tok, q, eq, skip_ws b eq))"

text \<open>\<open>peek\<close>: its result and \<open>*ps\<close>.\<close>

definition peek :: "string \<Rightarrow> nat \<Rightarrow> string \<Rightarrow> bool \<times> nat" where
  "peek b ps toks =
     (let s = skip_ws b ps in (chr_at b s \<noteq> NUL \<and> strchr toks (chr_at b s) \<noteq> None, s))"

lemma skip_ws_ge: "s \<le> skip_ws b s"
  by (induction b s rule: skip_ws.induct) (subst skip_ws.simps, auto)

lemma skip_word_ge: "s \<le> skip_word b s"
  by (induction b s rule: skip_word.induct) (subst skip_word.simps, auto)

lemma skip_ws_le: "s \<le> length b \<Longrightarrow> skip_ws b s \<le> length b"
  by (induction b s rule: skip_ws.induct) (subst skip_ws.simps, auto)

lemma skip_word_le: "s \<le> length b \<Longrightarrow> skip_word b s \<le> length b"
  by (induction b s rule: skip_word.induct) (subst skip_word.simps, auto)

lemma skip_ws_step:
  "s < length b \<Longrightarrow> strchr sh_whitespace (b ! s) \<noteq> None \<Longrightarrow> skip_ws b s = skip_ws b (s + 1)"
  "\<not> (s < length b \<and> strchr sh_whitespace (b ! s) \<noteq> None) \<Longrightarrow> skip_ws b s = s"
  by (subst skip_ws.simps; simp)+

lemma skip_ws_stop: "\<not> (skip_ws b s < length b \<and> strchr sh_whitespace (b ! skip_ws b s) \<noteq> None)"
proof (induction b s rule: skip_ws.induct)
  case (1 b s)
  show ?case
    by (cases "s < length b \<and> strchr sh_whitespace (b ! s) \<noteq> None")
      (use 1 skip_ws_step [of s b] in \<open>auto\<close>)
qed

text \<open>The code's literals: a word is what is neither white space nor a symbol.\<close>

definition word_char :: "char \<Rightarrow> bool" where
  "word_char c \<longleftrightarrow> c \<noteq> NUL \<and> c \<notin> set sh_whitespace \<and> c \<notin> set symbols"

lemma strchr_white: "strchr sh_whitespace c = None \<longleftrightarrow> c \<notin> set sh_whitespace"
  by (rule strchr_None) (simp add: sh_whitespace_def NUL_def)

lemma strchr_symbols: "strchr symbols c = None \<longleftrightarrow> c \<notin> set symbols"
  by (rule strchr_None) (simp add: symbols_def NUL_def)

lemma peek_ge: "peek b i toks = (p, j) \<Longrightarrow> i \<le> j"
  using skip_ws_ge [of i b] by (auto simp: peek_def Let_def)

lemma chr_at_bound: "chr_at b i \<noteq> NUL \<Longrightarrow> i < length b"
  by (auto simp: chr_at_def split: if_splits)

text \<open>A token other than the end of the input is not empty.\<close>

lemma gettoken_moves:
  assumes "gettoken b i = (tok, q, eq, j)" and "tok \<noteq> NUL"
  shows "i \<le> q" and "q < eq" and "eq \<le> j" and "q < length b"
proof -
  have q: "q = skip_ws b i" and j: "j = skip_ws b eq" and c: "chr_at b q \<noteq> NUL"
    using assms by (auto simp: gettoken_def Let_def split: if_splits)
  show "i \<le> q" unfolding q by (rule skip_ws_ge)
  show "eq \<le> j" unfolding j by (rule skip_ws_ge)
  show ql: "q < length b" by (rule chr_at_bound [OF c])
  have word: "q < skip_word b q" if "chr_at b q \<notin> set ''|();&<''" and "chr_at b q \<noteq> CHR ''>''"
  proof -
    have nw: "strchr sh_whitespace (b ! q) = None"
      using ql skip_ws_stop [of b i] unfolding q [symmetric] by simp
    have "strchr symbols (b ! q) = None"
      unfolding strchr_symbols using that ql by (auto simp: symbols_def chr_at_def)
    then show ?thesis
      using skip_word.simps [of b q] skip_word_ge [of "q + 1" b] ql nw by auto
  qed
  show "q < eq"
    using assms word by (auto simp: gettoken_def Let_def split: if_splits)
qed

lemma gettoken_ge:
  assumes "gettoken b i = (tok, q, eq, j)"
  shows "i \<le> j"
proof (cases "tok = NUL")
  case True
  then have "eq = skip_ws b i" and "j = skip_ws b eq"
    using assms by (auto simp: gettoken_def Let_def NUL_def split: if_splits)
  then show ?thesis using skip_ws_ge [of i b] skip_ws_ge [of eq b] by simp
next
  case False
  then show ?thesis using gettoken_moves [OF assms] by simp
qed

subsection \<open>The parser\<close>

text \<open>
  The redirections that are parsed wrap the command in their order.  The code wraps the command
  while \<open>parseexec\<close> still fills in its arguments, through the pointer to the inner command; here
  \<open>parseredirs\<close> collects the redirections and \<open>redirs\<close> wraps them around the command at the end.
\<close>

type_synonym redir = "token \<times> int \<times> int"

definition redirs :: "redir list \<Rightarrow> token cmd \<Rightarrow> token cmd" where
  "redirs rs c = foldl (\<lambda>c (f, mode, fd). REDIR c f mode fd) c rs"

definition redir_of :: "char \<Rightarrow> token \<Rightarrow> redir" where
  "redir_of tok f = (if tok = CHR ''<'' then (f, 0, 0) else (f, 0x201, 1))"

function parseredirs :: "string \<Rightarrow> nat \<Rightarrow> redir list \<Rightarrow> string + redir list \<times> nat" where
  "parseredirs b ps rs =
     (case peek b ps ''<>'' of
        (False, ps) \<Rightarrow> Inr (rs, ps)
      | (True, ps1) \<Rightarrow>
          (case gettoken b ps1 of (tok, _, _, ps2) \<Rightarrow>
          (case gettoken b ps2 of (tok2, q, eq, ps3) \<Rightarrow>
            if tok2 \<noteq> CHR ''a'' then Inl ''missing file for redirection''
            else parseredirs b ps3 (rs @ [redir_of tok (q, eq)]))))"
  by pat_completeness auto

lemma peek_token:
  assumes "peek b i toks = (True, j)"
  shows "fst (gettoken b j) \<noteq> NUL" and "chr_at b j \<noteq> NUL" and "strchr toks (chr_at b j) \<noteq> None"
    and "i \<le> j" and "skip_ws b j = j"
proof -
  have j: "j = skip_ws b i" and c: "chr_at b j \<noteq> NUL" "strchr toks (chr_at b j) \<noteq> None"
    using assms by (auto simp: peek_def Let_def)
  show stop: "skip_ws b j = j" using skip_ws_step(2) [OF skip_ws_stop] unfolding j .
  show "fst (gettoken b j) \<noteq> NUL"
    using c unfolding gettoken_def Let_def stop by (auto simp: NUL_def split: prod.splits)
  show "chr_at b j \<noteq> NUL" "strchr toks (chr_at b j) \<noteq> None" by (rule c)+
  show "i \<le> j" using peek_ge [OF assms] .
qed

lemma peek_gettoken:
  assumes "peek b i toks = (True, j)" and "gettoken b j = (tok, q, eq, k)"
  shows "i < k" and "j < length b" and "k \<le> length b \<or> True"
proof -
  have "tok \<noteq> NUL" using peek_token(1) [OF assms(1)] assms(2) by simp
  from gettoken_moves [OF assms(2) this] peek_token(4) [OF assms(1)]
  show "i < k" "j < length b" by auto
qed simp

termination parseredirs
proof (relation "measure (\<lambda>(b, ps, rs). length b - ps)")
  show "((b, ps3, rs @ [redir_of tok (q, eq)]), b, ps, rs) \<in> measure (\<lambda>(b, ps, rs). length b - ps)"
    if "(p, ps1) = peek b ps ''<>''" and "p = True"
      and "(tok, t1) = gettoken b ps1" and "(q1, t2) = t1" and "(eq1, ps2) = t2"
      and "(tok2, t3) = gettoken b ps2" and "(q, t4) = t3" and "(eq, ps3) = t4"
      and "\<not> tok2 \<noteq> CHR ''a''"
    for b ps rs p ps1 tok t1 q1 t2 eq1 ps2 tok2 t3 q t4 eq ps3
  proof -
    have peek: "peek b ps ''<>'' = (True, ps1)" and g1: "gettoken b ps1 = (tok, q1, eq1, ps2)"
      and g2: "gettoken b ps2 = (tok2, q, eq, ps3)" using that by auto
    have "ps < ps2" using peek_gettoken(1) [OF peek g1] .
    moreover have "tok2 \<noteq> NUL" using that by (simp add: NUL_def)
    then have "ps2 \<le> q" "q < eq" "eq \<le> ps3" "q < length b" using gettoken_moves [OF g2] by auto
    ultimately show ?thesis by simp
  qed
qed simp

declare parseredirs.simps [simp del]

lemma parseredirs_ge: "parseredirs b i rs = Inr (rs', j) \<Longrightarrow> i \<le> j"
proof (induction b i rs rule: parseredirs.induct)
  case (1 b i rs)
  obtain p i1 where peek: "peek b i ''<>'' = (p, i1)" by (cases "peek b i ''<>''")
  show ?case
  proof (cases p)
    case False
    then show ?thesis using 1(2) peek peek_ge [OF peek] by (simp add: parseredirs.simps [of b i])
  next
    case True
    obtain tok q1 eq1 i2 where g1: "gettoken b i1 = (tok, q1, eq1, i2)" by (cases "gettoken b i1")
    obtain tok2 q eq i3 where g2: "gettoken b i2 = (tok2, q, eq, i3)" by (cases "gettoken b i2")
    have t: "tok2 = CHR ''a''" and rest: "parseredirs b i3 (rs @ [redir_of tok (q, eq)]) = Inr (rs', j)"
      using 1(2) peek True g1 g2 by (auto simp: parseredirs.simps [of b i] split: if_splits)
    have "i3 \<le> j"
      using 1(1) [OF peek [symmetric] _ g1 [symmetric] refl refl g2 [symmetric] refl refl _ rest] True t by simp
    moreover have "i < i2" using peek_gettoken(1) [OF peek [unfolded eqTrueI [OF True]] g1] .
    moreover have "i2 \<le> i3"
      using gettoken_moves [OF g2] t by (simp add: NUL_def)
    ultimately show ?thesis by simp
  qed
qed

text \<open>
  The loop of \<open>parseexec\<close>: the words so far and the redirections.
\<close>

function parse_args ::
  "string \<Rightarrow> nat \<Rightarrow> token list \<Rightarrow> redir list \<Rightarrow> string + token list \<times> redir list \<times> nat" where
  "parse_args b ps args rs =
     (case peek b ps ''|)&;'' of
        (True, ps) \<Rightarrow> Inr (args, rs, ps)
      | (False, ps1) \<Rightarrow>
          (case gettoken b ps1 of (tok, q, eq, ps2) \<Rightarrow>
            if tok = NUL then Inr (args, rs, ps2)
            else if tok \<noteq> CHR ''a'' then Inl ''syntax''
            else if length args + 1 \<ge> MAXARGS then Inl ''too many args''
            else (case parseredirs b ps2 rs of
                Inl e \<Rightarrow> Inl e
              | Inr (rs, ps3) \<Rightarrow> parse_args b ps3 (args @ [(q, eq)]) rs)))"
  by pat_completeness auto

lemma arg_moves:
  assumes "peek b ps toks = (p, ps1)" and "gettoken b ps1 = (tok, q, eq, ps2)" and "tok \<noteq> NUL"
    and "parseredirs b ps2 rs = Inr (rs', ps3)"
  shows "ps < ps3" and "ps < length b"
  using peek_ge [OF assms(1)] gettoken_moves [OF assms(2,3)] parseredirs_ge [OF assms(4)] by auto

termination parse_args
proof (relation "measure (\<lambda>(b, ps, args, rs). length b - ps)")
  show "((b, ps3, args @ [(q, eq)], rs'), b, ps, args, rs) \<in> measure (\<lambda>(b, ps, args, rs). length b - ps)"
    if "(p, ps1) = peek b ps ''|)&;''" and "p = False"
      and "(tok, t1) = gettoken b ps1" and "(q, t2) = t1" and "(eq, ps2) = t2"
      and "tok \<noteq> NUL" and "\<not> tok \<noteq> CHR ''a''" and "\<not> length args + 1 \<ge> MAXARGS"
      and "parseredirs b ps2 rs = Inr x" and "(rs', ps3) = x"
    for b ps args rs p ps1 tok t1 q t2 eq ps2 x rs' ps3
    using that arg_moves [of b ps "''|)&;''" p ps1 tok q eq ps2 rs rs' ps3] by auto
qed simp

declare parse_args.simps [simp del]

lemma parse_args_ge: "parse_args b i args rs = Inr (args', rs', j) \<Longrightarrow> i \<le> j"
proof (induction b i args rs rule: parse_args.induct)
  case (1 b i args rs)
  obtain p i1 where peek: "peek b i ''|)&;'' = (p, i1)" by (cases "peek b i ''|)&;''")
  obtain tok q eq i2 where g: "gettoken b i1 = (tok, q, eq, i2)" by (cases "gettoken b i1")
  note unfold = parse_args.simps [of b i args rs, unfolded peek prod.case g]
  note i1 = peek_ge [OF peek]
  note i2 = gettoken_ge [OF g]
  show ?case
  proof (cases "p \<or> tok = NUL")
    case True
    then show ?thesis using 1(2) unfold i1 i2 by (auto split: if_splits bool.splits)
  next
    case False
    then obtain rs1 i3 where t: "tok = CHR ''a''" "\<not> length args + 1 \<ge> MAXARGS"
      and r: "parseredirs b i2 rs = Inr (rs1, i3)"
      and rest: "parse_args b i3 (args @ [(q, eq)]) rs1 = Inr (args', rs', j)"
      using 1(2) unfold by (auto split: if_splits sum.splits)
    from False have p: "p = False" by simp
    have "i3 \<le> j"
      using 1(1) [OF peek [symmetric] p g [symmetric] refl refl _ _ t(2) r refl rest] False t(1) by simp
    moreover have "i < i3" using arg_moves [OF peek g _ r] False by simp
    ultimately show ?thesis by simp
  qed
qed

text \<open>The loop of \<open>parseline\<close> over the ampersands.\<close>

function parse_back :: "string \<Rightarrow> nat \<Rightarrow> token cmd \<Rightarrow> token cmd \<times> nat" where
  "parse_back b ps cmd =
     (case peek b ps ''&'' of
        (False, ps) \<Rightarrow> (cmd, ps)
      | (True, ps1) \<Rightarrow> (case gettoken b ps1 of (_, _, _, ps2) \<Rightarrow> parse_back b ps2 (BACK cmd)))"
  by pat_completeness auto
termination
proof (relation "measure (\<lambda>(b, ps, cmd). length b - ps)")
  show "((b, ps2, BACK cmd), b, ps, cmd) \<in> measure (\<lambda>(b, ps, cmd). length b - ps)"
    if "(p, ps1) = peek b ps ''&''" and "p = True"
      and "(tok, t1) = gettoken b ps1" and "(q, t2) = t1" and "(eq, ps2) = t2"
    for b ps cmd p ps1 tok t1 q t2 eq ps2
    using that peek_gettoken [of b ps "''&''" ps1 tok q eq ps2] peek_ge [of b ps "''&''" p ps1] by auto
qed simp

declare parse_back.simps [simp del]

lemma parse_back_ge: "parse_back b i cmd = (cmd', j) \<Longrightarrow> i \<le> j"
proof (induction b i cmd rule: parse_back.induct)
  case (1 b i cmd)
  obtain p i1 where peek: "peek b i ''&'' = (p, i1)" by (cases "peek b i ''&''")
  obtain tok q eq i2 where g: "gettoken b i1 = (tok, q, eq, i2)" by (cases "gettoken b i1")
  note unfold = parse_back.simps [of b i cmd, unfolded peek prod.case g]
  show ?case
  proof (cases p)
    case False
    then show ?thesis using 1(2) unfold peek_ge [OF peek] by simp
  next
    case True
    then have rest: "parse_back b i2 (BACK cmd) = (cmd', j)" using 1(2) unfold by simp
    from True have p: "p = True" by simp
    have "i2 \<le> j" using 1(1) [OF peek [symmetric] p g [symmetric] refl refl rest] .
    then show ?thesis using peek_ge [OF peek] gettoken_ge [OF g] by simp
  qed
qed

text \<open>The grammar.  The functions call each other at the position a call before them left.\<close>

function parseline :: "string \<Rightarrow> nat \<Rightarrow> string + token cmd \<times> nat"
  and parsepipe :: "string \<Rightarrow> nat \<Rightarrow> string + token cmd \<times> nat"
  and parseexec :: "string \<Rightarrow> nat \<Rightarrow> string + token cmd \<times> nat"
  and parseblock :: "string \<Rightarrow> nat \<Rightarrow> string + token cmd \<times> nat" where
  "parseline b ps =
     (case parsepipe b ps of
        Inl e \<Rightarrow> Inl e
      | Inr (cmd, ps1) \<Rightarrow>
          (case parse_back b ps1 cmd of (cmd, ps2) \<Rightarrow>
          (case peek b ps2 '';'' of
             (False, ps3) \<Rightarrow> Inr (cmd, ps3)
           | (True, ps3) \<Rightarrow>
               (case gettoken b ps3 of (_, _, _, ps4) \<Rightarrow>
               (case parseline b ps4 of
                  Inl e \<Rightarrow> Inl e
                | Inr (r, ps5) \<Rightarrow> Inr (LIST cmd r, ps5))))))"
| "parsepipe b ps =
     (case parseexec b ps of
        Inl e \<Rightarrow> Inl e
      | Inr (cmd, ps1) \<Rightarrow>
          (case peek b ps1 ''|'' of
             (False, ps2) \<Rightarrow> Inr (cmd, ps2)
           | (True, ps2) \<Rightarrow>
               (case gettoken b ps2 of (_, _, _, ps3) \<Rightarrow>
               (case parsepipe b ps3 of
                  Inl e \<Rightarrow> Inl e
                | Inr (r, ps4) \<Rightarrow> Inr (PIPE cmd r, ps4)))))"
| "parseexec b ps =
     (case peek b ps ''('' of
        (True, ps1) \<Rightarrow> parseblock b ps1
      | (False, ps1) \<Rightarrow>
          (case parseredirs b ps1 [] of
             Inl e \<Rightarrow> Inl e
           | Inr (rs, ps2) \<Rightarrow>
               (case parse_args b ps2 [] rs of
                  Inl e \<Rightarrow> Inl e
                | Inr (args, rs, ps3) \<Rightarrow> Inr (redirs rs (EXEC args), ps3))))"
| "parseblock b ps =
     (case peek b ps ''('' of
        (False, _) \<Rightarrow> Inl ''parseblock''
      | (True, ps1) \<Rightarrow>
          (case gettoken b ps1 of (_, _, _, ps2) \<Rightarrow>
          (case parseline b ps2 of
             Inl e \<Rightarrow> Inl e
           | Inr (cmd, ps3) \<Rightarrow>
               (case peek b ps3 '')'' of
                  (False, _) \<Rightarrow> Inl ''syntax - missing )''
                | (True, ps4) \<Rightarrow>
                    (case gettoken b ps4 of (_, _, _, ps5) \<Rightarrow>
                    (case parseredirs b ps5 [] of
                       Inl e \<Rightarrow> Inl e
                     | Inr (rs, ps6) \<Rightarrow> Inr (redirs rs cmd, ps6)))))))"
  by pat_completeness auto

text \<open>No function moves the position back, where it returns; so all of them return.\<close>

lemma parse_ge_dom:
  "parseline_parsepipe_parseexec_parseblock_dom (Inl (Inl (b, i))) \<Longrightarrow>
     parseline b i = Inr (c, j) \<Longrightarrow> i \<le> j"
  "parseline_parsepipe_parseexec_parseblock_dom (Inl (Inr (b, i))) \<Longrightarrow>
     parsepipe b i = Inr (c, j) \<Longrightarrow> i \<le> j"
  "parseline_parsepipe_parseexec_parseblock_dom (Inr (Inl (b, i))) \<Longrightarrow>
     parseexec b i = Inr (c, j) \<Longrightarrow> i \<le> j"
  "parseline_parsepipe_parseexec_parseblock_dom (Inr (Inr (b, i))) \<Longrightarrow>
     parseblock b i = Inr (c, j) \<Longrightarrow> i \<le> j"
proof (induction b i and b i and b i and b i arbitrary: c j and c j and c j and c j
    rule: parseline_parsepipe_parseexec_parseblock.pinduct)
  case (1 b i)
  note u = parseline.psimps [OF 1(1)]
  obtain c1 i1 where pp: "parsepipe b i = Inr (c1, i1)"
    using 1(4) u by (cases "parsepipe b i") auto
  obtain c2 i2 where pb: "parse_back b i1 c1 = (c2, i2)" by (cases "parse_back b i1 c1")
  obtain p i3 where pk: "peek b i2 '';'' = (p, i3)" by (cases "peek b i2 '';''")
  obtain tok q eq i4 where g: "gettoken b i3 = (tok, q, eq, i4)" by (cases "gettoken b i3")
  have le: "i \<le> i3" "i3 \<le> i4"
    using 1(2) [OF pp] parse_back_ge [OF pb] peek_ge [OF pk] gettoken_ge [OF g] by auto
  show ?case
  proof (cases p)
    case False
    then show ?thesis using 1(4) u pp pb pk le by simp
  next
    case True
    then obtain r where r: "parseline b i4 = Inr (r, j)"
      using 1(4) u pp pb pk g by (cases "parseline b i4") auto
    from True have t: "p = True" by simp
    have "i4 \<le> j"
      using 1(3) [OF pp refl pb [symmetric] pk [symmetric] t g [symmetric] refl refl r] .
    then show ?thesis using le by simp
  qed
next
  case (2 b i)
  note u = parsepipe.psimps [OF 2(1)]
  obtain c1 i1 where pe: "parseexec b i = Inr (c1, i1)"
    using 2(4) u by (cases "parseexec b i") auto
  obtain p i2 where pk: "peek b i1 ''|'' = (p, i2)" by (cases "peek b i1 ''|''")
  obtain tok q eq i3 where g: "gettoken b i2 = (tok, q, eq, i3)" by (cases "gettoken b i2")
  have le: "i \<le> i2" "i2 \<le> i3"
    using 2(2) [OF pe] peek_ge [OF pk] gettoken_ge [OF g] by auto
  show ?case
  proof (cases p)
    case False
    then show ?thesis using 2(4) u pe pk le by simp
  next
    case True
    then obtain r where r: "parsepipe b i3 = Inr (r, j)"
      using 2(4) u pe pk g by (cases "parsepipe b i3") auto
    from True have t: "p = True" by simp
    have "i3 \<le> j" using 2(3) [OF pe refl pk [symmetric] t g [symmetric] refl refl r] .
    then show ?thesis using le by simp
  qed
next
  case (3 b i)
  note u = parseexec.psimps [OF 3(1)]
  obtain p i1 where pk: "peek b i ''('' = (p, i1)" by (cases "peek b i ''(''")
  note le = peek_ge [OF pk]
  show ?case
  proof (cases p)
    case True
    then have "parseblock b i1 = Inr (c, j)" using 3(3) u pk by simp
    from 3(2) [OF pk [symmetric] _ this] show ?thesis using True le by simp
  next
    case False
    then obtain rs i2 where pr: "parseredirs b i1 [] = Inr (rs, i2)"
      using 3(3) u pk by (cases "parseredirs b i1 []") auto
    then obtain args rs' where pa: "parse_args b i2 [] rs = Inr (args, rs', j)"
      using 3(3) u pk False by (cases "parse_args b i2 [] rs") auto
    show ?thesis using le parseredirs_ge [OF pr] parse_args_ge [OF pa] by simp
  qed
next
  case (4 b i)
  note u = parseblock.psimps [OF 4(1)]
  obtain i1 where pk: "peek b i ''('' = (True, i1)"
    using 4(3) u by (cases "peek b i ''(''") (auto split: bool.splits)
  obtain tok q eq i2 where g: "gettoken b i1 = (tok, q, eq, i2)" by (cases "gettoken b i1")
  obtain c1 i3 where pl: "parseline b i2 = Inr (c1, i3)"
    using 4(3) u pk g by (cases "parseline b i2") auto
  obtain i4 where pk2: "peek b i3 '')'' = (True, i4)"
    using 4(3) u pk g pl by (cases "peek b i3 '')''") (auto split: bool.splits)
  obtain tok2 q2 eq2 i5 where g2: "gettoken b i4 = (tok2, q2, eq2, i5)" by (cases "gettoken b i4")
  obtain rs where pr: "parseredirs b i5 [] = Inr (rs, j)"
    using 4(3) u pk g pl pk2 g2 by (cases "parseredirs b i5 []") auto
  have "i2 \<le> i3" using 4(2) [OF pk [symmetric] refl g [symmetric] refl refl pl] .
  then show ?case
    using peek_ge [OF pk] gettoken_ge [OF g] peek_ge [OF pk2] gettoken_ge [OF g2] parseredirs_ge [OF pr]
    by simp
qed

termination parseline
proof (relation "measures [\<lambda>x. case x of Inl (Inl (b, i)) \<Rightarrow> length b - i | Inl (Inr (b, i)) \<Rightarrow> length b - i
      | Inr (Inl (b, i)) \<Rightarrow> length b - i | Inr (Inr (b, i)) \<Rightarrow> length b - i,
    \<lambda>x. case x of Inl (Inl _) \<Rightarrow> 3 | Inl (Inr _) \<Rightarrow> 2 | Inr (Inl _) \<Rightarrow> 1 | Inr (Inr _) \<Rightarrow> (0 :: nat)]",
    goal_cases)
  case (3 b i x c1 i1 c2 i2 p i3 tok t1 q t2 eq i4)
  then have pk: "peek b i2 '';'' = (True, i3)" and g: "gettoken b i3 = (tok, q, eq, i4)"
    and pb: "parse_back b i1 c1 = (c2, i2)" and pp: "parsepipe b i = Inr (c1, i1)" by auto
  from peek_ge [OF pk] peek_gettoken [OF pk g] parse_back_ge [OF pb] parse_ge_dom(2) [OF 3(9) pp]
  show ?case by simp
next
  case (5 b i x c1 i1 p i2 tok t1 q t2 eq i3)
  then have pk: "peek b i1 ''|'' = (True, i2)" and g: "gettoken b i2 = (tok, q, eq, i3)"
    and pe: "parseexec b i = Inr (c1, i1)" by auto
  from peek_ge [OF pk] peek_gettoken [OF pk g] parse_ge_dom(3) [OF 5(8) pe] show ?case by simp
next
  case (6 b i p i1)
  then show ?case using peek_ge [of b i "''(''" p i1] by (auto simp: diff_le_mono2 le_eq_less_or_eq)
next
  case (7 b i p i1 tok t1 q t2 eq i2)
  then have pk: "peek b i ''('' = (True, i1)" and g: "gettoken b i1 = (tok, q, eq, i2)" by auto
  from peek_ge [OF pk] peek_gettoken [OF pk g] show ?case by simp
qed simp_all

declare parseline.simps [simp del] parsepipe.simps [simp del] parseexec.simps [simp del]
  parseblock.simps [simp del]

text \<open>
  \<open>nulterminate\<close>: where the code writes a NUL, in its order.  The write at the end of the buffer
  finds a NUL there.
\<close>

primrec nul_positions :: "token cmd \<Rightarrow> nat list" where
  "nul_positions (EXEC args) = map snd args"
| "nul_positions (REDIR c f mode fd) = nul_positions c @ [snd f]"
| "nul_positions (PIPE l r) = nul_positions l @ nul_positions r"
| "nul_positions (LIST l r) = nul_positions l @ nul_positions r"
| "nul_positions (BACK c) = nul_positions c"

definition nulterminate :: "token cmd \<Rightarrow> string \<Rightarrow> string" where
  "nulterminate c b = fold (\<lambda>i b. b[i := NUL]) (nul_positions c) b"

text \<open>
  \<open>parsecmd\<close>: the command with the strings that its pointers point at when it is run.  What is
  printed before \<open>panic(''syntax'')\<close> is part of its message.
\<close>

definition parsecmd :: "string \<Rightarrow> string + string cmd" where
  "parsecmd s =
     (let b = string_at s 0 in
      case parseline b 0 of
        Inl e \<Rightarrow> Inl e
      | Inr (cmd, ps) \<Rightarrow>
          (case peek b ps [] of (_, ps) \<Rightarrow>
            if ps \<noteq> length b then Inl (''leftovers: '' @ drop ps b @ newline @ ''syntax'')
            else Inr (map_cmd (\<lambda>(q, eq). string_at (nulterminate cmd b) q) cmd)))"

subsection \<open>main\<close>

text \<open>
  The loop of \<open>main\<close> on the input that is left; \<open>getcmd\<close> reads a line into a buffer of 100 bytes.
\<close>

definition run_line :: "string \<Rightarrow> prog" where
  "run_line line = (case parsecmd line of Inl e \<Rightarrow> sh_panic e | Inr c \<Rightarrow> runcmd c)"

function sh_loop :: "string \<Rightarrow> prog" where
  "sh_loop inp = puts 2 ''$ '' (case gets 100 inp of (line, rest) \<Rightarrow>
     if chr_at line 0 = NUL then Exit
     else if take 3 line = ''cd '' then
       (let dir = drop 3 (butlast (string_at line 0)) in Call (SChdir dir) (\<lambda>r.
         if r < 0 then puts 2 (''cannot cd '' @ dir @ newline) (sh_loop rest) else sh_loop rest))
     else fork1 (\<lambda>pid. if pid = 0 then run_line line else Call SWait (\<lambda>_. sh_loop rest)))"
  by pat_completeness auto
termination
  by (relation "measure length") (auto dest: gets_shorter sym [of "(_, _)" "gets _ _"])

declare sh_loop.simps [simp del]

text \<open>
  The loop that opens the first three descriptors.  It ends when \<open>open\<close> fails or returns 3 or more;
  \<open>open\<close> returns the lowest free descriptor, so four rounds are enough.
\<close>

primrec open_console :: "nat \<Rightarrow> prog \<Rightarrow> prog" where
  "open_console 0 k = k"
| "open_console (Suc n) k = Call (SOpen ''console'' 2) (\<lambda>fd.
     if fd \<ge> 3 then Call (SClose fd) (\<lambda>_. k) else if fd \<ge> 0 then open_console n k else k)"

definition sh_main :: "string \<Rightarrow> prog" where
  "sh_main inp = open_console 4 (sh_loop inp)"

end
