(* ===== verification/Sh_Props.thy ===== *)
theory Sh_Props
  imports Sh
begin

text \<open>
  The shell's parser.  First what every command it returns looks like; then what it does on a
  text that a command prints to; last the descriptors of the programs a command runs.
\<close>

subsection \<open>Well-formed commands\<close>

primrec cmd_ok :: "('w \<Rightarrow> bool) \<Rightarrow> 'w cmd \<Rightarrow> bool" where
  "cmd_ok P (EXEC args) \<longleftrightarrow> length args < MAXARGS \<and> list_all P args"
| "cmd_ok P (REDIR c f mode fd) \<longleftrightarrow> cmd_ok P c \<and> P f \<and> (mode = 0 \<and> fd = 0 \<or> mode = 0x201 \<and> fd = 1)"
| "cmd_ok P (PIPE l r) \<longleftrightarrow> cmd_ok P l \<and> cmd_ok P r"
| "cmd_ok P (LIST l r) \<longleftrightarrow> cmd_ok P l \<and> cmd_ok P r"
| "cmd_ok P (BACK c) \<longleftrightarrow> cmd_ok P c"

lemma cmd_ok_map: "cmd_ok P (map_cmd f c) \<longleftrightarrow> cmd_ok (\<lambda>x. P (f x)) c"
  by (induction c) (auto simp: list.pred_map comp_def)

lemma cmd_ok_mono: "cmd_ok P c \<Longrightarrow> (\<And>x. x \<in> set_cmd c \<Longrightarrow> P x \<Longrightarrow> Q x) \<Longrightarrow> cmd_ok Q c"
proof (induction c)
  case (EXEC args)
  then show ?case by (simp add: list_all_iff)
qed simp_all

lemma cmd_ok_set: "cmd_ok P c \<Longrightarrow> x \<in> set_cmd c \<Longrightarrow> P x"
proof (induction c)
  case (EXEC args)
  then show ?case by (simp add: list_all_iff)
qed auto

definition good_word :: "string \<Rightarrow> bool" where
  "good_word w \<longleftrightarrow> w \<noteq> [] \<and> list_all word_char w"

text \<open>A token of the buffer: a longest run of word characters.\<close>

definition token_ok :: "string \<Rightarrow> token \<Rightarrow> bool" where
  "token_ok b t = (case t of (q, eq) \<Rightarrow> q < eq \<and> eq \<le> length b \<and>
     list_all word_char (take (eq - q) (drop q b)) \<and> \<not> word_char (chr_at b eq))"

definition token_text :: "string \<Rightarrow> token \<Rightarrow> string" where
  "token_text b t = (case t of (q, eq) \<Rightarrow> take (eq - q) (drop q b))"

lemma good_token: "token_ok b t \<Longrightarrow> good_word (token_text b t)"
  by (auto simp: token_ok_def token_text_def good_word_def split: prod.splits)

lemma skip_word_step:
  "s < length b \<Longrightarrow> b ! s \<notin> set sh_whitespace \<Longrightarrow> b ! s \<notin> set symbols \<Longrightarrow> skip_word b s = skip_word b (s + 1)"
  "\<not> (s < length b \<and> b ! s \<notin> set sh_whitespace \<and> b ! s \<notin> set symbols) \<Longrightarrow> skip_word b s = s"
  using skip_word.simps [of b s] by (simp_all only: strchr_white strchr_symbols simp_thms if_True if_False)

lemma skip_word_run:
  assumes "cstring b" and "s \<le> length b"
  shows "list_all word_char (take (skip_word b s - s) (drop s b)) \<and> \<not> word_char (chr_at b (skip_word b s))"
  using assms
proof (induction b s rule: skip_word.induct)
  case (1 b s)
  show ?case
  proof (cases "s < length b \<and> b ! s \<notin> set sh_whitespace \<and> b ! s \<notin> set symbols")
    case True
    then have ih: "list_all word_char (take (skip_word b (s + 1) - (s + 1)) (drop (s + 1) b)) \<and>
        \<not> word_char (chr_at b (skip_word b (s + 1)))"
      using 1 by (simp add: strchr_white strchr_symbols)
    have "b ! s \<noteq> NUL" using True 1(2) nth_mem [of s b] unfolding cstring_def by metis
    then have w: "word_char (b ! s)" using True by (simp add: word_char_def)
    have drop: "drop s b = b ! s # drop (s + 1) b" using True by (simp add: Cons_nth_drop_Suc)
    obtain n where n: "skip_word b (s + 1) - s = Suc n" and n': "skip_word b (s + 1) - (s + 1) = n"
      using skip_word_ge [of "s + 1" b] by (cases "skip_word b (s + 1) - s") auto
    have step: "skip_word b s = skip_word b (s + 1)"
      by (rule skip_word_step(1)) (use True in \<open>simp_all\<close>)
    show ?thesis using ih w unfolding step drop n n' by simp
  next
    case False
    then show ?thesis
      using skip_word_step(2) [OF False] 1(3) by (auto simp: word_char_def chr_at_def NUL_def split: if_splits)
  qed
qed

lemma gettoken_word:
  assumes "cstring b" and "gettoken b i = (CHR ''a'', q, eq, j)"
  shows "token_ok b (q, eq)"
proof -
  note move = gettoken_moves [OF assms(2)]
  have "q < eq" "q < length b" using move by (simp_all add: NUL_def)
  moreover have "eq = skip_word b q"
    using assms(2) by (auto simp: gettoken_def Let_def NUL_def split: if_splits)
  ultimately show ?thesis
    using skip_word_run [OF assms(1), of q] skip_word_le [of q b] by (simp add: token_ok_def)
qed

definition redir_ok :: "string \<Rightarrow> redir \<Rightarrow> bool" where
  "redir_ok b r = (case r of (f, mode, fd) \<Rightarrow>
     token_ok b f \<and> (mode = 0 \<and> fd = 0 \<or> mode = 0x201 \<and> fd = 1))"

lemma redir_ok_of: "token_ok b t \<Longrightarrow> redir_ok b (redir_of tok t)"
  by (simp add: redir_ok_def redir_of_def)

lemma redirs_ok:
  "list_all (redir_ok b) rs \<Longrightarrow> cmd_ok (token_ok b) c \<Longrightarrow> cmd_ok (token_ok b) (redirs rs c)"
  unfolding redirs_def by (induction rs arbitrary: c) (auto simp: redir_ok_def)

lemma parseredirs_ok:
  assumes "cstring b" and "parseredirs b i rs = Inr (rs', j)" and "list_all (redir_ok b) rs"
  shows "list_all (redir_ok b) rs'"
  using assms
proof (induction b i rs rule: parseredirs.induct)
  case (1 b i rs)
  obtain p i1 where peek: "peek b i ''<>'' = (p, i1)" by (cases "peek b i ''<>''")
  obtain tok q1 eq1 i2 where g1: "gettoken b i1 = (tok, q1, eq1, i2)" by (cases "gettoken b i1")
  obtain tok2 q eq i3 where g2: "gettoken b i2 = (tok2, q, eq, i3)" by (cases "gettoken b i2")
  note unfold = parseredirs.simps [of b i rs, unfolded peek prod.case g1 g2]
  show ?case
  proof (cases p)
    case False
    then show ?thesis using 1 unfold by simp
  next
    case True
    have t: "tok2 = CHR ''a''" and rest: "parseredirs b i3 (rs @ [redir_of tok (q, eq)]) = Inr (rs', j)"
      using 1(3) True unfold by (auto split: if_splits)
    have "list_all (redir_ok b) (rs @ [redir_of tok (q, eq)])"
      using 1(4) gettoken_word [OF 1(2) g2 [unfolded t]] redir_ok_of [of b "(q, eq)" tok] by simp
    then show ?thesis
      using 1(1) [OF peek [symmetric] _ g1 [symmetric] refl refl g2 [symmetric] refl refl _ 1(2) rest]
        True t by simp
  qed
qed

lemma parse_args_ok:
  assumes "cstring b" and "parse_args b i args rs = Inr (args', rs', j)"
    and "list_all (token_ok b) args" and "length args < MAXARGS" and "list_all (redir_ok b) rs"
  shows "list_all (token_ok b) args' \<and> length args' < MAXARGS \<and> list_all (redir_ok b) rs'"
  using assms
proof (induction b i args rs rule: parse_args.induct)
  case (1 b i args rs)
  obtain p i1 where peek: "peek b i ''|)&;'' = (p, i1)" by (cases "peek b i ''|)&;''")
  obtain tok q eq i2 where g: "gettoken b i1 = (tok, q, eq, i2)" by (cases "gettoken b i1")
  note unfold = parse_args.simps [of b i args rs, unfolded peek prod.case g]
  show ?case
  proof (cases "p \<or> tok = NUL")
    case True
    then show ?thesis using 1(3-6) unfold by (auto split: if_splits bool.splits)
  next
    case False
    then obtain rs1 i3 where t: "tok = CHR ''a''" "\<not> length args + 1 \<ge> MAXARGS"
      and r: "parseredirs b i2 rs = Inr (rs1, i3)"
      and rest: "parse_args b i3 (args @ [(q, eq)]) rs1 = Inr (args', rs', j)"
      using 1(3) unfold by (auto split: if_splits sum.splits)
    from False have p: "p = False" by simp
    show ?thesis
      using 1(1) [OF peek [symmetric] p g [symmetric] refl refl _ _ t(2) r refl 1(2) rest] False t
        1(4) gettoken_word [OF 1(2) g [unfolded t(1)]] parseredirs_ok [OF 1(2) r 1(6)] by simp
  qed
qed

lemma parse_back_ok: "parse_back b i c = (c', j) \<Longrightarrow> cmd_ok P c \<Longrightarrow> cmd_ok P c'"
proof (induction b i c rule: parse_back.induct)
  case (1 b i c)
  obtain p i1 where peek: "peek b i ''&'' = (p, i1)" by (cases "peek b i ''&''")
  obtain tok q eq i2 where g: "gettoken b i1 = (tok, q, eq, i2)" by (cases "gettoken b i1")
  note unfold = parse_back.simps [of b i c, unfolded peek prod.case g]
  show ?case
  proof (cases p)
    case False
    then show ?thesis using 1(2,3) unfold by simp
  next
    case True
    then have rest: "parse_back b i2 (BACK c) = (c', j)" using 1(2) unfold by simp
    show ?thesis using 1(1) [OF peek [symmetric] _ g [symmetric] refl refl rest] True 1(3) by simp
  qed
qed

lemma parse_ok:
  "cstring b \<Longrightarrow> parseline b i = Inr (c, j) \<Longrightarrow> cmd_ok (token_ok b) c"
  "cstring b \<Longrightarrow> parsepipe b i = Inr (c, j) \<Longrightarrow> cmd_ok (token_ok b) c"
  "cstring b \<Longrightarrow> parseexec b i = Inr (c, j) \<Longrightarrow> cmd_ok (token_ok b) c"
  "cstring b \<Longrightarrow> parseblock b i = Inr (c, j) \<Longrightarrow> cmd_ok (token_ok b) c"
proof (induction b i and b i and b i and b i arbitrary: c j and c j and c j and c j
    rule: parseline_parsepipe_parseexec_parseblock.induct)
  case (1 b i)
  note u = parseline.simps [of b i]
  obtain c1 i1 where pp: "parsepipe b i = Inr (c1, i1)"
    using 1(4) u by (cases "parsepipe b i") auto
  obtain c2 i2 where pb: "parse_back b i1 c1 = (c2, i2)" by (cases "parse_back b i1 c1")
  obtain p i3 where pk: "peek b i2 '';'' = (p, i3)" by (cases "peek b i2 '';''")
  obtain tok q eq i4 where g: "gettoken b i3 = (tok, q, eq, i4)" by (cases "gettoken b i3")
  have c2: "cmd_ok (token_ok b) c2" by (rule parse_back_ok [OF pb 1(1) [OF 1(3) pp]])
  show ?case
  proof (cases p)
    case False
    then show ?thesis using 1(4) u pp pb pk c2 by simp
  next
    case True
    then obtain r where r: "parseline b i4 = Inr (r, j)" and c: "c = LIST c2 r"
      using 1(4) u pp pb pk g by (cases "parseline b i4") auto
    from True have t: "p = True" by simp
    show ?thesis
      using 1(2) [OF pp refl pb [symmetric] pk [symmetric] t g [symmetric] refl refl 1(3) r] c c2 by simp
  qed
next
  case (2 b i)
  note u = parsepipe.simps [of b i]
  obtain c1 i1 where pe: "parseexec b i = Inr (c1, i1)"
    using 2(4) u by (cases "parseexec b i") auto
  obtain p i2 where pk: "peek b i1 ''|'' = (p, i2)" by (cases "peek b i1 ''|''")
  obtain tok q eq i3 where g: "gettoken b i2 = (tok, q, eq, i3)" by (cases "gettoken b i2")
  show ?case
  proof (cases p)
    case False
    then show ?thesis using 2(4) u pe pk 2(1) [OF 2(3) pe] by simp
  next
    case True
    then obtain r where r: "parsepipe b i3 = Inr (r, j)" and c: "c = PIPE c1 r"
      using 2(4) u pe pk g by (cases "parsepipe b i3") auto
    from True have t: "p = True" by simp
    show ?thesis
      using 2(2) [OF pe refl pk [symmetric] t g [symmetric] refl refl 2(3) r] c 2(1) [OF 2(3) pe] by simp
  qed
next
  case (3 b i)
  note u = parseexec.simps [of b i]
  obtain p i1 where pk: "peek b i ''('' = (p, i1)" by (cases "peek b i ''(''")
  show ?case
  proof (cases p)
    case True
    then have "parseblock b i1 = Inr (c, j)" using 3(3) u pk by simp
    then show ?thesis using 3(1) [OF pk [symmetric] _ 3(2)] True by simp
  next
    case False
    then obtain rs i2 where pr: "parseredirs b i1 [] = Inr (rs, i2)"
      using 3(3) u pk by (cases "parseredirs b i1 []") auto
    then obtain args rs' where pa: "parse_args b i2 [] rs = Inr (args, rs', j)"
      and c: "c = redirs rs' (EXEC args)"
      using 3(3) u pk False by (cases "parse_args b i2 [] rs") auto
    have "list_all (redir_ok b) rs" using parseredirs_ok [OF 3(2) pr] by simp
    from parse_args_ok [OF 3(2) pa _ _ this] show ?thesis
      unfolding c by (auto simp: MAXARGS_def intro!: redirs_ok)
  qed
next
  case (4 b i)
  note u = parseblock.simps [of b i]
  obtain i1 where pk: "peek b i ''('' = (True, i1)"
    using 4(3) u by (cases "peek b i ''(''") (auto split: bool.splits)
  obtain tok q eq i2 where g: "gettoken b i1 = (tok, q, eq, i2)" by (cases "gettoken b i1")
  obtain c1 i3 where pl: "parseline b i2 = Inr (c1, i3)"
    using 4(3) u pk g by (cases "parseline b i2") auto
  obtain i4 where pk2: "peek b i3 '')'' = (True, i4)"
    using 4(3) u pk g pl by (cases "peek b i3 '')''") (auto split: bool.splits)
  obtain tok2 q2 eq2 i5 where g2: "gettoken b i4 = (tok2, q2, eq2, i5)" by (cases "gettoken b i4")
  obtain rs where pr: "parseredirs b i5 [] = Inr (rs, j)" and c: "c = redirs rs c1"
    using 4(3) u pk g pl pk2 g2 by (cases "parseredirs b i5 []") auto
  show ?case
    unfolding c
    by (rule redirs_ok) (use parseredirs_ok [OF 4(2) pr]
        4(1) [OF pk [symmetric] refl g [symmetric] refl refl 4(2) pl] in \<open>simp_all\<close>)
qed

subsection \<open>The strings that nulterminate cuts out\<close>

lemma nul_positions_set: "set (nul_positions c) = snd ` set_cmd c"
  by (induction c) auto

lemma fold_nul_nth:
  "k < length b \<Longrightarrow> fold (\<lambda>i b. b[i := NUL]) ps b ! k = (if k \<in> set ps then NUL else b ! k)"
  "length (fold (\<lambda>i b. b[i := NUL]) ps b) = length b"
  by (induction ps arbitrary: b) (auto simp: nth_list_update)

lemma string_at_token:
  assumes ok: "cmd_ok (token_ok b) c" and t: "(q, eq) \<in> set_cmd c"
  shows "string_at (nulterminate c b) q = token_text b (q, eq)"
proof -
  let ?b = "nulterminate c b"
  have tok: "q < eq" "eq \<le> length b" and w: "list_all word_char (take (eq - q) (drop q b))"
    using cmd_ok_set [OF ok t] by (auto simp: token_ok_def)
  have len: "length ?b = length b" by (simp add: nulterminate_def fold_nul_nth)
  have notword: "\<not> word_char (chr_at b k)" if "k \<in> set (nul_positions c)" for k
    using that cmd_ok_set [OF ok] by (auto simp: nul_positions_set token_ok_def)
  have wk: "word_char (b ! k)" if "q \<le> k" "k < eq" for k
    using w that tok by (auto simp: list_all_length dest: spec [of _ "k - q"])
  have keep: "?b ! k = b ! k" if "q \<le> k" "k < eq" for k
    using notword [of k] wk [OF that] that tok by (auto simp: nulterminate_def fold_nul_nth chr_at_def)
  have seg: "take (eq - q) (drop q ?b) = take (eq - q) (drop q b)"
    using tok len keep by (intro nth_equalityI) auto
  have "takeWhile (\<lambda>c. c \<noteq> NUL) (take (eq - q) (drop q b) @ drop eq ?b)
      = take (eq - q) (drop q b) @ takeWhile (\<lambda>c. c \<noteq> NUL) (drop eq ?b)"
    using w by (intro takeWhile_append2) (auto simp: list_all_iff word_char_def)
  moreover have "takeWhile (\<lambda>c. c \<noteq> NUL) (drop eq ?b) = []"
  proof (cases "eq < length b")
    case True
    have "eq \<in> set (nul_positions c)" using t by (force simp: nul_positions_set)
    then have "?b ! eq = NUL" using True by (simp add: nulterminate_def fold_nul_nth)
    then show ?thesis using True len by (simp add: Cons_nth_drop_Suc [symmetric])
  next
    case False
    then show ?thesis using len by simp
  qed
  moreover have "drop q ?b = take (eq - q) (drop q b) @ drop eq ?b"
    using tok append_take_drop_id [of "eq - q" "drop q ?b"] unfolding seg by simp
  ultimately show ?thesis by (simp add: string_at_def token_text_def)
qed

text \<open>What the pointers of the parsed command point at is the text of its tokens.\<close>

lemma strings_of_tokens:
  assumes "cmd_ok (token_ok b) c"
  shows "map_cmd (\<lambda>(q, eq). string_at (nulterminate c b) q) c = map_cmd (token_text b) c"
  by (rule cmd.map_cong0) (use string_at_token [OF assms] in \<open>auto\<close>)

subsection \<open>Printing a command\<close>

text \<open>
  A text for every command: what is on either side of an operator is in parentheses, so that the
  parser finds exactly this command in it.
\<close>

primrec unparse :: "string cmd \<Rightarrow> string" where
  "unparse (EXEC args) = concat (map (\<lambda>w. w @ '' '') args)"
| "unparse (REDIR c f mode fd) = ''('' @ unparse c @ '')'' @ (if fd = 0 then ''<'' else ''>'') @ f"
| "unparse (PIPE l r) = ''('' @ unparse l @ '')'' @ ''|'' @ ''('' @ unparse r @ '')''"
| "unparse (LIST l r) = ''('' @ unparse l @ '')'' @ '';'' @ ''('' @ unparse r @ '')''"
| "unparse (BACK c) = ''('' @ unparse c @ '')'' @ ''&''"

text \<open>Reading the buffer at a position where the rest is known.\<close>

definition rest_at :: "string \<Rightarrow> nat \<Rightarrow> string \<Rightarrow> bool" where
  "rest_at b i r \<longleftrightarrow> i \<le> length b \<and> drop i b = r"

definition no_blank :: "string \<Rightarrow> bool" where
  "no_blank r \<longleftrightarrow> (case r of [] \<Rightarrow> True | c # _ \<Rightarrow> c \<notin> set sh_whitespace)"

lemma rest_at_chr: "rest_at b i r \<Longrightarrow> chr_at b i = chr_at r 0"
  by (cases r) (auto simp: rest_at_def chr_at_def drop_eq_Nil dest: arg_cong [of _ _ length] nth_via_drop)

lemma rest_at_move: "rest_at b i (w @ r) \<Longrightarrow> rest_at b (i + length w) r"
  by (auto simp: rest_at_def add.commute dest: arg_cong [of _ _ length] arg_cong [of _ _ "drop (length w)"])

lemma skip_ws_here: "rest_at b i r \<Longrightarrow> no_blank r \<Longrightarrow> skip_ws b i = i"
  by (rule skip_ws_step(2))
    (cases r; auto simp: rest_at_def no_blank_def strchr_white dest: nth_via_drop)

lemma skip_ws_blank: "rest_at b i (CHR '' '' # r) \<Longrightarrow> skip_ws b i = skip_ws b (i + 1)"
  by (rule skip_ws_step(1))
    (auto simp: rest_at_def sh_whitespace_def strchr_white [unfolded sh_whitespace_def] not_le
      dest: nth_via_drop arg_cong [of _ _ length])

lemma peek_rest:
  assumes "rest_at b i r" and "no_blank r" and "cstring toks" and "cstring r"
  shows "peek b i toks = (r \<noteq> [] \<and> hd r \<in> set toks, i)"
  using assms strchr_None [of toks "hd r"]
  by (cases r) (auto simp: peek_def skip_ws_here rest_at_chr)

lemma gettoken_symbol:
  assumes "rest_at b i (c # r)" and "c \<in> set ''|();&<''" and "no_blank r"
  shows "gettoken b i = (c, i, i + 1, i + 1)" and "rest_at b (i + 1) r"
proof -
  have q: "skip_ws b i = i" 
    by (rule skip_ws_here [OF assms(1)]) (use assms in \<open>auto simp: no_blank_def sh_whitespace_def\<close>)
  show r: "rest_at b (i + 1) r" using rest_at_move [of b i "[c]" r] assms by simp
  from skip_ws_here [OF this assms(3)] show "gettoken b i = (c, i, i + 1, i + 1)"
    using assms(2) unfolding gettoken_def Let_def q rest_at_chr [OF assms(1)] by (auto simp: NUL_def)
qed

lemma gettoken_greater:
  assumes "rest_at b i (CHR ''>'' # r)" and "no_blank r" and "r \<noteq> [] \<Longrightarrow> hd r \<noteq> CHR ''>''"
  shows "gettoken b i = (CHR ''>'', i, i + 1, i + 1)" and "rest_at b (i + 1) r"
proof -
  have q: "skip_ws b i = i" 
    by (rule skip_ws_here [OF assms(1)]) (use assms in \<open>auto simp: no_blank_def sh_whitespace_def\<close>)
  show r: "rest_at b (i + 1) r" using rest_at_move [of b i "''>''" r] assms by simp
  have "chr_at b (i + 1) \<noteq> CHR ''>''"
    using assms(3) unfolding rest_at_chr [OF r] by (cases r) (auto simp: NUL_def)
  then show "gettoken b i = (CHR ''>'', i, i + 1, i + 1)"
    unfolding gettoken_def Let_def q rest_at_chr [OF assms(1)] using skip_ws_here [OF r assms(2)]
    by (auto simp: NUL_def)
qed

lemma skip_word_text:
  "rest_at b i (w @ r) \<Longrightarrow> list_all word_char w \<Longrightarrow> r = [] \<or> \<not> word_char (hd r) \<Longrightarrow> cstring b
    \<Longrightarrow> skip_word b i = i + length w"
proof (induction w arbitrary: i)
  case Nil
  have "\<not> (i < length b \<and> b ! i \<notin> set sh_whitespace \<and> b ! i \<notin> set symbols)"
  proof
    assume a: "i < length b \<and> b ! i \<notin> set sh_whitespace \<and> b ! i \<notin> set symbols"
    then have "r \<noteq> []" "hd r = b ! i" using Nil(1) by (auto simp: rest_at_def hd_drop_conv_nth)
    moreover have "b ! i \<noteq> NUL" using a Nil(4) nth_mem [of i b] unfolding cstring_def by metis
    ultimately show False using a Nil(3) by (auto simp: word_char_def)
  qed
  then show ?case using skip_word_step(2) by simp
next
  case (Cons c w)
  have i: "i < length b" "b ! i = c"
    using Cons.prems(1) by (auto simp: rest_at_def not_le dest: nth_via_drop arg_cong [of _ _ length])
  have "skip_word b i = skip_word b (i + 1)"
    by (rule skip_word_step(1)) (use i Cons.prems(2) in \<open>auto simp: word_char_def\<close>)
  also have "\<dots> = i + 1 + length w"
    by (rule Cons.IH) (use Cons.prems rest_at_move [of b i "[c]" "w @ r"] in \<open>auto\<close>)
  finally show ?case by simp
qed

lemma gettoken_text:
  assumes "cstring b" and at: "rest_at b i (w @ r)" and w: "good_word w"
    and r: "r = [] \<or> \<not> word_char (hd r)"
  shows "gettoken b i = (CHR ''a'', i, i + length w, skip_ws b (i + length w))"
    and "token_text b (i, i + length w) = w" and "rest_at b (i + length w) r"
proof -
  obtain c w' where cw: "w = c # w'" and c: "word_char c" and lw: "list_all word_char w"
    using w by (cases w) (auto simp: good_word_def)
  have q: "skip_ws b i = i"
    by (rule skip_ws_here [OF at]) (use c cw in \<open>simp add: no_blank_def word_char_def\<close>)
  have "c \<noteq> NUL" "c \<notin> set ''|();&<''" "c \<noteq> CHR ''>''" using c by (auto simp: word_char_def symbols_def)
  then show "gettoken b i = (CHR ''a'', i, i + length w, skip_ws b (i + length w))"
    using skip_word_text [OF at lw r assms(1)] unfolding gettoken_def Let_def q rest_at_chr [OF at] cw
    by simp
  show "token_text b (i, i + length w) = w" using at by (simp add: token_text_def rest_at_def)
  show "rest_at b (i + length w) r" by (rule rest_at_move [OF at])
qed

text \<open>The end of a line: nothing is left, or a closing parenthesis.\<close>

definition at_end :: "string \<Rightarrow> bool" where
  "at_end r \<longleftrightarrow> r = [] \<or> hd r = CHR '')''"

lemma at_end_no_blank [simp]: "at_end r \<Longrightarrow> no_blank r"
  by (cases r) (auto simp: at_end_def no_blank_def sh_whitespace_def)

lemma peek_at_end:
  assumes "cstring b" and "rest_at b i r" and "at_end r" and "cstring toks" and "CHR '')'' \<notin> set toks"
  shows "peek b i toks = (False, i)"
proof -
  have "cstring r" using assms(1,2) by (auto simp: rest_at_def)
  then show ?thesis using peek_rest [OF assms(2) _ assms(4)] assms(3,5) by (auto simp: at_end_def)
qed

lemma parseredirs_none:
  assumes "cstring b" and "rest_at b i r" and "no_blank r" and "r = [] \<or> hd r \<notin> set ''<>''"
  shows "parseredirs b i rs = Inr (rs, i)"
proof -
  have "cstring r" using assms(1,2) by (auto simp: rest_at_def)
  then have "peek b i ''<>'' = (False, i)"
    using peek_rest [OF assms(2,3), of "''<>''"] assms(4) by (auto simp: NUL_def)
  then show ?thesis by (simp add: parseredirs.simps [of b i])
qed

text \<open>The words of a simple command.\<close>

definition words_text :: "string list \<Rightarrow> string" where
  "words_text ws = concat (map (\<lambda>w. w @ '' '') ws)"

lemma words_text_simps [simp]: "words_text [] = []" "words_text (w # ws) = w @ '' '' @ words_text ws"
  by (simp_all add: words_text_def)

lemma words_no_blank: "list_all good_word ws \<Longrightarrow> at_end r \<Longrightarrow> no_blank (words_text ws @ r)"
proof (induction ws)
  case (Cons w ws)
  then show ?case by (cases w) (auto simp: good_word_def no_blank_def word_char_def)
qed simp

lemma words_head:
  assumes "list_all good_word ws" and "at_end r"
  shows "words_text ws @ r = [] \<or> hd (words_text ws @ r) \<notin> set ''<>|&;(''"
proof (cases ws)
  case Nil
  then show ?thesis using assms(2) by (auto simp: at_end_def)
next
  case (Cons w ws')
  then obtain c w' where "w = c # w'" "word_char c"
    using assms(1) by (cases w) (auto simp: good_word_def)
  then show ?thesis using Cons by (auto simp: word_char_def symbols_def)
qed

lemma parse_args_words:
  assumes "cstring b" and "at_end r"
  shows "rest_at b i (words_text ws @ r) \<Longrightarrow> list_all good_word ws \<Longrightarrow> length args + length ws < MAXARGS \<Longrightarrow>
    \<exists>toks j. parse_args b i args rs = Inr (args @ toks, rs, j) \<and> map (token_text b) toks = ws \<and> rest_at b j r"
proof (induction ws arbitrary: i args)
  case Nil
  then have i: "rest_at b i r" by simp
  have cr: "cstring r" using assms(1) i by (auto simp: rest_at_def)
  have peek: "peek b i ''|)&;'' = (r \<noteq> [] \<and> hd r \<in> set ''|)&;'', i)"
    by (rule peek_rest [OF i _ _ cr]) (use assms(2) in \<open>simp_all add: NUL_def\<close>)
  show ?case
  proof (cases "r = []")
    case True
    have "skip_ws b i = i" by (rule skip_ws_here [OF i]) (use assms(2) in \<open>simp\<close>)
    then have "gettoken b i = (NUL, i, i, i)"
      using rest_at_chr [OF i] True by (simp add: gettoken_def)
    then show ?thesis using peek True i by (intro exI [of _ "[]"]) (simp add: parse_args.simps [of b i])
  next
    case False
    then show ?thesis
      using peek assms(2) i by (intro exI [of _ "[]"]) (simp add: parse_args.simps [of b i] at_end_def)
  qed
next
  case (Cons w ws)
  then have w: "good_word w" and ws: "list_all good_word ws" by simp_all
  have at: "rest_at b i (w @ '' '' @ words_text ws @ r)" using Cons.prems(1) by simp
  note tok = gettoken_text [OF assms(1) at w]
  let ?j = "i + length w + 1"
  have bl: "\<not> word_char (CHR '' '')" by (simp add: word_char_def sh_whitespace_def)
  have at2: "rest_at b ?j (words_text ws @ r)"
    using rest_at_move [of b "i + length w" "'' ''" "words_text ws @ r"] tok(3) bl by simp
  have nb: "no_blank (words_text ws @ r)" by (rule words_no_blank [OF ws assms(2)])
  have "skip_ws b (i + length w) = ?j"
    using skip_ws_blank [of b "i + length w" "words_text ws @ r"] skip_ws_here [OF at2 nb] tok(3) bl by simp
  then have g: "gettoken b i = (CHR ''a'', i, i + length w, ?j)" using tok(1) bl by simp
  have "peek b i ''|)&;'' = (False, i)"
  proof -
    obtain c w' where cw: "w = c # w'" and c: "word_char c"
      using w by (cases w) (auto simp: good_word_def)
    have "cstring (w @ '' '' @ words_text ws @ r)" using assms(1) at by (metis cstring_drop rest_at_def)
    moreover have "c \<notin> set ''|)&;''" using c by (auto simp: word_char_def symbols_def)
    ultimately show ?thesis
      using peek_rest [OF at, of "''|)&;''"] c unfolding cw
      by (auto simp: NUL_def no_blank_def word_char_def)
  qed
  moreover have "parseredirs b ?j rs = Inr (rs, ?j)"
    by (rule parseredirs_none [OF assms(1) at2 nb]) (use words_head [OF ws assms(2)] in \<open>auto\<close>)
  ultimately have step: "parse_args b i args rs = parse_args b ?j (args @ [(i, i + length w)]) rs"
    using g Cons.prems(3) by (simp add: parse_args.simps [of b i] NUL_def)
  have "length (args @ [(i, i + length w)]) + length ws < MAXARGS" using Cons.prems(3) by simp
  from Cons.IH [OF at2 ws this] obtain toks j
    where "parse_args b ?j (args @ [(i, i + length w)]) rs = Inr (args @ (i, i + length w) # toks, rs, j)"
      and "map (token_text b) toks = ws" and "rest_at b j r" by auto
  then show ?case
    unfolding step using tok(2) bl by (intro exI [of _ "(i, i + length w) # toks"] exI [of _ j]) simp
qed

text \<open>What the functions of the grammar do on the text of a command.\<close>

definition reads_as :: "string \<Rightarrow> string + token cmd \<times> nat \<Rightarrow> string cmd \<Rightarrow> string \<Rightarrow> bool" where
  "reads_as b res c r \<longleftrightarrow>
     (\<exists>c' j. res = Inr (c', j) \<and> map_cmd (token_text b) c' = c \<and> rest_at b j r)"

lemma reads_asI: "res = Inr (c', j) \<Longrightarrow> map_cmd (token_text b) c' = c \<Longrightarrow> rest_at b j r \<Longrightarrow> reads_as b res c r"
  by (auto simp: reads_as_def)

lemma pipe_of_exec:
  assumes "cstring b" and "reads_as b (parseexec b i) c r" and "no_blank r" and "r = [] \<or> hd r \<noteq> CHR ''|''"
  shows "reads_as b (parsepipe b i) c r"
proof -
  from assms(2) obtain c' j where e: "parseexec b i = Inr (c', j)" and c: "map_cmd (token_text b) c' = c"
    and j: "rest_at b j r" by (auto simp: reads_as_def)
  have "cstring r" using assms(1) j by (auto simp: rest_at_def)
  then have "peek b j ''|'' = (False, j)" using peek_rest [OF j assms(3), of "''|''"] assms(4) by (auto simp: NUL_def)
  then show ?thesis using e c j by (intro reads_asI) (simp_all add: parsepipe.simps [of b i])
qed

lemma line_of_pipe:
  assumes "cstring b" and "reads_as b (parsepipe b i) c r" and "at_end r"
  shows "reads_as b (parseline b i) c r"
proof -
  from assms(2) obtain c' j where e: "parsepipe b i = Inr (c', j)" and c: "map_cmd (token_text b) c' = c"
    and j: "rest_at b j r" by (auto simp: reads_as_def)
  have pk: "peek b j ''&'' = (False, j)" "peek b j '';'' = (False, j)"
    by (rule peek_at_end [OF assms(1) j assms(3)]; simp add: NUL_def)+
  then have "parse_back b j c' = (c', j)" by (simp add: parse_back.simps [of b j])
  then show ?thesis using e c j pk by (intro reads_asI) (simp_all add: parseline.simps [of b i])
qed

lemma line_of_exec:
  "cstring b \<Longrightarrow> reads_as b (parseexec b i) c r \<Longrightarrow> at_end r \<Longrightarrow> reads_as b (parseline b i) c r"
  by (rule line_of_pipe, assumption, rule pipe_of_exec) (auto simp: at_end_def intro: at_end_no_blank)

text \<open>What \<open>parseline\<close> reads inside parentheses, and what follows them.\<close>

lemma exec_block:
  assumes "cstring b" and i: "rest_at b i (CHR ''('' # u @ CHR '')'' # r)" and nb: "no_blank (u @ CHR '')'' # r)"
    and r: "no_blank r"
    and line: "\<And>i. rest_at b i (u @ CHR '')'' # r) \<Longrightarrow> reads_as b (parseline b i) c (CHR '')'' # r)"
  obtains c' k where "map_cmd (token_text b) c' = c" and "rest_at b k r"
    and "parseexec b i = (case parseredirs b k [] of Inl e \<Rightarrow> Inl e | Inr (rs, j) \<Rightarrow> Inr (redirs rs c', j))"
proof -
  have cr: "cstring (CHR ''('' # u @ CHR '')'' # r)" using assms(1) i by (metis cstring_drop rest_at_def)
  have pk: "peek b i ''('' = (True, i)"
    using peek_rest [OF i _ _ cr, of "''(''"] by (simp add: no_blank_def sh_whitespace_def NUL_def)
  note g = gettoken_symbol [OF i _ nb]
  have "reads_as b (parseline b (i + 1)) c (CHR '')'' # r)" by (rule line) (rule g(2), simp)
  then obtain c' j where pl: "parseline b (i + 1) = Inr (c', j)" and c: "map_cmd (token_text b) c' = c"
    and j: "rest_at b j (CHR '')'' # r)" by (auto simp: reads_as_def)
  have "cstring (CHR '')'' # r)" using cr by simp
  then have pk2: "peek b j '')'' = (True, j)"
    using peek_rest [OF j, of "'')''"] by (simp add: no_blank_def sh_whitespace_def NUL_def)
  note g2 = gettoken_symbol [OF j _ r]
  have g1': "gettoken b i = (CHR ''('', i, i + 1, i + 1)" by (rule g(1)) simp
  have g2': "gettoken b j = (CHR '')'', j, j + 1, j + 1)" by (rule g2(1)) simp
  have "parseexec b i = (case parseredirs b (j + 1) [] of Inl e \<Rightarrow> Inl e | Inr (rs, j) \<Rightarrow> Inr (redirs rs c', j))"
    using pk pk2 pl g1' g2' by (simp add: parseexec.simps [of b i] parseblock.simps [of b i])
  moreover have "rest_at b (j + 1) r" by (rule g2(2)) simp
  ultimately show thesis using that c by blast
qed

lemma exec_parens:
  assumes "cstring b" and "rest_at b i (CHR ''('' # u @ CHR '')'' # r)" and "no_blank (u @ CHR '')'' # r)"
    and r: "no_blank r" and nr: "r = [] \<or> hd r \<notin> set ''<>''"
    and "\<And>i. rest_at b i (u @ CHR '')'' # r) \<Longrightarrow> reads_as b (parseline b i) c (CHR '')'' # r)"
  shows "reads_as b (parseexec b i) c r"
proof (rule exec_block [OF assms(1-4,6)], assumption)
  fix c' k
  assume c: "map_cmd (token_text b) c' = c" and k: "rest_at b k r"
    and e: "parseexec b i = (case parseredirs b k [] of Inl e \<Rightarrow> Inl e | Inr (rs, j) \<Rightarrow> Inr (redirs rs c', j))"
  have "parseredirs b k [] = Inr ([], k)" by (rule parseredirs_none [OF assms(1) k r nr])
  then show ?thesis using e c k by (intro reads_asI) (simp_all add: redirs_def)
qed

lemma unparse_no_blank: "cmd_ok good_word c \<Longrightarrow> at_end r \<Longrightarrow> no_blank (unparse c @ r)"
proof (cases c)
  case (EXEC args)
  then show "cmd_ok good_word c \<Longrightarrow> at_end r \<Longrightarrow> no_blank (unparse c @ r)"
    using words_no_blank [of args r] by (simp add: words_text_def)
qed (simp_all add: no_blank_def sh_whitespace_def)

text \<open>
  That the parser reads a command back, at every position and in front of every end of a line; one
  lemma for each kind of command.
\<close>

definition reads_line :: "string \<Rightarrow> string cmd \<Rightarrow> bool" where
  "reads_line b c \<longleftrightarrow> (\<forall>i r. rest_at b i (unparse c @ r) \<longrightarrow> at_end r \<longrightarrow> reads_as b (parseline b i) c r)"

lemma reads_lineD: "reads_line b c \<Longrightarrow> rest_at b i (unparse c @ r) \<Longrightarrow> at_end r \<Longrightarrow> reads_as b (parseline b i) c r"
  by (simp add: reads_line_def)

lemma unparse_inner: "cmd_ok good_word c \<Longrightarrow> no_blank (unparse c @ CHR '')'' # x)"
  by (rule unparse_no_blank) (simp_all add: at_end_def)

lemma reads_inner:
  "reads_line b c \<Longrightarrow> rest_at b i (unparse c @ CHR '')'' # x) \<Longrightarrow> reads_as b (parseline b i) c (CHR '')'' # x)"
  by (erule reads_lineD) (simp_all add: at_end_def)

lemma line_EXEC:
  assumes cs: "cstring b" and EXEC: "cmd_ok good_word (EXEC args)" "rest_at b i (unparse (EXEC args) @ r)" "at_end r"
  shows "reads_as b (parseline b i) (EXEC args) r"
proof -
  from EXEC have i: "rest_at b i (words_text args @ r)" and ok: "list_all good_word args" "length args < MAXARGS"
    by (simp_all add: words_text_def)
  note nb = words_no_blank [OF ok(1) EXEC(3)] and hd = words_head [OF ok(1) EXEC(3)]
  have cr: "cstring (words_text args @ r)" using cs i by (metis cstring_drop rest_at_def)
  have pk: "peek b i ''('' = (False, i)"
    using peek_rest [OF i nb _ cr, of "''(''"] hd by (auto simp: NUL_def)
  have "parseredirs b i [] = Inr ([], i)"
    by (rule parseredirs_none [OF cs i nb]) (use hd in \<open>auto\<close>)
  moreover obtain toks j where "parse_args b i [] [] = Inr (toks, [], j)"
    and "map (token_text b) toks = args" and "rest_at b j r"
    using parse_args_words [OF cs EXEC(3) i ok(1), of "[]" "[]"] ok(2) by auto
  ultimately have "reads_as b (parseexec b i) (EXEC args) r"
    using pk by (intro reads_asI [of _ "EXEC toks" j]) (simp_all add: parseexec.simps [of b i] redirs_def)
  then show ?thesis by (rule line_of_exec [OF cs _ EXEC(3)])
qed

lemma line_PIPE:
  assumes cs: "cstring b" and ok: "cmd_ok good_word l" "cmd_ok good_word r1"
    and sub: "reads_line b l" "reads_line b r1"
    and i0: "rest_at b i (unparse (PIPE l r1) @ r)" and r: "at_end r"
  shows "reads_as b (parseline b i) (PIPE l r1) r"
proof -
  have i: "rest_at b i (CHR ''('' # unparse l @ CHR '')'' # CHR ''|'' # CHR ''('' # unparse r1 @ CHR '')'' # r)"
    using i0 by simp
  note nb = unparse_inner [OF ok(1)] unparse_inner [OF ok(2)]
  have "reads_as b (parseexec b i) l (CHR ''|'' # CHR ''('' # unparse r1 @ CHR '')'' # r)"
    by (rule exec_parens [OF cs i])
      (use nb reads_inner [OF sub(1)] in \<open>auto simp: no_blank_def sh_whitespace_def at_end_def\<close>)
  then obtain c1 j where e: "parseexec b i = Inr (c1, j)" and c1: "map_cmd (token_text b) c1 = l"
    and j: "rest_at b j (CHR ''|'' # CHR ''('' # unparse r1 @ CHR '')'' # r)" by (auto simp: reads_as_def)
  note g = gettoken_symbol [OF j]
  have j2: "rest_at b (j + 1) (CHR ''('' # unparse r1 @ CHR '')'' # r)"
    and g': "gettoken b j = (CHR ''|'', j, j + 1, j + 1)"
    by (rule g; simp add: no_blank_def sh_whitespace_def)+
  have "cstring (CHR ''|'' # CHR ''('' # unparse r1 @ CHR '')'' # r)" using cs j by (metis cstring_drop rest_at_def)
  then have pk: "peek b j ''|'' = (True, j)"
    using peek_rest [OF j, of "''|''"] by (simp add: no_blank_def sh_whitespace_def NUL_def)
  have "reads_as b (parseexec b (j + 1)) r1 r"
    by (rule exec_parens [OF cs j2]) (use nb r reads_inner [OF sub(2)] in \<open>auto simp: at_end_def intro: at_end_no_blank\<close>)
  then have "reads_as b (parsepipe b (j + 1)) r1 r"
    by (rule pipe_of_exec [OF cs]) (use r in \<open>auto simp: at_end_def intro: at_end_no_blank\<close>)
  then obtain c2 k where p: "parsepipe b (j + 1) = Inr (c2, k)" and c2: "map_cmd (token_text b) c2 = r1"
    and k: "rest_at b k r" by (auto simp: reads_as_def)
  have "reads_as b (parsepipe b i) (PIPE l r1) r"
    using e pk g' p c1 c2 k by (intro reads_asI [of _ "PIPE c1 c2" k]) (simp_all add: parsepipe.simps [of b i])
  then show ?thesis by (rule line_of_pipe [OF cs _ r])
qed

lemma line_LIST:
  assumes cs: "cstring b" and ok: "cmd_ok good_word l" "cmd_ok good_word r1"
    and sub: "reads_line b l" "reads_line b r1"
    and i0: "rest_at b i (unparse (LIST l r1) @ r)" and r: "at_end r"
  shows "reads_as b (parseline b i) (LIST l r1) r"
proof -
  have i: "rest_at b i (CHR ''('' # unparse l @ CHR '')'' # CHR '';'' # CHR ''('' # unparse r1 @ CHR '')'' # r)"
    using i0 by simp
  note nb = unparse_inner [OF ok(1)] unparse_inner [OF ok(2)]
  have "reads_as b (parseexec b i) l (CHR '';'' # CHR ''('' # unparse r1 @ CHR '')'' # r)"
    by (rule exec_parens [OF cs i])
      (use nb reads_inner [OF sub(1)] in \<open>auto simp: no_blank_def sh_whitespace_def at_end_def\<close>)
  then have "reads_as b (parsepipe b i) l (CHR '';'' # CHR ''('' # unparse r1 @ CHR '')'' # r)"
    by (rule pipe_of_exec [OF cs]) (simp_all add: no_blank_def sh_whitespace_def)
  then obtain c1 j where e: "parsepipe b i = Inr (c1, j)" and c1: "map_cmd (token_text b) c1 = l"
    and j: "rest_at b j (CHR '';'' # CHR ''('' # unparse r1 @ CHR '')'' # r)" by (auto simp: reads_as_def)
  note g = gettoken_symbol [OF j]
  have j2: "rest_at b (j + 1) (CHR ''('' # unparse r1 @ CHR '')'' # r)"
    and g': "gettoken b j = (CHR '';'', j, j + 1, j + 1)"
    by (rule g; simp add: no_blank_def sh_whitespace_def)+
  have cr: "cstring (CHR '';'' # CHR ''('' # unparse r1 @ CHR '')'' # r)" using cs j by (metis cstring_drop rest_at_def)
  have pk: "peek b j '';'' = (True, j)" "peek b j ''&'' = (False, j)"
    using peek_rest [OF j _ _ cr, of "'';''"] peek_rest [OF j _ _ cr, of "''&''"]
    by (simp_all add: no_blank_def sh_whitespace_def NUL_def)
  then have pb: "parse_back b j c1 = (c1, j)" by (simp add: parse_back.simps [of b j])
  have "reads_as b (parseexec b (j + 1)) r1 r"
    by (rule exec_parens [OF cs j2]) (use nb r reads_inner [OF sub(2)] in \<open>auto simp: at_end_def intro: at_end_no_blank\<close>)
  then have "reads_as b (parseline b (j + 1)) r1 r" by (rule line_of_exec [OF cs _ r])
  then obtain c2 k where p: "parseline b (j + 1) = Inr (c2, k)" and c2: "map_cmd (token_text b) c2 = r1"
    and k: "rest_at b k r" by (auto simp: reads_as_def)
  show ?thesis
    using e pk pb g' p c1 c2 k by (intro reads_asI [of _ "LIST c1 c2" k]) (simp_all add: parseline.simps [of b i])
qed

lemma line_BACK:
  assumes cs: "cstring b" and ok: "cmd_ok good_word c" and sub: "reads_line b c"
    and i0: "rest_at b i (unparse (BACK c) @ r)" and r: "at_end r"
  shows "reads_as b (parseline b i) (BACK c) r"
proof -
  have i: "rest_at b i (CHR ''('' # unparse c @ CHR '')'' # CHR ''&'' # r)"
    using i0 by simp
  note nb = unparse_inner [OF ok]
  have "reads_as b (parseexec b i) c (CHR ''&'' # r)"
    by (rule exec_parens [OF cs i])
      (use nb r reads_inner [OF sub] in \<open>auto simp: no_blank_def sh_whitespace_def at_end_def\<close>)
  then have "reads_as b (parsepipe b i) c (CHR ''&'' # r)"
    by (rule pipe_of_exec [OF cs]) (simp_all add: no_blank_def sh_whitespace_def)
  then obtain c1 j where e: "parsepipe b i = Inr (c1, j)" and c1: "map_cmd (token_text b) c1 = c"
    and j: "rest_at b j (CHR ''&'' # r)" by (auto simp: reads_as_def)
  note g = gettoken_symbol [OF j _ at_end_no_blank [OF r]]
  have j2: "rest_at b (j + 1) r" and g': "gettoken b j = (CHR ''&'', j, j + 1, j + 1)"
    by (rule g; simp)+
  have cr: "cstring (CHR ''&'' # r)" using cs j by (metis cstring_drop rest_at_def)
  have pk: "peek b j ''&'' = (True, j)"
    using peek_rest [OF j _ _ cr, of "''&''"] by (simp add: no_blank_def sh_whitespace_def NUL_def)
  have pk2: "peek b (j + 1) ''&'' = (False, j + 1)" "peek b (j + 1) '';'' = (False, j + 1)"
    by (rule peek_at_end [OF cs j2 r]; simp add: NUL_def)+
  then have "parse_back b (j + 1) (BACK c1) = (BACK c1, j + 1)" by (subst parse_back.simps) simp
  then have pb: "parse_back b j c1 = (BACK c1, j + 1)"
    using pk g' by (simp add: parse_back.simps [of b j])
  show ?thesis
    using e pb pk2 c1 j2 by (intro reads_asI [of _ "BACK c1" "j + 1"]) (simp_all add: parseline.simps [of b i])
qed

lemma line_REDIR:
  assumes cs: "cstring b" and ok: "cmd_ok good_word (REDIR c f mode fd)" and sub: "reads_line b c"
    and i0: "rest_at b i (unparse (REDIR c f mode fd) @ r)" and r: "at_end r"
  shows "reads_as b (parseline b i) (REDIR c f mode fd) r"
proof -
  define x where "x = (if fd = 0 then CHR ''<'' else CHR ''>'')"
  have f: "good_word f" and c: "cmd_ok good_word c" using ok by simp_all
  have i: "rest_at b i (CHR ''('' # unparse c @ CHR '')'' # x # f @ r)"
    using i0 by (simp add: x_def split: if_splits)
  have x: "x = CHR ''<'' \<or> x = CHR ''>''" by (simp add: x_def)
  obtain a f' where ff: "f = a # f'" and a: "word_char a"
    using f by (cases f) (auto simp: good_word_def)
  have nbf: "no_blank (f @ r)" and agt: "a \<noteq> CHR ''>''"
    using a by (auto simp: ff no_blank_def word_char_def symbols_def)
  have nbx: "no_blank (x # f @ r)" using x by (auto simp: no_blank_def sh_whitespace_def)
  note nb = unparse_inner [OF c, of "x # f @ r"]
  obtain c1 k where c1: "map_cmd (token_text b) c1 = c" and k: "rest_at b k (x # f @ r)"
    and e: "parseexec b i = (case parseredirs b k [] of Inl e \<Rightarrow> Inl e | Inr (rs, j) \<Rightarrow> Inr (redirs rs c1, j))"
    by (rule exec_block [OF cs i nb nbx])
      (rule reads_inner [OF sub])
  have cr: "cstring (x # f @ r)" using cs k by (metis cstring_drop rest_at_def)
  have pk: "peek b k ''<>'' = (True, k)"
    using peek_rest [OF k nbx _ cr, of "''<>''"] x by (auto simp: NUL_def)
  have "gettoken b k = (x, k, k + 1, k + 1) \<and> rest_at b (k + 1) (f @ r)"
  proof (cases "x = CHR ''<''")
    case True
    then show ?thesis using gettoken_symbol [OF k _ nbf] by simp
  next
    case False
    then have "rest_at b k (CHR ''>'' # f @ r)" using x k by simp
    from gettoken_greater [OF this nbf] show ?thesis using x False agt ff by simp
  qed
  then have g: "gettoken b k = (x, k, k + 1, k + 1)" and k1: "rest_at b (k + 1) (f @ r)" by simp_all
  have rr: "r = [] \<or> \<not> word_char (hd r)"
    using r by (auto simp: at_end_def word_char_def symbols_def)
  note t = gettoken_text [OF cs k1 f rr]
  let ?j = "k + 1 + length f"
  have "skip_ws b ?j = ?j" by (rule skip_ws_here [OF t(3)]) (use r in \<open>simp\<close>)
  then have g2: "gettoken b (k + 1) = (CHR ''a'', k + 1, ?j, ?j)" using t(1) by simp
  have "parseredirs b ?j [redir_of x (k + 1, ?j)] = Inr ([redir_of x (k + 1, ?j)], ?j)"
    by (rule parseredirs_none [OF cs t(3)]) (use r in \<open>auto simp: at_end_def intro: at_end_no_blank\<close>)
  then have "parseredirs b k [] = Inr ([redir_of x (k + 1, ?j)], ?j)"
    using pk g g2 by (simp add: parseredirs.simps [of b k])
  then have e': "parseexec b i = Inr (redirs [redir_of x (k + 1, ?j)] c1, ?j)" using e by simp
  have "map_cmd (token_text b) (redirs [redir_of x (k + 1, ?j)] c1) = REDIR c f mode fd"
    using c1 t(2) ok by (auto simp: redirs_def redir_of_def x_def split: if_splits)
  then have "reads_as b (parseexec b i) (REDIR c f mode fd) r" by (rule reads_asI [OF e' _ t(3)])
  then show ?thesis by (rule line_of_exec [OF cs _ r])
qed

lemma parseline_unparse: "cstring b \<Longrightarrow> cmd_ok good_word c \<Longrightarrow> reads_line b c"
proof (induction c)
  case (EXEC args)
  then show ?case unfolding reads_line_def by (auto simp del: unparse.simps intro: line_EXEC simp del: unparse.simps)
next
  case (REDIR c f mode fd)
  then show ?case unfolding reads_line_def [of b "REDIR c f mode fd"] by (auto simp del: unparse.simps intro: line_REDIR)
next
  case (PIPE l r)
  then show ?case unfolding reads_line_def [of b "PIPE l r"] by (auto simp del: unparse.simps intro: line_PIPE)
next
  case (LIST l r)
  then show ?case unfolding reads_line_def [of b "LIST l r"] by (auto simp del: unparse.simps intro: line_LIST)
next
  case (BACK c)
  then show ?case unfolding reads_line_def [of b "BACK c"] by (auto simp del: unparse.simps intro: line_BACK)
qed

lemma good_word_cstring: "good_word w \<Longrightarrow> cstring w"
  by (auto simp: good_word_def cstring_def list_all_iff word_char_def)

lemma unparse_cstring: "cmd_ok good_word c \<Longrightarrow> cstring (unparse c)"
proof (induction c)
  case (EXEC args)
  then have "list_all good_word args" by simp
  then show ?case by (induction args) (auto simp: good_word_cstring NUL_def)
qed (auto simp: good_word_cstring NUL_def)

end
