(* ===== verification/Sh_Claims.thy ===== *)
theory Sh_Claims
  imports Sh_Props
begin

text \<open>The shell: what its parser accepts, that it reads printed commands back, and what it runs.\<close>

subsection \<open>The descriptors of the programs a command runs\<close>

text \<open>
  What a command means: the programs it executes and their descriptors.  A redirection replaces
  one descriptor, a pipe the output of its left and the input of its right side.
\<close>

primrec cmd_execs :: "string cmd \<Rightarrow> fdtable \<Rightarrow> nat \<Rightarrow> (string list \<times> fdtable) list \<times> nat" where
  "cmd_execs (EXEC argv) t n = (if argv = [] then [] else [(argv, t)], n)"
| "cmd_execs (REDIR c f mode fd) t n = cmd_execs c (t(nat fd := Some (Disk f mode))) n"
| "cmd_execs (PIPE l r) t n =
     (let (xs, m) = cmd_execs l (t(1 := Some (PipeWrite n))) (n + 1);
          (ys, m) = cmd_execs r (t(0 := Some (PipeRead n))) m in (xs @ ys, m))"
| "cmd_execs (LIST l r) t n =
     (let (xs, m) = cmd_execs l t n; (ys, m) = cmd_execs r t m in (xs @ ys, m))"
| "cmd_execs (BACK c) t n = cmd_execs c t n"

text \<open>The standard descriptors are open, and two others are free for a pipe.\<close>

definition shell_table :: "fdtable \<Rightarrow> bool" where
  "shell_table t \<longleftrightarrow> t 0 \<noteq> None \<and> t 1 \<noteq> None \<and> t 2 \<noteq> None \<and>
     2 \<le> length (filter (\<lambda>i. t i = None) [0..<16])"

lemma shell_table_upd:
  assumes t: "shell_table t" and i: "i < 3"
  shows "shell_table (t(i := Some x))"
proof -
  have "i = 0 \<or> i = 1 \<or> i = 2" using i by arith
  then have "t i \<noteq> None" using t by (auto simp: shell_table_def)
  then have "((t(i := Some x)) k = None) = (t k = None)" for k by simp
  then show ?thesis using t by (simp add: shell_table_def del: fun_upd_apply)
qed

lemma pipe_fds:
  assumes "shell_table t"
  obtains i j where "lowest_fd t = Some i" and "lowest_fd (t(i := Some x)) = Some j"
    and "3 \<le> i" and "i < j" and "j < 16" and "t i = None" and "t j = None"
proof -
  obtain i where i: "lowest_fd t = Some i"
  proof (cases "lowest_fd t")
    case None
    then have "filter (\<lambda>i. t i = None) [0..<16] = []" by (auto simp: lowest_fd_def find_None_iff)
    then show thesis using assms by (simp add: shell_table_def)
  qed
  then have i2: "i < 16" "t i = None" "list_all (\<lambda>j. t j \<noteq> None) [0..<i]" by (simp_all add: lowest_fd_Some)
  have below: "t k \<noteq> None" if "k < i" for k using i2(3) that by (simp add: list_all_iff)
  have i3: "3 \<le> i"
    using assms i2(2) by (cases "i \<in> {0, 1, 2}") (auto simp: shell_table_def)
  obtain j where j: "lowest_fd (t(i := Some x)) = Some j"
  proof (cases "lowest_fd (t(i := Some x))")
    case None
    then have "\<forall>k < 16. k \<noteq> i \<longrightarrow> t k \<noteq> None" by (auto simp: lowest_fd_def find_None_iff split: if_splits)
    then have "set (filter (\<lambda>i. t i = None) [0..<16]) \<subseteq> {i}" by auto
    then have "card (set (filter (\<lambda>i. t i = None) [0..<16])) \<le> card {i}" by (intro card_mono) auto
    moreover have "card (set (filter (\<lambda>i. t i = None) [0..<16])) = length (filter (\<lambda>i. t i = None) [0..<16])"
      by (intro distinct_card) simp
    ultimately have "length (filter (\<lambda>i. t i = None) [0..<16]) \<le> 1" by simp
    then show thesis using assms by (simp add: shell_table_def)
  qed
  then have j2: "j < 16" "j \<noteq> i" "t j = None" by (auto simp: lowest_fd_Some split: if_splits)
  then have "i < j" using below by (metis linorder_neqE_nat)
  then show thesis using that i j i3 i2 j2 by blast
qed

lemma execs_redirect:
  assumes "shell_table t" and "fd = 0 \<or> fd = (1 :: int)"
  shows "execs (runcmd (REDIR c f mode fd)) t n = execs (runcmd c) (t(nat fd := Some (Disk f mode))) n"
proof -
  define i where "i = nat fd"
  have i: "fd = int i" "i = 0 \<or> i = 1" using assms(2) by (auto simp: i_def)
  then obtain x where x: "t i = Some x" using assms(1) by (auto simp: shell_table_def)
  have "lowest_fd (t(i := None)) = Some i"
    using i(2) assms(1) by (auto simp: lowest_fd_Some shell_table_def list_all_iff)
  then have "open_fd (Disk f mode) (t(i := None)) = (int i, t(i := Some (Disk f mode)))"
    by (simp add: open_fd_lowest)
  moreover have "i < 16" using i(2) by auto
  ultimately show ?thesis
    unfolding i(1) runcmd.simps execs_close [where i = i and t = t, OF \<open>i < 16\<close> x] by simp
qed

text \<open>A child of a pipe puts one end on a standard descriptor and closes both ends.\<close>

lemma execs_end:
  assumes t: "shell_table t" and k: "k = 0 \<or> k = 1" and e: "e = i \<or> e = j"
    and ij: "3 \<le> i" "i < j" "j < 16" "t i = None" "t j = None"
  shows "execs (Call (SClose (int k)) (\<lambda>_. Call (SDup (int e)) (\<lambda>_.
      Call (SClose (int i)) (\<lambda>_. Call (SClose (int j)) (\<lambda>_. p))))) (t(i := Some a, j := Some b)) n
    = execs p (t(k := Some (if e = i then a else b))) n"
proof -
  let ?x = "if e = i then a else b"
  let ?t = "t(i := Some a, j := Some b)"
  obtain y where y: "?t k = Some y" using t k ij by (auto simp: shell_table_def)
  let ?t1 = "?t(k := None)"
  have k16: "k < 16" and e16: "e < 16" and i16: "i < 16" and ek: "k \<noteq> i" "k \<noteq> j" using k e ij by auto
  have low: "lowest_fd ?t1 = Some k"
    using k t ij by (auto simp: lowest_fd_Some shell_table_def list_all_iff)
  have x: "?t1 e = Some ?x" using e ij ek by auto
  let ?t2 = "?t1(k := Some ?x)"
  have i2: "?t2 i = Some a" and j3: "(?t2(i := None)) j = Some b" using ek ij by auto
  have "?t2(i := None, j := None) = t(k := Some ?x)"
    using ek ij by (intro ext) auto
  note steps = execs_close [where i = k and t = ?t, OF k16 y]
    execs_dup [where i = e and t = ?t1, OF e16 x low]
    execs_close [where i = i and t = ?t2, OF i16 i2]
    execs_close [where i = j and t = "?t2(i := None)", OF ij(3) j3]
  show ?thesis unfolding steps \<open>?t2(i := None, j := None) = t(k := Some ?x)\<close> ..
qed

lemma execs_pipe:
  assumes t: "shell_table t"
  shows "execs (runcmd (PIPE l r)) t n =
    (let (xs, m) = execs (runcmd l) (t(1 := Some (PipeWrite n))) (n + 1);
         (ys, m) = execs (runcmd r) (t(0 := Some (PipeRead n))) m in (xs @ ys, m))"
proof -
  obtain i j where i: "lowest_fd t = Some i" and j: "lowest_fd (t(i := Some (PipeRead n))) = Some j"
    and ij: "3 \<le> i" "i < j" "j < 16" "t i = None" "t j = None"
    by (rule pipe_fds [OF t])
  let ?t = "t(i := Some (PipeRead n), j := Some (PipeWrite n))"
  have left: "execs (Call (SClose (int 1)) (\<lambda>_. Call (SDup (int j)) (\<lambda>_. Call (SClose (int i)) (\<lambda>_.
      Call (SClose (int j)) (\<lambda>_. runcmd l))))) ?t m = execs (runcmd l) (t(1 := Some (PipeWrite n))) m" for m
    using execs_end [OF t, of 1 j i j "runcmd l" "PipeRead n" "PipeWrite n", OF _ _ ij] ij(2)
    by (simp del: fun_upd_apply)
  have right: "execs (Call (SClose (int 0)) (\<lambda>_. Call (SDup (int i)) (\<lambda>_. Call (SClose (int i)) (\<lambda>_.
      Call (SClose (int j)) (\<lambda>_. runcmd r))))) ?t m = execs (runcmd r) (t(0 := Some (PipeRead n))) m" for m
    using execs_end [OF t, of 0 i i j "runcmd r" "PipeRead n" "PipeWrite n", OF _ _ ij]
    by (simp del: fun_upd_apply)
  have i16: "i < 16" using ij by simp
  have it: "?t i = Some (PipeRead n)" and jt: "(?t(i := None)) j = Some (PipeWrite n)" using ij by auto
  have parent: "execs (Call (SClose (int i)) (\<lambda>_. Call (SClose (int j)) (\<lambda>_.
      Call SWait (\<lambda>_. Call SWait (\<lambda>_. Exit))))) ?t m = ([], m)" for m
    unfolding execs_close [where i = i and t = ?t, OF i16 it]
      execs_close [where i = j and t = "?t(i := None)", OF ij(3) jt] by simp
  have run: "execs (runcmd (PIPE l r)) t n =
    (let (xs, m) = execs (Call (SClose (int 1)) (\<lambda>_. Call (SDup (int j)) (\<lambda>_.
          Call (SClose (int i)) (\<lambda>_. Call (SClose (int j)) (\<lambda>_. runcmd l))))) ?t (n + 1);
         (ys, m) = execs (Call (SClose (int 0)) (\<lambda>_. Call (SDup (int i)) (\<lambda>_.
          Call (SClose (int i)) (\<lambda>_. Call (SClose (int j)) (\<lambda>_. runcmd r))))) ?t m;
         (zs, m) = execs (Call (SClose (int i)) (\<lambda>_. Call (SClose (int j)) (\<lambda>_.
          Call SWait (\<lambda>_. Call SWait (\<lambda>_. Exit))))) ?t m in (xs @ ys @ zs, m))"
    unfolding runcmd.simps execs.simps(3) open_fd_lowest [OF i] open_fd_lowest [OF j] Let_def prod.case
    by (simp add: fork1_def split_def Let_def del: fun_upd_apply)
  show ?thesis unfolding run parent left right by (simp add: split_def Let_def)
qed

lemma execs_cmd:
  "cmd_ok P c \<Longrightarrow> shell_table t \<Longrightarrow> execs (runcmd c) t n = cmd_execs c t n"
proof (induction c arbitrary: t n)
  case (EXEC argv)
  then show ?case by simp
next
  case (REDIR c f mode fd)
  then have fd: "fd = 0 \<or> fd = 1" by auto
  then have "shell_table (t(nat fd := Some (Disk f mode)))" using REDIR.prems(2) by (auto intro: shell_table_upd)
  then show ?case
    unfolding execs_redirect [OF REDIR.prems(2) fd] using REDIR.IH REDIR.prems(1) by simp
next
  case (PIPE l r)
  then show ?case unfolding execs_pipe [OF PIPE.prems(2)] by (simp add: shell_table_upd split_def Let_def)
next
  case (LIST l r)
  then show ?case by (simp add: fork1_def split_def Let_def)
next
  case (BACK c)
  then show ?case by (simp add: fork1_def split_def Let_def)
qed

subsection \<open>Properties\<close>

text \<open>C34: The shell gives every program it runs the right descriptors: over all commands, with the
  standard descriptors open and two free, running the command executes the programs the grammar
  asks for, each with its redirections in place, a pipe's left side writing into the pipe and its
  right side reading from it, and no other end of a pipe left open in any of them.\<close>
theorem runcmd_descriptors:
  assumes "cmd_ok good_word c" and "shell_table t"
  shows "execs (runcmd c) t n = cmd_execs c t n"
  by (rule execs_cmd [OF assms])

definition console_table :: fdtable where
  "console_table = (\<lambda>i. if i < 3 then Some Console else None)"

lemma console_table_ok: "shell_table console_table"
  by (simp add: shell_table_def console_table_def upt_rec)

definition demo_cmd :: "string cmd" where
  "demo_cmd = PIPE (EXEC [''ls'']) (REDIR (EXEC [''wc'']) ''out'' 0x201 1)"

lemma demo_cmd_ok: "cmd_ok good_word demo_cmd"
  by (simp add: demo_cmd_def good_word_def word_char_def NUL_def sh_whitespace_def symbols_def MAXARGS_def)

theorem runcmd_descriptors_witness:
  "execs (runcmd demo_cmd) console_table 0 =
     ([([''ls''], console_table(1 := Some (PipeWrite 0))),
       ([''wc''], console_table(0 := Some (PipeRead 0), 1 := Some (Disk ''out'' 0x201)))], 1)"
  using runcmd_descriptors [OF demo_cmd_ok console_table_ok, of 0] by (simp add: demo_cmd_def Let_def)

lemma parse_printed:
  assumes "cmd_ok good_word c"
  shows "parsecmd (unparse c) = Inr c"
proof -
  have cs: "cstring (unparse c)" using assms by (rule unparse_cstring)
  then have b: "string_at (unparse c) 0 = unparse c"
    by (auto simp: string_at_def cstring_def takeWhile_eq_all_conv)
  have "rest_at (unparse c) 0 (unparse c @ [])" by (simp add: rest_at_def)
  with parseline_unparse [OF cs assms] have "reads_as (unparse c) (parseline (unparse c) 0) c []"
    by (rule reads_lineD) (simp add: at_end_def)
  then obtain c' j where p: "parseline (unparse c) 0 = Inr (c', j)"
    and c': "map_cmd (token_text (unparse c)) c' = c" and j: "rest_at (unparse c) j []"
    by (auto simp: reads_as_def)
  have "peek (unparse c) j [] = (False, j)"
    by (rule peek_at_end [OF cs j]) (simp_all add: at_end_def)
  moreover have "j = length (unparse c)" using j by (simp add: rest_at_def)
  ultimately show ?thesis
    using p c' strings_of_tokens [OF parse_ok(1) [OF cs p]] by (simp add: parsecmd_def b)
qed

text \<open>C35: The parser reads every command back from its printed form: arguments, redirections, pipes,
  lists, background commands and blocks, with the NULs that \<open>nulterminate\<close> writes into the buffer.\<close>
theorem parsecmd_unparse:
  assumes "cmd_ok good_word c"
  shows "parsecmd (unparse c) = Inr c"
  by (rule parse_printed [OF assms])

theorem parsecmd_unparse_witness:
  "unparse demo_cmd = ''(ls )|((wc )>out)'' \<and> parsecmd (unparse demo_cmd) = Inr demo_cmd"
  using parsecmd_unparse [OF demo_cmd_ok] by (simp add: demo_cmd_def)

lemma demo_parse: "parsecmd (unparse demo_cmd) = Inr demo_cmd"
  by (rule parse_printed [OF demo_cmd_ok])

text \<open>C36: Whatever the parser accepts is a well-formed command: fewer than MAXARGS arguments, so that
  \<open>argv\<close> and its terminating null fit, every word non-empty and free of blanks, symbols and NULs,
  and redirections of descriptor 0 for reading or descriptor 1 for writing only.\<close>
theorem parsecmd_wellformed:
  assumes "parsecmd s = Inr c"
  shows "cmd_ok good_word c"
proof -
  let ?b = "string_at s 0"
  have cs: "cstring ?b" by (auto simp: string_at_def cstring_def dest: set_takeWhileD)
  obtain c' j where p: "parseline ?b 0 = Inr (c', j)"
    and c: "c = map_cmd (\<lambda>(q, eq). string_at (nulterminate c' ?b) q) c'"
    using assms by (auto simp: parsecmd_def Let_def split: sum.splits prod.splits if_splits)
  note ok = parse_ok(1) [OF cs p]
  show ?thesis
    unfolding c strings_of_tokens [OF ok] cmd_ok_map by (rule cmd_ok_mono [OF ok]) (rule good_token)
qed

theorem parsecmd_wellformed_witness:
  "parsecmd (unparse demo_cmd) = Inr demo_cmd \<and> cmd_ok good_word demo_cmd"
  using parsecmd_wellformed [of "unparse demo_cmd" demo_cmd] demo_parse by simp

end
