(* ===== verification/Grep.thy ===== *)
theory Grep
  imports Ulib
begin

text \<open>
  grep.c: the matcher, and the loop that cuts the input into lines.  The patterns and texts are
  the strings their pointers point at; the buffer is the list of its first \<open>m\<close> bytes.
\<close>

subsection \<open>The matcher\<close>

function matchhere :: "string \<Rightarrow> string \<Rightarrow> bool"
  and matchstar :: "char \<Rightarrow> string \<Rightarrow> string \<Rightarrow> bool" where
  "matchhere re text =
     (if chr_at re 0 = NUL then True
      else if chr_at re 1 = CHR ''*'' then matchstar (chr_at re 0) (drop 2 re) text
      else if chr_at re 0 = CHR ''$'' \<and> chr_at re 1 = NUL then chr_at text 0 = NUL
      else if chr_at text 0 \<noteq> NUL \<and> (chr_at re 0 = CHR ''.'' \<or> chr_at re 0 = chr_at text 0)
        then matchhere (tl re) (tl text)
      else False)"
| "matchstar c re text =
     (if matchhere re text then True
      else if chr_at text 0 \<noteq> NUL \<and> (chr_at text 0 = c \<or> c = CHR ''.'')
        then matchstar c re (tl text)
      else False)"
  by pat_completeness auto
termination
  by (relation "measures [\<lambda>x. case x of Inl (re, text) \<Rightarrow> 2 * length re
        | Inr (c, re, text) \<Rightarrow> 2 * length re + 1,
      \<lambda>x. case x of Inl (re, text) \<Rightarrow> length text | Inr (c, re, text) \<Rightarrow> length text]")
    (auto simp: chr_at_def NUL_def split: if_splits)

declare matchhere.simps [simp del] matchstar.simps [simp del]

text \<open>The \<open>do\<close> loop of \<open>match\<close>.\<close>

fun match_from :: "string \<Rightarrow> string \<Rightarrow> bool" where
  "match_from re [] = matchhere re []"
| "match_from re (c # text) =
     (if matchhere re (c # text) then True
      else if c \<noteq> NUL then match_from re text else False)"

definition match :: "string \<Rightarrow> string \<Rightarrow> bool" where
  "match re text =
     (if chr_at re 0 = CHR ''^'' then matchhere (tl re) text else match_from re text)"

subsection \<open>The lines\<close>

definition GREP_BUF :: nat where "GREP_BUF = 1024"

text \<open>
  The inner loop from \<open>p\<close> on: what is written, and the rest that has no newline any more.
\<close>

function grep_scan :: "string \<Rightarrow> string \<Rightarrow> string \<times> string" where
  "grep_scan pattern p =
     (case strchr p (CHR 0x0A) of
        None \<Rightarrow> ([], p)
      | Some i \<Rightarrow> (let (out, rest) = grep_scan pattern (drop (Suc i) p)
          in ((if match pattern (take i p) then take (Suc i) p else []) @ out, rest)))"
  by pat_completeness auto
termination
proof (relation "measure (length \<circ> snd)")
  show "((pattern, drop (Suc i) p), pattern, p) \<in> measure (length \<circ> snd)"
    if "strchr p (CHR 0x0A) = Some i" for pattern p i
    using that by (cases p) auto
qed simp

declare grep_scan.simps [simp del]

text \<open>
  The outer loop.  A buffer without a newline (\<open>p == buf\<close>) is emptied, otherwise the rest is
  moved to its front.
\<close>

function grep_loop :: "string \<Rightarrow> string \<Rightarrow> string option list \<Rightarrow> string" where
  "grep_loop pattern b inp =
     (case uread (GREP_BUF - length b - 1) inp of
        (None, inp) \<Rightarrow> []
      | (Some r, inp) \<Rightarrow>
          if r = [] then []
          else (let (out, p) = grep_scan pattern (b @ r)
            in out @ grep_loop pattern (if length p = length (b @ r) then [] else p) inp))"
  by pat_completeness auto
termination
  by (relation "measure (\<lambda>(pattern, b, inp). input_size inp)")
    (auto dest!: sym [of "(Some _, _)"] uread_size)

declare grep_loop.simps [simp del]

definition grep :: "string \<Rightarrow> string option list \<Rightarrow> string" where
  "grep pattern inp = grep_loop pattern [] inp"

text \<open>
  \<open>main\<close>: \<open>argv\<close>, the standard input and what \<open>open\<close> gives for a name (\<open>None\<close>: it fails).  The
  result is what is written to which descriptor.
\<close>

primrec grep_files ::
  "string \<Rightarrow> (string \<Rightarrow> string option list option) \<Rightarrow> string list \<Rightarrow> (nat \<times> string) list" where
  "grep_files pattern files [] = []"
| "grep_files pattern files (f # fs) =
     (case files f of
        None \<Rightarrow> [(1, ''grep: cannot open '' @ f @ [CHR 0x0A])]
      | Some inp \<Rightarrow> (1, grep pattern inp) # grep_files pattern files fs)"

definition grep_main ::
  "string list \<Rightarrow> string option list \<Rightarrow> (string \<Rightarrow> string option list option) \<Rightarrow> (nat \<times> string) list" where
  "grep_main argv stdin files =
     (if length argv \<le> 1 then [(2, ''usage: grep pattern [file ...]'' @ [CHR 0x0A])]
      else if length argv \<le> 2 then [(1, grep (argv ! 1) stdin)]
      else grep_files (argv ! 1) files (drop 2 argv))"

subsection \<open>Patterns as regular expressions\<close>

text \<open>What one element of a pattern stands for: a character, or any number of them.\<close>

datatype atom = Any | Lit char

datatype item = One atom | Many atom

fun matches_atom :: "atom \<Rightarrow> char \<Rightarrow> bool" where
  "matches_atom Any c = True"
| "matches_atom (Lit a) c = (a = c)"

text \<open>The words of a sequence of elements.\<close>

inductive in_items :: "item list \<Rightarrow> string \<Rightarrow> bool" where
  empty: "in_items [] []"
| one: "matches_atom a c \<Longrightarrow> in_items r w \<Longrightarrow> in_items (One a # r) (c # w)"
| many_stop: "in_items r w \<Longrightarrow> in_items (Many a # r) w"
| many_go: "matches_atom a c \<Longrightarrow> in_items (Many a # r) w \<Longrightarrow> in_items (Many a # r) (c # w)"

inductive_cases in_items_empty [elim!]: "in_items [] w"
inductive_cases in_items_one [elim]: "in_items (One a # r) w"
inductive_simps in_items_many: "in_items (Many a # r) w"

definition atom_of :: "char \<Rightarrow> atom" where
  "atom_of c = (if c = CHR ''.'' then Any else Lit c)"

text \<open>
  How a pattern is read: a character before a star may occur any number of times, a dollar sign
  at the end is the end of the text.  The flag says whether the end of the text is required.
\<close>

fun items_of :: "string \<Rightarrow> item list \<times> bool" where
  "items_of [] = ([], False)"
| "items_of [c] = (if c = CHR ''$'' then ([], True) else ([One (atom_of c)], False))"
| "items_of (c # d # re) =
     (if d = CHR ''*'' then (let (r, e) = items_of re in (Many (atom_of c) # r, e))
      else (let (r, e) = items_of (d # re) in (One (atom_of c) # r, e)))"

text \<open>A text matches when a part of it is a word of the pattern, where the anchors allow it.\<close>

definition here_spec :: "string \<Rightarrow> string \<Rightarrow> bool" where
  "here_spec re text \<longleftrightarrow>
     (\<exists>v w. text = v @ w \<and> in_items (fst (items_of re)) v \<and> (if snd (items_of re) then w = [] else True))"

definition match_spec :: "string \<Rightarrow> string \<Rightarrow> bool" where
  "match_spec re text \<longleftrightarrow>
     (if re \<noteq> [] \<and> hd re = CHR ''^'' then here_spec (tl re) text
      else (\<exists>u t. text = u @ t \<and> here_spec re t))"

lemma here_spec_unfold:
  "items_of re = (r, e) \<Longrightarrow>
    here_spec re text \<longleftrightarrow> (\<exists>v w. text = v @ w \<and> in_items r v \<and> (if e then w = [] else True))"
  by (simp add: here_spec_def)

lemma here_many:
  "(\<exists>v w. text = v @ w \<and> in_items (Many a # r) v \<and> Q w) \<longleftrightarrow>
   (\<exists>v w. text = v @ w \<and> in_items r v \<and> Q w) \<or>
   (text \<noteq> [] \<and> matches_atom a (hd text) \<and>
     (\<exists>v w. tl text = v @ w \<and> in_items (Many a # r) v \<and> Q w))" (is "?L \<longleftrightarrow> ?S \<or> ?G")
proof
  assume ?L
  then obtain v w where t: "text = v @ w" and v: "in_items (Many a # r) v" and Q: "Q w" by auto
  from v show "?S \<or> ?G"
    by (cases rule: in_items.cases) (use t Q in \<open>auto\<close>)
next
  assume "?S \<or> ?G"
  then show ?L
  proof
    assume ?S
    then show ?L by (blast intro: in_items.many_stop)
  next
    assume ?G
    then obtain v w where t: "text \<noteq> []" "tl text = v @ w" and m: "matches_atom a (hd text)"
      and v: "in_items (Many a # r) v" and Q: "Q w" by auto
    from t have "text = (hd text # v) @ w" by (cases "text") auto
    with in_items.many_go [OF m v] Q show ?L by blast
  qed
qed

lemma here_first:
  "(\<exists>v w. text = v @ w \<and> in_items (One a # r) v \<and> Q w) \<longleftrightarrow>
   text \<noteq> [] \<and> matches_atom a (hd text) \<and> (\<exists>v w. tl text = v @ w \<and> in_items r v \<and> Q w)"
  (is "?L \<longleftrightarrow> ?R")
proof
  assume ?L
  then obtain v w where t: "text = v @ w" and v: "in_items (One a # r) v" and Q: "Q w" by auto
  from v show ?R
    by (cases rule: in_items.cases) (use t Q in \<open>auto\<close>)
next
  assume ?R
  then obtain v w where t: "text \<noteq> []" "tl text = v @ w" and m: "matches_atom a (hd text)"
    and v: "in_items r v" and Q: "Q w" by auto
  from t have "text = (hd text # v) @ w" by (cases "text") auto
  with in_items.one [OF m v] Q show ?L by blast
qed

lemma here_star:
  "here_spec (c # CHR ''*'' # re) text \<longleftrightarrow>
     here_spec re text \<or>
     (text \<noteq> [] \<and> matches_atom (atom_of c) (hd text) \<and> here_spec (c # CHR ''*'' # re) (tl text))"
proof -
  obtain r e where re: "items_of re = (r, e)" by (cases "items_of re")
  then have "items_of (c # CHR ''*'' # re) = (Many (atom_of c) # r, e)" by simp
  note unfold = here_spec_unfold [OF re] here_spec_unfold [OF this]
  show ?thesis unfolding unfold by (rule here_many)
qed

lemma here_one:
  assumes "d \<noteq> CHR ''*''"
  shows "here_spec (c # d # re) text \<longleftrightarrow>
    text \<noteq> [] \<and> matches_atom (atom_of c) (hd text) \<and> here_spec (d # re) (tl text)"
proof -
  obtain r e where re: "items_of (d # re) = (r, e)" by (cases "items_of (d # re)")
  with assms have "items_of (c # d # re) = (One (atom_of c) # r, e)" by simp
  note unfold = here_spec_unfold [OF re] here_spec_unfold [OF this]
  show ?thesis unfolding unfold by (rule here_first)
qed

lemma here_nil: "here_spec [] text"
  by (auto simp: here_spec_def intro: in_items.empty)

lemma here_last:
  "here_spec [c] text \<longleftrightarrow>
     (if c = CHR ''$'' then text = [] else text \<noteq> [] \<and> matches_atom (atom_of c) (hd text))"
proof (cases "c = CHR ''$''")
  case True
  then have "items_of [c] = ([], True)" by simp
  from here_spec_unfold [OF this] show ?thesis
    using True by (auto intro: in_items.empty)
next
  case False
  then have c: "items_of [c] = ([One (atom_of c)], False)" by simp
  show ?thesis
    unfolding here_spec_unfold [OF c] here_first using False by (auto intro: in_items.empty)
qed

lemma atom_of_matches: "matches_atom (atom_of c) a \<longleftrightarrow> c = CHR ''.'' \<or> c = a"
  by (auto simp: atom_of_def)

text \<open>The two functions of the matcher decide the two halves of the specification.\<close>

lemma matchhere_spec:
  "cstring re \<Longrightarrow> cstring text \<Longrightarrow> matchhere re text = here_spec re text"
  "c \<noteq> NUL \<Longrightarrow> cstring re \<Longrightarrow> cstring text \<Longrightarrow>
     matchstar c re text = here_spec (c # CHR ''*'' # re) text"
proof (induction re "text" and c re "text" rule: matchhere_matchstar.induct)
  case (1 re "text")
  show ?case
  proof (cases re)
    case Nil
    then show ?thesis by (simp add: matchhere.simps here_nil)
  next
    case (Cons c re')
    show ?thesis
    proof (cases re')
      case re': Nil
      show ?thesis
        using 1 Cons re' matchhere.simps [of re "text"]
        by (cases "text") (auto simp: here_last here_nil atom_of_matches NUL_def)
    next
      case re': (Cons d re2)
      show ?thesis
        using 1 Cons re' matchhere.simps [of re "text"]
        by (cases "text") (auto simp: here_one atom_of_matches)
    qed
  qed
next
  case (2 c re "text")
  show ?case
    using 2 matchstar.simps [of c re "text"] here_star [of c re "text"]
    by (cases "text") (auto simp: atom_of_matches)
qed

lemma match_from_spec:
  assumes "cstring re" and "cstring t"
  shows "match_from re t \<longleftrightarrow> (\<exists>u v. t = u @ v \<and> here_spec re v)"
  using assms(2)
proof (induction t)
  case Nil
  then show ?case using assms(1) by (simp add: matchhere_spec)
next
  case (Cons c t)
  have "(\<exists>u v. c # t = u @ v \<and> here_spec re v) \<longleftrightarrow>
      here_spec re (c # t) \<or> (\<exists>u v. t = u @ v \<and> here_spec re v)"
    by (auto simp: Cons_eq_append_conv)
  moreover have "matchhere re (c # t) = here_spec re (c # t)"
    using matchhere_spec(1) [OF assms(1) Cons.prems] .
  ultimately show ?case using Cons by auto
qed

subsection \<open>The lines of the input\<close>

text \<open>The lines that end with a newline, and what of them \<open>grep\<close> prints.\<close>

definition complete_lines :: "string \<Rightarrow> string list" where
  "complete_lines s = butlast (split_on (CHR 0x0A) s)"

definition matching_lines :: "string \<Rightarrow> string \<Rightarrow> string" where
  "matching_lines pattern s =
     concat (map (\<lambda>l. l @ [CHR 0x0A]) (filter (match pattern) (complete_lines s)))"

lemma grep_scan_lines:
  assumes "cstring s"
  shows "grep_scan pattern s = (matching_lines pattern s, last (split_on (CHR 0x0A) s))"
  using assms
proof (induction pattern s rule: grep_scan.induct)
  case (1 pattern p)
  show ?case
  proof (cases "strchr p (CHR 0x0A)")
    case None
    then have "split_on (CHR 0x0A) p = [p]" using 1(2) by (simp add: strchr_None split_on_none)
    then show ?thesis
      using None by (simp add: grep_scan.simps [of pattern p] matching_lines_def complete_lines_def)
  next
    case (Some i)
    note sp = split_on_strchr [OF 1(2) Some]
    have ih: "grep_scan pattern (drop (Suc i) p)
        = (matching_lines pattern (drop (Suc i) p), last (split_on (CHR 0x0A) (drop (Suc i) p)))"
      using 1(1) [OF Some] 1(2) by simp
    have i: "i < length p" "p ! i = CHR 0x0A" using strchr_Some [OF 1(2) Some] by auto
    then have line: "take (Suc i) p = take i p @ [CHR 0x0A]"
      by (simp add: take_Suc_conv_app_nth)
    show ?thesis
      using Some ih
      by (simp add: grep_scan.simps [of pattern p] sp matching_lines_def complete_lines_def line)
  qed
qed

lemma matching_lines_rest:
  "matching_lines pattern (s @ t)
    = matching_lines pattern s @ matching_lines pattern (last (split_on (CHR 0x0A) s) @ t)"
  by (simp add: matching_lines_def complete_lines_def split_on_app [of _ s t] butlast_append)

text \<open>
  A file whose lines are shorter than the buffer, its last piece included: no line is lost at the
  buffer's end.
\<close>

definition short_lines :: "string \<Rightarrow> bool" where
  "short_lines s \<longleftrightarrow> list_all (\<lambda>l. length l < GREP_BUF - 1) (split_on (CHR 0x0A) s)"

lemma short_lines_rest:
  "short_lines (s @ t) \<Longrightarrow> short_lines (last (split_on (CHR 0x0A) s) @ t)"
  by (simp add: short_lines_def split_on_app [of _ s t])

lemma short_lines_prefix:
  "short_lines (s @ t) \<Longrightarrow> CHR 0x0A \<notin> set s \<Longrightarrow> length s < GREP_BUF - 1"
  by (simp add: short_lines_def split_on_prefix)

lemma grep_loop_end: "grep_loop pattern b [] = []"
  by (simp add: grep_loop.simps)

lemma matching_lines_none: "CHR 0x0A \<notin> set s \<Longrightarrow> matching_lines pattern s = []"
  by (simp add: matching_lines_def complete_lines_def split_on_none)

lemma grep_loop_file:
  assumes "cstring (b @ d)" and "CHR 0x0A \<notin> set b" and "short_lines (b @ d)"
  shows "grep_loop pattern b [Some d] = matching_lines pattern (b @ d)"
  using assms
proof (induction "length d" arbitrary: b d rule: less_induct)
  case less
  define k where "k = GREP_BUF - length b - 1"
  have k: "0 < k" and bk: "length b + k = GREP_BUF - 1"
    using short_lines_prefix [OF less.prems(3,2)] by (auto simp: k_def GREP_BUF_def)
  let ?r = "take k d"
  have cs: "cstring (b @ ?r)"
    using less.prems(1) by (auto simp: cstring_def dest: in_set_takeD)
  note scan = grep_scan_lines [OF cs, of pattern]
  let ?p = "last (split_on (CHR 0x0A) (b @ ?r))"
  note loop = grep_loop.simps [of pattern b "[Some d]", folded k_def]
  show ?case
  proof (cases "d = []")
    case True
    then show ?thesis using less.prems(2) loop by (simp add: matching_lines_none)
  next
    case d: False
    show ?thesis
    proof (cases "length d \<le> k")
      case True
      then show ?thesis using d loop scan by (simp add: grep_loop_end)
    next
      case False
      have whole: "(b @ ?r) @ drop k d = b @ d" by simp
      have "CHR 0x0A \<in> set (b @ ?r)"
        using short_lines_prefix [of "b @ ?r" "drop k d"] less.prems(3) False bk by fastforce
      then have p: "length ?p \<noteq> length (b @ ?r)"
        using split_on_last_length(2) [of "CHR 0x0A" "b @ ?r"] by simp
      have "cstring ?p" using cs split_on_last_set [of "CHR 0x0A" "b @ ?r"] by (auto simp: cstring_def)
      then have "grep_loop pattern ?p [Some (drop k d)] = matching_lines pattern (?p @ drop k d)"
        using less.hyps [of "drop k d" ?p] k False less.prems(1) split_on_last
          short_lines_rest [of "b @ ?r" "drop k d"] less.prems(3) by simp
      then have "grep_loop pattern b [Some d]
          = matching_lines pattern (b @ ?r) @ matching_lines pattern (?p @ drop k d)"
        using loop scan p d k False by simp
      also have "\<dots> = matching_lines pattern (b @ d)"
        using matching_lines_rest [of pattern "b @ ?r" "drop k d"] by simp
      finally show ?thesis .
    qed
  qed
qed

text \<open>A read that brings no newline to an empty buffer is forgotten.\<close>

lemma grep_loop_forgets:
  assumes "cstring r" and "CHR 0x0A \<notin> set r" and "r \<noteq> []" and "length r < GREP_BUF"
  shows "grep_loop pattern [] (Some r # inp) = grep_loop pattern [] inp"
proof -
  have "grep_scan pattern r = ([], r)"
    using grep_scan_lines [OF assms(1)] assms(2) by (simp add: matching_lines_none split_on_none)
  then show ?thesis
    using assms by (auto simp: grep_loop.simps [of pattern "[]" "Some r # inp"])
qed

end
