(* ===== verification/Utils.thy ===== *)
theory Utils
  imports Userprog
begin

text \<open>
  The small user programs: echo.c, cat.c, wc.c, kill.c, ln.c, mkdir.c, rm.c, zombie.c and init.c.
  Their \<open>argv\<close> is a list with the program's name first.
\<close>

subsection \<open>echo.c, kill.c, ln.c, mkdir.c, rm.c, zombie.c\<close>

text \<open>\<open>echo\<close>: what it prints.\<close>

fun echo_words :: "string list \<Rightarrow> string" where
  "echo_words [] = []"
| "echo_words [a] = a @ newline"
| "echo_words (a # b # as) = a @ '' '' @ echo_words (b # as)"

definition echo_main :: "string list \<Rightarrow> prog" where
  "echo_main argv = puts 1 (echo_words (tl argv)) Exit"

primrec kill_loop :: "string list \<Rightarrow> prog" where
  "kill_loop [] = Exit"
| "kill_loop (a # as) = Call (SKill (atoi a)) (\<lambda>_. kill_loop as)"

definition kill_main :: "string list \<Rightarrow> prog" where
  "kill_main argv =
     (if length argv < 2 then puts 2 (''usage: kill pid...'' @ newline) Exit
      else kill_loop (tl argv))"

definition ln_main :: "string list \<Rightarrow> prog" where
  "ln_main argv =
     (if length argv \<noteq> 3 then puts 2 (''Usage: ln old new'' @ newline) Exit
      else Call (SLink (argv ! 1) (argv ! 2)) (\<lambda>r.
        if r < 0 then puts 2 (''link '' @ argv ! 1 @ '' '' @ argv ! 2 @ '': failed'' @ newline) Exit
        else Exit))"

text \<open>The loops stop at the first name that fails.\<close>

primrec mkdir_loop :: "string list \<Rightarrow> prog" where
  "mkdir_loop [] = Exit"
| "mkdir_loop (a # as) = Call (SMkdir a) (\<lambda>r.
     if r < 0 then puts 2 (''mkdir: '' @ a @ '' failed to create'' @ newline) Exit else mkdir_loop as)"

definition mkdir_main :: "string list \<Rightarrow> prog" where
  "mkdir_main argv =
     (if length argv < 2 then puts 2 (''Usage: mkdir files...'' @ newline) Exit
      else mkdir_loop (tl argv))"

primrec rm_loop :: "string list \<Rightarrow> prog" where
  "rm_loop [] = Exit"
| "rm_loop (a # as) = Call (SUnlink a) (\<lambda>r.
     if r < 0 then puts 2 (''rm: '' @ a @ '' failed to delete'' @ newline) Exit else rm_loop as)"

definition rm_main :: "string list \<Rightarrow> prog" where
  "rm_main argv =
     (if length argv < 2 then puts 2 (''Usage: rm files...'' @ newline) Exit
      else rm_loop (tl argv))"

definition zombie_main :: prog where
  "zombie_main = Call SFork (\<lambda>r. if r > 0 then Call (SSleep 5) (\<lambda>_. Exit) else Exit)"

subsection \<open>cat.c\<close>

text \<open>
  \<open>cat\<close>: the text it has written when its loop ends, and whether it goes on; \<open>accepts\<close> says whether
  \<open>write\<close> takes all the bytes.  What it prints on an error is part of its output.
\<close>

function cat :: "(string \<Rightarrow> bool) \<Rightarrow> string option list \<Rightarrow> string \<times> bool" where
  "cat accepts inp =
     (case uread 512 inp of
        (None, inp) \<Rightarrow> (''cat: read error'' @ newline, False)
      | (Some r, inp) \<Rightarrow>
          if r = [] then ([], True)
          else if \<not> accepts r then (''cat: write error'' @ newline, False)
          else (let (out, ok) = cat accepts inp in (r @ out, ok)))"
  by pat_completeness auto
termination
  by (relation "measure (\<lambda>(accepts, inp). input_size inp)") (auto dest!: sym [of "(Some _, _)"] uread_size)

declare cat.simps [simp del]

primrec cat_files :: "(string \<Rightarrow> bool) \<Rightarrow> (string \<Rightarrow> string option list option) \<Rightarrow> string list \<Rightarrow> string" where
  "cat_files accepts files [] = []"
| "cat_files accepts files (f # fs) =
     (case files f of
        None \<Rightarrow> ''cat: cannot open '' @ f @ newline
      | Some inp \<Rightarrow> (let (out, ok) = cat accepts inp in
          out @ (if ok then cat_files accepts files fs else [])))"

definition cat_main ::
  "(string \<Rightarrow> bool) \<Rightarrow> string list \<Rightarrow> string option list \<Rightarrow> (string \<Rightarrow> string option list option) \<Rightarrow> string" where
  "cat_main accepts argv stdin files =
     (if length argv \<le> 1 then fst (cat accepts stdin) else cat_files accepts files (tl argv))"

subsection \<open>wc.c\<close>

record counts =
  wc_l :: uint
  wc_w :: uint
  wc_c :: uint
  inword :: bool

definition wc_char :: "char \<Rightarrow> counts \<Rightarrow> counts" where
  "wc_char ch s =
     (let s = s\<lparr>wc_c := wc_c s + 1\<rparr>;
          s = (if ch = CHR 0x0A then s\<lparr>wc_l := wc_l s + 1\<rparr> else s)
      in if strchr [CHR '' '', CHR 0x0D, CHR 0x09, CHR 0x0A, CHR 0x0B] ch \<noteq> None then s\<lparr>inword := False\<rparr>
         else if \<not> inword s then s\<lparr>wc_w := wc_w s + 1, inword := True\<rparr> else s)"

text \<open>\<open>None\<close> if a read fails.\<close>

function wc_loop :: "counts \<Rightarrow> string option list \<Rightarrow> counts option" where
  "wc_loop s inp =
     (case uread 512 inp of
        (None, inp) \<Rightarrow> None
      | (Some r, inp) \<Rightarrow> if r = [] then Some s else wc_loop (fold wc_char r s) inp)"
  by pat_completeness auto
termination
  by (relation "measure (\<lambda>(s, inp). input_size inp)") (auto dest!: sym [of "(Some _, _)"] uread_size)

declare wc_loop.simps [simp del]

definition wc :: "string option list \<Rightarrow> string \<Rightarrow> string option \<times> bool" where
  "wc inp name =
     (case wc_loop \<lparr>wc_l = 0, wc_w = 0, wc_c = 0, inword = False\<rparr> inp of
        None \<Rightarrow> (Some (''wc: read error'' @ newline), False)
      | Some s \<Rightarrow> (uprintf (''%d %d %d %s'' @ newline)
          [UWord (wc_l s), UWord (wc_w s), UWord (wc_c s), UStr (Some name)], True))"

primrec wc_files :: "(string \<Rightarrow> string option list option) \<Rightarrow> string list \<Rightarrow> string option" where
  "wc_files files [] = Some []"
| "wc_files files (f # fs) =
     (case files f of
        None \<Rightarrow> Some (''wc: cannot open '' @ f @ newline)
      | Some inp \<Rightarrow> (let (out, ok) = wc inp f in
          if ok then Option.bind out (\<lambda>o1. map_option (\<lambda>o2. o1 @ o2) (wc_files files fs)) else out))"

definition wc_main ::
  "string list \<Rightarrow> string option list \<Rightarrow> (string \<Rightarrow> string option list option) \<Rightarrow> string option" where
  "wc_main argv stdin files =
     (if length argv \<le> 1 then fst (wc stdin []) else wc_files files (tl argv))"

subsection \<open>init.c\<close>

text \<open>
  \<open>init\<close> loops for ever; the tree unfolds \<open>n\<close> rounds of its outer loop.  The inner loop waits until
  the shell of this round is gone: \<open>waits\<close> is how often \<open>wait\<close> may return something else.
\<close>

primrec init_wait :: "nat \<Rightarrow> int \<Rightarrow> prog \<Rightarrow> prog" where
  "init_wait 0 pid k = k"
| "init_wait (Suc waits) pid k = Call SWait (\<lambda>wpid.
     if wpid \<ge> 0 \<and> wpid \<noteq> pid then puts 1 (''zombie!'' @ newline) (init_wait waits pid k) else k)"

primrec init_loop :: "nat \<Rightarrow> nat \<Rightarrow> prog" where
  "init_loop waits 0 = Exit"
| "init_loop waits (Suc n) = puts 1 (''init: starting sh'' @ newline) (Call SFork (\<lambda>pid.
     if pid < 0 then puts 1 (''init: fork failed'' @ newline) Exit
     else if pid = 0 then Call (SExec ''sh'' [''sh'']) (\<lambda>_. puts 1 (''init: exec sh failed'' @ newline) Exit)
     else init_wait waits pid (init_loop waits n)))"

definition init_main :: "nat \<Rightarrow> nat \<Rightarrow> prog" where
  "init_main waits n = Call (SOpen ''console'' 2) (\<lambda>fd.
     let rest = Call (SDup 0) (\<lambda>_. Call (SDup 0) (\<lambda>_. init_loop waits n)) in
     if fd < 0 then Call (SMknod ''console'' 1 1) (\<lambda>_. Call (SOpen ''console'' 2) (\<lambda>_. rest))
     else rest)"

subsection \<open>ls.c\<close>

text \<open>
  \<open>fmtname\<close>: the name after the last slash, with blanks up to \<open>DIRSIZ\<close>.
\<close>

definition fmtname :: "string \<Rightarrow> string" where
  "fmtname path =
     (let p = last (split_on (CHR ''/'') path) in
      if length p \<ge> 14 then p else p @ replicate (14 - length p) (CHR '' ''))"

text \<open>
  \<open>ls\<close>: what is open, its status and its directory entries are functions of the name; \<open>None\<close> is a
  call that fails.  The name of an entry has \<open>DIRSIZ\<close> bytes; its string ends at the first NUL.
\<close>

record fstatus =
  st_type :: nat
  st_ino :: nat
  st_size :: nat

definition ls_line :: "string \<Rightarrow> fstatus \<Rightarrow> string option" where
  "ls_line path st = uprintf (''%s %d %d %d'' @ newline)
     [UStr (Some (fmtname path)), UWord (word_of_nat (st_type st)), UWord (word_of_nat (st_ino st)),
      UWord (word_of_nat (st_size st))]"

primrec ls_entries ::
  "(string \<Rightarrow> fstatus option) \<Rightarrow> string \<Rightarrow> (nat \<times> string) list \<Rightarrow> string option" where
  "ls_entries stat_of path [] = Some []"
| "ls_entries stat_of path (de # des) =
     (if fst de = 0 then ls_entries stat_of path des
      else (let buf = path @ ''/'' @ takeWhile (\<lambda>c. c \<noteq> NUL) (take 14 (snd de)) in
        Option.bind (case stat_of buf of
            None \<Rightarrow> Some (''ls: cannot stat '' @ buf @ newline)
          | Some st \<Rightarrow> ls_line buf st) (\<lambda>o1.
        map_option (\<lambda>o2. o1 @ o2) (ls_entries stat_of path des))))"

definition ls :: "(string \<Rightarrow> bool) \<Rightarrow> (string \<Rightarrow> fstatus option) \<Rightarrow> (string \<Rightarrow> (nat \<times> string) list)
    \<Rightarrow> string \<Rightarrow> string option" where
  "ls opens stat_of dir_of path =
     (if \<not> opens path then Some (''ls: cannot open '' @ path @ newline)
      else (case stat_of path of
          None \<Rightarrow> Some (''ls: cannot stat '' @ path @ newline)
        | Some st \<Rightarrow>
            if st_type st = 2 then ls_line path st
            else if st_type st = 1 then
              (if length path + 1 + 14 + 1 > 512 then Some (''ls: path too long'' @ newline)
               else ls_entries stat_of path (dir_of path))
            else Some []))"

end
