(* ===== verification/Text_Claims.thy ===== *)
theory Text_Claims
  imports Grep Utils
begin

text \<open>The text utilities: the matcher of grep, its lines, the counts of wc, and numbers as text.\<close>

subsection \<open>printf and atoi\<close>

lemma uprintint_parts:
  obtains ds where "uprintint w 10 True = (if sint w < 0 then ''-'' else []) @ ds"
    and "ds = map (\<lambda>d. hex_digits ! d) (rev (digits_of (unat (if sint w < 0 then - w else w)) 10))"
  by (auto simp: uprintint_def Let_def rev_map)

lemma atoi_printed:
  "atoi_loop 0 (map (\<lambda>d. hex_digits ! d) (rev (digits_of (unat w) 10))) = w"
proof -
  have "list_all (\<lambda>d. d < 10) (rev (digits_of (unat w) 10))"
    using digits_of_less [of 10] by (auto simp: list_all_iff)
  then show ?thesis by (simp add: atoi_digits digits_of_value)
qed

text \<open>C39: Numbers survive printing and reading: \<open>printf(''%d'')\<close> prints every \<open>int\<close>, the least one
  included, as a minus sign for a negative number and then decimal digits without a leading zero,
  and \<open>atoi\<close> of these digits is the number's magnitude as an \<open>int\<close>.\<close>
theorem printf_atoi:
  "\<exists>ds. uprintf ''%d'' [UWord w] = Some ((if sint w < 0 then ''-'' else []) @ ds)
     \<and> atoi ds = sint (if sint w < 0 then - w else w)
     \<and> list_all is_digit ds \<and> ds \<noteq> [] \<and> (hd ds = CHR ''0'') = (w = 0)"
proof -
  let ?m = "if sint w < 0 then - w else w"
  let ?n = "rev (digits_of (unat ?m) 10)"
  obtain ds where p: "uprintint w 10 True = (if sint w < 0 then ''-'' else []) @ ds"
    and ds: "ds = map (\<lambda>d. hex_digits ! d) ?n" by (rule uprintint_parts)
  have small: "list_all (\<lambda>d. d < 10) ?n"
    using digits_of_less [of 10] by (auto simp: list_all_iff)
  have "list_all is_digit ds"
    using small by (auto simp: ds list_all_iff hex_digit_is_digit)
  moreover have "atoi ds = sint ?m" by (simp only: atoi_def ds atoi_printed)
  moreover have "(hd ds = CHR ''0'') = (w = 0)"
  proof -
    have "hd ds = hex_digits ! last (digits_of (unat ?m) 10)"
      by (simp add: ds hd_map hd_rev del: list.map_comp)
    moreover have "last (digits_of (unat ?m) 10) < 10"
      using digits_of_less [of 10 "last (digits_of (unat ?m) 10)" "unat ?m"]
        last_in_set [of "digits_of (unat ?m) 10"] by simp
    then have "(hex_digits ! last (digits_of (unat ?m) 10) = CHR ''0'') = (last (digits_of (unat ?m) 10) = 0)"
      by (auto simp: hex_digits_def less_Suc_eq numeral_eq_Suc)
    moreover have "(last (digits_of (unat ?m) 10) = 0) = (unat ?m = 0)"
      using digits_of_lead [of 10 "unat ?m"] by (cases "unat ?m = 0") (simp_all add: digits_of.simps [of 0])
    moreover have "(unat ?m = 0) = (w = 0)" by (auto simp: unat_eq_0)
    ultimately show ?thesis by simp
  qed
  ultimately show ?thesis using p by (intro exI [of _ ds]) (simp add: ds)
qed

subsection \<open>grep\<close>

text \<open>C37: The matcher is right: for every pattern and text, \<open>match\<close> returns and says yes exactly
  if a part of the text is a word of the regular expression that the pattern denotes, at its
  start if the pattern begins with a caret and up to its end if it ends with a dollar sign.\<close>
theorem match_regular:
  assumes "cstring re" and "cstring t"
  shows "match re t = match_spec re t"
proof (cases re)
  case Nil
  then show ?thesis
    using match_from_spec [OF assms] by (simp add: match_def match_spec_def NUL_def)
next
  case (Cons c re')
  then show ?thesis
    using assms match_from_spec [OF assms] by (auto simp: match_def match_spec_def matchhere_spec)
qed

theorem match_regular_witness:
  "match ''^a.*b$'' ''axyb'' \<and> match_spec ''^a.*b$'' ''axyb'' \<and> \<not> match_spec ''^a.*b$'' ''caxyb''"
proof -
  have "match ''^a.*b$'' ''axyb''" "\<not> match ''^a.*b$'' ''caxyb''"
    by (simp_all add: match_def matchhere.simps matchstar.simps NUL_def)
  then show ?thesis
    using match_regular [of "''^a.*b$''" "''axyb''"] match_regular [of "''^a.*b$''" "''caxyb''"]
    by (simp add: NUL_def)
qed

text \<open>C40: \<open>grep\<close> on a file prints exactly the lines that match, in their order, whatever the lines
  that the end of its buffer cuts, if the lines are shorter than the buffer.\<close>
theorem grep_prints_matches:
  assumes "cstring d" and "short_lines d"
  shows "grep pattern [Some d] = matching_lines pattern d"
  using grep_loop_file [of "[]" d pattern] assms by (simp add: grep_def)

definition demo_text :: string where
  "demo_text = ''one'' @ newline @ ''two'' @ newline"

theorem grep_prints_matches_witness:
  "grep ''w'' [Some demo_text] = ''two'' @ newline"
proof -
  have "cstring demo_text" "short_lines demo_text"
    by (simp_all add: demo_text_def short_lines_def GREP_BUF_def NUL_def)
  from grep_prints_matches [OF this, of "''w''"] show ?thesis
    by (simp add: demo_text_def matching_lines_def complete_lines_def match_def matchhere.simps NUL_def)
qed

text \<open>
  On a pipe the loop loses text: a read that brings no newline is forgotten, so a line that
  arrives in two pieces is cut.
\<close>

lemma grep_loses_partial_line:
  assumes "cstring r" and "CHR 0x0A \<notin> set r" and "r \<noteq> []" and "length r < GREP_BUF"
  shows "grep pattern (Some r # inp) = grep pattern inp"
  unfolding grep_def by (rule grep_loop_forgets [OF assms])

subsection \<open>wc\<close>

definition blank :: "char \<Rightarrow> bool" where
  "blank c \<longleftrightarrow> c \<in> {CHR '' '', CHR 0x0D, CHR 0x09, CHR 0x0A, CHR 0x0B}"

text \<open>The words of a text: its longest runs without white space.\<close>

function words_of :: "string \<Rightarrow> string list" where
  "words_of [] = []"
| "words_of (c # s) =
     (if blank c then words_of s
      else (c # takeWhile (\<lambda>c. \<not> blank c) s) # words_of (dropWhile (\<lambda>c. \<not> blank c) s))"
  by pat_completeness auto
termination
  by (relation "measure length") (auto simp: le_imp_less_Suc length_dropWhile_le)

lemma blank_strchr:
  "strchr [CHR '' '', CHR 0x0D, CHR 0x09, CHR 0x0A, CHR 0x0B] c \<noteq> None \<longleftrightarrow> blank c"
  by (subst strchr_None) (auto simp: blank_def NUL_def)

lemma wc_char_fields:
  "wc_char c st =
     \<lparr>wc_l = wc_l st + (if c = CHR 0x0A then 1 else 0),
      wc_w = wc_w st + (if blank c \<or> inword st then 0 else 1),
      wc_c = wc_c st + 1, inword = (\<not> blank c)\<rparr>"
  by (cases st) (auto simp: wc_char_def Let_def blank_strchr simp del: not_None_eq)

lemma blank_newline: "blank (CHR 0x0A)"
  by (simp add: blank_def)

lemma wc_chars:
  "fold wc_char s st =
     \<lparr>wc_l = wc_l st + word_of_nat (count_list s (CHR 0x0A)),
      wc_w = wc_w st + word_of_nat (length (words_of (if inword st then dropWhile (\<lambda>c. \<not> blank c) s else s))),
      wc_c = wc_c st + word_of_nat (length s),
      inword = (if s = [] then inword st else \<not> blank (last s))\<rparr>"
proof (induction s arbitrary: st)
  case Nil
  then show ?case by simp
next
  case (Cons c s)
  have "fold wc_char (c # s) st = fold wc_char s (wc_char c st)" by simp
  also note Cons.IH [of "wc_char c st"]
  finally show ?case
    unfolding wc_char_fields [of c st]
    by (cases "inword st"; cases "blank c"; cases "s = []"; cases "c = CHR 0x0A")
      (simp_all del: fold.simps add: blank_newline)
qed

lemma wc_loop_all:
  "list_all (\<lambda>r. r \<noteq> None \<and> r \<noteq> Some []) inp \<Longrightarrow>
    wc_loop st inp = Some (fold wc_char (concat (map the inp)) st)"
proof (induction st inp rule: wc_loop.induct)
  case (1 st inp)
  show ?case
  proof (cases inp)
    case Nil
    then show ?thesis by (simp add: wc_loop.simps [of st])
  next
    case (Cons x rest)
    then obtain r where x: "x = Some r" "r \<noteq> []" using 1(2) by (cases x) auto
    let ?inp = "if length r \<le> 512 then rest else Some (drop 512 r) # rest"
    have u: "uread 512 inp = (Some (take 512 r), ?inp)" using Cons x by simp
    have "wc_loop (fold wc_char (take 512 r) st) ?inp
        = Some (fold wc_char (concat (map the ?inp)) (fold wc_char (take 512 r) st))"
      using 1(1) [OF u [symmetric] refl] 1(2) Cons x by auto
    moreover have "concat (map the inp) = take 512 r @ concat (map the ?inp)"
      using Cons x by (auto simp: append_assoc [symmetric] simp del: append_assoc)
    ultimately show ?thesis using u x by (simp add: wc_loop.simps [of st inp])
  qed
qed

text \<open>\<open>wc\<close> counts right however its input is cut into reads: what it prints are the numbers of
  newlines, of words and of bytes of the whole input, modulo the width of its counters.\<close>
theorem wc_counts:
  assumes "list_all (\<lambda>r. r \<noteq> None \<and> r \<noteq> Some []) inp" and "d = concat (map the inp)"
  shows "wc inp name = (uprintf (''%d %d %d %s'' @ newline)
    [UWord (word_of_nat (count_list d (CHR 0x0A))), UWord (word_of_nat (length (words_of d))),
     UWord (word_of_nat (length d)), UStr (Some name)], True)"
  using wc_loop_all [OF assms(1)] by (simp add: wc_def wc_chars assms(2))

theorem wc_counts_witness:
  "wc [Some ''ab c'', Some ('' d'' @ newline)] ''f'' = (Some (''1 3 7 f'' @ newline), True)"
proof -
  have p: "uprintint 1 10 True = ''1''" "uprintint 3 10 True = ''3''" "uprintint 7 10 True = ''7''"
    by (simp_all add: uprintint_def digits_of.simps hex_digits_def)
  have "words_of (''ab c d'' @ newline) = [''ab'', ''c'', ''d'']" by (simp add: blank_def)
  then show ?thesis
    using wc_counts [of "[Some ''ab c'', Some ('' d'' @ newline)]" "''ab c d'' @ newline" "''f''"] p
    by simp
qed

end
