(* ===== verification/Wish.thy ===== *)
theory Wish
  imports Userprog Bytes
begin

text \<open>
  The project's own shell: wish.c and wishUtils.c.  Strings in a buffer are given by positions, as
  in the model of sh.c; the array \<open>res\<close> that \<open>splitString\<close> fills is the list of what it has stored,
  \<open>None\<close> for a null pointer.  \<open>malloc\<close> does not clear its memory: what it returns is an argument.
\<close>

definition TOTALSIZE :: nat where "TOTALSIZE = 1000"

text \<open>The program's names for the descriptors it writes to.\<close>

definition WISH_STDERR :: int where "WISH_STDERR = 1"
definition WISH_STDOUT :: int where "WISH_STDOUT = 2"

definition WISH_MAXARGS :: nat where "WISH_MAXARGS = 11"

subsection \<open>Splitting a line\<close>

text \<open>The \<open>while\<close> loop of \<open>getToken\<close>: the index of the next delimiter or NUL.\<close>

function token_end :: "string \<Rightarrow> char \<Rightarrow> nat \<Rightarrow> nat" where
  "token_end b d i =
     (if chr_at b i \<noteq> d \<and> chr_at b i \<noteq> NUL then token_end b d (i + 1) else i)"
  by pat_completeness auto
termination
  by (relation "measure (\<lambda>(b, d, i). length b - i)") (auto simp: chr_at_def split: if_splits)

declare token_end.simps [simp del]

text \<open>
  \<open>getToken\<close>: whether \<open>*status\<close> stays, and the index of the address it returns, which is also the
  new \<open>*ptr\<close>.
\<close>

definition getToken :: "nat \<Rightarrow> string \<Rightarrow> string \<Rightarrow> char \<Rightarrow> bool \<times> nat" where
  "getToken ptr b ref d =
     (if ptr > ustrlen ref then (False, ptr) else (True, token_end b d ptr))"

text \<open>
  The loop of \<open>splitString\<close>, with the buffer, \<open>ptr\<close> (\<open>temp\<close> points at \<open>string[ptr]\<close>) and the
  entries of \<open>res\<close> so far.  The array has \<open>room\<close> pointers, which the code does not look at: \<open>None\<close> is a
  store behind its end.
\<close>

function split_loop ::
  "nat \<Rightarrow> string \<Rightarrow> char \<Rightarrow> string \<Rightarrow> nat \<Rightarrow> nat option list \<Rightarrow> (nat option list \<times> string) option" where
  "split_loop room ref d b ptr res =
     (if room \<le> length res then None
      else case getToken ptr b ref d of
        (False, _) \<Rightarrow> Some (res @ [None], b)
      | (True, e) \<Rightarrow> split_loop room ref d (b[e := NUL]) (e + 1) (res @ [Some ptr]))"
  by pat_completeness auto

lemma token_end_ge: "i \<le> token_end b d i"
  by (induction b d i rule: token_end.induct) (subst token_end.simps, auto)

termination split_loop
proof (relation "measure (\<lambda>(room, ref, d, b, ptr, res). ustrlen ref + 1 - ptr)")
  show "((room, ref, d, b[e := NUL], e + 1, res @ [Some ptr]), room, ref, d, b, ptr, res)
      \<in> measure (\<lambda>(room, ref, d, b, ptr, res). ustrlen ref + 1 - ptr)"
    if "(p, e) = getToken ptr b ref d" and "p = True" for room ref d b ptr res p e
    using that token_end_ge [of ptr b d] by (auto simp: getToken_def split: if_splits)
qed simp

declare split_loop.simps [simp del]

definition splitString :: "nat \<Rightarrow> string \<Rightarrow> char \<Rightarrow> (nat option list \<times> string) option" where
  "splitString room s d = split_loop room s d s 0 []"

text \<open>\<open>allocateArgv\<close> makes the array for \<open>MAXARGS\<close> pointers.\<close>

definition parseArgs :: "string \<Rightarrow> (nat option list \<times> string) option" where
  "parseArgs s = splitString WISH_MAXARGS s (CHR '' '')"

text \<open>The arguments as strings, \<open>None\<close> for a null pointer.\<close>

definition argv_of :: "nat option list \<times> string \<Rightarrow> string option list" where
  "argv_of r = (case r of (res, b) \<Rightarrow> map (map_option (string_at b)) res)"

subsection \<open>Built-in commands\<close>

definition isBuiltIn :: "string \<Rightarrow> bool" where
  "isBuiltIn c \<longleftrightarrow> strcmpbool c ''cd'' \<or> strcmpbool c ''path'' \<or> strcmpbool c ''exit''"

text \<open>
  \<open>executeBuiltIn\<close>.  The second argument may be a null pointer: address 0 is mapped in a user
  program, \<open>zero\<close> is the string there.
\<close>

definition arg_string :: "string \<Rightarrow> string option list \<Rightarrow> nat \<Rightarrow> string" where
  "arg_string zero argv i = (if i < length argv then case_option zero (\<lambda>s. s) (argv ! i) else zero)"

definition executeBuiltIn :: "string \<Rightarrow> string option list \<Rightarrow> prog \<Rightarrow> prog" where
  "executeBuiltIn zero argv k =
     (if strcmpbool (arg_string zero argv 0) ''cd'' \<and> ustrcmp (arg_string zero argv 1) [] = 0
      then puts WISH_STDOUT ''oh my, how embarassing!'' k
      else if strcmpbool (arg_string zero argv 0) ''path'' \<and> \<not> strcmpbool (arg_string zero argv 1) []
      then puts WISH_STDOUT ''oh my, how embarassing!'' k
      else k)"

subsection \<open>Commands\<close>

text \<open>A child whose \<open>exec\<close> fails goes on like its parent.\<close>

definition exec_args :: "string option list \<Rightarrow> string list" where
  "exec_args argv = map the (takeWhile (\<lambda>a. a \<noteq> None) argv)"

definition executeCmd :: "string option list \<Rightarrow> prog \<Rightarrow> prog" where
  "executeCmd argv k = Call SFork (\<lambda>pid.
     if pid = 0 then Call (SExec (hd (exec_args argv)) (exec_args argv)) (\<lambda>_.
       puts WISH_STDERR (''exec '' @ hd (exec_args argv) @ '' failed :( '' @ newline) (Call SWait (\<lambda>_. k)))
     else Call SWait (\<lambda>_. k))"

text \<open>
  \<open>parallelize\<close>: the loop from \<open>currChar\<close> on, with \<open>baseByte\<close>, the new buffer and what follows the
  call.  The parent of a fork goes on with the command in front of the ampersand.
\<close>

function par_loop :: "string \<Rightarrow> nat \<Rightarrow> nat \<Rightarrow> string \<Rightarrow> (string \<Rightarrow> prog) \<Rightarrow> prog" where
  "par_loop b cur base res k =
     (let copied = blit 0 (slice base (cur - base) b) res in
      if chr_at b cur = NUL then k copied
      else if chr_at b cur = CHR ''&'' then Call SFork (\<lambda>amChild.
        if amChild \<noteq> 0 then k copied else par_loop b (cur + 1) (cur + 1) copied k)
      else par_loop b (cur + 1) base res k)"
  by pat_completeness auto
termination
  by (relation "measure (\<lambda>(b, cur, base, res, k). length b - cur)") (auto simp: chr_at_def split: if_splits)

declare par_loop.simps [simp del]

definition parallelize :: "string \<Rightarrow> string \<Rightarrow> (string \<Rightarrow> prog) \<Rightarrow> prog" where
  "parallelize b fresh k = par_loop b 0 0 fresh k"

text \<open>\<open>cleanup\<close>: a process that is not the shell itself ends here.\<close>

definition cleanup :: "int \<Rightarrow> prog \<Rightarrow> prog" where
  "cleanup basePid k = Call SGetpid (\<lambda>pid.
     if pid \<noteq> basePid then Call SWait (\<lambda>_. Exit) else k)"

subsection \<open>The main loop\<close>

text \<open>
  \<open>runWish\<close> on the input that is left; \<open>fresh n\<close> is what \<open>malloc\<close> returns when \<open>n\<close> characters of
  input are left.  A line with more arguments than the array holds is stored over the memory behind it:
  what the program does from there on is the argument \<open>over\<close>.  \<open>getcmd\<close> cuts off the last character of the line.  At the end of the input the
  program returns from \<open>main\<close>, which ends the process as \<open>exit\<close> does, but by a page fault: there is
  no caller.
\<close>

function wish_loop :: "(nat \<Rightarrow> string) \<Rightarrow> (nat \<Rightarrow> prog) \<Rightarrow> string \<Rightarrow> int \<Rightarrow> string \<Rightarrow> prog" where
  "wish_loop fresh over zero basePid inp = puts WISH_STDOUT ''> '' (case gets TOTALSIZE inp of (line, rest) \<Rightarrow>
     if chr_at line 0 = NUL then Exit
     else parallelize (butlast (string_at line 0)) (fresh (length rest)) (\<lambda>buf.
       case parseArgs (string_at buf 0) of None \<Rightarrow> over (length rest) | Some r \<Rightarrow>
       let argv = argv_of r;
           go = Call SGetpid (\<lambda>pid. Call (SSleep (pid div 263 * 2)) (\<lambda>_.
             executeCmd argv (cleanup basePid (Call SWait (\<lambda>_. wish_loop fresh over zero basePid rest)))))
       in if isBuiltIn (arg_string zero argv 0) then
            (if strcmpbool (arg_string zero argv 0) ''exit'' then Exit else executeBuiltIn zero argv go)
          else go))"
  by pat_completeness auto

termination
  by (relation "measure (\<lambda>(fresh, over, zero, basePid, inp). length inp)")
    (auto dest: gets_shorter sym [of "(_, _)" "gets _ _"])

declare wish_loop.simps [simp del]

definition runWish :: "(nat \<Rightarrow> string) \<Rightarrow> (nat \<Rightarrow> prog) \<Rightarrow> string \<Rightarrow> string \<Rightarrow> prog" where
  "runWish fresh over zero inp = Call SGetpid (\<lambda>basePid. wish_loop fresh over zero basePid inp)"

end
