(* ===== verification/Wish_Claims.thy ===== *)
theory Wish_Claims
  imports Wish
begin






text \<open>
  The buffer of a command after an ampersand still holds the end of a longer command before it.
\<close>

lemma parallelize_leaves_rest:
  "parallelize ''grep x&ls'' (replicate 12 NUL) k = Call SFork (\<lambda>pid.
     if pid \<noteq> 0 then k (''grep x'' @ replicate 6 NUL) else k (''lsep x'' @ replicate 6 NUL))"
proof -
  let ?b = "''grep x&ls''" and ?c = "''grep x'' @ replicate 6 NUL"
  have child: "par_loop ?b 7 7 ?c k = k (''lsep x'' @ replicate 6 NUL)"
    by (simp add: par_loop.simps blit_def slice_def chr_at_def NUL_def Let_def numeral_eq_Suc)
  have "par_loop ?b 6 0 (replicate 12 NUL) k
      = Call SFork (\<lambda>amChild. if amChild \<noteq> 0 then k ?c else par_loop ?b 7 7 ?c k)"
    by (subst par_loop.simps) (simp add: blit_def slice_def chr_at_def NUL_def Let_def numeral_eq_Suc cong: if_cong)
  moreover have "par_loop ?b 0 0 (replicate 12 NUL) k = par_loop ?b 6 0 (replicate 12 NUL) k"
    by (simp add: par_loop.simps blit_def slice_def chr_at_def NUL_def Let_def numeral_eq_Suc)
  ultimately show ?thesis unfolding parallelize_def child by (rule trans [rotated])
qed

end
