(* ===== verification/Trap.thy ===== *)
theory Trap
  imports Console
begin

text \<open>
  Traps, trap.c and traps.h: system calls, interrupts and faults.  The processor's number, the
  faulting address (\<open>rcr2()\<close>) and what the devices deliver are arguments; the local APIC's end of
  interrupt register is the number of times it was written.  The disk is memide.c, whose \<open>ideintr\<close>
  does nothing.
\<close>

definition T_SYSCALL :: uint where "T_SYSCALL = 64"
definition T_IRQ0 :: uint where "T_IRQ0 = 32"
definition IRQ_TIMER :: uint where "IRQ_TIMER = 0"
definition IRQ_KBD :: uint where "IRQ_KBD = 1"
definition IRQ_COM1 :: uint where "IRQ_COM1 = 4"
definition IRQ_IDE :: uint where "IRQ_IDE = 14"
definition IRQ_SPURIOUS :: uint where "IRQ_SPURIOUS = 31"

text \<open>\<open>lapic\<close> tells if the pointer of that name is set.\<close>

record tstate = cstate +
  lapic :: bool
  eois :: nat

type_synonym ('z, 'a) top = "'z tstate_scheme \<Rightarrow> ('z tstate_scheme, 'a) outcome"

subsection \<open>The interrupt descriptor table\<close>

definition STS_IG32 :: uint where "STS_IG32 = 0xE"
definition STS_TG32 :: uint where "STS_TG32 = 0xF"

record gatedesc =
  off_15_0 :: uint
  gd_cs :: uint
  gd_args :: uint
  gd_rsv1 :: uint
  gd_type :: uint
  gd_s :: uint
  gd_dpl :: uint
  gd_p :: uint
  off_31_16 :: uint

definition SETGATE :: "bool \<Rightarrow> uint \<Rightarrow> uint \<Rightarrow> uint \<Rightarrow> gatedesc" where
  "SETGATE istrap sel off d =
     \<lparr>off_15_0 = off AND 0xffff, gd_cs = sel, gd_args = 0, gd_rsv1 = 0,
      gd_type = (if istrap then STS_TG32 else STS_IG32), gd_s = 0, gd_dpl = d, gd_p = 1,
      off_31_16 = drop_bit 16 off\<rparr>"

definition SEG_KCODE :: uint where "SEG_KCODE = 1"

text \<open>The table \<open>idt\<close> that \<open>tvinit\<close> fills in.\<close>

definition tvinit :: "(nat \<Rightarrow> uint) \<Rightarrow> gatedesc list" where
  "tvinit vectors =
     (map (\<lambda>i. SETGATE False (push_bit 3 SEG_KCODE) (vectors i) 0) [0..<256])
       [unat T_SYSCALL := SETGATE True (push_bit 3 SEG_KCODE) (vectors (unat T_SYSCALL)) (ucast DPL_USER)]"

subsection \<open>trap\<close>

text \<open>What the devices deliver to their interrupt handlers.\<close>

record devices =
  dev_scans :: "nat list"
  dev_serial :: "int list"

definition lapiceoi :: "('z, unit) top" where
  "lapiceoi = modify (\<lambda>s. if lapic s then s\<lparr>eois := eois s + 1\<rparr> else s)"

definition uartintr :: "int list \<Rightarrow> ('z, unit) top" where
  "uartintr cs = bind (reads uart) (\<lambda>on. consoleintr (if on then cs else []))"

definition in_user :: "trapframe \<Rightarrow> bool" where
  "in_user tf \<longleftrightarrow> tf_cs tf AND 3 = DPL_USER"

text \<open>A condition on the current process, false if there is none.\<close>

definition cur_is :: "(proc \<Rightarrow> bool) \<Rightarrow> 'z kern_scheme \<Rightarrow> bool" where
  "cur_is P s = (case curproc s of None \<Rightarrow> False | Some p \<Rightarrow> P (procs s ! p))"

definition exit_if_killed :: "trapframe \<Rightarrow> ('z, unit) top" where
  "exit_if_killed tf = bind (reads (cur_is p_killed)) (\<lambda>dead. whenM (dead \<and> in_user tf) exit)"

definition timer_tick :: "('z, unit) top" where
  "timer_tick = bind (acquire TicksLock) (\<lambda>_.
     bind (modify (\<lambda>s. s\<lparr>ticks := ticks s + 1\<rparr>)) (\<lambda>_.
     bind (wakeup ChTicks) (\<lambda>_.
     release TicksLock)))"

text \<open>The default case: a fault in the kernel or of a user program.\<close>

definition trap_fault :: "nat \<Rightarrow> uint \<Rightarrow> trapframe \<Rightarrow> ('z, unit) top" where
  "trap_fault cpu cr2 tf = bind (reads curproc) (\<lambda>cur.
     case cur of
       None \<Rightarrow> bind (cprintf (Some (ascii ''unexpected trap %d from cpu %d eip %x (cr2=0x%x)'' @ [10]))
           [Word (tf_trapno tf), Word (word_of_nat cpu), Word (tf_eip tf), Word cr2]) (\<lambda>_. panic ''trap'')
     | Some p \<Rightarrow>
         if tf_cs tf AND 3 = 0 then
           bind (cprintf (Some (ascii ''unexpected trap %d from cpu %d eip %x (cr2=0x%x)'' @ [10]))
             [Word (tf_trapno tf), Word (word_of_nat cpu), Word (tf_eip tf), Word cr2]) (\<lambda>_. panic ''trap'')
         else bind (reads (\<lambda>s. procs s ! p)) (\<lambda>q.
           bind (cprintf (Some (ascii ''pid %d %s: trap %d err %d on cpu %d eip 0x%x addr 0x%x--kill proc'' @ [10]))
             [Word (word_of_int (p_pid q)), Str (Some (takeWhile (\<lambda>c. c \<noteq> 0) (p_name q))), Word (tf_trapno tf),
              Word (tf_err tf), Word (word_of_nat cpu), Word (tf_eip tf), Word cr2]) (\<lambda>_.
           modify (upd_proc p (\<lambda>q. q\<lparr>p_killed := True\<rparr>)))))"

definition trap_dispatch :: "devices \<Rightarrow> nat \<Rightarrow> uint \<Rightarrow> trapframe \<Rightarrow> ('z, unit) top" where
  "trap_dispatch dev cpu cr2 tf =
     (let n = tf_trapno tf in
      if n = T_IRQ0 + IRQ_TIMER then bind (whenM (cpu = 0) timer_tick) (\<lambda>_. lapiceoi)
      else if n = T_IRQ0 + IRQ_IDE then lapiceoi
      else if n = T_IRQ0 + IRQ_IDE + 1 then ret ()
      else if n = T_IRQ0 + IRQ_KBD then bind (kbdintr (dev_scans dev)) (\<lambda>_. lapiceoi)
      else if n = T_IRQ0 + IRQ_COM1 then bind (uartintr (dev_serial dev)) (\<lambda>_. lapiceoi)
      else if n = T_IRQ0 + 7 \<or> n = T_IRQ0 + IRQ_SPURIOUS then
        bind (cprintf (Some (ascii ''cpu%d: spurious interrupt at %x:%x'' @ [10]))
          [Word (word_of_nat cpu), Word (ucast (tf_cs tf)), Word (tf_eip tf)]) (\<lambda>_. lapiceoi)
      else trap_fault cpu cr2 tf)"

text \<open>The check of \<open>trap\<close> before and after a system call.\<close>

definition exit_if_dead :: "('z, unit) top" where
  "exit_if_dead = with_proc (\<lambda>p.
     bind (reads (\<lambda>s. p_killed (procs s ! p))) (\<lambda>dead.
     whenM dead exit))"

definition trap_syscall :: "'z tstate_scheme devsw \<Rightarrow> uint \<Rightarrow> trapframe \<Rightarrow> ('z, unit) top" where
  "trap_syscall dsw fr tf = bind exit_if_dead (\<lambda>_.
     with_proc (\<lambda>p.
     bind (modify (upd_proc p (\<lambda>q. q\<lparr>p_tf := tf\<rparr>))) (\<lambda>_.
     bind (syscall dsw fr) (\<lambda>_.
     exit_if_dead))))"

definition trap ::
  "'z tstate_scheme devsw \<Rightarrow> uint \<Rightarrow> devices \<Rightarrow> nat \<Rightarrow> uint \<Rightarrow> trapframe \<Rightarrow> ('z, unit) top" where
  "trap dsw fr dev cpu cr2 tf =
     (if tf_trapno tf = T_SYSCALL then trap_syscall dsw fr tf
      else bind (trap_dispatch dev cpu cr2 tf) (\<lambda>_.
        bind (exit_if_killed tf) (\<lambda>_.
        bind (reads (cur_is (\<lambda>p. p_state p = RUNNING))) (\<lambda>running.
        bind (whenM (running \<and> tf_trapno tf = T_IRQ0 + IRQ_TIMER) yield) (\<lambda>_.
        exit_if_killed tf)))))"

text \<open>
  The rest of \<open>trap\<close> when the process runs again: after the system call in which it slept has the
  result \<open>r\<close>, and after it yielded.
\<close>

definition trap_syscall_resume :: "int \<Rightarrow> ('z, unit) top" where
  "trap_syscall_resume r = with_proc (\<lambda>p. bind (modify (set_eax p r)) (\<lambda>_. exit_if_dead))"

definition trap_resume :: "trapframe \<Rightarrow> ('z, unit) top" where
  "trap_resume tf = bind yield_return (\<lambda>_. exit_if_killed tf)"

end
