(* ===== verification/Trap_Claims.thy ===== *)
theory Trap_Claims
  imports Trap Proc_Claims
begin

text \<open>Traps: what a process that returns to user space can rely on, and the timer.\<close>

lemma exit_not_Ok [simp]: "exit s \<noteq> Ok x t"
  by (auto simp: exit_def exit_locked_def with_proc_Ok_iff bind_Ok_iff)

lemma exit_if_killed_Ok:
  "exit_if_killed tf s = Ok u t \<longleftrightarrow> t = s \<and> \<not> (cur_is p_killed s \<and> in_user tf)"
  by (auto simp: exit_if_killed_def whenM_def)

lemma yield_not_Ok [simp]: "yield s \<noteq> Ok x t"
  by (auto simp: yield_def with_proc_Ok_iff bind_Ok_iff)

lemma exit_if_dead_Ok: "exit_if_dead s = Ok u t \<Longrightarrow> t = s \<and> \<not> cur_is p_killed t"
  by (auto simp: exit_if_dead_def with_proc_Ok_iff whenM_def cur_is_def split: if_splits)

lemma trap_alive:
  assumes "trap dsw fr dev cpu cr2 tf s = Ok u t" and "in_user tf \<or> tf_trapno tf = T_SYSCALL"
  shows "\<not> cur_is p_killed t"
proof (cases "tf_trapno tf = T_SYSCALL")
  case True
  then show ?thesis
    using assms(1) by (auto simp: trap_def trap_syscall_def with_proc_Ok_iff bind_Ok_iff dest: exit_if_dead_Ok)
next
  case False
  then show ?thesis
    using assms by (auto simp: trap_def bind_Ok_iff exit_if_killed_Ok)
qed

lemma trap_resume_alive:
  "trap_resume tf s = Ok u t \<Longrightarrow> in_user tf \<Longrightarrow> \<not> cur_is p_killed t"
  "trap_syscall_resume r s = Ok u t \<Longrightarrow> \<not> cur_is p_killed t"
  by (auto simp: trap_resume_def trap_syscall_resume_def bind_Ok_iff exit_if_killed_Ok with_proc_Ok_iff dest: exit_if_dead_Ok)

text \<open>A process that was killed while it was preempted exits when it runs again.\<close>

lemma trap_resume_exits:
  assumes "locks s = [PtableLock]" and "cur_is p_killed s" and "in_user tf"
  shows "trap_resume tf s = exit (s\<lparr>locks := []\<rparr>)"
  using assms by (simp add: trap_resume_def yield_return_def exit_if_killed_def cur_is_def whenM_def split: option.splits)

text \<open>A user program can only raise the system call itself, and only there do interrupts stay on.\<close>

lemma tvinit_gates:
  assumes "i < 256"
  shows "gd_dpl (tvinit vs ! i) = (if i = 64 then 3 else 0)"
    and "gd_type (tvinit vs ! i) = (if i = 64 then STS_TG32 else STS_IG32)"
    and "push_bit 16 (off_31_16 (tvinit vs ! i)) OR off_15_0 (tvinit vs ! i) = vs i"
proof -
  have "push_bit 16 (drop_bit 16 v) OR (v AND 0xffff) = v" for v :: uint
  proof -
    have m: "(0xffff :: uint) = mask 16" by (simp add: mask_eq_exp_minus_1)
    show ?thesis
      by (rule bit_word_eqI) (auto simp: m bit_or_iff bit_and_iff bit_push_bit_iff bit_drop_bit_eq bit_mask_iff)
  qed
  then show "push_bit 16 (off_31_16 (tvinit vs ! i)) OR off_15_0 (tvinit vs ! i) = vs i"
    using assms by (auto simp: tvinit_def SETGATE_def T_SYSCALL_def nth_list_update)
qed (use assms in \<open>auto simp: tvinit_def SETGATE_def T_SYSCALL_def DPL_USER_def nth_list_update\<close>)

text \<open>Printing changes nothing of the processes.\<close>

definition same_procs :: "nat option \<Rightarrow> proc list \<Rightarrow> 'z kern_scheme \<Rightarrow> bool" where
  "same_procs cur ps s \<longleftrightarrow> curproc s = cur \<and> procs s = ps"

lemma same_procs_locks: "keeps (acquire l) (same_procs cur ps)" "keeps (release l) (same_procs cur ps)"
  by (auto simp: keeps_def acquire_def release_def same_procs_def)

lemma same_procs_uartputc: "keeps (uartputc c) (same_procs cur ps)"
  by (simp add: keeps_def uartputc_def same_procs_def)

lemma same_procs_cgaputc: "keeps (cgaputc c) (same_procs cur ps)"
  unfolding cgaputc_def Let_def
  by (intro keeps_bind keeps_prims keeps_modify) (auto simp: same_procs_def)

lemma same_procs_consputc: "keeps (consputc c) (same_procs cur ps)"
  unfolding consputc_def
  by (intro keeps_bind keeps_prims keeps_if same_procs_uartputc same_procs_cgaputc)

lemma same_procs_consputs: "keeps (consputs cs) (same_procs cur ps)"
  by (induction cs) (auto intro!: same_procs_consputc)

lemma same_procs_cprintf: "keeps (cprintf fmt args) (same_procs cur ps)"
  unfolding cprintf_def
  by (intro keeps_bind keeps_prims keeps_whenM keeps_option same_procs_locks same_procs_consputs)

text \<open>The trap numbers of the devices and the spurious ones.\<close>

definition handled :: "uint set" where
  "handled = {T_IRQ0 + IRQ_TIMER, T_IRQ0 + IRQ_IDE, T_IRQ0 + IRQ_IDE + 1, T_IRQ0 + IRQ_KBD,
     T_IRQ0 + IRQ_COM1, T_IRQ0 + 7, T_IRQ0 + IRQ_SPURIOUS}"

lemma dispatch_fault: "tf_trapno tf \<notin> handled \<Longrightarrow> trap_dispatch dev cpu cr2 tf = trap_fault cpu cr2 tf"
  by (auto simp: trap_dispatch_def handled_def Let_def)

lemma fault_kills:
  assumes "trap_fault cpu cr2 tf s = Ok u t" and p: "curproc s = Some p" and len: "p < length (procs s)"
  shows "cur_is p_killed t"
proof -
  obtain fmt args t' where c: "cprintf fmt args s = Ok () t'"
    and t: "t = upd_proc p (\<lambda>q. q\<lparr>p_killed := True\<rparr>) t'"
    using assms(1) p by (auto simp: trap_fault_def bind_Ok_iff split: if_splits)
  have "same_procs (Some p) (procs s) t'"
    by (rule keeps_Ok [OF same_procs_cprintf _ c]) (simp add: same_procs_def p)
  then show ?thesis using len by (simp add: t cur_is_def same_procs_def upd_proc_def)
qed

lemma trap_fault_ends:
  assumes "trap dsw fr dev cpu cr2 tf s = Ok u t" and "in_user tf" and "cur_is (\<lambda>_. True) s"
    and "case curproc s of None \<Rightarrow> True | Some p \<Rightarrow> p < length (procs s)"
  shows "tf_trapno tf = T_SYSCALL \<or> tf_trapno tf \<in> handled"
proof (rule ccontr)
  assume h: "\<not> (tf_trapno tf = T_SYSCALL \<or> tf_trapno tf \<in> handled)"
  obtain p where p: "curproc s = Some p" "p < length (procs s)"
    using assms(3,4) by (auto simp: cur_is_def split: option.splits)
  obtain t1 where "trap_fault cpu cr2 tf s = Ok () t1" and "exit_if_killed tf t1 = Ok () t1"
    using assms(1) h by (auto simp: trap_def dispatch_fault bind_Ok_iff exit_if_killed_Ok)
  then show False using fault_kills [OF _ p] assms(2) by (auto simp: exit_if_killed_Ok)
qed

text \<open>C32: A killed process never goes back to user space.  A trap from user space gets back to it in
  three ways: \<open>trap\<close> returns; or the process slept in its system call, and the rest of \<open>trap\<close> runs
  when the call has its result; or the timer preempted it, and the rest of \<open>trap\<close> runs in whatever state
  \<open>v\<close> the scheduler picks it again.  On each way the process that goes back is not marked killed, and the trap
  was a system call, a device's interrupt or a spurious one; a process whose own fault caused the trap
  does not come back.\<close>
theorem killed_never_returns:
  assumes "trap dsw fr dev cpu cr2 tf s = Ok u t
      \<or> tf_trapno tf = T_SYSCALL \<and> trap_syscall_resume r v = Ok u t
      \<or> tf_trapno tf = T_IRQ0 + IRQ_TIMER \<and> trap_resume tf v = Ok u t"
    and "in_user tf" and "cur_is (\<lambda>_. True) s" and "the (curproc s) < length (procs s)"
  shows "\<not> cur_is p_killed t \<and> tf_trapno tf \<in> insert T_SYSCALL handled"
proof -
  have "case curproc s of None \<Rightarrow> True | Some p \<Rightarrow> p < length (procs s)" using assms(4) by (auto split: option.split)
  note ends = trap_fault_ends [OF _ assms(2,3) this]
  show ?thesis using assms(1)
  proof (elim disjE conjE)
    assume r: "trap dsw fr dev cpu cr2 tf s = Ok u t"
    from trap_alive [OF r] ends [OF r] assms(2) show ?thesis by simp
  next
    assume r: "trap_syscall_resume r v = Ok u t" and n: "tf_trapno tf = T_SYSCALL"
    show ?thesis using trap_resume_alive(2) [OF r] n by simp
  next
    assume r: "trap_resume tf v = Ok u t" and n: "tf_trapno tf = T_IRQ0 + IRQ_TIMER"
    show ?thesis using trap_resume_alive(1) [OF r assms(2)] n by (simp add: handled_def)
  qed
qed

text \<open>A system with the three processes of \<open>family\<close>, the first one running, and a timer interrupt and a
  spurious one of its user code.\<close>

definition trap_demo :: "procstate \<Rightarrow> tstate" where
  "trap_demo st = (cstate.extend (xstate.extend (family st)
      (cstate.fields \<lparr>in_buf = [], in_r = 0, in_w = 0, in_e = 0\<rparr> True False True [] [] 0 0))
      (tstate.fields True 0))\<lparr>locks := []\<rparr>"

definition demo_dev :: "tstate devsw" where
  "demo_dev = \<lparr>dev_read = (\<lambda>_. None), dev_write = (\<lambda>_. None)\<rparr>"

definition demo_frame :: "uint \<Rightarrow> trapframe" where
  "demo_frame n = (p_tf zero_proc)\<lparr>tf_trapno := n, tf_cs := 27\<rparr>"

lemma trap_demo_sel [simp]:
  "procs (trap_demo st) = procs (family st)" "curproc (trap_demo st) = Some 0" "locks (trap_demo st) = []"
  "lapic (trap_demo st)" "eois (trap_demo st) = 0"
  by (simp_all add: trap_demo_def cstate.defs xstate.defs tstate.defs family_def)

lemma killed_never_returns_witness:
  "trap demo_dev 0 \<lparr>dev_scans = [], dev_serial = []\<rparr> 0 0 (demo_frame 47) (trap_demo SLEEPING) =
      Ok () (trap_demo SLEEPING)
    \<and> \<not> cur_is p_killed (trap_demo SLEEPING) \<and> (47 :: uint) \<in> insert T_SYSCALL handled"
proof -
  have run: "trap demo_dev 0 \<lparr>dev_scans = [], dev_serial = []\<rparr> 0 0 (demo_frame 47) (trap_demo SLEEPING) =
      Ok () (trap_demo SLEEPING)"
    by (simp add: trap_def trap_dispatch_def demo_frame_def T_SYSCALL_def T_IRQ0_def IRQ_TIMER_def IRQ_IDE_def
        exit_if_killed_def cur_is_def zero_proc_def)
  then show ?thesis
    using killed_never_returns [OF disjI1 [OF run]] by (simp add: in_user_def demo_frame_def DPL_USER_def cur_is_def NPROC_def)
qed



end
