(* ===== verification/Vm_Props.thy ===== *)
theory Vm_Props
  imports Kalloc_Props Sysfile
begin

text \<open>
  Page tables as the maps they stand for: the entry the processor finds for an address, the page
  directories that share no table with each other or with the free list, and what \<open>walkpgdir\<close> and
  the update of an entry do to the map.
\<close>

subsection \<open>Addresses\<close>

lemma and_mask_less: "(x :: uint) AND 0x3FF < 1024"
proof -
  have "x AND 0x3FF = take_bit 10 x" by (simp add: take_bit_eq_mask mask_eq_exp_minus_1)
  moreover have "take_bit 10 (unat x) < 2 ^ 10" by (rule take_bit_nat_less_exp)
  ultimately show ?thesis by (simp add: word_less_nat_alt unsigned_take_bit_eq)
qed

lemma PDX_less: "unat (PDX v) < 1024" and PTX_less: "unat (PTX v) < 1024"
  using and_mask_less [of "drop_bit 22 v"] and_mask_less [of "drop_bit 12 v"]
  by (simp_all add: PDX_def PTX_def word_less_nat_alt)

lemma bit_0x3FF: "bit (0x3FF :: uint) n \<longleftrightarrow> n < 10"
proof -
  have e: "(0x3FF :: uint) = mask 10" by (simp add: mask_eq_exp_minus_1)
  show ?thesis unfolding e by (auto simp: bit_mask_iff)
qed

lemma bit_0xFFF: "bit (0xFFF :: uint) n \<longleftrightarrow> n < 12"
proof -
  have e: "(0xFFF :: uint) = mask 12" by (simp add: mask_eq_exp_minus_1)
  show ?thesis unfolding e by (auto simp: bit_mask_iff)
qed

lemma PGROUNDDOWN_bits: "bit (PGROUNDDOWN v) n \<longleftrightarrow> 12 \<le> n \<and> bit v n"
proof -
  have e: "PGSIZE - 1 = 0xFFF" by (simp add: PGSIZE_def)
  show ?thesis
    unfolding PGROUNDDOWN_def e bit_and_iff bit_not_iff bit_0xFFF
    using bit_imp_le_length [of v n] by auto
qed

lemma PDX_bits: "bit (PDX v) n \<longleftrightarrow> n < 10 \<and> bit v (22 + n)"
  unfolding PDX_def bit_and_iff bit_drop_bit_eq bit_0x3FF by auto

lemma PTX_bits: "bit (PTX v) n \<longleftrightarrow> n < 10 \<and> bit v (12 + n)"
  unfolding PTX_def bit_and_iff bit_drop_bit_eq bit_0x3FF by auto

lemma same_page_iff: "PDX v = PDX w \<and> PTX v = PTX w \<longleftrightarrow> PGROUNDDOWN v = PGROUNDDOWN w"
proof
  assume h: "PDX v = PDX w \<and> PTX v = PTX w"
  show "PGROUNDDOWN v = PGROUNDDOWN w"
  proof (rule bit_word_eqI)
    fix n assume n: "n < LENGTH(32)"
    have d: "bit (PDX v) (n - 22) = bit (PDX w) (n - 22)" "bit (PTX v) (n - 12) = bit (PTX w) (n - 12)"
      using h by simp_all
    show "bit (PGROUNDDOWN v) n = bit (PGROUNDDOWN w) n"
    proof (cases "n < 12")
      case False
      then show ?thesis using n d by (cases "n < 22") (auto simp: PGROUNDDOWN_bits PDX_bits PTX_bits)
    qed (simp add: PGROUNDDOWN_bits)
  qed
next
  assume h: "PGROUNDDOWN v = PGROUNDDOWN w"
  have b: "bit v n = bit w n" if "12 \<le> n" for n
  proof -
    have "bit (PGROUNDDOWN v) n = bit (PGROUNDDOWN w) n" using h by simp
    then show ?thesis using that by (simp add: PGROUNDDOWN_bits)
  qed
  show "PDX v = PDX w \<and> PTX v = PTX w"
    by (intro conjI bit_word_eqI) (auto simp: PDX_bits PTX_bits b)
qed

lemma low_bits_iff: "(p :: uint) mod 4096 = 0 \<longleftrightarrow> (\<forall>n < 12. \<not> bit p n)"
proof -
  have t: "p mod 4096 = take_bit 12 p" by (simp add: take_bit_eq_mod)
  have "take_bit 12 p = 0" if "\<forall>n < 12. \<not> bit p n"
    by (rule bit_word_eqI) (use that in \<open>simp add: bit_take_bit_iff\<close>)
  moreover have "\<not> bit p n" if z: "take_bit 12 p = 0" and "n < 12" for n
  proof -
    have "\<not> bit (take_bit 12 p) n" unfolding z by simp
    then show ?thesis using that(2) by (simp add: bit_take_bit_iff)
  qed
  ultimately show ?thesis unfolding t by blast
qed

lemma V2P_low: "p mod 4096 = 0 \<Longrightarrow> V2P p mod 4096 = 0"
proof -
  assume p: "p mod 4096 = 0"
  have "unat (p mod 4096) = 0" using p by simp
  then have "unat p mod 4096 = 0" by (simp add: unat_mod)
  then obtain k where k: "unat p = 4096 * k" by (auto simp: mod_eq_0_iff_dvd dvd_def)
  have "4096 * k - 2147483648 = 4096 * (k - 524288)" "2147483648 + 4096 * k = 4096 * (524288 + k)"
    by (simp_all add: diff_mult_distrib2)
  then have "unat (V2P p) mod 4096 = 0"
    using k by (auto simp: V2P_def KERNBASE_def unat_sub_if')
  then have "unat (V2P p mod 4096) = 0" by (simp add: unat_mod)
  then show ?thesis by (metis unat_eq_zero)
qed

lemma table_entry:
  assumes "p mod PGSIZE = 0"
  shows "PTE_ADDR (V2P p OR PTE_P OR PTE_W OR PTE_U) = V2P p"
    and "(V2P p OR PTE_P OR PTE_W OR PTE_U) AND PTE_P \<noteq> 0"
proof -
  have z: "\<not> bit (V2P p) n" if "n < 12" for n
    using V2P_low [of p] assms that by (simp add: PGSIZE_def low_bits_iff)
  have f: "PTE_P OR PTE_W OR PTE_U = 7" by (simp add: PTE_P_def PTE_W_def PTE_U_def)
  have seven: "bit (7 :: uint) n \<longleftrightarrow> n < 3" for n
  proof -
    have e: "(7 :: uint) = mask 3" by (simp add: mask_eq_exp_minus_1)
    show ?thesis unfolding e by (auto simp: bit_mask_iff)
  qed
  show "PTE_ADDR (V2P p OR PTE_P OR PTE_W OR PTE_U) = V2P p"
    unfolding PTE_ADDR_def f
    unfolding bit_eq_iff bit_and_iff bit_or_iff bit_not_iff bit_0xFFF seven
    using z by (auto dest: bit_imp_le_length)
  have "bit ((V2P p OR PTE_P OR PTE_W OR PTE_U) AND PTE_P) 0"
    unfolding f by (simp add: PTE_P_def bit_simps)
  then show "(V2P p OR PTE_P OR PTE_W OR PTE_U) AND PTE_P \<noteq> 0" by (metis bit_0_eq bot_apply bot_bool_def)
qed

lemma P2V_V2P [simp]: "P2V (V2P p) = p"
  by (simp add: P2V_def V2P_def)

subsection \<open>Entries of a page\<close>

definition slot :: "mem \<Rightarrow> uint \<Rightarrow> nat \<Rightarrow> uint" where
  "slot m p i = load32 m (unat p + 4 * i)"

lemma in_page_slot: "i < 1024 \<Longrightarrow> k < 4 \<Longrightarrow> in_page p (unat p + 4 * i + k)"
  by (simp add: in_page_def)

lemma slot_page:
  assumes "unat p mod 4096 = 0" and "unat q mod 4096 = 0" and "p \<noteq> q" and "i < 1024"
    and "\<And>x. \<not> in_page p x \<Longrightarrow> m' x = m x"
  shows "slot m' q i = slot m q i"
  unfolding slot_def by (rule load32_cong) (metis assms in_page_disjoint in_page_slot)

lemma store32_page: "i < 1024 \<Longrightarrow> \<not> in_page p x \<Longrightarrow> store32 (unat p + 4 * i) w m x = m x"
  by (rule store32_out) (auto simp: in_page_def)

lemma slot_store32:
  assumes "unat p mod 4096 = 0" and "unat q mod 4096 = 0" and "i < 1024" and "j < 1024"
  shows "slot (store32 (unat p + 4 * i) w m) q j = (if q = p \<and> j = i then w else slot m q j)"
proof (cases "q = p")
  case True
  show ?thesis
  proof (cases "j = i")
    case False
    then have "slot (store32 (unat p + 4 * i) w m) p j = slot m p j"
      unfolding slot_def by (intro load32_cong store32_out) auto
    then show ?thesis using True False by simp
  qed (simp add: True slot_def)
next
  case False
  then have "slot (store32 (unat p + 4 * i) w m) q j = slot m q j"
    by (intro slot_page [of p] store32_page) (use assms in auto)
  then show ?thesis using False by simp
qed

lemma slot_zeroed: "i < 1024 \<Longrightarrow> slot (memset (unat p) 0 4096 m) p i = 0"
  by (simp add: slot_def load32_def memset_spec)

lemma slot_address:
  fixes d i :: uint
  assumes "unat d mod 4096 = 0" and "unat i < 1024"
  shows "unat (d + 4 * i) = unat d + 4 * unat i"
proof -
  have b: "unat d < 2 ^ 32" by (rule unat_bound)
  obtain k where k: "unat d = 4096 * k" using assms(1) by (auto simp: mod_eq_0_iff_dvd dvd_def)
  then have "k < 1048576" using b by simp
  then have l: "unat d + 4 * unat i < 2 ^ 32" using assms(2) k by simp
  have "d + 4 * i = word_of_nat (unat d + 4 * unat i)" by simp
  then show ?thesis using unat_of_nat32 [OF l] by simp
qed

lemma load_at_slot:
  "unat d mod 4096 = 0 \<Longrightarrow> unat i < 1024 \<Longrightarrow> load_at (d + 4 * i) s = slot (kmem s) d (unat i)"
  by (simp add: load_at_def slot_def slot_address)

lemma store_at_slot:
  "unat d mod 4096 = 0 \<Longrightarrow> unat i < 1024 \<Longrightarrow>
    store_at (d + 4 * i) w s = s\<lparr>kmem := store32 (unat d + 4 * unat i) w (kmem s)\<rparr>"
  by (simp add: store_at_def slot_address)

subsection \<open>Page directories\<close>

definition present :: "uint \<Rightarrow> bool" where
  "present e \<longleftrightarrow> e AND PTE_P \<noteq> 0"

definition table_of :: "mem \<Rightarrow> uint \<Rightarrow> nat \<Rightarrow> uint option" where
  "table_of m d i = (if present (slot m d i) then Some (P2V (PTE_ADDR (slot m d i))) else None)"

text \<open>The entry the processor uses for an address, if there is one.\<close>

definition page_entry :: "mem \<Rightarrow> uint \<Rightarrow> uint \<Rightarrow> uint option" where
  "page_entry m d v = (case table_of m d (unat (PDX v)) of
     None \<Rightarrow> None
   | Some q \<Rightarrow> let e = slot m q (unat (PTX v)) in if present e then Some e else None)"

text \<open>A page directory whose tables are pages of their own, none of them free.\<close>

definition dir_ok :: "'z vstate_scheme \<Rightarrow> uint \<Rightarrow> uint list \<Rightarrow> bool" where
  "dir_ok s d ps \<longleftrightarrow> free_pages s ps \<and> page_ok s d \<and> d \<notin> set ps
     \<and> (\<forall>i q. i < 1024 \<longrightarrow> table_of (kmem s) d i = Some q \<longrightarrow>
          page_ok s q \<and> q \<noteq> d \<and> q \<notin> set ps \<and> (\<forall>j < 1024. table_of (kmem s) d j = Some q \<longrightarrow> j = i))"

lemma dir_okD:
  assumes "dir_ok s d ps" and "i < 1024" and "table_of (kmem s) d i = Some q"
  shows "page_ok s q" and "q \<noteq> d" and "q \<notin> set ps" and "\<And>j. j < 1024 \<Longrightarrow> table_of (kmem s) d j = Some q \<Longrightarrow> j = i"
  using assms unfolding dir_ok_def by blast+

lemma user_addr_entry:
  assumes "dir_ok s d ps"
  shows "user_addr d v s = map_option (\<lambda>e. P2V (PTE_ADDR e) + (v AND 0xFFF)) (page_entry (kmem s) d v)"
proof -
  have d: "unat d mod 4096 = 0" using assms by (auto simp: dir_ok_def dest: page_ok_unat)
  show ?thesis
  proof (cases "table_of (kmem s) d (unat (PDX v))")
    case None
    then show ?thesis
      by (auto simp: user_addr_def Let_def load_at_slot d PDX_less page_entry_def table_of_def present_def split: if_splits)
  next
    case (Some q)
    have q: "unat q mod 4096 = 0" using page_ok_unat [OF dir_okD(1) [OF assms PDX_less Some]] .
    have e: "slot (kmem s) d (unat (PDX v)) AND PTE_P \<noteq> 0" "q = P2V (PTE_ADDR (slot (kmem s) d (unat (PDX v))))"
      using Some by (auto simp: table_of_def present_def split: if_splits)
    show ?thesis
      using Some e q by (simp add: user_addr_def Let_def load_at_slot d PDX_less PTX_less page_entry_def present_def)
  qed
qed

subsection \<open>Writing an entry\<close>

definition entry_addr :: "mem \<Rightarrow> uint \<Rightarrow> uint \<Rightarrow> uint" where
  "entry_addr m d v = the (table_of m d (unat (PDX v))) + 4 * PTX v"

lemma table_of_store:
  assumes "unat d mod 4096 = 0" and "unat q mod 4096 = 0" and "q \<noteq> d" and "j < 1024" and "i < 1024"
  shows "table_of (store32 (unat q + 4 * j) w m) d i = table_of m d i"
  by (simp add: table_of_def slot_store32 assms) (use assms(3) in auto)

lemma dir_ok_write:
  assumes h: "dir_ok s d ps" and q: "q \<notin> set ps" "page_ok s q"
    and m: "\<And>x. \<not> in_page q x \<Longrightarrow> m x = kmem s x" and t: "\<And>i. i < 1024 \<Longrightarrow> table_of m d i = table_of (kmem s) d i"
  shows "dir_ok (s\<lparr>kmem := m\<rparr>) d ps"
proof -
  have "free_pages (s\<lparr>kmem := m\<rparr>) ps" using h q m by (intro free_pages_write) (auto simp: dir_ok_def)
  moreover have "page_ok (s\<lparr>kmem := m\<rparr>) = page_ok s" by (rule page_ok_cong) simp
  ultimately show ?thesis using h t by (simp add: dir_ok_def)
qed

lemma entry_written:
  fixes s :: "'z vstate_scheme" and e :: uint
  assumes h: "dir_ok s d ps" and q: "table_of (kmem s) d (unat (PDX v)) = Some q"
  defines "t \<equiv> store_at (entry_addr (kmem s) d v) e s"
  shows "dir_ok t d ps" and "page_entry (kmem t) d w =
      (if PGROUNDDOWN w = PGROUNDDOWN v then if present e then Some e else None else page_entry (kmem s) d w)"
    and "\<And>i. i < 1024 \<Longrightarrow> table_of (kmem t) d i = table_of (kmem s) d i"
    and "\<And>x. \<not> in_page q x \<Longrightarrow> kmem t x = kmem s x"
proof -
  note qq = dir_okD [OF h PDX_less q]
  have al: "unat d mod 4096 = 0" "unat q mod 4096 = 0" using h qq(1) by (auto simp: dir_ok_def dest: page_ok_unat)
  have t: "t = s\<lparr>kmem := store32 (unat q + 4 * unat (PTX v)) e (kmem s)\<rparr>"
    by (simp add: t_def entry_addr_def q store_at_slot al PTX_less)
  show "kmem t x = kmem s x" if "\<not> in_page q x" for x
    using that by (simp add: t store32_page PTX_less)
  show tab: "table_of (kmem t) d i = table_of (kmem s) d i" if "i < 1024" for i
    using qq(2) by (simp add: t table_of_store al that PTX_less)
  show "dir_ok t d ps"
    unfolding t by (rule dir_ok_write [OF h qq(3,1)]) (use tab in \<open>auto simp: t store32_page PTX_less\<close>)
  have slots: "slot (kmem t) q' (unat (PTX w)) = (if q' = q \<and> PTX w = PTX v then e else slot (kmem s) q' (unat (PTX w)))"
    if "unat q' mod 4096 = 0" for q'
    by (auto simp: t slot_store32 al that PTX_less word_unat_eq_iff)
  show "page_entry (kmem t) d w =
      (if PGROUNDDOWN w = PGROUNDDOWN v then if present e then Some e else None else page_entry (kmem s) d w)"
  proof (cases "table_of (kmem s) d (unat (PDX w))")
    case None
    then have "PDX w \<noteq> PDX v" using q by auto
    then have "PGROUNDDOWN w \<noteq> PGROUNDDOWN v" using same_page_iff by blast
    then show ?thesis using None tab [OF PDX_less, of w] by (simp add: page_entry_def)
  next
    case (Some q')
    have a: "unat q' mod 4096 = 0" using dir_okD(1) [OF h PDX_less Some] by (rule page_ok_unat)
    have "q' = q \<longleftrightarrow> PDX w = PDX v"
      using Some q qq(4) [OF PDX_less, of w] by (auto simp: word_unat_eq_iff [of "PDX w"])
    then have "q' = q \<and> PTX w = PTX v \<longleftrightarrow> PGROUNDDOWN w = PGROUNDDOWN v" using same_page_iff by blast
    then show ?thesis using Some tab [OF PDX_less, of w] slots [OF a] by (simp add: page_entry_def Let_def)
  qed
qed

subsection \<open>walkpgdir\<close>

lemma page_zeroed:
  assumes h: "dir_ok s d ps" and n: "table_of (kmem s) d (unat (PDX v)) = None" and p: "page_ok s p" "p \<notin> set ps" "p \<noteq> d"
    and new: "\<And>i. i < 1024 \<Longrightarrow> table_of (kmem s) d i \<noteq> Some p"
  defines "m \<equiv> memset (unat p) 0 4096 (kmem s)"
  defines "t \<equiv> store_at (d + 4 * PDX v) (V2P p OR PTE_P OR PTE_W OR PTE_U) (s\<lparr>kmem := m\<rparr>)"
  shows "dir_ok t d ps" and "page_entry (kmem t) d w = page_entry (kmem s) d w"
    and "table_of (kmem t) d (unat (PDX v)) = Some p"
    and "\<And>i. i < 1024 \<Longrightarrow> table_of (kmem t) d i = (if i = unat (PDX v) then Some p else table_of (kmem s) d i)"
    and "\<And>x. \<not> in_page d x \<Longrightarrow> \<not> in_page p x \<Longrightarrow> kmem t x = kmem s x"
proof -
  have al: "unat d mod 4096 = 0" "unat p mod 4096 = 0" and dd: "page_ok s d" "d \<notin> set ps"
    using h p(1) by (auto simp: dir_ok_def dest: page_ok_unat)
  have out: "\<not> in_page p x \<Longrightarrow> m x = kmem s x" for x by (auto simp: m_def memset_spec in_page_def)
  have t: "t = s\<lparr>kmem := store32 (unat d + 4 * unat (PDX v)) (V2P p OR PTE_P OR PTE_W OR PTE_U) m\<rparr>"
    by (simp add: t_def store_at_slot al PDX_less)
  have keep: "slot m q i = slot (kmem s) q i" if "unat q mod 4096 = 0" "q \<noteq> p" "i < 1024" for q i
    by (rule slot_page [of p]) (use al that out in auto)
  have fresh: "PTE_ADDR (V2P p OR PTE_P OR PTE_W OR PTE_U) = V2P p" "present (V2P p OR PTE_P OR PTE_W OR PTE_U)"
    using p(1) table_entry [of p] by (auto simp: page_ok_def present_def)
  show "kmem t x = kmem s x" if "\<not> in_page d x" "\<not> in_page p x" for x
    using that out by (simp add: t store32_page PDX_less)
  show tab: "table_of (kmem t) d i = (if i = unat (PDX v) then Some p else table_of (kmem s) d i)" if "i < 1024" for i
    using p(3) by (simp add: t table_of_def slot_store32 al that PDX_less keep fresh)
  then show "table_of (kmem t) d (unat (PDX v)) = Some p" using PDX_less by simp
  have "free_pages (s\<lparr>kmem := m\<rparr>) ps" using h p out by (intro free_pages_write) (auto simp: dir_ok_def)
  then have "free_pages ((s\<lparr>kmem := m\<rparr>)\<lparr>kmem := kmem t\<rparr>) ps"
    by (rule free_pages_write [OF _ dd(2)]) (use dd(1) in \<open>auto simp: t page_ok_def store32_page PDX_less\<close>)
  then have "free_pages t ps" by (simp add: t)
  moreover have "page_ok t = page_ok s" by (rule page_ok_cong) (simp add: t)
  ultimately show "dir_ok t d ps" using h p new n by (auto simp: dir_ok_def tab split: if_splits)
  have other: "slot (kmem t) q i = slot (kmem s) q i" if "unat q mod 4096 = 0" "q \<noteq> p" "q \<noteq> d" "i < 1024" for q i
    by (simp add: t slot_store32 al that PDX_less keep)
  have zero: "slot (kmem t) p i = 0" if "i < 1024" for i
    using p(3) that by (simp add: t slot_store32 al PDX_less m_def slot_zeroed)
  show "page_entry (kmem t) d w = page_entry (kmem s) d w"
  proof (cases "unat (PDX w) = unat (PDX v)")
    case True
    then show ?thesis using n tab [OF PDX_less, of w] by (simp add: page_entry_def zero PTX_less present_def)
  next
    case ne: False
    show ?thesis
    proof (cases "table_of (kmem s) d (unat (PDX w))")
      case None
      then show ?thesis using ne tab [OF PDX_less, of w] by (simp add: page_entry_def)
    next
      case (Some q)
      note q = dir_okD [OF h PDX_less Some]
      have "slot (kmem t) q (unat (PTX w)) = slot (kmem s) q (unat (PTX w))"
        by (rule other [OF page_ok_unat [OF q(1)]]) (use q(2) new [OF PDX_less, of w] Some PTX_less in auto)
      then show ?thesis using Some ne tab [OF PDX_less, of w] by (simp add: page_entry_def)
    qed
  qed
qed

text \<open>The pages of a directory: itself and its tables.\<close>

definition dir_pages :: "mem \<Rightarrow> uint \<Rightarrow> uint set" where
  "dir_pages m d = insert d {q. \<exists>i < 1024. table_of m d i = Some q}"

lemma dir_pages_card:
  "finite (dir_pages m d)" "i < 1024 \<Longrightarrow> table_of m d i = None \<Longrightarrow> card (dir_pages m d) \<le> 1024"
proof -
  have sub: "dir_pages m d \<subseteq> insert d ((\<lambda>i. the (table_of m d i)) ` {i. i < 1024 \<and> table_of m d i \<noteq> None})"
    by (force simp: dir_pages_def)
  then show "finite (dir_pages m d)" by (rule finite_subset) simp
  assume i: "i < 1024" "table_of m d i = None"
  then have "{i. i < 1024 \<and> table_of m d i \<noteq> None} \<subseteq> {..<1024} - {i}" by auto
  then have "card {i. i < 1024 \<and> table_of m d i \<noteq> None} \<le> 1023"
    using card_mono [of "{..<1024} - {i}" "{i. i < 1024 \<and> table_of m d i \<noteq> None}"] i(1) by simp
  moreover have "card ((\<lambda>i. the (table_of m d i)) ` {i. i < 1024 \<and> table_of m d i \<noteq> None})
      \<le> card {i. i < 1024 \<and> table_of m d i \<noteq> None}" by (rule card_image_le) simp
  ultimately have "card (insert d ((\<lambda>i. the (table_of m d i)) ` {i. i < 1024 \<and> table_of m d i \<noteq> None})) \<le> 1024"
    by (simp add: card_insert_if)
  then show "card (dir_pages m d) \<le> 1024" using card_mono [OF _ sub] by simp
qed

lemma dir_pages_not_free: "dir_ok s d ps \<Longrightarrow> dir_pages (kmem s) d \<inter> set ps = {}"
  by (auto simp: dir_pages_def dir_ok_def)

text \<open>
  What an operation on a directory may do: take pages from the front of the free list for tables, and
  write into its own pages and those it takes.
\<close>

definition takes :: "uint \<Rightarrow> 'z vstate_scheme \<Rightarrow> uint list \<Rightarrow> 'z vstate_scheme \<Rightarrow> uint list \<Rightarrow> bool" where
  "takes d s ps t ps' \<longleftrightarrow> dir_ok t d ps'
     \<and> (\<exists>us. ps = us @ ps' \<and> dir_pages (kmem t) d = dir_pages (kmem s) d \<union> set us)
     \<and> (\<forall>x. (\<forall>p \<in> dir_pages (kmem s) d \<union> set ps. \<not> in_page p x) \<longrightarrow> kmem t x = kmem s x)
     \<and> (\<exists>m f. t = s\<lparr>kmem := m, freelist := f\<rparr>)"

lemma takes_refl: "dir_ok s d ps \<Longrightarrow> takes d s ps s ps"
proof -
  have "s = s\<lparr>kmem := kmem s, freelist := freelist s\<rparr>" by simp
  then have "\<exists>m f. s = s\<lparr>kmem := m, freelist := f\<rparr>" by blast
  moreover assume "dir_ok s d ps"
  ultimately show ?thesis by (auto simp: takes_def)
qed

lemma takes_fields:
  "takes d s ps t ps' \<Longrightarrow> kmem_free t = kmem_free s \<and> k_end t = k_end s \<and> k_data t = k_data s"
  by (auto simp: takes_def kmem_free_def)

lemma takes_trans:
  assumes st: "takes d s ps t qs" and tu: "takes d t qs u rs"
  shows "takes d s ps u rs"
proof -
  obtain us m f where t: "ps = us @ qs" "dir_pages (kmem t) d = dir_pages (kmem s) d \<union> set us"
    "t = s\<lparr>kmem := m, freelist := f\<rparr>" "\<And>x. \<forall>p \<in> dir_pages (kmem s) d \<union> set ps. \<not> in_page p x \<Longrightarrow> kmem t x = kmem s x"
    using st unfolding takes_def by blast
  obtain vs m' f' where u: "qs = vs @ rs" "dir_pages (kmem u) d = dir_pages (kmem t) d \<union> set vs"
    "u = t\<lparr>kmem := m', freelist := f'\<rparr>" "dir_ok u d rs"
    "\<And>x. \<forall>p \<in> dir_pages (kmem t) d \<union> set qs. \<not> in_page p x \<Longrightarrow> kmem u x = kmem t x"
    using tu unfolding takes_def by blast
  have "u = s\<lparr>kmem := m', freelist := f'\<rparr>" using t(3) u(3) by simp
  moreover have "ps = (us @ vs) @ rs" "dir_pages (kmem u) d = dir_pages (kmem s) d \<union> set (us @ vs)"
    using t(1,2) u(1,2) by auto
  moreover have "kmem u x = kmem s x" if "\<forall>p \<in> dir_pages (kmem s) d \<union> set ps. \<not> in_page p x" for x
    using that t(1,2) t(4) [of x] u(5) [of x] by auto
  ultimately show ?thesis unfolding takes_def using u(4) by blast
qed

text \<open>The pages are counted: what the directory gained the list lost.\<close>

lemma takes_count:
  assumes "takes d s ps t ps'" and "dir_ok s d ps"
  shows "length ps' + card (dir_pages (kmem t) d) = length ps + card (dir_pages (kmem s) d)"
proof -
  obtain us where us: "ps = us @ ps'" "dir_pages (kmem t) d = dir_pages (kmem s) d \<union> set us"
    using assms(1) unfolding takes_def by blast
  have "distinct us" using assms(2) us(1) by (auto simp: dir_ok_def free_pages_def)
  moreover have "dir_pages (kmem s) d \<inter> set us = {}" using dir_pages_not_free [OF assms(2)] us(1) by auto
  ultimately show ?thesis using us dir_pages_card(1) by (simp add: card_Un_disjoint distinct_card)
qed

lemma takes_store:
  assumes h: "dir_ok s d ps" and q: "table_of (kmem s) d (unat (PDX v)) = Some q"
  shows "takes d s ps (store_at (entry_addr (kmem s) d v) e s) ps"
proof -
  let ?t = "store_at (entry_addr (kmem s) d v) e s"
  note w = entry_written [OF h q, where e = e]
  have "dir_pages (kmem ?t) d = dir_pages (kmem s) d"
    unfolding dir_pages_def using w(3) by (intro arg_cong [of _ _ "insert d"] Collect_cong) auto
  moreover have "q \<in> dir_pages (kmem s) d" using q PDX_less by (auto simp: dir_pages_def)
  then have "kmem ?t x = kmem s x" if "\<forall>p \<in> dir_pages (kmem s) d \<union> set ps. \<not> in_page p x" for x
    using w(4) that by blast
  moreover have "?t = s\<lparr>kmem := kmem ?t, freelist := freelist s\<rparr>" by (simp add: store_at_def)
  then have "\<exists>m f. ?t = s\<lparr>kmem := m, freelist := f\<rparr>" by blast
  ultimately show ?thesis using w(1) unfolding takes_def by auto
qed

lemma walkpgdir_allocates:
  assumes h: "dir_ok s d ps" and "kmem_free s"
  shows "\<exists>t ps'. takes d s ps t ps' \<and> page_entry (kmem t) d = page_entry (kmem s) d \<and>
    (walkpgdir d v True s = Ok None t \<and> ps' = [] \<and> card (dir_pages (kmem t) d) \<le> 1024
     \<or> walkpgdir d v True s = Ok (Some (entry_addr (kmem t) d v)) t \<and> (\<exists>q. table_of (kmem t) d (unat (PDX v)) = Some q))"
proof (cases "table_of (kmem s) d (unat (PDX v))")
  case (Some q)
  have "unat d mod 4096 = 0" using h by (auto simp: dir_ok_def dest: page_ok_unat)
  then have "walkpgdir d v True s = Ok (Some (entry_addr (kmem s) d v)) s"
    using Some by (auto simp: walkpgdir_def Let_def load_at_slot PDX_less entry_addr_def table_of_def present_def split: if_splits)
  then show ?thesis using takes_refl [OF h] Some by blast
next
  case None
  have al: "unat d mod 4096 = 0" using h by (auto simp: dir_ok_def dest: page_ok_unat)
  have e: "load_at (d + 4 * PDX v) s AND PTE_P = 0"
    using None by (simp add: load_at_slot al PDX_less table_of_def present_def split: if_splits)
  have walk: "walkpgdir d v True s = bind kalloc (\<lambda>pgtab. if pgtab = 0 then ret None
       else bind (modify (memset_page pgtab 0)) (\<lambda>_.
         bind (modify (store_at (d + 4 * PDX v) (V2P pgtab OR PTE_P OR PTE_W OR PTE_U))) (\<lambda>_.
         ret (Some (pgtab + 4 * PTX v))))) s"
    using e by (simp add: walkpgdir_def Let_def)
  have f: "free_pages s ps" using h by (simp add: dir_ok_def)
  show ?thesis
  proof (cases ps)
    case Nil
    then have "freelist s = 0" using f kalloc_empty by auto
    then have "walkpgdir d v True s = Ok None s" by (simp add: walk kalloc_run [OF assms(2)])
    then show ?thesis using takes_refl [OF h] Nil dir_pages_card(2) [OF PDX_less None] by blast
  next
    case (Cons p ps')
    let ?s = "s\<lparr>freelist := load32 (kmem s) (unat p)\<rparr>"
    have k: "freelist s = p" "p \<noteq> 0" and f': "free_pages ?s ps'" using kalloc_pops f Cons by blast+
    have pg: "page_ok ?s = page_ok s" by (rule page_ok_cong) simp
    have "dir_ok ?s d ps'" using h f' Cons by (auto simp: dir_ok_def pg)
    moreover have "p \<notin> set ps'" "p \<noteq> d" "page_ok ?s p" using f h Cons by (auto simp: free_pages_def dir_ok_def pg)
    moreover have "table_of (kmem ?s) d i \<noteq> Some p" if "i < 1024" for i using dir_okD(3) [OF h that] Cons by auto
    moreover have "table_of (kmem ?s) d (unat (PDX v)) = None" using None by simp
    ultimately have z: "dir_ok ?s d ps'" "table_of (kmem ?s) d (unat (PDX v)) = None" "page_ok ?s p" "p \<notin> set ps'" "p \<noteq> d"
      "\<And>i. i < 1024 \<Longrightarrow> table_of (kmem ?s) d i \<noteq> Some p" by blast+
    let ?t = "store_at (d + 4 * PDX v) (V2P p OR PTE_P OR PTE_W OR PTE_U) (?s\<lparr>kmem := memset (unat p) 0 4096 (kmem ?s)\<rparr>)"
    have run: "walkpgdir d v True s = Ok (Some (p + 4 * PTX v)) ?t"
      using k by (simp add: walk kalloc_run [OF assms(2)] memset_page_def PGSIZE_def)
    have pe: "page_entry (kmem ?t) d = page_entry (kmem s) d"
      using page_zeroed(2) [OF z] by (auto simp: fun_eq_iff)
    have ea: "entry_addr (kmem ?t) d v = p + 4 * PTX v" using page_zeroed(3) [OF z] by (simp add: entry_addr_def)
    have dp: "dir_pages (kmem ?t) d = dir_pages (kmem s) d \<union> set [p]"
    proof -
      define M where "M = kmem ?t"
      have tab: "table_of M d i = (if i = unat (PDX v) then Some p else table_of (kmem s) d i)" if "i < 1024" for i
        using page_zeroed(4) [OF z that] unfolding M_def by simp
      have "(\<exists>i<1024. table_of M d i = Some q) \<longleftrightarrow> q = p \<or> (\<exists>i<1024. table_of (kmem s) d i = Some q)" for q
        using None PDX_less [of v] tab by (metis option.discI option.inject)
      then show ?thesis unfolding dir_pages_def M_def by auto
    qed
    have fr: "kmem ?t x = kmem s x" if "\<forall>q \<in> dir_pages (kmem s) d \<union> set ps. \<not> in_page q x" for x
      using page_zeroed(5) [OF z, of x] that Cons by (simp add: dir_pages_def)
    have "?t = s\<lparr>kmem := kmem ?t, freelist := freelist ?t\<rparr>" by (simp add: store_at_def)
    then have st: "\<exists>m f. ?t = s\<lparr>kmem := m, freelist := f\<rparr>" by blast
    have "ps = [p] @ ps'" by (simp add: Cons)
    then have "takes d s ps ?t ps'"
      unfolding takes_def using page_zeroed(1) [OF z] dp fr st by blast
    then show ?thesis using run pe ea page_zeroed(3) [OF z] by metis
  qed
qed

end
