(* ===== verification/Vm_Claims.thy ===== *)
theory Vm_Claims
  imports Vm_Props Kalloc_Claims
begin

text \<open>Page tables: \<open>mappages\<close> is the update of the map from pages to entries.\<close>

subsection \<open>The pages of a range\<close>

text \<open>How many pages after \<open>a\<close> the page of \<open>v\<close> comes, around the end of the address space.\<close>

definition page_index :: "uint \<Rightarrow> uint \<Rightarrow> nat" where
  "page_index a v = unat (PGROUNDDOWN v - PGROUNDDOWN a) div unat PGSIZE"

lemma aligned_iff: "(v :: uint) mod 4096 = 0 \<longleftrightarrow> (\<exists>q. v = q * 4096)"
proof
  assume "v mod 4096 = 0"
  then have z: "\<not> bit v n" if "n < 12" for n using that by (simp add: low_bits_iff)
  have "v = push_bit 12 (drop_bit 12 v)"
  proof (rule bit_word_eqI)
    fix n assume "n < LENGTH(32)"
    then show "bit v n = bit (push_bit 12 (drop_bit 12 v)) n"
      using z [of n] by (cases "n < 12") (simp_all add: bit_push_bit_iff bit_drop_bit_eq)
  qed
  then have "v = drop_bit 12 v * 4096" by (simp add: push_bit_eq_mult)
  then show "\<exists>q. v = q * 4096" ..
next
  assume "\<exists>q. v = q * 4096"
  then obtain q where "v = push_bit 12 q" by (auto simp: push_bit_eq_mult)
  then show "v mod 4096 = 0" unfolding low_bits_iff by (simp add: bit_push_bit_iff)
qed

lemma aligned_arith:
  fixes a b :: uint
  assumes "a mod 4096 = 0" and "b mod 4096 = 0"
  shows "(a + b) mod 4096 = 0" and "(a - b) mod 4096 = 0"
proof -
  obtain q r where "a = q * 4096" "b = r * 4096" using assms by (auto simp only: aligned_iff)
  then have "a + b = (q + r) * 4096" "a - b = (q - r) * 4096" by (simp_all add: algebra_simps)
  then show "(a + b) mod 4096 = 0" "(a - b) mod 4096 = 0" unfolding aligned_iff by blast+
qed

lemma PGROUNDDOWN_aligned: "PGROUNDDOWN v mod 4096 = 0"
  unfolding low_bits_iff by (simp add: PGROUNDDOWN_bits)

lemma PGROUNDDOWN_id:
  assumes "v mod 4096 = 0"
  shows "PGROUNDDOWN v = v"
proof (rule bit_word_eqI)
  fix n
  have "\<not> bit v n" if "n < 12" using assms that by (simp add: low_bits_iff)
  then show "bit (PGROUNDDOWN v) n = bit v n" unfolding PGROUNDDOWN_bits by (meson not_le)
qed

lemma page_multiple: "(word_of_nat k * PGSIZE) mod 4096 = 0"
  unfolding aligned_iff PGSIZE_def by blast

lemma aligned_unat: "(v :: uint) mod 4096 = 0 \<Longrightarrow> 4096 dvd unat v"
proof -
  assume "v mod 4096 = 0"
  then have "unat (v mod 4096) = 0" by simp
  then show ?thesis by (simp add: unat_mod dvd_eq_mod_eq_0)
qed

lemma unat_PGSIZE: "unat PGSIZE = 4096"
  by (simp add: PGSIZE_def)

lemma page_index_iff:
  assumes "k < 1048576"
  shows "PGROUNDDOWN v = PGROUNDDOWN a + word_of_nat k * PGSIZE \<longleftrightarrow> page_index a v = k"
proof
  have l: "k * 4096 < 2 ^ 32" using assms by simp
  have w: "unat (word_of_nat (k * 4096) :: uint) = k * 4096" by (rule unat_of_nat32 [OF l])
  show "page_index a v = k" if "PGROUNDDOWN v = PGROUNDDOWN a + word_of_nat k * PGSIZE"
    using w by (simp add: page_index_def that PGSIZE_def)
  assume i: "page_index a v = k"
  have "4096 dvd unat (PGROUNDDOWN v - PGROUNDDOWN a)"
    by (intro aligned_unat aligned_arith PGROUNDDOWN_aligned)
  then have "unat (PGROUNDDOWN v - PGROUNDDOWN a) = k * 4096"
    using i by (metis page_index_def dvd_div_mult_self unat_PGSIZE)
  moreover have "PGROUNDDOWN v - PGROUNDDOWN a = word_of_nat (unat (PGROUNDDOWN v - PGROUNDDOWN a))" by simp
  ultimately have "PGROUNDDOWN v - PGROUNDDOWN a = word_of_nat (k * 4096)" by simp
  then show "PGROUNDDOWN v = PGROUNDDOWN a + word_of_nat k * PGSIZE" by (simp add: PGSIZE_def algebra_simps)
qed

lemma page_index_nth: "k < 1048576 \<Longrightarrow> page_index a (PGROUNDDOWN a + word_of_nat k * PGSIZE) = k"
  and PGROUNDDOWN_nth: "PGROUNDDOWN (PGROUNDDOWN a + word_of_nat k * PGSIZE) = PGROUNDDOWN a + word_of_nat k * PGSIZE"
proof -
  show e: "PGROUNDDOWN (PGROUNDDOWN a + word_of_nat k * PGSIZE) = PGROUNDDOWN a + word_of_nat k * PGSIZE"
    by (intro PGROUNDDOWN_id aligned_arith PGROUNDDOWN_aligned page_multiple)
  then show "page_index a (PGROUNDDOWN a + word_of_nat k * PGSIZE) = k" if "k < 1048576"
    using page_index_iff [OF that] by blast
qed

subsection \<open>mappages\<close>

definition new_entry :: "uint \<Rightarrow> uint \<Rightarrow> nat \<Rightarrow> uint" where
  "new_entry pa perm k = (pa + word_of_nat k * PGSIZE) OR perm OR PTE_P"

lemma new_entry_present: "present (new_entry pa perm k)"
proof -
  have "bit (new_entry pa perm k AND PTE_P) 0" by (simp add: new_entry_def PTE_P_def bit_simps)
  then show ?thesis by (metis present_def bit_0_eq bot_apply bot_bool_def)
qed

text \<open>The map after the first \<open>n\<close> pages.\<close>

definition mapped :: "uint \<Rightarrow> uint \<Rightarrow> uint \<Rightarrow> nat \<Rightarrow> (uint \<Rightarrow> uint option) \<Rightarrow> uint \<Rightarrow> uint option" where
  "mapped va pa perm n f v =
     (if page_index va v < n then Some (new_entry pa perm (page_index va v)) else f v)"

definition map_page :: "uint \<Rightarrow> uint \<Rightarrow> uint \<Rightarrow> uint \<Rightarrow> uint \<Rightarrow> ('z, int option) vop" where
  "map_page d va pa perm k = bind (walkpgdir d (PGROUNDDOWN va + k * PGSIZE) True) (\<lambda>pte.
       case pte of
         None \<Rightarrow> ret (Some (- 1))
       | Some pte \<Rightarrow> bind (reads (load_at pte)) (\<lambda>e.
         bind (panic_if (e AND PTE_P \<noteq> 0) ''remap'') (\<lambda>_.
         bind (modify (store_at pte ((pa + k * PGSIZE) OR perm OR PTE_P))) (\<lambda>_.
         ret None))))"

lemma map_page_run:
  assumes h: "dir_ok s d ps" "kmem_free s" and n: "n < 1048576"
    and f: "page_entry (kmem s) d = mapped va pa perm n f" and new: "f (PGROUNDDOWN va + word_of_nat n * PGSIZE) = None"
  shows "\<exists>r t ps'. map_page d va pa perm (word_of_nat n) s = Ok r t \<and> takes d s ps t ps' \<and>
    (r = None \<and> page_entry (kmem t) d = mapped va pa perm (Suc n) f
     \<or> r = Some (- 1) \<and> ps' = [] \<and> card (dir_pages (kmem t) d) \<le> 1024 \<and> page_entry (kmem t) d = mapped va pa perm n f)"
proof -
  let ?v = "PGROUNDDOWN va + word_of_nat n * PGSIZE"
  obtain t ps' where t: "takes d s ps t ps'" "page_entry (kmem t) d = page_entry (kmem s) d"
    and w: "walkpgdir d ?v True s = Ok None t \<and> ps' = [] \<and> card (dir_pages (kmem t) d) \<le> 1024
     \<or> walkpgdir d ?v True s = Ok (Some (entry_addr (kmem t) d ?v)) t \<and> (\<exists>q. table_of (kmem t) d (unat (PDX ?v)) = Some q)"
    using walkpgdir_allocates [OF h] by blast
  have pt: "page_entry (kmem t) d = mapped va pa perm n f" and ok: "dir_ok t d ps'" using t f by (simp_all add: takes_def)
  from w show ?thesis
  proof
    assume "walkpgdir d ?v True s = Ok None t \<and> ps' = [] \<and> card (dir_pages (kmem t) d) \<le> 1024"
    then show ?thesis using t(1) pt by (auto simp: map_page_def)
  next
    assume a: "walkpgdir d ?v True s = Ok (Some (entry_addr (kmem t) d ?v)) t \<and> (\<exists>q. table_of (kmem t) d (unat (PDX ?v)) = Some q)"
    then obtain q where q: "table_of (kmem t) d (unat (PDX ?v)) = Some q" by blast
    let ?e = "(pa + word_of_nat n * PGSIZE) OR perm OR PTE_P"
    let ?t = "store_at (entry_addr (kmem t) d ?v) ?e t"
    have "page_entry (kmem t) d ?v = None" using new by (simp add: pt mapped_def page_index_nth [OF n])
    moreover have "unat q mod 4096 = 0" using page_ok_unat [OF dir_okD(1) [OF ok PDX_less q]] .
    ultimately have "load_at (entry_addr (kmem t) d ?v) t AND PTE_P = 0"
      using q by (simp add: entry_addr_def load_at_slot PTX_less page_entry_def Let_def present_def split: if_splits)
    then have "map_page d va pa perm (word_of_nat n) s = Ok None ?t" using a by (simp add: map_page_def)
    moreover have "page_entry (kmem ?t) d = mapped va pa perm (Suc n) f"
    proof
      fix v
      have "PGROUNDDOWN v = PGROUNDDOWN ?v \<longleftrightarrow> page_index va v = n"
        using page_index_iff [OF n] by (simp add: PGROUNDDOWN_nth)
      then show "page_entry (kmem ?t) d v = mapped va pa perm (Suc n) f v"
        using new_entry_present [of pa perm n] entry_written(2) [OF ok q, of ?e v]
        by (auto simp: pt mapped_def new_entry_def less_Suc_eq)
    qed
    moreover have "takes d s ps ?t ps'" by (rule takes_trans [OF t(1) takes_store [OF ok q]])
    ultimately show ?thesis by blast
  qed
qed

lemma map_pages_run:
  assumes "dir_ok s d ps" "kmem_free s" and "n + k \<le> 1048576"
    and "page_entry (kmem s) d = mapped va pa perm n f"
    and "\<And>i. i < n + k \<Longrightarrow> f (PGROUNDDOWN va + word_of_nat i * PGSIZE) = None"
  shows "\<exists>r t ps' n'. for_each (map word_of_nat [n..<n + k]) (map_page d va pa perm) s = Ok r t \<and> takes d s ps t ps'
    \<and> page_entry (kmem t) d = mapped va pa perm n' f
    \<and> (r = None \<and> n' = n + k \<or> r = Some (- 1) \<and> ps' = [] \<and> card (dir_pages (kmem t) d) \<le> 1024 \<and> n' < n + k)"
  using assms
proof (induction k arbitrary: n s ps)
  case 0
  then show ?case
    using takes_refl [of s d ps] by (intro exI [of _ None] exI [of _ s] exI [of _ ps] exI [of _ n]) simp
next
  case (Suc k)
  obtain r t ps' where t: "map_page d va pa perm (word_of_nat n) s = Ok r t" "takes d s ps t ps'"
    and r: "r = None \<and> page_entry (kmem t) d = mapped va pa perm (Suc n) f
     \<or> r = Some (- 1) \<and> ps' = [] \<and> card (dir_pages (kmem t) d) \<le> 1024 \<and> page_entry (kmem t) d = mapped va pa perm n f"
    using map_page_run [OF Suc.prems(1,2) _ Suc.prems(4)] Suc.prems(3) Suc.prems(5) [of n] by auto
  have up: "[n..<n + Suc k] = n # [Suc n..<Suc n + k]" by (simp add: upt_conv_Cons)
  from r show ?case
  proof
    assume r: "r = None \<and> page_entry (kmem t) d = mapped va pa perm (Suc n) f"
    then have e: "for_each (map word_of_nat [n..<n + Suc k]) (map_page d va pa perm) s
      = for_each (map word_of_nat [Suc n..<Suc n + k]) (map_page d va pa perm) t"
      using t(1) by (simp only: up list.map for_each.simps) simp
    have "dir_ok t d ps'" "kmem_free t" using t(2) takes_fields [OF t(2)] Suc.prems(2) by (simp_all add: takes_def)
    then have "\<exists>r t' qs n'. for_each (map word_of_nat [Suc n..<Suc n + k]) (map_page d va pa perm) t = Ok r t' \<and> takes d t ps' t' qs
      \<and> page_entry (kmem t') d = mapped va pa perm n' f
      \<and> (r = None \<and> n' = Suc n + k \<or> r = Some (- 1) \<and> qs = [] \<and> card (dir_pages (kmem t') d) \<le> 1024 \<and> n' < Suc n + k)"
      by (rule Suc.IH) (use Suc.prems r in auto)
    then show ?thesis unfolding e using takes_trans [OF t(2)] by (metis add_Suc_shift)
  next
    assume r: "r = Some (- 1) \<and> ps' = [] \<and> card (dir_pages (kmem t) d) \<le> 1024 \<and> page_entry (kmem t) d = mapped va pa perm n f"
    then have "for_each (map word_of_nat [n..<n + Suc k]) (map_page d va pa perm) s = Ok (Some (- 1)) t"
      using t(1) by (simp only: up list.map for_each.simps) simp
    then show ?thesis using r t(2) by (intro exI [of _ "Some (- 1)"] exI [of _ t] exI [of _ ps'] exI [of _ n]) simp
  qed
qed

text \<open>How many pages a call of \<open>mappages\<close> touches.\<close>

definition page_count :: "uint \<Rightarrow> uint \<Rightarrow> nat" where
  "page_count va sz = page_index va (va + sz - 1) + 1"

lemma page_count_bound: "page_count va sz \<le> 1048576"
proof -
  have "unat (PGROUNDDOWN (va + sz - 1) - PGROUNDDOWN va) < 2 ^ 32" by (rule unat_bound)
  then show ?thesis by (simp add: page_count_def page_index_def PGSIZE_def)
qed

lemma mappages_pages:
  "mappages d va sz pa perm = bind (for_each (map word_of_nat [0..<0 + page_count va sz]) (map_page d va pa perm))
     (\<lambda>r. ret (case r of None \<Rightarrow> 0 | Some r \<Rightarrow> r))"
  by (simp add: mappages_def map_page_def [abs_def] page_count_def page_index_def Let_def)

lemma mappages_run:
  assumes "dir_ok s d ps" and "kmem_free s"
    and "\<forall>k < page_count va sz. page_entry (kmem s) d (PGROUNDDOWN va + word_of_nat k * PGSIZE) = None"
  shows "\<exists>r t n ps'. mappages d va sz pa perm s = Ok r t \<and> takes d s ps t ps'
    \<and> (r = 0 \<and> n = page_count va sz \<or> r = - 1 \<and> n < page_count va sz \<and> ps' = [] \<and> card (dir_pages (kmem t) d) \<le> 1024)
    \<and> page_entry (kmem t) d = mapped va pa perm n (page_entry (kmem s) d)"
proof -
  have "page_entry (kmem s) d = mapped va pa perm 0 (page_entry (kmem s) d)" by (simp add: mapped_def fun_eq_iff)
  then obtain r t ps' n where "for_each (map word_of_nat [0..<0 + page_count va sz]) (map_page d va pa perm) s = Ok r t"
    "takes d s ps t ps'" "page_entry (kmem t) d = mapped va pa perm n (page_entry (kmem s) d)"
    "r = None \<and> n = 0 + page_count va sz \<or> r = Some (- 1) \<and> ps' = [] \<and> card (dir_pages (kmem t) d) \<le> 1024 \<and> n < 0 + page_count va sz"
    using map_pages_run [OF assms(1,2), of 0 "page_count va sz" va pa perm "page_entry (kmem s) d"]
      page_count_bound assms(3) by auto
  then show ?thesis
    by (intro exI [of _ "case r of None \<Rightarrow> 0 | Some r \<Rightarrow> r"] exI [of _ t] exI [of _ n] exI [of _ ps'])
      (auto simp: mappages_pages)
qed

text \<open>C25: \<open>mappages\<close> updates the address map and nothing else.  On a directory whose tables are its own,
  if no page of the range is mapped yet, it returns without a panic; every page of the range then leads to
  the next physical page from \<open>pa\<close>, with the permissions and the present bit, and every other page to where
  it led before, through whatever new tables the allocator had to give.  It returns -1 only if the allocator
  ran out, after mapping the pages before that.\<close>
theorem mappages_maps:
  assumes "dir_ok s d ps" and "kmem_free s"
    and "\<forall>k < page_count va sz. page_entry (kmem s) d (PGROUNDDOWN va + word_of_nat k * PGSIZE) = None"
  shows "\<exists>r t n ps'. mappages d va sz pa perm s = Ok r t \<and> dir_ok t d ps'
    \<and> (r = 0 \<and> n = page_count va sz \<or> r = - 1 \<and> n < page_count va sz \<and> freelist t = 0)
    \<and> (\<forall>v. page_entry (kmem t) d v =
        (if page_index va v < n then Some ((pa + word_of_nat (page_index va v) * PGSIZE) OR perm OR PTE_P)
         else page_entry (kmem s) d v))"
proof -
  obtain r t n ps' where t: "mappages d va sz pa perm s = Ok r t" "takes d s ps t ps'"
    "r = 0 \<and> n = page_count va sz \<or> r = - 1 \<and> n < page_count va sz \<and> ps' = [] \<and> card (dir_pages (kmem t) d) \<le> 1024"
    "page_entry (kmem t) d = mapped va pa perm n (page_entry (kmem s) d)"
    using mappages_run [OF assms] by blast
  moreover have "dir_ok t d ps'" using t(2) by (simp add: takes_def)
  moreover have "ps' = [] \<longrightarrow> freelist t = 0" using calculation(5) kalloc_empty by (auto simp: dir_ok_def)
  ultimately show ?thesis by (auto simp: mapped_def new_entry_def)
qed

text \<open>A directory in the first of the two pages whose first table is the second page.\<close>

definition one_table :: vstate where
  "one_table = two_pages\<lparr>kmem := store32 (unat (0x80200000 :: uint) + 4 * 0) 0x201007 (\<lambda>_. 0)\<rparr>"

lemma one_table_slot:
  "unat q mod 4096 = 0 \<Longrightarrow> j < 1024 \<Longrightarrow> slot (kmem one_table) q j = (if q = 0x80200000 \<and> j = 0 then 0x201007 else 0)"
  using slot_store32 [where p = "0x80200000" and q = q and i = 0 and j = j and w = "0x201007" and m = "\<lambda>_. 0"]
  by (simp add: one_table_def slot_def load32_def)

lemma one_table_of: "i < 1024 \<Longrightarrow> table_of (kmem one_table) 0x80200000 i = (if i = 0 then Some 0x80201000 else None)"
  by (simp add: table_of_def one_table_slot present_def PTE_P_def PTE_ADDR_def P2V_def KERNBASE_def)

lemma one_table_ok: "dir_ok one_table 0x80200000 []"
proof -
  have "free_pages one_table []" by (simp add: free_pages_def one_table_def two_pages_def)
  moreover have "page_ok one_table 0x80200000" "page_ok one_table 0x80201000"
    by (simp_all add: page_ok_def one_table_def two_pages_def PGSIZE_def V2P_def KERNBASE_def PHYSTOP_def)
  ultimately show ?thesis unfolding dir_ok_def by (simp add: one_table_of)
qed

lemma one_table_entry: "page_entry (kmem one_table) 0x80200000 0 = None"
  by (simp add: page_entry_def PDX_def PTX_def one_table_of one_table_slot present_def)

lemma mappages_maps_witness:
  "\<exists>t ps'. mappages 0x80200000 0 4096 0x5000 6 one_table = Ok 0 t \<and> dir_ok t 0x80200000 ps'
    \<and> page_entry (kmem t) 0x80200000 0 = Some 0x5007"
proof -
  have c: "page_count 0 4096 = 1" by (simp add: page_count_def page_index_def PGROUNDDOWN_def PGSIZE_def)
  have l: "load_at 0x80200000 one_table = 0x201007" "load_at 0x80201000 one_table = 0"
    using load_at_slot [where d = "0x80200000" and i = 0 and s = one_table]
      load_at_slot [where d = "0x80201000" and i = 0 and s = one_table]
    by (simp_all add: one_table_slot)
  have r: "\<exists>t. mappages 0x80200000 0 4096 0x5000 6 one_table = Ok 0 t"
    by (simp add: mappages_def walkpgdir_def Let_def PGROUNDDOWN_def PGSIZE_def PDX_def PTX_def l
        PTE_P_def PTE_ADDR_def P2V_def KERNBASE_def)
  have f: "kmem_free one_table" by (simp add: kmem_free_def one_table_def two_pages_def)
  have z: "\<forall>k < page_count 0 4096. page_entry (kmem one_table) 0x80200000 (PGROUNDDOWN 0 + word_of_nat k * PGSIZE) = None"
    by (simp add: c PGROUNDDOWN_def one_table_entry)
  have i: "page_index 0 0 = 0" by (simp add: page_index_def)
  show ?thesis
    using mappages_maps [OF one_table_ok f z, of "0x5000" 6] r by (auto simp: c i PTE_P_def dest: spec [of _ 0])
qed

end
