(* ===== verification/Copy_Props.thy ===== *)
theory Copy_Props
  imports Vm_Claims
begin

text \<open>
  New address spaces: the kernel's part of one, which \<open>setupkvm\<close> makes, and the copy of a process's
  memory page by page in \<open>copyuvm\<close>.
\<close>

subsection \<open>Ranges of pages\<close>

lemma unat_PGROUNDDOWN: "unat (PGROUNDDOWN v) = unat v div 4096 * 4096"
proof -
  have e: "unat v div 4096 * 4096 = push_bit 12 (drop_bit 12 (unat v))"
    by (simp add: push_bit_eq_mult drop_bit_eq_div)
  show ?thesis
    unfolding e by (rule bit_eqI) (auto simp: bit_unsigned_iff PGROUNDDOWN_bits bit_push_bit_iff bit_drop_bit_eq
      dest: bit_imp_le_length)
qed

lemma aligned_multiple: "(v :: uint) mod 4096 = 0 \<Longrightarrow> \<exists>k. unat v = 4096 * k"
  using aligned_unat [of v] by (auto simp: dvd_def)

definition in_range :: "uint \<Rightarrow> uint \<Rightarrow> uint \<Rightarrow> bool" where
  "in_range va sz v \<longleftrightarrow> unat va \<le> unat v \<and> unat v < unat va + unat sz"

text \<open>The pages that \<open>mappages\<close> maps for a range that does not wrap around.\<close>

lemma range_index:
  assumes "va mod 4096 = 0" and "sz mod 4096 = 0" and "sz \<noteq> 0" and le: "unat va + unat sz \<le> 4294967296"
  shows "page_index va v < page_count va sz \<longleftrightarrow> in_range va sz v"
    and "in_range va sz v \<Longrightarrow> page_index va v = unat v div 4096 - unat va div 4096"
    and "page_count va sz = unat sz div 4096"
proof -
  obtain a where a: "unat va = 4096 * a" using aligned_multiple [OF assms(1)] by blast
  obtain c where c: "unat sz = 4096 * c" using aligned_multiple [OF assms(2)] by blast
  have c0: "0 < c" using assms(3) c by (metis mult_eq_0_iff neq0_conv unat_eq_zero)
  have ac: "a + c \<le> 1048576" using le a c by simp
  have va: "PGROUNDDOWN va = va" by (rule PGROUNDDOWN_id [OF assms(1)])
  have top: "unat (va + sz - 1) = unat va + unat sz - 1"
  proof -
    have "1 \<le> unat va + unat sz" using c0 c by simp
    then have "va + sz - 1 = word_of_nat (unat va + unat sz - 1)" by (simp add: of_nat_diff)
    moreover have "unat va + unat sz - 1 < 2 ^ 32" using le c0 c by simp
    ultimately show ?thesis using unat_of_nat32 by metis
  qed
  have "(4096 * a + 4096 * c - 1) div 4096 = a + c - 1" using c0 by (cases c) auto
  then have "unat (PGROUNDDOWN (va + sz - 1)) = 4096 * (a + c - 1)"
    unfolding unat_PGROUNDDOWN top a c by simp
  then have "unat (PGROUNDDOWN (va + sz - 1) - va) = 4096 * (c - 1)"
    using c0 a by (simp add: unat_sub_if' diff_mult_distrib2 add_mult_distrib2)
  then show cnt: "page_count va sz = unat sz div 4096"
    using c0 c by (simp add: page_count_def page_index_def va unat_PGSIZE)
  let ?b = "unat v div 4096"
  have bb: "?b < 1048576" using unat_bound [of v] by (simp add: less_mult_imp_div_less)
  have idx: "page_index va v = (if a \<le> ?b then ?b - a else 1048576 + ?b - a)"
  proof -
    have u: "unat (PGROUNDDOWN v) = 4096 * ?b" by (simp add: unat_PGROUNDDOWN)
    have "unat (PGROUNDDOWN v - va) = (if 4096 * a \<le> 4096 * ?b then 4096 * ?b - 4096 * a
        else 4096 * ?b + 4294967296 - 4096 * a)" by (simp add: unat_sub_if' u a)
    also have "\<dots> = 4096 * (if a \<le> ?b then ?b - a else 1048576 + ?b - a)"
    proof (cases "a \<le> ?b")
      case True
      then show ?thesis by (simp add: diff_mult_distrib2)
    next
      case False
      then show ?thesis by (simp add: diff_mult_distrib2 add_mult_distrib2)
    qed
    finally have "unat (PGROUNDDOWN v - va) = 4096 * (if a \<le> ?b then ?b - a else 1048576 + ?b - a)" .
    then show ?thesis by (simp add: page_index_def va unat_PGSIZE)
  qed
  have r: "in_range va sz v \<longleftrightarrow> a \<le> ?b \<and> ?b < a + c"
    unfolding in_range_def a c by (simp add: less_eq_div_iff_mult_less_eq div_less_iff_less_mult algebra_simps)
  show "page_index va v < page_count va sz \<longleftrightarrow> in_range va sz v"
    unfolding r cnt c idx using ac bb by auto
  show "in_range va sz v \<Longrightarrow> page_index va v = unat v div 4096 - unat va div 4096"
    unfolding r idx a by simp
qed

text \<open>\<open>mappages\<close> on a free range, with pages enough for the tables.\<close>

lemma mappages_range:
  assumes ok: "dir_ok s d ps" "kmem_free s" and al: "va mod 4096 = 0" "sz mod 4096 = 0" "sz \<noteq> 0"
    and le: "unat va + unat sz \<le> 4294967296"
    and new: "\<And>v. in_range va sz v \<Longrightarrow> page_entry (kmem s) d v = None"
    and rm: "1025 \<le> length ps + card (dir_pages (kmem s) d)"
  shows "\<exists>t ps'. mappages d va sz pa perm s = Ok 0 t \<and> takes d s ps t ps' \<and> (\<forall>v. page_entry (kmem t) d v =
    (if in_range va sz v then Some (new_entry pa perm (unat v div 4096 - unat va div 4096)) else page_entry (kmem s) d v))"
proof -
  note ri = range_index [OF al le]
  have "page_entry (kmem s) d (PGROUNDDOWN va + word_of_nat k * PGSIZE) = None" if "k < page_count va sz" for k
  proof (rule new)
    have "k < 1048576" using that page_count_bound [of va sz] by linarith
    then show "in_range va sz (PGROUNDDOWN va + word_of_nat k * PGSIZE)"
      using that ri(1) page_index_nth by metis
  qed
  then obtain r t n ps' where t: "mappages d va sz pa perm s = Ok r t" "takes d s ps t ps'"
    "r = 0 \<and> n = page_count va sz \<or> r = - 1 \<and> n < page_count va sz \<and> ps' = [] \<and> card (dir_pages (kmem t) d) \<le> 1024"
    "page_entry (kmem t) d = mapped va pa perm n (page_entry (kmem s) d)"
    using mappages_run [OF ok] by blast
  have "\<not> (ps' = [] \<and> card (dir_pages (kmem t) d) \<le> 1024)" using takes_count [OF t(2) ok(1)] rm by auto
  then have "r = 0" "n = page_count va sz" using t(3) by auto
  then show ?thesis using t ri by (auto simp: mapped_def)
qed

subsection \<open>Directories in memory that changes elsewhere\<close>

lemma P2V_aligned: "P2V (PTE_ADDR e) mod 4096 = 0"
proof -
  have "PTE_ADDR e mod 4096 = 0"
    unfolding low_bits_iff PTE_ADDR_def bit_and_iff bit_not_iff bit_0xFFF by auto
  then show ?thesis unfolding P2V_def by (rule aligned_arith(1)) (simp add: KERNBASE_def)
qed

lemma aligned_unat_mod: "(p :: uint) mod 4096 = 0 \<Longrightarrow> unat p mod 4096 = 0"
  using aligned_unat [of p] by (simp add: dvd_eq_mod_eq_0)

lemma slot_cong:
  "i < 1024 \<Longrightarrow> (\<And>x. in_page p x \<Longrightarrow> m' x = m x) \<Longrightarrow> slot m' p i = slot m p i"
  unfolding slot_def by (rule load32_cong) (simp add: in_page_slot)

lemma directory_cong:
  assumes same: "\<And>p x. p \<in> dir_pages m d \<Longrightarrow> in_page p x \<Longrightarrow> m' x = m x"
  shows "i < 1024 \<Longrightarrow> table_of m' d i = table_of m d i" and "dir_pages m' d = dir_pages m d"
    and "page_entry m' d = page_entry m d"
proof -
  have d: "slot m' d i = slot m d i" if "i < 1024" for i
    using that by (rule slot_cong) (auto intro: same simp: dir_pages_def)
  show tab: "table_of m' d i = table_of m d i" if "i < 1024" for i
    using d [OF that] by (simp add: table_of_def)
  then have "(\<exists>i<1024. table_of m' d i = Some q) \<longleftrightarrow> (\<exists>i<1024. table_of m d i = Some q)" for q by auto
  then show "dir_pages m' d = dir_pages m d" by (simp add: dir_pages_def)
  show "page_entry m' d = page_entry m d"
  proof
    fix v
    show "page_entry m' d v = page_entry m d v"
    proof (cases "table_of m d (unat (PDX v))")
      case (Some q)
      then have "q \<in> dir_pages m d" using PDX_less by (auto simp: dir_pages_def)
      then have "slot m' q (unat (PTX v)) = slot m q (unat (PTX v))" using same PTX_less by (intro slot_cong) blast+
      then show ?thesis using Some tab [OF PDX_less, of v] by (simp add: page_entry_def)
    qed (simp add: page_entry_def tab PDX_less)
  qed
qed

text \<open>Memory that is the same outside a set of pages.\<close>

definition same_outside :: "uint set \<Rightarrow> mem \<Rightarrow> mem \<Rightarrow> bool" where
  "same_outside P m m' \<longleftrightarrow> (\<forall>x. (\<forall>p \<in> P. \<not> in_page p x) \<longrightarrow> m' x = m x)"

lemma same_outside_refl: "same_outside P m m"
  by (simp add: same_outside_def)

lemma same_outside_trans:
  "same_outside P m m1 \<Longrightarrow> same_outside Q m1 m2 \<Longrightarrow> Q \<subseteq> P \<Longrightarrow> same_outside P m m2"
  unfolding same_outside_def by (metis subsetD)

lemma same_outside_page:
  assumes "same_outside P m m'" and "unat p mod 4096 = 0" and "p \<notin> P" and "\<And>q. q \<in> P \<Longrightarrow> unat q mod 4096 = 0"
    and "in_page p x"
  shows "m' x = m x"
proof -
  have "\<not> in_page q x" if "q \<in> P" for q
    using in_page_disjoint [OF assms(2) assms(4) [OF that] _ assms(5)] that assms(3) by blast
  then show ?thesis using assms(1) by (simp add: same_outside_def)
qed

lemma takes_outside: "takes d s ps t ps' \<Longrightarrow> same_outside (dir_pages (kmem s) d \<union> set ps) (kmem s) (kmem t)"
  by (simp add: takes_def same_outside_def)

lemma takes_pages: "takes d s ps t ps' \<Longrightarrow> dir_pages (kmem t) d \<union> set ps' = dir_pages (kmem s) d \<union> set ps"
  by (auto simp: takes_def)

lemma dir_pages_aligned: "dir_ok s d ps \<Longrightarrow> p \<in> dir_pages (kmem s) d \<union> set ps \<Longrightarrow> unat p mod 4096 = 0"
  by (auto simp: dir_ok_def dir_pages_def free_pages_def intro: page_ok_unat)

text \<open>A directory none of whose pages are in the set keeps its map.\<close>

lemma directory_outside:
  assumes "dir_ok s d ps" and "same_outside P (kmem s) m" and "dir_pages (kmem s) d \<inter> P = {}"
    and "\<And>q. q \<in> P \<Longrightarrow> unat q mod 4096 = 0"
  shows "page_entry m d = page_entry (kmem s) d" and "dir_pages m d = dir_pages (kmem s) d"
    and "i < 1024 \<Longrightarrow> table_of m d i = table_of (kmem s) d i"
proof -
  have "m x = kmem s x" if p: "p \<in> dir_pages (kmem s) d" "in_page p x" for p x
  proof (rule same_outside_page [OF assms(2) _ _ assms(4) p(2)])
    show "unat p mod 4096 = 0" using dir_pages_aligned [OF assms(1)] p(1) by blast
    show "p \<notin> P" using assms(3) p(1) by blast
  qed
  note c = directory_cong [of "kmem s" d m, OF this]
  show "page_entry m d = page_entry (kmem s) d" by (rule c(3))
  show "dir_pages m d = dir_pages (kmem s) d" by (rule c(2))
  show "i < 1024 \<Longrightarrow> table_of m d i = table_of (kmem s) d i" by (rule c(1))
qed

subsection \<open>setupkvm\<close>

text \<open>A page from the list, cleared, is a directory that maps nothing.\<close>

lemma new_directory:
  assumes f: "free_pages s (d # ps)"
  defines "t \<equiv> s\<lparr>freelist := load32 (kmem s) (unat d), kmem := memset (unat d) 0 4096 (kmem s)\<rparr>"
  shows "dir_ok t d ps" and "page_entry (kmem t) d v = None" and "dir_pages (kmem t) d = {d}"
    and "same_outside {d} (kmem s) (kmem t)"
proof -
  have d: "page_ok s d" "d \<notin> set ps" using f by (auto simp: free_pages_def)
  have out: "memset (unat d) 0 4096 (kmem s) x = kmem s x" if "\<not> in_page d x" for x
    using that by (auto simp: memset_spec in_page_def)
  show "same_outside {d} (kmem s) (kmem t)" by (simp add: same_outside_def t_def out)
  have tab: "table_of (kmem t) d i = None" if "i < 1024" for i
    using that by (simp add: t_def table_of_def slot_zeroed present_def)
  have "free_pages (s\<lparr>freelist := load32 (kmem s) (unat d)\<rparr>) ps" using kalloc_pops(3) [OF f] .
  then have "free_pages t ps"
    unfolding t_def by (rule free_pages_write [where p = d]) (use d out in \<open>auto simp: page_ok_def\<close>)
  moreover have "page_ok t = page_ok s" by (rule page_ok_cong) (simp add: t_def)
  ultimately show "dir_ok t d ps" using d tab by (simp add: dir_ok_def)
  show "page_entry (kmem t) d v = None" using tab [OF PDX_less] by (simp add: page_entry_def)
  show "dir_pages (kmem t) d = {d}" using tab by (auto simp: dir_pages_def)
qed

text \<open>Where the linker put the kernel's data.\<close>

definition kernel_layout :: "uint \<Rightarrow> bool" where
  "kernel_layout kdata \<longleftrightarrow> kdata mod 4096 = 0 \<and> unat KERNLINK < unat kdata \<and> unat kdata < unat (P2V PHYSTOP)"

definition maps_below :: "mem \<Rightarrow> uint \<Rightarrow> nat \<Rightarrow> bool" where
  "maps_below m d b \<longleftrightarrow> (\<forall>v. page_entry m d v \<noteq> None \<longrightarrow> 2147483648 \<le> unat v \<and> unat v < b)"

lemma mappages_above:
  assumes ok: "dir_ok s d ps" "kmem_free s" and below: "maps_below (kmem s) d b"
    and va: "va mod 4096 = 0" "sz mod 4096 = 0" "sz \<noteq> 0" "unat va + unat sz \<le> 4294967296" "b \<le> unat va" "2147483648 \<le> unat va"
    and rm: "1025 \<le> length ps + card (dir_pages (kmem s) d)"
  shows "\<exists>t ps'. mappages d va sz pa perm s = Ok 0 t \<and> takes d s ps t ps' \<and> dir_ok t d ps' \<and> kmem_free t
    \<and> maps_below (kmem t) d (unat va + unat sz) \<and> 1025 \<le> length ps' + card (dir_pages (kmem t) d)"
proof -
  have "page_entry (kmem s) d v = None" if "in_range va sz v" for v
  proof (rule ccontr)
    assume "page_entry (kmem s) d v \<noteq> None"
    then have "unat v < b" using below by (auto simp: maps_below_def)
    then show False using that va(5) by (simp add: in_range_def)
  qed
  then obtain t ps' where t: "mappages d va sz pa perm s = Ok 0 t" "takes d s ps t ps'"
    "\<And>v. page_entry (kmem t) d v = (if in_range va sz v
      then Some (new_entry pa perm (unat v div 4096 - unat va div 4096)) else page_entry (kmem s) d v)"
    using mappages_range [OF ok va(1-4) _ rm, where pa = pa and perm = perm] by blast
  have "maps_below (kmem t) d (unat va + unat sz)"
    unfolding maps_below_def
  proof (intro allI impI)
    fix v assume e: "page_entry (kmem t) d v \<noteq> None"
    show "2147483648 \<le> unat v \<and> unat v < unat va + unat sz"
    proof (cases "in_range va sz v")
      case True
      then show ?thesis using va(6) by (simp add: in_range_def)
    next
      case False
      then have "2147483648 \<le> unat v \<and> unat v < b" using e t(3) [of v] below by (simp add: maps_below_def)
      then show ?thesis using va(5) by simp
    qed
  qed
  moreover have "dir_ok t d ps'" using t(2) by (simp add: takes_def)
  moreover have "kmem_free t" using takes_fields [OF t(2)] ok(2) by simp
  ultimately show ?thesis using t takes_count [OF t(2) ok(1)] rm by auto
qed

lemma unat_aligned: "unat (v :: uint) mod 4096 = 0 \<Longrightarrow> v mod 4096 = 0"
proof -
  assume "unat v mod 4096 = 0"
  then have "unat (v mod 4096) = 0" by (simp add: unat_mod)
  then show ?thesis by (metis unat_eq_zero)
qed

text \<open>\<open>setupkvm\<close> with pages enough returns a directory without user mappings.\<close>

lemma setupkvm_run:
  assumes f: "free_pages s (d # ps)" and free: "kmem_free s" and lay: "kernel_layout (k_data s)" and rm: "1025 \<le> length (d # ps)"
  defines "s1 \<equiv> s\<lparr>freelist := load32 (kmem s) (unat d), kmem := memset (unat d) 0 4096 (kmem s)\<rparr>"
  shows "\<exists>t qs. setupkvm s = Ok d t \<and> takes d s1 ps t qs \<and> maps_below (kmem t) d 4294967296"
proof -
  let ?k = "k_data s"
  note nd = new_directory [OF f, folded s1_def]
  have d0: "d \<noteq> 0" and fl: "freelist s = d" using kalloc_pops [OF f] by auto
  have free1: "kmem_free s1" using free by (simp add: kmem_free_def s1_def)
  have rm1: "1025 \<le> length ps + card (dir_pages (kmem s1) d)" using rm nd(3) by simp
  obtain kn: "?k mod 4096 = 0" "unat KERNLINK < unat ?k" "unat ?k < unat (P2V PHYSTOP)"
    using lay by (auto simp: kernel_layout_def)
  have c: "unat KERNBASE = 2147483648" "unat EXTMEM = 1048576" "unat KERNLINK = 2148532224"
    "unat (P2V PHYSTOP) = 2382364672" "unat DEVSPACE = 4261412864"
    by (simp_all add: KERNBASE_def EXTMEM_def KERNLINK_def P2V_def PHYSTOP_def DEVSPACE_def)
  have z: "V2P ?k - V2P KERNLINK = ?k - KERNLINK" "PHYSTOP - V2P ?k = P2V PHYSTOP - ?k"
    by (simp_all add: V2P_def P2V_def)
  have u: "unat (?k - KERNLINK) = unat ?k - unat KERNLINK" "unat (P2V PHYSTOP - ?k) = unat (P2V PHYSTOP) - unat ?k"
    using kn by (simp_all add: unat_sub word_le_nat_alt)
  have ne: "?k \<noteq> KERNLINK" "P2V PHYSTOP \<noteq> ?k" using kn by auto
  have al: "KERNLINK mod 4096 = 0" "P2V PHYSTOP mod 4096 = 0"
    by (simp_all add: KERNLINK_def KERNBASE_def EXTMEM_def P2V_def PHYSTOP_def)
  have b0: "maps_below (kmem s1) d 0" using nd(2) by (simp add: maps_below_def)
  obtain t1 q1 where t1: "mappages d KERNBASE (EXTMEM - 0) 0 PTE_W s1 = Ok 0 t1" "takes d s1 ps t1 q1" "dir_ok t1 d q1"
    "kmem_free t1" "maps_below (kmem t1) d (unat KERNBASE + unat (EXTMEM - 0))" "1025 \<le> length q1 + card (dir_pages (kmem t1) d)"
    using mappages_above [OF nd(1) free1 b0 _ _ _ _ _ _ rm1, of KERNBASE "EXTMEM - 0" 0 PTE_W] c
    by (auto simp: KERNBASE_def EXTMEM_def)
  have b1: "maps_below (kmem t1) d (unat KERNLINK)" using t1(5) c by simp
  obtain t2 q2 where t2: "mappages d KERNLINK (V2P ?k - V2P KERNLINK) (V2P KERNLINK) 0 t1 = Ok 0 t2" "takes d t1 q1 t2 q2"
    "dir_ok t2 d q2" "kmem_free t2" "maps_below (kmem t2) d (unat KERNLINK + unat (V2P ?k - V2P KERNLINK))"
    "1025 \<le> length q2 + card (dir_pages (kmem t2) d)"
    using mappages_above [OF t1(3,4) b1 al(1) _ _ _ _ _ t1(6), of "V2P ?k - V2P KERNLINK" "V2P KERNLINK" 0]
      aligned_arith(2) [OF kn(1) al(1)] kn(2,3) c u(1) ne(1) unfolding z(1) by auto
  have b2: "maps_below (kmem t2) d (unat ?k)" using t2(5) kn(2) unfolding z(1) u(1) by simp
  obtain t3 q3 where t3: "mappages d ?k (PHYSTOP - V2P ?k) (V2P ?k) PTE_W t2 = Ok 0 t3" "takes d t2 q2 t3 q3"
    "dir_ok t3 d q3" "kmem_free t3" "maps_below (kmem t3) d (unat ?k + unat (PHYSTOP - V2P ?k))"
    "1025 \<le> length q3 + card (dir_pages (kmem t3) d)"
    using mappages_above [OF t2(3,4) b2 kn(1) _ _ _ _ _ t2(6), of "PHYSTOP - V2P ?k" "V2P ?k" PTE_W]
      aligned_arith(2) [OF al(2) kn(1)] kn(2,3) c u(2) ne(2) unfolding z(2) by auto
  have b3: "maps_below (kmem t3) d (unat DEVSPACE)"
    using t3(5) kn(3) c unfolding z(2) u(2) by (auto simp: maps_below_def)
  obtain t4 q4 where t4: "mappages d DEVSPACE (0 - DEVSPACE) DEVSPACE PTE_W t3 = Ok 0 t4" "takes d t3 q3 t4 q4"
    "maps_below (kmem t4) d (unat DEVSPACE + unat (0 - DEVSPACE))"
    using mappages_above [OF t3(3,4) b3 _ _ _ _ _ _ t3(6), of DEVSPACE "0 - DEVSPACE" DEVSPACE PTE_W] c
    by (auto simp: DEVSPACE_def)
  have "takes d s1 ps t4 q4" using takes_trans [OF takes_trans [OF takes_trans [OF t1(2) t2(2)] t3(2)] t4(2)] .
  moreover have "maps_below (kmem t4) d 4294967296" using t4(3) by (simp add: DEVSPACE_def)
  moreover have "setupkvm s = Ok d t4"
  proof -
    let ?body = "\<lambda>(virt, pstart, pend, perm). bind (mappages d virt (pend - pstart) pstart perm) (\<lambda>m.
         if m < 0 then bind (freevm d) (\<lambda>_. ret (Some (0 :: uint))) else ret None)"
    have np: "\<not> P2V PHYSTOP > DEVSPACE" by (simp add: P2V_def PHYSTOP_def KERNBASE_def DEVSPACE_def)
    have "setupkvm s = bind (for_each (kmap ?k) ?body) (\<lambda>r. ret (case r of None \<Rightarrow> d | Some z \<Rightarrow> z)) s1"
      using d0 fl np by (simp add: setupkvm_def kalloc_run [OF free] memset_page_def PGSIZE_def s1_def)
    moreover have "for_each (kmap ?k) ?body s1 = Ok None t4"
      using t1(1) t2(1) t3(1) t4(1) by (simp add: kmap_def)
    ultimately show ?thesis by simp
  qed
  ultimately show ?thesis by blast
qed

subsection \<open>Copying a page\<close>

lemma dir_pages_bound: "card (dir_pages m d) \<le> 1025"
proof -
  have sub: "dir_pages m d \<subseteq> insert d ((\<lambda>i. the (table_of m d i)) ` {..<1024})"
    by (force simp: dir_pages_def)
  have "card (insert d ((\<lambda>i. the (table_of m d i)) ` {..<1024})) \<le> Suc 1024"
    using card_insert_le_m1 card_image_le [of "{..<1024 :: nat}" "\<lambda>i. the (table_of m d i)"]
    by (simp add: card_insert_if)
  then show ?thesis using card_mono [OF _ sub] by simp
qed

lemma page_entry_page: "PGROUNDDOWN v = PGROUNDDOWN w \<Longrightarrow> page_entry m d v = page_entry m d w"
proof -
  assume "PGROUNDDOWN v = PGROUNDDOWN w"
  then have e: "PDX v = PDX w" "PTX v = PTX w" using same_page_iff by blast+
  show ?thesis unfolding page_entry_def e ..
qed

lemma page_number:
  assumes "k < 1048576"
  shows "unat v div 4096 = k \<longleftrightarrow> PGROUNDDOWN v = PGROUNDDOWN (word_of_nat (k * 4096))"
proof -
  have "unat (word_of_nat (k * 4096) :: uint) = k * 4096" using assms by (intro unat_of_nat32) simp
  then show ?thesis by (auto simp: word_unat_eq_iff unat_PGROUNDDOWN)
qed

lemma walk_present:
  assumes al: "unat d mod 4096 = 0" and e: "page_entry (kmem s) d v = Some e"
  shows "\<exists>pte. walkpgdir d v False s = Ok (Some pte) s \<and> load_at pte s = e" and "e AND PTE_P \<noteq> 0"
proof -
  obtain q where q: "table_of (kmem s) d (unat (PDX v)) = Some q" "slot (kmem s) q (unat (PTX v)) = e" "present e"
    using e by (auto simp: page_entry_def Let_def split: option.splits if_splits)
  then show "e AND PTE_P \<noteq> 0" by (simp add: present_def)
  have w: "load_at (d + 4 * PDX v) s AND PTE_P \<noteq> 0" "P2V (PTE_ADDR (load_at (d + 4 * PDX v) s)) = q"
    using q(1) by (auto simp: load_at_slot [OF al PDX_less] table_of_def present_def split: if_splits)
  have "unat q mod 4096 = 0" using aligned_unat_mod [OF P2V_aligned] w(2) by metis
  then have "load_at (q + 4 * PTX v) s = e" using q(2) by (simp add: load_at_slot PTX_less)
  moreover have "walkpgdir d v False s = Ok (Some (q + 4 * PTX v)) s" using w by (simp add: walkpgdir_def Let_def)
  ultimately show "\<exists>pte. walkpgdir d v False s = Ok (Some pte) s \<and> load_at pte s = e" by blast
qed

lemma dir_ok_pop:
  assumes h: "dir_ok s d (p # ps)"
  shows "dir_ok (s\<lparr>freelist := load32 (kmem s) (unat p)\<rparr>) d ps" and "p \<notin> set ps" and "p \<notin> dir_pages (kmem s) d"
    and "page_ok s p" and "freelist s = p" and "p \<noteq> 0"
proof -
  let ?s = "s\<lparr>freelist := load32 (kmem s) (unat p)\<rparr>"
  have f: "free_pages s (p # ps)" using h by (simp add: dir_ok_def)
  have "page_ok ?s = page_ok s" by (rule page_ok_cong) simp
  then show "dir_ok ?s d ps" using h kalloc_pops(3) [OF f] by (auto simp: dir_ok_def)
  show "p \<notin> set ps" "page_ok s p" using f by (auto simp: free_pages_def)
  show "p \<notin> dir_pages (kmem s) d" using dir_pages_not_free [OF h] by auto
  show "freelist s = p" "p \<noteq> 0" using kalloc_pops [OF f] by auto
qed

definition copy_page :: "uint \<Rightarrow> uint \<Rightarrow> nat \<Rightarrow> ('z, unit option) vop" where
  "copy_page pgdir d i = bind (walkpgdir pgdir (word_of_nat i) False) (\<lambda>pte.
         case pte of
           None \<Rightarrow> panic ''copyuvm: pte should exist''
         | Some pte \<Rightarrow> bind (reads (load_at pte)) (\<lambda>e.
           bind (panic_if (e AND PTE_P = 0) ''copyuvm: page not present'') (\<lambda>_.
           bind kalloc (\<lambda>mem.
           if mem = 0 then ret (Some ())
             else bind (modify (\<lambda>s. s\<lparr>kmem := memmove (unat mem) (unat (P2V (PTE_ADDR e))) (unat PGSIZE) (kmem s)\<rparr>)) (\<lambda>_.
               bind (mappages d (word_of_nat i) PGSIZE (V2P mem) (PTE_FLAGS e)) (\<lambda>m.
               if m < 0 then bind (kfree mem) (\<lambda>_. ret (Some ()))
               else ret None))))))"

text \<open>The entry of a copied page.\<close>

definition child_entry :: "uint \<Rightarrow> uint \<Rightarrow> uint" where
  "child_entry q e = V2P q OR PTE_FLAGS e OR PTE_P"

text \<open>
  \<open>copied s d0 ps d cs t qs\<close>: from state \<open>s\<close> with the free pages \<open>ps\<close>, the first pages of the directory \<open>d0\<close> are
  copied to the pages \<open>cs\<close>, which the directory \<open>d\<close> maps in state \<open>t\<close>; \<open>qs\<close> is free.
\<close>

definition copied ::
  "'z vstate_scheme \<Rightarrow> uint \<Rightarrow> uint list \<Rightarrow> uint \<Rightarrow> uint list \<Rightarrow> 'z vstate_scheme \<Rightarrow> uint list \<Rightarrow> bool" where
  "copied s d0 ps d cs t qs \<longleftrightarrow> dir_ok t d qs \<and> (\<exists>m f. t = s\<lparr>kmem := m, freelist := f\<rparr>)
     \<and> dir_pages (kmem t) d \<union> set qs \<union> set cs \<subseteq> set ps
     \<and> distinct cs \<and> set cs \<inter> (dir_pages (kmem t) d \<union> set qs) = {}
     \<and> length ps = length qs + card (dir_pages (kmem t) d) + length cs
     \<and> same_outside (set ps) (kmem s) (kmem t)
     \<and> (\<forall>v. unat v < length cs * 4096 \<longrightarrow> (\<exists>e. page_entry (kmem s) d0 v = Some e
          \<and> page_entry (kmem t) d v = Some (child_entry (cs ! (unat v div 4096)) e)
          \<and> (\<forall>j < 4096. kmem t (unat (cs ! (unat v div 4096)) + j) = kmem s (unat (P2V (PTE_ADDR e)) + j))))
     \<and> (\<forall>v. length cs * 4096 \<le> unat v \<longrightarrow> unat v < 2147483648 \<longrightarrow> page_entry (kmem t) d v = None)"

lemma in_page_offset: "j < 4096 \<Longrightarrow> in_page p (unat p + j)"
  by (simp add: in_page_def)

text \<open>The page itself: \<open>kalloc\<close> and \<open>memmove\<close>.\<close>

lemma page_moved:
  assumes h: "dir_ok t d (q # qs)" and p: "unat p mod 4096 = 0" "p \<noteq> q"
  defines "u \<equiv> t\<lparr>freelist := load32 (kmem t) (unat q), kmem := memmove (unat q) (unat p) 4096 (kmem t)\<rparr>"
  shows "dir_ok u d qs" and "same_outside {q} (kmem t) (kmem u)" and "page_entry (kmem u) d = page_entry (kmem t) d"
    and "dir_pages (kmem u) d = dir_pages (kmem t) d" and "j < 4096 \<Longrightarrow> kmem u (unat q + j) = kmem t (unat p + j)"
proof -
  note pop = dir_ok_pop [OF h]
  have q: "unat q mod 4096 = 0" by (rule page_ok_unat [OF pop(4)])
  show out: "same_outside {q} (kmem t) (kmem u)" by (auto simp: u_def same_outside_def memmove_spec in_page_def)
  show "j < 4096 \<Longrightarrow> kmem u (unat q + j) = kmem t (unat p + j)" by (simp add: u_def memmove_spec)
  have "dir_pages (kmem t) d \<inter> {q} = {}" using pop(3) by simp
  note d = directory_outside [OF h out this]
  show "page_entry (kmem u) d = page_entry (kmem t) d" "dir_pages (kmem u) d = dir_pages (kmem t) d" using d q by auto
  have "dir_ok (t\<lparr>freelist := load32 (kmem t) (unat q)\<rparr>\<lparr>kmem := kmem u\<rparr>) d qs"
  proof (rule dir_ok_write [OF pop(1,2)])
    show "page_ok (t\<lparr>freelist := load32 (kmem t) (unat q)\<rparr>) q" using pop(4) by (simp add: page_ok_def)
    show "kmem u x = kmem (t\<lparr>freelist := load32 (kmem t) (unat q)\<rparr>) x" if "\<not> in_page q x" for x
      using out that by (simp add: same_outside_def)
    show "table_of (kmem u) d i = table_of (kmem (t\<lparr>freelist := load32 (kmem t) (unat q)\<rparr>)) d i" if "i < 1024" for i
      using d(3) that q by simp
  qed
  then show "dir_ok u d qs" by (simp add: u_def)
qed

lemma copied_extend:
  assumes inv: "copied s d0 ps d cs t (q # qs)" and par: "dir_ok s d0 ps"
    and e: "page_entry (kmem s) d0 (word_of_nat (length cs * 4096)) = Some e" "P2V (PTE_ADDR e) \<notin> set ps"
    and n: "Suc (length cs) * 4096 \<le> 2147483648"
    and tk: "takes d (t\<lparr>freelist := load32 (kmem t) (unat q),
      kmem := memmove (unat q) (unat (P2V (PTE_ADDR e))) 4096 (kmem t)\<rparr>) qs u rs"
    and pe: "\<And>v. page_entry (kmem u) d v =
      (if unat v div 4096 = length cs then Some (child_entry q e) else page_entry (kmem t) d v)"
  shows "copied s d0 ps d (cs @ [q]) u rs"
proof -
  let ?n = "length cs" and ?p = "P2V (PTE_ADDR e)"
  define t2 where "t2 = t\<lparr>freelist := load32 (kmem t) (unat q), kmem := memmove (unat q) (unat ?p) 4096 (kmem t)\<rparr>"
  note i = inv [unfolded copied_def] and tk = tk [folded t2_def]
  have al: "unat c mod 4096 = 0" if "c \<in> set ps" for c using dir_pages_aligned [OF par] that by blast
  have ap: "unat ?p mod 4096 = 0" by (rule aligned_unat_mod [OF P2V_aligned])
  have ok: "dir_ok t d (q # qs)" and out: "same_outside (set ps) (kmem s) (kmem t)" using i by auto
  have qP: "q \<in> set ps" "q \<notin> set cs" "?p \<noteq> q" using i e(2) by auto
  note mv = page_moved [OF ok ap qP(3), folded t2_def]
  note pop = dir_ok_pop [OF ok]
  let ?Q = "dir_pages (kmem t) d \<union> set qs"
  have Q: "dir_pages (kmem u) d \<union> set rs = ?Q" "same_outside ?Q (kmem t2) (kmem u)"
    using takes_pages [OF tk] takes_outside [OF tk] mv(4) by simp_all
  have sub: "?Q \<subseteq> set ps" "q \<notin> ?Q" "set cs \<inter> ?Q = {}" using i pop(2,3) by auto
  have keep: "kmem u (unat c + j) = kmem t2 (unat c + j)" if "c \<in> insert q (set cs)" "j < 4096" for c j
  proof (rule same_outside_page [OF Q(2) _ _ _ in_page_offset [OF that(2)]])
    show "c \<notin> ?Q" "unat c mod 4096 = 0" using that(1) sub i qP(1) al by auto
    show "\<And>r. r \<in> ?Q \<Longrightarrow> unat r mod 4096 = 0" using sub(1) al by blast
  qed
  have old: "kmem t2 (unat c + j) = kmem t (unat c + j)" if "c \<in> set cs" "j < 4096" for c j
    by (rule same_outside_page [OF mv(2) _ _ _ in_page_offset [OF that(2)]]) (use that i qP al in auto)
  have new: "kmem u (unat q + j) = kmem s (unat ?p + j)" if "j < 4096" for j
  proof -
    have "kmem t (unat ?p + j) = kmem s (unat ?p + j)"
      by (rule same_outside_page [OF out ap e(2) al in_page_offset [OF that]])
    then show ?thesis using keep [of q j] mv(5) [OF that] that by simp
  qed
  have entries: "\<exists>e. page_entry (kmem s) d0 v = Some e \<and> page_entry (kmem u) d v = Some (child_entry ((cs @ [q]) ! (unat v div 4096)) e)
      \<and> (\<forall>j<4096. kmem u (unat ((cs @ [q]) ! (unat v div 4096)) + j) = kmem s (unat (P2V (PTE_ADDR e)) + j))"
    if v: "unat v < Suc ?n * 4096" for v
  proof (cases "unat v div 4096 = ?n")
    case True
    then have "PGROUNDDOWN v = PGROUNDDOWN (word_of_nat (?n * 4096))" using page_number [of ?n v] n by simp
    then have "page_entry (kmem s) d0 v = Some e" unfolding e(1) [symmetric] by (rule page_entry_page)
    then show ?thesis using True pe [of v] new by simp
  next
    case False
    then have k: "unat v div 4096 < ?n" using v by (simp add: div_less_iff_less_mult less_Suc_eq)
    then have "unat v < ?n * 4096" by (simp add: div_less_iff_less_mult)
    then obtain f where f: "page_entry (kmem s) d0 v = Some f"
      "page_entry (kmem t) d v = Some (child_entry (cs ! (unat v div 4096)) f)"
      "\<forall>j<4096. kmem t (unat (cs ! (unat v div 4096)) + j) = kmem s (unat (P2V (PTE_ADDR f)) + j)"
      using i by blast
    have "cs ! (unat v div 4096) \<in> set cs" using k by simp
    then have "kmem u (unat (cs ! (unat v div 4096)) + j) = kmem s (unat (P2V (PTE_ADDR f)) + j)" if "j < 4096" for j
      using keep old f(3) that by simp
    then show ?thesis using f k False pe [of v] by (simp add: nth_append)
  qed
  show ?thesis
    unfolding copied_def
  proof (intro conjI allI impI)
    show "dir_ok u d rs" using tk by (simp add: takes_def)
    obtain m f m' f' where "t = s\<lparr>kmem := m, freelist := f\<rparr>" "u = t2\<lparr>kmem := m', freelist := f'\<rparr>"
      using i tk by (auto simp: takes_def)
    then have "u = s\<lparr>kmem := m', freelist := f'\<rparr>" by (simp add: t2_def)
    then show "\<exists>m f. u = s\<lparr>kmem := m, freelist := f\<rparr>" by blast
    show "dir_pages (kmem u) d \<union> set rs \<union> set (cs @ [q]) \<subseteq> set ps" using Q(1) sub i qP by auto
    show "distinct (cs @ [q])" using i qP by auto
    show "set (cs @ [q]) \<inter> (dir_pages (kmem u) d \<union> set rs) = {}" unfolding Q(1) using sub by auto
    show "length ps = length rs + card (dir_pages (kmem u) d) + length (cs @ [q])"
      using takes_count [OF tk mv(1)] i mv(4) by simp
    show "same_outside (set ps) (kmem s) (kmem u)"
      by (rule same_outside_trans [OF same_outside_trans [OF out mv(2)] Q(2) sub(1)]) (use qP in simp)
  qed (use entries pe i in auto)
qed

lemma copy_page_run:
  assumes inv: "copied s d0 ps d cs t qs" and par: "dir_ok s d0 ps" "kmem_free s"
    and n: "Suc (length cs) * 4096 \<le> 2147483648"
    and e: "page_entry (kmem s) d0 (word_of_nat (length cs * 4096)) = Some e" "P2V (PTE_ADDR e) \<notin> set ps"
    and rm: "1026 + length cs \<le> length ps"
  shows "\<exists>q u rs. copy_page d0 d (length cs * 4096) t = Ok None u \<and> copied s d0 ps d (cs @ [q]) u rs"
proof -
  let ?n = "length cs" and ?v = "word_of_nat (length cs * 4096) :: uint" and ?p = "P2V (PTE_ADDR e)"
  note i = inv [unfolded copied_def]
  have al: "unat q mod 4096 = 0" if "q \<in> set ps" for q using dir_pages_aligned [OF par(1)] that by blast
  have ad0: "unat d0 mod 4096 = 0" using par(1) by (auto simp: dir_ok_def dest: page_ok_unat)
  have out: "same_outside (set ps) (kmem s) (kmem t)" and ok: "dir_ok t d qs" using i by auto
  have free: "kmem_free t" using i par(2) by (auto simp: kmem_free_def)
  have "page_entry (kmem t) d0 = page_entry (kmem s) d0"
    by (rule directory_outside(1) [OF par(1) out dir_pages_not_free [OF par(1)] al])
  then have et: "page_entry (kmem t) d0 ?v = Some e" using e(1) by simp
  obtain pte where pte: "walkpgdir d0 ?v False t = Ok (Some pte) t" "load_at pte t = e" "e AND PTE_P \<noteq> 0"
    using walk_present [OF ad0 et] by blast
  have "0 < length qs" using i dir_pages_bound [of "kmem t" d] rm by linarith
  then obtain q qs' where qs: "qs = q # qs'" by (cases qs) auto
  note pop = dir_ok_pop [OF ok [unfolded qs]]
  have qP: "q \<in> set ps" "q \<notin> set cs" using i qs by auto
  have ap: "unat ?p mod 4096 = 0" by (rule aligned_unat_mod [OF P2V_aligned])
  have pq: "?p \<noteq> q" using qP(1) e(2) by auto
  define t2 where "t2 = t\<lparr>freelist := load32 (kmem t) (unat q), kmem := memmove (unat q) (unat ?p) 4096 (kmem t)\<rparr>"
  note mv = page_moved [OF ok [unfolded qs] ap pq, folded t2_def]
  have free2: "kmem_free t2" using free by (simp add: kmem_free_def t2_def)
  have n20: "?n < 1048576" using n by simp
  have uv: "unat ?v = ?n * 4096" using n by (intro unat_of_nat32) simp
  have r: "in_range ?v PGSIZE v \<longleftrightarrow> unat v div 4096 = ?n" for v
    unfolding in_range_def uv unat_PGSIZE by (auto simp: less_eq_div_iff_mult_less_eq div_less_iff_less_mult
        intro!: antisym dest: div_le_mono [of _ _ 4096])
  have mul: "?v mod 4096 = 0" using page_multiple [of ?n] by (simp add: PGSIZE_def)
  have new: "page_entry (kmem t2) d v = None" if "in_range ?v PGSIZE v" for v
  proof -
    have "?n * 4096 \<le> unat v" "unat v < 2147483648" using that n uv by (auto simp: in_range_def unat_PGSIZE)
    then show ?thesis using i mv(3) by simp
  qed
  have rm2: "1025 \<le> length qs' + card (dir_pages (kmem t2) d)" using i rm qs mv(4) by simp
  have ends: "unat ?v + unat PGSIZE \<le> 4294967296" using n unfolding uv unat_PGSIZE by simp
  obtain u rs where u: "mappages d ?v PGSIZE (V2P q) (PTE_FLAGS e) t2 = Ok 0 u" "takes d t2 qs' u rs"
    "\<And>v. page_entry (kmem u) d v = (if in_range ?v PGSIZE v
      then Some (new_entry (V2P q) (PTE_FLAGS e) (unat v div 4096 - unat ?v div 4096)) else page_entry (kmem t2) d v)"
    using mappages_range [OF mv(1) free2 mul _ _ ends new rm2, where pa = "V2P q" and perm = "PTE_FLAGS e"]
    by (auto simp: PGSIZE_def)
  have run: "copy_page d0 d (?n * 4096) t = Ok None u"
    using pte pop(5,6) u(1) unfolding copy_page_def
    by (simp add: kalloc_run [OF free] unat_PGSIZE t2_def)
  have "page_entry (kmem u) d v = (if unat v div 4096 = ?n then Some (child_entry q e) else page_entry (kmem t) d v)" for v
    unfolding u(3) mv(3) r uv new_entry_def child_entry_def by simp
  from copied_extend [OF inv [unfolded qs] par(1) e n _ this, of rs] u(2)
  have "copied s d0 ps d (cs @ [q]) u rs" by (simp add: t2_def)
  then show ?thesis using run by blast
qed

end
