(* ===== verification/Copy_Claims.thy ===== *)
theory Copy_Claims
  imports Copy_Props
begin

text \<open>\<open>fork\<close>'s copy of the address space: \<open>copyuvm\<close> gives the child the parent's memory, in pages of its own.\<close>

subsection \<open>What a process sees\<close>

text \<open>The kernel address behind a user address, and the byte there.\<close>

definition phys :: "mem \<Rightarrow> uint \<Rightarrow> uint \<Rightarrow> nat option" where
  "phys m d v = map_option (\<lambda>e. unat (P2V (PTE_ADDR e)) + unat v mod 4096) (page_entry m d v)"

definition user_byte :: "mem \<Rightarrow> uint \<Rightarrow> uint \<Rightarrow> uchar option" where
  "user_byte m d v = map_option m (phys m d v)"

lemma user_byte_write:
  assumes "\<And>p. p \<in> dir_pages m d \<Longrightarrow> \<not> in_page p a" and "phys m d v \<noteq> Some a"
  shows "user_byte (m(a := y)) d v = user_byte m d v"
proof -
  have "page_entry (m(a := y)) d = page_entry m d"
    by (rule directory_cong(3)) (use assms(1) in auto)
  then have "phys (m(a := y)) d v = phys m d v" by (simp add: phys_def)
  then show ?thesis using assms(2) by (cases "phys m d v") (auto simp: user_byte_def)
qed

lemma phys_page: "phys m d v = Some a \<Longrightarrow> page_entry m d v = Some e \<Longrightarrow> in_page (P2V (PTE_ADDR e)) a"
  by (auto simp: phys_def in_page_def)

lemma child_entry_parts:
  assumes q: "q mod 4096 = 0" and e: "e AND PTE_P \<noteq> 0"
  shows "P2V (PTE_ADDR (child_entry q e)) = q" and "PTE_FLAGS (child_entry q e) = PTE_FLAGS e"
proof -
  have z: "\<not> bit (V2P q) n" if "n < 12" for n using V2P_low [OF q] that by (simp add: low_bits_iff)
  have p: "bit PTE_P n \<longleftrightarrow> n = 0" for n by (simp add: PTE_P_def bit_1_iff)
  have e0: "bit e 0" using e by (auto simp: PTE_P_def bit_0 and_one_eq even_iff_mod_2_eq_zero)
  have "PTE_ADDR (child_entry q e) = V2P q"
  proof (rule bit_word_eqI)
    fix n :: nat assume "n < LENGTH(32)"
    then show "bit (PTE_ADDR (child_entry q e)) n = bit (V2P q) n"
      unfolding PTE_ADDR_def child_entry_def PTE_FLAGS_def bit_and_iff bit_or_iff bit_not_iff bit_0xFFF p
      using z by auto
  qed
  then show "P2V (PTE_ADDR (child_entry q e)) = q" by simp
  show "PTE_FLAGS (child_entry q e) = PTE_FLAGS e"
  proof (rule bit_word_eqI)
    fix n :: nat
    show "bit (PTE_FLAGS (child_entry q e)) n = bit (PTE_FLAGS e) n"
      unfolding child_entry_def PTE_FLAGS_def bit_and_iff bit_or_iff bit_0xFFF p using z e0 by auto
  qed
qed

subsection \<open>The loop of copyuvm\<close>

lemma copy_loop_run:
  assumes "copied s d0 ps d cs t qs" and par: "dir_ok s d0 ps" "kmem_free s"
    and N: "length cs \<le> N" "N * 4096 \<le> 2147483648" "1025 + N \<le> length ps"
    and e: "\<And>k. k < N \<Longrightarrow> \<exists>e. page_entry (kmem s) d0 (word_of_nat (k * 4096)) = Some e \<and> P2V (PTE_ADDR e) \<notin> set ps"
  shows "\<exists>cs' u rs. for_each (map (\<lambda>k. k * 4096) [length cs..<N]) (copy_page d0 d) t = Ok None u
    \<and> copied s d0 ps d cs' u rs \<and> length cs' = N"
  using assms(1) N(1)
proof (induction "N - length cs" arbitrary: cs t qs)
  case 0
  then show ?case by (intro exI [of _ cs] exI [of _ t] exI [of _ qs]) simp
next
  case (Suc j)
  then have n: "length cs < N" "j = N - Suc (length cs)" by simp_all
  obtain f where f: "page_entry (kmem s) d0 (word_of_nat (length cs * 4096)) = Some f" "P2V (PTE_ADDR f) \<notin> set ps"
    using e [OF n(1)] by blast
  obtain q u rs where u: "copy_page d0 d (length cs * 4096) t = Ok None u" "copied s d0 ps d (cs @ [q]) u rs"
    using copy_page_run [OF Suc.prems(1) par _ f] N(2,3) n(1) by fastforce
  have "\<exists>cs' u' rs. for_each (map (\<lambda>k. k * 4096) [length (cs @ [q])..<N]) (copy_page d0 d) u = Ok None u'
    \<and> copied s d0 ps d cs' u' rs \<and> length cs' = N"
    using Suc.hyps(1) [OF _ u(2)] n by simp
  moreover have "[length cs..<N] = length cs # [length (cs @ [q])..<N]" using n(1) by (simp add: upt_conv_Cons)
  ultimately show ?case using u(1) by simp
qed

lemma page_steps_pages: "page_steps n = map (\<lambda>k. k * 4096) [0..<(n + 4095) div 4096]"
  by (simp add: page_steps_def unat_PGSIZE add.commute)

lemma copyuvm_run:
  assumes par: "dir_ok s d0 ps" "kmem_free s" and lay: "kernel_layout (k_data s)"
    and sz: "unat sz \<le> 2147483648" and rm: "1025 + (unat sz + 4095) div 4096 \<le> length ps"
    and e: "\<And>v. unat v < unat sz \<Longrightarrow> \<exists>e. page_entry (kmem s) d0 v = Some e \<and> P2V (PTE_ADDR e) \<notin> set ps"
  shows "\<exists>d t qs cs. copyuvm d0 sz s = Ok d t \<and> d \<noteq> 0 \<and> copied s d0 ps d cs t qs \<and> length cs = (unat sz + 4095) div 4096"
proof -
  let ?N = "(unat sz + 4095) div 4096"
  obtain d ps' where ps: "ps = d # ps'" using rm by (cases ps) auto
  have f: "free_pages s (d # ps')" using par(1) ps by (simp add: dir_ok_def)
  let ?s = "s\<lparr>freelist := load32 (kmem s) (unat d), kmem := memset (unat d) 0 4096 (kmem s)\<rparr>"
  note nd = new_directory [OF f]
  have "1025 \<le> length (d # ps')" using rm ps by simp
  from setupkvm_run [OF f par(2) lay this] obtain t qs where
    t: "setupkvm s = Ok d t" "takes d ?s ps' t qs" "maps_below (kmem t) d 4294967296" by blast
  have c: "copied s d0 ps d [] t qs"
    unfolding copied_def
  proof (intro conjI)
    show "dir_ok t d qs" using t(2) by (simp add: takes_def)
    obtain m g where "t = ?s\<lparr>kmem := m, freelist := g\<rparr>" using t(2) by (auto simp: takes_def)
    then have "t = s\<lparr>kmem := m, freelist := g\<rparr>" by simp
    then show "\<exists>m g. t = s\<lparr>kmem := m, freelist := g\<rparr>" by blast
    show "dir_pages (kmem t) d \<union> set qs \<union> set [] \<subseteq> set ps"
      using takes_pages [OF t(2)] unfolding nd(3) ps by auto
    show "length ps = length qs + card (dir_pages (kmem t) d) + length []"
      using takes_count [OF t(2) nd(1)] unfolding nd(3) ps by simp
    have a: "same_outside ({d} \<union> set ps') (kmem ?s) (kmem t)" using takes_outside [OF t(2)] unfolding nd(3) .
    have b: "same_outside (set ps) (kmem s) (kmem ?s)" using nd(4) ps by (auto simp: same_outside_def)
    show "same_outside (set ps) (kmem s) (kmem t)" by (rule same_outside_trans [OF b a]) (simp add: ps)
    show "\<forall>v. length [] * 4096 \<le> unat v \<longrightarrow> unat v < 2147483648 \<longrightarrow> page_entry (kmem t) d v = None"
      using t(3) by (auto simp: maps_below_def)
  qed simp_all
  have "\<exists>e. page_entry (kmem s) d0 (word_of_nat (k * 4096)) = Some e \<and> P2V (PTE_ADDR e) \<notin> set ps" if "k < ?N" for k
  proof (rule e)
    have "Suc k * 4096 \<le> unat sz + 4095" using that by (simp add: less_eq_div_iff_mult_less_eq flip: Suc_le_eq)
    then have "k * 4096 < unat sz" by simp
    moreover from this have "unat (word_of_nat (k * 4096) :: uint) = k * 4096" using sz by (intro unat_of_nat32) simp
    ultimately show "unat (word_of_nat (k * 4096) :: uint) < unat sz" by simp
  qed
  moreover have "?N \<le> (2147483648 + 4095) div 4096" using sz by (intro div_le_mono) simp
  then have "?N * 4096 \<le> 2147483648" by simp
  ultimately obtain cs u rs where u: "for_each (map (\<lambda>k. k * 4096) [0..<?N]) (copy_page d0 d) t = Ok None u"
    "copied s d0 ps d cs u rs" "length cs = ?N"
    using copy_loop_run [OF c par _ _ rm] by auto
  have "d \<noteq> 0" using kalloc_pops(2) [OF f] .
  moreover from this have "copyuvm d0 sz s = Ok d u"
    using t(1) u(1) by (simp add: copyuvm_def copy_page_def [abs_def] page_steps_pages)
  ultimately show ?thesis using u by blast
qed

subsection \<open>Two address spaces\<close>

lemma write_unseen:
  assumes ok: "\<And>q. q \<in> dir_pages m d \<Longrightarrow> unat q mod 4096 = 0" and p: "in_page p a" "unat p mod 4096 = 0" "p \<notin> dir_pages m d"
    and e: "page_entry m d v = Some e" "P2V (PTE_ADDR e) \<noteq> p"
  shows "user_byte (m(a := y)) d v = user_byte m d v"
proof (rule user_byte_write)
  show "\<not> in_page q a" if "q \<in> dir_pages m d" for q
    using in_page_disjoint [OF p(2) ok [OF that] _ p(1)] p(3) that by blast
  show "phys m d v \<noteq> Some a"
  proof
    assume "phys m d v = Some a"
    from phys_page [OF this e(1)] in_page_disjoint [OF p(2) aligned_unat_mod [OF P2V_aligned] _ p(1)] e(2)
    show False by metis
  qed
qed

text \<open>What holds of a copied page.\<close>

lemma copied_page:
  assumes c: "copied s d0 ps d cs t qs" and par: "dir_ok s d0 ps" and v: "unat v < length cs * 4096"
    and e: "page_entry (kmem s) d0 v = Some e" "P2V (PTE_ADDR e) \<notin> set ps"
  shows "user_byte (kmem t) d v = user_byte (kmem s) d0 v" and "user_byte (kmem t) d0 v = user_byte (kmem s) d0 v"
    and "\<exists>f. page_entry (kmem t) d v = Some f \<and> PTE_FLAGS f = PTE_FLAGS e \<and> P2V (PTE_ADDR f) \<in> set ps"
proof -
  let ?c = "cs ! (unat v div 4096)" and ?j = "unat v mod 4096"
  note i = c [unfolded copied_def]
  have al: "unat q mod 4096 = 0" if "q \<in> set ps" for q using dir_pages_aligned [OF par] that by blast
  have ad0: "unat d0 mod 4096 = 0" using par by (auto simp: dir_ok_def dest: page_ok_unat)
  have out: "same_outside (set ps) (kmem s) (kmem t)" using i by blast
  have et: "page_entry (kmem t) d v = Some (child_entry ?c e)"
    and copy: "\<And>j. j < 4096 \<Longrightarrow> kmem t (unat ?c + j) = kmem s (unat (P2V (PTE_ADDR e)) + j)"
    using i v e(1) by auto
  have "unat v div 4096 < length cs" using v by (simp add: div_less_iff_less_mult)
  then have cP: "?c \<in> set ps" using i nth_mem by blast
  note pa = child_entry_parts [OF unat_aligned [OF al [OF cP]] walk_present(2) [OF ad0 e(1)]]
  have "page_entry (kmem t) d0 = page_entry (kmem s) d0"
    by (rule directory_outside(1) [OF par out dir_pages_not_free [OF par] al])
  moreover have "kmem t (unat (P2V (PTE_ADDR e)) + ?j) = kmem s (unat (P2V (PTE_ADDR e)) + ?j)"
    by (rule same_outside_page [OF out aligned_unat_mod [OF P2V_aligned] e(2) al in_page_offset]) simp_all
  ultimately show "user_byte (kmem t) d0 v = user_byte (kmem s) d0 v" by (simp add: user_byte_def phys_def e(1))
  show "user_byte (kmem t) d v = user_byte (kmem s) d0 v" using copy [of ?j] by (simp add: user_byte_def phys_def et pa e(1))
  show "\<exists>f. page_entry (kmem t) d v = Some f \<and> PTE_FLAGS f = PTE_FLAGS e \<and> P2V (PTE_ADDR f) \<in> set ps"
    using et pa cP by simp
qed

lemma parent_kept:
  assumes c: "copied s d0 ps d cs t qs" and par: "dir_ok s d0 ps"
  shows "page_entry (kmem t) d0 = page_entry (kmem s) d0" and "dir_pages (kmem t) d0 = dir_pages (kmem s) d0"
    and "dir_ok t d0 qs"
proof -
  note i = c [unfolded copied_def]
  have al: "unat q mod 4096 = 0" if "q \<in> set ps" for q using dir_pages_aligned [OF par] that by blast
  have out: "same_outside (set ps) (kmem s) (kmem t)" using i by blast
  note d = directory_outside [OF par out dir_pages_not_free [OF par] al]
  show "page_entry (kmem t) d0 = page_entry (kmem s) d0" by (rule d(1))
  show "dir_pages (kmem t) d0 = dir_pages (kmem s) d0" by (rule d(2))
  have "page_ok t = page_ok s" using i by (intro page_ok_cong) auto
  moreover have "free_pages t qs" "set qs \<subseteq> set ps" using i by (auto simp: dir_ok_def)
  ultimately show "dir_ok t d0 qs" using par d(3) unfolding dir_ok_def by auto
qed

subsection \<open>Properties\<close>

text \<open>C26: \<open>copyuvm\<close> gives \<open>fork\<close> a copy of the parent's memory.  With the parent's pages below \<open>sz\<close> mapped and
  enough free pages for the copy and its tables, it returns a directory in which every user address
  below \<open>sz\<close> holds the parent's byte, with the parent's permissions; the parent's map and memory are as before.
  The two are apart from then on: what either writes at any of its addresses the other does not see.\<close>

theorem copyuvm_copies:
  assumes "dir_ok s d0 ps" and "kmem_free s" and "kernel_layout (k_data s)"
    and "unat sz \<le> 2147483648" and "1025 + (unat sz + 4095) div 4096 \<le> length ps"
    and "\<forall>v. unat v < unat sz \<longrightarrow> (\<exists>e. page_entry (kmem s) d0 v = Some e \<and> P2V (PTE_ADDR e) \<notin> set ps)"
  shows "\<exists>d t qs. copyuvm d0 sz s = Ok d t \<and> d \<noteq> 0 \<and> dir_ok t d qs \<and> dir_ok t d0 qs
    \<and> page_entry (kmem t) d0 = page_entry (kmem s) d0
    \<and> (\<forall>v. unat v < unat sz \<longrightarrow>
         user_byte (kmem t) d v = user_byte (kmem s) d0 v \<and> user_byte (kmem t) d0 v = user_byte (kmem s) d0 v
       \<and> map_option PTE_FLAGS (page_entry (kmem t) d v) = map_option PTE_FLAGS (page_entry (kmem s) d0 v))
    \<and> (\<forall>v w a y. unat v < unat sz \<longrightarrow> unat w < unat sz \<longrightarrow>
         (phys (kmem t) d w = Some a \<longrightarrow> user_byte ((kmem t)(a := y)) d0 v = user_byte (kmem s) d0 v)
       \<and> (phys (kmem t) d0 w = Some a \<longrightarrow> user_byte ((kmem t)(a := y)) d v = user_byte (kmem s) d0 v))"
proof -
  obtain d t qs cs where t: "copyuvm d0 sz s = Ok d t" "d \<noteq> 0" "copied s d0 ps d cs t qs"
    and n: "length cs = (unat sz + 4095) div 4096"
    using copyuvm_run [OF assms(1-5)] assms(6) by blast
  note i = t(3) [unfolded copied_def] and par = parent_kept [OF t(3) assms(1)]
  have page: "\<exists>e f. page_entry (kmem s) d0 v = Some e \<and> P2V (PTE_ADDR e) \<notin> set ps \<and> page_entry (kmem t) d v = Some f
      \<and> PTE_FLAGS f = PTE_FLAGS e \<and> P2V (PTE_ADDR f) \<in> set ps
      \<and> user_byte (kmem t) d v = user_byte (kmem s) d0 v \<and> user_byte (kmem t) d0 v = user_byte (kmem s) d0 v"
    if v: "unat v < unat sz" for v
  proof -
    obtain e where e: "page_entry (kmem s) d0 v = Some e" "P2V (PTE_ADDR e) \<notin> set ps" using assms(6) v by blast
    have "unat v < length cs * 4096" unfolding n using v by linarith
    from copied_page [OF t(3) assms(1) this e] e show ?thesis by blast
  qed
  have al0: "unat q mod 4096 = 0" if "q \<in> dir_pages (kmem t) d0" for q using dir_pages_aligned [OF par(3)] that by blast
  have al: "unat q mod 4096 = 0" if "q \<in> dir_pages (kmem t) d" for q using dir_pages_aligned i that by blast
  have apart: "dir_pages (kmem t) d0 \<inter> set ps = {}" "dir_pages (kmem t) d \<subseteq> set ps"
    using par(2) dir_pages_not_free [OF assms(1)] i by auto
  have "user_byte ((kmem t)(a := y)) d0 v = user_byte (kmem s) d0 v"
    if vw: "unat v < unat sz" "unat w < unat sz" and a: "phys (kmem t) d w = Some a" for v w a y
  proof -
    obtain e f where e: "page_entry (kmem t) d0 v = Some e" "P2V (PTE_ADDR e) \<notin> set ps"
      "user_byte (kmem t) d0 v = user_byte (kmem s) d0 v" and f: "page_entry (kmem t) d w = Some f" "P2V (PTE_ADDR f) \<in> set ps"
      using page [OF vw(1)] page [OF vw(2)] par(1) by auto
    have "P2V (PTE_ADDR f) \<notin> dir_pages (kmem t) d0" "P2V (PTE_ADDR e) \<noteq> P2V (PTE_ADDR f)" using apart(1) e(2) f(2) by auto
    from write_unseen [OF al0 phys_page [OF a f(1)] aligned_unat_mod [OF P2V_aligned] this(1) e(1) this(2)] e(3)
    show ?thesis by simp
  qed
  moreover have "user_byte ((kmem t)(a := y)) d v = user_byte (kmem s) d0 v"
    if vw: "unat v < unat sz" "unat w < unat sz" and a: "phys (kmem t) d0 w = Some a" for v w a y
  proof -
    obtain e f where e: "page_entry (kmem t) d0 w = Some e" "P2V (PTE_ADDR e) \<notin> set ps"
      and f: "page_entry (kmem t) d v = Some f" "P2V (PTE_ADDR f) \<in> set ps" "user_byte (kmem t) d v = user_byte (kmem s) d0 v"
      using page [OF vw(1)] page [OF vw(2)] par(1) by auto
    have "P2V (PTE_ADDR e) \<notin> dir_pages (kmem t) d" "P2V (PTE_ADDR f) \<noteq> P2V (PTE_ADDR e)" using apart(2) e(2) f(2) by auto
    from write_unseen [OF al phys_page [OF a e(1)] aligned_unat_mod [OF P2V_aligned] this(1) f(1) this(2)] f(3)
    show ?thesis by simp
  qed
  moreover have "map_option PTE_FLAGS (page_entry (kmem t) d v) = map_option PTE_FLAGS (page_entry (kmem s) d0 v)"
    if "unat v < unat sz" for v using page [OF that] by auto
  moreover have "dir_ok t d qs" using i by blast
  ultimately show ?thesis using t(1,2) par(1,3) page by blast
qed

text \<open>
  A process of one page at \<open>0x80202000\<close>, with its directory and table in the pages before it; the
  allocator has the 1026 pages from \<open>0x80400000\<close> on.
\<close>

definition one_page :: vstate where
  "one_page = two_pages\<lparr>kmem := store32 (unat (0x80201000 :: uint) + 4 * 0) 0x202007
     (store32 (unat (0x80200000 :: uint) + 4 * 0) 0x201007 (\<lambda>_. 0))\<rparr>"

definition spare_pages :: "uint list" where
  "spare_pages = range_pages 0x80400000 0x80802000"

lemma one_page_fields: "kmem one_page = store32 (unat (0x80201000 :: uint) + 4 * 0) 0x202007
    (store32 (unat (0x80200000 :: uint) + 4 * 0) 0x201007 (\<lambda>_. 0))"
  "freelist one_page = 0" "kmem_free one_page" "k_data one_page = 0x80108000" "k_end one_page = 0x80200000"
  unfolding one_page_def two_pages_def kmem_free_def by simp_all

lemma one_page_slot:
  assumes "unat q mod 4096 = 0" and "j < 1024"
  shows "slot (kmem one_page) q j =
    (if q = 0x80201000 \<and> j = 0 then 0x202007 else if q = 0x80200000 \<and> j = 0 then 0x201007 else 0)"
proof -
  have z: "slot (\<lambda>_. 0) q j = 0" by (simp add: slot_def load32_def)
  have a: "unat (0x80201000 :: uint) mod 4096 = 0" "unat (0x80200000 :: uint) mod 4096 = 0" "(0 :: nat) < 1024" by simp_all
  show ?thesis unfolding one_page_fields slot_store32 [OF a(1) assms(1) a(3) assms(2)] slot_store32 [OF a(2) assms(1) a(3) assms(2)] z ..
qed

lemma one_page_table: "i < 1024 \<Longrightarrow> table_of (kmem one_page) 0x80200000 i = (if i = 0 then Some 0x80201000 else None)"
  by (simp add: table_of_def one_page_slot present_def PTE_P_def PTE_ADDR_def P2V_def KERNBASE_def)

lemma one_page_pages: "page_ok one_page 0x80200000" "page_ok one_page 0x80201000"
  by (simp_all add: page_ok_def one_page_fields(5) PGSIZE_def V2P_def KERNBASE_def PHYSTOP_def)

lemma one_page_ok: "dir_ok one_page 0x80200000 []" "dir_pages (kmem one_page) 0x80200000 = {0x80200000, 0x80201000}"
proof -
  have "free_pages one_page []" by (simp add: free_pages_def one_page_fields(2))
  then show "dir_ok one_page 0x80200000 []" unfolding dir_ok_def by (simp add: one_page_table one_page_pages)
  have "{p. \<exists>i<1024. table_of (kmem one_page) 0x80200000 i = Some p} = {0x80201000}"
    by (auto simp: one_page_table intro: exI [of _ 0] split: if_splits)
  then show "dir_pages (kmem one_page) 0x80200000 = {0x80200000, 0x80201000}" unfolding dir_pages_def by simp
qed

lemma one_page_entry:
  assumes "unat v < 4096"
  shows "page_entry (kmem one_page) 0x80200000 v = Some 0x202007"
proof -
  have "PGROUNDDOWN v = PGROUNDDOWN 0" using assms page_number [of 0 v] by simp
  then have "page_entry (kmem one_page) 0x80200000 v = page_entry (kmem one_page) 0x80200000 0" by (rule page_entry_page)
  then show ?thesis
    by (simp add: page_entry_def PDX_def PTX_def one_page_table one_page_slot present_def PTE_P_def)
qed

lemma spare_range: "PGROUNDUP 0x80400000 = 0x80400000"
    "(unat (0x80802000 :: uint) - unat (PGROUNDUP 0x80400000)) div 4096 = 1026"
  by (simp_all add: PGROUNDUP_def PGSIZE_def)

lemma spare_pages_length: "length spare_pages = 1026"
  unfolding spare_pages_def range_pages_def unat_PGSIZE spare_range(2) length_map length_upt by simp

lemma spare_pages_above:
  assumes "p \<in> set spare_pages"
  shows "unat p mod 4096 = 0" and "0x80400000 \<le> unat p" and "page_ok one_page p"
proof -
  from assms obtain k where k: "k < 1026" "p = PGROUNDUP 0x80400000 + word_of_nat k * PGSIZE"
    unfolding spare_pages_def range_pages_def unat_PGSIZE spare_range(2) by auto
  have "unat p = unat (PGROUNDUP 0x80400000) + k * 4096"
    unfolding k(2) by (rule range_pages_nth [where b = "0x80802000"]) (simp only: spare_range(2) k(1))
  then have u: "unat p = 0x80400000 + k * 4096" by (simp add: spare_range(1))
  have "unat p = 4096 * (0x80400 + k)" using u by simp
  then show a: "unat p mod 4096 = 0" by simp
  show "0x80400000 \<le> unat p" using u by simp
  have le: "0x80000000 \<le> p" using u by (simp add: word_le_nat_alt)
  then have "unat (V2P p) = 0x400000 + k * 4096"
    using u by (simp add: V2P_def KERNBASE_def unat_sub)
  then have "V2P p < PHYSTOP" using k(1) by (simp add: word_less_nat_alt PHYSTOP_def)
  moreover have "(0x80200000 :: uint) \<le> p" using u by (simp add: word_le_nat_alt)
  ultimately show "page_ok one_page p"
    using unat_aligned [OF a] by (simp add: page_ok_def one_page_fields(5) PGSIZE_def)
qed

lemma spare_low: "unat p < 0x80400000 \<Longrightarrow> p \<notin> set (rev spare_pages)"
  using spare_pages_above(2) [of p] by auto

lemma copyuvm_copies_witness:
  "\<exists>(s :: vstate) d t. copyuvm 0x80200000 4096 s = Ok d t \<and> user_byte (kmem s) 0x80200000 7 \<noteq> None
    \<and> user_byte (kmem t) d 7 = user_byte (kmem s) 0x80200000 7"
proof -
  let ?P = "set (rev spare_pages)"
  have "free_pages one_page []" using one_page_ok(1) by (simp add: dir_ok_def)
  from free_each [OF this one_page_fields(3), where qs = spare_pages] spare_pages_above(3) range_pages_distinct
  obtain s m g where s: "free_pages s (rev spare_pages)" "s = one_page\<lparr>kmem := m, freelist := g\<rparr>"
    "\<And>x. \<forall>q \<in> set spare_pages. \<not> in_page q x \<Longrightarrow> kmem s x = kmem one_page x"
    unfolding spare_pages_def by auto
  have out: "same_outside ?P (kmem one_page) (kmem s)" using s(3) by (simp add: same_outside_def)
  have low: "0x80200000 \<notin> ?P" "0x80201000 \<notin> ?P" by (rule spare_low; simp)+
  then have dis: "dir_pages (kmem one_page) 0x80200000 \<inter> ?P = {}" unfolding one_page_ok(2) by blast
  have al: "\<And>q. q \<in> ?P \<Longrightarrow> unat q mod 4096 = 0" using spare_pages_above(1) by simp
  have d: "page_entry (kmem s) 0x80200000 = page_entry (kmem one_page) 0x80200000"
    by (rule directory_outside(1) [OF one_page_ok(1) out dis al])
  have "page_ok s = page_ok one_page" by (rule page_ok_cong) (simp add: s(2))
  then have pk: "page_ok s 0x80200000" "page_ok s 0x80201000"
    using one_page_pages by simp_all
  have "table_of (kmem s) 0x80200000 i = (if i = 0 then Some 0x80201000 else None)" if "i < 1024" for i
    by (rule trans [OF directory_outside(3) [OF one_page_ok(1) out dis al that] one_page_table [OF that]])
  then have ok: "dir_ok s 0x80200000 (rev spare_pages)"
    unfolding dir_ok_def using s(1) pk low by (simp split: if_splits)
  have "P2V (PTE_ADDR 0x202007) \<notin> ?P"
    using spare_low [of "0x80202000"] by (simp add: PTE_ADDR_def P2V_def KERNBASE_def)
  then have e: "page_entry (kmem s) 0x80200000 v = Some 0x202007 \<and> P2V (PTE_ADDR 0x202007) \<notin> ?P" if "unat v < 4096" for v
    using one_page_entry [OF that] unfolding d by blast
  have c: "kmem_free s" using one_page_fields(3) by (simp add: s(2) kmem_free_def)
  have k: "kernel_layout (k_data s)"
    by (simp add: s(2) one_page_fields(4) kernel_layout_def KERNLINK_def KERNBASE_def EXTMEM_def P2V_def PHYSTOP_def)
  have l: "1025 + (unat (4096 :: uint) + 4095) div 4096 \<le> length (rev spare_pages)" by (simp add: spare_pages_length)
  have "\<forall>v. unat v < unat (4096 :: uint) \<longrightarrow> (\<exists>e. page_entry (kmem s) 0x80200000 v = Some e \<and> P2V (PTE_ADDR e) \<notin> ?P)"
    using e by simp
  from copyuvm_copies [OF ok c k _ l this] obtain d t where t: "copyuvm 0x80200000 4096 s = Ok d t"
    "\<forall>v. unat v < unat (4096 :: uint) \<longrightarrow> user_byte (kmem t) d v = user_byte (kmem s) 0x80200000 v" by auto
  have "user_byte (kmem t) d 7 = user_byte (kmem s) 0x80200000 7" using spec [OF t(2), of 7] by simp
  moreover have "user_byte (kmem s) 0x80200000 7 \<noteq> None" using e [where v = 7] by (simp add: user_byte_def phys_def)
  ultimately show ?thesis using t(1) by blast
qed

end
