(* ===== verification/Umalloc.thy ===== *)
theory Umalloc
  imports Kalloc
begin

text \<open>
  The user memory allocator, umalloc.c.  A \<open>Header*\<close> is its address, and the fields of a header are
  words in the memory of the process.  \<open>ubrk\<close> is the size of the process; whether the kernel
  grants an \<open>sbrk\<close> is an argument.  A loop that does not return is \<open>None\<close>.
\<close>

record uheap =
  umem :: mem
  freep :: uint
  ubrk :: uint

text \<open>\<open>sizeof(Header)\<close>\<close>

definition HEADER :: uint where "HEADER = 8"

definition h_ptr :: "mem \<Rightarrow> uint \<Rightarrow> uint" where "h_ptr m p = load32 m (unat p)"
definition h_size :: "mem \<Rightarrow> uint \<Rightarrow> uint" where "h_size m p = load32 m (unat p + 4)"
definition set_ptr :: "uint \<Rightarrow> uint \<Rightarrow> mem \<Rightarrow> mem" where "set_ptr p v m = store32 (unat p) v m"
definition set_size :: "uint \<Rightarrow> uint \<Rightarrow> mem \<Rightarrow> mem" where "set_size p v m = store32 (unat p + 4) v m"

text \<open>\<open>sbrk\<close>, with its argument as the word the kernel reads.\<close>

definition usbrk :: "(uint \<Rightarrow> uint \<Rightarrow> bool) \<Rightarrow> uint \<Rightarrow> uheap \<Rightarrow> uint \<times> uheap" where
  "usbrk grants n s = (if grants (ubrk s) n then (ubrk s, s\<lparr>ubrk := ubrk s + n\<rparr>) else (- 1, s))"

partial_function (option) free_scan :: "mem \<Rightarrow> uint \<Rightarrow> uint \<Rightarrow> uint option" where
  "free_scan m bp p =
     (if bp > p \<and> bp < h_ptr m p then Some p
      else if p \<ge> h_ptr m p \<and> (bp > p \<or> bp < h_ptr m p) then Some p
      else free_scan m bp (h_ptr m p))"

definition free_upper :: "uint \<Rightarrow> uint \<Rightarrow> mem \<Rightarrow> mem" where
  "free_upper bp p m =
     (if bp + HEADER * h_size m bp = h_ptr m p then
        (let m = set_size bp (h_size m bp + h_size m (h_ptr m p)) m in
         set_ptr bp (h_ptr m (h_ptr m p)) m)
      else set_ptr bp (h_ptr m p) m)"

definition free_lower :: "uint \<Rightarrow> uint \<Rightarrow> mem \<Rightarrow> mem" where
  "free_lower bp p m =
     (if p + HEADER * h_size m p = bp then
        (let m = set_size p (h_size m p + h_size m bp) m in
         set_ptr p (h_ptr m bp) m)
      else set_ptr p bp m)"

definition ufree :: "uint \<Rightarrow> uheap \<Rightarrow> uheap option" where
  "ufree ap s =
     (let bp = ap - HEADER in
      case free_scan (umem s) bp (freep s) of
        None \<Rightarrow> None
      | Some p \<Rightarrow> Some (s\<lparr>umem := free_lower bp p (free_upper bp p (umem s)), freep := p\<rparr>))"

definition morecore :: "(uint \<Rightarrow> uint \<Rightarrow> bool) \<Rightarrow> uint \<Rightarrow> uheap \<Rightarrow> (uint \<times> uheap) option" where
  "morecore grants n s =
     (let nu = (if n < 4096 then 4096 else n); (p, s) = usbrk grants (nu * HEADER) s in
      if p = - 1 then Some (0, s)
      else
        (let s = s\<lparr>umem := set_size p nu (umem s)\<rparr> in
         case ufree (p + HEADER) s of None \<Rightarrow> None | Some s \<Rightarrow> Some (freep s, s)))"

text \<open>What \<open>malloc\<close> does with the first block that is large enough.\<close>

definition malloc_take :: "uint \<Rightarrow> uint \<Rightarrow> uint \<Rightarrow> uheap \<Rightarrow> uint \<times> uheap" where
  "malloc_take nunits prevp p s =
     (let m = umem s in
      if h_size m p = nunits then (p + HEADER, s\<lparr>umem := set_ptr prevp (h_ptr m p) m, freep := prevp\<rparr>)
      else
        (let m = set_size p (h_size m p - nunits) m; p = p + HEADER * h_size m p in
         (p + HEADER, s\<lparr>umem := set_size p nunits m, freep := prevp\<rparr>)))"

partial_function (option) malloc_loop ::
  "(uint \<Rightarrow> uint \<Rightarrow> bool) \<Rightarrow> uint \<Rightarrow> uint \<Rightarrow> uint \<Rightarrow> uheap \<Rightarrow> (uint \<times> uheap) option" where
  "malloc_loop grants nunits prevp p s =
     (if h_size (umem s) p \<ge> nunits then Some (malloc_take nunits prevp p s)
      else if p = freep s then
        (case morecore grants nunits s of
           None \<Rightarrow> None
         | Some r \<Rightarrow>
             if fst r = 0 then Some (0, snd r)
             else malloc_loop grants nunits (fst r) (h_ptr (umem (snd r)) (fst r)) (snd r))
      else malloc_loop grants nunits p (h_ptr (umem s) p) s)"

text \<open>\<open>base\<close> is the address of the variable of that name.\<close>

definition malloc_units :: "uint \<Rightarrow> uint" where
  "malloc_units nbytes = (nbytes + HEADER - 1) div HEADER + 1"

definition malloc_init :: "uint \<Rightarrow> uheap \<Rightarrow> uheap" where
  "malloc_init base s =
     (if freep s = 0 then s\<lparr>umem := set_size base 0 (set_ptr base base (umem s)), freep := base\<rparr> else s)"

definition umalloc :: "(uint \<Rightarrow> uint \<Rightarrow> bool) \<Rightarrow> uint \<Rightarrow> uint \<Rightarrow> uheap \<Rightarrow> (uint \<times> uheap) option" where
  "umalloc grants base nbytes s =
     (let s = malloc_init base s in
      malloc_loop grants (malloc_units nbytes) (freep s) (h_ptr (umem s) (freep s)) s)"

end
