(* ===== verification/Umalloc_Props.thy ===== *)
theory Umalloc_Props
  imports Umalloc Kalloc_Props
begin

text \<open>
  The circular free list of umalloc.c: the blocks in the order of their addresses, with the blocks
  that are handed out, all of them apart from each other.
\<close>

subsection \<open>Headers\<close>

definition far :: "uint \<Rightarrow> uint \<Rightarrow> bool" where
  "far a b \<longleftrightarrow> unat a + 8 \<le> unat b \<or> unat b + 8 \<le> unat a"

lemma load_store_apart: "x + 4 \<le> y \<or> y + 4 \<le> x \<Longrightarrow> load32 (store32 x w m) y = load32 m y"
  by (rule load32_cong) (auto intro!: store32_out)

lemma header_same [simp]:
  "h_ptr (set_ptr a v m) a = v" "h_size (set_ptr a v m) a = h_size m a"
  "h_size (set_size a v m) a = v" "h_ptr (set_size a v m) a = h_ptr m a"
  by (simp_all add: h_ptr_def h_size_def set_ptr_def set_size_def load_store_apart)

lemma header_far:
  assumes "far a b"
  shows "h_ptr (set_ptr a v m) b = h_ptr m b" and "h_size (set_ptr a v m) b = h_size m b"
    and "h_ptr (set_size a v m) b = h_ptr m b" and "h_size (set_size a v m) b = h_size m b"
  using assms by (auto simp: far_def h_ptr_def h_size_def set_ptr_def set_size_def intro!: load_store_apart)

lemma header_out:
  assumes "x < unat a \<or> unat a + 8 \<le> x"
  shows "set_ptr a v m x = m x" and "set_size a v m x = m x"
  using assms by (auto simp: set_ptr_def set_size_def intro!: store32_out)

subsection \<open>Lists of blocks\<close>

primrec useg :: "mem \<Rightarrow> uint \<Rightarrow> uint list \<Rightarrow> uint \<Rightarrow> bool" where
  "useg m p [] q \<longleftrightarrow> p = q"
| "useg m p (x # xs) q \<longleftrightarrow> p = x \<and> useg m (h_ptr m x) xs q"

lemma useg_append: "useg m p (xs @ ys) q \<longleftrightarrow> (\<exists>r. useg m p xs r \<and> useg m r ys q)"
  by (induction xs arbitrary: p) auto

lemma useg_cong: "(\<And>x. x \<in> set xs \<Longrightarrow> h_ptr m' x = h_ptr m x) \<Longrightarrow> useg m' p xs q = useg m p xs q"
  by (induction xs arbitrary: p) auto

lemma useg_first: "useg m p xs q \<Longrightarrow> p = (case xs of [] \<Rightarrow> q | x # _ \<Rightarrow> x)"
  by (cases xs) auto

text \<open>The bytes of a block, header included, end where the next ones may start.\<close>

definition block_end :: "mem \<Rightarrow> uint \<Rightarrow> nat" where
  "block_end m a = unat a + 8 * unat (h_size m a)"

definition apart :: "mem \<Rightarrow> uint \<Rightarrow> uint \<Rightarrow> bool" where
  "apart m a b \<longleftrightarrow> block_end m a \<le> unat b \<or> block_end m b \<le> unat a"

text \<open>
  A heap whose free list is \<open>b0 # fs\<close>, with the blocks \<open>L\<close> handed out, all below \<open>brk\<close>.
\<close>

definition heap_ok :: "mem \<Rightarrow> nat \<Rightarrow> uint \<Rightarrow> uint list \<Rightarrow> uint set \<Rightarrow> bool" where
  "heap_ok m brk b0 fs L \<longleftrightarrow>
     useg m b0 (b0 # fs) b0 \<and> sorted_wrt (<) (b0 # fs) \<and> h_size m b0 = 0 \<and> brk \<le> 2 ^ 31
     \<and> (\<forall>a \<in> set fs \<union> L. 0 < h_size m a \<and> unat b0 + 8 \<le> unat a \<and> block_end m a \<le> brk)
     \<and> set fs \<inter> L = {} \<and> (\<forall>a \<in> set fs \<union> L. \<forall>b \<in> set fs \<union> L. a \<noteq> b \<longrightarrow> apart m a b)"

lemma heap_okD:
  assumes "heap_ok m brk b0 fs L"
  shows "useg m b0 (b0 # fs) b0" and "sorted_wrt (<) (b0 # fs)" and "h_size m b0 = 0" and "brk \<le> 2 ^ 31"
    and "\<And>a. a \<in> set fs \<union> L \<Longrightarrow> 0 < h_size m a \<and> unat b0 + 8 \<le> unat a \<and> block_end m a \<le> brk"
    and "set fs \<inter> L = {}" and "\<And>a b. a \<in> set fs \<union> L \<Longrightarrow> b \<in> set fs \<union> L \<Longrightarrow> a \<noteq> b \<Longrightarrow> apart m a b"
  using assms unfolding heap_ok_def by blast+

lemma block_end_pos: "0 < h_size m a \<Longrightarrow> unat a + 8 \<le> block_end m a"
proof -
  assume "0 < h_size m a"
  then have "0 < unat (h_size m a)" by (simp add: word_less_nat_alt)
  then show ?thesis by (simp add: block_end_def)
qed

lemma heap_far:
  assumes h: "heap_ok m brk b0 fs L" and "a \<in> insert b0 (set fs \<union> L)" "b \<in> insert b0 (set fs \<union> L)" "a \<noteq> b"
  shows "far a b"
proof -
  have one: "far x b0 \<and> far b0 x" if "x \<in> set fs \<union> L" for x using heap_okD(5) [OF h that] by (auto simp: far_def)
  have two: "far a b" if "a \<in> set fs \<union> L" "b \<in> set fs \<union> L"
    using heap_okD(7) [OF h that assms(4)] heap_okD(5) [OF h that(1)] heap_okD(5) [OF h that(2)]
      block_end_pos [of m a] block_end_pos [of m b] by (auto simp: apart_def far_def)
  show ?thesis using assms(2-4) one two by blast
qed

lemma heap_cong:
  assumes h: "heap_ok m brk b0 fs L" and "\<And>a. a \<in> insert b0 (set fs) \<Longrightarrow> h_ptr m' a = h_ptr m a"
    and s: "\<And>a. a \<in> insert b0 (set fs \<union> L) \<Longrightarrow> h_size m' a = h_size m a"
  shows "heap_ok m' brk b0 fs L"
proof -
  have "useg m' b0 (b0 # fs) b0" using heap_okD(1) [OF h] assms(2) by (subst useg_cong) auto
  moreover have "block_end m' a = block_end m a" if "a \<in> set fs \<union> L" for a
    using s that by (simp add: block_end_def)
  ultimately show ?thesis using h s unfolding heap_ok_def apart_def by simp
qed

subsection \<open>Changes of the list\<close>

lemma useg_insert:
  assumes "useg m b0 (as @ t # cs) b0" and "h_ptr m' t = x" and "h_ptr m' x = h_ptr m t"
    and "\<And>y. y \<in> set as \<union> set cs \<Longrightarrow> h_ptr m' y = h_ptr m y"
  shows "useg m' b0 (as @ t # x # cs) b0"
proof -
  have "useg m b0 as t" "useg m (h_ptr m t) cs b0" using assms(1) by (auto simp: useg_append)
  then have "useg m' b0 as t" "useg m' (h_ptr m t) cs b0" using assms(4) by (simp_all add: useg_cong [of _ m' m])
  then show ?thesis using assms(2,3) by (auto simp: useg_append)
qed

lemma useg_remove:
  assumes "useg m b0 (as @ t # x # cs) b0" and "h_ptr m' t = h_ptr m x"
    and "\<And>y. y \<in> set as \<union> set cs \<Longrightarrow> h_ptr m' y = h_ptr m y"
  shows "useg m' b0 (as @ t # cs) b0"
proof -
  have "useg m b0 as t" "useg m (h_ptr m x) cs b0" using assms(1) by (auto simp: useg_append)
  then have "useg m' b0 as t" "useg m' (h_ptr m x) cs b0" using assms(3) by (simp_all add: useg_cong [of _ m' m])
  then show ?thesis using assms(2) by (auto simp: useg_append)
qed

lemma tail_of_split: "b0 # fs = as @ t # cs \<Longrightarrow> \<exists>fs'. b0 # fs' = as @ t # ds \<and> set fs' = set (tl (as @ [t])) \<union> set ds"
  by (cases as) auto

lemma tail_set: "b0 # fs = as @ t # cs \<Longrightarrow> set fs = set (tl (as @ [t])) \<union> set cs"
  by (cases as) auto

lemma sorted_insert:
  fixes x :: "'a :: linorder"
  assumes "sorted_wrt (<) (as @ t # cs)" and "t < x" and "\<And>c. c \<in> set cs \<Longrightarrow> x < c"
  shows "sorted_wrt (<) (as @ t # x # cs)"
  using assms by (induction as) (auto intro: less_trans)

lemma heap_okI:
  assumes "useg m b0 (b0 # fs) b0" and "sorted_wrt (<) (b0 # fs)" and "h_size m b0 = 0" and "brk \<le> 2 ^ 31"
    and "\<And>a. a \<in> set fs \<union> L \<Longrightarrow> 0 < h_size m a \<and> unat b0 + 8 \<le> unat a \<and> block_end m a \<le> brk"
    and "set fs \<inter> L = {}" and "\<And>a b. a \<in> set fs \<union> L \<Longrightarrow> b \<in> set fs \<union> L \<Longrightarrow> a \<noteq> b \<Longrightarrow> apart m a b"
  shows "heap_ok m brk b0 fs L"
  using assms unfolding heap_ok_def by blast

text \<open>A block that was handed out joins the list.\<close>

lemma heap_insert:
  assumes h: "heap_ok m brk b0 fs (insert x L)" and x: "x \<notin> L" and split: "b0 # fs = as @ t # cs"
    and order: "t < x" "\<And>c. c \<in> set cs \<Longrightarrow> x < c"
    and p: "h_ptr m' t = x" "h_ptr m' x = h_ptr m t" "\<And>y. y \<in> set as \<union> set cs \<Longrightarrow> h_ptr m' y = h_ptr m y"
    and s: "\<And>y. y \<in> insert b0 (insert x (set fs \<union> L)) \<Longrightarrow> h_size m' y = h_size m y"
  shows "\<exists>fs'. b0 # fs' = as @ t # x # cs \<and> heap_ok m' brk b0 fs' L"
proof -
  obtain fs' where fs': "b0 # fs' = as @ t # x # cs" "set fs' = insert x (set fs)"
    using tail_of_split [OF split, of "x # cs"] tail_set [OF split] by auto
  have "useg m' b0 (b0 # fs') b0"
    unfolding fs'(1) by (rule useg_insert [OF _ p]) (use heap_okD(1) [OF h] split in simp)
  moreover have "sorted_wrt (<) (b0 # fs')"
    unfolding fs'(1) by (rule sorted_insert [OF _ order]) (use heap_okD(2) [OF h] split in simp)
  moreover have "block_end m' a = block_end m a" if "a \<in> set fs \<union> insert x L" for a
    using s [of a] that by (auto simp: block_end_def)
  moreover have u: "set fs' \<union> L = set fs \<union> insert x L" unfolding fs'(2) by simp
  moreover have "set fs' \<inter> L = {}" using heap_okD(6) [OF h] x unfolding fs'(2) by simp
  moreover have "h_size m' a = h_size m a" if "a \<in> insert b0 (set fs \<union> insert x L)" for a
    by (rule s) (use that in simp)
  ultimately have "heap_ok m' brk b0 fs' L"
    using heap_okD(3-5,7) [OF h] by (intro heap_okI) (simp_all add: u apart_def del: Un_insert_right)
  then show ?thesis using fs'(1) by blast
qed

text \<open>Two adjacent free blocks become one.\<close>

lemma heap_merge:
  assumes h: "heap_ok m brk b0 fs L" and split: "b0 # fs = as @ x # y # cs" and x: "x \<noteq> b0"
    and adj: "block_end m x = unat y"
    and p: "h_ptr m' x = h_ptr m y" "\<And>z. z \<in> set as \<union> set cs \<Longrightarrow> h_ptr m' z = h_ptr m z"
    and s: "h_size m' x = h_size m x + h_size m y"
      "\<And>z. z \<in> insert b0 (set as \<union> set cs \<union> L) \<Longrightarrow> h_size m' z = h_size m z"
  shows "\<exists>fs'. b0 # fs' = as @ x # cs \<and> heap_ok m' brk b0 fs' L \<and> h_size m x \<le> h_size m' x \<and> h_size m y \<le> h_size m' x"
proof -
  obtain as' where as': "as = b0 # as'" using split x by (cases as) auto
  define fs' where "fs' = as' @ x # cs"
  have fs: "fs = as' @ x # y # cs" using split as' by simp
  have xy: "x \<in> set fs \<union> L" "y \<in> set fs \<union> L" by (simp_all add: fs)
  note ex = heap_okD(5) [OF h xy(1)] and ey = heap_okD(5) [OF h xy(2)]
  have dist: "distinct fs" "y \<notin> L" "x \<notin> L"
    using heap_okD(2,6) [OF h] xy strict_sorted_iff [of fs] by (auto simp: fs)
  have e: "block_end m y = unat x + 8 * (unat (h_size m x) + unat (h_size m y))"
    using adj by (simp add: block_end_def)
  then have l: "unat (h_size m x) + unat (h_size m y) < 2 ^ 32" using ey heap_okD(4) [OF h] by simp
  then have sz: "unat (h_size m' x) = unat (h_size m x) + unat (h_size m y)"
    by (simp add: s unat_plus_if')
  then have ends: "block_end m' x = block_end m y" using e by (simp add: block_end_def)
  have other: "block_end m' a = block_end m a" if "a \<in> set fs' \<union> L" "a \<noteq> x" for a
    using s(2) [of a] that by (auto simp: block_end_def fs'_def as')
  have "useg m' b0 (b0 # fs') b0"
    using useg_remove [of m b0 as x y cs m'] p heap_okD(1) [OF h] split by (simp add: fs'_def as')
  moreover have "sorted_wrt (<) (b0 # fs')"
    using heap_okD(2) [OF h] unfolding split by (auto simp: sorted_wrt_append fs'_def as')
  moreover have "set fs' \<union> L \<subseteq> set fs \<union> L - {y}" using dist by (auto simp: fs'_def fs)
  moreover have "0 < h_size m' a \<and> unat b0 + 8 \<le> unat a \<and> block_end m' a \<le> brk" if a: "a \<in> set fs' \<union> L" for a
  proof (cases "a = x")
    case True
    then show ?thesis using ex ey sz ends by (auto simp: word_less_nat_alt)
  next
    case False
    then have "h_size m' a = h_size m a" using s(2) [of a] a by (auto simp: fs'_def as')
    then show ?thesis using heap_okD(5) [OF h, of a] other [OF a False] a by (auto simp: fs'_def fs)
  qed
  moreover have x1: "apart m' x b \<and> apart m' b x" if b: "b \<in> set fs' \<union> L" "b \<noteq> x" for b
  proof -
    have b': "b \<in> set fs \<union> L" "b \<noteq> y" using b dist by (auto simp: fs'_def fs)
    have "apart m x b" "apart m y b" by (rule heap_okD(7) [OF h]; use xy b b' in auto)+
    then show ?thesis
      using adj ends other [OF b] block_end_pos [of m b] heap_okD(5) [OF h b'(1)] by (auto simp: apart_def)
  qed
  moreover have "apart m' a b" if "a \<in> set fs' \<union> L" "b \<in> set fs' \<union> L" "a \<noteq> b" for a b
  proof -
    consider "a = x" | "b = x" | "a \<noteq> x" "b \<noteq> x" by blast
    then show ?thesis
    proof cases
      case 3
      have "apart m a b" by (rule heap_okD(7) [OF h]) (use that in \<open>auto simp: fs'_def fs\<close>)
      then show ?thesis using other that 3 by (simp add: apart_def)
    qed (use x1 that in blast)+
  qed
  moreover have "h_size m' b0 = 0" using heap_okD(3) [OF h] s(2) [of b0] by simp
  moreover have "set fs' \<inter> L = {}" using heap_okD(6) [OF h] by (auto simp: fs'_def fs)
  ultimately have "heap_ok m' brk b0 fs' L" using heap_okD(4) [OF h] by (intro heap_okI)
  then show ?thesis
    using sz by (intro exI [of _ fs']) (auto simp: fs'_def as' word_le_nat_alt)
qed

text \<open>A free block is handed out whole.\<close>

lemma heap_remove:
  assumes h: "heap_ok m brk b0 fs L" and split: "b0 # fs = as @ t # x # cs"
    and p: "h_ptr m' t = h_ptr m x" "\<And>z. z \<in> set as \<union> set cs \<Longrightarrow> h_ptr m' z = h_ptr m z"
    and s: "\<And>z. z \<in> insert b0 (set fs \<union> L) \<Longrightarrow> h_size m' z = h_size m z"
  shows "x \<in> set fs \<and> (\<exists>fs'. b0 # fs' = as @ t # cs \<and> heap_ok m' brk b0 fs' (insert x L))"
proof -
  obtain fs' where fs': "b0 # fs' = as @ t # cs" "set fs' = set (tl (as @ [t])) \<union> set cs"
    using tail_of_split [OF split, of cs] by blast
  have u: "set fs = insert x (set fs')" using tail_set [OF split] fs'(2) by simp
  have "distinct (b0 # fs)" using heap_okD(2) [OF h] by (simp only: strict_sorted_iff)
  then have "x \<notin> set fs'" unfolding split fs'(2) by (cases as) auto
  then have "set fs' \<inter> insert x L = {}" using heap_okD(6) [OF h] u by auto
  moreover have "useg m' b0 (b0 # fs') b0"
    unfolding fs'(1) by (rule useg_remove [OF _ p]) (use heap_okD(1) [OF h] split in simp)
  moreover have "sorted_wrt (<) (b0 # fs')"
    using heap_okD(2) [OF h] unfolding fs'(1) split by (auto simp: sorted_wrt_append)
  moreover have e: "set fs' \<union> insert x L = set fs \<union> L" using u by simp
  moreover have "block_end m' a = block_end m a" if "a \<in> set fs \<union> L" for a
    using s [of a] that by (auto simp: block_end_def)
  moreover have "h_size m' b0 = 0" using heap_okD(3) [OF h] s by simp
  moreover have "h_size m' a = h_size m a" if "a \<in> set fs \<union> L" for a by (rule s) (use that in simp)
  ultimately have "heap_ok m' brk b0 fs' (insert x L)"
    using heap_okD(4,5,7) [OF h] unfolding apart_def by (intro heap_okI) (simp_all only: e apart_def)
  then show ?thesis using fs'(1) u by blast
qed

text \<open>The end of a free block is handed out.\<close>

lemma split_address:
  assumes h: "heap_ok m brk b0 fs L" and x: "x \<in> set fs" and k: "0 < k" "k < h_size m x"
  defines "y \<equiv> x + 8 * (h_size m x - k)"
  shows "unat (h_size m x - k) = unat (h_size m x) - unat k" and "0 < unat k" and "unat k < unat (h_size m x)"
    and "unat y = unat x + 8 * unat (h_size m x - k)"
    and "unat x + 8 \<le> unat y" and "unat y + 8 \<le> block_end m x"
    and "z \<in> insert b0 (set fs \<union> L) \<Longrightarrow> far y z"
proof -
  have xx: "x \<in> set fs \<union> L" using x by simp
  note ex = heap_okD(5) [OF h xx]
  show n: "unat (h_size m x - k) = unat (h_size m x) - unat k" "0 < unat k" "unat k < unat (h_size m x)"
    using k by (simp_all add: unat_sub word_less_nat_alt word_le_nat_alt less_imp_le)
  have "unat (h_size m x - k) \<le> unat (h_size m x)" using n by simp
  moreover have "unat x + 8 * unat (h_size m x) \<le> 2 ^ 31" using ex heap_okD(4) [OF h] by (simp add: block_end_def)
  ultimately have yl: "unat x + 8 * unat (h_size m x - k) < 2 ^ 32" by simp
  have "y = word_of_nat (unat x + 8 * unat (h_size m x - k))" by (simp add: y_def)
  then show y: "unat y = unat x + 8 * unat (h_size m x - k)" using unat_of_nat32 [OF yl] by simp
  show xy: "unat x + 8 \<le> unat y" "unat y + 8 \<le> block_end m x" using y n by (simp_all add: block_end_def)
  show "far y z" if z: "z \<in> insert b0 (set fs \<union> L)"
  proof -
    consider "z = b0" | "z = x" | "z \<in> set fs \<union> L" "z \<noteq> x" using z by blast
    then show ?thesis
    proof cases
      case 3
      then have "apart m x z" using heap_okD(7) [OF h xx] by blast
      then show ?thesis using xy heap_okD(5) [OF h 3(1)] block_end_pos [of m z] by (auto simp: apart_def far_def)
    qed (use ex xy in \<open>auto simp: far_def\<close>)
  qed
qed

lemma heap_split:
  assumes h: "heap_ok m brk b0 fs L" and x: "x \<in> set fs" and k: "0 < k" "k < h_size m x"
  defines "y \<equiv> x + 8 * (h_size m x - k)"
  assumes s: "h_size m' x = h_size m x - k" "h_size m' y = k"
      "\<And>z. z \<in> insert b0 (set fs \<union> L) \<Longrightarrow> z \<noteq> x \<Longrightarrow> h_size m' z = h_size m z"
    and p: "\<And>z. z \<in> insert b0 (set fs) \<Longrightarrow> h_ptr m' z = h_ptr m z"
  shows "heap_ok m' brk b0 fs (insert y L)"
proof -
  have xx: "x \<in> set fs \<union> L" using x by simp
  note ex = heap_okD(5) [OF h xx]
  note n = split_address(1-3) [OF h x k] and y = split_address(4) [OF h x k, folded y_def]
    and xy = split_address(5,6) [OF h x k, folded y_def]
  have ends: "block_end m' x = unat y" "block_end m' y = block_end m x"
    using y n s by (auto simp: block_end_def)
  have other: "block_end m' a = block_end m a" if "a \<in> set fs \<union> L" "a \<noteq> x" for a
    using s(3) [of a] that by (auto simp: block_end_def)
  have free: "apart m' y b \<and> apart m' b y \<and> apart m' x b \<and> apart m' b x \<and> unat b \<noteq> unat y"
    if "b \<in> set fs \<union> L" "b \<noteq> x" for b
  proof -
    have "apart m x b" by (rule heap_okD(7) [OF h xx that(1)]) (use that in auto)
    then show ?thesis
      using xy ends other [OF that] block_end_pos [of m b] heap_okD(5) [OF h that(1)] by (auto simp: apart_def)
  qed
  have ny: "y \<notin> set fs \<union> L" using free xy(1) by fastforce
  show ?thesis
  proof (rule heap_okI)
    show "useg m' b0 (b0 # fs) b0"
      using heap_okD(1) [OF h] p useg_cong [of "b0 # fs" m' m b0 b0] by simp
    show "sorted_wrt (<) (b0 # fs)" "brk \<le> 2 ^ 31" using heap_okD(2,4) [OF h] by blast+
    have "b0 \<noteq> x" using ex by fastforce
    then show "h_size m' b0 = 0" using heap_okD(3) [OF h] s(3) [of b0] by simp
    show "set fs \<inter> insert y L = {}" using heap_okD(6) [OF h] ny by blast
    show "0 < h_size m' a \<and> unat b0 + 8 \<le> unat a \<and> block_end m' a \<le> brk" if a: "a \<in> set fs \<union> insert y L" for a
    proof -
      consider "a = x" | "a = y" | "a \<in> set fs \<union> L" "a \<noteq> x" using a by blast
      then show ?thesis
      proof cases
        case 1
        then show ?thesis using ex xy ends k s(1) by (auto simp: word_less_nat_alt n)
      next
        case 2
        then show ?thesis using ex xy ends k s(2) by auto
      next
        case 3
        then show ?thesis using heap_okD(5) [OF h 3(1)] other [OF 3] s(3) [of a] by auto
      qed
    qed
    show "apart m' a b" if "a \<in> set fs \<union> insert y L" "b \<in> set fs \<union> insert y L" "a \<noteq> b" for a b
    proof -
      have "apart m' x y" "apart m' y x" using ends by (simp_all add: apart_def)
      moreover have "apart m' a b" if "a \<in> set fs \<union> L" "b \<in> set fs \<union> L" "a \<noteq> x" "b \<noteq> x"
        using heap_okD(7) [OF h that(1,2) \<open>a \<noteq> b\<close>] other that by (simp add: apart_def)
      ultimately show ?thesis using that free by blast
    qed
  qed
qed

subsection \<open>free\<close>

text \<open>Where the pointer arithmetic of the code ends up.\<close>

lemma after_block:
  assumes "heap_ok m brk b0 fs L" and "a \<in> set fs \<union> L"
  shows "unat (a + HEADER * h_size m a) = block_end m a"
proof -
  have "block_end m a \<le> 2 ^ 31" using heap_okD(4,5) [OF assms(1)] assms(2) by fastforce
  then have l: "block_end m a < 2 ^ 32" by simp
  have "a + HEADER * h_size m a = word_of_nat (block_end m a)" by (simp add: HEADER_def block_end_def)
  then show ?thesis using unat_of_nat32 [OF l] by simp
qed

lemma upper_run:
  assumes h: "heap_ok m brk b0 fs (insert x L)" and x: "x \<notin> L" and split: "b0 # fs = as @ t # cs"
    and order: "t < x" "\<And>c. c \<in> set cs \<Longrightarrow> x < c"
  shows "\<exists>fs' cs'. b0 # fs' = as @ t # x # cs' \<and> heap_ok (set_ptr t x (free_upper x t m)) brk b0 fs' L
    \<and> h_size m x \<le> h_size (free_upper x t m) x"
proof -
  let ?H = "insert b0 (set fs \<union> insert x L)"
  have xH: "x \<in> set fs \<union> insert x L" by simp
  have tH: "t \<in> ?H" and cH: "set as \<union> set cs \<subseteq> insert b0 (set fs)"
    using split by (metis in_set_conv_decomp list.set(2) UnI1 insertE insertI1 insertI2) (metis Un_subset_iff list.set(2) set_append set_subset_Cons split subset_trans sup_ge1 sup_ge2)
  have dist: "distinct (as @ t # cs)" using heap_okD(2) [OF h] split by (metis strict_sorted_iff)
  have xn: "x \<notin> insert b0 (set fs)" using heap_okD(5,6) [OF h] xH by fastforce
  have ft: "far t z" if "z \<in> ?H" "z \<noteq> t" for z using heap_far [OF h tH] that by blast
  have fx: "far x z" if "z \<in> ?H" "z \<noteq> x" for z using heap_far [OF h, of x z] that by blast
  have xt: "x \<noteq> t" using order by simp
  let ?m0 = "set_ptr t x (set_ptr x (h_ptr m t) m)"
  have "\<exists>fs'. b0 # fs' = as @ t # x # cs \<and> heap_ok ?m0 brk b0 fs' L"
  proof (rule heap_insert [OF h x split order])
    show "h_ptr ?m0 t = x" "h_ptr ?m0 x = h_ptr m t"
      using ft [of x] xt by (simp_all add: header_far)
    show "h_ptr ?m0 y = h_ptr m y" if "y \<in> set as \<union> set cs" for y
    proof -
      have "y \<noteq> t" "y \<in> ?H" "y \<noteq> x" using dist that cH xn by auto
      then show ?thesis using ft [of y] fx [of y] by (simp add: header_far)
    qed
    show "h_size ?m0 y = h_size m y" if "y \<in> insert b0 (insert x (set fs \<union> L))" for y
    proof -
      have "y \<in> ?H" using that by auto
      then show ?thesis using ft [of y] fx [of y] by (cases "y = t"; cases "y = x") (auto simp: header_far)
    qed
  qed
  then obtain f0 where f0: "b0 # f0 = as @ t # x # cs" "heap_ok ?m0 brk b0 f0 L" by blast
  show ?thesis
  proof (cases "x + HEADER * h_size m x = h_ptr m t")
    case False
    then have "free_upper x t m = set_ptr x (h_ptr m t) m" by (simp add: free_upper_def)
    then show ?thesis using f0 by auto
  next
    case True
    have useg: "useg m (h_ptr m t) cs b0" using heap_okD(1) [OF h] unfolding split by (auto simp: useg_append)
    have e: "unat (h_ptr m t) = block_end m x" using after_block [OF h xH] True by simp
    have "cs \<noteq> []"
      using useg e heap_okD(5) [OF h xH] block_end_pos [of m x] by auto
    then obtain c cs' where cs: "cs = c # cs'" "h_ptr m t = c" using useg by (cases cs) auto
    let ?m1 = "free_upper x t m"
    have cx: "c \<in> ?H" "c \<noteq> x" "c \<noteq> t" using cH xn dist cs by auto
    have m1: "?m1 = set_ptr x (h_ptr m c) (set_size x (h_size m x + h_size m c) m)"
      using True cs fx [OF cx(1,2)] fx [OF tH] xt by (simp add: free_upper_def header_far)
    have "\<exists>fs'. b0 # fs' = (as @ [t]) @ x # cs' \<and> heap_ok (set_ptr t x ?m1) brk b0 fs' L
      \<and> h_size ?m0 x \<le> h_size (set_ptr t x ?m1) x \<and> h_size ?m0 c \<le> h_size (set_ptr t x ?m1) x"
    proof (rule heap_merge [OF f0(2)])
      show "b0 # f0 = (as @ [t]) @ x # c # cs'" using f0(1) cs by simp
      show "x \<noteq> b0" using xn by simp
      show "block_end ?m0 x = unat c" using e cs ft [of x] xt by (simp add: block_end_def header_far)
      show "h_ptr (set_ptr t x ?m1) x = h_ptr ?m0 c" "h_size (set_ptr t x ?m1) x = h_size ?m0 x + h_size ?m0 c"
        using ft [of x] xt ft [OF cx(1,3)] fx [OF cx(1,2)] by (simp_all add: m1 header_far)
      show "h_ptr (set_ptr t x ?m1) z = h_ptr ?m0 z" if "z \<in> set (as @ [t]) \<union> set cs'" for z
      proof -
        have "z \<in> ?H" "z \<noteq> x" using that cH xn cs tH xt by auto
        then show ?thesis using ft [of z] fx [of z] by (cases "z = t") (auto simp: m1 header_far)
      qed
      show "h_size (set_ptr t x ?m1) z = h_size ?m0 z" if "z \<in> insert b0 (set (as @ [t]) \<union> set cs' \<union> L)" for z
      proof -
        have "z \<in> ?H" "z \<noteq> x" using that cH xn cs tH xt x by auto
        then show ?thesis using ft [of z] fx [of z] by (cases "z = t") (auto simp: m1 header_far)
      qed
    qed
    then show ?thesis using ft [of x] xt by (auto simp: header_far)
  qed
qed

lemma free_run:
  assumes h: "heap_ok m brk b0 fs (insert x L)" and x: "x \<notin> L" and split: "b0 # fs = as @ t # cs"
    and order: "t < x" "\<And>c. c \<in> set cs \<Longrightarrow> x < c"
  defines "m' \<equiv> free_lower x t (free_upper x t m)"
  shows "\<exists>fs'. heap_ok m' brk b0 fs' L \<and> t \<in> set (b0 # fs') \<and> (\<exists>a \<in> set (b0 # fs'). h_size m x \<le> h_size m' a)"
proof -
  let ?m1 = "free_upper x t m" and ?m = "set_ptr t x (free_upper x t m)"
  obtain fs1 cs1 where f1: "b0 # fs1 = as @ t # x # cs1" "heap_ok ?m brk b0 fs1 L" "h_size m x \<le> h_size ?m1 x"
    using upper_run [OF h x split order] by blast
  have set1: "set (b0 # fs1) = insert t (insert x (set as \<union> set cs1))" using f1(1) by auto
  have dist: "distinct (as @ t # x # cs1)" using heap_okD(2) [OF f1(2)] f1(1) by (metis strict_sorted_iff)
  have tx: "t \<noteq> x" using order by simp
  have ft: "far t z" if "z \<in> insert b0 (set fs1 \<union> L)" "z \<noteq> t" for z
    by (rule heap_far [OF f1(2)]) (use that set1 in auto)
  have fx: "far t x" by (rule ft) (use set1 tx in auto)
  have "x \<in> set (b0 # fs1)" "x \<noteq> b0" using set1 f1(1) dist by (cases as; auto)+
  then have xf: "x \<in> set fs1 \<union> L" by simp
  show ?thesis
  proof (cases "t + HEADER * h_size ?m1 t = x")
    case False
    then have "m' = ?m" by (simp add: m'_def free_lower_def)
    moreover have "h_size ?m x = h_size ?m1 x" by (simp add: header_far fx)
    ultimately show ?thesis using f1 set1 by (intro exI [of _ fs1]) auto
  next
    case True
    have "t \<noteq> b0"
    proof
      assume "t = b0"
      then have "h_size ?m1 t = 0" using heap_okD(3) [OF f1(2)] by simp
      then show False using True tx by (simp add: HEADER_def)
    qed
    then have tf: "t \<in> set fs1 \<union> L" using set1 by auto
    have m': "m' = set_ptr t (h_ptr ?m1 x) (set_size t (h_size ?m1 t + h_size ?m1 x) ?m1)"
      using True by (simp add: m'_def free_lower_def header_far fx)
    have "\<exists>fs'. b0 # fs' = as @ t # cs1 \<and> heap_ok m' brk b0 fs' L \<and> h_size ?m t \<le> h_size m' t \<and> h_size ?m x \<le> h_size m' t"
    proof (rule heap_merge [OF f1(2,1) \<open>t \<noteq> b0\<close>])
      show "block_end ?m t = unat x" using after_block [OF f1(2) tf] True by simp
      show "h_ptr m' t = h_ptr ?m x" "h_size m' t = h_size ?m t + h_size ?m x" by (simp_all add: m' header_far fx)
      show "h_ptr m' z = h_ptr ?m z" if "z \<in> set as \<union> set cs1" for z
      proof -
        have "z \<in> set (b0 # fs1)" "z \<noteq> t" using that set1 dist by auto
        then have "far t z" using ft [of z] by auto
        then show ?thesis by (simp add: m' header_far)
      qed
      show "h_size m' z = h_size ?m z" if "z \<in> insert b0 (set as \<union> set cs1 \<union> L)" for z
      proof -
        have "z \<in> insert b0 (set fs1 \<union> L)" using that set1 by auto
        moreover have "z \<noteq> t" using that dist \<open>t \<noteq> b0\<close> tf heap_okD(6) [OF f1(2)] set1 by auto
        ultimately show ?thesis using ft [of z] by (simp add: m' header_far)
      qed
    qed
    then obtain fs' where fs': "b0 # fs' = as @ t # cs1" "heap_ok m' brk b0 fs' L" "h_size ?m x \<le> h_size m' t" by blast
    have "h_size m x \<le> h_size m' t" using f1(3) fs'(3) by (simp add: header_far fx)
    moreover have "t \<in> set (b0 # fs')" unfolding fs'(1) by simp
    ultimately show ?thesis using fs'(2) by blast
  qed
qed

lemma free_frame:
  assumes "y < unat x \<or> unat x + 8 \<le> y" and "y < unat t \<or> unat t + 8 \<le> y"
  shows "free_lower x t (free_upper x t m) y = m y"
  using assms by (simp add: free_lower_def free_upper_def Let_def header_out)

text \<open>The scan of \<open>free\<close> stops at the last block before the one that is freed, wherever it starts.\<close>

definition stops :: "mem \<Rightarrow> uint \<Rightarrow> uint \<Rightarrow> bool" where
  "stops m bp p \<longleftrightarrow> bp > p \<and> bp < h_ptr m p \<or> p \<ge> h_ptr m p \<and> (bp > p \<or> bp < h_ptr m p)"

lemma scan_step: "free_scan m bp p = (if stops m bp p then Some p else free_scan m bp (h_ptr m p))"
  by (subst free_scan.simps) (auto simp: stops_def)

lemma scan_run:
  assumes "useg m p vs t" and "\<forall>v \<in> set vs. \<not> stops m bp v" and "stops m bp t"
  shows "free_scan m bp p = Some t"
  using assms
proof (induction vs arbitrary: p)
  case Nil
  then show ?case by (subst scan_step) simp
next
  case (Cons v vs)
  then show ?case by (subst scan_step) simp
qed

lemma stops_iff:
  assumes h: "heap_ok m brk b0 fs L" and split: "b0 # fs = as @ t # cs"
    and order: "t < x" "\<And>c. c \<in> set cs \<Longrightarrow> x < c" and v: "v \<in> set (b0 # fs)"
  shows "stops m x v \<longleftrightarrow> v = t"
proof -
  have sorted: "sorted_wrt (<) (as @ t # cs)" using heap_okD(2) [OF h] split by simp
  obtain vs ws where vw: "b0 # fs = vs @ v # ws" using v by (metis in_set_conv_decomp)
  have sv: "sorted_wrt (<) (vs @ v # ws)" using heap_okD(2) [OF h] vw by simp
  have useg: "useg m (h_ptr m v) ws b0" using heap_okD(1) [OF h] unfolding vw by (auto simp: useg_append)
  have b0: "b0 \<le> v" using heap_okD(2) [OF h] v by auto
  have vt: "v \<le> t \<or> v \<in> set cs" "x < v \<or> v \<le> t"
    using v sorted order unfolding split by (auto simp: sorted_wrt_append)
  have next_le: "w \<in> set ws \<Longrightarrow> h_ptr m v \<le> w" for w
    using useg sv by (cases ws) (auto simp: sorted_wrt_append)
  show ?thesis
  proof (cases ws)
    case Nil
    then have "h_ptr m v = b0" using useg by simp
    moreover have "t \<in> set (vs @ [v])" using split vw Nil by (metis in_set_conv_decomp)
    then have "t \<le> v" using sv Nil by (auto simp: sorted_wrt_append)
    moreover have "b0 < x" using heap_okD(2) [OF h] split order(1) by (cases as) auto
    ultimately show ?thesis using vt order(1) order(2) [of v] b0
      by (auto simp: stops_def dest: order.antisym)
  next
    case (Cons w ws')
    then have n: "h_ptr m v = w" "v < w" using useg sv by (auto simp: sorted_wrt_append)
    have "w \<in> set (b0 # fs)" "v \<in> set (b0 # fs)" unfolding vw Cons by simp_all
    then have w: "w \<le> t \<or> x < w" using sorted order(2) unfolding split by (auto simp: sorted_wrt_append)
    have "v = t" if "v < x" "x < w"
    proof -
      have "v \<le> t" using vt that by auto
      moreover have "t \<in> set vs \<or> t = v \<or> t \<in> set ws" using split vw by (metis Un_iff in_set_conv_decomp set_ConsD set_append)
      moreover have "t \<notin> set ws" using next_le [of t] n \<open>x < w\<close> order(1) by (auto dest: less_trans leD)
      ultimately show ?thesis using sv that order(1) by (auto simp: sorted_wrt_append dest: order.antisym)
    qed
    moreover have "t < w" if "v = t" using n that by simp
    ultimately show ?thesis using n w order(1) by (auto simp: stops_def)
  qed
qed

lemma useg_from:
  assumes "useg m b0 (xs @ p # ys) b0"
  shows "useg m (h_ptr m p) (ys @ xs) p" and "useg m p (p # ys @ xs) p"
  using assms by (auto simp: useg_append)

lemma useg_prefix: "useg m p (vs @ t # ws) q \<Longrightarrow> useg m p vs t"
  by (auto simp: useg_append)

lemma scan_finds:
  assumes h: "heap_ok m brk b0 fs L" and split: "b0 # fs = as @ t # cs"
    and order: "t < x" "\<And>c. c \<in> set cs \<Longrightarrow> x < c" and p: "p \<in> set (b0 # fs)"
  shows "free_scan m x p = Some t"
proof -
  obtain xs ys where xy: "b0 # fs = xs @ p # ys" using p by (metis in_set_conv_decomp)
  have "useg m p (p # ys @ xs) p" using heap_okD(1) [OF h] unfolding xy by (rule useg_from(2))
  moreover have "t \<in> set (p # ys @ xs)"
  proof -
    have "t \<in> set (b0 # fs)" unfolding split by simp
    then show ?thesis unfolding xy by auto
  qed
  ultimately obtain vs ws where vw: "p # ys @ xs = vs @ t # ws" "t \<notin> set vs" "useg m p (vs @ t # ws) p"
    by (metis split_list_first)
  have "set vs \<subseteq> set (b0 # fs)"
  proof -
    have "set vs \<subseteq> set (p # ys @ xs)" unfolding vw(1) by auto
    then show ?thesis unfolding xy by auto
  qed
  then have "\<forall>v \<in> set vs. \<not> stops m x v"
    using stops_iff [OF h split order] vw(2) by blast
  moreover have "stops m x t" using stops_iff [OF h split order] split by (metis in_set_conv_decomp)
  ultimately show ?thesis by (rule scan_run [OF useg_prefix [OF vw(3)]])
qed

text \<open>The place of a block in the list.\<close>

lemma place_exists:
  assumes "sorted_wrt (<) (b # xs)" and "b < (x :: 'a :: linorder)" and "x \<notin> set xs"
  shows "\<exists>as t cs. b # xs = as @ t # cs \<and> t < x \<and> (\<forall>c \<in> set cs. x < c)"
  using assms
proof (induction xs arbitrary: b)
  case Nil
  then show ?case by (intro exI [of _ "[]"] exI [of _ b]) simp
next
  case (Cons c xs)
  show ?case
  proof (cases "c < x")
    case True
    then obtain as t cs where "c # xs = as @ t # cs" "t < x" "\<forall>c \<in> set cs. x < c"
      using Cons.IH [of c] Cons.prems by auto
    then show ?thesis by (intro exI [of _ "b # as"] exI [of _ t] exI [of _ cs]) simp
  next
    case False
    then have "\<forall>d \<in> set (c # xs). x < d" using Cons.prems by auto
    then show ?thesis using Cons.prems by (intro exI [of _ "[]"] exI [of _ b] exI [of _ "c # xs"]) simp
  qed
qed

lemma ufree_run:
  assumes h: "heap_ok (umem s) brk b0 fs (insert x L)" and x: "x \<notin> L" and p: "freep s \<in> set (b0 # fs)"
  shows "\<exists>m t fs'. ufree (x + HEADER) s = Some (s\<lparr>umem := m, freep := t\<rparr>) \<and> heap_ok m brk b0 fs' L \<and> t \<in> set (b0 # fs')
    \<and> (\<exists>a \<in> set (b0 # fs'). h_size (umem s) x \<le> h_size m a)
    \<and> (\<forall>y. (\<forall>a \<in> insert x (set (b0 # fs)). y < unat a \<or> unat a + 8 \<le> y) \<longrightarrow> m y = umem s y)"
proof -
  have "unat b0 + 8 \<le> unat x" using heap_okD(5) [OF h, of x] by simp
  then have "b0 < x" by (simp add: word_less_nat_alt)
  moreover have "x \<notin> set fs" using heap_okD(6) [OF h] by blast
  ultimately obtain as t cs where split: "b0 # fs = as @ t # cs" and order: "t < x" "\<And>c. c \<in> set cs \<Longrightarrow> x < c"
    using place_exists [OF heap_okD(2) [OF h]] by metis
  have "free_scan (umem s) x (freep s) = Some t" by (rule scan_finds [OF h split order p])
  then have "ufree (x + HEADER) s = Some (s\<lparr>umem := free_lower x t (free_upper x t (umem s)), freep := t\<rparr>)"
    by (simp add: ufree_def)
  moreover have "t \<in> set (b0 # fs)" unfolding split by simp
  ultimately show ?thesis using free_run [OF h x split order] free_frame [of _ x t] by blast
qed

end
