(* ===== verification/Umalloc_Claims.thy ===== *)
theory Umalloc_Claims
  imports Umalloc_Props
begin

text \<open>
  The user allocator over any history of its calls: \<open>malloc\<close> and \<open>free\<close> return, and the blocks handed
  out do not overlap and keep their contents.
\<close>

subsection \<open>Blocks that keep their contents\<close>

definition keeps_blocks :: "uint set \<Rightarrow> mem \<Rightarrow> mem \<Rightarrow> bool" where
  "keeps_blocks L m m' \<longleftrightarrow> (\<forall>a \<in> L. \<forall>y. unat a \<le> y \<and> y < block_end m a \<longrightarrow> m' y = m y)"

lemma keeps_size:
  assumes "keeps_blocks L m m'" and "a \<in> L" and "0 < h_size m a"
  shows "h_size m' a = h_size m a" and "block_end m' a = block_end m a"
proof -
  have "unat a + 8 \<le> block_end m a" using assms(3) by (rule block_end_pos)
  then show "h_size m' a = h_size m a"
    unfolding h_size_def using assms(1,2) by (intro load32_cong) (auto simp: keeps_blocks_def)
  then show "block_end m' a = block_end m a" by (simp add: block_end_def)
qed

lemma keeps_blocks_trans:
  assumes "keeps_blocks L m m'" and "keeps_blocks L m' m''" and "\<And>a. a \<in> L \<Longrightarrow> 0 < h_size m a"
  shows "keeps_blocks L m m''"
proof -
  have "block_end m' a = block_end m a" if "a \<in> L" for a by (rule keeps_size(2)) (use assms that in auto)
  then show ?thesis using assms(1,2) by (auto simp: keeps_blocks_def)
qed

lemma keeps_blocks_headers:
  assumes h: "heap_ok m brk b0 fs L" and X: "X \<subseteq> insert b0 (set fs)" and K: "K \<subseteq> L"
    and m': "\<And>y. \<forall>a \<in> X. y < unat a \<or> unat a + 8 \<le> y \<Longrightarrow> m' y = m y"
  shows "keeps_blocks K m m'"
  unfolding keeps_blocks_def
proof (intro ballI allI impI)
  fix a y assume a: "a \<in> K" and y: "unat a \<le> y \<and> y < block_end m a"
  have aL: "a \<in> set fs \<union> L" using a K by blast
  show "m' y = m y"
  proof (rule m', intro ballI)
    fix c assume c: "c \<in> X"
    show "y < unat c \<or> unat c + 8 \<le> y"
    proof (cases "c = b0")
      case True
      then show ?thesis using y heap_okD(5) [OF h aL] by auto
    next
      case False
      then have cf: "c \<in> set fs \<union> L" "c \<in> set fs" using c X by auto
      have "a \<noteq> c" using cf(2) a K heap_okD(6) [OF h] by blast
      then show ?thesis
        using y heap_okD(7) [OF h aL cf(1)] heap_okD(5) [OF h cf(1)] block_end_pos [of m c] by (auto simp: apart_def)
    qed
  qed
qed

subsection \<open>Taking a block\<close>

lemma successor:
  assumes h: "heap_ok m brk b0 fs L" and "prev \<in> set (b0 # fs)" and "h_ptr m prev = p" and "0 < h_size m p"
  shows "\<exists>vs cs. b0 # fs = vs @ prev # p # cs"
proof -
  obtain vs ws where vw: "b0 # fs = vs @ prev # ws" using assms(2) by (metis in_set_conv_decomp)
  have "useg m p ws b0" using heap_okD(1) [OF h] assms(3) unfolding vw by (auto simp: useg_append)
  then show ?thesis using heap_okD(3) [OF h] assms(4) vw by (cases ws) auto
qed

lemma take_run:
  assumes h: "heap_ok (umem s) brk b0 fs L" and prev: "prev \<in> set (b0 # fs)" "h_ptr (umem s) prev = p"
    and n: "0 < n" "n \<le> h_size (umem s) p"
  shows "\<exists>m x fs'. malloc_take n prev p s = (x + HEADER, s\<lparr>umem := m, freep := prev\<rparr>)
    \<and> heap_ok m brk b0 fs' (insert x L) \<and> prev \<in> set (b0 # fs') \<and> x \<notin> L \<and> h_size m x = n \<and> keeps_blocks L (umem s) m"
proof -
  let ?m = "umem s"
  have "0 < h_size ?m p" using n by simp
  then obtain vs cs where split: "b0 # fs = vs @ prev # p # cs" using successor [OF h prev] by blast
  have dist: "distinct (vs @ prev # p # cs)" using heap_okD(2) [OF h] split by (metis strict_sorted_iff)
  have pin: "p \<in> set fs" using split by (cases vs) auto
  have far: "far a b" if "a \<in> insert b0 (set fs)" "b \<in> insert b0 (set fs \<union> L)" "a \<noteq> b" for a b
    by (rule heap_far [OF h]) (use that in auto)
  have all: "insert b0 (set fs) = insert prev (insert p (set vs \<union> set cs))"
    using split by (metis list.set(2) set_append Un_insert_right)
  show ?thesis
  proof (cases "h_size ?m p = n")
    case True
    let ?t = "set_ptr prev (h_ptr ?m p) ?m"
    have fp: "far prev z" if "z \<in> insert b0 (set fs \<union> L)" "z \<noteq> prev" for z by (rule far) (use that all in auto)
    have r: "p \<in> set fs \<and> (\<exists>fs'. b0 # fs' = vs @ prev # cs \<and> heap_ok ?t brk b0 fs' (insert p L))"
    proof (rule heap_remove [OF h split])
      show "h_ptr ?t prev = h_ptr ?m p" by simp
      show "h_ptr ?t z = h_ptr ?m z" if "z \<in> set vs \<union> set cs" for z
      proof -
        have "z \<in> insert b0 (set fs \<union> L)" "z \<noteq> prev" using that all dist by auto
        then show ?thesis using fp by (simp add: header_far)
      qed
      show "h_size ?t z = h_size ?m z" if "z \<in> insert b0 (set fs \<union> L)" for z
        using fp [OF that] by (cases "z = prev") (simp_all add: header_far)
    qed
    then obtain fs' where fs': "b0 # fs' = vs @ prev # cs" "heap_ok ?t brk b0 fs' (insert p L)" by blast
    have "keeps_blocks L ?m ?t"
      by (rule keeps_blocks_headers [OF h, of "{prev}"]) (use all in \<open>auto simp: header_out\<close>)
    moreover have "p \<notin> L" using heap_okD(6) [OF h] pin by blast
    moreover have "far prev p" by (rule fp) (use pin dist in auto)
    then have "h_size ?t p = n" using True by (simp add: header_far)
    moreover have "prev \<in> set (b0 # fs')" unfolding fs'(1) by simp
    moreover have "malloc_take n prev p s = (p + HEADER, s\<lparr>umem := ?t, freep := prev\<rparr>)"
      using True by (simp add: malloc_take_def Let_def)
    ultimately show ?thesis using fs'(2) by blast
  next
    case False
    then have k: "n < h_size ?m p" using n by simp
    let ?m1 = "set_size p (h_size ?m p - n) ?m"
    let ?x = "p + 8 * (h_size ?m p - n)"
    let ?t = "set_size ?x n ?m1"
    note a = split_address [OF h pin n(1) k]
    have fx: "far ?x z" if "z \<in> insert b0 (set fs \<union> L)" for z by (rule a(7) [OF that])
    have fp: "far p z" if "z \<in> insert b0 (set fs \<union> L)" "z \<noteq> p" for z by (rule far) (use that pin in auto)
    have fpx: "far p ?x" using fx [of p] pin by (auto simp: far_def)
    have ok: "heap_ok ?t brk b0 fs (insert ?x L)"
    proof (rule heap_split [OF h pin n(1) k])
      show "h_size ?t p = h_size ?m p - n" "h_size ?t ?x = n" using fx [of p] pin by (simp_all add: header_far)
      show "h_size ?t z = h_size ?m z" if "z \<in> insert b0 (set fs \<union> L)" "z \<noteq> p" for z
        using fx [OF that(1)] fp [OF that] by (simp add: header_far)
      show "h_ptr ?t z = h_ptr ?m z" if "z \<in> insert b0 (set fs)" for z
      proof -
        have "z \<in> insert b0 (set fs \<union> L)" using that by auto
        then show ?thesis using fx [of z] fp [of z] by (cases "z = p") (simp_all add: header_far)
      qed
    qed
    have "?x \<notin> L" using fx [of ?x] by (auto simp: far_def)
    moreover have "keeps_blocks L ?m ?t"
      unfolding keeps_blocks_def
    proof (intro ballI allI impI)
      fix c y assume c: "c \<in> L" and y: "unat c \<le> y \<and> y < block_end ?m c"
      have "c \<noteq> p" using c pin heap_okD(6) [OF h] by blast
      then have "apart ?m p c" using heap_okD(7) [OF h, of p c] pin c by blast
      then have "y < unat p \<or> block_end ?m p \<le> y" using y by (auto simp: apart_def)
      then show "?t y = ?m y" using a(5,6) by (auto simp: header_out)
    qed
    moreover have "h_size ?m1 p = h_size ?m p - n" by simp
    then have "malloc_take n prev p s = (?x + HEADER, s\<lparr>umem := ?t, freep := prev\<rparr>)"
      using False by (simp add: malloc_take_def Let_def HEADER_def)
    moreover have "h_size ?t ?x = n" by simp
    ultimately show ?thesis using ok prev(1) by blast
  qed
qed

subsection \<open>Growing the heap\<close>

text \<open>What the kernel promises of \<open>sbrk\<close>: a process does not grow to \<open>KERNBASE\<close> or beyond.\<close>

definition below_kernel :: "(uint \<Rightarrow> uint \<Rightarrow> bool) \<Rightarrow> bool" where
  "below_kernel g \<longleftrightarrow> (\<forall>b n. g b n \<longrightarrow> n < KERNBASE \<longrightarrow> unat b + unat n < unat KERNBASE)"

lemma heap_extend:
  assumes h: "heap_ok m (unat b) b0 fs L" and b: "unat b0 + 8 \<le> unat b" and n: "0 < n" "unat b + 8 * unat n \<le> 2 ^ 31"
  shows "heap_ok (set_size b n m) (unat b + 8 * unat n) b0 fs (insert b L)" and "b \<notin> L"
    and "keeps_blocks L m (set_size b n m)"
proof -
  have below: "unat a + 8 \<le> unat b \<and> block_end m a \<le> unat b" if "a \<in> insert b0 (set fs \<union> L)" for a
    using that b heap_okD(3) [OF h] heap_okD(5) [OF h, of a] block_end_pos [of m a] by (auto simp: block_end_def)
  have f: "far b a" if "a \<in> insert b0 (set fs \<union> L)" for a using below [OF that] by (simp add: far_def)
  have same: "h_size (set_size b n m) a = h_size m a" "h_ptr (set_size b n m) a = h_ptr m a"
      "block_end (set_size b n m) a = block_end m a"
    if "a \<in> insert b0 (set fs \<union> L)" for a
    using f [OF that] by (simp_all add: header_far block_end_def)
  have e: "block_end (set_size b n m) b = unat b + 8 * unat n" by (simp add: block_end_def)
  show bL: "b \<notin> L" using f [of b] by (auto simp: far_def)
  have bf: "b \<notin> set fs" using f [of b] by (auto simp: far_def)
  show "heap_ok (set_size b n m) (unat b + 8 * unat n) b0 fs (insert b L)"
  proof (rule heap_okI)
    show "useg (set_size b n m) b0 (b0 # fs) b0"
      using heap_okD(1) [OF h] by (subst useg_cong [where m = m]) (auto simp: same)
    show "sorted_wrt (<) (b0 # fs)" using heap_okD(2) [OF h] .
    show "h_size (set_size b n m) b0 = 0" using heap_okD(3) [OF h] same by simp
    show "unat b + 8 * unat n \<le> 2 ^ 31" using n by simp
    show "set fs \<inter> insert b L = {}" using heap_okD(6) [OF h] bf by simp
    show "0 < h_size (set_size b n m) a \<and> unat b0 + 8 \<le> unat a \<and> block_end (set_size b n m) a \<le> unat b + 8 * unat n"
      if "a \<in> set fs \<union> insert b L" for a
    proof (cases "a = b")
      case True
      then show ?thesis using n b e by simp
    next
      case False
      then have a: "a \<in> set fs \<union> L" "a \<in> insert b0 (set fs \<union> L)" using that by auto
      then show ?thesis using heap_okD(5) [OF h a(1)] same [OF a(2)] by simp
    qed
    show "apart (set_size b n m) a c" if "a \<in> set fs \<union> insert b L" "c \<in> set fs \<union> insert b L" "a \<noteq> c" for a c
    proof -
      consider "a = b" "c \<in> set fs \<union> L" | "c = b" "a \<in> set fs \<union> L" | "a \<in> set fs \<union> L" "c \<in> set fs \<union> L"
        using \<open>a \<in> set fs \<union> insert b L\<close> \<open>c \<in> set fs \<union> insert b L\<close> \<open>a \<noteq> c\<close> by blast
      then show ?thesis
      proof cases
        case 3
        then show ?thesis using heap_okD(7) [OF h 3 \<open>a \<noteq> c\<close>] same(3) by (simp add: apart_def)
      qed (use below same(3) in \<open>simp_all add: apart_def\<close>)
    qed
  qed
  show "keeps_blocks L m (set_size b n m)"
    unfolding keeps_blocks_def using below by (fastforce simp: header_out)
qed

lemma morecore_run:
  assumes h: "heap_ok (umem s) (unat (ubrk s)) b0 fs L" and f: "freep s \<in> set (b0 # fs)" and g: "below_kernel g"
    and b: "0 < b0" "unat b0 + 8 \<le> unat (ubrk s)" and n: "unat n < 2 ^ 28"
  shows "morecore g n s = Some (0, s) \<and> (\<exists>k. \<not> g (ubrk s) k)
    \<or> (\<exists>t s' fs'. morecore g n s = Some (t, s') \<and> t = freep s' \<and> t \<noteq> 0 \<and> t \<in> set (b0 # fs')
        \<and> ubrk s \<le> ubrk s' \<and> heap_ok (umem s') (unat (ubrk s')) b0 fs' L \<and> keeps_blocks L (umem s) (umem s')
        \<and> (\<exists>a \<in> set (b0 # fs'). n \<le> h_size (umem s') a))"
proof -
  define nu where "nu = (if n < 4096 then 4096 else n)"
  have nu: "n \<le> nu" "0 < nu" "unat nu < 2 ^ 28" using n by (auto simp: nu_def word_less_nat_alt word_le_nat_alt)
  have nu8: "unat (nu * HEADER) = 8 * unat nu"
  proof -
    have l: "8 * unat nu < 2 ^ 32" using nu(3) by simp
    have "nu * HEADER = word_of_nat (8 * unat nu)" by (simp add: HEADER_def)
    then show ?thesis using unat_of_nat32 [OF l] by simp
  qed
  show ?thesis
  proof (cases "g (ubrk s) (nu * HEADER)")
    case False
    then have "morecore g n s = Some (0, s)" by (simp add: morecore_def usbrk_def nu_def [symmetric] Let_def)
    then show ?thesis using False by blast
  next
    case True
    let ?b = "ubrk s"
    have kb: "unat KERNBASE = 2 ^ 31" by (simp add: KERNBASE_def)
    have "nu * HEADER < KERNBASE" using nu8 nu(3) kb by (simp add: word_less_nat_alt)
    then have top: "unat ?b + 8 * unat nu < 2 ^ 31" using g True nu8 kb unfolding below_kernel_def by metis
    then have b': "unat (?b + nu * HEADER) = unat ?b + 8 * unat nu"
      by (simp add: unat_plus_if' nu8)
    have le: "?b \<le> ?b + nu * HEADER" by (simp add: word_le_nat_alt b')
    have "unat (?b + 1) = unat ?b + 1" using top by (simp add: unat_plus_if')
    then have ne: "?b \<noteq> - 1" by auto
    let ?s = "s\<lparr>ubrk := ?b + nu * HEADER, umem := set_size ?b nu (umem s)\<rparr>"
    have x: "heap_ok (umem ?s) (unat ?b + 8 * unat nu) b0 fs (insert ?b L)" "?b \<notin> L" "keeps_blocks L (umem s) (umem ?s)"
      using heap_extend [OF h b(2) nu(2)] top by simp_all
    obtain m t fs' where u: "ufree (?b + HEADER) ?s = Some (?s\<lparr>umem := m, freep := t\<rparr>)"
      "heap_ok m (unat ?b + 8 * unat nu) b0 fs' L" "t \<in> set (b0 # fs')"
      "\<exists>a \<in> set (b0 # fs'). h_size (umem ?s) ?b \<le> h_size m a"
      "\<And>y. \<forall>a \<in> insert ?b (set (b0 # fs)). y < unat a \<or> unat a + 8 \<le> y \<Longrightarrow> m y = umem ?s y"
      using ufree_run [OF x(1,2)] f by auto
    have run: "morecore g n s = Some (t, ?s\<lparr>umem := m, freep := t\<rparr>)"
      using True ne u(1) by (simp add: morecore_def usbrk_def nu_def [symmetric] Let_def)
    have keep: "keeps_blocks L (umem ?s) m"
      unfolding keeps_blocks_def
    proof (intro ballI allI impI)
      fix a y assume a: "a \<in> L" and y: "unat a \<le> y \<and> y < block_end (umem ?s) a"
      show "m y = umem ?s y"
      proof (rule u(5), intro ballI)
        fix c assume c: "c \<in> insert ?b (set (b0 # fs))"
        have aa: "a \<in> set fs \<union> insert ?b L" "a \<noteq> ?b" using a x(2) by auto
        show "y < unat c \<or> unat c + 8 \<le> y"
        proof (cases "c = b0")
          case True
          then show ?thesis using y heap_okD(5) [OF x(1) aa(1)] by auto
        next
          case False
          then have cc: "c \<in> set fs \<union> insert ?b L" using c by auto
          have "a \<noteq> c" using a c False aa(2) heap_okD(6) [OF h] by auto
          then show ?thesis
            using y heap_okD(7) [OF x(1) aa(1) cc] heap_okD(5) [OF x(1) cc] block_end_pos [of "umem ?s" c]
            by (auto simp: apart_def)
        qed
      qed
    qed
    have "0 < h_size (umem s) a" if "a \<in> L" for a using heap_okD(5) [OF h] that by blast
    then have "keeps_blocks L (umem s) m" using keeps_blocks_trans [OF x(3) keep] by blast
    moreover have "t \<noteq> 0"
    proof -
      have "b0 \<le> t" using heap_okD(2) [OF u(2)] u(3) by auto
      then show ?thesis using b(1) by auto
    qed
    moreover have "\<exists>a \<in> set (b0 # fs'). n \<le> h_size m a"
      using u(4) nu(1) by (auto intro: order_trans)
    ultimately show ?thesis using run u(2,3) le by (intro disjI2 exI [of _ t] exI [of _ "?s\<lparr>umem := m, freep := t\<rparr>"] exI [of _ fs']) (simp add: b')
  qed
qed

subsection \<open>malloc\<close>

lemma loop_scan:
  assumes "useg (umem s) p (vs @ [freep s]) q" and "prev \<in> set bs" and "h_ptr (umem s) prev = p"
    and "set vs \<subseteq> set bs" and "freep s \<in> set bs" and "freep s \<notin> set vs"
  shows "(\<exists>prev' p'. prev' \<in> set bs \<and> h_ptr (umem s) prev' = p' \<and> n \<le> h_size (umem s) p'
      \<and> malloc_loop g n prev p s = Some (malloc_take n prev' p' s))
    \<or> (\<forall>a \<in> set (vs @ [freep s]). h_size (umem s) a < n) \<and> malloc_loop g n prev p s =
        (case morecore g n s of None \<Rightarrow> None
         | Some r \<Rightarrow> if fst r = 0 then Some (0, snd r)
             else malloc_loop g n (fst r) (h_ptr (umem (snd r)) (fst r)) (snd r))"
  using assms
proof (induction vs arbitrary: p prev)
  case Nil
  then have p: "p = freep s" by simp
  show ?case
  proof (cases "n \<le> h_size (umem s) p")
    case True
    then have "malloc_loop g n prev p s = Some (malloc_take n prev p s)" by (subst malloc_loop.simps) simp
    then show ?thesis using True Nil.prems by blast
  next
    case False
    then have "malloc_loop g n prev p s = (case morecore g n s of None \<Rightarrow> None
         | Some r \<Rightarrow> if fst r = 0 then Some (0, snd r)
             else malloc_loop g n (fst r) (h_ptr (umem (snd r)) (fst r)) (snd r))"
      using p by (subst malloc_loop.simps) simp
    then show ?thesis using p False by (simp add: not_le)
  qed
next
  case (Cons v vs)
  then have p: "p = v" "p \<noteq> freep s" "p \<in> set bs" by auto
  show ?case
  proof (cases "n \<le> h_size (umem s) p")
    case True
    then have "malloc_loop g n prev p s = Some (malloc_take n prev p s)" by (subst malloc_loop.simps) simp
    then show ?thesis using True Cons.prems by blast
  next
    case False
    then have "malloc_loop g n prev p s = malloc_loop g n p (h_ptr (umem s) p) s"
      using p(2) by (subst malloc_loop.simps) simp
    moreover have "useg (umem s) (h_ptr (umem s) p) (vs @ [freep s]) q" using Cons.prems p by simp
    ultimately show ?thesis
      using Cons.IH [OF _ p(3) refl] Cons.prems(4-6) p(1) False by (auto simp: not_le)
  qed
qed

lemma loop_start:
  assumes h: "heap_ok (umem s) brk b0 fs L" and f: "freep s \<in> set (b0 # fs)"
  shows "(\<exists>prev' p'. prev' \<in> set (b0 # fs) \<and> h_ptr (umem s) prev' = p' \<and> n \<le> h_size (umem s) p'
      \<and> malloc_loop g n (freep s) (h_ptr (umem s) (freep s)) s = Some (malloc_take n prev' p' s))
    \<or> (\<forall>a \<in> set (b0 # fs). h_size (umem s) a < n) \<and> malloc_loop g n (freep s) (h_ptr (umem s) (freep s)) s =
        (case morecore g n s of None \<Rightarrow> None
         | Some r \<Rightarrow> if fst r = 0 then Some (0, snd r)
             else malloc_loop g n (fst r) (h_ptr (umem (snd r)) (fst r)) (snd r))"
proof -
  obtain xs ys where xy: "b0 # fs = xs @ freep s # ys" using f by (metis in_set_conv_decomp)
  have "distinct (xs @ freep s # ys)" using heap_okD(2) [OF h] xy by (metis strict_sorted_iff)
  then have nin: "freep s \<notin> set (ys @ xs)" by auto
  have "useg (umem s) (h_ptr (umem s) (freep s)) (ys @ xs) (freep s)"
    using heap_okD(1) [OF h] unfolding xy by (rule useg_from(1))
  then have sg: "useg (umem s) (h_ptr (umem s) (freep s)) ((ys @ xs) @ [freep s]) (h_ptr (umem s) (freep s))"
    by (simp only: useg_append) auto
  have sub: "set (ys @ xs) \<subseteq> set (b0 # fs)" unfolding xy by auto
  have all: "set ((ys @ xs) @ [freep s]) = set (b0 # fs)" unfolding xy by auto
  show ?thesis using loop_scan [OF sg f refl sub f nin, of n g] unfolding all .
qed

lemma malloc_loop_run:
  assumes h: "heap_ok (umem s) (unat (ubrk s)) b0 fs L" and f: "freep s \<in> set (b0 # fs)" and g: "below_kernel g"
    and b: "0 < b0" "unat b0 + 8 \<le> unat (ubrk s)" and n: "0 < n" "unat n < 2 ^ 28"
  shows "malloc_loop g n (freep s) (h_ptr (umem s) (freep s)) s = Some (0, s) \<and> (\<exists>k. \<not> g (ubrk s) k)
    \<or> (\<exists>x s' fs'. malloc_loop g n (freep s) (h_ptr (umem s) (freep s)) s = Some (x + HEADER, s')
        \<and> heap_ok (umem s') (unat (ubrk s')) b0 fs' (insert x L) \<and> freep s' \<in> set (b0 # fs') \<and> ubrk s \<le> ubrk s'
        \<and> x \<notin> L \<and> h_size (umem s') x = n \<and> keeps_blocks L (umem s) (umem s'))"
proof -
  let ?loop = "\<lambda>s. malloc_loop g n (freep s) (h_ptr (umem s) (freep s)) s"
  have found: "\<exists>x s' fs'. ?loop s = Some (x + HEADER, s')
        \<and> heap_ok (umem s') (unat (ubrk s')) b0 fs' (insert x L) \<and> freep s' \<in> set (b0 # fs') \<and> ubrk s = ubrk s'
        \<and> x \<notin> L \<and> h_size (umem s') x = n \<and> keeps_blocks L (umem s) (umem s')"
    if w: "heap_ok (umem s) (unat (ubrk s)) b0 fs L" "prev \<in> set (b0 # fs)" "h_ptr (umem s) prev = p" "n \<le> h_size (umem s) p"
      "?loop s = Some (malloc_take n prev p s)" for s fs prev p
  proof -
    obtain m x fs' where "malloc_take n prev p s = (x + HEADER, s\<lparr>umem := m, freep := prev\<rparr>)"
      "heap_ok m (unat (ubrk s)) b0 fs' (insert x L)" "prev \<in> set (b0 # fs')" "x \<notin> L" "h_size m x = n"
      "keeps_blocks L (umem s) m"
      using take_run [OF w(1-3) n(1) w(4)] by blast
    then show ?thesis
      using w(5) by (intro exI [of _ x] exI [of _ "s\<lparr>umem := m, freep := prev\<rparr>"] exI [of _ fs']) simp
  qed
  from loop_start [OF h f, of n g] show ?thesis
  proof (elim disjE exE conjE)
    fix prev p assume "prev \<in> set (b0 # fs)" "h_ptr (umem s) prev = p" "n \<le> h_size (umem s) p"
      "?loop s = Some (malloc_take n prev p s)"
    from found [OF h this] show ?thesis by fastforce
  next
    assume loop: "?loop s = (case morecore g n s of None \<Rightarrow> None
         | Some r \<Rightarrow> if fst r = 0 then Some (0, snd r)
             else malloc_loop g n (fst r) (h_ptr (umem (snd r)) (fst r)) (snd r))"
    from morecore_run [OF h f g b n(2)] show ?thesis
    proof (elim disjE exE conjE)
      fix k assume "morecore g n s = Some (0, s)" "\<not> g (ubrk s) k"
      then show ?thesis using loop by auto
    next
      fix t s' fs' a
      assume r: "morecore g n s = Some (t, s')" "t = freep s'" "t \<noteq> 0" "t \<in> set (b0 # fs')" "ubrk s \<le> ubrk s'"
        "heap_ok (umem s') (unat (ubrk s')) b0 fs' L" "keeps_blocks L (umem s) (umem s')"
      assume "\<exists>a \<in> set (b0 # fs'). n \<le> h_size (umem s') a"
      then obtain a where a: "a \<in> set (b0 # fs')" "n \<le> h_size (umem s') a" by blast
      have l: "?loop s = ?loop s'" using loop r(1-3) by simp
      have f': "freep s' \<in> set (b0 # fs')" using r by simp
      obtain prev p where "prev \<in> set (b0 # fs')" "h_ptr (umem s') prev = p" "n \<le> h_size (umem s') p"
        "?loop s' = Some (malloc_take n prev p s')"
        using loop_start [OF r(6) f', of n g] a by (meson not_le)
      from found [OF r(6) this] obtain x s2 fs2 where s2: "?loop s' = Some (x + HEADER, s2)"
        "heap_ok (umem s2) (unat (ubrk s2)) b0 fs2 (insert x L)" "freep s2 \<in> set (b0 # fs2)" "ubrk s' = ubrk s2"
        "x \<notin> L" "h_size (umem s2) x = n" "keeps_blocks L (umem s') (umem s2)"
        by blast
      have "keeps_blocks L (umem s) (umem s2)"
        by (rule keeps_blocks_trans [OF r(7) s2(7)]) (use heap_okD(5) [OF h] in blast)
      then show ?thesis using s2 r(5) l by metis
    qed
  qed
qed

subsection \<open>Histories of calls\<close>

text \<open>
  The states a process can reach with the blocks it holds, as a map from their addresses to the sizes
  asked for: it calls \<open>malloc\<close> and \<open>free\<close> in any order, writes into blocks it holds, and may grow its
  memory by other calls of \<open>sbrk\<close>.
\<close>

inductive uheap_run :: "uint \<Rightarrow> uheap \<Rightarrow> (uint \<rightharpoonup> uint) \<Rightarrow> bool" for b0 where
  start: "0 < b0 \<Longrightarrow> unat b0 + 8 \<le> unat (ubrk s) \<Longrightarrow> unat (ubrk s) \<le> 2 ^ 31 \<Longrightarrow> freep s = 0 \<Longrightarrow> uheap_run b0 s Map.empty"
| alloc: "uheap_run b0 s A \<Longrightarrow> below_kernel g \<Longrightarrow> n \<le> 0x7FFFFF00 \<Longrightarrow> umalloc g b0 n s = Some (r, t) \<Longrightarrow>
    uheap_run b0 t (if r = 0 then A else A(r \<mapsto> n))"
| release: "uheap_run b0 s A \<Longrightarrow> A p = Some n \<Longrightarrow> ufree p s = Some t \<Longrightarrow> uheap_run b0 t (A(p := None))"
| store: "uheap_run b0 s A \<Longrightarrow> (\<And>y. m y \<noteq> umem s y \<Longrightarrow> \<exists>p n. A p = Some n \<and> unat p \<le> y \<and> y < unat p + unat n) \<Longrightarrow>
    uheap_run b0 (s\<lparr>umem := m\<rparr>) A"
| grow: "uheap_run b0 s A \<Longrightarrow> ubrk s \<le> b \<Longrightarrow> unat b \<le> 2 ^ 31 \<Longrightarrow> uheap_run b0 (s\<lparr>ubrk := b\<rparr>) A"

definition fits :: "mem \<Rightarrow> uint set \<Rightarrow> (uint \<rightharpoonup> uint) \<Rightarrow> bool" where
  "fits m L A \<longleftrightarrow> dom A = (\<lambda>x. x + HEADER) ` L
     \<and> (\<forall>x \<in> L. \<forall>n. A (x + HEADER) = Some n \<longrightarrow> unat n + 8 \<le> 8 * unat (h_size m x))"

definition user_heap :: "uint \<Rightarrow> uheap \<Rightarrow> (uint \<rightharpoonup> uint) \<Rightarrow> bool" where
  "user_heap b0 s A \<longleftrightarrow> 0 < b0 \<and> unat b0 + 8 \<le> unat (ubrk s) \<and>
     (freep s = 0 \<and> A = Map.empty \<and> unat (ubrk s) \<le> 2 ^ 31
      \<or> (\<exists>fs L. heap_ok (umem s) (unat (ubrk s)) b0 fs L \<and> freep s \<in> set (b0 # fs) \<and> fits (umem s) L A))"

lemma payload_address:
  assumes "heap_ok m brk b0 fs L" and "x \<in> L"
  shows "unat (x + HEADER) = unat x + 8" and "x + HEADER \<noteq> 0"
proof -
  have "unat x + 8 \<le> 2 ^ 31"
    using heap_okD(4) [OF assms(1)] heap_okD(5) [OF assms(1), of x] block_end_pos [of m x] assms(2) by auto
  then show "unat (x + HEADER) = unat x + 8" by (simp add: HEADER_def unat_plus_if')
  then show "x + HEADER \<noteq> 0" by (metis add_is_0 unat_0 zero_neq_numeral)
qed

text \<open>The contents of the blocks the process holds.\<close>

definition contents_kept :: "(uint \<rightharpoonup> uint) \<Rightarrow> mem \<Rightarrow> mem \<Rightarrow> bool" where
  "contents_kept A m m' \<longleftrightarrow> (\<forall>p n y. A p = Some n \<longrightarrow> unat p \<le> y \<longrightarrow> y < unat p + unat n \<longrightarrow> m' y = m y)"

lemma fits_at: "fits m L A \<Longrightarrow> A p = Some n \<Longrightarrow> \<exists>x \<in> L. p = x + HEADER"
  unfolding fits_def by (metis domI imageE)

lemma fits_block:
  assumes "heap_ok m brk b0 fs L" and "fits m L A" and "A p = Some n"
  shows "\<exists>x \<in> L. p = x + HEADER \<and> unat p = unat x + 8 \<and> unat p + unat n \<le> block_end m x"
proof -
  obtain x where x: "x \<in> L" "p = x + HEADER" using fits_at [OF assms(2,3)] by blast
  have "unat n + 8 \<le> 8 * unat (h_size m x)" using assms(2,3) x by (auto simp: fits_def)
  then show ?thesis using x payload_address(1) [OF assms(1) x(1)] by (auto simp: block_end_def)
qed

lemma kept_contents:
  assumes "heap_ok m brk b0 fs L" and "fits m L A" and "keeps_blocks L m m'"
  shows "contents_kept A m m'"
  unfolding contents_kept_def using assms(3) fits_block [OF assms(1,2)] by (fastforce simp: keeps_blocks_def)

lemma malloc_init_ok:
  assumes "user_heap b0 s A"
  shows "\<exists>fs L. heap_ok (umem (malloc_init b0 s)) (unat (ubrk s)) b0 fs L \<and> freep (malloc_init b0 s) \<in> set (b0 # fs)
    \<and> fits (umem (malloc_init b0 s)) L A \<and> ubrk (malloc_init b0 s) = ubrk s \<and> contents_kept A (umem s) (umem (malloc_init b0 s))"
proof (cases "freep s = 0")
  case True
  have "A = Map.empty" "unat (ubrk s) \<le> 2 ^ 31"
  proof -
    have "\<not> (heap_ok (umem s) (unat (ubrk s)) b0 fs L \<and> freep s \<in> set (b0 # fs))" for fs L
    proof
      assume h: "heap_ok (umem s) (unat (ubrk s)) b0 fs L \<and> freep s \<in> set (b0 # fs)"
      then have "\<forall>x \<in> set fs. b0 < x" using heap_okD(2) [of "umem s" "unat (ubrk s)" b0 fs L] by simp
      then have "b0 \<le> freep s" using h by (auto intro: less_imp_le)
      then show False using True assms by (auto simp: user_heap_def)
    qed
    then show "A = Map.empty" "unat (ubrk s) \<le> 2 ^ 31" using assms unfolding user_heap_def by blast+
  qed
  then show ?thesis
    using True by (intro exI [of _ "[]"] exI [of _ "{}"]) (auto simp: malloc_init_def heap_ok_def fits_def contents_kept_def)
next
  case False
  then show ?thesis using assms by (auto simp: malloc_init_def user_heap_def contents_kept_def)
qed

lemma malloc_units_size:
  assumes "n \<le> 0x7FFFFF00"
  shows "0 < malloc_units n" and "unat (malloc_units n) < 2 ^ 28" and "unat n + 8 \<le> 8 * unat (malloc_units n)"
proof -
  have n: "unat n \<le> 0x7FFFFF00" using assms by (simp add: word_le_nat_alt)
  have "unat (n + HEADER - 1) = unat n + 7"
  proof -
    have "n + HEADER - 1 = word_of_nat (unat n + 7)" by (simp add: HEADER_def)
    moreover have "unat (word_of_nat (unat n + 7) :: uint) = unat n + 7" by (rule unat_of_nat32) (use n in simp)
    ultimately show ?thesis by (simp add: HEADER_def add.commute)
  qed
  then have "unat ((n + HEADER - 1) div HEADER) = (unat n + 7) div 8" by (simp add: unat_div HEADER_def)
  moreover have "(unat n + 7) div 8 + 1 < 2 ^ 28" using n by simp
  ultimately have u: "unat (malloc_units n) = (unat n + 7) div 8 + 1"
    unfolding malloc_units_def by (simp add: unat_plus_if')
  then show "unat (malloc_units n) < 2 ^ 28" "unat n + 8 \<le> 8 * unat (malloc_units n)"
    using \<open>(unat n + 7) div 8 + 1 < 2 ^ 28\<close> by simp_all
  show "0 < malloc_units n" using u by (simp add: word_less_nat_alt)
qed

lemma fits_keeps:
  assumes "fits m L A" and "keeps_blocks L m m'" and "\<And>x. x \<in> L \<Longrightarrow> 0 < h_size m x"
  shows "fits m' L A"
  using assms keeps_size(1) [OF assms(2)] unfolding fits_def by auto

lemma fits_insert:
  assumes "heap_ok m brk b0 fs (insert x L)" and "x \<notin> L" and "fits m L A" and "unat n + 8 \<le> 8 * unat (h_size m x)"
  shows "fits m (insert x L) (A(x + HEADER \<mapsto> n))"
  using assms(2-4) unfolding fits_def by auto

lemma umalloc_run:
  assumes h: "user_heap b0 s A" and g: "below_kernel g" and n: "n \<le> 0x7FFFFF00"
  shows "\<exists>r t. umalloc g b0 n s = Some (r, t) \<and> contents_kept A (umem s) (umem t) \<and>
    (r = 0 \<and> (\<exists>k. \<not> g (ubrk s) k) \<and> user_heap b0 t A
     \<or> (\<exists>x fs L. r = x + HEADER \<and> heap_ok (umem t) (unat (ubrk t)) b0 fs (insert x L) \<and> x \<notin> L \<and> fits (umem t) L A
        \<and> h_size (umem t) x = malloc_units n \<and> user_heap b0 t (A(r \<mapsto> n))))"
proof -
  let ?s = "malloc_init b0 s" and ?u = "malloc_units n"
  obtain fs L where i: "heap_ok (umem ?s) (unat (ubrk ?s)) b0 fs L" "freep ?s \<in> set (b0 # fs)" "fits (umem ?s) L A"
    "ubrk ?s = ubrk s" "contents_kept A (umem s) (umem ?s)"
    using malloc_init_ok [OF h] by auto
  have b: "0 < b0" "unat b0 + 8 \<le> unat (ubrk ?s)" using h i(4) by (auto simp: user_heap_def)
  note u = malloc_units_size [OF n]
  have run: "umalloc g b0 n s = malloc_loop g ?u (freep ?s) (h_ptr (umem ?s) (freep ?s)) ?s"
    by (simp add: umalloc_def Let_def)
  from malloc_loop_run [OF i(1,2) g b u(1,2)] show ?thesis
  proof (elim disjE exE conjE)
    fix k assume "malloc_loop g ?u (freep ?s) (h_ptr (umem ?s) (freep ?s)) ?s = Some (0, ?s)" "\<not> g (ubrk ?s) k"
    moreover have "user_heap b0 ?s A" using i b unfolding user_heap_def by blast
    ultimately show ?thesis using run i(4,5) by (intro exI [of _ 0] exI [of _ ?s]) auto
  next
    fix x t fs'
    assume t: "malloc_loop g ?u (freep ?s) (h_ptr (umem ?s) (freep ?s)) ?s = Some (x + HEADER, t)"
      "heap_ok (umem t) (unat (ubrk t)) b0 fs' (insert x L)" "freep t \<in> set (b0 # fs')" "ubrk ?s \<le> ubrk t"
      "x \<notin> L" "h_size (umem t) x = ?u" "keeps_blocks L (umem ?s) (umem t)"
    have kept: "contents_kept A (umem s) (umem t)"
      using i(5) kept_contents [OF i(1,3) t(7)] by (simp add: contents_kept_def)
    have f: "fits (umem t) L A"
      by (rule fits_keeps [OF i(3) t(7)]) (use heap_okD(5) [OF i(1)] in blast)
    have "fits (umem t) (insert x L) (A(x + HEADER \<mapsto> n))"
      by (rule fits_insert [OF t(2,5) f]) (use u(3) t(6) in simp)
    moreover have "unat b0 + 8 \<le> unat (ubrk t)" using t(4) b(2) by (simp add: word_le_nat_alt)
    ultimately have "user_heap b0 t (A(x + HEADER \<mapsto> n))"
      using t(2,3) b(1) unfolding user_heap_def by blast
    with t(2,5,6) f have "\<exists>x' fs L. x + HEADER = x' + HEADER \<and> heap_ok (umem t) (unat (ubrk t)) b0 fs (insert x' L) \<and> x' \<notin> L
      \<and> fits (umem t) L A \<and> h_size (umem t) x' = ?u \<and> user_heap b0 t (A(x + HEADER \<mapsto> n))"
      by blast
    then show ?thesis using run t(1) kept by (intro exI [of _ "x + HEADER"] exI [of _ t]) simp
  qed
qed

lemma ufree_heap:
  assumes h: "user_heap b0 s A" and p: "A p = Some n"
  shows "\<exists>t. ufree p s = Some t \<and> user_heap b0 t (A(p := None)) \<and> contents_kept (A(p := None)) (umem s) (umem t)
    \<and> ubrk t = ubrk s"
proof -
  obtain fs L where i: "heap_ok (umem s) (unat (ubrk s)) b0 fs L" "freep s \<in> set (b0 # fs)" "fits (umem s) L A"
    using h p by (auto simp: user_heap_def)
  obtain x where x: "x \<in> L" "p = x + HEADER" using fits_at [OF i(3) p] by blast
  let ?L = "L - {x}"
  have ins: "insert x ?L = L" using x by blast
  have i': "heap_ok (umem s) (unat (ubrk s)) b0 fs (insert x ?L)" using i(1) ins by simp
  obtain m t fs' where u: "ufree p s = Some (s\<lparr>umem := m, freep := t\<rparr>)" "heap_ok m (unat (ubrk s)) b0 fs' ?L"
    "t \<in> set (b0 # fs')"
    "\<And>y. \<forall>a \<in> insert x (set (b0 # fs)). y < unat a \<or> unat a + 8 \<le> y \<Longrightarrow> m y = umem s y"
    using ufree_run [OF i' _ i(2)] x(2) by blast
  have inj: "inj_on (\<lambda>x. x + HEADER) L" by (simp add: inj_on_def)
  have f: "fits (umem s) ?L (A(p := None))"
    using i(3) x unfolding fits_def by (auto simp: dom_def inj_on_def image_iff)
  have keep: "keeps_blocks ?L (umem s) m"
    unfolding keeps_blocks_def
  proof (intro ballI allI impI)
    fix a y assume a: "a \<in> ?L" and y: "unat a \<le> y \<and> y < block_end (umem s) a"
    have "\<forall>c \<in> insert x (set (b0 # fs)). y < unat c \<or> unat c + 8 \<le> y"
    proof
      fix c assume c: "c \<in> insert x (set (b0 # fs))"
      have aa: "a \<in> set fs \<union> L" using a by blast
      show "y < unat c \<or> unat c + 8 \<le> y"
      proof (cases "c = b0")
        case True
        then show ?thesis using y heap_okD(5) [OF i(1) aa] by auto
      next
        case False
        then have cc: "c \<in> set fs \<union> L" using c x(1) by auto
        have "a \<noteq> c" using a c False heap_okD(6) [OF i(1)] by auto
        then show ?thesis
          using y heap_okD(7) [OF i(1) aa cc] heap_okD(5) [OF i(1) cc] block_end_pos [of "umem s" c]
          by (auto simp: apart_def)
      qed
    qed
    then show "m y = umem s y" by (rule u(4))
  qed
  have pos: "0 < h_size (umem s) z" if "z \<in> ?L" for z using heap_okD(5) [OF i(1)] that by blast
  have "fits m ?L (A(p := None))" using fits_keeps [OF f keep] pos by blast
  then have "user_heap b0 (s\<lparr>umem := m, freep := t\<rparr>) (A(p := None))"
    using h u(2,3) unfolding user_heap_def by auto
  moreover have "contents_kept (A(p := None)) (umem s) m"
    unfolding contents_kept_def
  proof (intro allI impI)
    fix q k y assume q: "(A(p := None)) q = Some k" "unat q \<le> y" "y < unat q + unat k"
    then have "A q = Some k" "q \<noteq> p" by (auto split: if_splits)
    then obtain z where "z \<in> L" "q = z + HEADER" "unat q = unat z + 8" "unat q + unat k \<le> block_end (umem s) z"
      using fits_block [OF i(1,3)] by blast
    then show "m y = umem s y" using keep q \<open>q \<noteq> p\<close> x(2) unfolding keeps_blocks_def by auto
  qed
  ultimately show ?thesis using u(1) by auto
qed

text \<open>The process writes into its own blocks, and grows.\<close>

lemma store_heap:
  assumes h: "heap_ok m brk b0 fs L" and f: "fits m L A"
    and w: "\<And>y. m' y \<noteq> m y \<Longrightarrow> \<exists>p n. A p = Some n \<and> unat p \<le> y \<and> y < unat p + unat n"
  shows "heap_ok m' brk b0 fs L" and "fits m' L A"
proof -
  have same: "m' y = m y" if c: "c \<in> insert b0 (set fs \<union> L)" and y: "unat c \<le> y" "y < unat c + 8" for c y
  proof (rule ccontr)
    assume "m' y \<noteq> m y"
    then obtain p n where "A p = Some n" "unat p \<le> y" "y < unat p + unat n" using w by blast
    then obtain x where x: "x \<in> L" "unat x + 8 \<le> y" "y < block_end m x" using fits_block [OF h f] by fastforce
    have xx: "x \<in> set fs \<union> L" using x(1) by simp
    show False
    proof (cases "c = b0")
      case True
      then show ?thesis using x y heap_okD(5) [OF h xx] by auto
    next
      case False
      then have cc: "c \<in> set fs \<union> L" using c by auto
      have "c \<noteq> x" using x y by auto
      then show ?thesis
        using x y heap_okD(7) [OF h cc xx] heap_okD(5) [OF h cc] block_end_pos [of m c] by (auto simp: apart_def)
    qed
  qed
  have "h_ptr m' c = h_ptr m c \<and> h_size m' c = h_size m c" if "c \<in> insert b0 (set fs \<union> L)" for c
    unfolding h_ptr_def h_size_def using same [OF that] by (intro conjI load32_cong) auto
  then show "heap_ok m' brk b0 fs L" "fits m' L A"
    using f by (auto intro: heap_cong [OF h] simp: fits_def)
qed

lemma heap_grow: "heap_ok m brk b0 fs L \<Longrightarrow> brk \<le> brk' \<Longrightarrow> brk' \<le> 2 ^ 31 \<Longrightarrow> heap_ok m brk' b0 fs L"
  unfolding heap_ok_def by (meson order_trans)

lemma run_heap: "uheap_run b0 s A \<Longrightarrow> user_heap b0 s A"
proof (induction rule: uheap_run.induct)
  case (start s)
  then show ?case by (simp add: user_heap_def)
next
  case (alloc s A g n r t)
  then show ?case using umalloc_run [OF alloc.IH alloc.hyps(2,3)] payload_address(2) by fastforce
next
  case (release s A p n t)
  then show ?case using ufree_heap [OF release.IH release.hyps(2)] by (metis option.inject)
next
  case (store s A m)
  show ?case
  proof (cases "A = Map.empty \<and> freep s = 0")
    case True
    then show ?thesis using store.IH heap_okD(4) by (fastforce simp: user_heap_def)
  next
    case False
    then obtain fs L where "heap_ok (umem s) (unat (ubrk s)) b0 fs L" "freep s \<in> set (b0 # fs)" "fits (umem s) L A"
      using store.IH by (auto simp: user_heap_def)
    with store_heap [OF this(1,3) store.hyps(2)] store.IH show ?thesis by (auto simp: user_heap_def)
  qed
next
  case (grow s A b)
  then have b: "unat (ubrk s) \<le> unat b" by (simp add: word_le_nat_alt)
  show ?case
  proof (cases "A = Map.empty \<and> freep s = 0")
    case True
    then show ?thesis using grow b by (auto simp: user_heap_def)
  next
    case False
    then obtain fs L where f: "heap_ok (umem s) (unat (ubrk s)) b0 fs L" "freep s \<in> set (b0 # fs)" "fits (umem s) L A"
      using grow.IH by (auto simp: user_heap_def)
    have "heap_ok (umem s) (unat b) b0 fs L" by (rule heap_grow [OF f(1) b grow.hyps(3)])
    moreover have "0 < b0" "unat b0 + 8 \<le> unat b" using grow.IH b by (auto simp: user_heap_def)
    ultimately show ?thesis using f(2,3) unfolding user_heap_def by (intro conjI disjI2 exI [of _ fs] exI [of _ L]) simp_all
  qed
qed

subsection \<open>Properties\<close>


text \<open>C28: \<open>free\<close> of a block the process holds comes back, however the free list was left by the calls before,
  and changes the contents of no other block.\<close>

theorem free_returns:
  assumes "uheap_run b0 s A" and "A p = Some n"
  shows "\<exists>t. ufree p s = Some t \<and> contents_kept (A(p := None)) (umem s) (umem t) \<and> ubrk t = ubrk s"
  using ufree_heap [OF run_heap [OF assms(1)] assms(2)] by blast

subsection \<open>A first call\<close>

text \<open>A process of four pages that has not allocated anything yet, whose variable \<open>base\<close> is at 0x1000.\<close>

definition fresh_heap :: uheap where
  "fresh_heap = \<lparr>umem = (\<lambda>_. 0), freep = 0, ubrk = 0x4000\<rparr>"

definition small_machine :: "uint \<Rightarrow> uint \<Rightarrow> bool" where
  "small_machine b n \<longleftrightarrow> unat b + unat n \<le> 0x100000"

lemma small_machine_ok: "below_kernel small_machine"
  by (simp add: below_kernel_def small_machine_def KERNBASE_def)

text \<open>What the first call does, for any size: the kernel is asked for \<open>n\<close> headers (at least 4096).\<close>

lemma first_free:
  assumes "m = set_size 0x4000 n (set_size 0x1000 0 (set_ptr 0x1000 0x1000 (\<lambda>_. 0)))"
    and "0x4000 + HEADER * n \<noteq> 0x1000"
  shows "\<exists>m'. ufree (0x4000 + HEADER) \<lparr>umem = m, freep = 0x1000, ubrk = b\<rparr> = Some \<lparr>umem = m', freep = 0x1000, ubrk = b\<rparr>
    \<and> h_ptr m' 0x1000 = 0x4000 \<and> h_ptr m' 0x4000 = 0x1000 \<and> h_size m' 0x4000 = n \<and> h_size m' 0x1000 = 0"
proof -
  have f: "far 0x4000 0x1000" "far 0x1000 0x4000" by (simp_all add: far_def)
  have h: "h_ptr m 0x1000 = 0x1000" "h_size m 0x1000 = 0" "h_size m 0x4000 = n"
    by (simp_all add: assms(1) header_far f)
  have "stops m 0x4000 0x1000" by (simp add: stops_def h)
  then have s: "free_scan m 0x4000 0x1000 = Some 0x1000" by (subst scan_step) simp
  let ?m1 = "set_ptr 0x4000 0x1000 m"
  have u: "free_upper 0x4000 0x1000 m = ?m1" using assms(2) by (simp add: free_upper_def h)
  have l: "free_lower 0x4000 0x1000 ?m1 = set_ptr 0x1000 0x4000 ?m1"
    by (simp add: free_lower_def header_far f h)
  have "ufree (0x4000 + HEADER) \<lparr>umem = m, freep = 0x1000, ubrk = b\<rparr>
      = Some \<lparr>umem = set_ptr 0x1000 0x4000 ?m1, freep = 0x1000, ubrk = b\<rparr>"
    by (simp add: ufree_def s u l)
  then show ?thesis by (intro exI [of _ "set_ptr 0x1000 0x4000 ?m1"]) (simp add: header_far f h)
qed

lemma first_malloc:
  assumes g: "g 0x4000 ((if malloc_units n < 4096 then 4096 else malloc_units n) * HEADER)" and n: "0 < malloc_units n"
    and z: "0x4000 + HEADER * (if malloc_units n < 4096 then 4096 else malloc_units n) \<noteq> 0x1000"
  shows "\<exists>m. let nu = (if malloc_units n < 4096 then 4096 else malloc_units n) in
    umalloc g 0x1000 n fresh_heap = Some (malloc_take (malloc_units n) 0x1000 0x4000
      \<lparr>umem = m, freep = 0x1000, ubrk = 0x4000 + nu * HEADER\<rparr>) \<and> h_size m 0x4000 = nu \<and> h_ptr m 0x4000 = 0x1000"
proof -
  define nu where "nu = (if malloc_units n < 4096 then 4096 else malloc_units n)"
  define m0 where "m0 = set_size 0x1000 0 (set_ptr 0x1000 0x1000 (\<lambda>_. 0))"
  define s where "s = \<lparr>umem = m0, freep = 0x1000, ubrk = 0x4000\<rparr>"
  have h: "h_ptr m0 0x1000 = 0x1000" "h_size m0 0x1000 = 0" by (simp_all add: m0_def)
  have nu: "malloc_units n \<le> nu" by (simp add: nu_def less_imp_le)
  obtain m where m: "ufree (0x4000 + HEADER) \<lparr>umem = set_size 0x4000 nu m0, freep = 0x1000, ubrk = 0x4000 + nu * HEADER\<rparr>
      = Some \<lparr>umem = m, freep = 0x1000, ubrk = 0x4000 + nu * HEADER\<rparr>"
    "h_ptr m 0x1000 = 0x4000" "h_ptr m 0x4000 = 0x1000" "h_size m 0x4000 = nu"
    using first_free [of "set_size 0x4000 nu m0" nu "0x4000 + nu * HEADER"] z by (auto simp: m0_def nu_def)
  let ?t = "\<lparr>umem = m, freep = 0x1000, ubrk = 0x4000 + nu * HEADER\<rparr>"
  have mc: "morecore g (malloc_units n) s = Some (0x1000, ?t)"
    using g m(1) by (simp add: morecore_def usbrk_def s_def nu_def [symmetric] Let_def)
  have "umalloc g 0x1000 n fresh_heap = malloc_loop g (malloc_units n) 0x1000 0x1000 s"
    by (simp add: umalloc_def malloc_init_def fresh_heap_def s_def m0_def [symmetric] h)
  also have "\<dots> = malloc_loop g (malloc_units n) 0x1000 0x4000 ?t"
    using n mc m(2) by (subst malloc_loop.simps) (auto simp: s_def h not_le)
  also have "\<dots> = Some (malloc_take (malloc_units n) 0x1000 0x4000 ?t)"
    using nu m(4) by (subst malloc_loop.simps) simp
  finally show ?thesis using m(3,4) by (auto simp: nu_def [symmetric] Let_def)
qed


lemma free_returns_witness:
  "\<exists>s t. uheap_run 0x1000 s [0xBF98 \<mapsto> 100] \<and> ufree 0xBF98 s = Some t \<and> ubrk t = ubrk s"
proof -
  have u: "malloc_units 100 = 14" by (simp add: malloc_units_def HEADER_def)
  have run: "uheap_run 0x1000 fresh_heap Map.empty"
    by (rule uheap_run.start) (simp_all add: fresh_heap_def)
  obtain s where "umalloc small_machine 0x1000 100 fresh_heap = Some (0xBF98, s)"
    using first_malloc [of small_machine 100]
    by (auto simp: u small_machine_def HEADER_def malloc_take_def Let_def)
  from uheap_run.alloc [OF run small_machine_ok _ this] have r: "uheap_run 0x1000 s [0xBF98 \<mapsto> 100]" by simp
  with free_returns [OF r, of "0xBF98" 100] show ?thesis by auto
qed

text \<open>Without a bound on the size the arithmetic wraps: \<open>malloc(0xFFFFFFF0)\<close> asks \<open>sbrk\<close> for -8 bytes, which
  shrinks the process, and returns a block that starts beyond its end.\<close>

lemma malloc_huge_shrinks:
  "\<exists>t. umalloc (\<lambda>_ _. True) 0x1000 0xFFFFFFF0 fresh_heap = Some (0x4008, t) \<and> ubrk t = 0x3FF8"
proof -
  have u: "malloc_units 0xFFFFFFF0 = 0x1FFFFFFF" by (simp add: malloc_units_def HEADER_def)
  show ?thesis
    using first_malloc [of "\<lambda>_ _. True" "0xFFFFFFF0"] by (auto simp: u HEADER_def malloc_take_def Let_def)
qed

end
