(* ===== verification/Mkfs.thy ===== *)
theory Mkfs
  imports Fs
begin

text \<open>
  The program that builds the disk image, mkfs.c.  The image file is the list of its blocks; a write
  past the end fills the gap with zeroes, as the host's \<open>lseek\<close> and \<open>write\<close> do, and a read past the
  end is the error the code exits with.  A failed \<open>assert\<close> or an \<open>exit(1)\<close> is a \<open>Panic\<close>.  The helpers
  \<open>xshort\<close> and \<open>xint\<close> make what is stored little-endian on any host: \<open>put16\<close> and \<open>put32\<close> store it so.
\<close>

definition NINODES :: nat where "NINODES = 200"

definition nbitmap :: nat where "nbitmap = FSSIZE div (BSIZE * 8) + 1"
definition ninodeblocks :: nat where "ninodeblocks = NINODES div IPB + 1"
definition mk_nlog :: nat where "mk_nlog = LOGSIZE"
definition nmeta :: nat where "nmeta = 2 + mk_nlog + ninodeblocks + nbitmap"

definition mk_sb :: superblock where
  "mk_sb = \<lparr>sb_size = FSSIZE, sb_nblocks = FSSIZE - nmeta, sb_ninodes = NINODES, sb_nlog = mk_nlog,
     sb_logstart = 2, sb_inodestart = 2 + mk_nlog, sb_bmapstart = 2 + mk_nlog + ninodeblocks\<rparr>"

record image =
  img :: "bytes list"
  freeinode :: nat
  freeblock :: nat

type_synonym 'a mkop = "image \<Rightarrow> (image, 'a) outcome"

definition zeroes :: bytes where "zeroes = replicate BSIZE 0"

definition assert :: "bool \<Rightarrow> unit mkop" where
  "assert b = (if b then ret () else panic ''assert'')"

definition wsect :: "nat \<Rightarrow> bytes \<Rightarrow> unit mkop" where
  "wsect sec buf = modify (\<lambda>s. s\<lparr>img :=
     (if sec < length (img s) then (img s)[sec := buf]
      else img s @ replicate (sec - length (img s)) zeroes @ [buf])\<rparr>)"

definition rsect :: "nat \<Rightarrow> bytes mkop" where
  "rsect sec s = (if sec < length (img s) then Ok (img s ! sec) s else Panic ''read'')"

definition winode :: "nat \<Rightarrow> dinode \<Rightarrow> unit mkop" where
  "winode inum ip =
     (let bn = IBLOCK inum mk_sb in
      bind (rsect bn) (\<lambda>buf. wsect bn (put_dinode (inum mod IPB * DINODE_SIZE) ip buf)))"

definition rinode :: "nat \<Rightarrow> dinode mkop" where
  "rinode inum =
     (let bn = IBLOCK inum mk_sb in
      bind (rsect bn) (\<lambda>buf. ret (get_dinode buf (inum mod IPB * DINODE_SIZE))))"

definition mk_ialloc :: "int \<Rightarrow> nat mkop" where
  "mk_ialloc type =
     bind (reads freeinode) (\<lambda>inum.
     bind (modify (\<lambda>s. s\<lparr>freeinode := inum + 1\<rparr>)) (\<lambda>_.
     bind (winode inum \<lparr>d_type = type, d_major = 0, d_minor = 0, d_nlink = 1, d_size = 0,
         d_addrs = replicate (NDIRECT + 1) 0\<rparr>) (\<lambda>_.
     ret inum)))"

text \<open>\<open>freeblock++\<close>\<close>

definition next_block :: "nat mkop" where
  "next_block = bind (reads freeblock) (\<lambda>b. bind (modify (\<lambda>s. s\<lparr>freeblock := b + 1\<rparr>)) (\<lambda>_. ret b))"

definition mk_balloc :: "nat \<Rightarrow> unit mkop" where
  "mk_balloc used =
     bind (assert (used < BSIZE * 8)) (\<lambda>_.
     wsect (sb_bmapstart mk_sb)
       (fold (\<lambda>i buf. buf[i div 8 := buf ! (i div 8) OR push_bit (i mod 8) 1]) [0..<used] zeroes))"

text \<open>The block of an inode for an append at block \<open>fbn\<close> of the file, allocated if there is none.\<close>

definition append_block :: "dinode \<Rightarrow> nat \<Rightarrow> (dinode \<times> nat) mkop" where
  "append_block din fbn =
     (if fbn < NDIRECT then
        bind (if d_addrs din ! fbn = 0
              then bind next_block (\<lambda>b. ret (din\<lparr>d_addrs := (d_addrs din)[fbn := b]\<rparr>))
              else ret din) (\<lambda>din.
        ret (din, d_addrs din ! fbn))
      else
        bind (if d_addrs din ! NDIRECT = 0
              then bind next_block (\<lambda>b. ret (din\<lparr>d_addrs := (d_addrs din)[NDIRECT := b]\<rparr>))
              else ret din) (\<lambda>din.
        bind (rsect (d_addrs din ! NDIRECT)) (\<lambda>indirect.
        bind (if get32 indirect (4 * (fbn - NDIRECT)) = 0
              then bind next_block (\<lambda>b.
                let indirect = put32 indirect (4 * (fbn - NDIRECT)) b in
                bind (wsect (d_addrs din ! NDIRECT) indirect) (\<lambda>_. ret indirect))
              else ret indirect) (\<lambda>indirect.
        ret (din, get32 indirect (4 * (fbn - NDIRECT)))))))"

function iappend_loop :: "dinode \<Rightarrow> nat \<Rightarrow> bytes \<Rightarrow> (dinode \<times> nat) mkop" where
  "iappend_loop din off p =
     (if p = [] then ret (din, off)
      else
        (let fbn = off div BSIZE in
         bind (assert (fbn < MAXFILE)) (\<lambda>_.
         bind (append_block din fbn) (\<lambda>(din, x).
         let n1 = min (length p) ((fbn + 1) * BSIZE - off) in
         bind (rsect x) (\<lambda>buf.
         bind (wsect x (blit (off - fbn * BSIZE) (take n1 p) buf)) (\<lambda>_.
         iappend_loop din (off + n1) (drop n1 p)))))))"
  by pat_completeness auto
termination iappend_loop
proof (relation "measure (\<lambda>(din, off, p). length p)")
  fix din :: dinode and off :: nat and p :: bytes and fbn a x n1
  assume "p \<noteq> []" "fbn = off div BSIZE" "n1 = min (length p) ((fbn + 1) * BSIZE - off)"
  moreover have "off < (off div BSIZE + 1) * BSIZE" by (simp add: BSIZE_def)
  ultimately show "((a, off + n1, drop n1 p), din, off, p) \<in> measure (\<lambda>(din, off, p). length p)" by auto
qed simp

declare iappend_loop.simps [simp del]

definition iappend :: "nat \<Rightarrow> bytes \<Rightarrow> unit mkop" where
  "iappend inum p =
     bind (rinode inum) (\<lambda>din.
     bind (iappend_loop din (d_size din) p) (\<lambda>(din, off).
     winode inum (din\<lparr>d_size := off\<rparr>)))"

definition dirent_bytes :: "nat \<Rightarrow> string \<Rightarrow> bytes" where
  "dirent_bytes inum name =
     put16 [0, 0] 0 inum @ take DIRSIZ (map of_char name @ replicate DIRSIZ 0)"

text \<open>A file of the command line: its name and what the reads of it return, \<open>None\<close> if it does not open.\<close>

definition mk_file :: "nat \<Rightarrow> string \<times> bytes list option \<Rightarrow> (unit option) mkop" where
  "mk_file rootino f =
     bind (assert (CHR ''/'' \<notin> set (fst f))) (\<lambda>_.
     case snd f of
       None \<Rightarrow> panic ''open''
     | Some chunks \<Rightarrow>
         (let name = (if take 1 (fst f) = ''_'' then drop 1 (fst f) else fst f) in
          bind (mk_ialloc T_FILE) (\<lambda>inum.
          bind (iappend rootino (dirent_bytes inum name)) (\<lambda>_.
          for_each chunks (\<lambda>c. bind (iappend inum c) (\<lambda>_. ret None))))))"

definition sb_bytes :: "superblock \<Rightarrow> bytes" where
  "sb_bytes sb = fold (\<lambda>(i, v) d. put32 d i v)
     [(0, sb_size sb), (4, sb_nblocks sb), (8, sb_ninodes sb), (12, sb_nlog sb), (16, sb_logstart sb),
      (20, sb_inodestart sb), (24, sb_bmapstart sb)] zeroes"

text \<open>What \<open>main\<close> writes first: an empty image with its super block.\<close>

definition mk_format :: "unit mkop" where
  "mk_format =
     bind (modify (\<lambda>s. s\<lparr>freeblock := nmeta\<rparr>)) (\<lambda>_.
     bind (for_each [0..<FSSIZE] (\<lambda>i. bind (wsect i zeroes) (\<lambda>_. ret (None :: unit option)))) (\<lambda>_.
     wsect 1 (sb_bytes mk_sb)))"

definition mk_main :: "(string \<times> bytes list option) list \<Rightarrow> unit mkop" where
  "mk_main files =
     bind mk_format (\<lambda>_.
     bind (mk_ialloc T_DIR) (\<lambda>rootino.
     bind (assert (rootino = ROOTINO)) (\<lambda>_.
     bind (iappend rootino (dirent_bytes rootino ''.'')) (\<lambda>_.
     bind (iappend rootino (dirent_bytes rootino ''..'')) (\<lambda>_.
     bind (for_each files (mk_file rootino)) (\<lambda>_.
     bind (rinode rootino) (\<lambda>din.
     bind (winode rootino (din\<lparr>d_size := (d_size din div BSIZE + 1) * BSIZE\<rparr>)) (\<lambda>_.
     bind (reads freeblock) mk_balloc))))))))"

definition mkfs :: "(string \<times> bytes list option) list \<Rightarrow> (image, unit) outcome" where
  "mkfs files = mk_main files \<lparr>img = [], freeinode = 1, freeblock = 0\<rparr>"

end
