(* ===== verification/Mkfs_Props.thy ===== *)
theory Mkfs_Props
  imports Mkfs Dinode
begin

text \<open>
  The image as a set of files: which block each part of a file is in, that no two parts share a
  block, and what the steps of \<open>iappend\<close> do to it.  The inode that \<open>iappend\<close> works on is in memory, so
  the inodes are an argument \<open>D\<close> of the notions here.
\<close>

subsection \<open>Files of an image\<close>

type_synonym inodes = "nat \<Rightarrow> dinode"

text \<open>The inodes on the image.\<close>

definition inode_at :: "image \<Rightarrow> inodes" where
  "inode_at s i = get_dinode (img s ! IBLOCK i mk_sb) (i mod IPB * DINODE_SIZE)"

text \<open>The block of part \<open>k\<close> of a file, 0 if there is none; part \<open>MAXFILE\<close> is the indirect block.\<close>

definition addr :: "bytes list \<Rightarrow> inodes \<Rightarrow> nat \<Rightarrow> nat \<Rightarrow> nat" where
  "addr im D i k =
     (if k < NDIRECT then d_addrs (D i) ! k
      else if k = MAXFILE then d_addrs (D i) ! NDIRECT
      else if d_addrs (D i) ! NDIRECT = 0 then 0
      else get32 (im ! (d_addrs (D i) ! NDIRECT)) (4 * (k - NDIRECT)))"

definition contents :: "bytes list \<Rightarrow> inodes \<Rightarrow> nat \<Rightarrow> bytes" where
  "contents im D i = map (\<lambda>j. im ! addr im D i (j div BSIZE) ! (j mod BSIZE)) [0..<d_size (D i)]"

definition image_ok :: "image \<Rightarrow> inodes \<Rightarrow> bool" where
  "image_ok s D \<longleftrightarrow>
     (\<forall>b < length (img s). length (img s ! b) = BSIZE)
     \<and> (\<forall>b < length (img s). freeblock s \<le> b \<longrightarrow> img s ! b = zeroes) \<and> nmeta \<le> freeblock s \<and> length (img s) \<le> 4294967296
     \<and> (\<forall>i < freeinode s. dinode_ok (D i) \<and> d_size (D i) \<le> MAXFILE * BSIZE
          \<and> (\<forall>k. k * BSIZE < d_size (D i) \<longrightarrow> addr (img s) D i k \<noteq> 0))
     \<and> (\<forall>i < freeinode s. \<forall>k \<le> MAXFILE. addr (img s) D i k \<noteq> 0 \<longrightarrow>
          nmeta \<le> addr (img s) D i k \<and> addr (img s) D i k < freeblock s \<and> addr (img s) D i k < length (img s)
          \<and> (\<forall>j < freeinode s. \<forall>l \<le> MAXFILE. addr (img s) D j l = addr (img s) D i k \<longrightarrow> j = i \<and> l = k))"

lemma image_okD:
  assumes "image_ok s D"
  shows "\<And>b. b < length (img s) \<Longrightarrow> length (img s ! b) = BSIZE"
    and "\<And>b. b < length (img s) \<Longrightarrow> freeblock s \<le> b \<Longrightarrow> img s ! b = zeroes"
    and "nmeta \<le> freeblock s" and "length (img s) \<le> 4294967296"
    and "\<And>i. i < freeinode s \<Longrightarrow> dinode_ok (D i)" and "\<And>i. i < freeinode s \<Longrightarrow> d_size (D i) \<le> MAXFILE * BSIZE"
    and "\<And>i k. i < freeinode s \<Longrightarrow> k * BSIZE < d_size (D i) \<Longrightarrow> addr (img s) D i k \<noteq> 0"
    and "\<And>i k. i < freeinode s \<Longrightarrow> k \<le> MAXFILE \<Longrightarrow> addr (img s) D i k \<noteq> 0 \<Longrightarrow>
      nmeta \<le> addr (img s) D i k \<and> addr (img s) D i k < freeblock s \<and> addr (img s) D i k < length (img s)"
    and "\<And>i j k l. i < freeinode s \<Longrightarrow> j < freeinode s \<Longrightarrow> k \<le> MAXFILE \<Longrightarrow> l \<le> MAXFILE \<Longrightarrow> addr (img s) D i k \<noteq> 0 \<Longrightarrow>
      addr (img s) D j l = addr (img s) D i k \<Longrightarrow> j = i \<and> l = k"
  using assms unfolding image_ok_def by blast+

lemma part_small: "j < n \<Longrightarrow> n \<le> MAXFILE * BSIZE \<Longrightarrow> j div BSIZE < MAXFILE"
  by (simp add: less_mult_imp_div_less)

lemma part_used: "j < n \<Longrightarrow> j div BSIZE * BSIZE < n"
  by (rule le_less_trans [OF div_times_less_eq_dividend])

lemma contents_nth [simp]: "j < d_size (D i) \<Longrightarrow> contents im D i ! j = im ! addr im D i (j div BSIZE) ! (j mod BSIZE)"
  and length_contents [simp]: "length (contents im D i) = d_size (D i)"
  by (simp_all add: contents_def)

lemma zero_block: "get32 zeroes (4 * k) = 0" if "k < NINDIRECT"
proof -
  have "zeroes ! j = 0" if "j < BSIZE" for j using that by (simp add: zeroes_def)
  then show ?thesis using that by (simp add: get32_def get16_def NINDIRECT_def BSIZE_def)
qed

subsection \<open>A new block\<close>

text \<open>A part that had no block gets the next free one; nothing else moves.\<close>

lemma image_ok_alloc:
  assumes ok: "image_ok s D" and i: "i < freeinode s" and k: "k \<le> MAXFILE" and z: "addr (img s) D i k = 0"
    and room: "freeblock s < length (img s)"
    and a: "\<And>j l. j < freeinode s \<Longrightarrow> l \<le> MAXFILE \<Longrightarrow> addr (img t) E j l = (if j = i \<and> l = k then freeblock s else addr (img s) D j l)"
    and t: "freeblock t = freeblock s + 1" "freeinode t = freeinode s" "length (img t) = length (img s)"
    and im: "\<And>b. b < length (img s) \<Longrightarrow> b \<noteq> addr (img s) D i MAXFILE \<or> k = MAXFILE \<Longrightarrow> img t ! b = img s ! b"
      "\<And>b. b < length (img s) \<Longrightarrow> length (img t ! b) = BSIZE"
    and E: "\<And>j. j < freeinode s \<Longrightarrow> dinode_ok (E j) \<and> d_size (E j) = d_size (D j)"
  shows "image_ok t E" and "\<And>j. j < freeinode s \<Longrightarrow> contents (img t) E j = contents (img s) D j"
proof -
  note d = image_okD [OF ok]
  have nz: "freeblock s \<noteq> 0" using d(3) by (simp add: nmeta_def)
  have old: "addr (img s) D j l \<noteq> freeblock s" if "j < freeinode s" "l \<le> MAXFILE" for j l
    using d(8) [OF that] nz by (cases "addr (img s) D j l = 0") auto
  have fresh: "img t ! b = zeroes" if "b < length (img t)" "freeblock t \<le> b" for b
  proof -
    have "b \<noteq> addr (img s) D i MAXFILE \<or> k = MAXFILE"
      using d(8) [OF i order_refl] that t by (cases "addr (img s) D i MAXFILE = 0") auto
    then show ?thesis using d(2) im(1) that t by auto
  qed
  show ok': "image_ok t E"
    unfolding image_ok_def
  proof (intro conjI allI impI)
    show "length (img t ! b) = BSIZE" if "b < length (img t)" for b using im(2) that t by simp
    show "img t ! b = zeroes" if "b < length (img t)" "freeblock t \<le> b" for b by (rule fresh [OF that])
    show "nmeta \<le> freeblock t" "length (img t) \<le> 4294967296" using d(3,4) t by simp_all
    fix j assume j: "j < freeinode t"
    then have j': "j < freeinode s" by (simp add: t)
    show "dinode_ok (E j)" "d_size (E j) \<le> MAXFILE * BSIZE" using E [OF j'] d(6) [OF j'] by simp_all
    show "addr (img t) E j l \<noteq> 0" if "l * BSIZE < d_size (E j)" for l
    proof -
      have l: "l * BSIZE < d_size (D j)" using that E [OF j'] by simp
      then have "l * BSIZE < MAXFILE * BSIZE" using d(6) [OF j'] by linarith
      then have "l \<le> MAXFILE" by simp
      then show ?thesis using d(7) [OF j' l] a [OF j'] nz by simp
    qed
    fix l assume l: "l \<le> MAXFILE" and n: "addr (img t) E j l \<noteq> 0"
    show "nmeta \<le> addr (img t) E j l" "addr (img t) E j l < freeblock t" "addr (img t) E j l < length (img t)"
      using n d(3) d(8) [OF j' l] room t by (auto simp: a [OF j' l] split: if_splits)
    fix j2 l2 assume "j2 < freeinode t" and l2: "l2 \<le> MAXFILE" and e: "addr (img t) E j2 l2 = addr (img t) E j l"
    then have j2: "j2 < freeinode s" by (simp add: t)
    show "j2 = j" "l2 = l"
      using e n old [OF j' l] old [OF j2 l2] d(9) [OF j' j2 l l2] by (auto simp: a [OF j' l] a [OF j2 l2] split: if_splits)
  qed
  show "contents (img t) E j = contents (img s) D j" if j: "j < freeinode s" for j
  proof (rule nth_equalityI)
    show "length (contents (img t) E j) = length (contents (img s) D j)" using E [OF j] by simp
    fix y assume "y < length (contents (img t) E j)"
    then have y: "y < d_size (D j)" "y < d_size (E j)" using E [OF j] by simp_all
    let ?p = "y div BSIZE"
    have p: "?p < MAXFILE" by (rule part_small [OF y(1) d(6) [OF j]])
    have nzp: "addr (img s) D j ?p \<noteq> 0" by (rule d(7) [OF j part_used [OF y(1)]])
    then have "\<not> (j = i \<and> ?p = k)" using z by auto
    then have same: "addr (img t) E j ?p = addr (img s) D j ?p" using a [OF j] p by auto
    have "addr (img s) D j ?p \<noteq> addr (img s) D i MAXFILE"
      using d(9) [OF j i _ order_refl nzp] p by auto
    then have "img t ! addr (img s) D j ?p = img s ! addr (img s) D j ?p"
      using im(1) d(8) [OF j _ nzp] p by simp
    then show "contents (img t) E j ! y = contents (img s) D j ! y" using y same by simp
  qed
qed

subsection \<open>Writing a block\<close>

lemma image_ok_write:
  assumes ok: "image_ok s D" and i: "i < freeinode s" and k: "k < MAXFILE" and x: "addr (img s) D i k = x" "x \<noteq> 0"
    and buf: "length buf = BSIZE" and sz: "sz \<le> MAXFILE * BSIZE" "\<forall>l. l * BSIZE < sz \<longrightarrow> addr (img s) D i l \<noteq> 0"
  defines "E \<equiv> D(i := (D i)\<lparr>d_size := sz\<rparr>)" and "t \<equiv> s\<lparr>img := (img s)[x := buf]\<rparr>"
  shows "image_ok t E" and "\<And>j. j < freeinode s \<Longrightarrow> j \<noteq> i \<Longrightarrow> contents (img t) E j = contents (img s) D j"
    and "\<And>y. y < sz \<Longrightarrow> contents (img t) E i ! y =
      (if y div BSIZE = k then buf ! (y mod BSIZE) else img s ! addr (img s) D i (y div BSIZE) ! (y mod BSIZE))"
proof -
  note d = image_okD [OF ok]
  have kl: "k \<le> MAXFILE" "k \<noteq> MAXFILE" using k by simp_all
  have xb: "nmeta \<le> x" "x < freeblock s" "x < length (img s)"
    using d(8) [OF i kl(1)] x by auto
  have addrs: "d_addrs (E j) = d_addrs (D j)" for j by (simp add: E_def)
  have same: "addr (img t) E j l = addr (img s) D j l" if j: "j < freeinode s" and l: "l \<le> MAXFILE" for j l
  proof (cases "d_addrs (D j) ! NDIRECT = 0")
    case True
    then show ?thesis by (simp add: addr_def addrs)
  next
    case False
    have ind: "addr (img s) D j MAXFILE = d_addrs (D j) ! NDIRECT" by (simp add: addr_def MAXFILE_def NDIRECT_def)
    then have "d_addrs (D j) ! NDIRECT \<noteq> x" using d(9) [OF j i order_refl kl(1)] x kl(2) False by metis
    then show ?thesis by (simp add: addr_def addrs t_def)
  qed
  have E: "dinode_ok (E j) \<and> d_size (E j) \<le> MAXFILE * BSIZE" if "j < freeinode s" for j
    using d(5,6) [OF that] sz(1) by (auto simp: E_def dinode_ok_def MAXFILE_def NDIRECT_def NINDIRECT_def BSIZE_def)
  show "image_ok t E"
    unfolding image_ok_def
  proof (intro conjI allI impI)
    show "length (img t ! b) = BSIZE" if "b < length (img t)" for b
      using d(1) [of b] that buf xb by (simp add: t_def nth_list_update)
    show "img t ! b = zeroes" if "b < length (img t)" "freeblock t \<le> b" for b
      using d(2) [of b] that xb by (auto simp: t_def nth_list_update)
    show "nmeta \<le> freeblock t" "length (img t) \<le> 4294967296" using d(3,4) by (simp_all add: t_def)
    fix j assume "j < freeinode t"
    then have j: "j < freeinode s" by (simp add: t_def)
    show "dinode_ok (E j)" "d_size (E j) \<le> MAXFILE * BSIZE" using E [OF j] by simp_all
    show "addr (img t) E j l \<noteq> 0" if l: "l * BSIZE < d_size (E j)" for l
    proof -
      have "l * BSIZE < MAXFILE * BSIZE" using l E [OF j] by linarith
      then have lm: "l \<le> MAXFILE" by simp
      show ?thesis
        unfolding same [OF j lm] using l sz(2) d(7) [OF j, of l] by (cases "j = i") (auto simp: E_def)
    qed
    fix l assume l: "l \<le> MAXFILE" and n: "addr (img t) E j l \<noteq> 0"
    show "nmeta \<le> addr (img t) E j l" "addr (img t) E j l < freeblock t" "addr (img t) E j l < length (img t)"
      using n d(8) [OF j l] unfolding same [OF j l] by (auto simp: t_def)
    fix j2 l2 assume "j2 < freeinode t" and l2: "l2 \<le> MAXFILE" and e: "addr (img t) E j2 l2 = addr (img t) E j l"
    then have j2: "j2 < freeinode s" by (simp add: t_def)
    show "j2 = j" "l2 = l"
      using e n d(9) [OF j j2 l l2] unfolding same [OF j l] same [OF j2 l2] by auto
  qed
  show "contents (img t) E j = contents (img s) D j" if j: "j < freeinode s" "j \<noteq> i" for j
  proof (rule nth_equalityI)
    fix y assume "y < length (contents (img t) E j)"
    then have y: "y < d_size (D j)" "y < d_size (E j)" using j(2) by (simp_all add: E_def)
    let ?p = "y div BSIZE"
    have p: "?p \<le> MAXFILE" using part_small [OF y(1) d(6) [OF j(1)]] by simp
    have nz: "addr (img s) D j ?p \<noteq> 0" by (rule d(7) [OF j(1) part_used [OF y(1)]])
    have "addr (img s) D j ?p \<noteq> x" using d(9) [OF i j(1) kl(1) p] x j(2) by metis
    then show "contents (img t) E j ! y = contents (img s) D j ! y"
      using y same [OF j(1) p] by (simp add: t_def)
  qed (use j(2) in \<open>simp add: E_def\<close>)
  fix y assume y: "y < sz"
  let ?p = "y div BSIZE"
  have p: "?p \<le> MAXFILE" using part_small [OF y sz(1)] by simp
  have "addr (img s) D i ?p = x \<longleftrightarrow> ?p = k" using d(9) [OF i i kl(1) p] x by auto
  then show "contents (img t) E i ! y =
      (if ?p = k then buf ! (y mod BSIZE) else img s ! addr (img s) D i ?p ! (y mod BSIZE))"
    using y same [OF i p] xb x(1) by (auto simp: E_def t_def)
qed

subsection \<open>append_block\<close>

lemma addr_cases:
  "k < NDIRECT \<Longrightarrow> addr im D i k = d_addrs (D i) ! k"
  "addr im D i MAXFILE = d_addrs (D i) ! NDIRECT"
  "NDIRECT \<le> k \<Longrightarrow> k < MAXFILE \<Longrightarrow> addr im D i k =
    (if d_addrs (D i) ! NDIRECT = 0 then 0 else get32 (im ! (d_addrs (D i) ! NDIRECT)) (4 * (k - NDIRECT)))"
  by (simp_all add: addr_def MAXFILE_def)

definition image_frame :: "image \<Rightarrow> image \<Rightarrow> bool" where
  "image_frame s t \<longleftrightarrow> freeinode t = freeinode s \<and> length (img t) = length (img s)
     \<and> (\<forall>b < nmeta. b < length (img s) \<longrightarrow> img t ! b = img s ! b)"

lemma image_frame_trans: "image_frame s t \<Longrightarrow> image_frame t u \<Longrightarrow> image_frame s u"
  by (simp add: image_frame_def)

text \<open>A new block for a slot of the inode itself.\<close>

lemma alloc_slot:
  assumes ok: "image_ok s D" and i: "i < freeinode s" and n: "n \<le> NDIRECT" and z: "d_addrs (D i) ! n = 0"
    and room: "freeblock s < length (img s)"
  defines "E \<equiv> D(i := (D i)\<lparr>d_addrs := (d_addrs (D i))[n := freeblock s]\<rparr>)" and "t \<equiv> s\<lparr>freeblock := freeblock s + 1\<rparr>"
  shows "image_ok t E" and "\<And>j. j < freeinode s \<Longrightarrow> contents (img t) E j = contents (img s) D j"
    and "d_addrs (E i) ! n = freeblock s"
proof -
  note d = image_okD [OF ok]
  have len: "length (d_addrs (D i)) = NDIRECT + 1" using d(5) [OF i] by (simp add: dinode_ok_def)
  let ?k = "if n < NDIRECT then n else MAXFILE"
  have k: "?k \<le> MAXFILE" by (simp add: MAXFILE_def)
  have kz: "addr (img s) D i ?k = 0" using n z by (auto simp: addr_cases le_eq_less_or_eq)
  have md: "NDIRECT < MAXFILE" by (simp add: MAXFILE_def NINDIRECT_def BSIZE_def)
  have fb: "freeblock s < 4294967296" using d(4) room by linarith
  have zero: "get32 (img s ! freeblock s) (4 * (l - NDIRECT)) = 0" if "NDIRECT \<le> l" "l < MAXFILE" for l
    using d(2) [OF room order_refl] that zero_block [of "l - NDIRECT"] by (simp add: MAXFILE_def)
  have a: "addr (img t) E j l = (if j = i \<and> l = ?k then freeblock s else addr (img s) D j l)" if l: "l \<le> MAXFILE" for j l
  proof (cases "j = i")
    case True
    consider "l < NDIRECT" | "l = MAXFILE" | "NDIRECT \<le> l" "l < MAXFILE" using l by linarith
    then show ?thesis
    proof cases
      case 1
      then show ?thesis using True n len md by (auto simp: addr_cases E_def nth_list_update)
    next
      case 2
      then show ?thesis using True n len md by (auto simp: addr_cases E_def nth_list_update)
    next
      case 3
      then have "l \<noteq> ?k" by auto
      then show ?thesis
        using True n len z 3 zero [OF 3] by (cases "n < NDIRECT") (auto simp: addr_cases(3) E_def t_def)
    qed
  qed (simp add: addr_def E_def t_def)
  have E: "dinode_ok (E j) \<and> d_size (E j) = d_size (D j)" if "j < freeinode s" for j
  proof -
    have "set ((d_addrs (D i))[n := freeblock s]) \<subseteq> insert (freeblock s) (set (d_addrs (D i)))" by (rule set_update_subset_insert)
    then show ?thesis using d(5) [OF that] d(5) [OF i] fb by (auto simp: E_def dinode_ok_def)
  qed
  show "image_ok t E" "\<And>j. j < freeinode s \<Longrightarrow> contents (img t) E j = contents (img s) D j"
    using image_ok_alloc [OF ok i k kz room, of t E] a E d(1) by (simp_all add: t_def)
  show "d_addrs (E i) ! n = freeblock s" using n len by (simp add: E_def)
qed

text \<open>A new block for an entry of the indirect block.\<close>

lemma alloc_indirect:
  assumes ok: "image_ok s D" and i: "i < freeinode s" and k: "NDIRECT \<le> k" "k < MAXFILE"
    and x: "d_addrs (D i) ! NDIRECT = x" "x \<noteq> 0" and z: "get32 (img s ! x) (4 * (k - NDIRECT)) = 0"
    and room: "freeblock s < length (img s)"
  defines "t \<equiv> s\<lparr>freeblock := freeblock s + 1, img := (img s)[x := put32 (img s ! x) (4 * (k - NDIRECT)) (freeblock s)]\<rparr>"
  shows "image_ok t D" and "\<And>j. j < freeinode s \<Longrightarrow> contents (img t) D j = contents (img s) D j"
    and "image_frame s t" and "get32 (img t ! x) (4 * (k - NDIRECT)) = freeblock s"
proof -
  note d = image_okD [OF ok]
  have fb: "freeblock s < 4294967296" using d(4) room by linarith
  have ind: "addr (img s) D i MAXFILE = x" by (simp add: addr_cases x)
  have xb: "nmeta \<le> x" "x < freeblock s" "x < length (img s)" using d(8) [OF i order_refl] ind x(2) by auto
  have off: "4 * (k - NDIRECT) + 4 \<le> length (img s ! x)"
    using d(1) [OF xb(3)] k by (simp add: MAXFILE_def NINDIRECT_def NDIRECT_def BSIZE_def)
  show g: "get32 (img t ! x) (4 * (k - NDIRECT)) = freeblock s"
    using xb(3) fb by (simp add: t_def get32_put32_same [OF off])
  have other: "get32 (img t ! x) (4 * (l - NDIRECT)) = get32 (img s ! x) (4 * (l - NDIRECT))"
    if "NDIRECT \<le> l" "l \<noteq> k" for l
  proof -
    have "4 * (l - NDIRECT) + 4 \<le> 4 * (k - NDIRECT) \<or> 4 * (k - NDIRECT) + 4 \<le> 4 * (l - NDIRECT)"
      using that k(1) by linarith
    then show ?thesis using xb(3) by (simp add: t_def get32_put32_other)
  qed
  have kz: "addr (img s) D i k = 0" using x z by (simp add: addr_cases k)
  have kl: "k \<le> MAXFILE" "k \<noteq> MAXFILE" using k by simp_all
  have a: "addr (img t) D j l = (if j = i \<and> l = k then freeblock s else addr (img s) D j l)"
    if j: "j < freeinode s" and l: "l \<le> MAXFILE" for j l
  proof -
    consider "l < NDIRECT" | "l = MAXFILE" | "NDIRECT \<le> l" "l < MAXFILE" using l by linarith
    then show ?thesis
    proof cases
      case 3
      show ?thesis
      proof (cases "j = i")
        case True
        then show ?thesis using 3 x g other [OF 3(1)] by (auto simp: addr_cases)
      next
        case False
        have "d_addrs (D j) ! NDIRECT \<noteq> x"
          using d(9) [OF i j order_refl order_refl] ind x(2) False by (auto simp: addr_cases)
        then show ?thesis using 3 False by (simp add: addr_cases t_def)
      qed
    qed (use k in \<open>auto simp: addr_cases\<close>)
  qed
  have len: "length (img t ! b) = BSIZE" if "b < length (img s)" for b
    using d(1) [OF that] d(1) [OF xb(3)] xb(3) that by (cases "b = x") (simp_all add: t_def)
  show "image_ok t D" "\<And>j. j < freeinode s \<Longrightarrow> contents (img t) D j = contents (img s) D j"
    using image_ok_alloc [OF ok i kl(1) kz room, of t D] a len d(5) ind kl(2) by (simp_all add: t_def)
  show "image_frame s t" using xb by (auto simp: image_frame_def t_def)
qed

text \<open>The block of an append, allocated if need be: at most two blocks, and no file changes.\<close>

lemma append_block_run:
  assumes ok: "image_ok s D" and i: "i < freeinode s" and D: "D i = din\<lparr>d_size := sz\<rparr>" and k: "k < MAXFILE"
    and room: "freeblock s + 2 \<le> length (img s)"
  shows "\<exists>din' x t. append_block din k s = Ok (din', x) t \<and> image_ok t (D(i := din'\<lparr>d_size := sz\<rparr>))
    \<and> addr (img t) (D(i := din'\<lparr>d_size := sz\<rparr>)) i k = x \<and> x \<noteq> 0 \<and> image_frame s t \<and> freeblock t \<le> freeblock s + 2
    \<and> (\<forall>j < freeinode s. contents (img t) (D(i := din'\<lparr>d_size := sz\<rparr>)) j = contents (img s) D j)
    \<and> d_type din' = d_type din"
proof -
  note d = image_okD [OF ok]
  have nz: "freeblock s \<noteq> 0" using d(3) by (simp add: nmeta_def)
  have da: "d_addrs (D i) = d_addrs din" by (simp add: D)
  define slot where "slot n = (if d_addrs din ! n = 0
      then bind next_block (\<lambda>b. ret (din\<lparr>d_addrs := (d_addrs din)[n := b]\<rparr>)) else ret din)" for n
  have slots: "\<exists>din' t. slot n s = Ok din' t \<and> image_ok t (D(i := din'\<lparr>d_size := sz\<rparr>)) \<and> d_addrs din' ! n \<noteq> 0
      \<and> image_frame s t \<and> freeblock t \<le> freeblock s + 1 \<and> d_type din' = d_type din
      \<and> (\<forall>j < freeinode s. contents (img t) (D(i := din'\<lparr>d_size := sz\<rparr>)) j = contents (img s) D j)"
    if n: "n \<le> NDIRECT" for n
  proof (cases "d_addrs din ! n = 0")
    case True
    let ?din = "din\<lparr>d_addrs := (d_addrs din)[n := freeblock s]\<rparr>" and ?t = "s\<lparr>freeblock := freeblock s + 1\<rparr>"
    have z: "d_addrs (D i) ! n = 0" using True da by simp
    have r: "freeblock s < length (img s)" using room by simp
    have E: "D(i := (D i)\<lparr>d_addrs := (d_addrs (D i))[n := freeblock s]\<rparr>) = D(i := ?din\<lparr>d_size := sz\<rparr>)"
      by (cases din) (simp add: D)
    have "slot n s = Ok ?din ?t" using True by (simp add: slot_def next_block_def)
    moreover note alloc_slot [OF ok i n z r, unfolded E]
    moreover have "d_addrs ?din ! n \<noteq> 0" using alloc_slot(3) [OF ok i n z r] nz by (simp add: da)
    moreover have "image_frame s ?t" by (simp add: image_frame_def)
    ultimately show ?thesis by (intro exI [of _ ?din] exI [of _ ?t]) simp
  next
    case False
    have "D(i := din\<lparr>d_size := sz\<rparr>) = D" by (simp flip: D)
    then show ?thesis using ok False by (intro exI [of _ din] exI [of _ s]) (simp add: slot_def image_frame_def)
  qed
  show ?thesis
  proof (cases "k < NDIRECT")
    case True
    have b: "append_block din k = bind (slot k) (\<lambda>din. ret (din, d_addrs din ! k))"
      using True by (simp add: append_block_def slot_def)
    obtain din' t where t: "slot k s = Ok din' t" "image_ok t (D(i := din'\<lparr>d_size := sz\<rparr>))" "d_addrs din' ! k \<noteq> 0"
      "image_frame s t" "freeblock t \<le> freeblock s + 1" "d_type din' = d_type din"
      "\<forall>j < freeinode s. contents (img t) (D(i := din'\<lparr>d_size := sz\<rparr>)) j = contents (img s) D j"
      using slots [of k] True by auto
    have "addr (img t) (D(i := din'\<lparr>d_size := sz\<rparr>)) i k = d_addrs din' ! k" using True by (simp add: addr_cases)
    then show ?thesis using t by (intro exI [of _ din'] exI [of _ "d_addrs din' ! k"] exI [of _ t]) (simp add: b)
  next
    case False
    obtain din' t where t: "slot NDIRECT s = Ok din' t" "image_ok t (D(i := din'\<lparr>d_size := sz\<rparr>))" "d_addrs din' ! NDIRECT \<noteq> 0"
      "image_frame s t" "freeblock t \<le> freeblock s + 1" "d_type din' = d_type din"
      "\<forall>j < freeinode s. contents (img t) (D(i := din'\<lparr>d_size := sz\<rparr>)) j = contents (img s) D j"
      using slots [of NDIRECT] by auto
    let ?E = "D(i := din'\<lparr>d_size := sz\<rparr>)" and ?x = "d_addrs din' ! NDIRECT"
    have it: "i < freeinode t" using i t(4) by (simp add: image_frame_def)
    have ind: "addr (img t) ?E i MAXFILE = ?x" by (simp add: addr_cases)
    have xl: "?x < length (img t)" using image_okD(8) [OF t(2) it order_refl] ind t(3) by simp
    have run: "append_block din k s = bind (rsect ?x) (\<lambda>indirect.
        bind (if get32 indirect (4 * (k - NDIRECT)) = 0
              then bind next_block (\<lambda>b.
                let indirect = put32 indirect (4 * (k - NDIRECT)) b in
                bind (wsect ?x indirect) (\<lambda>_. ret indirect))
              else ret indirect) (\<lambda>indirect.
        ret (din', get32 indirect (4 * (k - NDIRECT))))) t"
      using False t(1) by (simp add: append_block_def slot_def)
    have kk: "NDIRECT \<le> k" using False by simp
    show ?thesis
    proof (cases "get32 (img t ! ?x) (4 * (k - NDIRECT)) = 0")
      case z: True
      let ?u = "t\<lparr>freeblock := freeblock t + 1, img := (img t)[?x := put32 (img t ! ?x) (4 * (k - NDIRECT)) (freeblock t)]\<rparr>"
      have r: "freeblock t < length (img t)" using room t(4,5) by (simp add: image_frame_def)
      have ex: "d_addrs (?E i) ! NDIRECT = ?x" by simp
      note u = alloc_indirect [OF t(2) it kk k ex t(3) z r]
      have g: "get32 (img ?u ! ?x) (4 * (k - NDIRECT)) = freeblock t" by (rule u(4))
      have "freeblock t \<noteq> 0" using image_okD(3) [OF t(2)] by (simp add: nmeta_def)
      moreover have "append_block din k s = Ok (din', freeblock t) ?u"
        using z xl g by (simp add: run rsect_def next_block_def wsect_def Let_def)
      moreover have "addr (img ?u) ?E i k = freeblock t" using g t(3) by (simp add: addr_cases kk k)
      moreover have "image_frame s ?u" by (rule image_frame_trans [OF t(4) u(3)])
      moreover have "contents (img ?u) ?E j = contents (img s) D j" if j: "j < freeinode s" for j
      proof -
        have "j < freeinode t" using j t(4) by (simp add: image_frame_def)
        from u(2) [OF this] show ?thesis using t(7) j by (simp only:)
      qed
      ultimately show ?thesis
        using u(1) t(5,6)
        by (intro exI [of _ din'] exI [of _ "freeblock t"] exI [of _ ?u] conjI allI impI) (assumption | simp)+
    next
      case nz': False
      have "append_block din k s = Ok (din', get32 (img t ! ?x) (4 * (k - NDIRECT))) t"
        using nz' xl by (simp add: run rsect_def)
      moreover have "addr (img t) ?E i k = get32 (img t ! ?x) (4 * (k - NDIRECT))" using t(3) by (simp add: addr_cases kk k)
      ultimately show ?thesis
        using t nz' by (intro exI [of _ din'] exI [of _ "get32 (img t ! ?x) (4 * (k - NDIRECT))"] exI [of _ t]) simp
    qed
  qed
qed

subsection \<open>iappend\<close>

text \<open>How many blocks of a file an append of \<open>n\<close> bytes at \<open>off\<close> touches; each may need two new ones.\<close>

definition spans :: "nat \<Rightarrow> nat \<Rightarrow> nat" where
  "spans off n = (if n = 0 then 0 else (off mod BSIZE + n + BSIZE - 1) div BSIZE)"

lemma spans_step:
  assumes "0 < n" and "m = min n ((off div BSIZE + 1) * BSIZE - off)"
  shows "0 < m" and "m \<le> n" and "off + m \<le> (off div BSIZE + 1) * BSIZE" and "spans off n = 1 + spans (off + m) (n - m)"
proof -
  have o: "off = off div BSIZE * BSIZE + off mod BSIZE" and q: "off mod BSIZE < BSIZE" by (simp_all add: BSIZE_def)
  have "(off div BSIZE + 1) * BSIZE = off div BSIZE * BSIZE + BSIZE" by simp
  then have e: "(off div BSIZE + 1) * BSIZE - off = BSIZE - off mod BSIZE" using o by linarith
  show "0 < m" "m \<le> n" using assms q e by auto
  show "off + m \<le> (off div BSIZE + 1) * BSIZE" using assms(2) e o q by simp
  show "spans off n = 1 + spans (off + m) (n - m)"
  proof (cases "n \<le> BSIZE - off mod BSIZE")
    case True
    then have m: "m = n" using assms e by simp
    have "off mod BSIZE + n + BSIZE - 1 < 2 * BSIZE" "BSIZE \<le> off mod BSIZE + n + BSIZE - 1"
      using True q assms(1) by auto
    then have "(off mod BSIZE + n + BSIZE - 1) div BSIZE = 1" by (simp add: div_nat_eqI)
    then show ?thesis using assms(1) m by (simp add: spans_def)
  next
    case False
    then have m: "m = BSIZE - off mod BSIZE" using assms e by simp
    have "(off div BSIZE + 1) * BSIZE = off div BSIZE * BSIZE + BSIZE" by simp
    then have "off + m = (off div BSIZE + 1) * BSIZE" using m o q by linarith
    then have z: "(off + m) mod BSIZE = 0" by (simp only: mod_mult_self2_is_0)
    have "off mod BSIZE + n + BSIZE - 1 = (n - m + BSIZE - 1) + BSIZE" using m q False by linarith
    then have "(off mod BSIZE + n + BSIZE - 1) div BSIZE = (n - m + BSIZE - 1) div BSIZE + 1"
      by (simp add: BSIZE_def)
    then show ?thesis using False m z assms(1) by (simp add: spans_def)
  qed
qed

lemma append_loop_run:
  assumes "image_ok s D" and "i < freeinode s" and "D i = din\<lparr>d_size := off\<rparr>" and "off + length p \<le> MAXFILE * BSIZE"
    and "freeblock s + 2 * spans off (length p) \<le> length (img s)"
  shows "\<exists>din' t E. iappend_loop din off p s = Ok (din', off + length p) t \<and> E = D(i := din'\<lparr>d_size := off + length p\<rparr>)
    \<and> image_ok t E \<and> contents (img t) E i = contents (img s) D i @ p
    \<and> (\<forall>j < freeinode s. j \<noteq> i \<longrightarrow> contents (img t) E j = contents (img s) D j) \<and> image_frame s t \<and> d_type din' = d_type din"
  using assms
proof (induction p arbitrary: s D din off rule: length_induct)
  case (1 p)
  show ?case
  proof (cases "p = []")
    case True
    have "D(i := din\<lparr>d_size := off\<rparr>) = D" using "1.prems"(3) by (simp flip: "1.prems"(3))
    then show ?thesis
      using "1.prems" True by (intro exI [of _ din] exI [of _ s] exI [of _ D]) (simp add: iappend_loop.simps [of din off "[]"] image_frame_def)
  next
    case False
    let ?k = "off div BSIZE"
    define m where "m = min (length p) ((?k + 1) * BSIZE - off)"
    have lp: "0 < length p" using False by simp
    note sp = spans_step [OF lp m_def]
    have "off < MAXFILE * BSIZE" using "1.prems"(4) lp by linarith
    then have k: "?k < MAXFILE" by (simp add: less_mult_imp_div_less)
    have room: "freeblock s + 2 \<le> length (img s)" using "1.prems"(5) sp(4) by simp
    obtain din1 x s1 where a: "append_block din ?k s = Ok (din1, x) s1" "image_ok s1 (D(i := din1\<lparr>d_size := off\<rparr>))"
      "addr (img s1) (D(i := din1\<lparr>d_size := off\<rparr>)) i ?k = x" "x \<noteq> 0" "image_frame s s1" "freeblock s1 \<le> freeblock s + 2"
      "\<forall>j < freeinode s. contents (img s1) (D(i := din1\<lparr>d_size := off\<rparr>)) j = contents (img s) D j" "d_type din1 = d_type din"
      using append_block_run [OF "1.prems"(1-3) k room] by blast
    let ?D = "D(i := din1\<lparr>d_size := off\<rparr>)"
    note d = image_okD [OF a(2)]
    have i1: "i < freeinode s1" using "1.prems"(2) a(5) by (simp add: image_frame_def)
    have xl: "x < length (img s1)" using d(8) [OF i1, of ?k] k a(3,4) by simp
    define buf where "buf = blit (off - ?k * BSIZE) (take m p) (img s1 ! x)"
    have ob: "off - ?k * BSIZE = off mod BSIZE" "?k * BSIZE \<le> off" by (simp_all add: minus_div_mult_eq_mod)
    have fit: "off mod BSIZE + length (take m p) \<le> length (img s1 ! x)"
    proof -
      have "off = ?k * BSIZE + off mod BSIZE" "(?k + 1) * BSIZE = ?k * BSIZE + BSIZE" by simp_all
      then have "off mod BSIZE + m \<le> BSIZE" using sp(3) by linarith
      then show ?thesis using sp(2) d(1) [OF xl] by simp
    qed
    have lb: "length buf = BSIZE" using fit d(1) [OF xl] by (simp add: buf_def ob)
    have sz: "off + m \<le> MAXFILE * BSIZE" using sp(2) "1.prems"(4) by linarith
    have used: "addr (img s1) ?D i l \<noteq> 0" if "l * BSIZE < off + m" for l
    proof (cases "l * BSIZE < off")
      case True
      then show ?thesis using d(7) [OF i1, of l] by simp
    next
      case nl: False
      have "l * BSIZE < (?k + 1) * BSIZE" using that sp(3) by linarith
      then have "l < ?k + 1" by (simp only: mult_less_cancel2)
      then have "l \<le> ?k" by simp
      moreover have "?k \<le> l"
      proof -
        have "off \<le> l * BSIZE" using nl by simp
        then have "off div BSIZE \<le> l * BSIZE div BSIZE" by (rule div_le_mono)
        then show ?thesis by (simp add: BSIZE_def)
      qed
      ultimately show ?thesis using a(3,4) by simp
    qed
    let ?t = "s1\<lparr>img := (img s1)[x := buf]\<rparr>" and ?E = "D(i := din1\<lparr>d_size := off + m\<rparr>)"
    have E: "?D(i := (?D i)\<lparr>d_size := off + m\<rparr>) = ?E" by simp
    have "\<forall>l. l * BSIZE < off + m \<longrightarrow> addr (img s1) ?D i l \<noteq> 0" using used by blast
    note w = image_ok_write [OF a(2) i1 k a(3,4) lb sz this, unfolded E]
    have run: "iappend_loop din off p s = iappend_loop din1 (off + m) (drop m p) ?t"
      using False k a(1) xl
      by (subst iappend_loop.simps) (simp add: Let_def assert_def m_def rsect_def wsect_def buf_def)
    have ci: "contents (img ?t) ?E i = contents (img s) D i @ take m p"
    proof (rule nth_equalityI)
      show len: "length (contents (img ?t) ?E i) = length (contents (img s) D i @ take m p)"
        using sp(2) "1.prems"(3) by simp
      fix y assume "y < length (contents (img ?t) ?E i)"
      then have y: "y < off + m" by simp
      note v = w(3) [OF y]
      show "contents (img ?t) ?E i ! y = (contents (img s) D i @ take m p) ! y"
      proof (cases "y < off")
        case True
        have old: "contents (img s) D i ! y = img s1 ! addr (img s1) ?D i (y div BSIZE) ! (y mod BSIZE)"
        proof -
          have "contents (img s) D i = contents (img s1) ?D i" using a(7) "1.prems"(2) by simp
          then show ?thesis using contents_nth [of y ?D i "img s1"] True by simp
        qed
        have "buf ! (y mod BSIZE) = img s1 ! x ! (y mod BSIZE)" if "y div BSIZE = ?k"
        proof -
          have "y mod BSIZE < off mod BSIZE" using True that by (metis add_less_cancel_left div_mult_mod_eq)
          moreover have "y mod BSIZE < length (img s1 ! x)" using d(1) [OF xl] by (simp add: BSIZE_def)
          ultimately show ?thesis using nth_blit [OF fit, of "y mod BSIZE"] by (simp add: buf_def ob)
        qed
        then show ?thesis using v old a(3) True "1.prems"(3) by (auto simp: nth_append)
      next
        case ge: False
        have yk: "y div BSIZE = ?k"
        proof (rule div_nat_eqI)
          have "?k * BSIZE \<le> y" using ge ob(2) by linarith
          then show "BSIZE * ?k \<le> y" by (simp only: mult.commute)
          show "y < BSIZE * Suc ?k" using y sp(3) by (simp add: mult.commute)
        qed
        have ym: "y mod BSIZE = off mod BSIZE + (y - off)"
        proof -
          have "y = ?k * BSIZE + y mod BSIZE" using yk div_mult_mod_eq [of y BSIZE] by simp
          moreover have "off = ?k * BSIZE + off mod BSIZE" by simp
          ultimately show ?thesis using ge by linarith
        qed
        have "y mod BSIZE < length (img s1 ! x)" using d(1) [OF xl] by (simp add: BSIZE_def)
        moreover have "y - off < m" using y ge by linarith
        ultimately have "buf ! (y mod BSIZE) = take m p ! (y - off)"
          using nth_blit [OF fit, of "y mod BSIZE"] sp(2) by (simp add: buf_def ob ym)
        then show ?thesis using v yk ge "1.prems"(3) by (simp add: nth_append)
      qed
    qed
    have Ei: "?E i = din1\<lparr>d_size := off + m\<rparr>" by simp
    have i2: "i < freeinode ?t" using i1 by simp
    have len2: "off + m + length (drop m p) \<le> MAXFILE * BSIZE" using sp(2) "1.prems"(4) by simp
    have room2: "freeblock ?t + 2 * spans (off + m) (length (drop m p)) \<le> length (img ?t)"
      using "1.prems"(5) sp(4) a(5,6) by (simp add: image_frame_def)
    have "length (drop m p) < length p" using sp(1) lp by simp
    with "1.IH" have "\<exists>din' t E. iappend_loop din1 (off + m) (drop m p) ?t = Ok (din', off + m + length (drop m p)) t
      \<and> E = ?E(i := din'\<lparr>d_size := off + m + length (drop m p)\<rparr>) \<and> image_ok t E
      \<and> contents (img t) E i = contents (img ?t) ?E i @ drop m p
      \<and> (\<forall>j < freeinode ?t. j \<noteq> i \<longrightarrow> contents (img t) E j = contents (img ?t) ?E j) \<and> image_frame ?t t \<and> d_type din' = d_type din1"
      using w(1) i2 Ei len2 room2 by blast
    then obtain din' t E where r: "iappend_loop din1 (off + m) (drop m p) ?t = Ok (din', off + m + length (drop m p)) t"
      "E = ?E(i := din'\<lparr>d_size := off + m + length (drop m p)\<rparr>)" "image_ok t E"
      "contents (img t) E i = contents (img ?t) ?E i @ drop m p"
      "\<forall>j < freeinode ?t. j \<noteq> i \<longrightarrow> contents (img t) E j = contents (img ?t) ?E j" "image_frame ?t t" "d_type din' = d_type din1"
      by blast
    have n: "off + m + length (drop m p) = off + length p" using sp(2) by simp
    have fi: "freeinode s1 = freeinode s" using a(5) by (simp add: image_frame_def)
    have "image_frame s1 ?t" using d(8) [OF i1, of ?k] k a(3,4) by (auto simp: image_frame_def)
    then have fr: "image_frame s t" using a(5) r(6) image_frame_trans by blast
    have cj: "contents (img t) E j = contents (img s) D j" if j: "j < freeinode s" "j \<noteq> i" for j
    proof -
      have j1: "j < freeinode s1" using j fi by simp
      then have "contents (img t) E j = contents (img ?t) ?E j" using r(5) j(2) by simp
      also have "\<dots> = contents (img s1) ?D j" by (rule w(2) [OF j1 j(2)])
      also have "\<dots> = contents (img s) D j" using a(7) j(1) by blast
      finally show ?thesis .
    qed
    have "E = D(i := din'\<lparr>d_size := off + length p\<rparr>)" using r(2) n by simp
    moreover have "contents (img t) E i = contents (img s) D i @ p" using r(4) ci by simp
    moreover have "iappend_loop din off p s = Ok (din', off + length p) t" using run r(1) n by simp
    moreover have "d_type din' = d_type din" using r(7) a(8) by simp
    ultimately show ?thesis using r(3) fr cj by blast
  qed
qed

end
