(* ===== verification/Mkfs_Claims.thy ===== *)
theory Mkfs_Claims
  imports Mkfs_Props
begin

text \<open>The images that mkfs.c builds: each \<open>iappend\<close> appends to one file, and the free map is that of the blocks used.\<close>

subsection \<open>The inode blocks\<close>

lemma image_ok_cong:
  assumes "\<And>j. j < freeinode s \<Longrightarrow> D j = E j"
  shows "image_ok s D = image_ok s E" and "j < freeinode s \<Longrightarrow> contents (img s) D j = contents (img s) E j"
proof -
  have a: "addr (img s) D j k = addr (img s) E j k" if "j < freeinode s" for j k
    using assms [OF that] by (simp add: addr_def)
  show "image_ok s D = image_ok s E" using a assms by (simp add: image_ok_def cong: conj_cong)
  show "contents (img s) D j = contents (img s) E j" if "j < freeinode s"
    using a [OF that] assms [OF that] by (simp add: contents_def)
qed

lemma image_ok_meta:
  assumes ok: "image_ok s D" and b: "b < nmeta" and buf: "length buf = BSIZE"
  defines "t \<equiv> s\<lparr>img := (img s)[b := buf]\<rparr>"
  shows "image_ok t D" and "\<And>j. j < freeinode s \<Longrightarrow> contents (img t) D j = contents (img s) D j"
proof -
  note d = image_okD [OF ok]
  have same: "addr (img t) D j k = addr (img s) D j k" if j: "j < freeinode s" for j k
  proof (cases "d_addrs (D j) ! NDIRECT = 0")
    case False
    have "addr (img s) D j MAXFILE = d_addrs (D j) ! NDIRECT" by (simp add: addr_cases)
    then have "nmeta \<le> d_addrs (D j) ! NDIRECT" using d(8) [OF j order_refl] False by simp
    then show ?thesis using b by (simp add: addr_def t_def)
  qed (simp add: addr_def)
  have len: "length (img t ! c) = BSIZE" if "c < length (img s)" for c
    using d(1) [OF that] buf that by (cases "c = b") (simp_all add: t_def)
  have z: "img t ! c = zeroes" if "c < length (img s)" "freeblock s \<le> c" for c
    using d(2) [OF that] d(3) b that by (simp add: t_def)
  show "image_ok t D"
    using ok len z same by (simp add: image_ok_def t_def cong: conj_cong)
  show "contents (img t) D j = contents (img s) D j" if j: "j < freeinode s" for j
  proof (rule nth_equalityI)
    fix y assume "y < length (contents (img t) D j)"
    then have y: "y < d_size (D j)" by simp
    have p: "y div BSIZE \<le> MAXFILE" using part_small [OF y d(6) [OF j]] by simp
    have "nmeta \<le> addr (img s) D j (y div BSIZE)" using d(8) [OF j p d(7) [OF j part_used [OF y]]] by blast
    then show "contents (img t) D j ! y = contents (img s) D j ! y" using y same [OF j] b by (simp add: t_def)
  qed simp
qed

lemma inode_block: "i < NINODES \<Longrightarrow> IBLOCK i mk_sb < nmeta"
proof -
  assume "i < NINODES"
  then have "i div 8 < 25" by (simp add: NINODES_def less_mult_imp_div_less)
  then show ?thesis
    by (simp add: IBLOCK_def mk_sb_def nmeta_def ninodeblocks_def nbitmap_def IPB_def BSIZE_def DINODE_SIZE_def NINODES_def)
qed

lemma nmeta_value: "nmeta = 59" "FSSIZE = 1000"
  by (simp_all add: nmeta_def mk_nlog_def LOGSIZE_def MAXOPBLOCKS_def ninodeblocks_def NINODES_def IPB_def BSIZE_def
      DINODE_SIZE_def nbitmap_def FSSIZE_def)

text \<open>What \<open>winode\<close> does to the image and the inodes on it.\<close>

lemma winode_run:
  assumes ok: "image_ok s D" and len: "length (img s) = FSSIZE"
    and i: "i < NINODES" and x: "dinode_ok x"
  shows "\<exists>t. winode i x s = Ok () t \<and> image_ok t D \<and> length (img t) = FSSIZE \<and> freeinode t = freeinode s \<and> freeblock t = freeblock s
    \<and> (\<forall>j. inode_at t j = (if j = i then x else inode_at s j))
    \<and> (\<forall>j < freeinode s. contents (img t) D j = contents (img s) D j)"
proof -
  let ?b = "IBLOCK i mk_sb" and ?o = "i mod IPB * DINODE_SIZE"
  have b: "?b < nmeta" "?b < length (img s)" using inode_block [OF i] len nmeta_value by simp_all
  have lb: "length (img s ! ?b) = BSIZE" by (rule image_okD(1) [OF ok b(2)])
  have "?o + DINODE_SIZE \<le> length (img s ! ?b)" using lb ipb_room by simp
  then have lp: "length (put_dinode ?o x (img s ! ?b)) = BSIZE" using put_dinode_get(2) [OF _ x] lb by simp
  let ?t = "s\<lparr>img := (img s)[?b := put_dinode ?o x (img s ! ?b)]\<rparr>"
  have "winode i x s = Ok () ?t" using b(2) by (simp add: winode_def rsect_def wsect_def Let_def)
  moreover have "inode_at ?t j = (if j = i then x else inode_at s j)" for j
  proof -
    show ?thesis
    proof (cases "j div IPB = i div IPB")
      case True
      then have "j mod IPB = i mod IPB \<longleftrightarrow> j = i" by (metis div_mult_mod_eq)
      moreover have "IBLOCK j mk_sb = ?b" using True by (simp add: IBLOCK_def)
      ultimately show ?thesis using get_put_slot [OF lb x, of i j] b(2) by (simp add: inode_at_def)
    next
      case False
      then have "IBLOCK j mk_sb \<noteq> ?b" "j \<noteq> i" by (auto simp: IBLOCK_def)
      then show ?thesis by (simp add: inode_at_def)
    qed
  qed
  ultimately show ?thesis using image_ok_meta [OF ok b(1) lp] len by (intro exI [of _ ?t]) simp
qed

subsection \<open>Building an image\<close>

definition file_at :: "image \<Rightarrow> nat \<Rightarrow> bytes" where
  "file_at s i = contents (img s) (inode_at s) i"

definition fits_image :: "image \<Rightarrow> nat \<Rightarrow> bytes \<Rightarrow> bool" where
  "fits_image s i p \<longleftrightarrow> length (file_at s i) + length p \<le> MAXFILE * BSIZE
     \<and> freeblock s + 2 * spans (length (file_at s i)) (length p) \<le> FSSIZE"

inductive image_built :: "image \<Rightarrow> bool" where
  format: "mk_format \<lparr>img = [], freeinode = 1, freeblock = 0\<rparr> = Ok () s \<Longrightarrow> image_built s"
| inode: "image_built s \<Longrightarrow> freeinode s < NINODES \<Longrightarrow> is_short type \<Longrightarrow> mk_ialloc type s = Ok i t \<Longrightarrow> image_built t"
| append: "image_built s \<Longrightarrow> i < freeinode s \<Longrightarrow> fits_image s i p \<Longrightarrow> iappend i p s = Ok () t \<Longrightarrow> image_built t"

definition built_ok :: "image \<Rightarrow> bool" where
  "built_ok s \<longleftrightarrow> image_ok s (inode_at s) \<and> length (img s) = FSSIZE \<and> freeinode s \<le> NINODES"

lemma iappend_run:
  assumes b: "built_ok s" and i: "i < freeinode s" and f: "fits_image s i p"
  shows "\<exists>t. iappend i p s = Ok () t \<and> built_ok t \<and> freeinode t = freeinode s \<and> file_at t i = file_at s i @ p
    \<and> (\<forall>j < freeinode s. j \<noteq> i \<longrightarrow> file_at t j = file_at s j) \<and> d_type (inode_at t i) = d_type (inode_at s i)"
proof -
  let ?D = "inode_at s" and ?din = "inode_at s i"
  let ?off = "d_size ?din"
  have ok: "image_ok s ?D" and len: "length (img s) = FSSIZE" and n: "freeinode s \<le> NINODES" using b by (simp_all add: built_ok_def)
  have iN: "i < NINODES" using i n by simp
  have off: "length (file_at s i) = ?off" by (simp add: file_at_def)
  obtain din' t E where t: "iappend_loop ?din ?off p s = Ok (din', ?off + length p) t" "E = ?D(i := din'\<lparr>d_size := ?off + length p\<rparr>)"
    "image_ok t E" "contents (img t) E i = contents (img s) ?D i @ p"
    "\<forall>j < freeinode s. j \<noteq> i \<longrightarrow> contents (img t) E j = contents (img s) ?D j" "image_frame s t" "d_type din' = d_type ?din"
    using append_loop_run [OF ok i, where din = ?din and off = ?off and p = p] f len unfolding fits_image_def off by auto
  have fi: "freeinode t = freeinode s" and lt: "length (img t) = FSSIZE" using t(6) len by (simp_all add: image_frame_def)
  have meta: "inode_at t j = ?D j" if "j < NINODES" for j
    using t(6) inode_block [OF that] len nmeta_value by (simp add: inode_at_def image_frame_def)
  let ?x = "din'\<lparr>d_size := ?off + length p\<rparr>"
  have x: "dinode_ok ?x" using image_okD(5) [OF t(3), of i] i fi t(2) by simp
  have bn: "IBLOCK i mk_sb < length (img s)" using inode_block [OF iN] len nmeta_value by simp
  have run: "iappend i p s = winode i ?x t"
    using t(1) bn by (simp add: iappend_def rinode_def rsect_def Let_def inode_at_def)
  obtain u where u: "winode i ?x t = Ok () u" "image_ok u E" "length (img u) = FSSIZE" "freeinode u = freeinode t"
    "\<forall>j. inode_at u j = (if j = i then ?x else inode_at t j)" "\<forall>j < freeinode t. contents (img u) E j = contents (img t) E j"
    using winode_run [OF t(3) lt iN x] by blast
  have Eu: "inode_at u j = E j" if "j < freeinode u" for j
    using that u(4,5) meta [of j] n fi by (auto simp: t(2))
  note c = image_ok_cong [of u "inode_at u" E, OF Eu]
  have fa: "file_at u j = contents (img t) E j" if "j < freeinode s" for j
    using c(2) [of j] u(4,6) that fi by (simp add: file_at_def)
  have "built_ok u" using c(1) u(2-4) n fi by (simp add: built_ok_def)
  moreover have "file_at u i = file_at s i @ p" using fa [OF i] t(4) by (simp add: file_at_def)
  moreover have "file_at u j = file_at s j" if "j < freeinode s" "j \<noteq> i" for j
    using fa [OF that(1)] t(5) that by (simp add: file_at_def)
  moreover have "d_type (inode_at u i) = d_type (inode_at s i)" using u(5) t(7) by simp
  ultimately show ?thesis using run u(1,4) fi by auto
qed

lemma fresh_inode_ok: "is_short type \<Longrightarrow> dinode_ok \<lparr>d_type = type, d_major = 0, d_minor = 0, d_nlink = 1, d_size = 0,
    d_addrs = replicate (NDIRECT + 1) 0\<rparr>"
  by (simp add: dinode_ok_def is_short_def)

lemma ialloc_run:
  assumes b: "built_ok s" and n: "freeinode s < NINODES" and ty: "is_short type"
  shows "\<exists>t. mk_ialloc type s = Ok (freeinode s) t \<and> built_ok t \<and> freeinode t = freeinode s + 1 \<and> freeblock t = freeblock s
    \<and> file_at t (freeinode s) = [] \<and> (\<forall>j < freeinode s. file_at t j = file_at s j) \<and> d_type (inode_at t (freeinode s)) = type"
proof -
  let ?x = "\<lparr>d_type = type, d_major = 0, d_minor = 0, d_nlink = 1, d_size = 0, d_addrs = replicate (NDIRECT + 1) 0\<rparr>"
  let ?s = "s\<lparr>freeinode := freeinode s + 1\<rparr>" and ?i = "freeinode s"
  define E where "E = (inode_at s)(?i := ?x)"
  have ok: "image_ok s (inode_at s)" and len: "length (img s) = FSSIZE" using b by (simp_all add: built_ok_def)
  have a: "addr (img s) E ?i k = 0" if "k \<le> MAXFILE" for k
    using that by (auto simp: addr_def E_def NDIRECT_def nth_Cons' simp del: replicate.simps intro!: nth_replicate)
  have "image_ok s E" using ok image_ok_cong(1) [of s "inode_at s" E] by (simp add: E_def)
  then have okE: "image_ok ?s E"
    using a fresh_inode_ok [OF ty]
    by (auto simp: image_ok_def less_Suc_eq E_def)
  have x: "dinode_ok ?x" by (rule fresh_inode_ok [OF ty])
  obtain t where t: "winode ?i ?x ?s = Ok () t" "image_ok t E" "length (img t) = FSSIZE" "freeinode t = ?i + 1"
    "freeblock t = freeblock s" "\<forall>j. inode_at t j = (if j = ?i then ?x else inode_at ?s j)"
    "\<forall>j < ?i + 1. contents (img t) E j = contents (img ?s) E j"
    using winode_run [OF okE _ n x] len by auto
  have Et: "inode_at t j = E j" if "j < freeinode t" for j using t(6) by (simp add: E_def inode_at_def)
  note c = image_ok_cong [of t "inode_at t" E, OF Et]
  have fa: "file_at t j = contents (img s) E j" if "j < ?i + 1" for j
    using c(2) [of j] t(4,7) that by (simp add: file_at_def)
  have "file_at t ?i = []" using fa [of ?i] by (simp add: contents_def E_def)
  moreover have "file_at t j = file_at s j" if "j < ?i" for j
    using fa [of j] image_ok_cong(2) [of s "inode_at s" E j] that by (simp add: E_def file_at_def)
  moreover have "built_ok t" using c(1) t(2-4) n by (simp add: built_ok_def)
  moreover have "d_type (inode_at t ?i) = type" using t(6) by simp
  ultimately show ?thesis using t(1,4,5) by (auto simp: mk_ialloc_def)
qed

text \<open>The empty image.\<close>

definition formatted :: image where
  "formatted = \<lparr>img = (replicate FSSIZE zeroes)[1 := sb_bytes mk_sb], freeinode = 1, freeblock = nmeta\<rparr>"

lemma zero_fill:
  "for_each [0..<n] (\<lambda>i. bind (wsect i zeroes) (\<lambda>_. ret (None :: unit option))) \<lparr>img = [], freeinode = f, freeblock = b\<rparr>
    = Ok None \<lparr>img = replicate n zeroes, freeinode = f, freeblock = b\<rparr>"
proof -
  let ?step = "\<lambda>i s. s\<lparr>img := (if i < length (img s) then (img s)[i := zeroes]
      else img s @ replicate (i - length (img s)) zeroes @ [zeroes])\<rparr>"
  have "fold ?step [0..<n] \<lparr>img = [], freeinode = f, freeblock = b\<rparr> = \<lparr>img = replicate n zeroes, freeinode = f, freeblock = b\<rparr>"
    by (induction n) (simp_all add: replicate_append_same)
  then show ?thesis
    using for_each_all [of "[0..<n]" "\<lambda>i. bind (wsect i zeroes) (\<lambda>_. ret (None :: unit option))" ?step] by (simp add: wsect_def)
qed

lemma format_run: "mk_format \<lparr>img = [], freeinode = 1, freeblock = 0\<rparr> = Ok () formatted"
  using zero_fill [of FSSIZE 1 nmeta] by (simp add: mk_format_def wsect_def formatted_def nmeta_value)

lemma length_sb_bytes: "length (sb_bytes sb) = BSIZE"
  by (simp add: sb_bytes_def zeroes_def)

text \<open>The kernel reads the super block that was meant.\<close>

lemma superblock_readback: "superblock_of (img formatted ! 1) = mk_sb"
proof -
  have l: "length zeroes = 512" by (simp add: zeroes_def BSIZE_def)
  have "superblock_of (sb_bytes mk_sb) = mk_sb"
    by (simp add: superblock_of_def sb_bytes_def get32_put32_same get32_put32_other l)
      (simp add: mk_sb_def nmeta_value mk_nlog_def LOGSIZE_def MAXOPBLOCKS_def NINODES_def ninodeblocks_def IPB_def BSIZE_def DINODE_SIZE_def)
  then show ?thesis by (simp add: formatted_def nmeta_value)
qed

lemma zero_dinode: "get_dinode zeroes off = \<lparr>d_type = 0, d_major = 0, d_minor = 0, d_nlink = 0, d_size = 0,
    d_addrs = replicate (NDIRECT + 1) 0\<rparr>" if "off + DINODE_SIZE \<le> BSIZE"
proof -
  have z: "zeroes ! j = 0" if "j < BSIZE" for j using that by (simp add: zeroes_def)
  have g: "get16 zeroes j = 0" if "j + 2 \<le> off + 64" for j
    using that \<open>off + DINODE_SIZE \<le> BSIZE\<close> z by (simp add: get16_def DINODE_SIZE_def)
  have "get32 zeroes j = 0" if "j + 4 \<le> off + 64" for j using that g by (simp add: get32_def)
  then have "map (\<lambda>k. get32 zeroes (off + 12 + 4 * k)) [0..<NDIRECT + 1] = replicate (NDIRECT + 1) 0"
    by (intro nth_equalityI) (simp_all add: NDIRECT_def del: upt_Suc replicate.simps)
  then show ?thesis
    using g by (simp add: get_dinode_def get_short_def get32_def del: upt_Suc replicate.simps)
qed

lemma formatted_ok: "built_ok formatted"
proof -
  have len: "length (img formatted) = 1000" by (simp add: formatted_def nmeta_value)
  have blocks: "length (img formatted ! b) = BSIZE" if "b < 1000" for b
    using that length_sb_bytes by (cases "b = 1") (simp_all add: formatted_def nmeta_value zeroes_def)
  have z: "img formatted ! b = zeroes" if "b < 1000" "b \<noteq> 1" for b
    using that by (simp add: formatted_def nmeta_value)
  have o: "0 mod IPB * DINODE_SIZE + DINODE_SIZE \<le> BSIZE" by (rule ipb_room)
  have "IBLOCK 0 mk_sb = 32" by (simp add: IBLOCK_def mk_sb_def mk_nlog_def LOGSIZE_def MAXOPBLOCKS_def)
  then have i: "inode_at formatted 0 = \<lparr>d_type = 0, d_major = 0, d_minor = 0, d_nlink = 0, d_size = 0,
      d_addrs = replicate (NDIRECT + 1) 0\<rparr>"
    using z [of 32] zero_dinode [OF o] by (simp add: inode_at_def del: replicate.simps)
  have a: "addr (img formatted) (inode_at formatted) 0 k = 0" if "k \<le> MAXFILE" for k
    using that by (auto simp: addr_def i NDIRECT_def simp del: replicate.simps intro!: nth_replicate)
  have f: "freeinode formatted = 1" "freeblock formatted = 59" by (simp_all add: formatted_def nmeta_value)
  have d: "dinode_ok (inode_at formatted 0)" "d_size (inode_at formatted 0) = 0"
    by (simp_all add: i dinode_ok_def is_short_def del: replicate.simps)
  show ?thesis
    unfolding built_ok_def image_ok_def
    using blocks z a d by (simp add: f len nmeta_value NINODES_def)
qed

lemma built_invariant: "image_built s \<Longrightarrow> built_ok s"
proof (induction rule: image_built.induct)
  case (format s)
  then show ?case using format_run formatted_ok by simp
next
  case (inode s type i t)
  then show ?case using ialloc_run [OF inode.IH inode.hyps(2,3)] by auto
next
  case (append s i p t)
  then show ?case using iappend_run [OF append.IH append.hyps(2,3)] by auto
qed

subsection \<open>The free map\<close>

lemma mark_bits:
  assumes "n \<le> 4096"
  shows "length (fold (\<lambda>i buf. buf[i div 8 := buf ! (i div 8) OR push_bit (i mod 8) 1]) [0..<n] zeroes) = BSIZE
    \<and> (\<forall>b < 4096. bit (fold (\<lambda>i buf. buf[i div 8 := buf ! (i div 8) OR push_bit (i mod 8) (1 :: uchar)]) [0..<n] zeroes ! (b div 8)) (b mod 8)
        \<longleftrightarrow> b < n)"
  using assms
proof (induction n)
  case 0
  then show ?case by (simp add: zeroes_def BSIZE_def less_mult_imp_div_less)
next
  case (Suc n)
  let ?e = "fold (\<lambda>i buf. buf[i div 8 := buf ! (i div 8) OR push_bit (i mod 8) (1 :: uchar)]) [0..<n] zeroes"
  have IH: "length ?e = BSIZE" "\<And>b. b < 4096 \<Longrightarrow> bit (?e ! (b div 8)) (b mod 8) \<longleftrightarrow> b < n" using Suc by auto
  have n: "n div 8 < length ?e" using IH(1) Suc.prems by (simp add: BSIZE_def less_mult_imp_div_less)
  have "bit (?e[n div 8 := ?e ! (n div 8) OR push_bit (n mod 8) 1] ! (b div 8)) (b mod 8) \<longleftrightarrow> b < Suc n" if "b < 4096" for b
  proof (cases "b div 8 = n div 8")
    case True
    have "b mod 8 = n mod 8 \<longleftrightarrow> b = n" using True by (metis div_mult_mod_eq)
    moreover have "bit (push_bit (n mod 8) 1 :: uchar) (b mod 8) \<longleftrightarrow> b mod 8 = n mod 8"
      by (auto simp: bit_exp_iff)
    ultimately show ?thesis using True n IH(2) [OF that] by (auto simp: bit_or_iff)
  next
    case False
    then have "b \<noteq> n" by auto
    then show ?thesis using False IH(2) [OF that] by auto
  qed
  then show ?case using IH(1) by simp
qed

text \<open>\<open>balloc\<close> marks the first \<open>used\<close> blocks and no others.\<close>

lemma free_map_written:
  assumes "length (img s) = FSSIZE" and "used < 4096"
  shows "\<exists>t. mk_balloc used s = Ok () t
    \<and> (\<forall>b < 4096. bit (img t ! sb_bmapstart mk_sb ! (b div 8)) (b mod 8) \<longleftrightarrow> b < used)"
proof -
  have "sb_bmapstart mk_sb = 58"
    by (simp add: mk_sb_def mk_nlog_def LOGSIZE_def MAXOPBLOCKS_def ninodeblocks_def NINODES_def IPB_def BSIZE_def DINODE_SIZE_def)
  then show ?thesis
    using assms mark_bits [of used] by (simp add: mk_balloc_def assert_def wsect_def BSIZE_def nmeta_value)
qed

subsection \<open>The log\<close>

text \<open>mkfs gives the log \<open>LOGSIZE\<close> blocks, one of which is its header: \<open>log_write\<close> panics at one block less than
  the \<open>LOGSIZE\<close> that \<open>begin_op\<close> hands out to three calls at a time.\<close>

lemma mkfs_log_one_short:
  assumes "log_size s = int (sb_nlog mk_sb)" and "lh_n s = int LOGSIZE - 1"
  shows "log_write b s = Panic ''too big a transaction''"
    and "\<not> (0 + (2 + 1) * int MAXOPBLOCKS > int LOGSIZE)"
  using assms by (simp_all add: log_write_def mk_sb_def mk_nlog_def LOGSIZE_def MAXOPBLOCKS_def)

subsection \<open>Properties\<close>

text \<open>C29: mkfs builds files by appending.  On any image that its steps have built, \<open>iappend\<close> of bytes for which
  there is room returns, the file then holds its old contents followed by the new bytes, through direct blocks,
  the indirect block and a partly filled last block, and no other file changes.\<close>

theorem iappend_appends:
  assumes "image_built s" and "i < freeinode s" and "fits_image s i p"
  shows "\<exists>t. iappend i p s = Ok () t \<and> image_built t \<and> file_at t i = file_at s i @ p
    \<and> (\<forall>j < freeinode s. j \<noteq> i \<longrightarrow> file_at t j = file_at s j)"
proof -
  obtain t where "iappend i p s = Ok () t" "file_at t i = file_at s i @ p"
    "\<forall>j < freeinode s. j \<noteq> i \<longrightarrow> file_at t j = file_at s j"
    using iappend_run [OF built_invariant [OF assms(1)] assms(2,3)] by blast
  then show ?thesis using image_built.append [OF assms] by blast
qed

lemma iappend_appends_witness:
  "\<exists>s t. mk_ialloc T_FILE formatted = Ok 1 s \<and> iappend 1 [104, 105] s = Ok () t \<and> file_at t 1 = [104, 105]"
proof -
  have f: "freeinode formatted = 1" "freeblock formatted = 59" by (simp_all add: formatted_def nmeta_value)
  have N: "freeinode formatted < NINODES" "is_short T_FILE" by (simp_all add: f NINODES_def is_short_def T_FILE_def)
  obtain s where s: "mk_ialloc T_FILE formatted = Ok 1 s" "freeinode s = 2" "file_at s 1 = []" "freeblock s = 59"
    using ialloc_run [OF formatted_ok N] f by auto
  have b: "image_built s" by (rule image_built.inode [OF image_built.format [OF format_run] N s(1)])
  have fit: "fits_image s 1 [104, 105]"
    by (simp add: fits_image_def s(3) [unfolded One_nat_def] s(4) spans_def MAXFILE_def NDIRECT_def BSIZE_def nmeta_value)
  show ?thesis using iappend_appends [OF b _ fit] s by auto
qed

end
