(* ===== verification/Mp.thy ===== *)
theory Mp
  imports Trap
begin

text \<open>
  What the boot processor finds out about the machine, mp.c and mp.h: the tables that the BIOS left in
  memory.  Addresses are the kernel's; the structures of mp.h are read field by field at their
  offsets.
\<close>

text \<open>The device registers that the boot code writes, in the order of the writes.\<close>

datatype devwrite = Outb nat uchar | Lapicw nat uint | Ioapicw nat uint

text \<open>\<open>gdt\<close> has the segment descriptors of each CPU, \<open>started\<close> the CPUs that have left \<open>mpmain\<close>.\<close>

record segdesc =
  lim_15_0 :: uint
  base_15_0 :: uint
  base_23_16 :: uint
  sd_type :: uint
  sd_s :: uint
  sd_dpl :: uint
  sd_p :: uint
  lim_19_16 :: uint
  sd_avl :: uint
  sd_rsv1 :: uint
  sd_db :: uint
  sd_g :: uint
  base_31_24 :: uint

record bootstate = tstate +
  cpu_ids :: "uchar list"
  ioapic_id :: uchar
  lapic_base :: uint
  dev_out :: "devwrite list"
  gdt :: "nat \<Rightarrow> nat \<Rightarrow> segdesc option"
  idt :: "gatedesc list"
  idt_loaded :: "nat list"
  started :: "nat list"

type_synonym ('z, 'a) bootop = "'z bootstate_scheme \<Rightarrow> ('z bootstate_scheme, 'a) outcome"

definition dev_writes :: "devwrite list \<Rightarrow> ('z, unit) bootop" where
  "dev_writes ws = modify (\<lambda>s. s\<lparr>dev_out := dev_out s @ ws\<rparr>)"

subsection \<open>mp.h\<close>

definition MP_SIZE :: uint where "MP_SIZE = 16"
definition MPCONF_SIZE :: uint where "MPCONF_SIZE = 44"
definition MPPROC_SIZE :: uint where "MPPROC_SIZE = 20"
definition MPIOAPIC_SIZE :: uint where "MPIOAPIC_SIZE = 8"

definition MPPROC :: uchar where "MPPROC = 0x00"
definition MPBUS :: uchar where "MPBUS = 0x01"
definition MPIOAPIC :: uchar where "MPIOAPIC = 0x02"
definition MPIOINTR :: uchar where "MPIOINTR = 0x03"
definition MPLINTR :: uchar where "MPLINTR = 0x04"

definition byte_at :: "mem \<Rightarrow> uint \<Rightarrow> uchar" where "byte_at m a = m (unat a)"

definition mp_physaddr :: "mem \<Rightarrow> uint \<Rightarrow> uint" where "mp_physaddr m mp = load32 m (unat (mp + 4))"
definition mp_imcrp :: "mem \<Rightarrow> uint \<Rightarrow> uchar" where "mp_imcrp m mp = byte_at m (mp + 12)"

definition conf_length :: "mem \<Rightarrow> uint \<Rightarrow> uint" where
  "conf_length m conf = ucast (byte_at m (conf + 4)) OR push_bit 8 (ucast (byte_at m (conf + 5)))"
definition conf_version :: "mem \<Rightarrow> uint \<Rightarrow> uchar" where "conf_version m conf = byte_at m (conf + 6)"
definition conf_lapicaddr :: "mem \<Rightarrow> uint \<Rightarrow> uint" where "conf_lapicaddr m conf = load32 m (unat (conf + 36))"

subsection \<open>Finding the tables\<close>

definition mp_sum :: "mem \<Rightarrow> uint \<Rightarrow> nat \<Rightarrow> uchar" where
  "mp_sum m addr len = word_of_int (fold (\<lambda>i s. s + uint (byte_at m (addr + word_of_nat i))) [0..<len] 0)"

definition signed_as :: "mem \<Rightarrow> uint \<Rightarrow> string \<Rightarrow> bool" where
  "signed_as m p sig = (map (\<lambda>i. byte_at m (p + word_of_nat i)) [0..<length sig] = map of_char sig)"

definition mpsearch1 :: "mem \<Rightarrow> uint \<Rightarrow> nat \<Rightarrow> uint option" where
  "mpsearch1 m a len =
     find (\<lambda>p. signed_as m p ''_MP_'' \<and> mp_sum m p (unat MP_SIZE) = 0)
       (map (\<lambda>k. P2V a + word_of_nat k * MP_SIZE) [0..<(len + 15) div 16])"

definition mpsearch :: "mem \<Rightarrow> uint option" where
  "mpsearch m =
     (let bda = P2V 0x400;
          b = (\<lambda>i. ucast (byte_at m (bda + i)) :: uint);
          p = push_bit 4 (push_bit 8 (b 0x0F) OR b 0x0E)
      in case (if p \<noteq> 0 then mpsearch1 m p 1024
               else mpsearch1 m ((push_bit 8 (b 0x14) OR b 0x13) * 1024 - 1024) 1024) of
           Some mp \<Rightarrow> Some mp
         | None \<Rightarrow> mpsearch1 m 0xF0000 0x10000)"

text \<open>\<open>mpconfig\<close>: the floating pointer structure and the configuration table.\<close>

definition mpconfig :: "mem \<Rightarrow> (uint \<times> uint) option" where
  "mpconfig m =
     (case mpsearch m of
        None \<Rightarrow> None
      | Some mp \<Rightarrow>
          if mp_physaddr m mp = 0 then None
          else let conf = P2V (mp_physaddr m mp) in
            if \<not> signed_as m conf ''PCMP'' then None
            else if conf_version m conf \<noteq> 1 \<and> conf_version m conf \<noteq> 4 then None
            else if mp_sum m conf (unat (conf_length m conf)) \<noteq> 0 then None
            else Some (mp, conf))"

subsection \<open>mpinit\<close>

record mpinfo =
  mi_cpus :: "uchar list"
  mi_ioapic :: uchar
  mi_ismp :: bool

text \<open>The body of the loop: the next entry's address and what is known then.\<close>

definition mp_entry :: "mem \<Rightarrow> uint \<Rightarrow> mpinfo \<Rightarrow> uint \<times> mpinfo" where
  "mp_entry m p i =
     (let t = byte_at m p in
      if t = MPPROC then
        (p + MPPROC_SIZE, if length (mi_cpus i) < NCPU then i\<lparr>mi_cpus := mi_cpus i @ [byte_at m (p + 1)]\<rparr> else i)
      else if t = MPIOAPIC then (p + MPIOAPIC_SIZE, i\<lparr>mi_ioapic := byte_at m (p + 1)\<rparr>)
      else if t = MPBUS \<or> t = MPIOINTR \<or> t = MPLINTR then (p + 8, i)
      else (p, i\<lparr>mi_ismp := False\<rparr>))"

partial_function (option) mpinit_loop :: "mem \<Rightarrow> uint \<Rightarrow> uint \<Rightarrow> mpinfo \<Rightarrow> mpinfo option" where
  "mpinit_loop m e p i =
     (if p < e then mpinit_loop m e (fst (mp_entry m p i)) (snd (mp_entry m p i)) else Some i)"

text \<open>\<open>imcr\<close>: what port 0x23 holds.\<close>

definition mpinit :: "uchar \<Rightarrow> ('z, unit) bootop" where
  "mpinit imcr = bind (reads (\<lambda>s. mpconfig (kmem s))) (\<lambda>found.
     case found of
       None \<Rightarrow> panic ''Expect to run on an SMP''
     | Some (mp, conf) \<Rightarrow>
         bind (modify (\<lambda>s. s\<lparr>lapic_base := conf_lapicaddr (kmem s) conf, lapic := conf_lapicaddr (kmem s) conf \<noteq> 0\<rparr>)) (\<lambda>_.
         bind (reads (\<lambda>s. mpinit_loop (kmem s) (conf + conf_length (kmem s) conf) (conf + MPCONF_SIZE)
           \<lparr>mi_cpus = cpu_ids s, mi_ioapic = ioapic_id s, mi_ismp = True\<rparr>)) (\<lambda>r.
         case r of
           None \<Rightarrow> spins
         | Some i \<Rightarrow>
             bind (modify (\<lambda>s. s\<lparr>cpu_ids := mi_cpus i, ioapic_id := mi_ioapic i\<rparr>)) (\<lambda>_.
             bind (panic_if (\<not> mi_ismp i) ''Didn't find a suitable machine'') (\<lambda>_.
             bind (reads (\<lambda>s. mp_imcrp (kmem s) mp)) (\<lambda>imcrp.
             whenM (imcrp \<noteq> 0) (dev_writes [Outb 0x22 0x70, Outb 0x23 (imcr OR 1)])))))))"

subsection \<open>cpuid and mycpu, proc.c\<close>

text \<open>The index in \<open>cpus\<close> of the CPU with local APIC \<open>apic\<close>; \<open>intr\<close>: interrupts are enabled.\<close>

definition mycpu :: "bool \<Rightarrow> uint \<Rightarrow> ('z, nat) bootop" where
  "mycpu intr apic = bind (panic_if intr (''mycpu called with interrupts enabled'' @ [CHR 0x0A])) (\<lambda>_.
     bind (reads cpu_ids) (\<lambda>ids.
     case find (\<lambda>i. ucast (ids ! i) = apic) [0..<length ids] of
       Some i \<Rightarrow> ret i
     | None \<Rightarrow> panic (''unknown apicid'' @ [CHR 0x0A])))"

end
