(* ===== verification/Mp_Claims.thy ===== *)
theory Mp_Claims
  imports Mp Console_Claims
begin

text \<open>
  The tables of the machine's processors: \<open>mpinit\<close> finds the CPUs that they list, and never ends on
  an entry it does not know.
\<close>

subsection \<open>Configuration tables\<close>

datatype mpentry = Processor uchar | IoApic uchar | OtherEntry uchar

fun entry_size :: "mpentry \<Rightarrow> nat" where
  "entry_size (Processor a) = 20"
| "entry_size (IoApic a) = 8"
| "entry_size (OtherEntry t) = 8"

fun entry_at :: "mem \<Rightarrow> uint \<Rightarrow> mpentry \<Rightarrow> bool" where
  "entry_at m p (Processor a) \<longleftrightarrow> byte_at m p = MPPROC \<and> byte_at m (p + 1) = a"
| "entry_at m p (IoApic a) \<longleftrightarrow> byte_at m p = MPIOAPIC \<and> byte_at m (p + 1) = a"
| "entry_at m p (OtherEntry t) \<longleftrightarrow> byte_at m p = t \<and> t \<in> {MPBUS, MPIOINTR, MPLINTR}"

text \<open>The entries \<open>es\<close> stand one behind the other from \<open>p\<close> on.\<close>

primrec entries_at :: "mem \<Rightarrow> uint \<Rightarrow> mpentry list \<Rightarrow> bool" where
  "entries_at m p [] \<longleftrightarrow> True"
| "entries_at m p (e # es) \<longleftrightarrow> entry_at m p e \<and> entries_at m (p + word_of_nat (entry_size e)) es"

definition entries_size :: "mpentry list \<Rightarrow> nat" where
  "entries_size es = sum_list (map entry_size es)"

fun processors :: "mpentry list \<Rightarrow> uchar list" where
  "processors [] = []"
| "processors (Processor a # es) = a # processors es"
| "processors (_ # es) = processors es"

fun last_ioapic :: "uchar \<Rightarrow> mpentry list \<Rightarrow> uchar" where
  "last_ioapic a [] = a"
| "last_ioapic a (IoApic b # es) = last_ioapic b es"
| "last_ioapic a (_ # es) = last_ioapic a es"

lemma mp_types [simp]:
  "MPPROC \<noteq> MPIOAPIC" "MPBUS \<noteq> MPPROC" "MPBUS \<noteq> MPIOAPIC" "MPIOINTR \<noteq> MPPROC" "MPIOINTR \<noteq> MPIOAPIC"
  "MPLINTR \<noteq> MPPROC" "MPLINTR \<noteq> MPIOAPIC"
  by (simp_all add: MPPROC_def MPIOAPIC_def MPBUS_def MPIOINTR_def MPLINTR_def)

lemmas mp_types_sym [simp] = mp_types [symmetric]

lemma unat_plus_nat:
  "unat p + k < 2 ^ 32 \<Longrightarrow> unat ((p :: uint) + word_of_nat k) = unat p + k"
  by (simp add: unat_word_ariths unat_of_nat32)

lemma mp_entry_at:
  assumes "entry_at m p e" and "length (mi_cpus i) \<le> NCPU"
  shows "mp_entry m p i = (p + word_of_nat (entry_size e),
    i\<lparr>mi_cpus := take NCPU (mi_cpus i @ processors [e]), mi_ioapic := last_ioapic (mi_ioapic i) [e]\<rparr>)"
  using assms
  by (cases e) (auto simp: mp_entry_def Let_def MPPROC_SIZE_def MPIOAPIC_SIZE_def)

lemma entries_size_Cons [simp]: "entries_size (e # es) = entry_size e + entries_size es"
  by (simp add: entries_size_def)

lemma entry_size_pos: "0 < entry_size e"
  by (cases e) simp_all

lemma processors_append: "processors (es @ fs) = processors es @ processors fs"
  by (induction es rule: processors.induct) simp_all

text \<open>The loop runs over the entries, and stops behind the last one.\<close>

lemma mpinit_loop_entries:
  assumes "entries_at m p es" and "unat p + entries_size es < 2 ^ 32" and "length (mi_cpus i) \<le> NCPU"
    and "unat p + entries_size es \<le> unat e"
  shows "mpinit_loop m e p i = mpinit_loop m e (p + word_of_nat (entries_size es))
    (i\<lparr>mi_cpus := take NCPU (mi_cpus i @ processors es), mi_ioapic := last_ioapic (mi_ioapic i) es\<rparr>)"
  using assms
proof (induction es arbitrary: p i)
  case Nil
  then show ?case by (simp add: entries_size_def)
next
  case (Cons x es)
  let ?p = "p + word_of_nat (entry_size x)"
  let ?i = "i\<lparr>mi_cpus := take NCPU (mi_cpus i @ processors [x]), mi_ioapic := last_ioapic (mi_ioapic i) [x]\<rparr>"
  have "unat ?p = unat p + entry_size x"
    using Cons.prems(2) by (intro unat_plus_nat) simp
  have "p < e" using Cons.prems(4) entry_size_pos [of x] by (simp add: word_less_nat_alt)
  then have "mpinit_loop m e p i = mpinit_loop m e ?p ?i"
    using mp_entry_at [of m p x i] Cons.prems(1,3) by (subst mpinit_loop.simps) simp
  also have "\<dots> = mpinit_loop m e (?p + word_of_nat (entries_size es))
    (?i\<lparr>mi_cpus := take NCPU (mi_cpus ?i @ processors es), mi_ioapic := last_ioapic (mi_ioapic ?i) es\<rparr>)"
    using Cons.prems \<open>unat ?p = _\<close> by (intro Cons.IH) simp_all
  also have "?p + word_of_nat (entries_size es) = p + word_of_nat (entries_size (x # es))" by simp
  also have "?i\<lparr>mi_cpus := take NCPU (mi_cpus ?i @ processors es), mi_ioapic := last_ioapic (mi_ioapic ?i) es\<rparr> =
    i\<lparr>mi_cpus := take NCPU (mi_cpus i @ processors (x # es)), mi_ioapic := last_ioapic (mi_ioapic i) (x # es)\<rparr>"
    using processors_append [of "[x]" es] Cons.prems(3) by (cases x) (simp_all add: min_def take_Cons')
  finally show ?case .
qed

lemma mpinit_loop_unknown:
  assumes "p < e" and "byte_at m p > MPLINTR"
  shows "mpinit_loop m e p i = None"
proof -
  have "\<not> (p < e \<and> byte_at m p > MPLINTR)" if "mpinit_loop m e p i = Some r" for p i r
  proof (rule mpinit_loop.raw_induct [where P = "\<lambda>m e p i r. \<not> (p < e \<and> byte_at m p > MPLINTR)", OF _ that])
    fix f :: "mem \<Rightarrow> uint \<Rightarrow> uint \<Rightarrow> mpinfo \<Rightarrow> mpinfo option" and m e p i r
    assume IH: "\<And>m e p i r. f m e p i = Some r \<Longrightarrow> \<not> (p < e \<and> byte_at m p > MPLINTR)"
      and run: "(if p < e then f m e (fst (mp_entry m p i)) (snd (mp_entry m p i)) else Some i) = Some r"
    have "mp_entry m p i = (p, i\<lparr>mi_ismp := False\<rparr>)" if "byte_at m p > MPLINTR"
      using that by (auto simp: mp_entry_def Let_def MPPROC_def MPIOAPIC_def MPBUS_def MPIOINTR_def MPLINTR_def
          word_less_nat_alt)
    then show "\<not> (p < e \<and> byte_at m p > MPLINTR)" using IH run by fastforce
  qed
  then show ?thesis using assms by (cases "mpinit_loop m e p i") auto
qed

text \<open>C31: The processors are found. When the BIOS left a table whose entries are \<open>es\<close>, \<open>mpinit\<close> returns with
  the local APICs of the first \<open>NCPU\<close> processors of the table in the table's order, the I/O APIC of
  its last such entry and the address of the local APIC, and changes nothing else but the interrupt
  mode register. An entry of an unknown kind behind them makes it run forever, so that its panic
  for unsuitable machines is never reached.\<close>

theorem mpinit_reads_table:
  assumes "mpconfig (kmem s) = Some (mp, conf)" and "cpu_ids s = []"
    and "entries_at (kmem s) (conf + MPCONF_SIZE) es"
    and "unat conf + unat (conf_length (kmem s) conf) < 2 ^ 32"
    and "44 + entries_size es = unat (conf_length (kmem s) conf) \<or>
      44 + entries_size es < unat (conf_length (kmem s) conf)
        \<and> byte_at (kmem s) (conf + MPCONF_SIZE + word_of_nat (entries_size es)) > MPLINTR"
  shows "mpinit imcr s =
    (if 44 + entries_size es < unat (conf_length (kmem s) conf) then Spins
     else Ok () (s\<lparr>cpu_ids := take NCPU (processors es), ioapic_id := last_ioapic (ioapic_id s) es,
       lapic_base := conf_lapicaddr (kmem s) conf, lapic := conf_lapicaddr (kmem s) conf \<noteq> 0,
       dev_out := dev_out s @ (if mp_imcrp (kmem s) mp = 0 then [] else [Outb 0x22 0x70, Outb 0x23 (imcr OR 1)])\<rparr>))"
proof -
  let ?m = "kmem s" and ?p = "conf + MPCONF_SIZE" and ?e = "conf + conf_length (kmem s) conf"
  let ?i = "\<lparr>mi_cpus = [], mi_ioapic = ioapic_id s, mi_ismp = True\<rparr>"
  let ?j = "\<lparr>mi_cpus = take NCPU (processors es), mi_ioapic = last_ioapic (ioapic_id s) es, mi_ismp = True\<rparr>"
  let ?q = "?p + word_of_nat (entries_size es)"
  have size: "44 + entries_size es \<le> unat (conf_length ?m conf)" using assms(5) by auto
  have e: "unat ?e = unat conf + unat (conf_length ?m conf)"
    using unat_plus_nat [of conf "unat (conf_length ?m conf)"] assms(4) by simp
  have p: "unat ?p = unat conf + 44"
    using unat_plus_nat [of conf 44] assms(4) size by (simp add: MPCONF_SIZE_def)
  have q: "unat ?q = unat conf + 44 + entries_size es"
    using unat_plus_nat [of ?p "entries_size es"] assms(4) size p by simp
  have "mpinit_loop ?m ?e ?p ?i = mpinit_loop ?m ?e ?q ?j"
    using mpinit_loop_entries [OF assms(3), of ?i ?e] assms(4) size p e by simp
  also have "\<dots> = (if 44 + entries_size es < unat (conf_length ?m conf) then None else Some ?j)"
  proof (cases "44 + entries_size es < unat (conf_length ?m conf)")
    case True
    then show ?thesis using assms(5) q e by (simp add: mpinit_loop_unknown word_less_nat_alt)
  next
    case False
    then have "\<not> ?q < ?e" using q e by (simp add: word_less_nat_alt)
    then show ?thesis using False by (subst mpinit_loop.simps) simp
  qed
  finally have "mpinit_loop ?m ?e ?p ?i = (if 44 + entries_size es < unat (conf_length ?m conf) then None else Some ?j)" .
  then show ?thesis using assms(1,2) by (simp add: mpinit_def dev_writes_def)
qed

subsection \<open>A machine with two processors\<close>

definition bios_ebda :: bytes where "bios_ebda = [0xC0, 0x9F]"

definition bios_mp :: bytes where
  "bios_mp = [0x5F, 0x4D, 0x50, 0x5F, 0, 0x90, 0, 0, 1, 4, 0x0F, 0, 1, 0, 0, 0]"

definition bios_conf :: bytes where
  "bios_conf = [0x50, 0x43, 0x4D, 0x50, 92, 0, 4, 0x8D] @ replicate 28 0 @ [0, 0, 0xE0, 0xFE] @ replicate 4 0
     @ [0, 0] @ replicate 18 0 @ [0, 1] @ replicate 18 0 @ [2, 2] @ replicate 6 0"

definition bios :: mem where
  "bios a = (if 0x8000040E \<le> a \<and> a < 0x80000410 then bios_ebda ! (a - 0x8000040E)
     else if 0x8009FC00 \<le> a \<and> a < 0x8009FC10 then bios_mp ! (a - 0x8009FC00)
     else if 0x80009000 \<le> a \<and> a < 0x8000905C then bios_conf ! (a - 0x80009000) else 0)"

lemma bios_bytes:
  "i < 2 \<Longrightarrow> byte_at bios (0x8000040E + word_of_nat i) = bios_ebda ! i"
  "i < 16 \<Longrightarrow> byte_at bios (0x8009FC00 + word_of_nat i) = bios_mp ! i"
  "i < 92 \<Longrightarrow> byte_at bios (0x80009000 + word_of_nat i) = bios_conf ! i"
  by (simp_all add: byte_at_def unat_plus_nat bios_def)

lemma mp_sum_list: "mp_sum m a n = sum_list (map (\<lambda>i. byte_at m (a + word_of_nat i)) [0..<n])"
proof -
  have "word_of_int (fold (\<lambda>i s. s + uint (f i)) xs k) = (word_of_int k :: uchar) + sum_list (map f xs)"
    for f :: "nat \<Rightarrow> uchar" and xs k
    by (induction xs arbitrary: k) (simp_all add: add.assoc)
  from this [of "\<lambda>i. byte_at m (a + word_of_nat i)" "[0..<n]" 0] show ?thesis by (simp add: mp_sum_def)
qed

lemma bios_length: "length bios_mp = 16" "length bios_conf = 92"
  by (simp_all add: bios_mp_def bios_conf_def)

lemma bios_sums: "mp_sum bios 0x8009FC00 16 = 0" "mp_sum bios 0x80009000 92 = 0"
proof -
  have "map (\<lambda>i. byte_at bios (0x8009FC00 + word_of_nat i)) [0..<length bios_mp] = bios_mp"
    by (rule trans [OF _ map_nth]) (simp add: bios_bytes bios_length)
  then have "mp_sum bios 0x8009FC00 16 = sum_list bios_mp" by (simp add: mp_sum_list bios_length)
  also have "\<dots> = 0" by (simp add: bios_mp_def)
  finally show "mp_sum bios 0x8009FC00 16 = 0" .
  have "map (\<lambda>i. byte_at bios (0x80009000 + word_of_nat i)) [0..<length bios_conf] = bios_conf"
    by (rule trans [OF _ map_nth]) (simp add: bios_bytes bios_length)
  then have "mp_sum bios 0x80009000 92 = sum_list bios_conf" by (simp add: mp_sum_list bios_length)
  also have "\<dots> = 0" by (simp add: bios_conf_def sum_list_replicate)
  finally show "mp_sum bios 0x80009000 92 = 0" .
qed

lemma bios_conf_nth: "k < 8 \<Longrightarrow> bios_conf ! k = [0x50, 0x43, 0x4D, 0x50, 92, 0, 4, 0x8D] ! k"
  unfolding bios_conf_def by (subst nth_append) simp

lemma bios_config: "mpconfig bios = Some (0x8009FC00, 0x80009000)"
proof -
  have ebda: "byte_at bios 0x8000040E = 0xC0" "byte_at bios 0x8000040F = 0x9F"
    using bios_bytes(1) [of 0] bios_bytes(1) [of 1] by (simp_all add: bios_ebda_def)
  have mp: "byte_at bios 0x8009FC00 = 0x5F" "byte_at bios 0x8009FC01 = 0x4D" "byte_at bios 0x8009FC02 = 0x50"
    "byte_at bios 0x8009FC03 = 0x5F"
    by (simp_all add: byte_at_def bios_def bios_mp_def)
  have "signed_as bios 0x8009FC00 ''_MP_''" by (simp add: signed_as_def mp upt_rec of_char_def)
  moreover have "[0..<64] = 0 # [1..<64]" by (simp add: upt_rec)
  ultimately have search: "mpsearch1 bios 0x9FC00 1024 = Some 0x8009FC00"
    by (simp add: mpsearch1_def P2V_def KERNBASE_def MP_SIZE_def bios_sums)
  have "push_bit 4 (push_bit 8 0x9F OR 0xC0) = (0x9FC00 :: uint)" by simp
  then have mpsearch: "mpsearch bios = Some 0x8009FC00"
    by (simp add: mpsearch_def Let_def ebda search P2V_def KERNBASE_def)
  have phys: "mp_physaddr bios 0x8009FC00 = 0x9000"
    by (simp add: mp_physaddr_def load32_def bios_def bios_mp_def)
  have conf: "byte_at bios (0x80009000 + word_of_nat k) = [0x50, 0x43, 0x4D, 0x50, 92, 0, 4, 0x8D] ! k" if "k < 8" for k
    using bios_bytes(3) [of k] bios_conf_nth [OF that] that by simp
  have "signed_as bios 0x80009000 ''PCMP''"
    using conf [of 0] conf [of 1] conf [of 2] conf [of 3] by (simp add: signed_as_def upt_rec of_char_def)
  moreover have "conf_version bios 0x80009000 = 4" using conf [of 6] by (simp add: conf_version_def)
  moreover have "conf_length bios 0x80009000 = 92"
    using conf [of 4] conf [of 5] by (simp add: conf_length_def)
  ultimately show ?thesis
    by (simp add: mpconfig_def mpsearch phys P2V_def KERNBASE_def Let_def bios_sums)
qed

definition two_cpus :: bootstate where
  "two_cpus = tstate.extend (cstate.extend ((some_console [])\<lparr>kmem := bios\<rparr>) (tstate.fields False 0))
     (bootstate.fields [] 0 0 [] (\<lambda>_ _. None) [] [] [])"

lemma two_cpus_sel [simp]:
  "kmem two_cpus = bios" "cpu_ids two_cpus = []" "ioapic_id two_cpus = 0" "dev_out two_cpus = []"
  by (simp_all add: two_cpus_def cstate.defs tstate.defs bootstate.defs)

theorem mpinit_reads_table_witness:
  "mpinit 0 two_cpus = Ok () (two_cpus\<lparr>cpu_ids := [0, 1], ioapic_id := 2, lapic_base := 0xFEE00000, lapic := True,
     dev_out := [Outb 0x22 0x70, Outb 0x23 1]\<rparr>)"
proof -
  let ?es = "[Processor 0, Processor 1, IoApic 2]"
  have b: "byte_at bios 0x8000902C = 0" "byte_at bios 0x8000902D = 0" "byte_at bios 0x80009040 = 0"
    "byte_at bios 0x80009041 = 1" "byte_at bios 0x80009054 = 2" "byte_at bios 0x80009055 = 2"
    "byte_at bios 0x80009004 = 92" "byte_at bios 0x80009005 = 0"
    by (simp_all add: byte_at_def bios_def bios_conf_def nth_append)
  then have len: "conf_length bios 0x80009000 = 92" by (simp add: conf_length_def)
  have "entries_at bios (0x80009000 + MPCONF_SIZE) ?es"
    by (simp add: MPCONF_SIZE_def b MPPROC_def MPIOAPIC_def)
  moreover have "44 + entries_size ?es = unat (conf_length bios 0x80009000)"
    by (simp add: len entries_size_def)
  moreover have "conf_lapicaddr bios 0x80009000 = 0xFEE00000" "mp_imcrp bios 0x8009FC00 = 1"
    by (simp_all add: conf_lapicaddr_def mp_imcrp_def byte_at_def load32_def bios_def bios_conf_def bios_mp_def nth_append)
  ultimately show ?thesis
    using mpinit_reads_table [of two_cpus "0x8009FC00" "0x80009000" ?es 0] bios_config len
    by (simp add: NCPU_def)
qed

subsection \<open>Which processor this is\<close>

lemma ucast_byte_inj: "(ucast (x :: uchar) :: uint) = ucast y \<longleftrightarrow> x = y"
proof -
  have "ucast (ucast z :: uint) = z" for z :: uchar by (rule ucast_up_ucast_id) (simp add: is_up)
  then show ?thesis by metis
qed

lemma mycpu_finds:
  assumes "k < length (cpu_ids s)" and "distinct (cpu_ids s)"
  shows "mycpu False (ucast (cpu_ids s ! k)) s = Ok k s"
proof -
  have "find (\<lambda>i. (ucast (cpu_ids s ! i) :: uint) = ucast (cpu_ids s ! k)) [0..<length (cpu_ids s)] = Some k"
    unfolding find_Some_iff
    using assms by (intro exI [of _ k]) (auto simp: nth_eq_iff_index_eq ucast_byte_inj)
  then show ?thesis by (simp add: mycpu_def)
qed

end
