(* ===== verification/Lapic.thy ===== *)
theory Lapic
  imports Mp
begin

text \<open>
  The interrupt controllers, lapic.c, ioapic.c and picirq.c, the set-up of the serial port, uart.c, and
  the real-time clock.  What the code writes to a device is appended to \<open>dev_out\<close>; what it reads from
  one is an argument.
\<close>

subsection \<open>lapic.c\<close>

definition LAPIC_TPR :: nat where "LAPIC_TPR = 0x0080 div 4"
definition LAPIC_EOI :: nat where "LAPIC_EOI = 0x00B0 div 4"
definition LAPIC_SVR :: nat where "LAPIC_SVR = 0x00F0 div 4"
definition LAPIC_ESR :: nat where "LAPIC_ESR = 0x0280 div 4"
definition ICRLO :: nat where "ICRLO = 0x0300 div 4"
definition ICRHI :: nat where "ICRHI = 0x0310 div 4"
definition LAPIC_TIMER :: nat where "LAPIC_TIMER = 0x0320 div 4"
definition LAPIC_PCINT :: nat where "LAPIC_PCINT = 0x0340 div 4"
definition LAPIC_LINT0 :: nat where "LAPIC_LINT0 = 0x0350 div 4"
definition LAPIC_LINT1 :: nat where "LAPIC_LINT1 = 0x0360 div 4"
definition LAPIC_ERROR :: nat where "LAPIC_ERROR = 0x0370 div 4"
definition LAPIC_TICR :: nat where "LAPIC_TICR = 0x0380 div 4"
definition LAPIC_TDCR :: nat where "LAPIC_TDCR = 0x03E0 div 4"

definition LAPIC_ENABLE :: uint where "LAPIC_ENABLE = 0x100"
definition ICR_INIT :: uint where "ICR_INIT = 0x500"
definition ICR_STARTUP :: uint where "ICR_STARTUP = 0x600"
definition ICR_ASSERT :: uint where "ICR_ASSERT = 0x4000"
definition ICR_LEVEL :: uint where "ICR_LEVEL = 0x8000"
definition ICR_BCAST :: uint where "ICR_BCAST = 0x80000"
definition TIMER_X1 :: uint where "TIMER_X1 = 0xB"
definition TIMER_PERIODIC :: uint where "TIMER_PERIODIC = 0x20000"
definition LVT_MASKED :: uint where "LVT_MASKED = 0x10000"
definition IRQ_ERROR :: uint where "IRQ_ERROR = 19"

definition lapicw :: "nat \<Rightarrow> uint \<Rightarrow> ('z, unit) bootop" where
  "lapicw index val = dev_writes [Lapicw index val]"

text \<open>\<open>ver\<close>: the version register.  The wait for the delivery status ends when the hardware is done.\<close>

definition lapicinit :: "uint \<Rightarrow> ('z, unit) bootop" where
  "lapicinit ver = bind (reads lapic) (\<lambda>there.
     whenM there (
       bind (lapicw LAPIC_SVR (LAPIC_ENABLE OR (T_IRQ0 + IRQ_SPURIOUS))) (\<lambda>_.
       bind (lapicw LAPIC_TDCR TIMER_X1) (\<lambda>_.
       bind (lapicw LAPIC_TIMER (TIMER_PERIODIC OR (T_IRQ0 + IRQ_TIMER))) (\<lambda>_.
       bind (lapicw LAPIC_TICR 10000000) (\<lambda>_.
       bind (lapicw LAPIC_LINT0 LVT_MASKED) (\<lambda>_.
       bind (lapicw LAPIC_LINT1 LVT_MASKED) (\<lambda>_.
       bind (whenM (drop_bit 16 ver AND 0xFF \<ge> 4) (lapicw LAPIC_PCINT LVT_MASKED)) (\<lambda>_.
       bind (lapicw LAPIC_ERROR (T_IRQ0 + IRQ_ERROR)) (\<lambda>_.
       bind (lapicw LAPIC_ESR 0) (\<lambda>_.
       bind (lapicw LAPIC_ESR 0) (\<lambda>_.
       bind (lapicw LAPIC_EOI 0) (\<lambda>_.
       bind (lapicw ICRHI 0) (\<lambda>_.
       bind (lapicw ICRLO (ICR_BCAST OR ICR_INIT OR ICR_LEVEL)) (\<lambda>_.
       lapicw LAPIC_TPR 0)))))))))))))))"

text \<open>\<open>idreg\<close>: the identification register.\<close>

definition lapicid :: "uint \<Rightarrow> 'z bootstate_scheme \<Rightarrow> uint" where
  "lapicid idreg s = (if lapic s then drop_bit 24 idreg else 0)"

definition store16 :: "nat \<Rightarrow> ushort \<Rightarrow> mem \<Rightarrow> mem" where
  "store16 a w m = m(a := ucast w, a + 1 := ucast (drop_bit 8 w))"

definition CMOS_PORT :: nat where "CMOS_PORT = 0x70"

definition lapicstartap :: "uchar \<Rightarrow> uint \<Rightarrow> ('z, unit) bootop" where
  "lapicstartap apicid addr =
     (let wrv = unat (P2V (push_bit 4 0x40 OR 0x67)) in
      bind (dev_writes [Outb CMOS_PORT 0xF, Outb (CMOS_PORT + 1) 0x0A]) (\<lambda>_.
      bind (modify (\<lambda>s. s\<lparr>kmem := store16 (wrv + 2) (ucast (drop_bit 4 addr)) (store16 wrv 0 (kmem s))\<rparr>)) (\<lambda>_.
      bind (lapicw ICRHI (push_bit 24 (ucast apicid))) (\<lambda>_.
      bind (lapicw ICRLO (ICR_INIT OR ICR_LEVEL OR ICR_ASSERT)) (\<lambda>_.
      bind (lapicw ICRLO (ICR_INIT OR ICR_LEVEL)) (\<lambda>_.
      bind (for_each [0..<2] (\<lambda>i :: nat.
        bind (lapicw ICRHI (push_bit 24 (ucast apicid))) (\<lambda>_.
        bind (lapicw ICRLO (ICR_STARTUP OR drop_bit 12 addr)) (\<lambda>_.
        ret (None :: unit option))))) (\<lambda>_.
      ret ())))))))"

subsection \<open>The clock: cmos_read, fill_rtcdate and cmostime\<close>

record rtcdate =
  rtc_second :: uint
  rtc_minute :: uint
  rtc_hour :: uint
  rtc_day :: uint
  rtc_month :: uint
  rtc_year :: uint

text \<open>One read of the clock's registers by \<open>fill_rtcdate\<close>: \<open>reg\<close> is what \<open>cmos_read\<close> gets for a register.\<close>

definition fill_rtcdate :: "(uint \<Rightarrow> uchar) \<Rightarrow> rtcdate" where
  "fill_rtcdate reg = \<lparr>rtc_second = ucast (reg 0x00), rtc_minute = ucast (reg 0x02), rtc_hour = ucast (reg 0x04),
     rtc_day = ucast (reg 0x07), rtc_month = ucast (reg 0x08), rtc_year = ucast (reg 0x09)\<rparr>"

text \<open>
  The loop of \<open>cmostime\<close> over the states that the clock's registers have while it runs, two for each
  round; \<open>None\<close> as long as it goes on.
\<close>

definition CMOS_STATA :: uint where "CMOS_STATA = 0x0a"
definition CMOS_STATB :: uint where "CMOS_STATB = 0x0b"
definition CMOS_UIP :: uchar where "CMOS_UIP = 0x80"

fun cmos_settle :: "((uint \<Rightarrow> uchar) \<times> (uint \<Rightarrow> uchar)) list \<Rightarrow> rtcdate option" where
  "cmos_settle [] = None"
| "cmos_settle ((reg1, reg2) # rest) =
     (if reg1 CMOS_STATA AND CMOS_UIP \<noteq> 0 then cmos_settle rest
      else if fill_rtcdate reg1 = fill_rtcdate reg2 then Some (fill_rtcdate reg1)
      else cmos_settle rest)"

definition CONV :: "uint \<Rightarrow> uint" where
  "CONV x = drop_bit 4 x * 10 + (x AND 0xf)"

definition cmostime :: "uchar \<Rightarrow> ((uint \<Rightarrow> uchar) \<times> (uint \<Rightarrow> uchar)) list \<Rightarrow> rtcdate option" where
  "cmostime statb regs =
     (let bcd = (statb AND 4 = 0);
          conv = (\<lambda>x. if bcd then CONV x else x)
      in map_option (\<lambda>t. \<lparr>rtc_second = conv (rtc_second t), rtc_minute = conv (rtc_minute t),
           rtc_hour = conv (rtc_hour t), rtc_day = conv (rtc_day t), rtc_month = conv (rtc_month t),
           rtc_year = conv (rtc_year t) + 2000\<rparr>) (cmos_settle regs))"

subsection \<open>ioapic.c\<close>

definition REG_TABLE :: nat where "REG_TABLE = 0x10"
definition INT_DISABLED :: uint where "INT_DISABLED = 0x10000"

definition ioapicwrite :: "nat \<Rightarrow> uint \<Rightarrow> ('z, unit) bootop" where
  "ioapicwrite reg data = dev_writes [Ioapicw reg data]"

text \<open>\<open>ver\<close> and \<open>idreg\<close>: the registers \<open>REG_VER\<close> and \<open>REG_ID\<close>.\<close>

definition ioapicinit :: "uint \<Rightarrow> uint \<Rightarrow> ('z, unit) bootop" where
  "ioapicinit ver idreg =
     (let maxintr = unat (drop_bit 16 ver AND 0xFF); i = drop_bit 24 idreg in
      bind (reads ioapic_id) (\<lambda>expected.
      bind (whenM (i \<noteq> ucast expected)
        (cprintf (Some (ascii ''ioapicinit: id isn't equal to ioapicid; not a MP'' @ [10])) [])) (\<lambda>_.
      bind (for_each [0..<Suc maxintr] (\<lambda>k.
        bind (ioapicwrite (REG_TABLE + 2 * k) (INT_DISABLED OR (T_IRQ0 + word_of_nat k))) (\<lambda>_.
        bind (ioapicwrite (REG_TABLE + 2 * k + 1) 0) (\<lambda>_.
        ret (None :: unit option))))) (\<lambda>_.
      ret ()))))"

definition ioapicenable :: "uint \<Rightarrow> nat \<Rightarrow> ('z, unit) bootop" where
  "ioapicenable irq cpunum =
     bind (ioapicwrite (REG_TABLE + 2 * unat irq) (T_IRQ0 + irq)) (\<lambda>_.
     ioapicwrite (REG_TABLE + 2 * unat irq + 1) (push_bit 24 (word_of_nat cpunum)))"

subsection \<open>picirq.c\<close>

definition picinit :: "('z, unit) bootop" where
  "picinit = dev_writes [Outb (0x20 + 1) 0xFF, Outb (0xA0 + 1) 0xFF]"

subsection \<open>uartinit, uart.c, and consoleinit, console.c\<close>

definition COM1 :: nat where "COM1 = 0x3f8"

text \<open>\<open>status\<close>: what the line status register reads first.\<close>

definition uartinit :: "uchar \<Rightarrow> ('z, unit) bootop" where
  "uartinit status =
     bind (dev_writes [Outb (COM1 + 2) 0, Outb (COM1 + 3) 0x80, Outb (COM1 + 0) (word_of_nat (115200 div 9600)), Outb (COM1 + 1) 0,
       Outb (COM1 + 3) 0x03, Outb (COM1 + 4) 0, Outb (COM1 + 1) 0x01]) (\<lambda>_.
     whenM (status \<noteq> 0xFF) (
       bind (modify (\<lambda>s. s\<lparr>uart := True\<rparr>)) (\<lambda>_.
       bind (ioapicenable IRQ_COM1 0) (\<lambda>_.
       bind (for_each (map of_char ''xv6...'' @ [10 :: int]) (\<lambda>c. bind (uartputc c) (\<lambda>_. ret (None :: unit option)))) (\<lambda>_.
       ret ())))))"

definition consoleinit :: "('z, unit) bootop" where
  "consoleinit = bind (modify (\<lambda>s. s\<lparr>cons_locking := True\<rparr>)) (\<lambda>_. ioapicenable IRQ_KBD 0)"

subsection \<open>Decimal digits of the clock\<close>

text \<open>A register that holds two decimal digits is converted to the number they stand for.\<close>

lemma CONV_digits:
  assumes "a < 10" and "b < 10"
  shows "CONV (word_of_nat (16 * a + b)) = word_of_nat (10 * a + b)"
proof -
  have "list_all (\<lambda>a. list_all (\<lambda>b. CONV (word_of_nat (16 * a + b)) = word_of_nat (10 * a + b)) [0..<10]) [0..<10]"
    by (simp add: upt_rec CONV_def)
  then show ?thesis using assms by (simp add: list_all_iff)
qed

end
