(* ===== verification/Boot.thy ===== *)
theory Boot
  imports Lapic
begin

text \<open>
  How the kernel starts, main.c, with \<open>seginit\<close> of vm.c.  The locks that the code initialises are free
  in the model's initial state, so \<open>pinit\<close> and \<open>fileinit\<close> have nothing else to do.
\<close>

subsection \<open>Segments: SEG, mmu.h, and seginit, vm.c\<close>

definition STA_X :: uint where "STA_X = 0x8"
definition STA_W :: uint where "STA_W = 0x2"
definition STA_R :: uint where "STA_R = 0x2"
definition SEG_KDATA :: uint where "SEG_KDATA = 2"

definition SEG :: "uint \<Rightarrow> uint \<Rightarrow> uint \<Rightarrow> uint \<Rightarrow> segdesc" where
  "SEG type base lim dpl =
     \<lparr>lim_15_0 = drop_bit 12 lim AND 0xffff, base_15_0 = base AND 0xffff, base_23_16 = drop_bit 16 base AND 0xff,
      sd_type = type, sd_s = 1, sd_dpl = dpl, sd_p = 1, lim_19_16 = drop_bit 28 lim, sd_avl = 0, sd_rsv1 = 0,
      sd_db = 1, sd_g = 1, base_31_24 = drop_bit 24 base\<rparr>"

definition seginit :: "uint \<Rightarrow> ('z, unit) bootop" where
  "seginit apic = bind (mycpu False apic) (\<lambda>c.
     modify (\<lambda>s. s\<lparr>gdt := (gdt s)(c := (gdt s c)
       (unat SEG_KCODE := Some (SEG (STA_X OR STA_R) 0 0xffffffff 0),
        unat SEG_KDATA := Some (SEG STA_W 0 0xffffffff 0),
        unat SEG_UCODE := Some (SEG (STA_X OR STA_R) 0 0xffffffff (ucast DPL_USER)),
        unat SEG_UDATA := Some (SEG STA_W 0 0xffffffff (ucast DPL_USER))))\<rparr>))"

subsection \<open>main.c\<close>

text \<open>What the boot processor finds: registers of the devices, the disk, and what the linker put in the kernel.\<close>

record machine =
  m_apic :: uint
  m_lapic_ver :: uint
  m_imcr :: uchar
  m_ioapic_ver :: uint
  m_ioapic_id :: uint
  m_uart_status :: uchar
  m_disk :: "bytes list"
  m_entryother :: bytes
  m_mpenter :: uint
  m_entrypgdir :: uint
  m_vectors :: "nat \<Rightarrow> uint"
  m_forkret :: uint
  m_initcode :: bytes

definition PTE_PS :: uint where "PTE_PS = 0x80"

text \<open>The page directory that \<open>entry.S\<close> loads.\<close>

definition entrypgdir :: "uint list" where
  "entrypgdir = (replicate NPDENTRIES 0)
     [0 := 0 OR PTE_P OR PTE_W OR PTE_PS, unat (drop_bit 22 KERNBASE) := 0 OR PTE_P OR PTE_W OR PTE_PS]"

text \<open>\<open>startothers\<close>; the wait for a CPU ends when it has set \<open>started\<close>.\<close>

definition start_cpu :: "machine \<Rightarrow> uint \<Rightarrow> nat \<Rightarrow> ('z, unit) bootop" where
  "start_cpu mach code i =
     bind kalloc (\<lambda>stack.
     bind (modify (store_at (code - 4) (stack + word_of_nat KSTACKSIZE))) (\<lambda>_.
     bind (modify (store_at (code - 8) (m_mpenter mach))) (\<lambda>_.
     bind (modify (store_at (code - 12) (V2P (m_entrypgdir mach)))) (\<lambda>_.
     bind (reads (\<lambda>s. cpu_ids s ! i)) (\<lambda>apicid.
     lapicstartap apicid (V2P code))))))"

definition startothers :: "machine \<Rightarrow> ('z, unit) bootop" where
  "startothers mach =
     (let code = P2V 0x7000 in
      bind (modify (store_bytes code (m_entryother mach))) (\<lambda>_.
      bind (reads (\<lambda>s. length (cpu_ids s))) (\<lambda>n.
      bind (for_each [0..<n] (\<lambda>i.
        bind (mycpu False (m_apic mach)) (\<lambda>me.
        bind (whenM (i \<noteq> me) (start_cpu mach code i)) (\<lambda>_.
        ret (None :: unit option))))) (\<lambda>_.
      ret ()))))"

text \<open>\<open>mpmain\<close>, up to the scheduler's loop.\<close>

definition mpmain :: "machine \<Rightarrow> ('z, unit) bootop" where
  "mpmain mach =
     bind (mycpu False (m_apic mach)) (\<lambda>c.
     bind (cprintf (Some (ascii ''cpu%d: starting %d'' @ [10])) [Word (word_of_nat c), Word (word_of_nat c)]) (\<lambda>_.
     bind (modify (\<lambda>s. s\<lparr>idt_loaded := c # idt_loaded s\<rparr>)) (\<lambda>_.
     bind (modify (\<lambda>s. s\<lparr>started := c # started s\<rparr>)) (\<lambda>_.
     scheduler_start))))"

definition mpenter :: "machine \<Rightarrow> ('z, unit) bootop" where
  "mpenter mach =
     bind switchkvm (\<lambda>_.
     bind (seginit (m_apic mach)) (\<lambda>_.
     bind (lapicinit (m_lapic_ver mach)) (\<lambda>_.
     mpmain mach)))"

definition kmain :: "'z bootstate_scheme devsw \<Rightarrow> machine \<Rightarrow> ('z, unit) bootop" where
  "kmain dsw mach =
     bind (reads k_end) (\<lambda>kend.
     bind (kinit1 kend (P2V (4 * 1024 * 1024))) (\<lambda>_.
     bind kvmalloc (\<lambda>_.
     bind (mpinit (m_imcr mach)) (\<lambda>_.
     bind (lapicinit (m_lapic_ver mach)) (\<lambda>_.
     bind (seginit (m_apic mach)) (\<lambda>_.
     bind picinit (\<lambda>_.
     bind (ioapicinit (m_ioapic_ver mach) (m_ioapic_id mach)) (\<lambda>_.
     bind consoleinit (\<lambda>_.
     bind (uartinit (m_uart_status mach)) (\<lambda>_.
     bind (modify (\<lambda>s. s\<lparr>idt := tvinit (m_vectors mach)\<rparr>)) (\<lambda>_.
     bind binit (\<lambda>_.
     bind (ideinit (m_disk mach)) (\<lambda>_.
     bind (startothers mach) (\<lambda>_.
     bind (kinit2 (P2V (4 * 1024 * 1024)) (P2V PHYSTOP)) (\<lambda>_.
     bind (userinit dsw (m_forkret mach) (m_initcode mach)) (\<lambda>_.
     mpmain mach))))))))))))))))"

end
