(* ===== verification/Bootmain.thy ===== *)
theory Bootmain
  imports Exec
begin

text \<open>
  The boot loader, bootmain.c: it reads the kernel, an ELF file that starts at sector 1 of the disk,
  into physical memory and gives its entry point.  \<open>disk n\<close> is sector \<open>n\<close>.
\<close>

definition SECTSIZE :: uint where "SECTSIZE = 512"

text \<open>What \<open>readsect\<close> sends to the ports 0x1F3 to 0x1F6, and the sector that the controller takes from them.\<close>

definition sector_ports :: "uint \<Rightarrow> uchar list" where
  "sector_ports offset = [ucast offset, ucast (drop_bit 8 offset), ucast (drop_bit 16 offset),
     ucast (drop_bit 24 offset OR 0xE0)]"

definition lba :: "uchar list \<Rightarrow> nat" where
  "lba ps = unat (ps ! 0) + 256 * unat (ps ! 1) + 65536 * unat (ps ! 2) + 16777216 * (unat (ps ! 3) mod 16)"

definition readsect :: "(nat \<Rightarrow> bytes) \<Rightarrow> uint \<Rightarrow> uint \<Rightarrow> mem \<Rightarrow> mem" where
  "readsect disk dst offset m = (\<lambda>x. if unat dst \<le> x \<and> x < unat dst + 512
     then disk (lba (sector_ports offset)) ! (x - unat dst) else m x)"

partial_function (option) readseg_loop :: "(nat \<Rightarrow> bytes) \<Rightarrow> uint \<Rightarrow> uint \<Rightarrow> uint \<Rightarrow> mem \<Rightarrow> mem option" where
  "readseg_loop disk pa epa offset m =
     (if pa < epa then readseg_loop disk (pa + SECTSIZE) epa (offset + 1) (readsect disk pa offset m) else Some m)"

definition readseg :: "(nat \<Rightarrow> bytes) \<Rightarrow> uint \<Rightarrow> uint \<Rightarrow> uint \<Rightarrow> mem \<Rightarrow> mem option" where
  "readseg disk pa count offset m =
     (let epa = pa + count; pa = pa - offset mod SECTSIZE; offset = offset div SECTSIZE + 1
      in readseg_loop disk pa epa offset m)"

text \<open>The fields of a program header in memory.\<close>

definition phdr_off :: "mem \<Rightarrow> uint \<Rightarrow> uint" where "phdr_off m ph = load32 m (unat ph + 4)"
definition phdr_paddr :: "mem \<Rightarrow> uint \<Rightarrow> uint" where "phdr_paddr m ph = load32 m (unat ph + 12)"
definition phdr_filesz :: "mem \<Rightarrow> uint \<Rightarrow> uint" where "phdr_filesz m ph = load32 m (unat ph + 16)"
definition phdr_memsz :: "mem \<Rightarrow> uint \<Rightarrow> uint" where "phdr_memsz m ph = load32 m (unat ph + 20)"

text \<open>The loop over the program headers: \<open>k\<close> are left, from \<open>ph\<close> on.\<close>

primrec boot_segments :: "(nat \<Rightarrow> bytes) \<Rightarrow> uint \<Rightarrow> nat \<Rightarrow> mem \<Rightarrow> mem option" where
  "boot_segments disk ph 0 m = Some m"
| "boot_segments disk ph (Suc k) m =
     (let pa = phdr_paddr m ph in
      case readseg disk pa (phdr_filesz m ph) (phdr_off m ph) m of
        None \<Rightarrow> None
      | Some m \<Rightarrow>
          boot_segments disk (ph + word_of_nat PROGHDR_SIZE) k
            (if phdr_memsz m ph > phdr_filesz m ph
             then stosb (unat (pa + phdr_filesz m ph)) 0 (unat (phdr_memsz m ph - phdr_filesz m ph)) m else m))"

text \<open>Its outcome: back to bootasm.S, or a jump to the kernel.\<close>

datatype boot_result = Returns mem | Jumps uint mem

definition ELF_SCRATCH :: uint where "ELF_SCRATCH = 0x10000"

definition elf_phnum :: "mem \<Rightarrow> uint \<Rightarrow> nat" where
  "elf_phnum m elf = unat (m (unat elf + 44)) + 256 * unat (m (unat elf + 45))"

definition bootmain :: "(nat \<Rightarrow> bytes) \<Rightarrow> mem \<Rightarrow> boot_result option" where
  "bootmain disk m =
     (case readseg disk ELF_SCRATCH 4096 0 m of
        None \<Rightarrow> None
      | Some m \<Rightarrow>
          if load32 m (unat ELF_SCRATCH) \<noteq> word_of_nat ELF_MAGIC then Some (Returns m)
          else (case boot_segments disk (ELF_SCRATCH + load32 m (unat ELF_SCRATCH + 28)) (elf_phnum m ELF_SCRATCH) m of
                  None \<Rightarrow> None
                | Some m \<Rightarrow> Some (Jumps (load32 m (unat ELF_SCRATCH + 24)) m)))"

subsection \<open>Reading a segment\<close>

text \<open>The kernel's file: the bytes of the disk from sector 1 on.\<close>

definition kfile :: "(nat \<Rightarrow> bytes) \<Rightarrow> nat \<Rightarrow> uchar" where
  "kfile disk i = disk (Suc (i div 512)) ! (i mod 512)"

lemma kfile_sector: "y < 512 \<Longrightarrow> 1 \<le> o' \<Longrightarrow> kfile disk (512 * (o' - 1) + y) = disk o' ! y"
  by (simp add: kfile_def)

lemma lba_sector:
  assumes "unat offset < 2 ^ 28"
  shows "lba (sector_ports offset) = unat offset"
proof -
  let ?n = "unat offset"
  have byte: "unat (ucast (drop_bit k offset) :: uchar) = ?n div 2 ^ k mod 256" for k
  proof -
    have "take_bit LENGTH(32) ?n = ?n" by (rule take_bit_nat_eq_self) (rule unsigned_less)
    then have "unat (drop_bit k offset) = ?n div 2 ^ k"
      by (subst unsigned_drop_bit_eq) (simp only: drop_bit_eq_div)
    then show ?thesis by (simp only: unsigned_ucast_eq take_bit_eq_mod) simp
  qed
  have "take_bit 4 (ucast (drop_bit 24 offset OR 0xE0) :: uchar) = take_bit 4 (ucast (drop_bit 24 offset))"
    by (rule bit_word_eqI) (auto simp: bit_simps less_Suc_eq numeral_eq_Suc)
  moreover have "unat w mod 16 = unat (take_bit 4 w)" for w :: uchar
    by (simp only: unsigned_take_bit_eq) (simp add: take_bit_eq_mod)
  ultimately have top: "unat (ucast (drop_bit 24 offset OR 0xE0) :: uchar) mod 16 = unat (ucast (drop_bit 24 offset) :: uchar) mod 16"
    by (simp only:)
  have "?n div 65536 = ?n div 256 div 256" "?n div 16777216 = ?n div 256 div 256 div 256"
    by (simp_all flip: div_mult2_eq)
  moreover have "?n div 256 div 256 div 256 < 16" using assms by (simp flip: div_mult2_eq)
  ultimately have "lba (sector_ports offset) = ?n mod 256 + 256 * (?n div 256 mod 256)
      + 65536 * (?n div 256 div 256 mod 256) + 16777216 * (?n div 256 div 256 div 256)"
    using byte [of 0] byte [of 8] byte [of 16] byte [of 24] by (simp add: lba_def sector_ports_def top)
  moreover have "k = 256 * (k div 256) + k mod 256" for k :: nat by simp
  from this [of ?n] this [of "?n div 256"] this [of "?n div 256 div 256"]
  have "?n = ?n mod 256 + 256 * (?n div 256 mod 256) + 65536 * (?n div 256 div 256 mod 256)
    + 16777216 * (?n div 256 div 256 div 256)" by linarith
  ultimately show ?thesis by linarith
qed

lemma readseg_loop_reads:
  assumes "unat epa + 512 \<le> 2 ^ 32" and "unat offset + n < 2 ^ 28" and "1 \<le> unat offset"
    and "n = (unat epa - unat pa + 511) div 512"
  shows "readseg_loop disk pa epa offset m = Some (\<lambda>x. if unat pa \<le> x \<and> x < unat pa + 512 * n
    then kfile disk (512 * (unat offset - 1) + (x - unat pa)) else m x)"
  using assms
proof (induction n arbitrary: pa offset m)
  case 0
  then have "\<not> pa < epa" by (auto simp: word_less_nat_alt)
  then show ?case by (subst readseg_loop.simps) (auto simp: fun_eq_iff)
next
  case (Suc n)
  have lt: "unat pa < unat epa" using Suc.prems(4) by (cases "unat pa < unat epa") simp_all
  have pa: "unat (pa + SECTSIZE) = unat pa + 512"
    using lt Suc.prems(1) unat_add_lem [of pa SECTSIZE] by (simp add: SECTSIZE_def)
  have off: "unat (offset + 1) = unat offset + 1"
    using Suc.prems(2) unat_add_lem [of offset 1] by simp
  have n: "n = (unat epa - unat (pa + SECTSIZE) + 511) div 512"
    using Suc.prems(4) lt pa by (cases "unat epa \<le> unat pa + 512") auto
  let ?m = "readsect disk pa offset m"
  have "readseg_loop disk pa epa offset m = readseg_loop disk (pa + SECTSIZE) epa (offset + 1) ?m"
    using lt by (subst readseg_loop.simps) (simp add: word_less_nat_alt)
  also have "\<dots> = Some (\<lambda>x. if unat pa + 512 \<le> x \<and> x < unat pa + 512 + 512 * n
    then kfile disk (512 * unat offset + (x - (unat pa + 512))) else ?m x)"
    using Suc.IH [OF Suc.prems(1) _ _ n, of "offset + 1" ?m] Suc.prems(2)
    unfolding off pa add_diff_cancel_right' by simp
  also have "\<dots> = Some (\<lambda>x. if unat pa \<le> x \<and> x < unat pa + 512 * Suc n
    then kfile disk (512 * (unat offset - 1) + (x - unat pa)) else m x)"
  proof -
    have "lba (sector_ports offset) = unat offset" by (rule lba_sector) (use Suc.prems(2) in simp)
    moreover have "512 * (unat offset - 1) + (x - unat pa) = 512 * unat offset + (x - (unat pa + 512))"
      if "unat pa + 512 \<le> x" for x
      using that Suc.prems(3) by (simp add: diff_mult_distrib2)
    moreover have "kfile disk (512 * (unat offset - 1) + (x - unat pa)) = disk (unat offset) ! (x - unat pa)"
      if "unat pa \<le> x" "x < unat pa + 512" for x
      by (rule kfile_sector) (use that Suc.prems(3) in simp_all)
    ultimately show ?thesis by (auto simp: readsect_def fun_eq_iff)
  qed
  finally show ?case .
qed

lemma readseg_reads:
  assumes "unat off mod 512 \<le> unat pa" and "unat pa + unat count + 512 \<le> 2 ^ 32"
  shows "\<exists>m'. readseg disk pa count off m = Some m'
    \<and> (\<forall>k < unat count. m' (unat pa + k) = kfile disk (unat off + k))
    \<and> (\<forall>x < unat pa - unat off mod 512. m' x = m x)"
proof -
  let ?pa = "pa - off mod SECTSIZE" and ?epa = "pa + count" and ?o = "off div SECTSIZE + 1"
  let ?n = "(unat ?epa - unat ?pa + 511) div 512"
  have m: "unat (off mod SECTSIZE) = unat off mod 512" by (simp add: unat_mod SECTSIZE_def)
  have pa: "unat ?pa = unat pa - unat off mod 512"
    using assms(1) m by (subst unat_sub) (simp_all add: word_le_nat_alt)
  have epa: "unat ?epa = unat pa + unat count"
    using assms(2) unat_add_lem [of pa count] by simp
  have d: "unat (off div SECTSIZE) = unat off div 512" by (simp add: unat_div SECTSIZE_def)
  have "unat off < 2 ^ 32" using unsigned_less [of off, where 'a = nat] by simp
  then have small: "unat off div 512 < 2 ^ 23" by simp
  then have o': "unat ?o = unat off div 512 + 1" using d unat_add_lem [of "off div SECTSIZE" 1] by simp
  have n: "?n \<le> 2 ^ 23" using assms(2) epa by simp
  have cover: "unat ?epa \<le> unat ?pa + 512 * ?n" by (simp add: epa pa)
  have run: "readseg disk pa count off m = Some (\<lambda>x. if unat ?pa \<le> x \<and> x < unat ?pa + 512 * ?n
    then kfile disk (512 * (unat ?o - 1) + (x - unat ?pa)) else m x)" (is "_ = Some ?m")
    unfolding readseg_def Let_def
    by (rule readseg_loop_reads) (use assms(2) epa o' small n in simp_all)
  have "?m (unat pa + k) = kfile disk (unat off + k)" if "k < unat count" for k
  proof -
    have "512 * (unat ?o - 1) + (unat pa + k - unat ?pa) = unat off + k"
      using o' pa assms(1) by simp
    moreover have "unat pa + k < unat ?pa + 512 * ?n" using cover that epa by simp
    moreover have "unat ?pa \<le> unat pa + k" using pa by simp
    ultimately show ?thesis by simp
  qed
  moreover have "?m x = m x" if "x < unat pa - unat off mod 512" for x using that pa by simp
  ultimately show ?thesis using run by blast
qed

subsection \<open>Loading the kernel\<close>

text \<open>Segment \<open>i\<close> of the kernel's file: where its header is in the file, and the header's fields.\<close>

definition kphnum :: "(nat \<Rightarrow> bytes) \<Rightarrow> nat" where
  "kphnum disk = elf_phnum (kfile disk) 0"

definition kheader :: "(nat \<Rightarrow> bytes) \<Rightarrow> nat \<Rightarrow> uint" where
  "kheader disk i = load32 (kfile disk) 28 + word_of_nat (PROGHDR_SIZE * i)"

definition kpaddr :: "(nat \<Rightarrow> bytes) \<Rightarrow> nat \<Rightarrow> uint" where "kpaddr disk i = phdr_paddr (kfile disk) (kheader disk i)"
definition koff :: "(nat \<Rightarrow> bytes) \<Rightarrow> nat \<Rightarrow> uint" where "koff disk i = phdr_off (kfile disk) (kheader disk i)"
definition kfilesz :: "(nat \<Rightarrow> bytes) \<Rightarrow> nat \<Rightarrow> uint" where "kfilesz disk i = phdr_filesz (kfile disk) (kheader disk i)"
definition kmemsz :: "(nat \<Rightarrow> bytes) \<Rightarrow> nat \<Rightarrow> uint" where "kmemsz disk i = phdr_memsz (kfile disk) (kheader disk i)"

text \<open>
  A kernel that the loader can load: its headers are in the first page of the file, and its segments
  lie above the scratch page in the order of their addresses, far enough from each other for the
  whole sectors that the loader reads.
\<close>

definition kernel_file :: "(nat \<Rightarrow> bytes) \<Rightarrow> bool" where
  "kernel_file disk \<longleftrightarrow> load32 (kfile disk) 0 = word_of_nat ELF_MAGIC
     \<and> unat (load32 (kfile disk) 28) + PROGHDR_SIZE * kphnum disk \<le> 4096
     \<and> (\<forall>i < kphnum disk. kfilesz disk i \<le> kmemsz disk i
          \<and> unat (kpaddr disk i) + unat (kmemsz disk i) + 512 \<le> 2 ^ 32
          \<and> 0x11000 + unat (koff disk i) mod 512 \<le> unat (kpaddr disk i)
          \<and> (\<forall>j < i. unat (kpaddr disk j) + unat (kmemsz disk j) + unat (koff disk i) mod 512 \<le> unat (kpaddr disk i)))"

text \<open>The scratch page holds the first page of the file, and segment \<open>i\<close> is in its place.\<close>

definition scratch_ok :: "(nat \<Rightarrow> bytes) \<Rightarrow> mem \<Rightarrow> bool" where
  "scratch_ok disk m \<longleftrightarrow> (\<forall>k < 4096. m (0x10000 + k) = kfile disk k)"

definition loaded :: "(nat \<Rightarrow> bytes) \<Rightarrow> nat \<Rightarrow> mem \<Rightarrow> bool" where
  "loaded disk i m \<longleftrightarrow>
     (\<forall>k < unat (kfilesz disk i). m (unat (kpaddr disk i) + k) = kfile disk (unat (koff disk i) + k))
     \<and> (\<forall>k. unat (kfilesz disk i) \<le> k \<and> k < unat (kmemsz disk i) \<longrightarrow> m (unat (kpaddr disk i) + k) = 0)"

lemma scratch_load32:
  assumes "scratch_ok disk m" and "k + 4 \<le> 4096"
  shows "load32 m (0x10000 + k) = load32 (kfile disk) k"
proof -
  have b: "m (0x10000 + j) = kfile disk j" if "j < 4096" for j using assms(1) that by (simp add: scratch_ok_def)
  have "m (0x10000 + k + j) = kfile disk (k + j)" if "j < 4" for j
    using b [of "k + j"] assms(2) that by (simp add: add.assoc)
  from this [of 0] this [of 1] this [of 2] this [of 3] show ?thesis unfolding load32_def by simp
qed

lemma kheader_place:
  assumes "kernel_file disk" and "i < kphnum disk"
  shows "unat (kheader disk i) = unat (load32 (kfile disk) 28) + PROGHDR_SIZE * i"
    and "unat (kheader disk i) + PROGHDR_SIZE \<le> 4096"
    and "unat (ELF_SCRATCH + kheader disk i) = 0x10000 + unat (kheader disk i)"
proof -
  let ?h = "load32 (kfile disk) 28"
  have "PROGHDR_SIZE * Suc i \<le> PROGHDR_SIZE * kphnum disk" using assms(2) by (intro mult_le_mono2) simp
  then have le: "unat ?h + PROGHDR_SIZE * Suc i \<le> 4096" using assms(1) by (simp add: kernel_file_def)
  then have small: "PROGHDR_SIZE * i < 2 ^ 32" by (simp add: PROGHDR_SIZE_def)
  have u: "unat (word_of_nat (PROGHDR_SIZE * i) :: uint) = PROGHDR_SIZE * i" by (rule unat_of_nat32 [OF small])
  show h: "unat (kheader disk i) = unat ?h + PROGHDR_SIZE * i"
    unfolding kheader_def using le u unat_add_lem [of ?h "word_of_nat (PROGHDR_SIZE * i)"]
    by (simp add: PROGHDR_SIZE_def)
  then show le': "unat (kheader disk i) + PROGHDR_SIZE \<le> 4096" using le by (simp add: PROGHDR_SIZE_def)
  show "unat (ELF_SCRATCH + kheader disk i) = 0x10000 + unat (kheader disk i)"
    using le' unat_add_lem [of ELF_SCRATCH "kheader disk i"] by (simp add: ELF_SCRATCH_def)
qed

lemma scratch_fields:
  assumes "kernel_file disk" and "i < kphnum disk" and "scratch_ok disk m"
  shows "phdr_off m (ELF_SCRATCH + kheader disk i) = koff disk i"
    "phdr_paddr m (ELF_SCRATCH + kheader disk i) = kpaddr disk i"
    "phdr_filesz m (ELF_SCRATCH + kheader disk i) = kfilesz disk i"
    "phdr_memsz m (ELF_SCRATCH + kheader disk i) = kmemsz disk i"
proof -
  note h = kheader_place [OF assms(1,2)]
  have "load32 m (unat (ELF_SCRATCH + kheader disk i) + k) = load32 (kfile disk) (unat (kheader disk i) + k)"
    if "k \<le> 20" for k
    using scratch_load32 [OF assms(3), of "unat (kheader disk i) + k"] h(2) that
    by (simp add: h(3) PROGHDR_SIZE_def add.assoc)
  then show "phdr_off m (ELF_SCRATCH + kheader disk i) = koff disk i"
    "phdr_paddr m (ELF_SCRATCH + kheader disk i) = kpaddr disk i"
    "phdr_filesz m (ELF_SCRATCH + kheader disk i) = kfilesz disk i"
    "phdr_memsz m (ELF_SCRATCH + kheader disk i) = kmemsz disk i"
    by (simp_all add: phdr_off_def phdr_paddr_def phdr_filesz_def phdr_memsz_def koff_def kpaddr_def
        kfilesz_def kmemsz_def)
qed

text \<open>One segment: it is in its place, and nothing below its first sector changes.\<close>

lemma load_segment:
  assumes "kernel_file disk" and "i < kphnum disk"
  shows "\<exists>m1. readseg disk (kpaddr disk i) (kfilesz disk i) (koff disk i) m = Some m1 \<and>
    (\<forall>x < unat (kpaddr disk i) - unat (koff disk i) mod 512. m1 x = m x) \<and>
    (\<forall>m2. m2 = (if kmemsz disk i > kfilesz disk i
        then stosb (unat (kpaddr disk i + kfilesz disk i)) 0 (unat (kmemsz disk i - kfilesz disk i)) m1 else m1) \<longrightarrow>
      loaded disk i m2 \<and> (\<forall>x < unat (kpaddr disk i) - unat (koff disk i) mod 512. m2 x = m x))"
proof -
  let ?p = "kpaddr disk i" and ?f = "kfilesz disk i" and ?z = "kmemsz disk i" and ?o = "koff disk i"
  have k: "?f \<le> ?z" "unat ?p + unat ?z + 512 \<le> 2 ^ 32" "unat ?o mod 512 \<le> unat ?p"
    using assms by (auto simp: kernel_file_def)
  then have fz: "unat ?f \<le> unat ?z" by (simp add: word_le_nat_alt)
  obtain m1 where m1: "readseg disk ?p ?f ?o m = Some m1"
    "\<forall>k < unat ?f. m1 (unat ?p + k) = kfile disk (unat ?o + k)"
    "\<forall>x < unat ?p - unat ?o mod 512. m1 x = m x"
    using readseg_reads [of ?o ?p ?f disk m] k fz by auto
  have pf: "unat (?p + ?f) = unat ?p + unat ?f" using unat_add_lem [of ?p ?f] k fz by simp
  have zf: "unat (?z - ?f) = unat ?z - unat ?f" by (rule unat_sub [OF k(1)])
  let ?m2 = "if ?z > ?f then stosb (unat (?p + ?f)) 0 (unat (?z - ?f)) m1 else m1"
  have m2: "?m2 x = (if unat ?p + unat ?f \<le> x \<and> x < unat ?p + unat ?z then 0 else m1 x)" for x
    using fz by (auto simp: stosb_apply pf zf word_less_nat_alt)
  have "loaded disk i ?m2" unfolding loaded_def m2 using m1(2) by auto
  moreover have "?m2 x = m x" if "x < unat ?p - unat ?o mod 512" for x
    unfolding m2 using m1(3) that by auto
  ultimately show ?thesis using m1(1,3) by blast
qed

end
