(* ===== verification/Bootmain_Claims.thy ===== *)
theory Bootmain_Claims
  imports Bootmain
begin

text \<open>The boot loader puts every segment of the kernel into its place.\<close>

lemma boot_segments_load:
  assumes "kernel_file disk" and "i + k = kphnum disk" and "scratch_ok disk m" and "\<forall>j < i. loaded disk j m"
  shows "\<exists>m'. boot_segments disk (ELF_SCRATCH + kheader disk i) k m = Some m'
    \<and> scratch_ok disk m' \<and> (\<forall>j < kphnum disk. loaded disk j m')"
  using assms(2-4)
proof (induction k arbitrary: i m)
  case (Suc k)
  have i: "i < kphnum disk" using Suc.prems(1) by simp
  let ?p = "kpaddr disk i" and ?f = "kfilesz disk i" and ?z = "kmemsz disk i" and ?o = "koff disk i"
  note fields = scratch_fields [OF assms(1) i Suc.prems(2)]
  from load_segment [OF assms(1) i, of m] obtain m1 where m1: "readseg disk ?p ?f ?o m = Some m1"
    "\<forall>x < unat ?p - unat ?o mod 512. m1 x = m x"
    and step: "\<And>m2. m2 = (if ?z > ?f then stosb (unat (?p + ?f)) 0 (unat (?z - ?f)) m1 else m1)
      \<Longrightarrow> loaded disk i m2 \<and> (\<forall>x < unat ?p - unat ?o mod 512. m2 x = m x)" by blast
  define m2 where "m2 = (if ?z > ?f then stosb (unat (?p + ?f)) 0 (unat (?z - ?f)) m1 else m1)"
  note m2 = step [OF m2_def]
  have above: "0x11000 + unat ?o mod 512 \<le> unat ?p" using assms(1) i by (simp add: kernel_file_def)
  then have scratch: "scratch_ok disk m1" "scratch_ok disk m2"
    using Suc.prems(2) m1(2) m2 by (auto simp: scratch_ok_def)
  note fields1 = scratch_fields [OF assms(1) i scratch(1)]
  have next_ph: "ELF_SCRATCH + kheader disk i + word_of_nat PROGHDR_SIZE = ELF_SCRATCH + kheader disk (Suc i)"
    by (simp add: kheader_def PROGHDR_SIZE_def algebra_simps)
  have run: "boot_segments disk (ELF_SCRATCH + kheader disk i) (Suc k) m =
    boot_segments disk (ELF_SCRATCH + kheader disk (Suc i)) k m2"
    by (simp add: fields fields1 m1(1) Let_def next_ph) (simp add: m2_def)
  have "loaded disk j m2" if "j < Suc i" for j
  proof (cases "j = i")
    case False
    with that have j: "j < i" by simp
    then have sep: "unat (kpaddr disk j) + unat (kmemsz disk j) + unat ?o mod 512 \<le> unat ?p"
      and "kfilesz disk j \<le> kmemsz disk j"
      using assms(1) i by (simp_all add: kernel_file_def)
    then have "unat (kfilesz disk j) \<le> unat (kmemsz disk j)" by (simp add: word_le_nat_alt)
    then have "m2 (unat (kpaddr disk j) + x) = m (unat (kpaddr disk j) + x)" if "x < unat (kmemsz disk j)" for x
      using m2 sep that by auto
    then show ?thesis using Suc.prems(3) j \<open>unat (kfilesz disk j) \<le> _\<close> by (auto simp: loaded_def)
  qed (use m2 in simp)
  then show ?case unfolding run by (intro Suc.IH) (use Suc.prems(1) scratch(2) in simp_all)
qed (use assms in auto)

text \<open>C30: The kernel is loaded. From a disk whose kernel file is well formed, \<open>bootmain\<close> returns from all its
  reads and jumps to the file's entry point, with every segment at its physical address: the bytes
  of the file, and zeros up to the segment's size in memory.\<close>

theorem bootmain_loads:
  assumes "kernel_file disk"
  shows "\<exists>m'. bootmain disk m = Some (Jumps (load32 (kfile disk) 24) m') \<and>
    (\<forall>i < kphnum disk.
      (\<forall>k < unat (kfilesz disk i). m' (unat (kpaddr disk i) + k) = kfile disk (unat (koff disk i) + k)) \<and>
      (\<forall>k. unat (kfilesz disk i) \<le> k \<and> k < unat (kmemsz disk i) \<longrightarrow> m' (unat (kpaddr disk i) + k) = 0))"
proof -
  have s: "unat ELF_SCRATCH = 0x10000" by (simp add: ELF_SCRATCH_def)
  obtain m0 where m0: "readseg disk ELF_SCRATCH 4096 0 m = Some m0" "scratch_ok disk m0"
    using readseg_reads [of 0 ELF_SCRATCH 4096 disk m] by (auto simp: s scratch_ok_def)
  have l: "load32 m0 0x10000 = load32 (kfile disk) 0" "load32 m0 (0x10000 + 28) = load32 (kfile disk) 28"
    using scratch_load32 [OF m0(2), of 0] scratch_load32 [OF m0(2), of 28] by simp_all
  have n: "elf_phnum m0 ELF_SCRATCH = kphnum disk"
  proof -
    have "m0 (0x10000 + 44) = kfile disk 44" "m0 (0x10000 + 45) = kfile disk 45"
      by (rule m0(2) [unfolded scratch_ok_def, rule_format], simp)+
    then show ?thesis by (simp add: elf_phnum_def kphnum_def s)
  qed
  have h: "ELF_SCRATCH + load32 (kfile disk) 28 = ELF_SCRATCH + kheader disk 0" by (simp add: kheader_def)
  obtain m' where m': "boot_segments disk (ELF_SCRATCH + kheader disk 0) (kphnum disk) m0 = Some m'"
    "scratch_ok disk m'" "\<forall>j < kphnum disk. loaded disk j m'"
    using boot_segments_load [OF assms _ m0(2), of 0 "kphnum disk"] by auto
  have "load32 (kfile disk) 0 = word_of_nat ELF_MAGIC" using assms by (simp add: kernel_file_def)
  then have "bootmain disk m = Some (Jumps (load32 m' (unat ELF_SCRATCH + 24)) m')"
    unfolding bootmain_def m0(1) option.case s l h n m'(1) by simp
  also have "load32 m' (unat ELF_SCRATCH + 24) = load32 (kfile disk) 24"
    unfolding s by (rule scratch_load32 [OF m'(2)]) simp
  finally show ?thesis using m'(3) unfolding loaded_def by blast
qed

text \<open>A kernel with one segment, whose last four bytes are not in the file.\<close>

definition boot_disk :: "nat \<Rightarrow> bytes" where
  "boot_disk n =
     (if n = 1 then [0x7F, 0x45, 0x4C, 0x46] @ replicate 20 0 @ [0x0C, 0, 0x10, 0] @ [52, 0, 0, 0] @ replicate 12 0
        @ [1, 0] @ replicate 6 0 @ [1, 0, 0, 0, 2, 16, 0, 0] @ replicate 4 0 @ [2, 0, 16, 0, 4, 0, 0, 0, 8, 0, 0, 0]
        @ replicate 436 0
      else if n = 9 then [1, 2, 3, 4, 5, 6] @ replicate 506 0 else replicate 512 0)"

theorem bootmain_loads_witness:
  "\<exists>m'. bootmain boot_disk (\<lambda>_. 255) = Some (Jumps 0x10000C m') \<and>
     map m' [0x100002, 0x100003, 0x100004, 0x100005, 0x100006, 0x100009] = [3, 4, 5, 6, 0, 0]"
proof -
  have f: "kfile boot_disk k = boot_disk 1 ! k" if "k < 512" for k using that by (simp add: kfile_def)
  have n: "kphnum boot_disk = 1" "load32 (kfile boot_disk) 28 = 52" "load32 (kfile boot_disk) 0 = word_of_nat ELF_MAGIC"
    "load32 (kfile boot_disk) 24 = 0x10000C"
    by (simp_all add: kphnum_def elf_phnum_def load32_def f boot_disk_def nth_append ELF_MAGIC_def)
  have h: "kheader boot_disk 0 = 52" by (simp add: kheader_def n)
  have s: "kpaddr boot_disk 0 = 0x100002" "koff boot_disk 0 = 0x1002" "kfilesz boot_disk 0 = 4" "kmemsz boot_disk 0 = 8"
    by (simp_all add: kpaddr_def koff_def kfilesz_def kmemsz_def h phdr_paddr_def phdr_off_def phdr_filesz_def
        phdr_memsz_def load32_def f boot_disk_def nth_append)
  have "kernel_file boot_disk" unfolding kernel_file_def n by (simp add: s PROGHDR_SIZE_def)
  from bootmain_loads [OF this, of "\<lambda>_. 255"] obtain m' where
    m': "bootmain boot_disk (\<lambda>_. 255) = Some (Jumps 0x10000C m')"
    "\<And>k. k < 4 \<Longrightarrow> m' (0x100002 + k) = kfile boot_disk (0x1002 + k)" "\<And>k. 4 \<le> k \<Longrightarrow> k < 8 \<Longrightarrow> m' (0x100002 + k) = 0"
    unfolding n by (auto simp: s)
  have d: "kfile boot_disk (0x1002 + k) = [3, 4, 5, 6] ! k" if "k < 4" for k
  proof -
    have "k \<in> {0, 1, 2, 3}" using that by auto
    then show ?thesis by (auto simp: kfile_def boot_disk_def)
  qed
  show ?thesis
    using m'(1) m'(2) [of 0] m'(2) [of 1] m'(2) [of 2] m'(2) [of 3] m'(3) [of 4] m'(3) [of 7]
      d [of 0] d [of 1] d [of 2] d [of 3]
    by auto
qed

end
