(* ===== verification/Action.thy ===== *)
theory Action
  imports Utils
begin

text \<open>
  Actions, the vocabulary of the test programs: an action is a program on the static data that goes
  on with what follows it, so \<open>exit\<close> in the middle of a test is an action that does not go on.
\<close>

subsection \<open>Actions\<close>

record globals =
  gbuf :: string
  guninit :: string

type_synonym 'a uact = "globals \<Rightarrow> ('a \<Rightarrow> globals \<Rightarrow> prog) \<Rightarrow> prog"

definition give :: "'a \<Rightarrow> 'a uact" where
  "give x = (\<lambda>g k. k x g)"

definition seq :: "'a uact \<Rightarrow> ('a \<Rightarrow> 'b uact) \<Rightarrow> 'b uact" where
  "seq m f = (\<lambda>g k. m g (\<lambda>x g. f x g k))"

primrec steps :: "unit uact list \<Rightarrow> unit uact" where
  "steps [] = give ()"
| "steps (m # ms) = seq m (\<lambda>_. steps ms)"

definition globs :: "globals uact" where
  "globs = (\<lambda>g k. k g g)"

definition set_buf :: "string \<Rightarrow> unit uact" where
  "set_buf b = (\<lambda>g k. k () (g\<lparr>gbuf := b\<rparr>))"

definition exits :: "'a uact" where
  "exits = (\<lambda>g k. Exit)"

definition spins_on :: "'a uact" where
  "spins_on = (\<lambda>g k. Spin)"

definition sys :: "sysreq \<Rightarrow> int uact" where
  "sys r = (\<lambda>g k. Call r (\<lambda>x. k x g))"

definition prim_op :: "prim \<Rightarrow> uint uact" where
  "prim_op p = (\<lambda>g k. Do p (\<lambda>x. k x g))"

definition upipe :: "(int \<times> int \<times> int) uact" where
  "upipe = (\<lambda>g k. CallPipe (\<lambda>r p0 p1. k (r, p0, p1) g))"

text \<open>A read into a local buffer, and into \<open>buf\<close>.\<close>

definition reads_local :: "int \<Rightarrow> int \<Rightarrow> (int \<times> string) uact" where
  "reads_local fd n = (\<lambda>g k. CallRead fd n (\<lambda>r d. k (r, d) g))"

definition reads_buf :: "int \<Rightarrow> int \<Rightarrow> int uact" where
  "reads_buf fd n = (\<lambda>g k. CallRead fd n (\<lambda>r d. k r (g\<lparr>gbuf := d @ drop (length d) (gbuf g)\<rparr>)))"

definition say :: "int \<Rightarrow> string \<Rightarrow> unit uact" where
  "say fd s = (\<lambda>g k. puts fd s (k () g))"

definition sayln :: "int \<Rightarrow> string \<Rightarrow> unit uact" where
  "sayln fd s = say fd (s @ newline)"

text \<open>A format with arguments: what \<open>printf\<close> writes, nothing if an argument is missing.\<close>

definition sayf :: "int \<Rightarrow> string \<Rightarrow> uarg list \<Rightarrow> unit uact" where
  "sayf fd fmt args = say fd (case uprintf fmt args of None \<Rightarrow> [] | Some s \<Rightarrow> s)"

definition uint_arg :: "int \<Rightarrow> uarg" where
  "uint_arg i = UWord (word_of_int i)"

definition fail :: "int \<Rightarrow> string \<Rightarrow> 'a uact" where
  "fail fd msg = seq (sayln fd msg) (\<lambda>_. exits)"

definition failf :: "int \<Rightarrow> string \<Rightarrow> uarg list \<Rightarrow> 'a uact" where
  "failf fd fmt args = seq (sayf fd fmt args) (\<lambda>_. exits)"

definition sure :: "bool \<Rightarrow> int \<Rightarrow> string \<Rightarrow> unit uact" where
  "sure ok fd msg = (if ok then give () else fail fd msg)"

text \<open>A call whose result must satisfy a condition, or the test fails.\<close>

definition must :: "(int \<Rightarrow> bool) \<Rightarrow> sysreq \<Rightarrow> int \<Rightarrow> string \<Rightarrow> unit uact" where
  "must ok r fd msg = seq (sys r) (\<lambda>x. sure (ok x) fd msg)"

definition works :: "sysreq \<Rightarrow> int \<Rightarrow> string \<Rightarrow> unit uact" where
  "works = must (\<lambda>r. r \<ge> 0)"

definition gives0 :: "sysreq \<Rightarrow> int \<Rightarrow> string \<Rightarrow> unit uact" where
  "gives0 = must (\<lambda>r. r = 0)"

definition refused :: "sysreq \<Rightarrow> int \<Rightarrow> string \<Rightarrow> unit uact" where
  "refused = must (\<lambda>r. r < 0)"

definition nonzero :: "sysreq \<Rightarrow> int \<Rightarrow> string \<Rightarrow> unit uact" where
  "nonzero = must (\<lambda>r. r \<noteq> 0)"

definition quiet :: "sysreq \<Rightarrow> unit uact" where
  "quiet r = seq (sys r) (\<lambda>_. give ())"

definition on :: "bool \<Rightarrow> unit uact \<Rightarrow> unit uact" where
  "on c m = (if c then m else give ())"

text \<open>
  \<open>for\<close> over the values of its index: alone, with a state, and with a way out; a loop that answers
  end.
\<close>

primrec each :: "'i list \<Rightarrow> ('i \<Rightarrow> unit uact) \<Rightarrow> unit uact" where
  "each [] body = give ()"
| "each (i # is) body = seq (body i) (\<lambda>_. each is body)"

primrec folds :: "'i list \<Rightarrow> ('i \<Rightarrow> 's \<Rightarrow> 's uact) \<Rightarrow> 's \<Rightarrow> 's uact" where
  "folds [] body s = give s"
| "folds (i # is) body s = seq (body i s) (folds is body)"

primrec each_until :: "'i list \<Rightarrow> ('i \<Rightarrow> 'r option uact) \<Rightarrow> 'r option uact" where
  "each_until [] body = give None"
| "each_until (i # is) body = seq (body i) (\<lambda>r. case r of None \<Rightarrow> each_until is body | Some x \<Rightarrow> give (Some x))"

primrec loops :: "nat \<Rightarrow> ('s \<Rightarrow> ('s + 'r) uact) \<Rightarrow> 's \<Rightarrow> 'r uact" where
  "loops 0 body s = (\<lambda>g k. More)"
| "loops (Suc n) body s = seq (body s) (\<lambda>r. case r of Inl s \<Rightarrow> loops n body s | Inr x \<Rightarrow> give x)"

text \<open>Flags of fcntl.h, and characters as the signed values C gives them.\<close>

definition fl_rdonly :: int where "fl_rdonly = 0x000"
definition fl_wronly :: int where "fl_wronly = 0x001"
definition fl_rdwr :: int where "fl_rdwr = 0x002"
definition fl_create :: int where "fl_create = 0x200"

abbreviation create_rdwr :: int where "create_rdwr \<equiv> fl_create + fl_rdwr"

definition schar :: "char \<Rightarrow> int" where
  "schar c = (if of_char c < (128 :: int) then of_char c else of_char c - 256)"

definition digit_chr :: "nat \<Rightarrow> char" where
  "digit_chr i = char_of (48 + i)"

definition write_buf :: "int \<Rightarrow> nat \<Rightarrow> int uact" where
  "write_buf fd n = seq globs (\<lambda>g. sys (SWrite fd (take n (gbuf g))))"

definition fill_buf :: "nat \<Rightarrow> char \<Rightarrow> unit uact" where
  "fill_buf n c = seq globs (\<lambda>g. set_buf (replicate n c @ drop n (gbuf g)))"

definition open_close :: "string \<Rightarrow> int \<Rightarrow> unit uact" where
  "open_close f mode = seq (sys (SOpen f mode)) (\<lambda>fd. quiet (SClose fd))"

end
