(* ===== verification/Usertests.thy ===== *)
theory Usertests
  imports Action
begin

text \<open>
  The kernel's tests, usertests.c, as trees of system calls: this theory has those of files.
  \<open>rounds\<close> bounds the loops that only an answer of the kernel ends.
\<close>

subsection \<open>iput, exit and open\<close>

definition iputtest :: "unit uact" where
  "iputtest = steps [
     sayln 1 ''iput test'',
     works (SMkdir ''iputdir'') 1 ''mkdir failed'',
     works (SChdir ''iputdir'') 1 ''chdir iputdir failed'',
     works (SUnlink ''../iputdir'') 1 ''unlink ../iputdir failed'',
     works (SChdir ''/'') 1 ''chdir / failed'',
     sayln 1 ''iput test ok'']"

definition exitiputtest :: "unit uact" where
  "exitiputtest = steps [
     sayln 1 ''exitiput test'',
     seq (sys SFork) (\<lambda>pid. steps [
       sure (pid \<ge> 0) 1 ''fork failed'',
       on (pid = 0) (steps [
         works (SMkdir ''iputdir'') 1 ''mkdir failed'',
         works (SChdir ''iputdir'') 1 ''child chdir failed'',
         works (SUnlink ''../iputdir'') 1 ''unlink ../iputdir failed'',
         exits]),
       quiet SWait]),
     sayln 1 ''exitiput test ok'']"

definition openiputtest :: "unit uact" where
  "openiputtest = steps [
     sayln 1 ''openiput test'',
     works (SMkdir ''oidir'') 1 ''mkdir oidir failed'',
     seq (sys SFork) (\<lambda>pid. steps [
       sure (pid \<ge> 0) 1 ''fork failed'',
       on (pid = 0) (steps [
         refused (SOpen ''oidir'' fl_rdwr) 1 ''open directory for write succeeded'',
         exits]),
       quiet (SSleep 1),
       gives0 (SUnlink ''oidir'') 1 ''unlink failed'',
       quiet SWait]),
     sayln 1 ''openiput test ok'']"

subsection \<open>Files\<close>

definition opentest :: "unit uact" where
  "opentest = steps [
     sayln 1 ''open test'',
     seq (sys (SOpen ''echo'' 0)) (\<lambda>fd. steps [
       sure (fd \<ge> 0) 1 ''open echo failed!'',
       quiet (SClose fd)]),
     refused (SOpen ''doesnotexist'' 0) 1 ''open doesnotexist succeeded!'',
     sayln 1 ''open test ok'']"

definition writetest :: "unit uact" where
  "writetest = steps [
     sayln 1 ''small file test'',
     seq (sys (SOpen ''small'' create_rdwr)) (\<lambda>fd. steps [
       if fd \<ge> 0 then sayln 1 ''creat small succeeded; ok'' else fail 1 ''error: creat small failed!'',
       each [0..<100] (\<lambda>i. steps [
         seq (sys (SWrite fd (replicate 10 (CHR ''a'')))) (\<lambda>r.
           on (r \<noteq> 10) (failf 1 (''error: write aa %d new file failed'' @ newline) [uint_arg (int i)])),
         seq (sys (SWrite fd (replicate 10 (CHR ''b'')))) (\<lambda>r.
           on (r \<noteq> 10) (failf 1 (''error: write bb %d new file failed'' @ newline) [uint_arg (int i)]))]),
       sayln 1 ''writes ok'',
       quiet (SClose fd)]),
     seq (sys (SOpen ''small'' fl_rdonly)) (\<lambda>fd. steps [
       if fd \<ge> 0 then sayln 1 ''open small succeeded ok'' else fail 1 ''error: open small failed!'',
       seq (reads_buf fd 2000) (\<lambda>i.
         if i = 2000 then sayln 1 ''read succeeded ok'' else fail 1 ''read failed''),
       quiet (SClose fd)]),
     works (SUnlink ''small'') 1 ''unlink small failed'',
     sayln 1 ''small file test ok'']"

text \<open>\<open>((int*)buf)[0]\<close>.\<close>

definition set_buf_int :: "uint \<Rightarrow> unit uact" where
  "set_buf_int w = seq globs (\<lambda>g.
     set_buf (map (\<lambda>k. char_of (unat (drop_bit (8 * k) w))) [0..<4] @ drop 4 (gbuf g)))"

definition buf_int :: "globals \<Rightarrow> uint" where
  "buf_int g = word_of_nat (\<Sum>k<4. of_char (chr_at (gbuf g) k) * 256 ^ k)"

text \<open>The loop that reads the blocks back; \<open>MAXFILE\<close> of fs.h is 140.\<close>

definition read_big :: "nat \<Rightarrow> int \<Rightarrow> unit uact" where
  "read_big rounds fd = loops rounds (\<lambda>n.
     seq (reads_buf fd 512) (\<lambda>i.
       if i = 0 then
         seq (on (n = 140 - 1) (failf 1 ''read only %d blocks from big'' [uint_arg n])) (\<lambda>_.
         give (Inr ()))
       else seq (on (i \<noteq> 512) (failf 1 (''read failed %d'' @ newline) [uint_arg i])) (\<lambda>_.
         seq globs (\<lambda>g. seq
           (on (buf_int g \<noteq> word_of_int n)
             (failf 1 (''read content of block %d is %d'' @ newline) [uint_arg n, UWord (buf_int g)]))
           (\<lambda>_. give (Inl (n + 1))))))) 0"

definition writetest1 :: "nat \<Rightarrow> unit uact" where
  "writetest1 rounds = steps [
     sayln 1 ''big files test'',
     seq (sys (SOpen ''big'' create_rdwr)) (\<lambda>fd. steps [
       sure (fd \<ge> 0) 1 ''error: creat big failed!'',
       each [0..<140] (\<lambda>i. steps [
         set_buf_int (word_of_nat i),
         seq (write_buf fd 512) (\<lambda>r. sure (r = 512) 1 ''error: write big file failed'')]),
       quiet (SClose fd)]),
     seq (sys (SOpen ''big'' fl_rdonly)) (\<lambda>fd. steps [
       sure (fd \<ge> 0) 1 ''error: open big failed!'',
       read_big rounds fd,
       quiet (SClose fd)]),
     works (SUnlink ''big'') 1 ''unlink big failed'',
     sayln 1 ''big files ok'']"

definition createtest :: "unit uact" where
  "createtest = steps [
     sayln 1 ''many creates, followed by unlink test'',
     each [0..<52] (\<lambda>i. open_close [CHR ''a'', digit_chr i] create_rdwr),
     each [0..<52] (\<lambda>i. quiet (SUnlink [CHR ''a'', digit_chr i])),
     sayln 1 ''many creates, followed by unlink; ok'']"

definition dirtest :: "unit uact" where
  "dirtest = steps [
     sayln 1 ''mkdir test'',
     works (SMkdir ''dir0'') 1 ''mkdir failed'',
     works (SChdir ''dir0'') 1 ''chdir dir0 failed'',
     works (SChdir ''..'') 1 ''chdir .. failed'',
     works (SUnlink ''dir0'') 1 ''unlink dir0 failed'',
     sayln 1 ''mkdir test ok'']"

subsection \<open>Files shared by processes\<close>

definition sharedfd :: "nat \<Rightarrow> unit uact" where
  "sharedfd rounds = steps [
     sayln 1 ''sharedfd test'',
     quiet (SUnlink ''sharedfd''),
     seq (sys (SOpen ''sharedfd'' create_rdwr)) (\<lambda>fd.
     if fd < 0 then say 1 ''fstests: cannot open sharedfd for writing''
     else seq (sys SFork) (\<lambda>pid.
       seq (each_until [0..<1000] (\<lambda>i.
         seq (sys (SWrite fd (replicate 10 (if pid = 0 then CHR ''c'' else CHR ''p'')))) (\<lambda>r.
         if r \<noteq> 10 then seq (sayln 1 ''fstests: write sharedfd failed'') (\<lambda>_. give (Some ()))
         else give None))) (\<lambda>_. steps [
       (if pid = 0 then exits else quiet SWait),
       quiet (SClose fd),
       seq (sys (SOpen ''sharedfd'' 0)) (\<lambda>fd.
       if fd < 0 then sayln 1 ''fstests: cannot open sharedfd for reading''
       else seq (loops rounds (\<lambda>(b, nc, np). seq (reads_local fd 10) (\<lambda>(n, d).
           let b = d @ drop (length d) b in
           if n > 0 then give (Inl (b, nc + count_list b (CHR ''c''), np + count_list b (CHR ''p'')))
           else give (Inr (nc, np))))
         (replicate 10 (if pid = 0 then CHR ''c'' else CHR ''p''), 0, 0)) (\<lambda>(nc, np). steps [
         quiet (SClose fd),
         quiet (SUnlink ''sharedfd''),
         if nc = 10000 \<and> np = 10000 then sayln 1 ''sharedfd ok''
         else failf 1 (''sharedfd oops %d %d'' @ newline) [uint_arg (int nc), uint_arg (int np)]]))])))]"

text \<open>The reader of one of the four files: the length, if all characters are the file's own.\<close>

definition check_file :: "nat \<Rightarrow> nat \<Rightarrow> int \<Rightarrow> int uact" where
  "check_file rounds i fd = loops rounds (\<lambda>total. seq (reads_buf fd 8192) (\<lambda>n.
     if n > 0 then seq globs (\<lambda>g. seq
       (on (list_ex (\<lambda>j. chr_at (gbuf g) j \<noteq> digit_chr i) [0..<nat n]) (fail 1 ''wrong char'')) (\<lambda>_.
       give (Inl (total + n))))
     else give (Inr total))) 0"

definition fourfiles :: "nat \<Rightarrow> unit uact" where
  "fourfiles rounds = steps [
     sayln 1 ''fourfiles test'',
     each [0..<4] (\<lambda>pi. let fname = [CHR ''f'', digit_chr pi] in steps [
       quiet (SUnlink fname),
       seq (sys SFork) (\<lambda>pid. steps [
         sure (pid \<ge> 0) 1 ''fork failed'',
         on (pid = 0) (seq (sys (SOpen fname create_rdwr)) (\<lambda>fd. steps [
           sure (fd \<ge> 0) 1 ''create failed'',
           fill_buf 512 (digit_chr pi),
           each [0..<12] (\<lambda>i. seq (write_buf fd 500) (\<lambda>n.
             on (n \<noteq> 500) (failf 1 (''write failed %d'' @ newline) [uint_arg n]))),
           exits]))])]),
     each [0..<4] (\<lambda>_. quiet SWait),
     each [0..<2] (\<lambda>i. let fname = [CHR ''f'', digit_chr i] in
       seq (sys (SOpen fname 0)) (\<lambda>fd.
       seq (check_file rounds i fd) (\<lambda>total. steps [
         quiet (SClose fd),
         on (total \<noteq> 12 * 500) (failf 1 (''wrong length %d'' @ newline) [uint_arg total]),
         quiet (SUnlink fname)]))),
     sayln 1 ''fourfiles ok'']"

text \<open>\<open>'p' + pi\<close>.\<close>

definition proc_name :: "nat \<Rightarrow> nat \<Rightarrow> string" where
  "proc_name pi i = [char_of (112 + pi), digit_chr i]"

definition createdelete :: "unit uact" where
  "createdelete = steps [
     sayln 1 ''createdelete test'',
     each [0..<4] (\<lambda>pi. seq (sys SFork) (\<lambda>pid. steps [
       sure (pid \<ge> 0) 1 ''fork failed'',
       on (pid = 0) (steps [
         each [0..<20] (\<lambda>i. seq (sys (SOpen (proc_name pi i) create_rdwr)) (\<lambda>fd. steps [
           sure (fd \<ge> 0) 1 ''create failed'',
           quiet (SClose fd),
           on (i > 0 \<and> i mod 2 = 0) (works (SUnlink (proc_name pi (i div 2))) 1 ''unlink failed'')])),
         exits])])),
     each [0..<4] (\<lambda>_. quiet SWait),
     each [0..<20] (\<lambda>i. each [0..<4] (\<lambda>pi.
       seq (sys (SOpen (proc_name pi i) 0)) (\<lambda>fd. steps [
         (if (i = 0 \<or> i \<ge> 20 div 2) \<and> fd < 0 then
            failf 1 (''oops createdelete %s didn'' @ [CHR 0x27] @ ''t exist'' @ newline) [UStr (Some (proc_name pi i))]
          else on (i \<ge> 1 \<and> i < 20 div 2 \<and> fd \<ge> 0)
            (failf 1 (''oops createdelete %s did exist'' @ newline) [UStr (Some (proc_name pi i))])),
         on (fd \<ge> 0) (quiet (SClose fd))]))),
     each [0..<20] (\<lambda>i. each [0..<4] (\<lambda>pi. quiet (SUnlink (proc_name i i)))),
     sayln 1 ''createdelete ok'']"

subsection \<open>Links\<close>

definition unlinkread :: "unit uact" where
  "unlinkread = steps [
     sayln 1 ''unlinkread test'',
     seq (sys (SOpen ''unlinkread'' create_rdwr)) (\<lambda>fd. steps [
       sure (fd \<ge> 0) 1 ''create unlinkread failed'',
       quiet (SWrite fd ''hello''),
       quiet (SClose fd)]),
     seq (sys (SOpen ''unlinkread'' fl_rdwr)) (\<lambda>fd. steps [
       sure (fd \<ge> 0) 1 ''open unlinkread failed'',
       gives0 (SUnlink ''unlinkread'') 1 ''unlink unlinkread failed'',
       seq (sys (SOpen ''unlinkread'' create_rdwr)) (\<lambda>fd1. steps [
         quiet (SWrite fd1 ''yyy''),
         quiet (SClose fd1)]),
       seq (reads_buf fd 8192) (\<lambda>n. on (n \<noteq> 5) (seq (say 1 ''unlinkread read failed'') (\<lambda>_. exits))),
       seq globs (\<lambda>g. sure (chr_at (gbuf g) 0 = CHR ''h'') 1 ''unlinkread wrong data''),
       seq (write_buf fd 10) (\<lambda>r. sure (r = 10) 1 ''unlinkread write failed''),
       quiet (SClose fd)]),
     quiet (SUnlink ''unlinkread''),
     sayln 1 ''unlinkread ok'']"

definition linktest :: "unit uact" where
  "linktest = steps [
     sayln 1 ''linktest'',
     quiet (SUnlink ''lf1''),
     quiet (SUnlink ''lf2''),
     seq (sys (SOpen ''lf1'' create_rdwr)) (\<lambda>fd. steps [
       sure (fd \<ge> 0) 1 ''create lf1 failed'',
       must (\<lambda>r. r = 5) (SWrite fd ''hello'') 1 ''write lf1 failed'',
       quiet (SClose fd)]),
     works (SLink ''lf1'' ''lf2'') 1 ''link lf1 lf2 failed'',
     quiet (SUnlink ''lf1''),
     refused (SOpen ''lf1'' 0) 1 ''unlinked lf1 but it is still there!'',
     seq (sys (SOpen ''lf2'' 0)) (\<lambda>fd. steps [
       sure (fd \<ge> 0) 1 ''open lf2 failed'',
       seq (reads_buf fd 8192) (\<lambda>n. sure (n = 5) 1 ''read lf2 failed''),
       quiet (SClose fd)]),
     refused (SLink ''lf2'' ''lf2'') 1 ''link lf2 lf2 succeeded! oops'',
     quiet (SUnlink ''lf2''),
     refused (SLink ''lf2'' ''lf1'') 1 ''link non-existant succeeded! oops'',
     refused (SLink ''.'' ''lf1'') 1 ''link . lf1 succeeded! oops'',
     sayln 1 ''linktest ok'']"

subsection \<open>Creating and unlinking at once\<close>

definition conc_name :: "nat \<Rightarrow> string" where
  "conc_name i = [CHR ''C'', digit_chr i]"

text \<open>
  The scan of the directory: which of the 40 files were seen.  An entry is two bytes of inode number
  and the name.
\<close>

definition conc_entry :: "string \<Rightarrow> bool list \<times> nat \<Rightarrow> (bool list \<times> nat) uact" where
  "conc_entry de = (\<lambda>(fa, n).
     if chr_at de 0 = NUL \<and> chr_at de 1 = NUL then give (fa, n)
     else if chr_at de 2 = CHR ''C'' \<and> chr_at de 4 = NUL then
       (let i = schar (chr_at de 3) - 48; name = takeWhile (\<lambda>c. c \<noteq> NUL) (drop 2 de) in
        seq (on (i < 0 \<or> i \<ge> 40) (failf 1 (''concreate weird file %s'' @ newline) [UStr (Some name)])) (\<lambda>_.
        seq (on (fa ! nat i) (failf 1 (''concreate duplicate file %s'' @ newline) [UStr (Some name)])) (\<lambda>_.
        give (fa[nat i := True], n + 1))))
     else give (fa, n))"

definition concreate :: "nat \<Rightarrow> unit uact" where
  "concreate rounds = steps [
     sayln 1 ''concreate test'',
     each [0..<40] (\<lambda>i. let f = conc_name i in steps [
       quiet (SUnlink f),
       seq (sys SFork) (\<lambda>pid. steps [
         (if pid \<noteq> 0 \<and> i mod 3 = 1 then quiet (SLink ''C0'' f)
          else if pid = 0 \<and> i mod 5 = 1 then quiet (SLink ''C0'' f)
          else seq (sys (SOpen f create_rdwr)) (\<lambda>fd. steps [
            on (fd < 0) (failf 1 (''concreate create %s failed'' @ newline) [UStr (Some f)]),
            quiet (SClose fd)])),
         if pid = 0 then exits else quiet SWait])]),
     seq (sys (SOpen ''.'' 0)) (\<lambda>fd.
       seq (loops rounds (\<lambda>s. seq (reads_local fd 16) (\<lambda>(r, de).
         if r > 0 then seq (conc_entry de s) (\<lambda>s. give (Inl s)) else give (Inr (snd s))))
         (replicate 40 False, 0)) (\<lambda>n. steps [
       quiet (SClose fd),
       sure (n = 40) 1 ''concreate not enough files in directory listing''])),
     each [0..<40] (\<lambda>i. let f = conc_name i in seq (sys SFork) (\<lambda>pid. steps [
       sure (pid \<ge> 0) 1 ''fork failed'',
       (if i mod 3 = 0 \<and> pid = 0 \<or> i mod 3 = 1 \<and> pid \<noteq> 0
        then each [0..<4] (\<lambda>_. open_close f 0) else each [0..<4] (\<lambda>_. quiet (SUnlink f))),
       if pid = 0 then exits else quiet SWait])),
     sayln 1 ''concreate ok'']"

definition lcg :: "uint \<Rightarrow> uint" where
  "lcg x = x * 1103515245 + 12345"

definition linkunlink :: "unit uact" where
  "linkunlink = steps [
     sayln 1 ''linkunlink test'',
     quiet (SUnlink ''x''),
     seq (sys SFork) (\<lambda>pid. steps [
       sure (pid \<ge> 0) 1 ''fork failed'',
       seq (folds [0..<100] (\<lambda>_ x. let x = lcg x in
         seq (if x mod 3 = 0 then open_close ''x'' (fl_rdwr + fl_create)
              else if x mod 3 = 1 then quiet (SLink ''cat'' ''x'')
              else quiet (SUnlink ''x'')) (\<lambda>_. give x)) (if pid \<noteq> 0 then 1 else 97)) (\<lambda>_. give ()),
       if pid \<noteq> 0 then quiet SWait else exits]),
     sayln 1 ''linkunlink ok'']"

subsection \<open>Directories\<close>

definition bigdir_name :: "nat \<Rightarrow> string" where
  "bigdir_name i = [CHR ''x'', digit_chr (i div 64), digit_chr (i mod 64)]"

definition bigdir :: "unit uact" where
  "bigdir = steps [
     sayln 1 ''bigdir test'',
     quiet (SUnlink ''bd''),
     seq (sys (SOpen ''bd'' fl_create)) (\<lambda>fd. steps [
       sure (fd \<ge> 0) 1 ''bigdir create failed'',
       quiet (SClose fd)]),
     each [0..<500] (\<lambda>i. gives0 (SLink ''bd'' (bigdir_name i)) 1 ''bigdir link failed''),
     quiet (SUnlink ''bd''),
     each [0..<500] (\<lambda>i. seq (sys (SUnlink (bigdir_name i))) (\<lambda>r.
       on (r \<noteq> 0) (seq (say 1 ''bigdir unlink failed'') (\<lambda>_. exits)))),
     sayln 1 ''bigdir ok'']"

text \<open>A file created with a short content.\<close>

definition make_file :: "string \<Rightarrow> string \<Rightarrow> string \<Rightarrow> unit uact" where
  "make_file f text' msg = seq (sys (SOpen f create_rdwr)) (\<lambda>fd. steps [
     sure (fd \<ge> 0) 1 msg,
     quiet (SWrite fd text'),
     quiet (SClose fd)])"

definition subdir_makes :: "unit uact" where
  "subdir_makes = steps [
     sayln 1 ''subdir test'',
     quiet (SUnlink ''ff''),
     gives0 (SMkdir ''dd'') 1 ''subdir mkdir dd failed'',
     make_file ''dd/ff'' ''ff'' ''create dd/ff failed'',
     refused (SUnlink ''dd'') 1 ''unlink dd (non-empty dir) succeeded!'',
     gives0 (SMkdir ''/dd/dd'') 1 ''subdir mkdir dd/dd failed'',
     make_file ''dd/dd/ff'' ''FF'' ''create dd/dd/ff failed'',
     seq (sys (SOpen ''dd/dd/../ff'' 0)) (\<lambda>fd. steps [
       sure (fd \<ge> 0) 1 ''open dd/dd/../ff failed'',
       seq (reads_buf fd 8192) (\<lambda>cc. seq globs (\<lambda>g.
         sure (\<not> (cc \<noteq> 2 \<or> chr_at (gbuf g) 0 \<noteq> CHR ''f'')) 1 ''dd/dd/../ff wrong content'')),
       quiet (SClose fd)]),
     gives0 (SLink ''dd/dd/ff'' ''dd/dd/ffff'') 1 ''link dd/dd/ff dd/dd/ffff failed'',
     gives0 (SUnlink ''dd/dd/ff'') 1 ''unlink dd/dd/ff failed'',
     refused (SOpen ''dd/dd/ff'' fl_rdonly) 1 ''open (unlinked) dd/dd/ff succeeded'',
     gives0 (SChdir ''dd'') 1 ''chdir dd failed'',
     gives0 (SChdir ''dd/../../dd'') 1 ''chdir dd/../../dd failed'',
     gives0 (SChdir ''dd/../../../dd'') 1 ''chdir dd/../../dd failed'',
     gives0 (SChdir ''./..'') 1 ''chdir ./.. failed'',
     seq (sys (SOpen ''dd/dd/ffff'' 0)) (\<lambda>fd. steps [
       sure (fd \<ge> 0) 1 ''open dd/dd/ffff failed'',
       seq (reads_buf fd 8192) (\<lambda>n. sure (n = 2) 1 ''read dd/dd/ffff wrong len''),
       quiet (SClose fd)])]"

definition subdir_refuses :: "unit uact" where
  "subdir_refuses = steps [
     refused (SOpen ''dd/dd/ff'' fl_rdonly) 1 ''open (unlinked) dd/dd/ff succeeded!'',
     refused (SOpen ''dd/ff/ff'' create_rdwr) 1 ''create dd/ff/ff succeeded!'',
     refused (SOpen ''dd/xx/ff'' create_rdwr) 1 ''create dd/xx/ff succeeded!'',
     refused (SOpen ''dd'' fl_create) 1 ''create dd succeeded!'',
     refused (SOpen ''dd'' fl_rdwr) 1 ''open dd rdwr succeeded!'',
     refused (SOpen ''dd'' fl_wronly) 1 ''open dd wronly succeeded!'',
     nonzero (SLink ''dd/ff/ff'' ''dd/dd/xx'') 1 ''link dd/ff/ff dd/dd/xx succeeded!'',
     nonzero (SLink ''dd/xx/ff'' ''dd/dd/xx'') 1 ''link dd/xx/ff dd/dd/xx succeeded!'',
     nonzero (SLink ''dd/ff'' ''dd/dd/ffff'') 1 ''link dd/ff dd/dd/ffff succeeded!'',
     nonzero (SMkdir ''dd/ff/ff'') 1 ''mkdir dd/ff/ff succeeded!'',
     nonzero (SMkdir ''dd/xx/ff'') 1 ''mkdir dd/xx/ff succeeded!'',
     nonzero (SMkdir ''dd/dd/ffff'') 1 ''mkdir dd/dd/ffff succeeded!'',
     nonzero (SUnlink ''dd/xx/ff'') 1 ''unlink dd/xx/ff succeeded!'',
     nonzero (SUnlink ''dd/ff/ff'') 1 ''unlink dd/ff/ff succeeded!'',
     nonzero (SChdir ''dd/ff'') 1 ''chdir dd/ff succeeded!'',
     nonzero (SChdir ''dd/xx'') 1 ''chdir dd/xx succeeded!'']"

definition subdir :: "unit uact" where
  "subdir = steps [
     subdir_makes,
     subdir_refuses,
     gives0 (SUnlink ''dd/dd/ffff'') 1 ''unlink dd/dd/ff failed'',
     gives0 (SUnlink ''dd/ff'') 1 ''unlink dd/ff failed'',
     nonzero (SUnlink ''dd'') 1 ''unlink non-empty dd succeeded!'',
     works (SUnlink ''dd/dd'') 1 ''unlink dd/dd failed'',
     works (SUnlink ''dd'') 1 ''unlink dd failed'',
     sayln 1 ''subdir ok'']"

definition fourteen :: "unit uact" where
  "fourteen = steps [
     sayln 1 ''fourteen test'',
     gives0 (SMkdir ''12345678901234'') 1 ''mkdir 12345678901234 failed'',
     gives0 (SMkdir ''12345678901234/123456789012345'') 1
       ''mkdir 12345678901234/123456789012345 failed'',
     seq (sys (SOpen ''123456789012345/123456789012345/123456789012345'' fl_create)) (\<lambda>fd. steps [
       sure (fd \<ge> 0) 1 ''create 123456789012345/123456789012345/123456789012345 failed'',
       quiet (SClose fd)]),
     seq (sys (SOpen ''12345678901234/12345678901234/12345678901234'' 0)) (\<lambda>fd. steps [
       sure (fd \<ge> 0) 1 ''open 12345678901234/12345678901234/12345678901234 failed'',
       quiet (SClose fd)]),
     nonzero (SMkdir ''12345678901234/12345678901234'') 1
       ''mkdir 12345678901234/12345678901234 succeeded!'',
     nonzero (SMkdir ''123456789012345/12345678901234'') 1
       ''mkdir 12345678901234/123456789012345 succeeded!'',
     sayln 1 ''fourteen ok'']"

definition rmdot :: "unit uact" where
  "rmdot = steps [
     sayln 1 ''rmdot test'',
     gives0 (SMkdir ''dots'') 1 ''mkdir dots failed'',
     gives0 (SChdir ''dots'') 1 ''chdir dots failed'',
     nonzero (SUnlink ''.'') 1 ''rm . worked!'',
     nonzero (SUnlink ''..'') 1 ''rm .. worked!'',
     gives0 (SChdir ''/'') 1 ''chdir / failed'',
     nonzero (SUnlink ''dots/.'') 1 ''unlink dots/. worked!'',
     nonzero (SUnlink ''dots/..'') 1 ''unlink dots/.. worked!'',
     gives0 (SUnlink ''dots'') 1 ''unlink dots failed!'',
     sayln 1 ''rmdot ok'']"

definition dirfile :: "unit uact" where
  "dirfile = steps [
     sayln 1 ''dir vs file'',
     seq (sys (SOpen ''dirfile'' fl_create)) (\<lambda>fd. steps [
       sure (fd \<ge> 0) 1 ''create dirfile failed'',
       quiet (SClose fd)]),
     nonzero (SChdir ''dirfile'') 1 ''chdir dirfile succeeded!'',
     refused (SOpen ''dirfile/xx'' 0) 1 ''create dirfile/xx succeeded!'',
     refused (SOpen ''dirfile/xx'' fl_create) 1 ''create dirfile/xx succeeded!'',
     nonzero (SMkdir ''dirfile/xx'') 1 ''mkdir dirfile/xx succeeded!'',
     nonzero (SUnlink ''dirfile/xx'') 1 ''unlink dirfile/xx succeeded!'',
     nonzero (SLink ''README'' ''dirfile/xx'') 1 ''link to dirfile/xx succeeded!'',
     gives0 (SUnlink ''dirfile'') 1 ''unlink dirfile failed!'',
     refused (SOpen ''.'' fl_rdwr) 1 ''open . for writing succeeded!'',
     seq (sys (SOpen ''.'' 0)) (\<lambda>fd. steps [
       must (\<lambda>r. r \<le> 0) (SWrite fd ''x'') 1 ''write . succeeded!'',
       quiet (SClose fd)]),
     sayln 1 ''dir vs file OK'']"

definition iref :: "unit uact" where
  "iref = steps [
     sayln 1 ''empty file name'',
     each [0..<50 + 1] (\<lambda>i. steps [
       gives0 (SMkdir ''irefd'') 1 ''mkdir irefd failed'',
       gives0 (SChdir ''irefd'') 1 ''chdir irefd failed'',
       quiet (SMkdir []),
       quiet (SLink ''README'' []),
       seq (sys (SOpen [] fl_create)) (\<lambda>fd. on (fd \<ge> 0) (quiet (SClose fd))),
       seq (sys (SOpen ''xx'' fl_create)) (\<lambda>fd. on (fd \<ge> 0) (quiet (SClose fd))),
       quiet (SUnlink ''xx'')]),
     quiet (SChdir ''/''),
     sayln 1 ''empty file name OK'']"

subsection \<open>Big files\<close>

text \<open>The sizes from 499 below \<open>12*512\<close> in steps of 471.\<close>

definition bigwrite :: "unit uact" where
  "bigwrite = steps [
     sayln 1 ''bigwrite test'',
     quiet (SUnlink ''bigwrite''),
     each (map (\<lambda>k. 499 + 471 * k) [0..<12]) (\<lambda>sz. steps [
       seq (sys (SOpen ''bigwrite'' create_rdwr)) (\<lambda>fd. steps [
         sure (fd \<ge> 0) 1 ''cannot create bigwrite'',
         each [0..<2] (\<lambda>i. seq (write_buf fd sz) (\<lambda>cc.
           on (cc \<noteq> int sz)
             (failf 1 (''write(%d) ret %d'' @ newline) [uint_arg (int sz), uint_arg cc]))),
         quiet (SClose fd)]),
       quiet (SUnlink ''bigwrite'')]),
     sayln 1 ''bigwrite ok'']"

definition read_bigfile :: "nat \<Rightarrow> int \<Rightarrow> int uact" where
  "read_bigfile rounds fd = loops rounds (\<lambda>(i, total). seq (reads_buf fd 300) (\<lambda>cc.
     seq (sure (cc \<ge> 0) 1 ''read bigfile failed'') (\<lambda>_.
     if cc = 0 then give (Inr total)
     else seq (sure (cc = 300) 1 ''short read bigfile'') (\<lambda>_.
       seq globs (\<lambda>g.
       seq (sure (\<not> (schar (chr_at (gbuf g) 0) \<noteq> i div 2 \<or> schar (chr_at (gbuf g) 299) \<noteq> i div 2)) 1
         ''read bigfile wrong data'') (\<lambda>_.
       give (Inl (i + 1, total + cc)))))))) (0, 0)"

definition bigfile :: "nat \<Rightarrow> unit uact" where
  "bigfile rounds = steps [
     sayln 1 ''bigfile test'',
     quiet (SUnlink ''bigfile''),
     seq (sys (SOpen ''bigfile'' create_rdwr)) (\<lambda>fd. steps [
       on (fd < 0) (seq (say 1 ''cannot create bigfile'') (\<lambda>_. exits)),
       each [0..<20] (\<lambda>i. steps [
         fill_buf 600 (char_of i),
         seq (write_buf fd 600) (\<lambda>r. sure (r = 600) 1 ''write bigfile failed'')]),
       quiet (SClose fd)]),
     seq (sys (SOpen ''bigfile'' 0)) (\<lambda>fd. steps [
       sure (fd \<ge> 0) 1 ''cannot open bigfile'',
       seq (read_bigfile rounds fd) (\<lambda>total. steps [
         quiet (SClose fd),
         sure (total = 20 * 600) 1 ''read bigfile wrong total''])]),
     quiet (SUnlink ''bigfile''),
     sayln 1 ''bigfile test ok'']"

definition fsfull_name :: "nat \<Rightarrow> string" where
  "fsfull_name n = [CHR ''f'', digit_chr (n div 1000), digit_chr (n mod 1000 div 100),
     digit_chr (n mod 100 div 10), digit_chr (n mod 10)]"

text \<open>\<open>fsfull\<close>: the files written before the file system is full, then unlinked.\<close>

definition fsfull :: "nat \<Rightarrow> unit uact" where
  "fsfull rounds = steps [
     sayln 1 ''fsfull test'',
     seq (loops rounds (\<lambda>nfiles. let f = fsfull_name nfiles in
       seq (sayf 1 (''writing %s'' @ newline) [UStr (Some f)]) (\<lambda>_.
       seq (sys (SOpen f create_rdwr)) (\<lambda>fd.
       if fd < 0 then
         seq (sayf 1 (''open %s failed'' @ newline) [UStr (Some f)]) (\<lambda>_. give (Inr nfiles))
       else seq (loops rounds (\<lambda>total. seq (write_buf fd 512) (\<lambda>cc.
           give (if cc < 512 then Inr total else Inl (total + cc)))) 0) (\<lambda>total.
         seq (steps [
           sayf 1 (''wrote %d bytes'' @ newline) [uint_arg total],
           quiet (SClose fd)]) (\<lambda>_.
         give (if total = 0 then Inr nfiles else Inl (nfiles + 1))))))) 0) (\<lambda>nfiles.
       each (rev [0..<Suc nfiles]) (\<lambda>n. quiet (SUnlink (fsfull_name n)))),
     sayln 1 ''fsfull test finished'']"

end
