(* ===== verification/Proctests.thy ===== *)
theory Proctests
  imports Usertests
begin

text \<open>
  The kernel's tests, usertests.c, of processes, pipes and memory, and its \<open>main\<close>; forktest.c,
  stressfs.c, and the project's tests of \<open>getreadcount\<close>, test_1.c and test_2.c.
\<close>

subsection \<open>Processes and pipes\<close>

definition exectest :: "unit uact" where
  "exectest = steps [
     sayln 1 ''exec test'',
     works (SExec ''echo'' [''echo'', ''ALL'', ''TESTS'', ''PASSED'']) 1 ''exec echo failed'']"

text \<open>
  The reader's loop: the next number of the sequence, how much to read, what was read; \<open>None\<close> if a
  byte is wrong.
\<close>

definition pipe1_read :: "nat \<Rightarrow> int \<Rightarrow> int option uact" where
  "pipe1_read rounds fd = loops rounds (\<lambda>(sq, cc, total).
     seq (reads_buf fd cc) (\<lambda>n.
     if n > 0 then seq globs (\<lambda>g.
       if list_ex (\<lambda>i. of_char (chr_at (gbuf g) i) \<noteq> (sq + i) mod 256) [0..<nat n] then
         seq (sayln 1 ''pipe1 oops 2'') (\<lambda>_. give (Inr None))
       else give (Inl (sq + nat n, min (cc * 2) 8192, total + n)))
     else give (Inr (Some total)))) (0, 1, 0)"

definition pipe1 :: "nat \<Rightarrow> unit uact" where
  "pipe1 rounds = seq upipe (\<lambda>(r, p0, p1). steps [
     sure (r = 0) 1 ''pipe() failed'',
     seq (sys SFork) (\<lambda>pid.
     if pid = 0 then steps [
       quiet (SClose p0),
       each [0..<5] (\<lambda>n. steps [
         seq globs (\<lambda>g. set_buf (map (\<lambda>i. char_of (n * 1033 + i)) [0..<1033] @ drop 1033 (gbuf g))),
         seq (write_buf p1 1033) (\<lambda>r. sure (r = 1033) 1 ''pipe1 oops 1'')]),
       exits]
     else if pid > 0 then
       seq (sys (SClose p1)) (\<lambda>_.
       seq (pipe1_read rounds p0) (\<lambda>res. case res of
         None \<Rightarrow> give ()
       | Some tot \<Rightarrow> steps [
           on (tot \<noteq> 5 * 1033) (failf 1 (''pipe1 oops 3 total %d'' @ newline) [uint_arg tot]),
           quiet (SClose p0),
           quiet SWait,
           sayln 1 ''pipe1 ok'']))
     else fail 1 ''fork() failed'')])"

definition preempt :: "unit uact" where
  "preempt = steps [
     say 1 ''preempt: '',
     seq (sys SFork) (\<lambda>pid1. steps [on (pid1 = 0) spins_on,
     seq (sys SFork) (\<lambda>pid2. steps [on (pid2 = 0) spins_on,
     seq upipe (\<lambda>(_, p0, p1).
     seq (sys SFork) (\<lambda>pid3. steps [
       on (pid3 = 0) (steps [
         quiet (SClose p0),
         seq (sys (SWrite p1 ''x'')) (\<lambda>r. on (r \<noteq> 1) (say 1 ''preempt write error'')),
         quiet (SClose p1),
         spins_on]),
       quiet (SClose p1),
       seq (reads_buf p0 8192) (\<lambda>n.
         if n \<noteq> 1 then say 1 ''preempt read error''
         else steps [
           quiet (SClose p0),
           say 1 ''kill... '',
           quiet (SKill pid1),
           quiet (SKill pid2),
           quiet (SKill pid3),
           say 1 ''wait... '',
           quiet SWait,
           quiet SWait,
           quiet SWait,
           sayln 1 ''preempt ok''])]))])])]"

definition exitwait :: "unit uact" where
  "exitwait = seq (each_until [0..<100] (\<lambda>i. seq (sys SFork) (\<lambda>pid.
     if pid < 0 then seq (sayln 1 ''fork failed'') (\<lambda>_. give (Some ()))
     else if pid \<noteq> 0 then seq (sys SWait) (\<lambda>r.
       if r \<noteq> pid then seq (sayln 1 ''wait wrong pid'') (\<lambda>_. give (Some ())) else give None)
     else exits))) (\<lambda>r. on (r = None) (sayln 1 ''exitwait ok''))"

text \<open>The end of \<open>forktest\<close>, after \<open>n\<close> forks: \<open>None\<close> if all of them worked.\<close>

definition fork_waits :: "(int \<Rightarrow> string \<Rightarrow> unit uact) \<Rightarrow> string \<Rightarrow> nat option \<Rightarrow> unit uact" where
  "fork_waits out msg n = (case n of
     None \<Rightarrow> seq (out 1 msg) (\<lambda>_. exits)
   | Some n \<Rightarrow> steps [
       each [0..<n] (\<lambda>_. seq (sys SWait) (\<lambda>r.
         on (r < 0) (seq (out 1 (''wait stopped early'' @ newline)) (\<lambda>_. exits)))),
       seq (sys SWait) (\<lambda>r. on (r \<noteq> - 1) (seq (out 1 (''wait got too many'' @ newline)) (\<lambda>_. exits))),
       out 1 (''fork test OK'' @ newline)])"

definition forks :: "nat \<Rightarrow> nat option uact" where
  "forks N = each_until [0..<N] (\<lambda>n. seq (sys SFork) (\<lambda>pid.
     if pid < 0 then give (Some n) else if pid = 0 then exits else give None))"

definition user_forktest :: "unit uact" where
  "user_forktest = steps [
     sayln 1 ''fork test'',
     seq (forks 1000) (fork_waits say (''fork claimed to work 1000 times!'' @ newline))]"

text \<open>forktest.c: its own \<open>printf\<close> writes the format at once.\<close>

definition say_raw :: "int \<Rightarrow> string \<Rightarrow> unit uact" where
  "say_raw fd s = quiet (SWrite fd s)"

definition forktest :: "unit uact" where
  "forktest = steps [
     say_raw 1 (''fork test'' @ newline),
     seq (forks 1000) (fork_waits say_raw (''fork claimed to work N times!'' @ newline))]"

definition forktest_main :: prog where
  "forktest_main = forktest \<lparr>gbuf = [], guninit = []\<rparr> (\<lambda>_ _. Exit)"

subsection \<open>Memory\<close>

definition mem_test :: "nat \<Rightarrow> unit uact" where
  "mem_test rounds = steps [
     sayln 1 ''mem test'',
     seq (sys SGetpid) (\<lambda>ppid. seq (sys SFork) (\<lambda>pid.
     if pid = 0 then
       seq (loops rounds (\<lambda>m1. seq (prim_op (Malloc 10001)) (\<lambda>m2.
         if m2 = 0 then give (Inr m1)
         else seq (prim_op (Poke32 m2 m1)) (\<lambda>_. give (Inl m2)))) 0) (\<lambda>m1.
       seq (loops rounds (\<lambda>m1.
         if m1 = 0 then give (Inr ())
         else seq (prim_op (Peek32 m1)) (\<lambda>m2. seq (prim_op (Free m1)) (\<lambda>_. give (Inl m2)))) m1) (\<lambda>_.
       seq (prim_op (Malloc (1024 * 20))) (\<lambda>m1.
       if m1 = 0 then steps [
         sayln 1 (''couldn'' @ [CHR 0x27] @ ''t allocate mem?!!''),
         quiet (SKill ppid),
         exits]
       else seq (prim_op (Free m1)) (\<lambda>_. steps [
         sayln 1 ''mem ok'',
         exits]))))
     else quiet SWait))]"

text \<open>\<open>sbrk\<close> as the pointer it returns; a difference of pointers is an \<open>int\<close>.\<close>

definition sbrk_ptr :: "uint \<Rightarrow> uint uact" where
  "sbrk_ptr n = seq (sys (SSbrk (sint n))) (\<lambda>r. give (word_of_int r))"

definition sbrk_only :: "uint \<Rightarrow> unit uact" where
  "sbrk_only n = seq (sbrk_ptr n) (\<lambda>_. give ())"

definition BIG :: uint where "BIG = 100 * 1024 * 1024"

text \<open>One byte at a time, and after a fork.\<close>

definition sbrk_bytes :: "uint uact" where
  "sbrk_bytes = seq (sbrk_ptr 0) (\<lambda>a. folds [0..<5000] (\<lambda>i a.
     seq (sbrk_ptr 1) (\<lambda>b.
     seq (on (b \<noteq> a)
       (failf 1 (''sbrk test failed %d %x %x'' @ newline) [uint_arg (int i), UWord a, UWord b])) (\<lambda>_.
     seq (prim_op (Poke b 1)) (\<lambda>_. give (b + 1))))) a)"

definition sbrk_fork :: "uint \<Rightarrow> unit uact" where
  "sbrk_fork a = seq (sys SFork) (\<lambda>pid. steps [
     sure (pid \<ge> 0) 1 ''sbrk test fork failed'',
     sbrk_only 1,
     seq (sbrk_ptr 1) (\<lambda>c. sure (c = a + 1) 1 ''sbrk test failed post-fork''),
     on (pid = 0) exits,
     quiet SWait])"

text \<open>Up to \<open>BIG\<close>, a page down and up again, and down to the old break.\<close>

definition sbrk_big :: "uint \<Rightarrow> unit uact" where
  "sbrk_big oldbrk = steps [
     seq (sbrk_ptr 0) (\<lambda>a. seq (sbrk_ptr (BIG - a)) (\<lambda>p.
       sure (p = a) 1 ''sbrk test failed to grow big address space; enough phys mem?'')),
     seq (prim_op (Poke (BIG - 1) 99)) (\<lambda>_. give ()),
     seq (sbrk_ptr 0) (\<lambda>a. steps [
       seq (sbrk_ptr (- 4096)) (\<lambda>c. sure (c \<noteq> 0xffffffff) 1 ''sbrk could not deallocate''),
       seq (sbrk_ptr 0) (\<lambda>c. on (c \<noteq> a - 4096)
         (failf 1 (''sbrk deallocation produced wrong address, a %x c %x'' @ newline) [UWord a, UWord c]))]),
     seq (sbrk_ptr 0) (\<lambda>a. seq (sbrk_ptr 4096) (\<lambda>c.
       let msg = failf 1 (''sbrk re-allocation failed, a %x c %x'' @ newline) [UWord a, UWord c] in
       if c \<noteq> a then msg else seq (sbrk_ptr 0) (\<lambda>b. on (b \<noteq> a + 4096) msg))),
     seq (prim_op (Peek (BIG - 1))) (\<lambda>v.
       sure (v \<noteq> 99) 1 (''sbrk de-allocation didn'' @ [CHR 0x27] @ ''t really deallocate'')),
     seq (sbrk_ptr 0) (\<lambda>a. seq (sbrk_ptr 0) (\<lambda>b. seq (sbrk_ptr (- (b - oldbrk))) (\<lambda>c. on (c \<noteq> a)
       (failf 1 (''sbrk downsize failed, a %x c %x'' @ newline) [UWord a, UWord c]))))]"

text \<open>Kernel memory must not be readable: the addresses from \<open>KERNBASE\<close> on in steps of 50000.\<close>

definition sbrk_kernel :: "unit uact" where
  "sbrk_kernel = each (map (\<lambda>k. 0x80000000 + 50000 * word_of_nat k) [0..<40]) (\<lambda>a.
     seq (sys SGetpid) (\<lambda>ppid. seq (sys SFork) (\<lambda>pid. steps [
       sure (pid \<ge> 0) 1 ''fork failed'',
       on (pid = 0) (seq (prim_op (Peek a)) (\<lambda>v. steps [
         sayf 1 (''oops could read %x = %x'' @ newline) [UWord a, UWord v],
         quiet (SKill ppid),
         exits])),
       quiet SWait])))"

definition sbrk_exhaust :: "nat \<Rightarrow> unit uact" where
  "sbrk_exhaust rounds = seq upipe (\<lambda>(r, p0, p1). steps [
     sure (r = 0) 1 ''pipe() failed'',
     seq (folds [0..<10] (\<lambda>_ pids. seq (sys SFork) (\<lambda>pid.
       if pid = 0 then seq (sbrk_ptr 0) (\<lambda>a. seq (sbrk_ptr (BIG - a)) (\<lambda>_.
         seq (sys (SWrite p1 ''x'')) (\<lambda>_.
         loops rounds (\<lambda>_. seq (sys (SSleep 1000)) (\<lambda>_. give (Inl ()))) ())))
       else seq (if pid \<noteq> - 1 then seq (reads_local p0 1) (\<lambda>_. give ()) else give ()) (\<lambda>_.
         give (pids @ [pid])))) []) (\<lambda>pids.
     seq (sbrk_ptr 4096) (\<lambda>c. steps [
       each pids (\<lambda>pid. on (pid \<noteq> - 1) (steps [quiet (SKill pid), quiet SWait])),
       sure (c \<noteq> 0xffffffff) 1 ''failed sbrk leaked memory'']))])"

definition sbrktest :: "nat \<Rightarrow> unit uact" where
  "sbrktest rounds = steps [
     sayln 1 ''sbrk test'',
     seq (sbrk_ptr 0) (\<lambda>oldbrk. steps [
       seq sbrk_bytes sbrk_fork,
       sbrk_big oldbrk,
       sbrk_kernel,
       sbrk_exhaust rounds,
       seq (sbrk_ptr 0) (\<lambda>b. on (b > oldbrk) (seq (sbrk_ptr 0) (\<lambda>b. sbrk_only (- (b - oldbrk)))))]),
     sayln 1 ''sbrk test OK'']"

text \<open>A \<open>sleep\<close> (system call 13) whose argument is fetched through the stack pointer \<open>p\<close>.\<close>

definition validateint :: "uint \<Rightarrow> unit uact" where
  "validateint p = seq (prim_op (IntSyscall 13 p)) (\<lambda>_. give ())"

definition validatetest :: "unit uact" where
  "validatetest = steps [
     sayln 1 ''validate test'',
     each (map (\<lambda>k. 4096 * word_of_nat k) [0..<1100 * 1024 div 4096 + 1]) (\<lambda>p. steps [
       seq (sys SFork) (\<lambda>pid. steps [
         on (pid = 0) (steps [validateint p, exits]),
         quiet (SSleep 0),
         quiet (SSleep 0),
         quiet (SKill pid),
         quiet SWait]),
       must (\<lambda>r. r = - 1) (SLinkAt ''nosuchfile'' p) 1 ''link should not succeed'']),
     sayln 1 ''validate ok'']"

definition bsstest :: "unit uact" where
  "bsstest = steps [
     sayln 1 ''bss test'',
     seq globs (\<lambda>g. sure (list_all (\<lambda>i. chr_at (guninit g) i = NUL) [0..<10000]) 1 ''bss test failed''),
     sayln 1 ''bss test ok'']"

definition bigargtest :: "unit uact" where
  "bigargtest = steps [
     quiet (SUnlink ''bigarg-ok''),
     seq (sys SFork) (\<lambda>pid. steps [
       (if pid = 0 then steps [
          sayln 1 ''bigarg test'',
          quiet (SExec ''echo'' (replicate (32 - 1)
            (''bigargs test: failed'' @ newline @ replicate 199 (CHR '' '')))),
          sayln 1 ''bigarg test ok'',
          open_close ''bigarg-ok'' fl_create,
          exits]
        else sure (pid \<ge> 0) 1 ''bigargtest: fork failed''),
       quiet SWait]),
     seq (sys (SOpen ''bigarg-ok'' 0)) (\<lambda>fd. steps [
       sure (fd \<ge> 0) 1 ''bigarg test failed!'',
       quiet (SClose fd)]),
     quiet (SUnlink ''bigarg-ok'')]"

definition uio :: "unit uact" where
  "uio = steps [
     sayln 1 ''uio test'',
     seq (sys SFork) (\<lambda>pid. steps [
       (if pid = 0 then seq (prim_op (Outb 0x70 0x09)) (\<lambda>_. seq (prim_op (Inb 0x71)) (\<lambda>_. steps [
          sayln 1 ''uio: uio succeeded; test FAILED'',
          exits]))
        else sure (pid \<ge> 0) 1 ''fork failed''),
       quiet SWait]),
     sayln 1 ''uio test done'']"

text \<open>The read's buffer is the last byte of the process, its count is -1.\<close>

definition argptest :: "unit uact" where
  "argptest = seq (sys (SOpen ''init'' fl_rdonly)) (\<lambda>fd. steps [
     sure (fd \<ge> 0) 2 ''open failed'',
     sbrk_only 0,
     seq (reads_local fd (- 1)) (\<lambda>_. give ()),
     quiet (SClose fd),
     sayln 1 ''arg test passed''])"

definition rand :: "uint \<Rightarrow> uint" where
  "rand randstate = randstate * 1664525 + 1013904223"

subsection \<open>main\<close>

definition usertests :: "nat \<Rightarrow> unit uact" where
  "usertests rounds = steps [
     sayln 1 ''usertests starting'',
     seq (sys (SOpen ''usertests.ran'' 0)) (\<lambda>fd.
       sure (fd < 0) 1 ''already ran user tests -- rebuild fs.img''),
     open_close ''usertests.ran'' fl_create,
     argptest, createdelete, linkunlink, concreate rounds, fourfiles rounds, sharedfd rounds,
     bigargtest, bigwrite, bigargtest, bsstest, sbrktest rounds, validatetest,
     opentest, writetest, writetest1 rounds, createtest,
     openiputtest, exitiputtest, iputtest,
     mem_test rounds, pipe1 rounds, preempt, exitwait,
     rmdot, fourteen, bigfile rounds, subdir, linktest, unlinkread, dirfile, iref, user_forktest, bigdir,
     uio, exectest]"

definition usertests_main :: "nat \<Rightarrow> prog" where
  "usertests_main rounds = usertests rounds
     \<lparr>gbuf = replicate 8192 NUL, guninit = replicate 10000 NUL\<rparr> (\<lambda>_ _. Exit)"

subsection \<open>stressfs.c, test_1.c and test_2.c\<close>

definition stressfs :: "unit uact" where
  "stressfs = steps [
     sayln 1 ''stressfs starting'',
     seq (each_until [0..<4] (\<lambda>i. seq (sys SFork) (\<lambda>pid.
       give (if pid > 0 then Some i else None)))) (\<lambda>r.
     let i = (case r of None \<Rightarrow> 4 | Some i \<Rightarrow> i); path = ''stressfs'' @ [digit_chr i] in steps [
       sayf 1 (''write %d'' @ newline) [uint_arg (int i)],
       seq (sys (SOpen path create_rdwr)) (\<lambda>fd. steps [
         each [0..<20] (\<lambda>_. quiet (SWrite fd (replicate 512 (CHR ''a'')))),
         quiet (SClose fd)]),
       sayln 1 ''read'',
       seq (sys (SOpen path fl_rdonly)) (\<lambda>fd. steps [
         each [0..<20] (\<lambda>_. seq (reads_local fd 512) (\<lambda>_. give ())),
         quiet (SClose fd)]),
       quiet SWait])]"

definition stressfs_main :: prog where
  "stressfs_main = stressfs \<lparr>gbuf = [], guninit = []\<rparr> (\<lambda>_ _. Exit)"

text \<open>The differences of the counts are those of the \<open>int\<close>s that \<open>getreadcount\<close> returns.\<close>

definition test_1 :: "unit uact" where
  "test_1 =
     seq (sys SReadcount) (\<lambda>x1.
     seq (sys SReadcount) (\<lambda>x2.
     seq (reads_local 4 1) (\<lambda>_.
     seq (sys SReadcount) (\<lambda>x3.
     seq (each [0..<1000] (\<lambda>_. seq (reads_local 4 1) (\<lambda>_. give ()))) (\<lambda>_.
     seq (sys SReadcount) (\<lambda>x4.
     sayf 1 (''XV6_TEST_OUTPUT %d %d %d'' @ newline)
       [uint_arg (x2 - x1), uint_arg (x3 - x2), uint_arg (x4 - x3)]))))))"

definition test_2 :: "unit uact" where
  "test_2 =
     seq (sys SReadcount) (\<lambda>x1.
     seq (sys SFork) (\<lambda>rc.
     seq (each [0..<100000] (\<lambda>_. seq (reads_local 4 1) (\<lambda>_. give ()))) (\<lambda>_.
     on (rc > 0) (seq (sys SWait) (\<lambda>_. seq (sys SReadcount) (\<lambda>x2.
       sayf 1 (''XV6_TEST_OUTPUT %d'' @ newline) [uint_arg (x2 - x1)]))))))"

definition test_main :: "unit uact \<Rightarrow> prog" where
  "test_main t = t \<lparr>gbuf = [], guninit = []\<rparr> (\<lambda>_ _. Exit)"

end
