(* ===== verification/Test_Claims.thy ===== *)
theory Test_Claims
  imports Proctests
begin

text \<open>
  What the test programs print on kernels of which only the calls they test matter: one that counts
  reads, and one that has a number of free processes.
\<close>

lemma act_simps [simp]:
  "seq m f g k = m g (\<lambda>x g. f x g k)" "give x g k1 = k1 x g" "sys r g k2 = Call r (\<lambda>x. k2 x g)"
  "say fd s g k3 = puts fd s (k3 () g)" "reads_local fd n g k4 = CallRead fd n (\<lambda>r d. k4 (r, d) g)"
  "exits g k5 = Exit"
  by (simp_all add: seq_def give_def sys_def say_def reads_local_def exits_def)

lemma on_simps [simp]: "on True m = m" "on False m = give ()"
  by (simp_all add: on_def)

subsection \<open>A kernel that counts reads\<close>

text \<open>
  A program on a kernel whose read counter is \<open>c\<close>: what it writes, and the counter at its end.  Reads
  answer anything.
\<close>

primrec counted :: "(uint \<Rightarrow> int \<times> string) \<Rightarrow> prog \<Rightarrow> uint \<Rightarrow> string \<times> uint" where
  "counted ans Exit c = ([], c)"
| "counted ans (Call r k) c = (case r of
     SReadcount \<Rightarrow> counted ans (k (sint c)) c
   | SWrite fd s \<Rightarrow> (let (out, c) = counted ans (k (int (length s))) c in (s @ out, c))
   | _ \<Rightarrow> counted ans (k 0) c)"
| "counted ans (CallPipe k) c = counted ans (k 0 0 0) c"
| "counted ans (CallRead fd n k) c = counted ans (k (fst (ans c)) (snd (ans c))) (c + 1)"
| "counted ans (Do p k) c = counted ans (k 0) c"
| "counted ans Spin c = ([], c)"
| "counted ans More c = ([], c)"

lemma counted_puts: "counted ans (puts fd s k) c = (let (out, c) = counted ans k c in (s @ out, c))"
  by (induction s) (simp_all split: prod.splits)

lemma counted_reads:
  "counted ans (each [i..<i + m] (\<lambda>_. seq (reads_local fd n) (\<lambda>_. give ())) g k) c
    = counted ans (k () g) (c + word_of_nat m)"
proof (induction m arbitrary: i c)
  case (Suc m)
  have "[i..<i + Suc m] = i # [Suc i..<Suc i + m]" by (simp add: upt_conv_Cons)
  then show ?case using Suc [of "Suc i" "c + 1"] by (simp add: add.assoc)
qed simp

lemma count_args:
  "uprintf (''XV6_TEST_OUTPUT %d %d %d'' @ newline) [UWord 0, UWord 1, UWord 1000]
    = Some (''XV6_TEST_OUTPUT 0 1 1000'' @ newline)"
  by code_simp

text \<open>
  The project's test of \<open>getreadcount\<close> prints the output that is expected of it, whatever the counter was
  before, at a wrap-around too, and whatever the reads return.
\<close>

theorem test_1_passes:
  "counted ans (test_main test_1) c = (''XV6_TEST_OUTPUT 0 1 1000'' @ newline, c + 1001)"
proof -
  have d: "word_of_int (sint y - sint x) = y - x" for x y :: uint by simp
  show ?thesis
    using counted_reads [of ans 0 1000]
    by (simp add: test_main_def test_1_def sayf_def counted_puts uint_arg_def d count_args [simplified append.simps]
        del: of_int_diff uprintf.simps)
qed

subsection \<open>A kernel with a table of processes\<close>

text \<open>
  A program on a kernel with \<open>free\<close> free processes, \<open>kids\<close> of its children not waited for: what it and its
  children write, a child's text first.  The children exit before they are waited for.
\<close>

primrec forked :: "prog \<Rightarrow> nat \<Rightarrow> nat \<Rightarrow> string" where
  "forked Exit free kids = []"
| "forked (Call r k) free kids = (case r of
     SFork \<Rightarrow> if free = 0 then forked (k (- 1)) 0 kids
       else forked (k 0) (free - 1) 0 @ forked (k (int free)) (free - 1) (Suc kids)
   | SWait \<Rightarrow> if kids = 0 then forked (k (- 1)) free 0 else forked (k (int kids)) (Suc free) (kids - 1)
   | SWrite fd s \<Rightarrow> s @ forked (k (int (length s))) free kids
   | _ \<Rightarrow> forked (k 0) free kids)"
| "forked (CallPipe k) free kids = forked (k 0 0 0) free kids"
| "forked (CallRead fd n k) free kids = forked (k 0 []) free kids"
| "forked (Do p k) free kids = forked (k 0) free kids"
| "forked Spin free kids = []"
| "forked More free kids = []"

lemma forked_puts: "forked (puts fd s k) free kids = s @ forked k free kids"
  by (induction s) simp_all

lemma forked_forks:
  "forked (each_until [i..<i + m] (\<lambda>n. seq (sys SFork) (\<lambda>pid.
       if pid < 0 then give (Some n) else if pid = 0 then exits else give None)) g k) free kids
    = (if free < m then forked (k (Some (i + free)) g) 0 (kids + free)
       else forked (k None g) (free - m) (kids + m))"
proof (induction m arbitrary: i free kids)
  case (Suc m)
  have "[i..<i + Suc m] = i # [Suc i..<Suc i + m]" by (simp add: upt_conv_Cons)
  then show ?case using Suc [of "Suc i" "free - 1" "Suc kids"] by (cases free) auto
qed simp

lemma forked_waits:
  "forked (each [i..<i + m] (\<lambda>_. seq (sys SWait) (\<lambda>r. on (r < 0) (act r))) g k) free (kids + m)
    = forked (k () g) (free + m) kids"
proof (induction m arbitrary: i free)
  case (Suc m)
  have "[i..<i + Suc m] = i # [Suc i..<Suc i + m]" by (simp add: upt_conv_Cons)
  then show ?case using Suc [of "Suc i" "Suc free"] by simp
qed simp

text \<open>
  The fork test passes exactly on a kernel that refuses a fork before the thousandth: it forks until
  it is refused, waits for every child and finds no other.
\<close>

theorem forktest_passes:
  "forked forktest_main free 0 = ''fork test'' @ newline @
     (if free < 1000 then ''fork test OK'' else ''fork claimed to work N times!'') @ newline"
  "forked (test_main user_forktest) free 0 = ''fork test'' @ newline @
     (if free < 1000 then ''fork test OK'' else ''fork claimed to work 1000 times!'') @ newline"
proof -
  note f = forked_forks [of 0 1000, simplified] and w = forked_waits [of 0 free _ _ _ _ 0, simplified]
  show "forked forktest_main free 0 = ''fork test'' @ newline @
     (if free < 1000 then ''fork test OK'' else ''fork claimed to work N times!'') @ newline"
    by (simp add: forktest_main_def forktest_def forks_def say_raw_def quiet_def fork_waits_def f w)
  show "forked (test_main user_forktest) free 0 = ''fork test'' @ newline @
     (if free < 1000 then ''fork test OK'' else ''fork claimed to work 1000 times!'') @ newline"
    by (simp add: test_main_def user_forktest_def sayln_def forked_puts forks_def fork_waits_def f w)
qed

end
